(* ===== verification/Prelude.thy ===== *)
theory Prelude
  imports Complex_Main "HOL-Library.AList" "HOL-Library.Word"
begin

text \<open>
  What every component of the model shares.

  Python values: a float is a rational or one of the three special values
  (\<open>pyfloat\<close>), with Python's own \<open>min\<close> and \<open>max\<close>, which return their first
  argument unless the comparison says otherwise, so a NaN passes through them
  the way it does at run time. A dictionary whose order matters is an
  association list: \<^const>\<open>AList.update\<close> overwrites in place or appends, which is
  Python's insertion order, and \<^const>\<open>AList.delete\<close> is \<open>pop\<close>. A bag of counts
  (\<open>table[key] = table.get(key, 0) + n\<close>) is such a dictionary of integers, read
  by \<open>tally\<close> and written by \<open>bump_tally\<close>.

  Diagnostic counters (\<open>_assembly/_diag.py\<close>) are a log of the names bumped, in
  order, because the code only ever adds one to a name.

  The collection \<open>tally_simps\<close> gathers the facts about counting that the
  component proofs share.
\<close>

named_theorems tally_simps \<open>facts about tallies\<close>

section \<open>Python floats\<close>

datatype pyfloat = PNaN | PNegInf | PFin rat | PPosInf

fun pf_less :: "pyfloat \<Rightarrow> pyfloat \<Rightarrow> bool" where
  "pf_less PNaN _ = False"
| "pf_less _ PNaN = False"
| "pf_less PNegInf PNegInf = False"
| "pf_less PNegInf _ = True"
| "pf_less (PFin a) PNegInf = False"
| "pf_less (PFin a) (PFin b) = (a < b)"
| "pf_less (PFin a) PPosInf = True"
| "pf_less PPosInf _ = False"

definition pf_le :: "pyfloat \<Rightarrow> pyfloat \<Rightarrow> bool" where
  "pf_le a b \<longleftrightarrow> pf_less a b \<or> (a = b \<and> a \<noteq> PNaN)"

definition is_nan :: "pyfloat \<Rightarrow> bool" where
  "is_nan x \<longleftrightarrow> x = PNaN"

definition py_min :: "pyfloat \<Rightarrow> pyfloat \<Rightarrow> pyfloat" where
  "py_min a b = (if pf_less b a then b else a)"

definition py_max :: "pyfloat \<Rightarrow> pyfloat \<Rightarrow> pyfloat" where
  "py_max a b = (if pf_less a b then b else a)"

lemma pf_less_irrefl [simp]: "\<not> pf_less x x"
  by (cases x) auto

lemma pf_le_refl: "x \<noteq> PNaN \<Longrightarrow> pf_le x x"
  by (simp add: pf_le_def)

lemma pf_le_PFin [simp]: "pf_le (PFin a) (PFin b) \<longleftrightarrow> a \<le> b"
  by (auto simp: pf_le_def)

lemma pf_le_trans: "pf_le a b \<Longrightarrow> pf_le b c \<Longrightarrow> pf_le a c"
  by (cases a; cases b; cases c) (auto simp: pf_le_def)

lemma pf_not_less: "a \<noteq> PNaN \<Longrightarrow> b \<noteq> PNaN \<Longrightarrow> \<not> pf_less a b \<Longrightarrow> pf_le b a"
  by (cases a; cases b) (auto simp: pf_le_def)

lemma py_min_Fin [simp]: "py_min (PFin a) (PFin b) = PFin (min a b)"
  by (simp add: py_min_def min_def)

lemma py_max_Fin [simp]: "py_max (PFin a) (PFin b) = PFin (max a b)"
  by (simp add: py_max_def max_def)

section \<open>Dictionaries in insertion order\<close>

lemma map_of_update: "map_of (AList.update k v d) k' = (if k = k' then Some v else map_of d k')"
  by (simp add: update_conv')

lemma map_of_delete: "map_of (AList.delete k d) k' = (if k = k' then None else map_of d k')"
  by (simp add: delete_conv')

lemma length_update_le: "length (AList.update k v d) \<le> Suc (length d)"
  by (induction d) auto

lemma length_delete_le: "length (AList.delete k d) \<le> length d"
  by (simp add: AList.delete_eq)

lemma update_new: "k \<notin> fst ` set d \<Longrightarrow> AList.update k v d = d @ [(k, v)]"
  by (induction d) auto

lemma delete_absent: "k \<notin> fst ` set d \<Longrightarrow> AList.delete k d = d"
  by (induction d) auto

section \<open>Tallies\<close>

definition tally :: "('k \<times> int) list \<Rightarrow> 'k \<Rightarrow> int" where
  "tally d k = (case map_of d k of None \<Rightarrow> 0 | Some n \<Rightarrow> n)"

definition bump_tally :: "'k \<Rightarrow> int \<Rightarrow> ('k \<times> int) list \<Rightarrow> ('k \<times> int) list" where
  "bump_tally k n d = AList.update k (tally d k + n) d"

lemma tally_Nil [simp, tally_simps]: "tally [] k = 0"
  by (simp add: tally_def)

lemma tally_bump [simp, tally_simps]:
  "tally (bump_tally k n d) k' = tally d k' + (if k = k' then n else 0)"
  by (auto simp: bump_tally_def tally_def map_of_update)

lemma fst_set_bump [tally_simps]: "fst ` set (bump_tally k n d) = insert k (fst ` set d)"
  by (simp add: bump_tally_def dom_update)

lemma distinct_bump: "distinct (map fst d) \<Longrightarrow> distinct (map fst (bump_tally k n d))"
  by (simp add: bump_tally_def distinct_update)

fun bump_all :: "('k \<times> int) list \<Rightarrow> ('k \<times> int) list \<Rightarrow> ('k \<times> int) list" where
  "bump_all [] d = d"
| "bump_all ((k, n) # xs) d = bump_all xs (bump_tally k n d)"

fun amount :: "('k \<times> int) list \<Rightarrow> 'k \<Rightarrow> int" where
  "amount [] k = 0"
| "amount ((k', n) # xs) k = (if k' = k then n else 0) + amount xs k"

lemma tally_bump_all [simp, tally_simps]: "tally (bump_all xs d) k = tally d k + amount xs k"
  by (induction xs d rule: bump_all.induct) auto

lemma distinct_bump_all: "distinct (map fst d) \<Longrightarrow> distinct (map fst (bump_all xs d))"
  by (induction xs d rule: bump_all.induct) (auto intro: distinct_bump)

lemma amount_append [simp, tally_simps]: "amount (xs @ ys) k = amount xs k + amount ys k"
  by (induction xs) auto

lemma amount_absent: "k \<notin> fst ` set xs \<Longrightarrow> amount xs k = 0"
  by (induction xs) auto

lemma tally_absent: "k \<notin> fst ` set d \<Longrightarrow> tally d k = 0"
  by (force simp: tally_def map_of_eq_None_iff[THEN iffD2] split: option.splits dest: map_of_SomeD)

lemma amount_eq_tally: "distinct (map fst d) \<Longrightarrow> amount d k = tally d k"
proof (induction d)
  case Nil
  then show ?case by simp
next
  case (Cons p d)
  obtain k' n where p: "p = (k', n)" by (cases p)
  show ?case
  proof (cases "k' = k")
    case True
    with Cons.prems p have "amount d k = 0" by (auto intro: amount_absent)
    with True p show ?thesis by (simp add: tally_def)
  next
    case False
    with Cons p show ?thesis by (simp add: tally_def)
  qed
qed

lemma map_of_tally: "map_of d k = Some n \<Longrightarrow> tally d k = n"
  by (simp add: tally_def)

lemma tally_mem: "distinct (map fst d) \<Longrightarrow> (k, n) \<in> set d \<Longrightarrow> tally d k = n"
  by (simp add: tally_def)

section \<open>Diagnostic counters\<close>

type_synonym counters = "string list"

definition bumps :: "counters \<Rightarrow> string \<Rightarrow> nat" where
  "bumps c name = count_list c name"

section \<open>Lists the code bounds\<close>

lemma length_filter_neq: "x \<in> set xs \<Longrightarrow> length (filter (\<lambda>y. y \<noteq> x) xs) < length xs"
  by (induction xs) (auto simp: le_imp_less_Suc)

lemma sum_list_remove1:
  fixes f :: "'a \<Rightarrow> int"
  assumes "x \<in> set xs"
  shows "sum_list (map f (remove1 x xs)) = sum_list (map f xs) - f x"
  using assms by (induction xs) auto

end
