(* ===== verification/Types.thy ===== *)
theory Types
  imports Prelude
begin

text \<open>
  The value types of \<open>_types.py\<close>, \<open>_assembly/_integrity.py\<close> and the closed
  vocabulary of parent sources, shared by every component.

  A trace id and a span id are the byte strings the dataclasses wrap. A
  conversation is a reference: the code compares conversations by object
  identity and otherwise only carries them. Frozen dataclasses are records.
\<close>

type_synonym byte = "8 word"
type_synonym bytes = "byte list"
type_synonym trace_id = bytes
type_synonym span_id = bytes
type_synonym conversation = nat

text \<open>A Python \<open>str\<close> is a sequence of code points; \<open>str_lit\<close> reads a literal.\<close>

type_synonym py_text = "nat list"

definition str_lit :: "string \<Rightarrow> py_text" where
  "str_lit cs = map of_char cs"

record span_context =
  sc_trace_id :: trace_id
  sc_span_id :: span_id
  sc_trace_flags :: int
  sc_is_remote :: bool

text \<open>\<open>Limitation\<close>, the closed vocabulary of span markers, with its wire values.\<close>

datatype (plugins only: code) limitation =
    PARENT_UNRESOLVED
  | UNIT_INFERRED_SOLE
  | CORRELATION_CONFLICT
  | ALIAS_FORGOTTEN
  | CONTEXT_PROPAGATION_DEGRADED
  | CONTEXT_PROPAGATION_UNAVAILABLE
  | UNIT_EVICTED
  | UNIT_INTERRUPTED
  | CHILD_SPAN_UNCLOSED
  | UNIT_TABLE_FULL
  | SESSION_ENTRY_TABLE_FULL
  | ADAPTER_UNINSTALLED
  | PATCH_SUPERSEDED
  | INSTRUMENTATION_DEGRADED
  | TRACKING_RESET_AT_FORK
  | NO_WIRE_EVIDENCE
  | POSSIBLE_DUPLICATE_CHAT
  | STREAM_BUFFER_EXCEEDED
  | TOOL_CALL_ID_UNAVAILABLE_IN_PROCESS
  | SNAPSHOT_TYPE_UNKNOWN
  | TOOL_NAME_COLLISION
  | LINK_AMBIGUOUS
  | CONNECT_TIMING_UNAVAILABLE
  | TTFT_UNAVAILABLE_H2
  | TTFT_IPC_APPROXIMATION
  | TRANSPORT_TIMING_UNAVAILABLE_SUBPROCESS
  | PEER_UNRESOLVED
  | BODY_CAP_EXCEEDED
  | GRPC_MESSAGE_TRUNCATED
  | WS_PAYLOAD_TRUNCATED
  | CONNECTION_EVICTED
  | H2_REQUEST_EVICTED
  | PARSE_SKIPPED_AT_SHUTDOWN
  | OTLP_ATTRIBUTE_TRUNCATED
  | EXTRA_KEYS_DROPPED
  | PARSE_BACKLOG_FULL
  | FRAME_PARSE_FAILED
  | SEMANTIC_PARSE_FAILED
  | PAYLOAD_COMPRESSED
  | TOOL_ARGS_UNPARSED
  | OUTPUT_MESSAGES_UNMAPPED_PART
  | INPUT_MESSAGES_UNMAPPED_PART
  | PROVIDER_INFERRED
  | REASSEMBLED_FROM_STREAM
  | STREAM_USAGE_UNAVAILABLE
  | SSE_UNKNOWN_PROVIDER
  | SSE_EVENT_UNPARSED
  | GRPC_WEB_UNSUPPORTED
  | GRPC_STATUS_UNAVAILABLE
  | WS_NO_CLOSE
  | WS_LLM_SEMANTICS_UNREAD
  | SESSION_ABORTED
  | OTEL_BRIDGE_NO_DATA
  | OTEL_BRIDGE_SCHEMA_UNKNOWN
  | OTEL_BRIDGE_JOIN_TOLERANT
  | SUBPROCESS_MODEL_CALLS_UNOBSERVED
  | PII_FILTER_FAILED

primrec limitation_value :: "limitation \<Rightarrow> string" where
  "limitation_value PARENT_UNRESOLVED = ''parent_unresolved''"
| "limitation_value UNIT_INFERRED_SOLE = ''unit_inferred_sole''"
| "limitation_value CORRELATION_CONFLICT = ''correlation_conflict''"
| "limitation_value ALIAS_FORGOTTEN = ''alias_forgotten''"
| "limitation_value CONTEXT_PROPAGATION_DEGRADED = ''context_propagation_degraded''"
| "limitation_value CONTEXT_PROPAGATION_UNAVAILABLE = ''context_propagation_unavailable''"
| "limitation_value UNIT_EVICTED = ''unit_evicted''"
| "limitation_value UNIT_INTERRUPTED = ''unit_interrupted''"
| "limitation_value CHILD_SPAN_UNCLOSED = ''child_span_unclosed''"
| "limitation_value UNIT_TABLE_FULL = ''unit_table_full''"
| "limitation_value SESSION_ENTRY_TABLE_FULL = ''session_entry_table_full''"
| "limitation_value ADAPTER_UNINSTALLED = ''adapter_uninstalled''"
| "limitation_value PATCH_SUPERSEDED = ''patch_superseded''"
| "limitation_value INSTRUMENTATION_DEGRADED = ''instrumentation_degraded''"
| "limitation_value TRACKING_RESET_AT_FORK = ''tracking_reset_at_fork''"
| "limitation_value NO_WIRE_EVIDENCE = ''no_wire_evidence''"
| "limitation_value POSSIBLE_DUPLICATE_CHAT = ''possible_duplicate_chat''"
| "limitation_value STREAM_BUFFER_EXCEEDED = ''stream_buffer_exceeded''"
| "limitation_value TOOL_CALL_ID_UNAVAILABLE_IN_PROCESS = ''tool_call_id_unavailable_in_process''"
| "limitation_value SNAPSHOT_TYPE_UNKNOWN = ''snapshot_type_unknown''"
| "limitation_value TOOL_NAME_COLLISION = ''tool_name_collision''"
| "limitation_value LINK_AMBIGUOUS = ''link_ambiguous''"
| "limitation_value CONNECT_TIMING_UNAVAILABLE = ''connect_timing_unavailable''"
| "limitation_value TTFT_UNAVAILABLE_H2 = ''ttft_unavailable_h2''"
| "limitation_value TTFT_IPC_APPROXIMATION = ''ttft_ipc_approximation''"
| "limitation_value TRANSPORT_TIMING_UNAVAILABLE_SUBPROCESS = ''transport_timing_unavailable_subprocess''"
| "limitation_value PEER_UNRESOLVED = ''peer_unresolved''"
| "limitation_value BODY_CAP_EXCEEDED = ''body_cap_exceeded''"
| "limitation_value GRPC_MESSAGE_TRUNCATED = ''grpc_message_truncated''"
| "limitation_value WS_PAYLOAD_TRUNCATED = ''ws_payload_truncated''"
| "limitation_value CONNECTION_EVICTED = ''connection_evicted''"
| "limitation_value H2_REQUEST_EVICTED = ''h2_request_evicted''"
| "limitation_value PARSE_SKIPPED_AT_SHUTDOWN = ''parse_skipped_at_shutdown''"
| "limitation_value OTLP_ATTRIBUTE_TRUNCATED = ''otlp_attribute_truncated''"
| "limitation_value EXTRA_KEYS_DROPPED = ''extra_keys_dropped''"
| "limitation_value PARSE_BACKLOG_FULL = ''parse_backlog_full''"
| "limitation_value FRAME_PARSE_FAILED = ''frame_parse_failed''"
| "limitation_value SEMANTIC_PARSE_FAILED = ''semantic_parse_failed''"
| "limitation_value PAYLOAD_COMPRESSED = ''payload_compressed''"
| "limitation_value TOOL_ARGS_UNPARSED = ''tool_args_unparsed''"
| "limitation_value OUTPUT_MESSAGES_UNMAPPED_PART = ''output_messages_unmapped_part''"
| "limitation_value INPUT_MESSAGES_UNMAPPED_PART = ''input_messages_unmapped_part''"
| "limitation_value PROVIDER_INFERRED = ''provider_inferred''"
| "limitation_value REASSEMBLED_FROM_STREAM = ''reassembled_from_stream''"
| "limitation_value STREAM_USAGE_UNAVAILABLE = ''stream_usage_unavailable''"
| "limitation_value SSE_UNKNOWN_PROVIDER = ''sse_unknown_provider''"
| "limitation_value SSE_EVENT_UNPARSED = ''sse_event_unparsed''"
| "limitation_value GRPC_WEB_UNSUPPORTED = ''grpc_web_unsupported''"
| "limitation_value GRPC_STATUS_UNAVAILABLE = ''grpc_status_unavailable''"
| "limitation_value WS_NO_CLOSE = ''ws_no_close''"
| "limitation_value WS_LLM_SEMANTICS_UNREAD = ''ws_llm_semantics_unread''"
| "limitation_value SESSION_ABORTED = ''session_aborted''"
| "limitation_value OTEL_BRIDGE_NO_DATA = ''otel_bridge_no_data''"
| "limitation_value OTEL_BRIDGE_SCHEMA_UNKNOWN = ''otel_bridge_schema_unknown''"
| "limitation_value OTEL_BRIDGE_JOIN_TOLERANT = ''otel_bridge_join_tolerant''"
| "limitation_value SUBPROCESS_MODEL_CALLS_UNOBSERVED = ''subprocess_model_calls_unobserved''"
| "limitation_value PII_FILTER_FAILED = ''pii_filter_failed''"

text \<open>\<open>ParentSource\<close> of \<open>_assembly/_parentage.py\<close>.\<close>

datatype parent_source =
    CONTEXTVAR
  | HEADER
  | UNIT_ACTIVE
  | UNIT_ALIAS
  | UNIT_SOLE
  | TRACE_ROOT
  | UNRESOLVED

record correlation_info =
  ci_operation_id :: "py_text option"
  ci_request_id :: "py_text option"
  ci_attempt_id :: "py_text option"
  ci_active_span_id_at_capture :: "span_id option"
  ci_confidence :: pyfloat
  ci_strategy :: "parent_source option"

end
