(* ===== verification/Carrier.thy ===== *)
theory Carrier
  imports Types
begin

text \<open>
  The contract of everything that carries markers to the wire: the resolved edge
  (\<open>Parentage.with_limitation\<close>), the integrity record of a span
  (\<open>IntegrityBuilder.limitation\<close>), a state snapshot (\<open>SnapshotDraft.add_limitation\<close>) and
  the observers of a span (\<open>SpanDraft.add_source\<close>). Each attaches a value at most once
  and keeps the order of arrival. The components interpret the locale on their own
  operation; the lemmas are proved once, here.
\<close>

locale marker_carrier =
  fixes attach_one :: "'m \<Rightarrow> 's \<Rightarrow> 's"
    and held :: "'s \<Rightarrow> 'm list"
  assumes held_attach: "held (attach_one m s) = (if m \<in> set (held s) then held s else held s @ [m])"
begin

lemma set_held: "set (held (attach_one m s)) = insert m (set (held s))"
  by (auto simp: held_attach)

lemma distinct_held: "distinct (held s) \<Longrightarrow> distinct (held (attach_one m s))"
  by (simp add: held_attach)

lemma keeps_order: "\<exists>rest. held (attach_one m s) = held s @ rest"
  by (simp add: held_attach)

lemma held_again: "held (attach_one m (attach_one m s)) = held (attach_one m s)"
  by (simp add: held_attach)

lemma set_held_fold: "set (held (fold attach_one ms s)) = set (held s) \<union> set ms"
  by (induction ms arbitrary: s) (auto simp: set_held)

lemma distinct_held_fold: "distinct (held s) \<Longrightarrow> distinct (held (fold attach_one ms s))"
  by (induction ms arbitrary: s) (simp_all add: distinct_held)

lemma keeps_order_fold: "\<exists>rest. held (fold attach_one ms s) = held s @ rest"
proof (induction ms arbitrary: s)
  case Nil
  then show ?case by simp
next
  case (Cons m ms)
  obtain r where "held (fold attach_one ms (attach_one m s)) = held (attach_one m s) @ r"
    using Cons by blast
  moreover obtain r' where "held (attach_one m s) = held s @ r'" using keeps_order by blast
  ultimately show ?case by simp
qed

lemma held_fold_fresh:
  "distinct (held s @ ms) \<Longrightarrow> held (fold attach_one ms s) = held s @ ms"
proof (induction ms arbitrary: s)
  case Nil
  then show ?case by simp
next
  case (Cons m ms)
  have "held (attach_one m s) = held s @ [m]" using Cons.prems by (simp add: held_attach)
  with Cons.IH [of "attach_one m s"] Cons.prems show ?case by simp
qed

end

text \<open>A carrier that is left as it is, whole, when it holds the marker already.\<close>

locale settled_carrier = marker_carrier +
  assumes attach_held: "m \<in> set (held s) \<Longrightarrow> attach_one m s = s"
begin

lemma attach_again: "attach_one m (attach_one m s) = attach_one m s"
  by (rule attach_held) (simp add: set_held)

lemma attach_all_held: "set ms \<subseteq> set (held s) \<Longrightarrow> fold attach_one ms s = s"
  by (induction ms) (auto simp: attach_held)

end

end
