(* ===== verification/Parentage.thy ===== *)
theory Parentage
  imports Carrier
begin

text \<open>
  \<open>_assembly/_parentage.py\<close>: the one place where a span gets its trace id and its
  parent. A latched scope (\<open>ambient\<close>) and what the caller knows (\<open>evidence\<close>)
  become one resolved edge (\<open>parentage\<close>).

  Random ids (\<open>TraceId.generate\<close>, \<open>SpanId.generate\<close>) are an argument: the id the
  operating system returned. The task-local flag \<open>_degraded_run\<close> is the argument
  \<open>degraded\<close> of \<open>resolve_observed\<close> and the state of \<open>degraded_run\<close>.
\<close>

section \<open>Evidence and its confidence\<close>

record evidence =
  ev_source :: parent_source
  ev_request_id :: "py_text option"
  ev_operation_id :: "py_text option"
  ev_attempt_id :: "py_text option"
  ev_confidence :: "pyfloat option"

definition evidence_of :: "parent_source \<Rightarrow> evidence" where
  "evidence_of src = \<lparr>ev_source = src, ev_request_id = None, ev_operation_id = None,
     ev_attempt_id = None, ev_confidence = None\<rparr>"

definition AMBIENT :: evidence where
  "AMBIENT = evidence_of CONTEXTVAR"

fun confidence_table :: "parent_source \<Rightarrow> rat" where
  "confidence_table CONTEXTVAR = 1"
| "confidence_table UNIT_ACTIVE = 1"
| "confidence_table HEADER = 1"
| "confidence_table UNIT_ALIAS = 9 / 10"
| "confidence_table UNIT_SOLE = 5 / 10"
| "confidence_table TRACE_ROOT = 1"
| "confidence_table UNRESOLVED = 0"

fun marker_table :: "parent_source \<Rightarrow> limitation option" where
  "marker_table CONTEXTVAR = None"
| "marker_table UNIT_ACTIVE = None"
| "marker_table HEADER = None"
| "marker_table UNIT_ALIAS = None"
| "marker_table UNIT_SOLE = Some UNIT_INFERRED_SOLE"
| "marker_table TRACE_ROOT = None"
| "marker_table UNRESOLVED = Some PARENT_UNRESOLVED"

definition confidence_for :: "parent_source \<Rightarrow> evidence \<Rightarrow> pyfloat" where
  "confidence_for source evidence =
     (let default = PFin (confidence_table source) in
      case ev_confidence evidence of
        None \<Rightarrow> default
      | Some supplied \<Rightarrow>
          if is_nan supplied then default
          else py_max (PFin 0) (py_min default supplied))"

definition cap_at_alias_tier :: "evidence \<Rightarrow> evidence" where
  "cap_at_alias_tier evidence =
     (let tier = PFin (confidence_table UNIT_ALIAS) in
      case ev_confidence evidence of
        None \<Rightarrow> evidence\<lparr>ev_confidence := Some tier\<rparr>
      | Some supplied \<Rightarrow>
          if is_nan supplied then evidence\<lparr>ev_confidence := Some tier\<rparr>
          else evidence\<lparr>ev_confidence := Some (py_min tier supplied)\<rparr>)"

definition markers_for :: "parent_source \<Rightarrow> limitation list" where
  "markers_for source = (case marker_table source of None \<Rightarrow> [] | Some marker \<Rightarrow> [marker])"

section \<open>The resolved edge\<close>

record parentage =
  pa_trace_id :: trace_id
  pa_parent_span_id :: "span_id option"
  pa_trace_flags :: int
  pa_tracestate :: "py_text option"
  pa_conversation :: "conversation option"
  pa_correlation :: correlation_info
  pa_joined :: bool
  pa_limitations :: "limitation list"

definition child_context :: "span_id \<Rightarrow> parentage \<Rightarrow> span_context" where
  "child_context fresh_span p =
     \<lparr>sc_trace_id = pa_trace_id p, sc_span_id = fresh_span,
      sc_trace_flags = pa_trace_flags p, sc_is_remote = False\<rparr>"

definition with_limitation :: "parentage \<Rightarrow> limitation \<Rightarrow> parentage" where
  "with_limitation p marker =
     (if marker \<in> set (pa_limitations p) then p
      else p\<lparr>pa_limitations := pa_limitations p @ [marker]\<rparr>)"

record ambient =
  am_span_context :: "span_context option"
  am_conversation :: "conversation option"
  am_tracestate :: "py_text option"

definition is_local :: "ambient \<Rightarrow> bool" where
  "is_local amb = (case am_span_context amb of None \<Rightarrow> False | Some c \<Rightarrow> \<not> sc_is_remote c)"

definition EMPTY_AMBIENT :: ambient where
  "EMPTY_AMBIENT = \<lparr>am_span_context = None, am_conversation = None, am_tracestate = None\<rparr>"

definition resolve_parentage :: "trace_id \<Rightarrow> ambient \<Rightarrow> evidence \<Rightarrow> parentage" where
  "resolve_parentage fresh_trace amb evidence =
     (case am_span_context amb of
        None \<Rightarrow>
          let src = (if ev_source evidence = CONTEXTVAR then TRACE_ROOT else ev_source evidence)
          in \<lparr>pa_trace_id = fresh_trace,
              pa_parent_span_id = None,
              pa_trace_flags = 1,
              pa_tracestate = am_tracestate amb,
              pa_conversation = am_conversation amb,
              pa_correlation =
                \<lparr>ci_operation_id = ev_operation_id evidence,
                 ci_request_id = ev_request_id evidence,
                 ci_attempt_id = ev_attempt_id evidence,
                 ci_active_span_id_at_capture = None,
                 ci_confidence = confidence_for src evidence,
                 ci_strategy = Some src\<rparr>,
              pa_joined = False,
              pa_limitations = markers_for src\<rparr>
      | Some parent \<Rightarrow>
          let src = (if ev_source evidence = CONTEXTVAR \<and> sc_is_remote parent then HEADER
                     else ev_source evidence)
          in \<lparr>pa_trace_id = sc_trace_id parent,
              pa_parent_span_id = Some (sc_span_id parent),
              pa_trace_flags = sc_trace_flags parent,
              pa_tracestate = am_tracestate amb,
              pa_conversation = am_conversation amb,
              pa_correlation =
                \<lparr>ci_operation_id = ev_operation_id evidence,
                 ci_request_id = ev_request_id evidence,
                 ci_attempt_id = ev_attempt_id evidence,
                 ci_active_span_id_at_capture = Some (sc_span_id parent),
                 ci_confidence = confidence_for src evidence,
                 ci_strategy = Some src\<rparr>,
              pa_joined = True,
              pa_limitations = markers_for src\<rparr>)"

text \<open>\<open>child_of\<close> has a parent, so the random trace id it would draw is never
  reached: the argument is there because the code calls \<open>resolve_parentage\<close>.\<close>

definition child_of ::
  "trace_id \<Rightarrow> span_context \<Rightarrow> evidence \<Rightarrow> conversation option \<Rightarrow> py_text option \<Rightarrow> parentage" where
  "child_of fresh_trace anchor evidence conversation tracestate =
     resolve_parentage fresh_trace
       \<lparr>am_span_context = Some anchor, am_conversation = conversation,
        am_tracestate = tracestate\<rparr> evidence"

definition ORPHANED_BY_WARDEX :: evidence where
  "ORPHANED_BY_WARDEX = evidence_of UNRESOLVED"

text \<open>The task-local flag: the block runs with it set and the previous value is
  back afterwards, whether the block returned or raised.\<close>

definition degraded_run :: "(bool \<Rightarrow> 'r \<times> bool) \<Rightarrow> bool \<Rightarrow> 'r \<times> bool" where
  "degraded_run block flag = (let (result, _) = block True in (result, flag))"

definition resolve_observed ::
  "trace_id \<Rightarrow> ambient \<Rightarrow> bool \<Rightarrow> bool \<Rightarrow> bool \<Rightarrow> parentage" where
  "resolve_observed fresh_trace amb parent_closed parent_evicted degraded =
     (if parent_closed then resolve_parentage fresh_trace EMPTY_AMBIENT ORPHANED_BY_WARDEX
      else if parent_evicted then
        with_limitation (resolve_parentage fresh_trace EMPTY_AMBIENT ORPHANED_BY_WARDEX)
          INSTRUMENTATION_DEGRADED
      else if am_span_context amb = None \<and> degraded then
        with_limitation (resolve_parentage fresh_trace amb ORPHANED_BY_WARDEX)
          INSTRUMENTATION_DEGRADED
      else resolve_parentage fresh_trace amb AMBIENT)"

section \<open>Library lemmas\<close>

lemmas parentage_defs =
  resolve_parentage_def child_of_def resolve_observed_def Let_def

lemma confidence_table_range: "0 \<le> confidence_table src" "confidence_table src \<le> 1"
  by (cases src; simp)+

lemma confidence_for_range:
  "pf_le (PFin 0) (confidence_for src e) \<and> pf_le (confidence_for src e) (PFin (confidence_table src))"
  using confidence_table_range [of src]
  by (auto simp: confidence_for_def Let_def is_nan_def py_max_def py_min_def pf_le_def
      split: option.splits pyfloat.splits)

lemma with_limitation_frame [simp]:
  "pa_trace_id (with_limitation p m) = pa_trace_id p"
  "pa_parent_span_id (with_limitation p m) = pa_parent_span_id p"
  "pa_trace_flags (with_limitation p m) = pa_trace_flags p"
  "pa_tracestate (with_limitation p m) = pa_tracestate p"
  "pa_conversation (with_limitation p m) = pa_conversation p"
  "pa_correlation (with_limitation p m) = pa_correlation p"
  "pa_joined (with_limitation p m) = pa_joined p"
  by (simp_all add: with_limitation_def)

interpretation edge: settled_carrier "\<lambda>m p. with_limitation p m" "pa_limitations :: parentage \<Rightarrow> _"
  by unfold_locales (simp_all add: with_limitation_def)

lemmas with_limitation_markers [simp] = edge.set_held
lemmas with_limitation_idem [simp] = edge.attach_again
lemmas distinct_with_limitation = edge.distinct_held

lemma distinct_markers_for [simp]: "distinct (markers_for src)"
  by (cases src) (simp_all add: markers_for_def)

lemma confidence_for_default:
  "ev_confidence e = None \<Longrightarrow> confidence_for src e = PFin (confidence_table src)"
  by (simp add: confidence_for_def)

lemma confidence_for_cong:
  "ev_confidence e = ev_confidence e' \<Longrightarrow> confidence_for src e = confidence_for src e'"
  by (simp add: confidence_for_def)

text \<open>A subtree grown the way adapters grow one: each span is a child of the one
  before, and its own context anchors the next.\<close>

fun grow :: "trace_id \<Rightarrow> span_context \<Rightarrow> (evidence \<times> span_id) list \<Rightarrow> (parentage \<times> span_context) list" where
  "grow fresh anchor [] = []"
| "grow fresh anchor ((e, sid) # rest) =
     (let p = child_of fresh anchor e None None; ctx = child_context sid p
      in (p, ctx) # grow fresh ctx rest)"

lemma child_of_edge [simp]:
  "pa_trace_id (child_of fresh anchor e conv ts) = sc_trace_id anchor"
  "pa_parent_span_id (child_of fresh anchor e conv ts) = Some (sc_span_id anchor)"
  "pa_trace_flags (child_of fresh anchor e conv ts) = sc_trace_flags anchor"
  "pa_joined (child_of fresh anchor e conv ts)"
  "pa_conversation (child_of fresh anchor e conv ts) = conv"
  "pa_tracestate (child_of fresh anchor e conv ts) = ts"
  by (simp_all add: parentage_defs)

lemma child_of_fresh: "child_of fresh anchor e conv ts = child_of fresh' anchor e conv ts"
  by (simp add: parentage_defs)

section \<open>Properties\<close>

text \<open>The confidence a resolved edge ships with is never above the table
  default of the strategy it names, never below zero, and never a NaN or an
  infinity, whatever float the caller supplied as evidence.\<close>

theorem resolved_confidence_clamped:
  "\<exists>src c. ci_strategy (pa_correlation (resolve_parentage fresh amb e)) = Some src \<and>
     ci_confidence (pa_correlation (resolve_parentage fresh amb e)) = PFin c \<and>
     0 \<le> c \<and> c \<le> confidence_table src"
proof -
  have *: "\<exists>c. confidence_for src e = PFin c \<and> 0 \<le> c \<and> c \<le> confidence_table src" for src
    using confidence_for_range [of src e]
    by (cases "confidence_for src e") (auto simp: pf_le_def)
  show ?thesis
  proof (cases "am_span_context amb")
    case None
    then show ?thesis
      using * [of "if ev_source e = CONTEXTVAR then TRACE_ROOT else ev_source e"]
      by (simp add: resolve_parentage_def Let_def)
  next
    case (Some parent)
    then show ?thesis
      using * [of "if ev_source e = CONTEXTVAR \<and> sc_is_remote parent then HEADER
                   else ev_source e"]
      by (simp add: resolve_parentage_def Let_def)
  qed
qed

text \<open>C27: no guessed edge ships unmarked. For evidence that lowers nothing, a
  resolved edge carries a limitation exactly when its confidence is below the
  alias tier, and it never carries both no parent and the strategy of a live
  context variable: an edge without a parent is a declared trace root or keeps
  the strategy its caller named.\<close>

theorem guessed_edges_are_marked:
  assumes "ev_confidence e = None"
  shows "let p = resolve_parentage fresh amb e in
     (pa_limitations p \<noteq> [] \<longleftrightarrow> pf_less (ci_confidence (pa_correlation p)) (PFin (9 / 10))) \<and>
     (pa_parent_span_id p = None \<longrightarrow> ci_strategy (pa_correlation p) \<noteq> Some CONTEXTVAR) \<and>
     (pa_joined p \<longleftrightarrow> pa_parent_span_id p \<noteq> None)"
proof -
  have m: "(markers_for src \<noteq> []) = (confidence_table src < 9 / 10)" for src
    by (cases src) (simp_all add: markers_for_def)
  show ?thesis
    using assms(1)
    by (cases "am_span_context amb")
      (simp_all add: resolve_parentage_def Let_def confidence_for_default m)
qed

theorem guessed_edges_are_marked_witness:
  "pa_limitations (resolve_parentage [1] EMPTY_AMBIENT (evidence_of UNIT_SOLE)) \<noteq> []"
  using guessed_edges_are_marked [of "evidence_of UNIT_SOLE" "[1]" EMPTY_AMBIENT]
  by (simp add: evidence_of_def resolve_parentage_def EMPTY_AMBIENT_def Let_def
      confidence_for_def)

text \<open>Framework identifiers are hints only. Two pieces of evidence that differ in
  nothing but the framework's request, run and attempt ids resolve to edges of the
  same shape: same trace, same parent, same flags, same strategy, same confidence,
  same markers.\<close>

theorem framework_ids_never_shape_the_tree:
  assumes "ev_source e = ev_source e'" "ev_confidence e = ev_confidence e'"
  shows "let p = resolve_parentage fresh amb e; q = resolve_parentage fresh amb e' in
     pa_trace_id p = pa_trace_id q \<and> pa_parent_span_id p = pa_parent_span_id q \<and>
     pa_trace_flags p = pa_trace_flags q \<and> pa_joined p = pa_joined q \<and>
     pa_limitations p = pa_limitations q \<and>
     ci_strategy (pa_correlation p) = ci_strategy (pa_correlation q) \<and>
     ci_confidence (pa_correlation p) = ci_confidence (pa_correlation q)"
  using assms(1,2) confidence_for_cong [OF assms(2)]
  by (cases "am_span_context amb") (auto simp: resolve_parentage_def Let_def)

theorem framework_ids_never_shape_the_tree_witness:
  "pa_parent_span_id (resolve_parentage [1] EMPTY_AMBIENT AMBIENT) =
   pa_parent_span_id (resolve_parentage [1] EMPTY_AMBIENT (AMBIENT\<lparr>ev_request_id := Some [49]\<rparr>))"
  using framework_ids_never_shape_the_tree [of AMBIENT "AMBIENT\<lparr>ev_request_id := Some [49]\<rparr>"
      "[1]" EMPTY_AMBIENT] by (simp add: Let_def)

text \<open>What an observed byte seam may conclude. A span is joined to a parent only
  when one was latched whose unit was still open and which no bound discarded, and
  then to exactly that parent. A parent wardex closed, evicted or failed to open
  leaves an edge with no parent, confidence zero and \<open>PARENT_UNRESOLVED\<close>, carrying
  \<open>INSTRUMENTATION_DEGRADED\<close> unless the unit merely closed, and a closed or evicted
  parent hands over neither its conversation nor its tracestate. Only when nothing
  was lost is a parentless span an unmarked trace root.\<close>

theorem observed_edge_honest:
  "let p = resolve_observed fresh amb was_closed evicted degraded in
     (pa_joined p \<longleftrightarrow> \<not> was_closed \<and> \<not> evicted \<and> am_span_context amb \<noteq> None) \<and>
     (pa_joined p \<longrightarrow> pa_parent_span_id p = map_option sc_span_id (am_span_context amb) \<and>
        Some (pa_trace_id p) = map_option sc_trace_id (am_span_context amb) \<and>
        pa_limitations p = []) \<and>
     (\<not> pa_joined p \<and> (was_closed \<or> evicted \<or> degraded) \<longrightarrow>
        pa_parent_span_id p = None \<and>
        ci_confidence (pa_correlation p) = PFin 0 \<and>
        PARENT_UNRESOLVED \<in> set (pa_limitations p) \<and>
        (INSTRUMENTATION_DEGRADED \<in> set (pa_limitations p) \<longleftrightarrow> \<not> was_closed)) \<and>
     (was_closed \<or> evicted \<longrightarrow> pa_conversation p = None \<and> pa_tracestate p = None) \<and>
     (\<not> pa_joined p \<and> \<not> was_closed \<and> \<not> evicted \<and> \<not> degraded \<longrightarrow>
        ci_strategy (pa_correlation p) = Some TRACE_ROOT \<and> pa_limitations p = [])"
  by (cases was_closed; cases evicted; cases "am_span_context amb"; cases degraded)
    (simp_all add: resolve_observed_def resolve_parentage_def ORPHANED_BY_WARDEX_def AMBIENT_def
      evidence_of_def EMPTY_AMBIENT_def markers_for_def confidence_for_def with_limitation_def)

theorem observed_edge_honest_witness:
  "INSTRUMENTATION_DEGRADED \<in>
     set (pa_limitations (resolve_observed [1] EMPTY_AMBIENT False True False))"
  using observed_edge_honest [of "[1]" EMPTY_AMBIENT False True False]
  by (simp add: EMPTY_AMBIENT_def Let_def)

text \<open>A subtree grown from one anchor stays in the anchor's trace with the
  anchor's flags, and its edges chain: every span hangs off the context of the one
  opened before it. The random trace id the code could draw is never used.\<close>

theorem grown_subtree_chains:
  "let ts = grow fresh anchor steps in
     (\<forall>(p, ctx) \<in> set ts. pa_trace_id p = sc_trace_id anchor \<and>
            sc_trace_id ctx = sc_trace_id anchor \<and>
            sc_trace_flags ctx = sc_trace_flags anchor \<and> \<not> sc_is_remote ctx) \<and>
     map (\<lambda>(p, _). pa_parent_span_id p) ts =
       map Some (take (length ts) (sc_span_id anchor # map (\<lambda>(_, ctx). sc_span_id ctx) ts)) \<and>
     ts = grow fresh' anchor steps"
  unfolding Let_def
proof (induction steps arbitrary: anchor)
  case Nil
  then show ?case by simp
next
  case (Cons st steps)
  obtain e sid where st: "st = (e, sid)" by (cases st)
  let ?ctx = "child_context sid (child_of fresh anchor e None None)"
  have ctx: "sc_trace_id ?ctx = sc_trace_id anchor" "sc_trace_flags ?ctx = sc_trace_flags anchor"
    "sc_span_id ?ctx = sid" "\<not> sc_is_remote ?ctx"
    by (simp_all add: child_context_def)
  have fr: "child_of fresh' anchor e None None = child_of fresh anchor e None None"
    by (rule child_of_fresh)
  show ?case
    using Cons.IH [of ?ctx] ctx by (auto simp: st Let_def fr)
qed

definition sample_anchor :: span_context where
  "sample_anchor = \<lparr>sc_trace_id = replicate 16 1, sc_span_id = replicate 8 2,
     sc_trace_flags = 1, sc_is_remote = False\<rparr>"

theorem grown_subtree_chains_witness:
  "list_all (\<lambda>(p, ctx). pa_trace_id p = replicate 16 1)
     (grow [1] sample_anchor [(AMBIENT, [1]), (AMBIENT, [2])])"
  using grown_subtree_chains [of "[1]" sample_anchor "[(AMBIENT, [1]), (AMBIENT, [2])]" "[1]"]
  by (auto simp: Let_def list_all_iff sample_anchor_def)

end
