(* ===== verification/W3C.thy ===== *)
theory W3C
  imports Parentage
begin

text \<open>
  \<open>context/_w3c.py\<close>: the \<open>traceparent\<close> header read and written, and an inbound
  \<open>tracestate\<close> vetted before it enters the SDK. Text is a list of code points, so
  the printable-ASCII test and \<open>str.strip\<close> mean what they mean in Python. The
  fixed-width regular expression \<open>_FIELD_RE\<close> is the function \<open>field_match\<close>.
\<close>

section \<open>The str operations used\<close>

definition is_space :: "nat \<Rightarrow> bool" where
  "is_space c \<longleftrightarrow> (9 \<le> c \<and> c \<le> 13) \<or> (28 \<le> c \<and> c \<le> 32) \<or> c = 133 \<or> c = 160 \<or> c = 5760 \<or>
     (8192 \<le> c \<and> c \<le> 8202) \<or> c = 8232 \<or> c = 8233 \<or> c = 8239 \<or> c = 8287 \<or> c = 12288"

definition strip :: "py_text \<Rightarrow> py_text" where
  "strip v = rev (dropWhile is_space (rev (dropWhile is_space v)))"

fun split_on :: "nat \<Rightarrow> py_text \<Rightarrow> py_text list" where
  "split_on sep [] = [[]]"
| "split_on sep (c # cs) =
     (if c = sep then [] # split_on sep cs
      else (case split_on sep cs of [] \<Rightarrow> [[c]] | f # fs \<Rightarrow> (c # f) # fs))"

fun join_with :: "nat \<Rightarrow> py_text list \<Rightarrow> py_text" where
  "join_with sep [] = []"
| "join_with sep [f] = f"
| "join_with sep (f # fs) = f @ sep # join_with sep fs"

definition hex_digit :: "nat \<Rightarrow> nat" where
  "hex_digit n = (if n < 10 then 48 + n else 87 + n)"

definition is_hex :: "nat \<Rightarrow> bool" where
  "is_hex c \<longleftrightarrow> (48 \<le> c \<and> c \<le> 57) \<or> (97 \<le> c \<and> c \<le> 102)"

definition hex_value :: "nat \<Rightarrow> nat" where
  "hex_value c = (if c \<le> 57 then c - 48 else c - 87)"

definition hex_of_byte :: "byte \<Rightarrow> py_text" where
  "hex_of_byte b = [hex_digit (unat b div 16), hex_digit (unat b mod 16)]"

definition hex :: "bytes \<Rightarrow> py_text" where
  "hex bs = concat (map hex_of_byte bs)"

fun fromhex :: "py_text \<Rightarrow> bytes" where
  "fromhex (a # b # cs) = word_of_nat (16 * hex_value a + hex_value b) # fromhex cs"
| "fromhex cs = []"

section \<open>traceparent\<close>

text \<open>\<open>_FIELD_RE.match\<close>: version, trace id, span id, flags and the rest, which may
  not hold a line feed.\<close>

definition field_match ::
  "py_text \<Rightarrow> (py_text \<times> py_text \<times> py_text \<times> py_text \<times> py_text) option" where
  "field_match v =
     (if 55 \<le> length v \<and> list_all is_hex (take 2 v) \<and> v ! 2 = 45 \<and>
         list_all is_hex (take 32 (drop 3 v)) \<and> v ! 35 = 45 \<and>
         list_all is_hex (take 16 (drop 36 v)) \<and> v ! 52 = 45 \<and>
         list_all is_hex (take 2 (drop 53 v)) \<and> 10 \<notin> set (drop 55 v)
      then Some (take 2 v, take 32 (drop 3 v), take 16 (drop 36 v), take 2 (drop 53 v), drop 55 v)
      else None)"

definition future_fields_ok :: "py_text \<Rightarrow> bool" where
  "future_fields_ok rest =
     (case rest of
        [] \<Rightarrow> False
      | c # tail \<Rightarrow> c = 45 \<and> list_all (\<lambda>f. f \<noteq> []) (split_on 45 tail))"

definition parse_traceparent :: "py_text \<Rightarrow> (trace_id \<times> span_id \<times> int) option" where
  "parse_traceparent v =
     (case field_match (strip v) of
        None \<Rightarrow> None
      | Some (version, trace_hex, span_hex, flags, rest) \<Rightarrow>
          if version = str_lit ''ff'' then None
          else if version = str_lit ''00'' \<and> rest \<noteq> [] then None
          else if rest \<noteq> [] \<and> \<not> future_fields_ok rest then None
          else let trace_bytes = fromhex trace_hex; span_bytes = fromhex span_hex in
            if trace_bytes = replicate 16 0 \<or> span_bytes = replicate 8 0 then None
            else Some (trace_bytes, span_bytes,
                       int (16 * hex_value (flags ! 0) + hex_value (flags ! 1))))"

definition format_traceparent :: "span_context \<Rightarrow> py_text" where
  "format_traceparent ctx =
     str_lit ''00-'' @ hex (sc_trace_id ctx) @ [45] @ hex (sc_span_id ctx) @ [45] @
     hex_of_byte (word_of_int (sc_trace_flags ctx))"

section \<open>tracestate\<close>

definition max_tracestate_members :: nat where
  "max_tracestate_members = 32"

definition sanitize_tracestate :: "py_text option \<Rightarrow> py_text option" where
  "sanitize_tracestate v =
     (case v of
        None \<Rightarrow> None
      | Some value \<Rightarrow>
          let trimmed = strip value in
          if trimmed = [] then None
          else if list_ex (\<lambda>ch. \<not> (32 \<le> ch \<and> ch \<le> 126)) trimmed then None
          else let members = split_on 44 trimmed in
            if length members > max_tracestate_members
            then Some (join_with 44 (take max_tracestate_members members))
            else Some trimmed)"

section \<open>Lemmas\<close>

lemma split_on_ne [simp]: "split_on sep v \<noteq> []"
  by (induction v) (auto split: list.splits)

lemma join_split [simp]: "join_with sep (split_on sep v) = v"
proof (induction v)
  case Nil
  then show ?case by simp
next
  case (Cons c cs)
  obtain f fs where fs: "split_on sep cs = f # fs" by (cases "split_on sep cs") auto
  with Cons show ?case by (cases fs) auto
qed

lemma split_no_sep: "f \<in> set (split_on sep v) \<Longrightarrow> sep \<notin> set f"
proof (induction v arbitrary: f)
  case Nil
  then show ?case by simp
next
  case (Cons c cs)
  obtain g gs where gs: "split_on sep cs = g # gs" by (cases "split_on sep cs") auto
  with Cons show ?case by (auto split: if_splits)
qed

lemma split_single: "sep \<notin> set f \<Longrightarrow> split_on sep f = [f]"
  by (induction f) auto

lemma split_append_sep: "sep \<notin> set f \<Longrightarrow> split_on sep (f @ sep # w) = f # split_on sep w"
  by (induction f) auto

lemma split_join:
  "ms \<noteq> [] \<Longrightarrow> \<forall>m \<in> set ms. sep \<notin> set m \<Longrightarrow> split_on sep (join_with sep ms) = ms"
  by (induction sep ms rule: join_with.induct) (auto simp: split_single split_append_sep)

lemma set_join: "set (join_with sep ms) \<subseteq> insert sep (\<Union> (set ` set ms))"
  by (induction sep ms rule: join_with.induct) auto

lemma set_split: "f \<in> set (split_on sep v) \<Longrightarrow> set f \<subseteq> set v"
proof (induction v arbitrary: f)
  case Nil
  then show ?case by simp
next
  case (Cons c cs)
  obtain g gs where gs: "split_on sep cs = g # gs" by (cases "split_on sep cs") auto
  with Cons show ?case by (fastforce split: if_splits)
qed

lemma is_hex_digit [simp]: "n < 16 \<Longrightarrow> is_hex (hex_digit n)"
  by (auto simp: is_hex_def hex_digit_def)

lemma hex_value_digit [simp]: "n < 16 \<Longrightarrow> hex_value (hex_digit n) = n"
  by (auto simp: hex_value_def hex_digit_def)

lemma hex_digit_value: "is_hex c \<Longrightarrow> hex_digit (hex_value c) = c"
  by (auto simp: is_hex_def hex_value_def hex_digit_def)

lemma hex_value_bound: "is_hex c \<Longrightarrow> hex_value c < 16"
  by (auto simp: is_hex_def hex_value_def)

lemma unat_byte [simp]: "unat (b :: byte) < 256"
  by (rule order_less_le_trans [OF unsigned_less]) simp

lemma unat_word_small: "n < 256 \<Longrightarrow> unat (word_of_nat n :: byte) = n"
  by (simp add: unsigned_of_nat take_bit_nat_eq_self)

lemma length_hex [simp]: "length (hex bs) = 2 * length bs"
  by (induction bs) (auto simp: hex_def hex_of_byte_def)

lemma unat_byte_div [simp]: "unat (b :: byte) div 16 < 16"
  using unat_byte [of b] by linarith

lemma list_all_hex_byte [simp]: "list_all is_hex (hex_of_byte b)"
  by (simp add: hex_of_byte_def)

lemma list_all_hex [simp]: "list_all is_hex (hex bs)"
  by (induction bs) (auto simp: hex_def)

lemma length_hex_of_byte [simp]: "length (hex_of_byte b) = 2"
  by (simp add: hex_of_byte_def)

lemma fromhex_hex [simp]: "fromhex (hex bs) = bs"
  by (induction bs) (simp_all add: hex_def hex_of_byte_def)

lemma hex_fromhex: "list_all is_hex v \<Longrightarrow> even (length v) \<Longrightarrow> hex (fromhex v) = v"
proof (induction v rule: fromhex.induct)
  case (1 a b cs)
  then have "16 * hex_value a + hex_value b < 256"
    using hex_value_bound [of a] hex_value_bound [of b] by simp
  then have u: "unat (word_of_nat (16 * hex_value a + hex_value b) :: byte) =
      16 * hex_value a + hex_value b"
    by (rule unat_word_small)
  have "hex_value b < 16" using 1 by (simp add: hex_value_bound)
  then have "hex_of_byte (word_of_nat (16 * hex_value a + hex_value b)) = [a, b]"
    using 1 by (simp only: hex_of_byte_def u) (simp add: hex_digit_value)
  with 1 show ?case by (simp add: hex_def)
qed (auto simp: hex_def)

lemma length_fromhex: "even (length v) \<Longrightarrow> 2 * length (fromhex v) = length v"
  by (induction v rule: fromhex.induct) auto

lemma hex_not_space: "is_hex c \<Longrightarrow> \<not> is_space c"
  by (auto simp: is_hex_def is_space_def)

lemma strip_id: "v \<noteq> [] \<Longrightarrow> \<not> is_space (hd v) \<Longrightarrow> \<not> is_space (last v) \<Longrightarrow> strip v = v"
  by (simp add: strip_def dropWhile_eq_self_iff [THEN iffD2] hd_rev)

lemma strip_set: "set (strip v) \<subseteq> set v"
  by (auto simp: strip_def dest!: set_dropWhileD)


text \<open>A formatted header, field by field.\<close>

lemma field_match_format:
  assumes "length t = 16" "length sp = 8"
  shows "field_match (str_lit ''00-'' @ hex t @ [45] @ hex sp @ [45] @ hex_of_byte b) =
     Some (str_lit ''00'', hex t, hex sp, hex_of_byte b, [])"
  using assms by (simp add: field_match_def str_lit_def nth_append is_hex_def numeral_nat)

lemma strip_format:
  "strip (str_lit ''00-'' @ hex t @ [45] @ hex sp @ [45] @ hex_of_byte b) =
     str_lit ''00-'' @ hex t @ [45] @ hex sp @ [45] @ hex_of_byte b"
  by (rule strip_id)
    (auto simp: str_lit_def is_space_def hex_of_byte_def hex_digit_def split: if_splits)

lemma hex_value_of_byte:
  "16 * hex_value (hex_of_byte b ! 0) + hex_value (hex_of_byte b ! 1) = unat b"
  by (simp add: hex_of_byte_def)

lemma unat_flags: "int (unat (word_of_int f :: byte)) = f mod 256"
  by (simp add: unsigned_of_int take_bit_eq_mod)

lemma parse_traceparentD:
  assumes "parse_traceparent v = Some (t, sp, f)"
  obtains version trace_hex span_hex flags rest where
    "field_match (strip v) = Some (version, trace_hex, span_hex, flags, rest)"
    "t = fromhex trace_hex" "sp = fromhex span_hex"
    "f = int (16 * hex_value (flags ! 0) + hex_value (flags ! 1))"
    "version \<noteq> str_lit ''ff''" "t \<noteq> replicate 16 0" "sp \<noteq> replicate 8 0"
    "version = str_lit ''00'' \<Longrightarrow> rest = []"
  using assms by (auto simp: parse_traceparent_def Let_def split: option.splits if_splits)

lemma field_matchD:
  assumes "field_match v = Some (version, trace_hex, span_hex, flags, rest)"
  shows "v = version @ [45] @ trace_hex @ [45] @ span_hex @ [45] @ flags @ rest"
    and "list_all is_hex trace_hex" "length trace_hex = 32"
    and "list_all is_hex span_hex" "length span_hex = 16"
    and "list_all is_hex flags" "length flags = 2"
proof -
  from assms have len: "55 \<le> length v" and nth: "v ! 2 = 45" "v ! 35 = 45" "v ! 52 = 45"
    and eqs: "version = take 2 v" "trace_hex = take 32 (drop 3 v)"
      "span_hex = take 16 (drop 36 v)" "flags = take 2 (drop 53 v)" "rest = drop 55 v"
    by (auto simp: field_match_def split: if_splits)
  have cut: "i < length v \<Longrightarrow> drop i v = v ! i # drop (Suc i) v" for i
    by (simp add: Cons_nth_drop_Suc)
  have split: "drop i v = take n (drop i v) @ drop (i + n) v" for i n
    by (metis append_take_drop_id drop_drop add.commute)
  have "v = take 2 v @ drop 2 v" by simp
  also have "drop 2 v = 45 # drop 3 v" using cut [of 2] len nth by simp
  also have "drop 3 v = trace_hex @ drop 35 v" using split [of 3 32] eqs by simp
  also have "drop 35 v = 45 # drop 36 v" using cut [of 35] len nth by simp
  also have "drop 36 v = span_hex @ drop 52 v" using split [of 36 16] eqs by simp
  also have "drop 52 v = 45 # drop 53 v" using cut [of 52] len nth by simp
  also have "drop 53 v = flags @ rest" using split [of 53 2] eqs by simp
  finally show "v = version @ [45] @ trace_hex @ [45] @ span_hex @ [45] @ flags @ rest"
    using eqs by simp
  show "list_all is_hex trace_hex" "length trace_hex = 32"
    "list_all is_hex span_hex" "length span_hex = 16"
    "list_all is_hex flags" "length flags = 2"
    using assms len by (auto simp: field_match_def split: if_splits)
qed

lemma take_fields:
  "length version = 2 \<Longrightarrow> length th = 32 \<Longrightarrow> length sh = 16 \<Longrightarrow> length fl = 2 \<Longrightarrow>
   drop 2 (take 55 (version @ [45] @ th @ [45] @ sh @ [45] @ fl @ rest)) =
     [45] @ th @ [45] @ sh @ [45] @ fl"
  by simp

lemma parse_formatted:
  assumes "length t = 16" "length sp = 8" "t \<noteq> replicate 16 0" "sp \<noteq> replicate 8 0"
  shows "parse_traceparent (str_lit ''00-'' @ hex t @ [45] @ hex sp @ [45] @ hex_of_byte b) =
     Some (t, sp, int (unat b))"
proof -
  have "str_lit ''00'' \<noteq> str_lit ''ff''" by (simp add: str_lit_def)
  then show ?thesis
    using assms
    by (simp only: parse_traceparent_def strip_format field_match_format hex_value_of_byte
          fromhex_hex Let_def option.case prod.case if_False simp_thms)
qed

section \<open>Properties\<close>

text \<open>C34: a header this SDK writes is read back as the same trace id, the same span
  id and the low byte of the flags, for every context whose ids have the two fixed
  widths and are not the all-zero ids the specification forbids.\<close>

theorem traceparent_roundtrip:
  assumes "length (sc_trace_id ctx) = 16" "length (sc_span_id ctx) = 8"
    and "sc_trace_id ctx \<noteq> replicate 16 0" "sc_span_id ctx \<noteq> replicate 8 0"
  shows "parse_traceparent (format_traceparent ctx) =
     Some (sc_trace_id ctx, sc_span_id ctx, sc_trace_flags ctx mod 256)"
  unfolding format_traceparent_def parse_formatted [OF assms] unat_flags ..

theorem traceparent_roundtrip_witness:
  "parse_traceparent (format_traceparent
     \<lparr>sc_trace_id = replicate 16 1, sc_span_id = replicate 8 2, sc_trace_flags = 257,
      sc_is_remote = False\<rparr>) = Some (replicate 16 1, replicate 8 2, 1)"
  using traceparent_roundtrip [of "\<lparr>sc_trace_id = replicate 16 1,
     sc_span_id = replicate 8 2, sc_trace_flags = 257, sc_is_remote = False\<rparr>"]
  by simp

text \<open>What \<open>parse_traceparent\<close> accepts is well formed. The ids have their fixed
  widths and are not all zero, the flags are one byte, the version is not \<open>ff\<close>, and
  re-formatting the result gives the header back with its version rewritten to
  \<open>00\<close> and nothing after the flags.\<close>

theorem parse_traceparent_sound:
  assumes "parse_traceparent v = Some (t, sp, f)"
  shows "length t = 16 \<and> length sp = 8 \<and> t \<noteq> replicate 16 0 \<and> sp \<noteq> replicate 8 0 \<and>
     0 \<le> f \<and> f < 256 \<and> take 2 (strip v) \<noteq> str_lit ''ff'' \<and>
     format_traceparent \<lparr>sc_trace_id = t, sc_span_id = sp, sc_trace_flags = f,
       sc_is_remote = r\<rparr> = str_lit ''00'' @ drop 2 (take 55 (strip v))"
proof -
  obtain version th sh fl rest where
    m: "field_match (strip v) = Some (version, th, sh, fl, rest)" and
    eqs: "t = fromhex th" "sp = fromhex sh"
      "f = int (16 * hex_value (fl ! 0) + hex_value (fl ! 1))" and
    ne: "version \<noteq> str_lit ''ff''" "t \<noteq> replicate 16 0" "sp \<noteq> replicate 8 0"
    using assms by (rule parse_traceparentD)
  note d = field_matchD [OF m]
  have lv: "length version = 2" "version = take 2 (strip v)"
    using m by (auto simp: field_match_def split: if_splits)
  obtain a b where fl: "fl = [a, b]" "is_hex a" "is_hex b"
    using d(6,7) by (auto simp: length_Suc_conv numeral_2_eq_2)
  have f: "f = int (16 * hex_value a + hex_value b)" "16 * hex_value a + hex_value b < 256"
    using eqs(3) fl hex_value_bound [of a] hex_value_bound [of b] by auto
  have u: "unat (word_of_int f :: byte) = 16 * hex_value a + hex_value b"
  proof -
    have "int (unat (word_of_int f :: byte)) = int (16 * hex_value a + hex_value b)"
      unfolding unat_flags using f by simp
    then show ?thesis by (simp only: of_nat_eq_iff)
  qed
  have hb: "hex_of_byte (word_of_int f) = fl"
    using hex_value_bound [of b] fl by (simp only: hex_of_byte_def u) (simp add: hex_digit_value)
  have ht: "hex t = th" and hs: "hex sp = sh"
    using d eqs by (auto intro: hex_fromhex)
  have cut: "drop 2 (take 55 (strip v)) = [45] @ th @ [45] @ sh @ [45] @ fl"
    by (subst d(1)) (rule take_fields [OF lv(1) d(3) d(5) d(7)])
  have "format_traceparent \<lparr>sc_trace_id = t, sc_span_id = sp, sc_trace_flags = f,
      sc_is_remote = r\<rparr> = str_lit ''00-'' @ th @ [45] @ sh @ [45] @ fl"
    by (simp only: format_traceparent_def span_context.simps hb ht hs)
  then have form: "format_traceparent \<lparr>sc_trace_id = t, sc_span_id = sp, sc_trace_flags = f,
      sc_is_remote = r\<rparr> = str_lit ''00'' @ drop 2 (take 55 (strip v))"
    by (simp only: cut) (simp add: str_lit_def)
  have "length t = 16" "length sp = 8"
    using length_fromhex [of th] length_fromhex [of sh] d eqs by auto
  moreover have "0 \<le> f" "f < 256" using f by auto
  moreover have "take 2 (strip v) \<noteq> str_lit ''ff''" using ne(1) lv(2) by simp
  ultimately show ?thesis using ne(2,3) form by blast
qed

theorem parse_traceparent_sound_witness:
  "\<exists>v t sp f. parse_traceparent v = Some (t, sp, f) \<and> length t = 16 \<and> f < 256"
proof -
  have h: "parse_traceparent (str_lit ''00-'' @ hex (replicate 16 1) @ [45] @
      hex (replicate 8 2) @ [45] @ hex_of_byte 1) = Some (replicate 16 1, replicate 8 2, 1)"
    by (subst parse_formatted) simp_all
  show ?thesis using h parse_traceparent_sound [OF h] by blast
qed

text \<open>A vetted \<open>tracestate\<close> is safe to write back on an outbound request. It is
  not empty, every character is printable ASCII (so no CR, LF or character latin-1
  cannot encode), it has at most 32 list members, and those are the leftmost
  members of the header, in order and unchanged.\<close>

theorem sanitize_tracestate_safe:
  assumes "sanitize_tracestate (Some v) = Some r"
  shows "r \<noteq> [] \<and> (\<forall>ch \<in> set r. 32 \<le> ch \<and> ch \<le> 126) \<and>
     length (split_on 44 r) \<le> 32 \<and>
     split_on 44 r = take 32 (split_on 44 (strip v))"
proof -
  let ?t = "strip v" and ?ms = "split_on 44 (strip v)"
  have ok: "?t \<noteq> []" "\<forall>ch \<in> set ?t. 32 \<le> ch \<and> ch \<le> 126"
    using assms by (auto simp: sanitize_tracestate_def Let_def list_ex_iff split: if_splits)
  have r: "r = join_with 44 (take 32 ?ms)"
    using assms ok
    by (auto simp: sanitize_tracestate_def Let_def max_tracestate_members_def split: if_splits)
  have sep: "\<forall>m \<in> set (take 32 ?ms). 44 \<notin> set m"
    by (auto dest: in_set_takeD split_no_sep)
  have split: "split_on 44 r = take 32 ?ms"
    unfolding r by (rule split_join) (use sep in auto)
  have "set r \<subseteq> insert 44 (set ?t)"
    unfolding r using set_join [of 44 "take 32 ?ms"] set_split
    by (fastforce dest: in_set_takeD)
  moreover have "r \<noteq> []"
  proof
    assume "r = []"
    with split have "take 32 ?ms = [[]]" by simp
    then have "?ms = [[]]" by (cases ?ms) (auto simp: take_Cons' split: if_splits)
    then have "join_with 44 ?ms = []" by simp
    with ok show False by (simp only: join_split)
  qed
  ultimately show ?thesis using ok split by auto
qed

theorem sanitize_tracestate_safe_witness:
  "\<exists>r. sanitize_tracestate (Some (str_lit '' a=1,b=2 '')) = Some r \<and>
     split_on 44 r = [str_lit ''a=1'', str_lit ''b=2'']"
proof -
  have h: "sanitize_tracestate (Some (str_lit '' a=1,b=2 '')) = Some (str_lit ''a=1,b=2'')"
    by (simp add: sanitize_tracestate_def str_lit_def strip_def is_space_def
        max_tracestate_members_def)
  have "take 32 (split_on 44 (strip (str_lit '' a=1,b=2 ''))) =
      [str_lit ''a=1'', str_lit ''b=2'']"
    by (simp add: str_lit_def strip_def is_space_def)
  with h sanitize_tracestate_safe [OF h] show ?thesis by simp
qed

end
