(* ===== verification/Vocab.thy ===== *)
theory Vocab
  imports Types
begin

text \<open>
  The drop ledger's closed vocabulary, \<open>_assembly/_drop_reasons.py\<close>: why something
  was lost (\<open>DropReason\<close>), what was counted (\<open>DropUnit\<close>), and for every reason its
  default unit and whether it is a loss at all (the \<open>unit\<close> and \<open>loss\<close> columns of
  \<open>REASONS\<close>; the two sentences a reader is shown are text and are left out). The
  constructors carry the prefixes \<open>R_\<close> and \<open>U_\<close> after the module's own aliases
  \<open>_R\<close> and \<open>_U\<close>. The lemmas show that no two members share a wire value, that the
  lookups \<open>_REASON_OF\<close> and \<open>_UNIT_OF\<close> invert the values, and that no wire value
  holds the separator.
\<close>

section \<open>Units and reasons\<close>

datatype (plugins only: code) drop_unit =
    U_SPAN
  | U_SNAPSHOT
  | U_REQUEST
  | U_CONNECTION
  | U_STREAM
  | U_SESSION
  | U_RUN
  | U_MESSAGE
  | U_BRIDGE_SPAN
  | U_BRIDGE_SESSION
  | U_ENTRY
  | U_LINK
  | U_HOOK_EVENT
  | U_PAYLOAD
  | U_MARKER
  | U_ATTRIBUTE
  | U_PROCESS
  | U_SEAM
  | U_ADAPTER
  | U_FAILURE
  | U_REPORT

primrec unit_value :: "drop_unit \<Rightarrow> string" where
  "unit_value U_SPAN = ''span''"
| "unit_value U_SNAPSHOT = ''snapshot''"
| "unit_value U_REQUEST = ''request''"
| "unit_value U_CONNECTION = ''connection''"
| "unit_value U_STREAM = ''stream''"
| "unit_value U_SESSION = ''session''"
| "unit_value U_RUN = ''run''"
| "unit_value U_MESSAGE = ''message''"
| "unit_value U_BRIDGE_SPAN = ''bridge_span''"
| "unit_value U_BRIDGE_SESSION = ''bridge_session''"
| "unit_value U_ENTRY = ''entry''"
| "unit_value U_LINK = ''link''"
| "unit_value U_HOOK_EVENT = ''hook_event''"
| "unit_value U_PAYLOAD = ''payload''"
| "unit_value U_MARKER = ''marker''"
| "unit_value U_ATTRIBUTE = ''attribute''"
| "unit_value U_PROCESS = ''process''"
| "unit_value U_SEAM = ''seam''"
| "unit_value U_ADAPTER = ''adapter''"
| "unit_value U_FAILURE = ''failure''"
| "unit_value U_REPORT = ''report''"

definition all_units :: "drop_unit list" where
  "all_units = [U_SPAN, U_SNAPSHOT, U_REQUEST, U_CONNECTION, U_STREAM, U_SESSION, U_RUN, U_MESSAGE,
     U_BRIDGE_SPAN, U_BRIDGE_SESSION, U_ENTRY, U_LINK, U_HOOK_EVENT, U_PAYLOAD, U_MARKER,
     U_ATTRIBUTE, U_PROCESS, U_SEAM, U_ADAPTER, U_FAILURE, U_REPORT]"

datatype (plugins only: code) drop_reason =
    R_NETWORK_ERROR
  | R_SEND_ERROR
  | R_RATELIMIT_BACKOFF
  | R_SEND_UNCONFIRMED
  | R_REQUEST_TOO_LARGE
  | R_BUDGET_EXHAUSTED
  | R_PARTIAL_SUCCESS
  | R_UNMARSHALLABLE
  | R_TRANSPORT_UNSUPPORTED
  | R_QUEUE_OVERFLOW
  | R_CACHE_OVERFLOW
  | R_BEFORE_SEND
  | R_BEFORE_SEND_ERROR
  | R_AFTER_CLOSE
  | R_SHUTDOWN_TAIL
  | R_BACKPRESSURE
  | R_INTERNAL_SDK_ERROR
  | R_DIAGNOSTIC_UNWRITABLE
  | R_LEDGER_OVERFLOW
  | R_MODE_REFUSED
  | R_EXCLUDED_BY_POLICY
  | R_PARSER_DISABLED
  | R_RESPONSE_UNOBSERVED
  | R_REQUEST_UNOBSERVED
  | R_CONNECTION_EVICTED
  | R_IN_FLIGHT_AT_CLOSE
  | R_UNCLASSIFIED_CONNECTION
  | R_TABLE_FULL
  | R_LATE_TO_CLOSED_UNIT
  | R_MARKER_LOST
  | R_LINK_LOST
  | R_ATTRIBUTE_DROPPED
  | R_INSTRUMENTATION_UNAVAILABLE
  | R_PATCH_SUPERSEDED
  | R_CHILD_UNINITIALIZED
  | R_ATTRIBUTE_CAP
  | R_BODY_CAP
  | R_WS_SAMPLE_CAP
  | R_WS_FRAME_CAP
  | R_DECODED_CAP
  | R_BRIDGE_LATE
  | R_BRIDGE_UNROUTABLE
  | R_BRIDGE_REQUEST_REJECTED
  | R_BRIDGE_UNRECOGNIZED
  | R_BRIDGE_INCOMPLETE
  | R_BRIDGE_RETIRED
  | R_BRIDGE_MERGE_SKIPPED
  | R_BRIDGE_UNAVAILABLE
  | R_FRAMEWORK_TRACING_DISABLED
  | R_FRAMEWORK_EVENT_UNMATCHED
  | R_FRAMEWORK_SPAN_KIND_UNMAPPED
  | R_HOOKS_ABSENT
  | R_STREAM_LINE_UNRECOGNIZED
  | R_PAYLOAD_UNSERIALIZABLE
  | R_USAGE_WITHHELD
  | R_LAUNCH_UNRECOGNIZED

primrec reason_value :: "drop_reason \<Rightarrow> string" where
  "reason_value R_NETWORK_ERROR = ''network_error''"
| "reason_value R_SEND_ERROR = ''send_error''"
| "reason_value R_RATELIMIT_BACKOFF = ''ratelimit_backoff''"
| "reason_value R_SEND_UNCONFIRMED = ''send_unconfirmed''"
| "reason_value R_REQUEST_TOO_LARGE = ''request_too_large''"
| "reason_value R_BUDGET_EXHAUSTED = ''budget_exhausted''"
| "reason_value R_PARTIAL_SUCCESS = ''partial_success''"
| "reason_value R_UNMARSHALLABLE = ''unmarshallable''"
| "reason_value R_TRANSPORT_UNSUPPORTED = ''transport_unsupported''"
| "reason_value R_QUEUE_OVERFLOW = ''queue_overflow''"
| "reason_value R_CACHE_OVERFLOW = ''cache_overflow''"
| "reason_value R_BEFORE_SEND = ''before_send''"
| "reason_value R_BEFORE_SEND_ERROR = ''before_send_error''"
| "reason_value R_AFTER_CLOSE = ''after_close''"
| "reason_value R_SHUTDOWN_TAIL = ''shutdown_tail''"
| "reason_value R_BACKPRESSURE = ''backpressure''"
| "reason_value R_INTERNAL_SDK_ERROR = ''internal_sdk_error''"
| "reason_value R_DIAGNOSTIC_UNWRITABLE = ''diagnostic_unwritable''"
| "reason_value R_LEDGER_OVERFLOW = ''ledger_overflow''"
| "reason_value R_MODE_REFUSED = ''mode_refused''"
| "reason_value R_EXCLUDED_BY_POLICY = ''excluded_by_policy''"
| "reason_value R_PARSER_DISABLED = ''parser_disabled''"
| "reason_value R_RESPONSE_UNOBSERVED = ''response_unobserved''"
| "reason_value R_REQUEST_UNOBSERVED = ''request_unobserved''"
| "reason_value R_CONNECTION_EVICTED = ''connection_evicted''"
| "reason_value R_IN_FLIGHT_AT_CLOSE = ''in_flight_at_close''"
| "reason_value R_UNCLASSIFIED_CONNECTION = ''unclassified_connection''"
| "reason_value R_TABLE_FULL = ''table_full''"
| "reason_value R_LATE_TO_CLOSED_UNIT = ''late_to_closed_unit''"
| "reason_value R_MARKER_LOST = ''marker_lost''"
| "reason_value R_LINK_LOST = ''link_lost''"
| "reason_value R_ATTRIBUTE_DROPPED = ''attribute_dropped''"
| "reason_value R_INSTRUMENTATION_UNAVAILABLE = ''instrumentation_unavailable''"
| "reason_value R_PATCH_SUPERSEDED = ''patch_superseded''"
| "reason_value R_CHILD_UNINITIALIZED = ''child_uninitialized''"
| "reason_value R_ATTRIBUTE_CAP = ''attribute_cap''"
| "reason_value R_BODY_CAP = ''body_cap''"
| "reason_value R_WS_SAMPLE_CAP = ''ws_sample_cap''"
| "reason_value R_WS_FRAME_CAP = ''ws_frame_cap''"
| "reason_value R_DECODED_CAP = ''decoded_cap''"
| "reason_value R_BRIDGE_LATE = ''bridge_late''"
| "reason_value R_BRIDGE_UNROUTABLE = ''bridge_unroutable''"
| "reason_value R_BRIDGE_REQUEST_REJECTED = ''bridge_request_rejected''"
| "reason_value R_BRIDGE_UNRECOGNIZED = ''bridge_unrecognized''"
| "reason_value R_BRIDGE_INCOMPLETE = ''bridge_incomplete''"
| "reason_value R_BRIDGE_RETIRED = ''bridge_retired''"
| "reason_value R_BRIDGE_MERGE_SKIPPED = ''bridge_merge_skipped''"
| "reason_value R_BRIDGE_UNAVAILABLE = ''bridge_unavailable''"
| "reason_value R_FRAMEWORK_TRACING_DISABLED = ''framework_tracing_disabled''"
| "reason_value R_FRAMEWORK_EVENT_UNMATCHED = ''framework_event_unmatched''"
| "reason_value R_FRAMEWORK_SPAN_KIND_UNMAPPED = ''framework_span_kind_unmapped''"
| "reason_value R_HOOKS_ABSENT = ''hooks_absent''"
| "reason_value R_STREAM_LINE_UNRECOGNIZED = ''stream_line_unrecognized''"
| "reason_value R_PAYLOAD_UNSERIALIZABLE = ''payload_unserializable''"
| "reason_value R_USAGE_WITHHELD = ''usage_withheld''"
| "reason_value R_LAUNCH_UNRECOGNIZED = ''launch_unrecognized''"

definition all_reasons :: "drop_reason list" where
  "all_reasons = [R_NETWORK_ERROR, R_SEND_ERROR, R_RATELIMIT_BACKOFF, R_SEND_UNCONFIRMED,
     R_REQUEST_TOO_LARGE, R_BUDGET_EXHAUSTED, R_PARTIAL_SUCCESS, R_UNMARSHALLABLE,
     R_TRANSPORT_UNSUPPORTED, R_QUEUE_OVERFLOW, R_CACHE_OVERFLOW, R_BEFORE_SEND,
     R_BEFORE_SEND_ERROR, R_AFTER_CLOSE, R_SHUTDOWN_TAIL, R_BACKPRESSURE,
     R_INTERNAL_SDK_ERROR, R_DIAGNOSTIC_UNWRITABLE, R_LEDGER_OVERFLOW, R_MODE_REFUSED,
     R_EXCLUDED_BY_POLICY, R_PARSER_DISABLED, R_RESPONSE_UNOBSERVED, R_REQUEST_UNOBSERVED,
     R_CONNECTION_EVICTED, R_IN_FLIGHT_AT_CLOSE, R_UNCLASSIFIED_CONNECTION, R_TABLE_FULL,
     R_LATE_TO_CLOSED_UNIT, R_MARKER_LOST, R_LINK_LOST, R_ATTRIBUTE_DROPPED,
     R_INSTRUMENTATION_UNAVAILABLE, R_PATCH_SUPERSEDED, R_CHILD_UNINITIALIZED,
     R_ATTRIBUTE_CAP, R_BODY_CAP, R_WS_SAMPLE_CAP, R_WS_FRAME_CAP, R_DECODED_CAP,
     R_BRIDGE_LATE, R_BRIDGE_UNROUTABLE, R_BRIDGE_REQUEST_REJECTED, R_BRIDGE_UNRECOGNIZED,
     R_BRIDGE_INCOMPLETE, R_BRIDGE_RETIRED, R_BRIDGE_MERGE_SKIPPED, R_BRIDGE_UNAVAILABLE,
     R_FRAMEWORK_TRACING_DISABLED, R_FRAMEWORK_EVENT_UNMATCHED,
     R_FRAMEWORK_SPAN_KIND_UNMAPPED, R_HOOKS_ABSENT, R_STREAM_LINE_UNRECOGNIZED,
     R_PAYLOAD_UNSERIALIZABLE, R_USAGE_WITHHELD, R_LAUNCH_UNRECOGNIZED]"

datatype loss_kind = L_loss | L_partial | L_none

text \<open>The two columns of \<open>REASONS\<close>.\<close>

primrec default_unit :: "drop_reason \<Rightarrow> drop_unit" where
  "default_unit R_NETWORK_ERROR = U_SPAN"
| "default_unit R_SEND_ERROR = U_SPAN"
| "default_unit R_RATELIMIT_BACKOFF = U_SPAN"
| "default_unit R_SEND_UNCONFIRMED = U_SPAN"
| "default_unit R_REQUEST_TOO_LARGE = U_SPAN"
| "default_unit R_BUDGET_EXHAUSTED = U_REQUEST"
| "default_unit R_PARTIAL_SUCCESS = U_SPAN"
| "default_unit R_UNMARSHALLABLE = U_SPAN"
| "default_unit R_TRANSPORT_UNSUPPORTED = U_SNAPSHOT"
| "default_unit R_QUEUE_OVERFLOW = U_SPAN"
| "default_unit R_CACHE_OVERFLOW = U_REQUEST"
| "default_unit R_BEFORE_SEND = U_SPAN"
| "default_unit R_BEFORE_SEND_ERROR = U_SPAN"
| "default_unit R_AFTER_CLOSE = U_SPAN"
| "default_unit R_SHUTDOWN_TAIL = U_SPAN"
| "default_unit R_BACKPRESSURE = U_SPAN"
| "default_unit R_INTERNAL_SDK_ERROR = U_FAILURE"
| "default_unit R_DIAGNOSTIC_UNWRITABLE = U_FAILURE"
| "default_unit R_LEDGER_OVERFLOW = U_REPORT"
| "default_unit R_MODE_REFUSED = U_REQUEST"
| "default_unit R_EXCLUDED_BY_POLICY = U_REQUEST"
| "default_unit R_PARSER_DISABLED = U_CONNECTION"
| "default_unit R_RESPONSE_UNOBSERVED = U_REQUEST"
| "default_unit R_REQUEST_UNOBSERVED = U_REQUEST"
| "default_unit R_CONNECTION_EVICTED = U_REQUEST"
| "default_unit R_IN_FLIGHT_AT_CLOSE = U_REQUEST"
| "default_unit R_UNCLASSIFIED_CONNECTION = U_CONNECTION"
| "default_unit R_TABLE_FULL = U_ENTRY"
| "default_unit R_LATE_TO_CLOSED_UNIT = U_PAYLOAD"
| "default_unit R_MARKER_LOST = U_MARKER"
| "default_unit R_LINK_LOST = U_LINK"
| "default_unit R_ATTRIBUTE_DROPPED = U_ATTRIBUTE"
| "default_unit R_INSTRUMENTATION_UNAVAILABLE = U_SEAM"
| "default_unit R_PATCH_SUPERSEDED = U_SEAM"
| "default_unit R_CHILD_UNINITIALIZED = U_PROCESS"
| "default_unit R_ATTRIBUTE_CAP = U_SPAN"
| "default_unit R_BODY_CAP = U_SPAN"
| "default_unit R_WS_SAMPLE_CAP = U_SPAN"
| "default_unit R_WS_FRAME_CAP = U_SPAN"
| "default_unit R_DECODED_CAP = U_SPAN"
| "default_unit R_BRIDGE_LATE = U_BRIDGE_SPAN"
| "default_unit R_BRIDGE_UNROUTABLE = U_BRIDGE_SPAN"
| "default_unit R_BRIDGE_REQUEST_REJECTED = U_REQUEST"
| "default_unit R_BRIDGE_UNRECOGNIZED = U_BRIDGE_SPAN"
| "default_unit R_BRIDGE_INCOMPLETE = U_SESSION"
| "default_unit R_BRIDGE_RETIRED = U_SESSION"
| "default_unit R_BRIDGE_MERGE_SKIPPED = U_SPAN"
| "default_unit R_BRIDGE_UNAVAILABLE = U_ADAPTER"
| "default_unit R_FRAMEWORK_TRACING_DISABLED = U_RUN"
| "default_unit R_FRAMEWORK_EVENT_UNMATCHED = U_SPAN"
| "default_unit R_FRAMEWORK_SPAN_KIND_UNMAPPED = U_SPAN"
| "default_unit R_HOOKS_ABSENT = U_SESSION"
| "default_unit R_STREAM_LINE_UNRECOGNIZED = U_MESSAGE"
| "default_unit R_PAYLOAD_UNSERIALIZABLE = U_PAYLOAD"
| "default_unit R_USAGE_WITHHELD = U_SPAN"
| "default_unit R_LAUNCH_UNRECOGNIZED = U_RUN"

primrec loss_of :: "drop_reason \<Rightarrow> loss_kind" where
  "loss_of R_NETWORK_ERROR = L_loss"
| "loss_of R_SEND_ERROR = L_loss"
| "loss_of R_RATELIMIT_BACKOFF = L_loss"
| "loss_of R_SEND_UNCONFIRMED = L_loss"
| "loss_of R_REQUEST_TOO_LARGE = L_loss"
| "loss_of R_BUDGET_EXHAUSTED = L_loss"
| "loss_of R_PARTIAL_SUCCESS = L_loss"
| "loss_of R_UNMARSHALLABLE = L_loss"
| "loss_of R_TRANSPORT_UNSUPPORTED = L_loss"
| "loss_of R_QUEUE_OVERFLOW = L_loss"
| "loss_of R_CACHE_OVERFLOW = L_loss"
| "loss_of R_BEFORE_SEND = L_none"
| "loss_of R_BEFORE_SEND_ERROR = L_loss"
| "loss_of R_AFTER_CLOSE = L_loss"
| "loss_of R_SHUTDOWN_TAIL = L_loss"
| "loss_of R_BACKPRESSURE = L_partial"
| "loss_of R_INTERNAL_SDK_ERROR = L_loss"
| "loss_of R_DIAGNOSTIC_UNWRITABLE = L_loss"
| "loss_of R_LEDGER_OVERFLOW = L_loss"
| "loss_of R_MODE_REFUSED = L_loss"
| "loss_of R_EXCLUDED_BY_POLICY = L_none"
| "loss_of R_PARSER_DISABLED = L_loss"
| "loss_of R_RESPONSE_UNOBSERVED = L_partial"
| "loss_of R_REQUEST_UNOBSERVED = L_partial"
| "loss_of R_CONNECTION_EVICTED = L_loss"
| "loss_of R_IN_FLIGHT_AT_CLOSE = L_loss"
| "loss_of R_UNCLASSIFIED_CONNECTION = L_loss"
| "loss_of R_TABLE_FULL = L_loss"
| "loss_of R_LATE_TO_CLOSED_UNIT = L_loss"
| "loss_of R_MARKER_LOST = L_loss"
| "loss_of R_LINK_LOST = L_loss"
| "loss_of R_ATTRIBUTE_DROPPED = L_loss"
| "loss_of R_INSTRUMENTATION_UNAVAILABLE = L_loss"
| "loss_of R_PATCH_SUPERSEDED = L_loss"
| "loss_of R_CHILD_UNINITIALIZED = L_loss"
| "loss_of R_ATTRIBUTE_CAP = L_partial"
| "loss_of R_BODY_CAP = L_partial"
| "loss_of R_WS_SAMPLE_CAP = L_partial"
| "loss_of R_WS_FRAME_CAP = L_partial"
| "loss_of R_DECODED_CAP = L_partial"
| "loss_of R_BRIDGE_LATE = L_loss"
| "loss_of R_BRIDGE_UNROUTABLE = L_loss"
| "loss_of R_BRIDGE_REQUEST_REJECTED = L_loss"
| "loss_of R_BRIDGE_UNRECOGNIZED = L_loss"
| "loss_of R_BRIDGE_INCOMPLETE = L_partial"
| "loss_of R_BRIDGE_RETIRED = L_loss"
| "loss_of R_BRIDGE_MERGE_SKIPPED = L_partial"
| "loss_of R_BRIDGE_UNAVAILABLE = L_loss"
| "loss_of R_FRAMEWORK_TRACING_DISABLED = L_loss"
| "loss_of R_FRAMEWORK_EVENT_UNMATCHED = L_loss"
| "loss_of R_FRAMEWORK_SPAN_KIND_UNMAPPED = L_loss"
| "loss_of R_HOOKS_ABSENT = L_loss"
| "loss_of R_STREAM_LINE_UNRECOGNIZED = L_loss"
| "loss_of R_PAYLOAD_UNSERIALIZABLE = L_partial"
| "loss_of R_USAGE_WITHHELD = L_partial"
| "loss_of R_LAUNCH_UNRECOGNIZED = L_loss"

text \<open>\<open>_REASON_OF\<close> and \<open>_UNIT_OF\<close> of the ledger: a member from its wire string.\<close>

definition reason_of :: "string \<Rightarrow> drop_reason option" where
  "reason_of = map_of (map (\<lambda>m. (reason_value m, m)) all_reasons)"

definition unit_of :: "string \<Rightarrow> drop_unit option" where
  "unit_of = map_of (map (\<lambda>m. (unit_value m, m)) all_units)"

section \<open>Lookups invert values\<close>

lemma all_units_complete [simp]: "u \<in> set all_units"
  by (cases u) (simp_all add: all_units_def)

lemma all_reasons_complete [simp]: "r \<in> set all_reasons"
  by (cases r) (simp_all add: all_reasons_def)

lemma distinct_unit_values: "distinct (map unit_value all_units)"
  by (simp add: all_units_def)

lemma distinct_reason_values: "distinct (map reason_value all_reasons)"
  by (simp add: all_reasons_def)

lemma map_of_inverse:
  assumes "distinct (map f xs)" "x \<in> set xs"
  shows "map_of (map (\<lambda>m. (f m, m)) xs) (f x) = Some x"
  using assms by (induction xs) (auto simp: rev_image_eqI)

lemma unit_of_value [simp]: "unit_of (unit_value u) = Some u"
  by (simp add: unit_of_def map_of_inverse [OF distinct_unit_values])

lemma reason_of_value [simp]: "reason_of (reason_value r) = Some r"
  by (simp add: reason_of_def map_of_inverse [OF distinct_reason_values])

lemma reason_value_inject [simp]: "reason_value r = reason_value r' \<longleftrightarrow> r = r'"
  by (metis reason_of_value option.inject)

lemma unit_value_inject [simp]: "unit_value u = unit_value u' \<longleftrightarrow> u = u'"
  by (metis unit_of_value option.inject)

lemma colon_not_in_reason [simp]: "CHR '':'' \<notin> set (reason_value r)"
  by (cases r) simp_all

lemma colon_not_in_unit [simp]: "CHR '':'' \<notin> set (unit_value u)"
  by (cases u) simp_all

declare reason_value.simps [simp del] unit_value.simps [simp del]

end
