(* ===== verification/Ledger.thy ===== *)
theory Ledger
  imports Vocab "HOL-Library.Char_ord" "HOL-Library.List_Lexorder"
begin

text \<open>
  The drop ledger, \<open>_assembly/_ledger.py\<close>: an inbox that recording appends to, a
  fold that moves the inbox into the tables, reports cut from the pending table and
  handed out with an envelope, and the three ways a report is settled.

  The module's globals are one record. Every operation is a function of the calling
  thread and the state; the thread matters only to the fold lock, an \<open>RLock\<close> taken
  without waiting, which together with \<open>lg_folding\<close> decides whether the operation
  may fold. A state in which another thread (or a frame below, on the same thread)
  holds the fold is an ordinary state here, so every contended branch is modelled.
  A fold itself is a sequence of single stores (\<open>cut_steps\<close>, \<open>settle_steps\<close>,
  \<open>entry_steps\<close>), so that a reader can be placed between any two of them.

  Python object identity is explicit: a report has an \<open>rp_id\<close>, an envelope an
  \<open>en_id\<close>, and the pending table, which the code replaces whole and compares with
  \<open>is\<close>, an \<open>lg_pending_id\<close>; fresh ones come from \<open>lg_next_id\<close>. Clock readings
  (\<open>time.time_ns\<close>, \<open>time.monotonic\<close>) are arguments. A held signal handler is a
  number, and running it appends the number to \<open>lg_ran\<close>. \<open>lg_confirmed\<close> is an
  auxiliary tally no operation reads: what the reports settled as delivered carried.
\<close>

section \<open>State\<close>

type_synonym thread = nat
type_synonym drop_key = "drop_reason \<times> drop_unit"
type_synonym counts = "(drop_key \<times> int) list"

text \<open>\<open>ClientReport\<close>.\<close>

record report =
  rp_id :: nat
  rp_timestamp_ns :: int
  rp_discarded_events :: "(string \<times> int) list"
  rp_failed_sends :: int
  rp_queue_depth :: int
  rp_uptime_ms :: int

text \<open>What a host's \<open>before_send_envelope\<close> may have left in \<open>client_reports\<close>, and
  in place of the envelope itself.\<close>

datatype held_reports = CR_tuple "report list" | CR_list "report list" | CR_other

record ('sp, 'sn) envelope =
  en_id :: nat
  en_is_envelope :: bool
  en_spans :: "'sp list"
  en_snapshots :: "'sn list"
  en_client_reports :: held_reports

type_synonym entry = "drop_reason option \<times> drop_unit option \<times> int \<times> string option"

record ledger =
  lg_inbox :: "entry list"
  lg_owner :: "thread option"
  lg_depth :: nat
  lg_folding :: bool
  lg_held_signals :: "nat list"
  lg_ran :: "nat list"
  lg_totals :: counts
  lg_where :: "((drop_reason \<times> string) \<times> int) list"
  lg_pending :: counts
  lg_pending_id :: nat
  lg_moving :: "(report \<times> nat) option"
  lg_failed_sends :: int
  lg_unacked :: "report list"
  lg_undeliverable :: counts
  lg_settled :: "(report \<times> bool option) list"
  lg_out :: "(nat \<times> (report \<times> bool)) list"
  lg_unsent :: "nat list"
  lg_last_timestamp :: int
  lg_last_solo :: "rat option"
  lg_started :: rat
  lg_unarmed :: bool
  lg_hooks :: nat
  lg_reset_pid :: int
  lg_next_id :: nat
  lg_confirmed :: counts

definition INT32_MAX :: int where "INT32_MAX = 2 ^ 31 - 1"
definition UNACKED_CAP :: nat where "UNACKED_CAP = 8"
definition UNSENT_CAP :: nat where "UNSENT_CAP = 4"
definition SOLO_INTERVAL_S :: rat where "SOLO_INTERVAL_S = 30"
definition FOLD_AT :: nat where "FOLD_AT = 64"
definition WHERE_CAP :: nat where "WHERE_CAP = 1024"

section \<open>Wire keys\<close>

definition wire_key :: "drop_key \<Rightarrow> string" where
  "wire_key key = reason_value (fst key) @ '':'' @ unit_value (snd key)"

text \<open>\<open>name.partition(":")\<close>: before the first separator, and after it.\<close>

fun partition_colon :: "string \<Rightarrow> string \<times> string" where
  "partition_colon [] = ([], [])"
| "partition_colon (c # cs) =
     (if c = CHR '':'' then ([], cs)
      else (case partition_colon cs of (a, b) \<Rightarrow> (c # a, b)))"

fun key_of_name :: "string \<Rightarrow> drop_key option" where
  "key_of_name name = (case partition_colon name of (reason, unit) \<Rightarrow>
     (case reason_of reason of None \<Rightarrow> None | Some r \<Rightarrow>
       (case unit_of unit of None \<Rightarrow> None | Some u \<Rightarrow> Some (r, u))))"

fun keys_of_events :: "(string \<times> int) list \<Rightarrow> counts" where
  "keys_of_events [] = []"
| "keys_of_events ((name, n) # rest) =
     (case key_of_name name of None \<Rightarrow> keys_of_events rest
      | Some key \<Rightarrow> (key, n) # keys_of_events rest)"

definition keys_of :: "report \<Rightarrow> counts" where
  "keys_of r = keys_of_events (rp_discarded_events r)"

section \<open>The fold lock\<close>

definition acquire :: "thread \<Rightarrow> ledger \<Rightarrow> ledger option" where
  "acquire me l = (case lg_owner l of
     None \<Rightarrow> Some (l\<lparr>lg_owner := Some me, lg_depth := 1\<rparr>)
   | Some t \<Rightarrow> if t = me then Some (l\<lparr>lg_depth := lg_depth l + 1\<rparr>) else None)"

definition release :: "ledger \<Rightarrow> ledger" where
  "release l = (if lg_depth l \<le> 1 then l\<lparr>lg_owner := None, lg_depth := 0\<rparr>
                else l\<lparr>lg_depth := lg_depth l - 1\<rparr>)"

definition free_fold :: "thread \<Rightarrow> ledger \<Rightarrow> ledger option" where
  "free_fold me l = (case acquire me l of
     None \<Rightarrow> None
   | Some l1 \<Rightarrow> if lg_folding l1 then None else Some l1)"

definition run_held_signals :: "ledger \<Rightarrow> ledger" where
  "run_held_signals l = l\<lparr>lg_ran := lg_ran l @ lg_held_signals l, lg_held_signals := []\<rparr>"

definition end_fold :: "ledger \<Rightarrow> ledger" where
  "end_fold l = run_held_signals (release (l\<lparr>lg_folding := False\<rparr>))"

section \<open>The fold\<close>

text \<open>One inbox record, store by store.\<close>

definition add_total :: "drop_key \<Rightarrow> int \<Rightarrow> ledger \<Rightarrow> ledger" where
  "add_total key k l = l\<lparr>lg_totals := bump_tally key k (lg_totals l)\<rparr>"

definition add_where :: "drop_reason \<Rightarrow> int \<Rightarrow> string option \<Rightarrow> ledger \<Rightarrow> ledger" where
  "add_where r k w l = (case w of None \<Rightarrow> l | Some label \<Rightarrow>
     (let label' = (if (r, label) \<in> fst ` set (lg_where l) \<or> length (lg_where l) < WHERE_CAP
                    then label else ''<other>'')
      in l\<lparr>lg_where := bump_tally (r, label') k (lg_where l)\<rparr>))"

definition add_pending :: "drop_key \<Rightarrow> int \<Rightarrow> ledger \<Rightarrow> ledger" where
  "add_pending key k l = l\<lparr>lg_pending := bump_tally key k (lg_pending l)\<rparr>"

definition add_failed_sends :: "int \<Rightarrow> ledger \<Rightarrow> ledger" where
  "add_failed_sends k l = l\<lparr>lg_failed_sends := lg_failed_sends l + k\<rparr>"

definition pop_inbox :: "ledger \<Rightarrow> ledger" where
  "pop_inbox l = l\<lparr>lg_inbox := tl (lg_inbox l)\<rparr>"

fun entry_steps :: "entry \<Rightarrow> (ledger \<Rightarrow> ledger) list" where
  "entry_steps (Some r, Some u, k, w) =
     [add_total (r, u) k, add_where r k w, add_pending (r, u) k, pop_inbox]"
| "entry_steps (_, _, k, _) = [add_failed_sends k, pop_inbox]"

definition run_steps :: "('a \<Rightarrow> 'a) list \<Rightarrow> 'a \<Rightarrow> 'a" where
  "run_steps fs l = fold (\<lambda>f. f) fs l"

fun fold_entries :: "entry list \<Rightarrow> ledger \<Rightarrow> ledger" where
  "fold_entries [] l = l"
| "fold_entries (e # es) l = fold_entries es (run_steps (entry_steps e) l)"

definition fold_inbox :: "ledger \<Rightarrow> ledger" where
  "fold_inbox l = fold_entries (lg_inbox l) l"

text \<open>\<open>_UNACKED.remove(oldest)\<close> compares the dataclass's fields.\<close>

definition same_report :: "report \<Rightarrow> report \<Rightarrow> bool" where
  "same_report a b \<longleftrightarrow> a\<lparr>rp_id := 0\<rparr> = b\<lparr>rp_id := 0\<rparr>"

fun remove_report :: "report \<Rightarrow> report list \<Rightarrow> report list" where
  "remove_report r [] = []"
| "remove_report r (x # xs) = (if same_report x r then xs else x # remove_report r xs)"

definition overflow_once :: "ledger \<Rightarrow> ledger" where
  "overflow_once l =
     (let oldest = arg_min_list rp_timestamp_ns (lg_unacked l)
      in l\<lparr>lg_totals := bump_tally (R_LEDGER_OVERFLOW, U_REPORT) 1 (lg_totals l),
           lg_pending := bump_tally (R_LEDGER_OVERFLOW, U_REPORT) 1 (lg_pending l),
           lg_undeliverable := bump_all (keys_of oldest) (lg_undeliverable l),
           lg_unacked := remove_report oldest (lg_unacked l)\<rparr>)"

lemma length_remove_report [simp]:
  "r \<in> set xs \<Longrightarrow> length (remove_report r xs) = length xs - 1"
proof (induction xs)
  case (Cons x xs)
  then show ?case
    by (cases xs) (auto simp: same_report_def)
qed simp

lemma arg_min_list_mem: "xs \<noteq> [] \<Longrightarrow> arg_min_list f xs \<in> set xs"
  by (simp add: arg_min_list_in)

function trim_unacked :: "ledger \<Rightarrow> ledger" where
  "trim_unacked l =
     (if UNACKED_CAP < length (lg_unacked l) then trim_unacked (overflow_once l) else l)"
  by auto
termination
proof (relation "measure (\<lambda>l. length (lg_unacked l))")
  fix l :: ledger
  assume "UNACKED_CAP < length (lg_unacked l)"
  then have "lg_unacked l \<noteq> []" by auto
  then show "(overflow_once l, l) \<in> measure (\<lambda>l. length (lg_unacked l))"
    by (simp add: overflow_once_def Let_def arg_min_list_mem)
qed simp

declare trim_unacked.simps [simp del]

text \<open>One settled report, store by store. The first list is a fresh report the
  receiver certainly did not store, the second one held for resending, the last one
  delivered or settled before.\<close>

definition set_moving :: "(report \<times> nat) option \<Rightarrow> ledger \<Rightarrow> ledger" where
  "set_moving m l = l\<lparr>lg_moving := m\<rparr>"

definition replace_pending :: "counts \<Rightarrow> nat \<Rightarrow> ledger \<Rightarrow> ledger" where
  "replace_pending table i l = l\<lparr>lg_pending := table, lg_pending_id := i\<rparr>"

definition new_object :: "ledger \<Rightarrow> ledger" where
  "new_object l = l\<lparr>lg_next_id := lg_next_id l + 1\<rparr>"

definition append_unacked :: "report \<Rightarrow> ledger \<Rightarrow> ledger" where
  "append_unacked r l = l\<lparr>lg_unacked := lg_unacked l @ [r]\<rparr>"

definition drop_out :: "nat \<Rightarrow> ledger \<Rightarrow> ledger" where
  "drop_out i l = l\<lparr>lg_out := AList.delete i (lg_out l)\<rparr>"

definition pop_settled :: "ledger \<Rightarrow> ledger" where
  "pop_settled l = l\<lparr>lg_settled := tl (lg_settled l)\<rparr>"

definition note_confirmed :: "report \<Rightarrow> ledger \<Rightarrow> ledger" where
  "note_confirmed r l = l\<lparr>lg_confirmed := bump_all (keys_of r) (lg_confirmed l)\<rparr>"

definition settle_steps :: "report \<times> bool option \<Rightarrow> ledger \<Rightarrow> (ledger \<Rightarrow> ledger) list" where
  "settle_steps s l = (case s of (r, definite) \<Rightarrow>
     (case map_of (lg_out l) (rp_id r) of
        Some (_, fresh) \<Rightarrow>
          (if definite = Some True \<and> fresh then
             [new_object,
              set_moving (Some (r, lg_next_id l)),
              replace_pending (bump_all (keys_of r) (lg_pending l)) (lg_next_id l),
              add_failed_sends (rp_failed_sends r)]
           else if definite \<noteq> None then [append_unacked r, trim_unacked]
           else [note_confirmed r])
      | None \<Rightarrow> [])
     @ [drop_out (rp_id r), set_moving None, pop_settled])"

definition settle_one :: "report \<times> bool option \<Rightarrow> ledger \<Rightarrow> ledger" where
  "settle_one s l = run_steps (settle_steps s l) l"

fun settle_all :: "(report \<times> bool option) list \<Rightarrow> ledger \<Rightarrow> ledger" where
  "settle_all [] l = l"
| "settle_all (s # ss) l = settle_all ss (settle_one s l)"

definition fold_held :: "ledger \<Rightarrow> ledger" where
  "fold_held l = (let l1 = fold_inbox l in settle_all (lg_settled l1) l1)"

definition try_fold :: "thread \<Rightarrow> ledger \<Rightarrow> bool \<times> ledger" where
  "try_fold me l = (case free_fold me l of
     None \<Rightarrow> (False, l)
   | Some l1 \<Rightarrow> (True, end_fold (fold_held (l1\<lparr>lg_folding := True\<rparr>))))"

section \<open>Recording\<close>

definition arm :: "ledger \<Rightarrow> ledger" where
  "arm l = (if lg_unarmed l then l\<lparr>lg_unarmed := False, lg_hooks := lg_hooks l + 1\<rparr> else l)"

definition append_inbox :: "entry \<Rightarrow> ledger \<Rightarrow> ledger" where
  "append_inbox e l = l\<lparr>lg_inbox := lg_inbox l @ [e]\<rparr>"

definition record_drop ::
  "thread \<Rightarrow> string \<Rightarrow> int \<Rightarrow> drop_unit option \<Rightarrow> string option \<Rightarrow> ledger \<Rightarrow> ledger" where
  "record_drop me reason n unit w l = (case reason_of reason of
     None \<Rightarrow> l
   | Some member \<Rightarrow>
       if n \<le> 0 then l
       else
         (let u = (case unit of None \<Rightarrow> default_unit member | Some u \<Rightarrow> u);
              l1 = arm (append_inbox (Some member, Some u, n, w) l)
          in if length (lg_inbox l1) < FOLD_AT then l1
             else (case free_fold me l1 of
                     None \<Rightarrow> l1
                   | Some l2 \<Rightarrow> end_fold (fold_inbox (l2\<lparr>lg_folding := True\<rparr>)))))"

definition record_items ::
  "thread \<Rightarrow> string \<Rightarrow> int \<Rightarrow> int \<Rightarrow> string option \<Rightarrow> ledger \<Rightarrow> ledger" where
  "record_items me reason spans snapshots w l =
     (case (case reason_of reason of
              None \<Rightarrow> (l, snapshots)
            | Some member \<Rightarrow>
                if spans > 0 \<and> snapshots > 0
                then (append_inbox (Some member, Some U_SNAPSHOT, snapshots, w) l, 0)
                else (l, snapshots)) of
        (l1, snapshots1) \<Rightarrow>
          record_drop me reason snapshots1 (Some U_SNAPSHOT) w
            (record_drop me reason spans (Some U_SPAN) w l1))"

definition record_failed_send :: "thread \<Rightarrow> ledger \<Rightarrow> ledger" where
  "record_failed_send me l =
     (let l1 = arm (append_inbox (None, None, 1, None) l)
      in if FOLD_AT \<le> length (lg_inbox l1) then snd (try_fold me l1) else l1)"

text \<open>\<open>snapshot\<close>: the totals, the labels and the undeliverable counts, with the
  inbox added when another frame is folding.\<close>

fun add_waiting :: "entry list \<Rightarrow> counts \<Rightarrow> counts" where
  "add_waiting [] c = c"
| "add_waiting ((Some r, Some u, n, w) # es) c = add_waiting es (bump_tally (r, u) n c)"
| "add_waiting (_ # es) c = add_waiting es c"

fun add_labels ::
  "entry list \<Rightarrow> ((drop_reason \<times> string) \<times> int) list \<Rightarrow> ((drop_reason \<times> string) \<times> int) list" where
  "add_labels [] c = c"
| "add_labels ((Some r, Some u, n, Some label) # es) c = add_labels es (bump_tally (r, label) n c)"
| "add_labels (_ # es) c = add_labels es c"

record snapshot_view =
  ls_counts :: counts
  ls_where :: "((drop_reason \<times> string) \<times> int) list"
  ls_undeliverable :: counts

definition snapshot :: "thread \<Rightarrow> ledger \<Rightarrow> snapshot_view \<times> ledger" where
  "snapshot me l = (case try_fold me l of (folded, l1) \<Rightarrow>
     (\<lparr>ls_counts = (if folded then lg_totals l1 else add_waiting (lg_inbox l1) (lg_totals l1)),
       ls_where = (if folded then lg_where l1 else add_labels (lg_inbox l1) (lg_where l1)),
       ls_undeliverable = lg_undeliverable l1\<rparr>, l1))"

fun reason_total :: "counts \<Rightarrow> drop_reason \<Rightarrow> int" where
  "reason_total [] reason = 0"
| "reason_total (((r, u), n) # rest) reason =
     (if r = reason then n else 0) + reason_total rest reason"

text \<open>\<open>hold_signal\<close>: \<open>stack\<close> lists, from the interrupted frame outward, whether the
  frame runs one of the functions that fold.\<close>

definition hold_signal :: "thread \<Rightarrow> nat \<Rightarrow> bool list \<Rightarrow> ledger \<Rightarrow> bool \<times> ledger" where
  "hold_signal me handler stack l =
     (if \<not> lg_folding l then (False, l)
      else case acquire me l of
        None \<Rightarrow> (False, l)
      | Some l1 \<Rightarrow>
          if True \<in> set stack
          then (True, release (l1\<lparr>lg_held_signals := lg_held_signals l1 @ [handler]\<rparr>))
          else (False, release l1))"

section \<open>Delivery\<close>

text \<open>A transport is what \<open>inspect.getattr_static\<close> reads of it: the value of
  \<open>_carries_client_report\<close>, and whether that value \<open>is True\<close>.\<close>

definition carries :: "bool option \<Rightarrow> bool" where
  "carries attr = (attr = Some True)"

definition due :: "bool option \<Rightarrow> bool \<Rightarrow> rat \<Rightarrow> ledger \<Rightarrow> bool" where
  "due attr final now l =
     (if \<not> carries attr then False
      else if lg_pending l = [] \<and> lg_unacked l = [] \<and> lg_inbox l = [] \<and> lg_settled l = []
              \<and> lg_failed_sends l = 0 then False
      else if final then True
      else case lg_last_solo l of None \<Rightarrow> True | Some t \<Rightarrow> SOLO_INTERVAL_S \<le> now - t)"

definition expedite :: "ledger \<Rightarrow> ledger" where
  "expedite l = l\<lparr>lg_last_solo := None\<rparr>"

definition py_int :: "rat \<Rightarrow> int" where
  "py_int x = (if 0 \<le> x then \<lfloor>x\<rfloor> else \<lceil>x\<rceil>)"

definition cut_report :: "int \<Rightarrow> rat \<Rightarrow> int \<Rightarrow> ledger \<Rightarrow> report" where
  "cut_report time_ns now queue_depth l =
     \<lparr>rp_id = lg_next_id l,
      rp_timestamp_ns = max time_ns (lg_last_timestamp l + 1),
      rp_discarded_events =
        map (\<lambda>key. (wire_key key, min (tally (lg_pending l) key) INT32_MAX))
          (sort_key wire_key (map fst (lg_pending l))),
      rp_failed_sends = min (lg_failed_sends l) INT32_MAX,
      rp_queue_depth = min (max queue_depth 0) INT32_MAX,
      rp_uptime_ms = py_int ((now - lg_started l) * 1000)\<rparr>"

definition cut_rest :: "ledger \<Rightarrow> counts" where
  "cut_rest l =
     map (\<lambda>key. (key, tally (lg_pending l) key - INT32_MAX))
       (filter (\<lambda>key. INT32_MAX < tally (lg_pending l) key)
          (sort_key wire_key (map fst (lg_pending l))))"

definition set_last_timestamp :: "int \<Rightarrow> ledger \<Rightarrow> ledger" where
  "set_last_timestamp t l = l\<lparr>lg_last_timestamp := t\<rparr>"

definition put_out :: "report \<Rightarrow> bool \<Rightarrow> ledger \<Rightarrow> ledger" where
  "put_out r fresh l = l\<lparr>lg_out := AList.update (rp_id r) (r, fresh) (lg_out l)\<rparr>"

definition cut_steps :: "report \<Rightarrow> ledger \<Rightarrow> (ledger \<Rightarrow> ledger) list" where
  "cut_steps r l =
     [new_object, set_last_timestamp (rp_timestamp_ns r),
      set_moving (Some (r, lg_pending_id l)), put_out r True, new_object,
      replace_pending (cut_rest l) (lg_next_id l + 1),
      add_failed_sends (- rp_failed_sends r), set_moving None]"

definition cut_held :: "int \<Rightarrow> rat \<Rightarrow> int \<Rightarrow> ledger \<Rightarrow> report option \<times> ledger" where
  "cut_held time_ns now queue_depth l =
     (if lg_pending l = [] \<and> lg_failed_sends l = 0 then (None, l)
      else (let r = cut_report time_ns now queue_depth l
            in (Some r, run_steps (cut_steps r l) l)))"

fun hand_out :: "report list \<Rightarrow> ledger \<Rightarrow> ledger" where
  "hand_out [] l = l"
| "hand_out (r # rs) l = hand_out rs (put_out r False l)"

definition attach ::
  "thread \<Rightarrow> ('sp, 'sn) envelope \<Rightarrow> bool option \<Rightarrow> int \<Rightarrow> int \<Rightarrow> rat \<Rightarrow> ledger
     \<Rightarrow> ('sp, 'sn) envelope \<times> ledger" where
  "attach me e attr queue_depth time_ns now l =
     (if \<not> en_is_envelope e \<or> \<not> carries attr then (e, l)
      else
        (case (case en_client_reports e of
                 CR_tuple rs \<Rightarrow> Some rs | CR_list rs \<Rightarrow> Some rs | CR_other \<Rightarrow> None) of
           None \<Rightarrow> (e, l)
         | Some held \<Rightarrow>
             (let alone = en_spans e = [] \<and> en_snapshots e = []
              in case free_fold me l of
                   None \<Rightarrow> (e, l)
                 | Some l0 \<Rightarrow>
                     (let l1 = fold_held (l0\<lparr>lg_folding := True\<rparr>);
                          reports = lg_unacked l1;
                          l2 = (hand_out reports l1)\<lparr>lg_unacked := []\<rparr>
                      in case cut_held time_ns now queue_depth l2 of
                           (fresh, l3) \<Rightarrow>
                             (let reports' = reports @ (case fresh of None \<Rightarrow> [] | Some r \<Rightarrow> [r]);
                                  l4 = end_fold l3
                              in if reports' = [] then (e, l4)
                                 else
                                   (let l5 = (if alone then l4\<lparr>lg_last_solo := Some now\<rparr> else l4)
                                    in (e\<lparr>en_id := lg_next_id l5,
                                          en_client_reports := CR_tuple (held @ reports')\<rparr>,
                                        l5\<lparr>lg_next_id := lg_next_id l5 + 1\<rparr>)))))))"

definition already_unsent :: "('sp, 'sn) envelope \<Rightarrow> ledger \<Rightarrow> bool" where
  "already_unsent e l \<longleftrightarrow> en_id e \<in> set (lg_unsent l)"

text \<open>\<open>_out_in\<close>: the reports of the envelope the ledger has out, matched by
  identity; the object of that identity is the one \<open>_OUT\<close> holds.\<close>

fun reports_out :: "report list \<Rightarrow> (nat \<times> (report \<times> bool)) list \<Rightarrow> report list" where
  "reports_out [] out = []"
| "reports_out (r # rs) out =
     (case map_of out (rp_id r) of
        None \<Rightarrow> reports_out rs out
      | Some (held, _) \<Rightarrow> held # reports_out rs out)"

definition out_in :: "('sp, 'sn) envelope \<Rightarrow> ledger \<Rightarrow> report list" where
  "out_in e l = (if \<not> en_is_envelope e then []
                 else case en_client_reports e of
                        CR_tuple rs \<Rightarrow> reports_out rs (lg_out l)
                      | _ \<Rightarrow> [])"

definition settle :: "report list \<Rightarrow> bool option \<Rightarrow> ledger \<Rightarrow> ledger" where
  "settle rs outcome l = l\<lparr>lg_settled := lg_settled l @ map (\<lambda>r. (r, outcome)) rs\<rparr>"

definition unsent ::
  "thread \<Rightarrow> ('sp, 'sn) envelope \<Rightarrow> bool \<Rightarrow> bool \<Rightarrow> ledger \<Rightarrow> bool \<times> ledger" where
  "unsent me e definite last_settle l =
     (if already_unsent e l then
        (False, if last_settle then l\<lparr>lg_unsent := removeAll (en_id e) (lg_unsent l)\<rparr> else l)
      else
        (let l1 = (if last_settle then l
                   else (let remembered = lg_unsent l @ [en_id e]
                         in l\<lparr>lg_unsent := drop (length remembered - UNSENT_CAP) remembered\<rparr>));
             l2 = settle (out_in e l1) (Some definite) l1
         in (True, snd (try_fold me l2))))"

definition done_with :: "thread \<Rightarrow> ('sp, 'sn) envelope \<Rightarrow> ledger \<Rightarrow> ledger" where
  "done_with me e l =
     (let l1 = l\<lparr>lg_unsent := removeAll (en_id e) (lg_unsent l)\<rparr>;
          reports = out_in e l1;
          l2 = settle reports None l1
      in if reports = [] then l2 else snd (try_fold me l2))"

text \<open>\<open>undelivered\<close>. The first queued outcome of a report is the one that counts;
  a report is counted once, under its identity; one whose counts are in the table
  at this moment is counted from the table.\<close>

fun first_outcome :: "(report \<times> bool option) list \<Rightarrow> nat \<Rightarrow> bool option option" where
  "first_outcome [] i = None"
| "first_outcome ((r, outcome) # rest) i =
     (if rp_id r = i then Some outcome else first_outcome rest i)"

fun by_identity :: "report list \<Rightarrow> (nat \<times> report) list \<Rightarrow> (nat \<times> report) list" where
  "by_identity [] d = d"
| "by_identity (r # rs) d = by_identity rs (AList.update (rp_id r) r d)"

definition still_out :: "ledger \<Rightarrow> report list" where
  "still_out l = filter (\<lambda>r. first_outcome (lg_settled l) (rp_id r) \<noteq> Some None)
                   (map (fst \<circ> snd) (lg_out l))"

definition in_table :: "ledger \<Rightarrow> report \<Rightarrow> bool" where
  "in_table l r = (case lg_moving l of None \<Rightarrow> False
                   | Some (m, table) \<Rightarrow> rp_id r = rp_id m \<and> lg_pending_id l = table)"

definition unconfirmed_reports :: "ledger \<Rightarrow> report list" where
  "unconfirmed_reports l =
     filter (\<lambda>r. \<not> in_table l r) (map snd (by_identity (lg_unacked l @ still_out l) []))"

fun add_reports :: "report list \<Rightarrow> counts \<Rightarrow> counts" where
  "add_reports [] c = c"
| "add_reports (r # rs) c = add_reports rs (bump_all (keys_of r) c)"

definition read_undelivered :: "bool \<Rightarrow> ledger \<Rightarrow> counts" where
  "read_undelivered folded l =
     (let c = add_reports (unconfirmed_reports l) (lg_pending l)
      in if folded then c else add_waiting (lg_inbox l) c)"

definition undelivered :: "thread \<Rightarrow> ledger \<Rightarrow> counts \<times> ledger" where
  "undelivered me l = (case try_fold me l of (folded, l1) \<Rightarrow> (read_undelivered folded l1, l1))"

section \<open>Resets\<close>

definition fresh_ledger :: "rat \<Rightarrow> int \<Rightarrow> nat \<Rightarrow> ledger" where
  "fresh_ledger now pid next_id =
     \<lparr>lg_inbox = [], lg_owner = None, lg_depth = 0, lg_folding = False,
      lg_held_signals = [], lg_ran = [], lg_totals = [], lg_where = [],
      lg_pending = [], lg_pending_id = next_id, lg_moving = None, lg_failed_sends = 0,
      lg_unacked = [], lg_undeliverable = [], lg_settled = [], lg_out = [],
      lg_unsent = [], lg_last_timestamp = 0, lg_last_solo = None, lg_started = now,
      lg_unarmed = True, lg_hooks = 0, lg_reset_pid = pid,
      lg_next_id = next_id + 1, lg_confirmed = []\<rparr>"

definition at_fork_reinit :: "rat \<Rightarrow> int \<Rightarrow> ledger \<Rightarrow> ledger" where
  "at_fork_reinit now pid l =
     l\<lparr>lg_owner := None, lg_depth := 0, lg_folding := False,
       lg_inbox := [], lg_held_signals := [], lg_totals := [], lg_where := [],
       lg_pending := [], lg_pending_id := lg_next_id l, lg_next_id := lg_next_id l + 1,
       lg_moving := None, lg_unacked := [], lg_undeliverable := [], lg_settled := [],
       lg_out := [], lg_unsent := [], lg_failed_sends := 0, lg_last_timestamp := 0,
       lg_last_solo := None, lg_started := now, lg_reset_pid := pid, lg_confirmed := []\<rparr>"

definition at_fork_child :: "rat \<Rightarrow> int \<Rightarrow> ledger \<Rightarrow> ledger" where
  "at_fork_child now pid l = (if lg_reset_pid l \<noteq> pid then at_fork_reinit now pid l else l)"

end
