(* ===== verification/Loss_Sink.thy ===== *)
theory Loss_Sink
  imports Vocab
begin

text \<open>
  The interface the rest of the SDK uses of the drop ledger: record so many lost items
  for a reason, or a batch's spans and snapshots, and read back how many were counted.
  A client of the interface may rely on nothing but these laws. In particular nothing
  about locks appears in them: a record is counted whatever else is going on.

  \<open>Ledger_Laws\<close> interprets both locales on the ledger itself.
\<close>

definition unit_for :: "drop_reason \<Rightarrow> drop_unit option \<Rightarrow> drop_unit" where
  "unit_for r unit = (case unit of None \<Rightarrow> default_unit r | Some u \<Rightarrow> u)"

locale loss_sink =
  fixes lose :: "string \<Rightarrow> int \<Rightarrow> drop_unit option \<Rightarrow> string option \<Rightarrow> 's \<Rightarrow> 's"
    and tallied :: "'s \<Rightarrow> drop_reason \<times> drop_unit \<Rightarrow> int"
  assumes lose_counts: "tallied (lose reason n unit w s) k = tallied s k +
    (case reason_of reason of None \<Rightarrow> 0 | Some r \<Rightarrow> if 0 < n \<and> k = (r, unit_for r unit) then n else 0)"
begin

lemma lose_member:
  "tallied (lose (reason_value r) n unit w s) k =
   tallied s k + (if 0 < n \<and> k = (r, unit_for r unit) then n else 0)"
  by (simp add: lose_counts)

lemma lose_other: "k \<noteq> (r, unit_for r unit) \<Longrightarrow> tallied (lose (reason_value r) n unit w s) k = tallied s k"
  by (simp add: lose_member)

lemma lose_monotone: "tallied s k \<le> tallied (lose reason n unit w s) k"
  by (simp add: lose_counts split: option.splits)

lemma lose_unknown: "reason_of reason = None \<Longrightarrow> tallied (lose reason n unit w s) k = tallied s k"
  by (simp add: lose_counts)

lemma lose_commutes:
  "tallied (lose a n u w (lose b m v x s)) k = tallied (lose b m v x (lose a n u w s)) k"
  by (simp add: lose_counts)

lemma lose_each:
  "tallied (fold (\<lambda>x. lose (reason_value r) 1 unit w) xs s) k =
   tallied s k + (if k = (r, unit_for r unit) then int (length xs) else 0)"
  by (induction xs arbitrary: s) (simp_all add: lose_member)

end

locale batch_sink = loss_sink lose tallied
  for lose :: "string \<Rightarrow> int \<Rightarrow> drop_unit option \<Rightarrow> string option \<Rightarrow> 's \<Rightarrow> 's"
    and tallied :: "'s \<Rightarrow> drop_reason \<times> drop_unit \<Rightarrow> int" +
  fixes lose_batch :: "string \<Rightarrow> int \<Rightarrow> int \<Rightarrow> string option \<Rightarrow> 's \<Rightarrow> 's"
  assumes lose_batch_counts: "tallied (lose_batch reason spans snapshots w s) k = tallied s k +
    (case reason_of reason of None \<Rightarrow> 0 | Some r \<Rightarrow>
       (if k = (r, U_SPAN) then max 0 spans else 0) + (if k = (r, U_SNAPSHOT) then max 0 snapshots else 0))"
begin

lemma lose_batch_member:
  "tallied (lose_batch (reason_value r) (int n) (int m) w s) k = tallied s k +
   (if k = (r, U_SPAN) then int n else 0) + (if k = (r, U_SNAPSHOT) then int m else 0)"
  by (simp add: lose_batch_counts)

lemma lose_batch_as_two:
  "tallied (lose_batch reason spans snapshots w s) k =
   tallied (lose reason snapshots (Some U_SNAPSHOT) w (lose reason spans (Some U_SPAN) w s)) k"
  by (auto simp: lose_batch_counts lose_counts unit_for_def split: option.splits)

end

end
