(* ===== verification/Ledger_Laws.thy ===== *)
theory Ledger_Laws
  imports Ledger Loss_Sink
begin

text \<open>
  What the drop ledger promises. The wire keys round-trip; the books balance in
  every reachable state (\<open>books_balance\<close>: what was counted is pending, held for
  resending, out, confirmed, or known to be undeliverable, and nowhere twice);
  recording adds exactly its count whoever holds the fold; and a reader placed
  between any two stores of another thread's fold misses nothing.

  \<open>linv\<close> is the invariant of every state between two operations, shown for each
  operation and then for the reachable states \<open>ledger_reach\<close>.
\<close>

section \<open>Wire keys\<close>

lemma partition_colon_append [simp]:
  "CHR '':'' \<notin> set a \<Longrightarrow> partition_colon (a @ CHR '':'' # b) = (a, b)"
  by (induction a) auto

lemma key_of_wire_key [simp]: "key_of_name (wire_key k) = Some k"
  by (cases k) (simp add: wire_key_def)

declare key_of_name.simps [simp del]

lemma wire_key_inject [simp]: "wire_key a = wire_key b \<longleftrightarrow> a = b"
  using key_of_wire_key by (metis option.inject)

lemma keys_of_wire [simp]:
  "keys_of_events (map (\<lambda>k. (wire_key k, f k)) ks) = map (\<lambda>k. (k, f k)) ks"
  by (induction ks) auto

lemma amount_map_keys:
  "distinct ks \<Longrightarrow> amount (map (\<lambda>k. (k, f k)) ks) k = (if k \<in> set ks then f k else 0)"
  by (induction ks) auto

lemma tally_map_keys: "tally (map (\<lambda>k. (k, f k)) ks) k = (if k \<in> set ks then f k else 0)"
  by (induction ks) (auto simp: tally_def)

section \<open>Amounts of reports\<close>

definition carried :: "report list \<Rightarrow> drop_key \<Rightarrow> int" where
  "carried rs k = sum_list (map (\<lambda>r. amount (keys_of r) k) rs)"

lemma carried_simps [simp, tally_simps]:
  "carried [] k = 0"
  "carried (r # rs) k = amount (keys_of r) k + carried rs k"
  "carried (xs @ ys) k = carried xs k + carried ys k"
  by (simp_all add: carried_def)

abbreviation out_reports :: "ledger \<Rightarrow> report list" where
  "out_reports l \<equiv> map (fst \<circ> snd) (lg_out l)"

lemma carried_delete:
  assumes "distinct (map fst d)" "map_of d i = Some (r, f)"
  shows "carried (map (fst \<circ> snd) (AList.delete i d)) k
         = carried (map (fst \<circ> snd) d) k - amount (keys_of r) k"
  using assms
proof (induction d)
  case (Cons p d)
  obtain i' r' f' where p: "p = (i', r', f')" by (cases p)
  show ?case
  proof (cases "i' = i")
    case True
    with Cons.prems p have "AList.delete i d = d" by (intro delete_absent) auto
    with True p Cons.prems show ?thesis by simp
  next
    case False
    with p Cons show ?thesis by simp
  qed
qed simp

lemma carried_update_new:
  "i \<notin> fst ` set d \<Longrightarrow> carried (map (fst \<circ> snd) (AList.update i (r, f) d)) k
     = carried (map (fst \<circ> snd) d) k + amount (keys_of r) k"
  by (simp add: update_new)

lemma same_report_keys: "same_report a b \<Longrightarrow> keys_of a = keys_of b"
  unfolding same_report_def keys_of_def
  by (metis report.select_convs(3) report.surjective report.update_convs(1))

lemma carried_remove_report:
  "r \<in> set xs \<Longrightarrow> carried (remove_report r xs) k = carried xs k - amount (keys_of r) k"
  by (induction xs) (auto simp: same_report_keys same_report_def[of r r])

lemma set_remove_report: "set (remove_report r xs) \<subseteq> set xs"
  by (induction xs) auto

lemma distinct_remove_report:
  "distinct (map rp_id xs) \<Longrightarrow> distinct (map rp_id (remove_report r xs))"
  using set_remove_report by (induction xs) fastforce+

lemma carried_nonneg:
  "\<forall>r\<in>set rs. 0 \<le> amount (keys_of r) k \<Longrightarrow> 0 \<le> carried rs k"
  by (induction rs) auto

section \<open>Well-formed reports\<close>

definition wf_report :: "report \<Rightarrow> bool" where
  "wf_report r \<longleftrightarrow>
     (\<forall>(name, n) \<in> set (rp_discarded_events r). 0 \<le> n \<and> n \<le> INT32_MAX) \<and>
     0 \<le> rp_failed_sends r \<and> rp_failed_sends r \<le> INT32_MAX \<and>
     0 \<le> rp_queue_depth r \<and> rp_queue_depth r \<le> INT32_MAX"

lemma amount_keys_nonneg:
  "\<forall>(name, n) \<in> set es. 0 \<le> n \<Longrightarrow> 0 \<le> amount (keys_of_events es) k"
  by (induction es rule: keys_of_events.induct) (auto split: option.splits)

lemma wf_amount_nonneg: "wf_report r \<Longrightarrow> 0 \<le> amount (keys_of r) k"
  unfolding keys_of_def by (rule amount_keys_nonneg) (auto simp: wf_report_def)

section \<open>The invariant\<close>

definition books_balance :: "ledger \<Rightarrow> bool" where
  "books_balance l \<longleftrightarrow> (\<forall>k. tally (lg_totals l) k =
     tally (lg_pending l) k + carried (lg_unacked l) k + carried (out_reports l) k
     + tally (lg_undeliverable l) k + tally (lg_confirmed l) k)"

definition counts_ok :: "ledger \<Rightarrow> bool" where
  "counts_ok l \<longleftrightarrow> distinct (map fst (lg_pending l)) \<and>
     (\<forall>k. 0 \<le> tally (lg_pending l) k) \<and> 0 \<le> lg_failed_sends l \<and>
     (\<forall>(r, u, n, w) \<in> set (lg_inbox l). 0 < n)"

definition fits :: "nat \<Rightarrow> int \<Rightarrow> report \<Rightarrow> bool" where
  "fits next_id last_timestamp r \<longleftrightarrow>
     wf_report r \<and> rp_id r < next_id \<and> rp_timestamp_ns r \<le> last_timestamp"

lemma fits_mono: "fits n t r \<Longrightarrow> n \<le> n' \<Longrightarrow> t \<le> t' \<Longrightarrow> fits n' t' r"
  by (auto simp: fits_def)

lemma int_le_eq: "(a :: int) = b \<Longrightarrow> b \<le> a"
  by simp

lemma fits_all:
  "\<forall>r\<in>X. fits n t r \<Longrightarrow> n \<le> n' \<Longrightarrow> t \<le> t' \<Longrightarrow> \<forall>r\<in>X. fits n' t' r"
  using fits_mono by blast

definition held_ok :: "ledger \<Rightarrow> bool" where
  "held_ok l \<longleftrightarrow> distinct (map fst (lg_out l)) \<and>
     (\<forall>(i, r, f) \<in> set (lg_out l). rp_id r = i) \<and>
     distinct (map rp_id (lg_unacked l)) \<and>
     (\<forall>r \<in> set (lg_unacked l) \<union> set (out_reports l). fits (lg_next_id l) (lg_last_timestamp l) r) \<and>
     rp_id ` set (lg_unacked l) \<inter> fst ` set (lg_out l) = {} \<and>
     length (lg_unacked l) \<le> UNACKED_CAP"

lemma held_fits:
  "held_ok l \<Longrightarrow> \<forall>r \<in> set (lg_unacked l) \<union> set (out_reports l). fits (lg_next_id l) (lg_last_timestamp l) r"
  unfolding held_ok_def by (elim conjE)

definition settled_ok :: "ledger \<Rightarrow> bool" where
  "settled_ok l \<longleftrightarrow> (\<forall>(r, o') \<in> set (lg_settled l). \<forall>r' f.
     map_of (lg_out l) (rp_id r) = Some (r', f) \<longrightarrow> r' = r)"

definition linv :: "ledger \<Rightarrow> bool" where
  "linv l \<longleftrightarrow> books_balance l \<and> counts_ok l \<and> held_ok l \<and> settled_ok l \<and>
     lg_pending_id l < lg_next_id l \<and> lg_moving l = None"

lemma held_ok_frame:
  "lg_out l' = lg_out l \<Longrightarrow> lg_unacked l' = lg_unacked l \<Longrightarrow> lg_next_id l' = lg_next_id l \<Longrightarrow>
   lg_last_timestamp l' = lg_last_timestamp l \<Longrightarrow> held_ok l' = held_ok l"
  by (simp add: held_ok_def)

lemma settled_ok_frame:
  "lg_out l' = lg_out l \<Longrightarrow> lg_settled l' = lg_settled l \<Longrightarrow> settled_ok l' = settled_ok l"
  by (simp add: settled_ok_def)

lemma counts_okD: "counts_ok l \<Longrightarrow> 0 \<le> tally (lg_pending l) k"
  unfolding counts_ok_def by blast

lemmas linv_defs = linv_def books_balance_def counts_ok_def held_ok_def settled_ok_def

lemma run_steps_simps [simp]:
  "run_steps [] l = l" "run_steps (f # fs) l = run_steps fs (f l)"
  "run_steps (fs @ gs) l = run_steps gs (run_steps fs l)"
  by (simp_all add: run_steps_def)

lemmas store_defs = add_total_def add_where_def add_pending_def add_failed_sends_def
  pop_inbox_def set_moving_def replace_pending_def new_object_def append_unacked_def
  drop_out_def pop_settled_def note_confirmed_def set_last_timestamp_def put_out_def

lemmas store_frames = add_total_def add_pending_def add_failed_sends_def pop_inbox_def

lemma add_where_frame [simp]:
  "lg_totals (add_where r k w l) = lg_totals l"
  "lg_pending (add_where r k w l) = lg_pending l"
  "lg_inbox (add_where r k w l) = lg_inbox l"
  "lg_out (add_where r k w l) = lg_out l"
  "lg_unacked (add_where r k w l) = lg_unacked l"
  "lg_undeliverable (add_where r k w l) = lg_undeliverable l"
  "lg_confirmed (add_where r k w l) = lg_confirmed l"
  "lg_settled (add_where r k w l) = lg_settled l"
  "lg_moving (add_where r k w l) = lg_moving l"
  "lg_pending_id (add_where r k w l) = lg_pending_id l"
  "lg_next_id (add_where r k w l) = lg_next_id l"
  "lg_failed_sends (add_where r k w l) = lg_failed_sends l"
  "lg_last_timestamp (add_where r k w l) = lg_last_timestamp l"
  "lg_owner (add_where r k w l) = lg_owner l"
  "lg_depth (add_where r k w l) = lg_depth l"
  "lg_folding (add_where r k w l) = lg_folding l"
  "lg_unsent (add_where r k w l) = lg_unsent l"
  "lg_last_solo (add_where r k w l) = lg_last_solo l"
  "lg_held_signals (add_where r k w l) = lg_held_signals l"
  "lg_ran (add_where r k w l) = lg_ran l"
  by (auto simp: add_where_def Let_def split: option.splits)

section \<open>The fold keeps the invariant\<close>

fun waiting :: "entry list \<Rightarrow> drop_key \<Rightarrow> int" where
  "waiting [] k = 0"
| "waiting ((Some r, Some u, n, w) # es) k = (if (r, u) = k then n else 0) + waiting es k"
| "waiting (_ # es) k = waiting es k"

lemma tally_add_waiting [simp, tally_simps]:
  "tally (add_waiting es c) k = tally c k + waiting es k"
  by (induction es c rule: add_waiting.induct) auto

lemma waiting_append [simp, tally_simps]: "waiting (xs @ ys) k = waiting xs k + waiting ys k"
  by (induction xs k rule: waiting.induct) auto

lemma entry_cases:
  obtains (drop) r u k w where "e = (Some r, Some u, k, w)"
  | (send) r u k w where "e = (r, u, k, w)" "r = None \<or> u = None"
    "entry_steps e = [add_failed_sends k, pop_inbox]"
  by (cases e rule: entry_steps.cases) auto

lemma linv_entry:
  assumes "linv l" "lg_inbox l = e # es"
  shows "linv (run_steps (entry_steps e) l)"
proof (cases e rule: entry_cases)
  case (drop r u k w)
  let ?l = "run_steps (entry_steps e) l"
  have f: "lg_out ?l = lg_out l" "lg_unacked ?l = lg_unacked l" "lg_inbox ?l = es"
    "lg_settled ?l = lg_settled l" "lg_next_id ?l = lg_next_id l" "lg_moving ?l = lg_moving l"
    "lg_pending_id ?l = lg_pending_id l" "lg_last_timestamp ?l = lg_last_timestamp l"
    "lg_undeliverable ?l = lg_undeliverable l" "lg_confirmed ?l = lg_confirmed l"
    "lg_failed_sends ?l = lg_failed_sends l"
    "lg_totals ?l = bump_tally (r, u) k (lg_totals l)"
    "lg_pending ?l = bump_tally (r, u) k (lg_pending l)"
    using assms(2) drop by (simp_all add: store_frames)
  have "0 < k" "counts_ok l" using assms drop by (auto simp: linv_def counts_ok_def)
  then have "counts_ok ?l"
    using assms(2) by (simp add: counts_ok_def f distinct_bump)
  moreover have "books_balance ?l"
    using assms(1) by (simp add: linv_def books_balance_def f)
  ultimately show ?thesis
    using assms(1) by (simp add: linv_def held_ok_frame [of ?l l] settled_ok_frame [of ?l l] f)
next
  case (send r u k w)
  let ?l = "run_steps (entry_steps e) l"
  have l: "?l = l\<lparr>lg_failed_sends := lg_failed_sends l + k, lg_inbox := es\<rparr>"
    using assms(2) send by (simp add: store_frames)
  have "0 < k" "counts_ok l" using assms send by (auto simp: linv_def counts_ok_def)
  then have "counts_ok ?l"
    using assms(2) by (simp add: counts_ok_def l)
  moreover have "held_ok ?l = held_ok l" by (rule held_ok_frame) (simp_all add: l)
  moreover have "settled_ok ?l = settled_ok l" by (rule settled_ok_frame) (simp_all add: l)
  moreover have "books_balance ?l = books_balance l" by (simp add: books_balance_def l)
  ultimately show ?thesis
    using assms(1) by (simp add: linv_def) (simp add: l)
qed

lemma inbox_entry: "lg_inbox (run_steps (entry_steps e) l) = tl (lg_inbox l)"
  by (cases e rule: entry_cases) (auto simp: store_frames)

lemma settled_entry [simp]: "lg_settled (run_steps (entry_steps e) l) = lg_settled l"
  by (cases e rule: entry_cases) (auto simp: store_frames)

lemma totals_entry:
  "tally (lg_totals (run_steps (entry_steps e) l)) k = tally (lg_totals l) k + waiting [e] k"
  by (cases e rule: entry_steps.cases) (auto simp: store_frames)

lemma fold_entries_laws:
  "linv l \<Longrightarrow> lg_inbox l = es \<Longrightarrow>
     linv (fold_entries es l) \<and> lg_inbox (fold_entries es l) = [] \<and>
     lg_settled (fold_entries es l) = lg_settled l \<and>
     (\<forall>k. tally (lg_totals (fold_entries es l)) k = tally (lg_totals l) k + waiting es k)"
proof (induction es arbitrary: l)
  case (Cons e es)
  have w: "waiting (e # es) k = waiting [e] k + waiting es k" for k
    using waiting_append [of "[e]" es k] by simp
  from Cons.IH [of "run_steps (entry_steps e) l"] linv_entry [OF Cons.prems] Cons.prems(2)
  show ?case by (simp add: inbox_entry totals_entry w)
qed simp

lemmas fold_inbox_laws = fold_entries_laws [OF _ refl, folded fold_inbox_def]

lemma trim_invariant:
  assumes "\<And>l. arg_min_list rp_timestamp_ns (lg_unacked l) \<in> set (lg_unacked l) \<Longrightarrow> I l \<Longrightarrow>
             I (overflow_once l)"
  shows "I l \<Longrightarrow> I (trim_unacked l)"
proof (induction l rule: trim_unacked.induct)
  case (1 l)
  show ?case
  proof (cases "UNACKED_CAP < length (lg_unacked l)")
    case True
    then have "lg_unacked l \<noteq> []" by auto
    then have "I (overflow_once l)"
      using assms 1(2) arg_min_list_mem by blast
    with 1(1) [OF True] True show ?thesis by (subst trim_unacked.simps) simp
  next
    case False
    with 1(2) show ?thesis by (subst trim_unacked.simps) simp
  qed
qed

lemma trim_length: "length (lg_unacked (trim_unacked l)) \<le> UNACKED_CAP"
  by (induction l rule: trim_unacked.induct) (subst trim_unacked.simps, simp)

lemma overflow_fields:
  "lg_totals (overflow_once l) = bump_tally (R_LEDGER_OVERFLOW, U_REPORT) 1 (lg_totals l)"
  "lg_pending (overflow_once l) = bump_tally (R_LEDGER_OVERFLOW, U_REPORT) 1 (lg_pending l)"
  "lg_undeliverable (overflow_once l)
     = bump_all (keys_of (arg_min_list rp_timestamp_ns (lg_unacked l))) (lg_undeliverable l)"
  "lg_unacked (overflow_once l)
     = remove_report (arg_min_list rp_timestamp_ns (lg_unacked l)) (lg_unacked l)"
  by (simp_all add: overflow_once_def Let_def)

lemma trim_frame [simp]:
  "lg_inbox (trim_unacked l) = lg_inbox l"
  "lg_settled (trim_unacked l) = lg_settled l"
  "lg_out (trim_unacked l) = lg_out l"
  "lg_confirmed (trim_unacked l) = lg_confirmed l"
  "lg_failed_sends (trim_unacked l) = lg_failed_sends l"
  "lg_moving (trim_unacked l) = lg_moving l"
  "lg_pending_id (trim_unacked l) = lg_pending_id l"
  "lg_next_id (trim_unacked l) = lg_next_id l"
  "lg_last_timestamp (trim_unacked l) = lg_last_timestamp l"
  "lg_owner (trim_unacked l) = lg_owner l"
  "lg_depth (trim_unacked l) = lg_depth l"
  "lg_folding (trim_unacked l) = lg_folding l"
  by (rule trim_invariant [where I = "\<lambda>x. _ x = _ l"], simp_all add: overflow_once_def Let_def)+

lemma trim_balance:
  "tally (lg_totals (trim_unacked l)) k - tally (lg_pending (trim_unacked l)) k
     = tally (lg_totals l) k - tally (lg_pending l) k"
  by (rule trim_invariant [where I = "\<lambda>x. tally (lg_totals x) k - tally (lg_pending x) k = _"])
    (simp_all add: overflow_fields)

lemma trim_held:
  "tally (lg_undeliverable (trim_unacked l)) k + carried (lg_unacked (trim_unacked l)) k
     = tally (lg_undeliverable l) k + carried (lg_unacked l) k"
  by (rule trim_invariant
      [where I = "\<lambda>x. tally (lg_undeliverable x) k + carried (lg_unacked x) k = _"])
    (simp_all add: overflow_fields carried_remove_report)

lemma trim_pending: "tally (lg_pending l) k \<le> tally (lg_pending (trim_unacked l)) k"
  by (rule trim_invariant [where I = "\<lambda>x. tally (lg_pending l) k \<le> tally (lg_pending x) k"])
    (auto simp: overflow_fields)

lemma trim_subset: "set (lg_unacked (trim_unacked l)) \<subseteq> set (lg_unacked l)"
  by (rule trim_invariant [where I = "\<lambda>x. set (lg_unacked x) \<subseteq> set (lg_unacked l)"])
    (use set_remove_report in \<open>fastforce simp: overflow_fields\<close>)+

lemma trim_distinct:
  "distinct (map rp_id (lg_unacked l)) \<Longrightarrow> distinct (map rp_id (lg_unacked (trim_unacked l)))"
  "distinct (map fst (lg_pending l)) \<Longrightarrow> distinct (map fst (lg_pending (trim_unacked l)))"
  by (rule trim_invariant, simp_all add: overflow_fields distinct_remove_report distinct_bump)+

lemma linv_trim:
  "linv l \<Longrightarrow> trim_unacked l = l"
  by (subst trim_unacked.simps) (simp add: linv_def held_ok_def)

lemma outI: "held_ok l \<Longrightarrow> map_of (lg_out l) i = Some (r, f) \<Longrightarrow>
   rp_id r = i \<and> wf_report r \<and> i < lg_next_id l \<and> rp_timestamp_ns r \<le> lg_last_timestamp l \<and>
   i \<notin> rp_id ` set (lg_unacked l)"
  unfolding held_ok_def fits_def
  by (force dest!: map_of_SomeD)

lemma settled_tail:
  assumes "settled_ok l" "lg_settled l = (r, o') # ss" "held_ok l"
    "lg_out l' = AList.delete i (lg_out l)" "lg_settled l' = ss"
  shows "settled_ok l'"
  using assms unfolding settled_ok_def
  by (auto simp: map_of_delete split: if_splits)

text \<open>The state one settled report leaves, for each of the three outcomes.\<close>

lemma settle_resend_state:
  assumes "map_of (lg_out l) (rp_id r) = Some (r', True)"
  shows "settle_one (r, Some True) l =
    l\<lparr>lg_next_id := lg_next_id l + 1,
      lg_pending := bump_all (keys_of r) (lg_pending l), lg_pending_id := lg_next_id l,
      lg_failed_sends := lg_failed_sends l + rp_failed_sends r,
      lg_out := AList.delete (rp_id r) (lg_out l), lg_moving := None,
      lg_settled := tl (lg_settled l)\<rparr>"
  using assms by (simp add: settle_one_def settle_steps_def store_defs)

lemma settle_hold_state:
  assumes "map_of (lg_out l) (rp_id r) = Some (r', f)" "d = Some False \<or> d = Some True \<and> \<not> f"
  shows "settle_one (r, d) l =
    (trim_unacked (append_unacked r l))\<lparr>lg_out := AList.delete (rp_id r) (lg_out l),
      lg_moving := None, lg_settled := tl (lg_settled l)\<rparr>"
  using assms
  by (auto simp: settle_one_def settle_steps_def drop_out_def set_moving_def pop_settled_def
      append_unacked_def)

lemma settle_done_state:
  assumes "map_of (lg_out l) (rp_id r) = Some (r', f)"
  shows "settle_one (r, None) l =
    l\<lparr>lg_confirmed := bump_all (keys_of r) (lg_confirmed l),
      lg_out := AList.delete (rp_id r) (lg_out l), lg_moving := None,
      lg_settled := tl (lg_settled l)\<rparr>"
  using assms by (simp add: settle_one_def settle_steps_def store_defs)

lemma settle_stale_state:
  assumes "map_of (lg_out l) (rp_id r) = None"
  shows "settle_one (r, d) l = l\<lparr>lg_moving := None, lg_settled := tl (lg_settled l)\<rparr>"
proof -
  have "rp_id r \<notin> fst ` set (lg_out l)" using assms by (simp add: map_of_eq_None_iff)
  then have "AList.delete (rp_id r) (lg_out l) = lg_out l" by (rule delete_absent)
  with assms show ?thesis by (simp add: settle_one_def settle_steps_def store_defs)
qed

lemma out_delete_facts:
  "distinct (map fst d) \<Longrightarrow> distinct (map fst (AList.delete i d))"
  "set (AList.delete i d) \<subseteq> set d" "fst ` set (AList.delete i d) = fst ` set d - {i}"
  by (rule distinct_delete) (auto simp: AList.delete_eq)

text \<open>What leaves the out table in any of these states.\<close>

lemma held_ok_gen:
  assumes h: "held_ok l" and n: "lg_out l' = AList.delete i (lg_out l)"
    and u: "\<forall>x \<in> set (lg_unacked l'). fits (lg_next_id l) (lg_last_timestamp l) x"
      "rp_id ` set (lg_unacked l') \<inter> (fst ` set (lg_out l) - {i}) = {}"
      "distinct (map rp_id (lg_unacked l'))" "length (lg_unacked l') \<le> UNACKED_CAP"
    and k: "lg_next_id l \<le> lg_next_id l'" "lg_last_timestamp l' = lg_last_timestamp l"
  shows "held_ok l'"
proof -
  have sub: "set (lg_out l') \<subseteq> set (lg_out l)" by (simp add: n out_delete_facts(2))
  then have out: "set (out_reports l') \<subseteq> set (out_reports l)" by (auto simp: image_iff)
  have "\<forall>x \<in> set (lg_unacked l') \<union> set (out_reports l'). fits (lg_next_id l) (lg_last_timestamp l) x"
    using h u(1) out unfolding held_ok_def by blast
  then have "\<forall>x \<in> set (lg_unacked l') \<union> set (out_reports l'). fits (lg_next_id l') (lg_last_timestamp l') x"
    by (rule fits_all [OF _ k(1) int_le_eq [OF k(2)]])
  moreover have "distinct (map fst (lg_out l'))"
    using h by (simp add: n held_ok_def out_delete_facts(1))
  moreover have "\<forall>(i, x, f) \<in> set (lg_out l). rp_id x = i"
    using h unfolding held_ok_def by (elim conjE)
  then have "\<forall>(i, x, f) \<in> set (lg_out l'). rp_id x = i"
    using sub by (intro ballI) (erule bspec, erule subsetD)
  moreover have "rp_id ` set (lg_unacked l') \<inter> fst ` set (lg_out l') = {}"
    using u(2) by (simp add: n out_delete_facts(3))
  ultimately show ?thesis using u(3,4) unfolding held_ok_def by blast
qed

lemma held_ok_drop:
  assumes h: "held_ok l" and n: "lg_out l' = AList.delete i (lg_out l)"
    and k: "lg_unacked l' = lg_unacked l"
      "lg_next_id l \<le> lg_next_id l'" "lg_last_timestamp l' = lg_last_timestamp l"
  shows "held_ok l'"
proof (rule held_ok_gen [OF h n _ _ _ _ k(2,3)])
  show "rp_id ` set (lg_unacked l') \<inter> (fst ` set (lg_out l) - {i}) = {}"
    using h unfolding k(1) held_ok_def by blast
qed (use h in \<open>simp_all add: k(1) held_ok_def\<close>)

lemma held_ok_move:
  assumes h: "held_ok l" and o: "map_of (lg_out l) (rp_id r) = Some (r, f)"
    and n: "lg_out l' = AList.delete (rp_id r) (lg_out l)"
    and u: "set (lg_unacked l') \<subseteq> insert r (set (lg_unacked l))" "distinct (map rp_id (lg_unacked l'))"
      "length (lg_unacked l') \<le> UNACKED_CAP"
    and k: "lg_next_id l' = lg_next_id l" "lg_last_timestamp l' = lg_last_timestamp l"
  shows "held_ok l'"
proof (rule held_ok_gen [OF h n _ _ u(2,3) eq_imp_le [OF k(1) [symmetric]] k(2)])
  have "fits (lg_next_id l) (lg_last_timestamp l) r"
    using outI [OF h o] by (simp add: fits_def)
  then show "\<forall>x \<in> set (lg_unacked l'). fits (lg_next_id l) (lg_last_timestamp l) x"
    using h u(1) unfolding held_ok_def by blast
  show "rp_id ` set (lg_unacked l') \<inter> (fst ` set (lg_out l) - {rp_id r}) = {}"
    using h u(1) unfolding held_ok_def by blast
qed

lemma linv_settle_one:
  assumes inv: "linv l" and s: "lg_settled l = (r, d) # ss"
  shows "linv (settle_one (r, d) l) \<and> lg_settled (settle_one (r, d) l) = ss"
proof -
  let ?l = "settle_one (r, d) l"
  have h: "held_ok l" and so: "settled_ok l" and c: "counts_ok l" and b: "books_balance l"
    and rest: "lg_pending_id l < lg_next_id l" "lg_moving l = None"
    using inv by (auto simp: linv_def)
  consider (stale) "map_of (lg_out l) (rp_id r) = None"
    | (out) r' f where "map_of (lg_out l) (rp_id r) = Some (r', f)" by (cases "map_of (lg_out l) (rp_id r)") auto
  then show ?thesis
  proof cases
    case stale
    note l = settle_stale_state [OF stale, of d]
    have "held_ok ?l = held_ok l" by (rule held_ok_frame) (simp_all add: l)
    moreover have "settled_ok ?l" using so s by (simp add: settled_ok_def l)
    ultimately show ?thesis
      using h c b rest by (simp add: linv_def) (simp add: l s counts_ok_def books_balance_def)
  next
    case out
    with so s have eq: "r' = r" by (simp add: settled_ok_def)
    note o = out [unfolded eq]
    have del: "carried (map (fst \<circ> snd) (AList.delete (rp_id r) (lg_out l))) k
               = carried (out_reports l) k - amount (keys_of r) k" for k
      using h o by (intro carried_delete) (auto simp: held_ok_def)
    have wf: "0 \<le> amount (keys_of r) k" for k
      using outI [OF h o] by (intro wf_amount_nonneg) simp
    consider (resend) "d = Some True" "f" | (hold) "d = Some False \<or> d = Some True \<and> \<not> f" | (conf) "d = None"
      by (cases d) auto
    then show ?thesis
    proof cases
      case resend
      then have "map_of (lg_out l) (rp_id r) = Some (r, True)" using o by simp
      note l = settle_resend_state [OF this]
      have "held_ok ?l" by (rule held_ok_drop [OF h, where i = "rp_id r"]) (simp_all add: l resend)
      moreover have "settled_ok ?l" by (rule settled_tail [OF so s h]) (simp_all add: l resend s)
      moreover have "0 \<le> rp_failed_sends r" using outI [OF h o] by (simp add: wf_report_def)
      then have "counts_ok ?l" using c wf by (simp add: counts_ok_def l resend distinct_bump_all)
      moreover have "books_balance ?l" using b by (simp add: books_balance_def l resend del)
      ultimately show ?thesis by (simp add: linv_def) (simp add: l resend s)
    next
      case hold
      note l = settle_hold_state [OF o hold]
      let ?u = "append_unacked r l"
      have du: "distinct (map rp_id (lg_unacked ?u))" "set (lg_unacked ?u) = insert r (set (lg_unacked l))"
        using h outI [OF h o] by (auto simp: append_unacked_def held_ok_def)
      have "held_ok ?l"
        by (rule held_ok_move [OF h o])
          (use trim_distinct(1) [OF du(1)] trim_subset [of ?u] trim_length [of ?u] du(2) in
            \<open>simp_all add: l append_unacked_def\<close>)
      moreover have "settled_ok ?l"
        by (rule settled_tail [OF so s h]) (simp_all add: l s append_unacked_def)
      moreover have "0 \<le> tally (lg_pending (trim_unacked ?u)) k" for k
        by (rule order_trans [OF _ trim_pending])
          (use counts_okD [OF c] in \<open>simp add: append_unacked_def\<close>)
      then have "counts_ok ?l"
        using c trim_distinct(2) [of ?u] by (simp add: counts_ok_def l append_unacked_def)
      moreover have "books_balance ?l"
        unfolding books_balance_def
      proof
        fix k show "tally (lg_totals ?l) k = tally (lg_pending ?l) k + carried (lg_unacked ?l) k
          + carried (out_reports ?l) k + tally (lg_undeliverable ?l) k + tally (lg_confirmed ?l) k"
          using trim_balance [of ?u k] trim_held [of ?u k] spec [OF b [unfolded books_balance_def], of k]
          by (simp add: l del) (simp add: append_unacked_def)
      qed
      ultimately show ?thesis using rest by (simp add: linv_def) (simp add: l s append_unacked_def)
    next
      case conf
      note l = settle_done_state [OF o]
      have "held_ok ?l" by (rule held_ok_drop [OF h, where i = "rp_id r"]) (simp_all add: l conf)
      moreover have "settled_ok ?l" by (rule settled_tail [OF so s h]) (simp_all add: l conf s)
      moreover have "counts_ok ?l" using c by (simp add: counts_ok_def l conf)
      moreover have "books_balance ?l" using b by (simp add: books_balance_def l conf del)
      ultimately show ?thesis using rest by (simp add: linv_def) (simp add: l conf s)
    qed
  qed
qed

lemma settle_all_laws:
  "linv l \<Longrightarrow> lg_settled l = ss \<Longrightarrow> linv (settle_all ss l) \<and> lg_settled (settle_all ss l) = []"
proof (induction ss arbitrary: l)
  case (Cons s ss)
  obtain r d where s: "s = (r, d)" by (cases s)
  from linv_settle_one [of l r d ss] Cons.prems s
  have "linv (settle_one s l)" "lg_settled (settle_one s l) = ss" by auto
  from Cons.IH [OF this] show ?case by simp
qed simp

lemma linv_lock [simp]:
  "linv (l\<lparr>lg_owner := x1\<rparr>) = linv l" "linv (l\<lparr>lg_depth := x2\<rparr>) = linv l"
  "linv (l\<lparr>lg_folding := x3\<rparr>) = linv l" "linv (l\<lparr>lg_held_signals := x4\<rparr>) = linv l"
  "linv (l\<lparr>lg_ran := x5\<rparr>) = linv l" "linv (l\<lparr>lg_last_solo := x6\<rparr>) = linv l"
  "linv (l\<lparr>lg_unsent := x7\<rparr>) = linv l" "linv (l\<lparr>lg_hooks := x8\<rparr>) = linv l"
  "linv (l\<lparr>lg_unarmed := x9\<rparr>) = linv l"
  by (simp_all add: linv_defs)

lemma free_fold_eq:
  "free_fold me l = Some l1 \<Longrightarrow>
   l1 = l\<lparr>lg_owner := lg_owner l1, lg_depth := lg_depth l1\<rparr> \<and> \<not> lg_folding l"
  by (auto simp: free_fold_def acquire_def split: option.splits if_splits)

lemma free_fold_linv: "free_fold me l = Some l1 \<Longrightarrow> linv l1 = linv l"
  by (auto simp: free_fold_def acquire_def split: option.splits if_splits)

lemma free_fold_frame:
  assumes "free_fold me l = Some l1"
  shows "lg_inbox l1 = lg_inbox l" "lg_totals l1 = lg_totals l" "lg_settled l1 = lg_settled l"
    "lg_unacked l1 = lg_unacked l" "lg_pending l1 = lg_pending l" "lg_out l1 = lg_out l"
    "lg_last_timestamp l1 = lg_last_timestamp l" "lg_failed_sends l1 = lg_failed_sends l"
    "lg_started l1 = lg_started l" "lg_next_id l1 = lg_next_id l" "lg_folding l1 = lg_folding l"
    "lg_undeliverable l1 = lg_undeliverable l" "lg_confirmed l1 = lg_confirmed l"
  using assms by (auto simp: free_fold_def acquire_def split: option.splits if_splits)

lemma end_fold_linv [simp]: "linv (end_fold l) = linv l"
  by (simp add: end_fold_def run_held_signals_def release_def)

lemma end_fold_frame [simp]:
  "lg_inbox (end_fold l) = lg_inbox l" "lg_totals (end_fold l) = lg_totals l"
  "lg_settled (end_fold l) = lg_settled l" "lg_unacked (end_fold l) = lg_unacked l"
  "lg_pending (end_fold l) = lg_pending l" "lg_out (end_fold l) = lg_out l"
  "lg_last_timestamp (end_fold l) = lg_last_timestamp l"
  "lg_undeliverable (end_fold l) = lg_undeliverable l"
  "lg_next_id (end_fold l) = lg_next_id l" "lg_moving (end_fold l) = lg_moving l"
  by (simp_all add: end_fold_def run_held_signals_def release_def)

lemma fold_held_laws:
  assumes "linv l"
  shows "linv (fold_held l)" "lg_settled (fold_held l) = []"
proof -
  have "linv (fold_inbox l)" using fold_inbox_laws [OF assms] by simp
  from settle_all_laws [OF this refl]
  show "linv (fold_held l)" "lg_settled (fold_held l) = []" by (simp_all add: fold_held_def Let_def)
qed

lemma linv_try_fold: "linv l \<Longrightarrow> linv (snd (try_fold me l))"
  by (auto simp: try_fold_def fold_held_laws free_fold_linv split: option.splits)

lemma linv_append_inbox:
  "linv l \<Longrightarrow> (case e of (r, u, n, w) \<Rightarrow> 0 < n) \<Longrightarrow> linv (append_inbox e l)"
proof -
  have "books_balance (append_inbox e l) = books_balance l" "held_ok (append_inbox e l) = held_ok l"
    "settled_ok (append_inbox e l) = settled_ok l"
    by (simp_all add: append_inbox_def books_balance_def held_ok_def settled_ok_def)
  moreover assume "linv l" "case e of (r, u, n, w) \<Rightarrow> 0 < n"
  ultimately show ?thesis
    by (simp add: linv_def) (simp add: append_inbox_def counts_ok_def)
qed

lemma linv_fold_inbox: "linv l \<Longrightarrow> linv (fold_inbox l)"
  by (simp add: fold_inbox_laws)

lemma linv_arm [simp]: "linv (arm l) = linv l"
  by (simp add: arm_def)

lemma linv_record_drop: "linv l \<Longrightarrow> linv (record_drop me reason n unit w l)"
  by (auto simp: record_drop_def Let_def free_fold_linv intro!: linv_fold_inbox linv_append_inbox
      split: option.splits)

lemma linv_record_items: "linv l \<Longrightarrow> linv (record_items me reason spans snapshots w l)"
  by (auto simp: record_items_def intro!: linv_record_drop linv_append_inbox split: option.splits)

lemma linv_record_failed_send: "linv l \<Longrightarrow> linv (record_failed_send me l)"
  by (auto simp: record_failed_send_def Let_def intro!: linv_append_inbox linv_try_fold)

lemma hand_out_settled [simp]: "lg_settled (hand_out rs l) = lg_settled l"
  by (induction rs arbitrary: l) (simp_all add: put_out_def)

section \<open>Cutting and handing out\<close>

lemma out_fresh: "held_ok l \<Longrightarrow> i \<in> fst ` set (lg_out l) \<Longrightarrow> i < lg_next_id l"
  using outI by (metis map_of_eq_None_iff not_None_eq surj_pair)

lemma hand_out_eq:
  "distinct (map rp_id rs) \<Longrightarrow> rp_id ` set rs \<inter> fst ` set (lg_out l) = {} \<Longrightarrow>
   hand_out rs l = l\<lparr>lg_out := lg_out l @ map (\<lambda>r. (rp_id r, (r, False))) rs\<rparr>"
proof (induction rs arbitrary: l)
  case (Cons r rs)
  have "put_out r False l = l\<lparr>lg_out := lg_out l @ [(rp_id r, r, False)]\<rparr>"
    using Cons.prems(2) by (simp add: put_out_def update_new)
  with Cons show ?case by auto
qed simp

lemma hand_out_linv:
  assumes "linv l" "lg_settled l = []"
  shows "linv ((hand_out (lg_unacked l) l)\<lparr>lg_unacked := []\<rparr>)"
proof -
  have h: "held_ok l" using assms(1) by (simp add: linv_def)
  then have "hand_out (lg_unacked l) l
      = l\<lparr>lg_out := lg_out l @ map (\<lambda>r. (rp_id r, (r, False))) (lg_unacked l)\<rparr>"
    by (intro hand_out_eq) (auto simp: held_ok_def)
  note e = this
  have "distinct (map fst (lg_out l @ map (\<lambda>r. (rp_id r, (r, False))) (lg_unacked l)))"
    using h by (auto simp: held_ok_def comp_def)
  with h have "held_ok ((hand_out (lg_unacked l) l)\<lparr>lg_unacked := []\<rparr>)"
    unfolding e held_ok_def by (auto simp: comp_def)
  moreover have "carried (map (fst \<circ> snd) (map (\<lambda>r. (rp_id r, (r, False))) rs)) k = carried rs k" for rs k
    by (simp add: carried_def comp_def)
  ultimately show ?thesis
    using assms unfolding e
    by (simp add: linv_def books_balance_def counts_ok_def settled_ok_def)
qed

lemma cut_state:
  "run_steps (cut_steps r l) l = l\<lparr>lg_next_id := lg_next_id l + 2,
     lg_last_timestamp := rp_timestamp_ns r, lg_moving := None,
     lg_out := AList.update (rp_id r) (r, True) (lg_out l),
     lg_pending := cut_rest l, lg_pending_id := lg_next_id l + 1,
     lg_failed_sends := lg_failed_sends l - rp_failed_sends r\<rparr>"
  by (simp add: cut_steps_def store_defs)

lemma pending_keys:
  "distinct (map fst (lg_pending l)) \<Longrightarrow> distinct (sort_key wire_key (map fst (lg_pending l)))"
  by simp

lemma cut_keys: "keys_of (cut_report time_ns now q l) =
  map (\<lambda>k. (k, min (tally (lg_pending l) k) INT32_MAX)) (sort_key wire_key (map fst (lg_pending l)))"
  by (simp add: cut_report_def keys_of_def)

lemma cut_splits:
  assumes "counts_ok l"
  shows "amount (keys_of (cut_report time_ns now q l)) k + tally (cut_rest l) k = tally (lg_pending l) k"
    "0 \<le> tally (cut_rest l) k" "distinct (map fst (cut_rest l))"
proof -
  have d: "distinct (map fst (lg_pending l))" using assms by (simp add: counts_ok_def)
  note ks = pending_keys [OF d]
  have nn: "0 \<le> tally (lg_pending l) k" using assms by (rule counts_okD)
  have z: "tally (lg_pending l) k = 0" if "k \<notin> fst ` set (lg_pending l)"
    using that by (rule tally_absent)
  show "amount (keys_of (cut_report time_ns now q l)) k + tally (cut_rest l) k = tally (lg_pending l) k"
    using nn z unfolding cut_keys cut_rest_def amount_map_keys [OF ks] tally_map_keys
    by (auto simp: min_def INT32_MAX_def)
  show "0 \<le> tally (cut_rest l) k"
    unfolding cut_rest_def tally_map_keys by simp
  show "distinct (map fst (cut_rest l))"
    using ks by (simp add: cut_rest_def comp_def)
qed

lemma wf_cut_report:
  assumes "counts_ok l"
  shows "wf_report (cut_report time_ns now q l)"
proof -
  have "0 \<le> tally (lg_pending l) k" for k using assms by (rule counts_okD)
  moreover have "0 \<le> lg_failed_sends l" using assms by (simp add: counts_ok_def)
  ultimately show ?thesis by (auto simp: wf_report_def cut_report_def INT32_MAX_def)
qed

lemma linv_cut:
  assumes inv: "linv l" and s: "lg_settled l = []"
  shows "linv (snd (cut_held time_ns now q l))"
proof -
  let ?r = "cut_report time_ns now q l" and ?l = "run_steps (cut_steps (cut_report time_ns now q l) l) l"
  have h: "held_ok l" and c: "counts_ok l" using inv by (auto simp: linv_def)
  have r: "rp_id ?r = lg_next_id l" "rp_timestamp_ns ?r = max time_ns (lg_last_timestamp l + 1)"
    by (simp_all add: cut_report_def)
  have new: "lg_next_id l \<notin> fst ` set (lg_out l)" using out_fresh [OF h] by auto
  then have o: "lg_out ?l = lg_out l @ [(lg_next_id l, ?r, True)]"
    by (simp add: cut_state r update_new)
  have "lg_next_id l \<notin> rp_id ` set (lg_unacked l)"
    using held_fits [OF h] by (auto simp: fits_def)
  moreover have "fits (lg_next_id l + 2) (rp_timestamp_ns ?r) ?r"
    using wf_cut_report [OF c, of time_ns now q] by (simp add: fits_def r)
  moreover have "\<forall>x \<in> set (lg_unacked l) \<union> set (out_reports l).
      fits (lg_next_id l + 2) (rp_timestamp_ns ?r) x"
    by (rule fits_all [OF held_fits [OF h]]) (simp_all add: r)
  ultimately have "held_ok ?l"
    unfolding held_ok_def o using h new by (simp add: held_ok_def cut_state r(1))
  moreover have "counts_ok ?l"
    using cut_splits(2,3) [OF c] c
    by (auto simp: counts_ok_def cut_state cut_report_def)
  moreover have "books_balance ?l"
    unfolding books_balance_def o using inv cut_splits(1) [OF c, of time_ns now q]
    by (simp add: linv_def books_balance_def cut_state) (smt (verit))
  ultimately have "linv ?l" using s by (simp add: linv_def settled_ok_def) (simp add: cut_state s)
  with inv show ?thesis by (auto simp: cut_held_def Let_def)
qed

lemma linv_next [simp]: "linv l \<Longrightarrow> lg_next_id l \<le> n \<Longrightarrow> linv (l\<lparr>lg_next_id := n\<rparr>)"
proof -
  assume inv: "linv l" and n: "lg_next_id l \<le> n"
  then have h: "held_ok l" by (simp add: linv_def)
  have "\<forall>r \<in> set (lg_unacked l) \<union> set (out_reports l). fits n (lg_last_timestamp l) r"
    by (rule fits_all [OF held_fits [OF h] n order_refl])
  with h have "held_ok (l\<lparr>lg_next_id := n\<rparr>)" by (simp add: held_ok_def)
  with inv n show ?thesis
    by (simp add: linv_def books_balance_def counts_ok_def settled_ok_def)
qed

definition attach_fold :: "int \<Rightarrow> int \<Rightarrow> rat \<Rightarrow> ledger \<Rightarrow> report option \<times> ledger" where
  "attach_fold queue_depth time_ns now l =
     (let l1 = fold_held l
      in cut_held time_ns now queue_depth ((hand_out (lg_unacked l1) l1)\<lparr>lg_unacked := []\<rparr>))"

lemma linv_attach_fold: "linv l \<Longrightarrow> linv (snd (attach_fold q time_ns now l))"
  unfolding attach_fold_def Let_def
  by (rule linv_cut) (simp_all add: hand_out_linv fold_held_laws hand_out_settled)

lemma linv_attach: "linv l \<Longrightarrow> linv (snd (attach me e attr q time_ns now l))"
  using linv_attach_fold [of "(the (free_fold me l))\<lparr>lg_folding := True\<rparr>" q time_ns now]
  by (auto simp: attach_def attach_fold_def Let_def free_fold_linv
      split: option.splits held_reports.splits prod.splits)

lemma out_in_held:
  "held_ok l \<Longrightarrow> r \<in> set (out_in e l) \<Longrightarrow> \<exists>f. map_of (lg_out l) (rp_id r) = Some (r, f)"
proof -
  assume h: "held_ok l" and r: "r \<in> set (out_in e l)"
  have "r \<in> set (reports_out rs out) \<Longrightarrow> \<exists>i f. map_of out i = Some (r, f)" for rs out
    by (induction rs) (auto split: option.splits)
  with r obtain i f where i: "map_of (lg_out l) i = Some (r, f)"
    by (auto simp: out_in_def split: if_splits held_reports.splits)
  with outI [OF h i] show ?thesis by auto
qed

lemma linv_settle: "linv l \<Longrightarrow> linv (settle (out_in e l) o' l)"
proof -
  assume inv: "linv l"
  let ?l = "settle (out_in e l) o' l"
  have "books_balance ?l = books_balance l" "counts_ok ?l = counts_ok l" "held_ok ?l = held_ok l"
    by (simp_all add: settle_def books_balance_def counts_ok_def held_ok_def)
  moreover have "settled_ok ?l"
    using inv out_in_held [of l _ e] by (fastforce simp: settle_def settled_ok_def linv_def)
  ultimately show ?thesis using inv by (simp add: linv_def) (simp add: settle_def)
qed

lemma linv_unsent: "linv l \<Longrightarrow> linv (snd (unsent me e definite last_settle l))"
  by (auto simp: unsent_def Let_def intro!: linv_try_fold linv_settle)

lemma settle_Nil [simp]: "settle [] o' l = l"
  by (simp add: settle_def)

lemma linv_done: "linv l \<Longrightarrow> linv (done_with me e l)"
  by (auto simp: done_with_def Let_def intro!: linv_try_fold linv_settle)

lemma linv_fresh: "linv (fresh_ledger now pid i)"
  by (simp add: fresh_ledger_def linv_defs)

lemma linv_fork: "linv (at_fork_reinit now pid l)"
  by (simp add: at_fork_reinit_def linv_defs)

section \<open>Reachable states\<close>

text \<open>One step of the process: an operation by any thread, another thread entering a
  fold and being switched away from, that fold ending, or a fork. An envelope's
  spans and snapshots are opaque to the ledger.\<close>

inductive ledger_step :: "ledger \<Rightarrow> ledger \<Rightarrow> bool" where
  st_record: "ledger_step l (record_drop me reason n unit w l)"
| st_items: "ledger_step l (record_items me reason spans snapshots w l)"
| st_failed: "ledger_step l (record_failed_send me l)"
| st_snapshot: "ledger_step l (snd (snapshot me l))"
| st_hold: "ledger_step l (snd (hold_signal me handler stack l))"
| st_expedite: "ledger_step l (expedite l)"
| st_attach: "ledger_step l (snd (attach me (e :: (nat, nat) envelope) attr q time_ns now l))"
| st_unsent: "ledger_step l (snd (unsent me (e :: (nat, nat) envelope) definite last_settle l))"
| st_done: "ledger_step l (done_with me (e :: (nat, nat) envelope) l)"
| st_undelivered: "ledger_step l (snd (undelivered me l))"
| st_park: "free_fold me l = Some l1 \<Longrightarrow> ledger_step l (l1\<lparr>lg_folding := True\<rparr>)"
| st_unpark: "lg_folding l \<Longrightarrow> ledger_step l (end_fold l)"
| st_fork: "ledger_step l (at_fork_child now pid l)"

inductive ledger_reach :: "ledger \<Rightarrow> bool" where
  start: "ledger_reach (fresh_ledger now pid i)"
| further: "ledger_reach l \<Longrightarrow> ledger_step l l' \<Longrightarrow> ledger_reach l'"

inductive_cases ledger_stepE: "ledger_step l l'"

lemma linv_snapshot: "linv l \<Longrightarrow> linv (snd (snapshot me l))"
  using linv_try_fold [of l me] by (auto simp: snapshot_def split: prod.splits)

lemma linv_undelivered: "linv l \<Longrightarrow> linv (snd (undelivered me l))"
  using linv_try_fold [of l me] by (auto simp: undelivered_def split: prod.splits)

lemma linv_hold: "linv l \<Longrightarrow> linv (snd (hold_signal me h stack l))"
  by (auto simp: hold_signal_def acquire_def release_def split: option.splits)

lemma linv_step: "ledger_step l l' \<Longrightarrow> linv l \<Longrightarrow> linv l'"
  by (cases rule: ledger_step.cases)
    (auto simp: linv_record_drop linv_record_items linv_record_failed_send linv_snapshot linv_hold
      expedite_def linv_attach linv_unsent linv_done linv_undelivered free_fold_linv
      at_fork_child_def linv_fork)

lemma reach_linv: "ledger_reach l \<Longrightarrow> linv l"
  by (induction rule: ledger_reach.induct) (auto simp: linv_fresh linv_step)

section \<open>Exact counting\<close>

definition counted :: "ledger \<Rightarrow> drop_key \<Rightarrow> int" where
  "counted l k = tally (lg_totals l) k + waiting (lg_inbox l) k"

lemma fold_entries_counted:
  "lg_inbox l = es \<Longrightarrow> lg_inbox (fold_entries es l) = [] \<and>
   tally (lg_totals (fold_entries es l)) k = tally (lg_totals l) k + waiting es k"
proof (induction es arbitrary: l)
  case (Cons e es)
  have w: "waiting (e # es) k = waiting [e] k + waiting es k"
    using waiting_append [of "[e]" es k] by simp
  from Cons.IH [of "run_steps (entry_steps e) l"] Cons.prems
  show ?case by (simp add: inbox_entry totals_entry w)
qed simp

lemma counted_fold_inbox [simp]: "counted (fold_inbox l) k = counted l k"
  using fold_entries_counted [of l "lg_inbox l" k] by (simp add: counted_def fold_inbox_def)

lemma counted_lock [simp]: "counted (l\<lparr>lg_folding := f\<rparr>) k = counted l k"
  "counted (end_fold l) k = counted l k" "counted (arm l) k = counted l k"
  "counted (append_inbox e l) k = counted l k + waiting [e] k"
  by (simp_all add: counted_def arm_def append_inbox_def)

lemma counted_free: "free_fold me l = Some l1 \<Longrightarrow> counted l1 k = counted l k"
  by (simp add: counted_def free_fold_frame)

lemma counted_record:
  "counted (record_drop me reason n unit w l) k = counted l k +
     (case reason_of reason of None \<Rightarrow> 0 | Some r \<Rightarrow>
        if 0 < n \<and> k = (r, unit_for r unit) then n else 0)"
  by (auto simp: record_drop_def Let_def counted_free unit_for_def split: option.splits)

lemma counted_items:
  "counted (record_items me reason spans snapshots w l) k = counted l k +
     (case reason_of reason of None \<Rightarrow> 0 | Some r \<Rightarrow>
        (if k = (r, U_SPAN) then max 0 spans else 0) +
        (if k = (r, U_SNAPSHOT) then max 0 snapshots else 0))"
  by (auto simp: record_items_def counted_record unit_for_def split: option.splits)

text \<open>The ledger is a loss sink, for every thread.\<close>

interpretation lg: batch_sink "record_drop me" counted "record_items me" for me
  by unfold_locales (simp_all add: counted_record counted_items)

section \<open>Properties\<close>

text \<open>C6: the ledger's books balance in every reachable state, whatever the
  interleaving of threads, contended folds, failures and forks: every count in the
  process totals is pending, held for resending, out on a POST, confirmed, or known
  to be undeliverable, in exactly one of them; at most eight reports are held, and
  every count of a held or outstanding report fits an int32.\<close>

theorem ledger_books_balance:
  assumes "ledger_reach l"
  shows "tally (lg_totals l) k =
      tally (lg_pending l) k + carried (lg_unacked l) k + carried (map (fst \<circ> snd) (lg_out l)) k
      + tally (lg_undeliverable l) k + tally (lg_confirmed l) k \<and>
    length (lg_unacked l) \<le> 8 \<and>
    (\<forall>r \<in> set (lg_unacked l) \<union> set (map (fst \<circ> snd) (lg_out l)).
      \<forall>(name, n) \<in> set (rp_discarded_events r). 0 \<le> n \<and> n \<le> 2 ^ 31 - 1)"
proof -
  have i: "books_balance l" "held_ok l" using reach_linv [OF assms] by (auto simp: linv_def)
  have "tally (lg_totals l) k =
      tally (lg_pending l) k + carried (lg_unacked l) k + carried (map (fst \<circ> snd) (lg_out l)) k
      + tally (lg_undeliverable l) k + tally (lg_confirmed l) k"
    using i(1) unfolding books_balance_def by blast
  moreover have "length (lg_unacked l) \<le> 8" using i(2) by (simp add: held_ok_def UNACKED_CAP_def)
  moreover have "\<forall>r \<in> set (lg_unacked l) \<union> set (out_reports l). wf_report r"
    using held_fits [OF i(2)] unfolding fits_def by blast
  then have "\<forall>r \<in> set (lg_unacked l) \<union> set (out_reports l).
      \<forall>(name, n) \<in> set (rp_discarded_events r). 0 \<le> n \<and> n \<le> 2 ^ 31 - 1"
    unfolding wf_report_def INT32_MAX_def by blast
  ultimately show ?thesis by blast
qed

text \<open>A reachable state the witnesses use: one record, then a drain that hands its
  report out.\<close>

definition sample_ledger :: ledger where
  "sample_ledger = record_drop 0 (reason_value R_NETWORK_ERROR) 3 None None (fresh_ledger 0 7 0)"

lemma reach_sample: "ledger_reach sample_ledger"
  unfolding sample_ledger_def by (rule further [OF start st_record])

definition sample_envelope :: "(nat, nat) envelope" where
  "sample_envelope = \<lparr>en_id = 100, en_is_envelope = True, en_spans = [1], en_snapshots = [],
     en_client_reports = CR_tuple []\<rparr>"

theorem ledger_books_balance_witness:
  "let l = snd (attach 0 sample_envelope (Some True) 0 5 1 sample_ledger)
   in tally (lg_totals l) (R_NETWORK_ERROR, U_SPAN) =
      tally (lg_pending l) (R_NETWORK_ERROR, U_SPAN)
      + carried (lg_unacked l) (R_NETWORK_ERROR, U_SPAN)
      + carried (map (fst \<circ> snd) (lg_out l)) (R_NETWORK_ERROR, U_SPAN)
      + tally (lg_undeliverable l) (R_NETWORK_ERROR, U_SPAN)
      + tally (lg_confirmed l) (R_NETWORK_ERROR, U_SPAN)"
  using ledger_books_balance [OF further [OF reach_sample st_attach]] by (simp add: Let_def)

text \<open>Recording is exact and never waits. Whatever holds the fold lock, and
  whatever the tables hold, a record of a known reason adds its count under the
  reason's unit and nothing else, a record of anything else or of a count that is
  not positive adds nothing, and a batch adds its spans and its snapshots each in
  their own unit.\<close>

theorem recording_is_exact:
  "counted (record_drop me reason n unit w l) k = counted l k +
     (case reason_of reason of None \<Rightarrow> 0 | Some r \<Rightarrow>
        if 0 < n \<and> k = (r, unit_for r unit) then n else 0) \<and>
   counted (record_items me reason spans snapshots w l) k = counted l k +
     (case reason_of reason of None \<Rightarrow> 0 | Some r \<Rightarrow>
        (if k = (r, U_SPAN) then max 0 spans else 0) +
        (if k = (r, U_SNAPSHOT) then max 0 snapshots else 0))"
  using lg.lose_counts lg.lose_batch_counts by blast

text \<open>C32: cutting a report loses nothing. For a reachable state the report's events,
  read back through their wire names, and the counts left pending add up to what was
  pending before, for every reason and unit; the events are in strictly increasing
  wire order, and the report's timestamp is above every one used before.\<close>

theorem cut_report_roundtrip:
  assumes "ledger_reach l"
  shows "let r = cut_report time_ns now q l in
     amount (keys_of r) k + tally (cut_rest l) k = tally (lg_pending l) k \<and>
     sorted_wrt (<) (map fst (rp_discarded_events r)) \<and>
     lg_last_timestamp l < rp_timestamp_ns r \<and>
     (\<forall>r' \<in> set (lg_unacked l) \<union> set (map (fst \<circ> snd) (lg_out l)).
        rp_timestamp_ns r' < rp_timestamp_ns r)"
proof -
  have i: "counts_ok l" "held_ok l" using reach_linv [OF assms] by (auto simp: linv_def)
  let ?ks = "sort_key wire_key (map fst (lg_pending l))"
  have d: "distinct ?ks" using i(1) by (simp add: counts_ok_def)
  have "sorted (map wire_key ?ks)" by simp
  moreover have "distinct (map wire_key ?ks)"
    using d by (simp add: distinct_map inj_on_def)
  ultimately have "sorted_wrt (<) (map wire_key ?ks)"
    by (simp add: strict_sorted_iff del: map_map)
  then have "sorted_wrt (<) (map fst (rp_discarded_events (cut_report time_ns now q l)))"
    by (simp add: cut_report_def comp_def)
  moreover have "\<forall>r' \<in> set (lg_unacked l) \<union> set (out_reports l). rp_timestamp_ns r' \<le> lg_last_timestamp l"
    using held_fits [OF i(2)] unfolding fits_def by blast
  moreover have "lg_last_timestamp l < rp_timestamp_ns (cut_report time_ns now q l)"
    by (simp add: cut_report_def)
  ultimately show ?thesis
    using cut_splits(1) [OF i(1)] unfolding Let_def by (meson le_less_trans)
qed

theorem cut_report_roundtrip_witness:
  "lg_last_timestamp (fresh_ledger 0 7 0) < rp_timestamp_ns (cut_report 5 1 0 (fresh_ledger 0 7 0))"
  using cut_report_roundtrip [OF start [of 0 7 0], of 5 1 0] by (simp add: Let_def)

end
