(* ===== verification/Ledger_Delivery.thy ===== *)
theory Ledger_Delivery
  imports Ledger_Laws
begin

text \<open>
  Delivery, and the reader that never waits. The first part shows what a drain may
  rely on: an envelope is changed only by adding reports the ledger then holds out,
  a failure is accounted at most once, and \<open>undelivered\<close> is what no receiver has
  confirmed. The second part places that reader between any two stores of a fold
  another thread is running, and of the hand-out and cut after it (\<open>fold_pass\<close>, \<open>attach_pass\<close>): it counts
  every report and every record at least once, until the ledger gives it up.
\<close>

section \<open>Readers\<close>

text \<open>Everything the reader counts a report from: the held ones and those out whose
  first queued outcome is not a delivery, one per identity.\<close>

definition seen :: "ledger \<Rightarrow> report set" where
  "seen l = {r \<in> set (lg_unacked l) \<union> set (still_out l). \<not> in_table l r}"

lemma by_identity_append:
  "by_identity (xs @ ys) d = by_identity ys (by_identity xs d)"
  by (induction xs d rule: by_identity.induct) auto

lemma by_identity_map_of:
  "map_of (by_identity rs d) i =
     (if i \<in> rp_id ` set rs then Some (last (filter (\<lambda>r. rp_id r = i) rs)) else map_of d i)"
  by (induction rs d rule: by_identity.induct) (auto simp: map_of_update image_iff filter_empty_conv)

lemma by_identity_distinct: "distinct (map fst d) \<Longrightarrow> distinct (map fst (by_identity rs d))"
  by (induction rs d rule: by_identity.induct) (auto simp: distinct_update)

lemma by_identity_entries:
  "\<forall>(i, r) \<in> set d. rp_id r = i \<Longrightarrow> \<forall>(i, r) \<in> set (by_identity rs d). rp_id r = i"
proof (induction rs d rule: by_identity.induct)
  case (2 r rs d)
  have "set (AList.update (rp_id r) r d) \<subseteq> insert (rp_id r, r) (set d)"
    by (induction d) auto
  with 2 show ?case by fastforce
qed simp

lemma set_by_identity: "snd ` set (by_identity rs []) \<subseteq> set rs"
proof
  fix r assume "r \<in> snd ` set (by_identity rs [])"
  then obtain i where m: "(i, r) \<in> set (by_identity rs [])" by auto
  then have "map_of (by_identity rs []) i = Some r"
    by (simp add: by_identity_distinct)
  then have "i \<in> rp_id ` set rs" "r = last (filter (\<lambda>r. rp_id r = i) rs)"
    by (auto simp: by_identity_map_of split: if_splits)
  then have "filter (\<lambda>r. rp_id r = i) rs \<noteq> []" by (auto simp: filter_empty_conv)
  with \<open>r = _\<close> have "r \<in> set (filter (\<lambda>r. rp_id r = i) rs)" using last_in_set by metis
  then show "r \<in> set rs" by simp
qed

lemma by_identity_reports:
  assumes "inj_on rp_id (set rs)"
  shows "set (map snd (by_identity rs [])) = set rs" "distinct (map snd (by_identity rs []))"
proof -
  let ?d = "by_identity rs []"
  have ids: "\<forall>(i, r) \<in> set ?d. rp_id r = i" by (rule by_identity_entries) simp
  have d: "distinct (map fst ?d)" by (simp add: by_identity_distinct)
  have "r \<in> snd ` set ?d" if "r \<in> set rs" for r
  proof -
    from that have "map_of ?d (rp_id r) \<noteq> None" by (simp add: by_identity_map_of)
    then obtain r' where r': "(rp_id r, r') \<in> set ?d" using map_of_SomeD by fastforce
    with ids have "rp_id r' = rp_id r" by auto
    moreover have "r' \<in> set rs" using r' set_by_identity by force
    ultimately have "r' = r" using assms that by (simp add: inj_on_def)
    with r' show ?thesis by force
  qed
  with set_by_identity show "set (map snd ?d) = set rs" by auto
  have "map fst ?d = map (rp_id \<circ> snd) ?d" using ids by auto
  with d show "distinct (map snd ?d)" by (metis distinct_map map_map)
qed

lemma carried_set: "distinct rs \<Longrightarrow> carried rs k = (\<Sum>r\<in>set rs. amount (keys_of r) k)"
  by (simp add: carried_def sum_list_distinct_conv_sum_set)

lemma tally_add_reports [simp]: "tally (add_reports rs c) k = tally c k + carried rs k"
  by (induction rs c rule: add_reports.induct) auto

definition apart :: "ledger \<Rightarrow> bool" where
  "apart l \<longleftrightarrow> inj_on rp_id (set (lg_unacked l) \<union> set (still_out l))"

lemma carried_unconfirmed:
  assumes "apart l"
  shows "carried (unconfirmed_reports l) k = (\<Sum>r\<in>seen l. amount (keys_of r) k)"
proof -
  have "inj_on rp_id (set (lg_unacked l @ still_out l))" using assms by (simp add: apart_def)
  note b = by_identity_reports [OF this]
  have "set (unconfirmed_reports l) = seen l"
    unfolding unconfirmed_reports_def set_filter b(1) by (auto simp: seen_def)
  moreover have "distinct (unconfirmed_reports l)"
    unfolding unconfirmed_reports_def by (rule distinct_filter [OF b(2)])
  ultimately show ?thesis by (simp add: carried_set)
qed

text \<open>What a reader that cannot take the fold returns.\<close>

definition reading :: "ledger \<Rightarrow> drop_key \<Rightarrow> int" where
  "reading l k = tally (read_undelivered False l) k"

lemma reading_eq:
  "apart l \<Longrightarrow> reading l k =
     tally (lg_pending l) k + (\<Sum>r\<in>seen l. amount (keys_of r) k) + waiting (lg_inbox l) k"
  by (simp add: reading_def read_undelivered_def Let_def carried_unconfirmed)

lemma held_out_ids: "held_ok l \<Longrightarrow> \<forall>(i, r, f) \<in> set (lg_out l). rp_id r = i"
  unfolding held_ok_def by (elim conjE)

lemma held_distinct: "held_ok l \<Longrightarrow> distinct (map fst (lg_out l))"
  unfolding held_ok_def by (elim conjE)

lemma held_apart: "held_ok l \<Longrightarrow> rp_id ` set (lg_unacked l) \<inter> fst ` set (lg_out l) = {}"
  unfolding held_ok_def by (elim conjE)

lemma held_unacked: "held_ok l \<Longrightarrow> distinct (map rp_id (lg_unacked l))"
  unfolding held_ok_def by (elim conjE)

lemma held_lookup:
  assumes "held_ok l" "r \<in> set (out_reports l)"
  obtains f where "map_of (lg_out l) (rp_id r) = Some (r, f)" "rp_id r \<in> fst ` set (lg_out l)"
proof -
  obtain i f where m: "(i, r, f) \<in> set (lg_out l)" using assms(2) by auto
  from bspec [OF held_out_ids [OF assms(1)] m] have "rp_id r = i" by simp
  with m held_distinct [OF assms(1)] show ?thesis by (intro that [of f]) (auto simp: rev_image_eqI)
qed

lemma linv_apart: "held_ok l \<Longrightarrow> apart l"
proof -
  assume h: "held_ok l"
  have o: "inj_on rp_id (set (out_reports l))"
    by (rule inj_onI) (metis h held_lookup option.inject prod.inject)
  have sub: "rp_id ` set (out_reports l) \<subseteq> fst ` set (lg_out l)"
    using held_lookup [OF h] by blast
  with held_apart [OF h] held_unacked [OF h] o have "inj_on rp_id (set (lg_unacked l) \<union> set (out_reports l))"
    unfolding inj_on_Un distinct_map by blast
  then show "apart l" unfolding apart_def
    by (rule inj_on_subset) (auto simp: still_out_def)
qed

section \<open>A fold parked between two stores\<close>

text \<open>The states a sequence of stores passes through, the first and the last included.\<close>

definition passes :: "('a \<Rightarrow> 'a) list \<Rightarrow> 'a \<Rightarrow> 'a set" where
  "passes fs l = {run_steps (take i fs) l |i. i \<le> length fs}"

lemma passes_Nil [simp]: "passes [] l = {l}"
  by (simp add: passes_def)

lemma passes_Cons [simp]: "passes (f # fs) l = insert l (passes fs (f l))"
proof -
  have "{run_steps (take i (f # fs)) l |i. i \<le> Suc (length fs)}
      = insert l {run_steps (take i fs) (f l) |i. i \<le> length fs}"
    by (auto simp: take_Cons' le_Suc_eq)
  then show ?thesis by (simp add: passes_def)
qed

lemma apart_cong:
  "lg_unacked l' = lg_unacked l \<Longrightarrow> still_out l' = still_out l \<Longrightarrow> apart l' = apart l"
  by (simp add: apart_def)

lemma reading_cong:
  assumes "lg_pending l' = lg_pending l" "lg_pending_id l' = lg_pending_id l"
    "lg_moving l' = lg_moving l" "lg_unacked l' = lg_unacked l" "lg_out l' = lg_out l"
    "lg_settled l' = lg_settled l" "lg_inbox l' = lg_inbox l"
  shows "reading l' k = reading l k"
  unfolding reading_def read_undelivered_def unconfirmed_reports_def still_out_def in_table_def assms
  by (rule refl)

lemma reading_quiet [simp]:
  "reading (new_object l) k = reading l k"
  "reading (set_last_timestamp t l) k = reading l k"
  "reading (add_failed_sends n l) k = reading l k"
  "reading (note_confirmed r l) k = reading l k"
  "reading (add_total key n l) k = reading l k"
  by (rule reading_cong; simp add: store_frames store_defs)+

lemma still_out_unsettled: "lg_settled l = [] \<Longrightarrow> still_out l = out_reports l"
  by (simp add: still_out_def)

lemma cut_reading:
  assumes inv: "linv l" and s: "lg_settled l = []"
    and p: "l' \<in> passes (cut_steps (cut_report time_ns now q l) l) l"
  shows "reading l' k = reading l k"
proof -
  let ?r = "cut_report time_ns now q l"
  let ?i = "lg_pending_id l" and ?R = "set (lg_unacked l) \<union> set (out_reports l)"
  have h: "held_ok l" and c: "counts_ok l" and m: "lg_moving l = None" and i: "?i < lg_next_id l"
    using inv by (auto simp: linv_def)
  have id: "rp_id ?r = lg_next_id l" by (simp add: cut_report_def)
  have old: "x \<in> ?R \<Longrightarrow> rp_id x \<noteq> lg_next_id l" for x
    using bspec [OF held_fits [OF h], of x] by (auto simp: fits_def)
  have new: "lg_next_id l \<notin> fst ` set (lg_out l)" using out_fresh [OF h] by auto
  have ap: "inj_on rp_id ?R" using linv_apart [OF h] by (simp add: apart_def still_out_unsettled s)
  moreover have "rp_id ?r \<notin> rp_id ` ?R" using old by (metis id imageE)
  ultimately have ap': "inj_on rp_id (insert ?r ?R)" unfolding inj_on_insert by blast
  have nr: "?r \<notin> ?R" using old id by metis
  have A: "reading l k = tally (lg_pending l) k + (\<Sum>r\<in>?R. amount (keys_of r) k) + waiting (lg_inbox l) k"
  proof -
    have "seen l = ?R" by (auto simp: seen_def in_table_def m still_out_unsettled s)
    then show ?thesis using linv_apart [OF h] by (simp add: reading_eq)
  qed
  let ?B = "set_moving (Some (?r, ?i)) (set_last_timestamp (rp_timestamp_ns ?r) (new_object l))"
  have "seen ?B = ?R" "apart ?B"
    using ap old by (auto simp: seen_def apart_def still_out_def s store_defs in_table_def id)
  then have B: "reading ?B k = reading l k"
    by (simp add: reading_eq A) (simp add: store_defs)
  let ?C = "put_out ?r True ?B"
  have o: "lg_out ?C = lg_out l @ [(lg_next_id l, ?r, True)]"
    using new by (simp add: store_defs id update_new)
  have "seen ?C = ?R" "apart ?C"
    using ap' old unfolding seen_def apart_def still_out_def o
    by (auto simp: s store_defs in_table_def id insert_commute)
  then have C: "reading ?C k = reading l k"
    by (simp add: reading_eq A) (simp add: store_defs)
  let ?D = "replace_pending (cut_rest l) (Suc (lg_next_id l)) (new_object ?C)"
  have o': "lg_out ?D = lg_out l @ [(lg_next_id l, ?r, True)]"
    using o by (simp add: replace_pending_def new_object_def)
  have sD: "seen ?D = insert ?r ?R" "apart ?D"
    using ap' i unfolding seen_def apart_def still_out_def o'
    by (auto simp: s store_defs in_table_def id insert_commute)
  have pD: "lg_pending ?D = cut_rest l" "lg_inbox ?D = lg_inbox l" by (simp_all add: store_defs)
  have "(\<Sum>r\<in>insert ?r ?R. amount (keys_of r) k) = amount (keys_of ?r) k + (\<Sum>r\<in>?R. amount (keys_of r) k)"
    by (rule sum.insert [OF _ nr]) simp
  then have D: "reading ?D k = reading l k"
    using reading_eq [OF sD(2), of k] cut_splits(1) [OF c, of time_ns now q k]
    unfolding sD(1) pD A by linarith
  let ?E = "\<lambda>n. set_moving None (add_failed_sends n ?D)"
  have "seen (?E n) = insert ?r ?R" "apart (?E n)" "lg_pending (?E n) = lg_pending ?D"
    "lg_inbox (?E n) = lg_inbox ?D" for n
    using sD by (auto simp: seen_def apart_def still_out_def in_table_def store_defs)
  then have E: "reading (?E n) k = reading l k" for n
    using D unfolding reading_eq [OF sD(2), of k] sD(1) by (simp only: reading_eq)
  show ?thesis using p by (auto simp: cut_steps_def B C D E)
qed

lemma seen_frame:
  assumes "lg_pending_id l' = lg_pending_id l" "lg_moving l' = lg_moving l"
    "lg_unacked l' = lg_unacked l" "lg_out l' = lg_out l" "lg_settled l' = lg_settled l"
  shows "seen l' = seen l" "apart l' = apart l"
  unfolding seen_def apart_def still_out_def in_table_def assms by (rule refl)+

lemma entry_reading:
  assumes a: "apart l" and i: "lg_inbox l = e # es" and n: "case e of (r, u, n, w) \<Rightarrow> 0 < n"
    and p: "l' \<in> passes (entry_steps e) l"
  shows "reading l k \<le> reading l' k"
proof (cases e rule: entry_cases)
  case (drop r u m w)
  have f: "reading x k = tally (lg_pending x) k + (\<Sum>r\<in>seen l. amount (keys_of r) k) + waiting (lg_inbox x) k"
    if "lg_pending_id x = lg_pending_id l" "lg_moving x = lg_moving l"
    "lg_unacked x = lg_unacked l" "lg_out x = lg_out l" "lg_settled x = lg_settled l" for x k
    using seen_frame [OF that] a by (simp add: reading_eq)
  have "0 < m" using n drop by simp
  then show ?thesis
    using p drop i by (auto simp: f add_total_def add_pending_def pop_inbox_def)
next
  case (send r u m w)
  have "waiting (e # es) k = waiting es k" using send by auto
  then have "reading (pop_inbox l) k = reading l k"
    using i a seen_frame [of "pop_inbox l" l] by (simp add: reading_eq pop_inbox_def)
  moreover have "reading (pop_inbox (add_failed_sends m l)) k = reading (pop_inbox l) k"
    by (rule reading_cong) (simp_all add: store_frames)
  ultimately show ?thesis using p send by auto
qed

lemma cut_out:
  assumes "linv l" "cut_held time_ns now q l = (fresh, l')"
  shows "out_reports l' = out_reports l @ (case fresh of None \<Rightarrow> [] | Some r \<Rightarrow> [r])"
proof -
  have "lg_next_id l \<notin> fst ` set (lg_out l)"
    using out_fresh [of l "lg_next_id l"] assms(1) by (auto simp: linv_def)
  with assms(2) show ?thesis
    by (auto simp: cut_held_def Let_def cut_state update_new cut_report_def split: if_splits)
qed

lemma undelivered_rest:
  assumes "linv l" "free_fold me l \<noteq> None"
  shows "let (c, l') = undelivered me l in
    tally c k = tally (lg_totals l') k - tally (lg_undeliverable l') k - tally (lg_confirmed l') k"
proof -
  obtain l1 where f: "free_fold me l = Some l1" using assms(2) by auto
  let ?l = "fold_held (l1\<lparr>lg_folding := True\<rparr>)"
  have i: "linv ?l" "lg_settled ?l = []"
    using fold_held_laws assms(1) free_fold_linv [OF f] by simp_all
  define m where "m = end_fold ?l"
  have m: "linv m" "lg_settled m = []" using i by (simp_all add: m_def)
  have h: "held_ok m" and b: "books_balance m" and mv: "lg_moving m = None"
    using m(1) by (simp_all add: linv_def)
  have "seen m = set (lg_unacked m) \<union> set (out_reports m)"
    using mv m(2) by (auto simp: seen_def in_table_def still_out_unsettled)
  then have u: "carried (unconfirmed_reports m) k
      = (\<Sum>r\<in>set (lg_unacked m) \<union> set (out_reports m). amount (keys_of r) k)"
    using carried_unconfirmed [OF linv_apart [OF h]] by simp
  have d: "set (lg_unacked m) \<inter> set (out_reports m) = {}" "distinct (lg_unacked m)" "distinct (out_reports m)"
  proof -
    show "set (lg_unacked m) \<inter> set (out_reports m) = {}"
    proof (intro equals0I, elim IntE)
      fix r assume r: "r \<in> set (lg_unacked m)" "r \<in> set (out_reports m)"
      obtain f where "rp_id r \<in> fst ` set (lg_out m)" by (rule held_lookup [OF h r(2)])
      with r(1) held_apart [OF h] show False by auto
    qed
    show "distinct (lg_unacked m)" using held_unacked [OF h] by (simp only: distinct_map)
    have "map fst (lg_out m) = map rp_id (out_reports m)"
      using held_out_ids [OF h] by (intro nth_equalityI) (auto simp: nth_map all_set_conv_all_nth)
    with held_distinct [OF h] have "distinct (map rp_id (out_reports m))" by (simp only:)
    then show "distinct (out_reports m)" by (simp only: distinct_map)
  qed
  have "carried (unconfirmed_reports m) k = carried (lg_unacked m) k + carried (out_reports m) k"
    unfolding u carried_set [OF d(2)] carried_set [OF d(3)] by (rule sum.union_disjoint [OF _ _ d(1)]) simp_all
  moreover have "tally (lg_totals m) k = tally (lg_pending m) k + carried (lg_unacked m) k
      + carried (out_reports m) k + tally (lg_undeliverable m) k + tally (lg_confirmed m) k"
    using b unfolding books_balance_def by blast
  moreover have "undelivered me l = (read_undelivered True m, m)"
    by (simp add: undelivered_def try_fold_def f m_def)
  ultimately show ?thesis by (simp add: read_undelivered_def Let_def)
qed

section \<open>A whole fold, and a whole hand-out\<close>

lemma passes_append: "passes (fs @ gs) l = passes fs l \<union> passes gs (run_steps fs l)"
proof (induction fs arbitrary: l)
  case Nil
  have "l \<in> passes gs l" by (cases gs) simp_all
  then show ?case by auto
qed auto

lemma passes_last: "run_steps fs l \<in> passes fs l"
  by (induction fs arbitrary: l) simp_all

lemma passes_keep: "P l \<Longrightarrow> \<forall>f \<in> set fs. \<forall>y. P y \<longrightarrow> P (f y) \<Longrightarrow> x \<in> passes fs l \<Longrightarrow> P x"
  by (induction fs arbitrary: l) auto

text \<open>What the reader reads and what was given up on: only a report dropped for the cap moves from the one
  to the other.\<close>

definition level :: "ledger \<Rightarrow> drop_key \<Rightarrow> int" where
  "level l k = reading l k + tally (lg_undeliverable l) k"

lemma level_bound:
  assumes a: "apart l" "apart y" and i: "lg_inbox y = lg_inbox l" and s: "S \<subseteq> seen y"
    and n: "\<forall>r \<in> seen y. 0 \<le> amount (keys_of r) k"
    and b: "tally (lg_pending l) k + tally (lg_undeliverable l) k + (\<Sum>r\<in>seen l. amount (keys_of r) k)
      \<le> tally (lg_pending y) k + tally (lg_undeliverable y) k + (\<Sum>r\<in>S. amount (keys_of r) k)"
  shows "level l k \<le> level y k"
proof -
  have "finite (seen y)" by (simp add: seen_def)
  then have "(\<Sum>r\<in>S. amount (keys_of r) k) \<le> (\<Sum>r\<in>seen y. amount (keys_of r) k)"
    by (rule sum_mono2 [OF _ s]) (use n in auto)
  then show ?thesis using b by (simp add: level_def reading_eq a i)
qed

definition out_ids :: "ledger \<Rightarrow> bool" where
  "out_ids l \<longleftrightarrow> (\<forall>(i, r, f) \<in> set (lg_out l). rp_id r = i)"

lemma set_still_out:
  "set (still_out l) = {r. \<exists>i f. (i, r, f) \<in> set (lg_out l) \<and> first_outcome (lg_settled l) (rp_id r) \<noteq> Some None}"
proof -
  have "set (out_reports l) = {r. \<exists>i f. (i, r, f) \<in> set (lg_out l)}" by force
  then show ?thesis unfolding still_out_def set_filter by blast
qed

lemma still_out_dropped:
  assumes "out_ids y"
  shows "set (still_out (drop_out i y)) = {r \<in> set (still_out y). rp_id r \<noteq> i}"
  using assms unfolding set_still_out drop_out_def out_ids_def by (auto simp: AList.delete_eq)

lemma still_out_popped:
  assumes "lg_settled y = (r, d) # ss" "\<forall>x \<in> set (out_reports y). rp_id x \<noteq> rp_id r"
  shows "set (still_out (pop_settled y)) = set (still_out y)"
  using assms unfolding still_out_def pop_settled_def by auto

text \<open>The three stores a settle ends with.\<close>

definition settle_end :: "report \<Rightarrow> (ledger \<Rightarrow> ledger) list" where
  "settle_end r = [drop_out (rp_id r), set_moving None, pop_settled]"

definition left_by :: "report \<Rightarrow> ledger \<Rightarrow> ledger \<Rightarrow> bool" where
  "left_by r y x \<longleftrightarrow>
     lg_unacked x = lg_unacked y \<and> lg_pending x = lg_pending y \<and> lg_pending_id x = lg_pending_id y \<and>
     lg_inbox x = lg_inbox y \<and> lg_undeliverable x = lg_undeliverable y \<and>
     set (still_out x) = {o' \<in> set (still_out y). rp_id o' \<noteq> rp_id r} \<and>
     (lg_moving x = lg_moving y \<or> lg_moving x = None)"

lemma settle_end_passes:
  assumes i: "out_ids y" and s: "lg_settled y = (r, d) # ss" and p: "x \<in> passes (settle_end r) y"
  shows "x = y \<or> left_by r y x"
proof -
  let ?a = "drop_out (rp_id r) y"
  have a: "set (still_out ?a) = {o' \<in> set (still_out y). rp_id o' \<noteq> rp_id r}" by (rule still_out_dropped [OF i])
  have b: "still_out (set_moving None ?a) = still_out ?a" by (simp add: still_out_def set_moving_def)
  have "\<forall>x \<in> set (out_reports (set_moving None ?a)). rp_id x \<noteq> rp_id r"
    using i by (auto simp: set_moving_def drop_out_def AList.delete_eq out_ids_def)
  moreover have "lg_settled (set_moving None ?a) = (r, d) # ss" using s by (simp add: set_moving_def drop_out_def)
  ultimately have c: "set (still_out (pop_settled (set_moving None ?a))) = set (still_out (set_moving None ?a))"
    by (intro still_out_popped)
  have "left_by r y ?a" "left_by r y (set_moving None ?a)" "left_by r y (pop_settled (set_moving None ?a))"
    unfolding left_by_def c b a by (simp_all add: store_defs)
  then show ?thesis using p by (auto simp: settle_end_def)
qed

lemma left_apart: "left_by r y x \<Longrightarrow> apart y \<Longrightarrow> apart x"
  unfolding left_by_def apart_def by (elim conjE) (rule inj_on_subset, auto)


text \<open>A settle whose report is out, and the three things it does.\<close>

lemma settling_facts:
  assumes "linv l" "lg_settled l = (r, d) # ss" "map_of (lg_out l) (rp_id r) = Some (r', f)"
  shows "r' = r" "(rp_id r, r, f) \<in> set (lg_out l)" "r \<notin> set (lg_unacked l)"
    "set (lg_unacked l) \<inter> set (out_reports l) = {}" "lg_moving l = None"
    "\<forall>x \<in> set (lg_unacked l) \<union> set (out_reports l). 0 \<le> amount (keys_of x) k" "out_ids l" "apart l"
    "distinct (lg_unacked l)" "o' \<in> set (out_reports l) \<Longrightarrow> rp_id o' = rp_id r \<longleftrightarrow> o' = r"
    "seen l = set (lg_unacked l) \<union> set (still_out l)" "set (still_out l) \<subseteq> set (out_reports l)"
    "lg_pending_id l \<noteq> lg_next_id l" "u \<in> set (lg_unacked l) \<Longrightarrow> rp_id u \<noteq> rp_id r"
    "x \<in> set (lg_unacked l) \<union> set (out_reports l) \<Longrightarrow> wf_report x" "distinct (map rp_id (lg_unacked l))"
    "d \<noteq> None \<Longrightarrow> r \<in> set (still_out l)"
proof -
  have h: "held_ok l" and so: "settled_ok l" and m: "lg_moving l = None" using assms(1) by (auto simp: linv_def)
  show eq: "r' = r" using so assms(2,3) by (simp add: settled_ok_def)
  show out: "(rp_id r, r, f) \<in> set (lg_out l)" using assms(3) map_of_SomeD eq by fast
  show "r \<notin> set (lg_unacked l)" using outI [OF h assms(3)] by auto
  show "set (lg_unacked l) \<inter> set (out_reports l) = {}"
  proof (intro equals0I, elim IntE)
    fix x assume x: "x \<in> set (lg_unacked l)" "x \<in> set (out_reports l)"
    obtain f where "rp_id x \<in> fst ` set (lg_out l)" by (rule held_lookup [OF h x(2)])
    with x(1) held_apart [OF h] show False by auto
  qed
  show "lg_moving l = None" "apart l" by (rule m, rule linv_apart [OF h])
  show "\<forall>x \<in> set (lg_unacked l) \<union> set (out_reports l). 0 \<le> amount (keys_of x) k"
  proof
    fix x assume "x \<in> set (lg_unacked l) \<union> set (out_reports l)"
    from bspec [OF held_fits [OF h] this] show "0 \<le> amount (keys_of x) k"
      by (intro wf_amount_nonneg) (simp add: fits_def)
  qed
  show "out_ids l" unfolding out_ids_def by (rule held_out_ids [OF h])
  show "distinct (lg_unacked l)" using held_unacked [OF h] by (simp only: distinct_map)
  show "rp_id o' = rp_id r \<longleftrightarrow> o' = r" if o': "o' \<in> set (out_reports l)"
  proof -
    obtain g where "map_of (lg_out l) (rp_id o') = Some (o', g)" by (rule held_lookup [OF h o'])
    then show ?thesis using assms(3) eq by (metis option.inject prod.inject)
  qed
  show "seen l = set (lg_unacked l) \<union> set (still_out l)" by (auto simp: seen_def in_table_def m)
  show "set (still_out l) \<subseteq> set (out_reports l)" by (auto simp: still_out_def)
  show "lg_pending_id l \<noteq> lg_next_id l" using assms(1) by (simp add: linv_def)
  show "u \<in> set (lg_unacked l) \<Longrightarrow> rp_id u \<noteq> rp_id r" using outI [OF h assms(3)] by (metis imageI)
  show "x \<in> set (lg_unacked l) \<union> set (out_reports l) \<Longrightarrow> wf_report x"
    using held_fits [OF h] by (auto simp: fits_def)
  show "distinct (map rp_id (lg_unacked l))" by (rule held_unacked [OF h])
  show "d \<noteq> None \<Longrightarrow> r \<in> set (still_out l)" using out assms(2) by (auto simp: set_still_out)
qed

text \<open>A level that only rises: the state differs in what it holds, and what it stopped holding it gave up on or
  put back.\<close>

lemma settle_confirmed:
  assumes inv: "linv l" and s: "lg_settled l = (r, None) # ss" and o: "map_of (lg_out l) (rp_id r) = Some (r', f)"
    and p: "x \<in> passes (note_confirmed r # settle_end r) l"
  shows "level l k \<le> level x k"
proof -
  note F = settling_facts [OF inv s o]
  let ?y = "note_confirmed r l"
  have y: "lg_settled ?y = (r, None) # ss" "out_ids ?y" "still_out ?y = still_out l" "seen ?y = seen l" "apart ?y"
    "lg_undeliverable ?y = lg_undeliverable l"
    using F(7,8) s seen_frame [of ?y l] by (simp_all add: note_confirmed_def out_ids_def still_out_def)
  have gone: "{o' \<in> set (still_out ?y). rp_id o' \<noteq> rp_id r} = set (still_out ?y)"
    unfolding y(3) by (auto simp: still_out_def s)
  have "level l k \<le> level x k" if "left_by r ?y x"
  proof (rule level_bound [OF F(8) left_apart [OF that y(5)], where S = "seen l"])
    have l: "lg_unacked x = lg_unacked l" "lg_pending x = lg_pending l" "lg_inbox x = lg_inbox l"
      "lg_undeliverable x = lg_undeliverable l" "set (still_out x) = set (still_out l)" "lg_moving x = None"
      using that F(5) unfolding left_by_def gone by (simp_all add: note_confirmed_def y(3) [unfolded note_confirmed_def])
    have e: "seen x = seen l" using l(1,5,6) F(5) by (auto simp: seen_def in_table_def)
    then show "seen l \<subseteq> seen x" by simp
    show "\<forall>r\<in>seen x. 0 \<le> amount (keys_of r) k" using F(6,11,12) unfolding e by blast
    show "lg_inbox x = lg_inbox l" by (rule l(3))
    show "tally (lg_pending l) k + tally (lg_undeliverable l) k + (\<Sum>r\<in>seen l. amount (keys_of r) k)
      \<le> tally (lg_pending x) k + tally (lg_undeliverable x) k + (\<Sum>r\<in>seen l. amount (keys_of r) k)"
      by (simp add: l)
  qed
  moreover have "level ?y k = level l k" using y(6) by (simp add: level_def)
  ultimately show ?thesis using p settle_end_passes [OF y(2,1), of x] by auto
qed

lemma settle_stale:
  assumes inv: "linv l" and s: "lg_settled l = (r, d) # ss" and o: "map_of (lg_out l) (rp_id r) = None"
    and p: "x \<in> passes (settle_end r) l"
  shows "level l k \<le> level x k"
proof -
  have h: "held_ok l" and m: "lg_moving l = None" using inv by (auto simp: linv_def)
  have i: "out_ids l" unfolding out_ids_def by (rule held_out_ids [OF h])
  have "rp_id o' \<noteq> rp_id r" if "o' \<in> set (still_out l)" for o'
  proof -
    have "o' \<in> set (out_reports l)" using that by (auto simp: still_out_def)
    from held_lookup [OF h this] o show ?thesis by (metis option.distinct(1))
  qed
  then have "{o' \<in> set (still_out l). rp_id o' \<noteq> rp_id r} = set (still_out l)" by blast
  then have "level x k = level l k" if x: "left_by r l x"
  proof -
    have "lg_moving x = None" using x m by (auto simp: left_by_def)
    then have "seen x = seen l" using x m \<open>_ = set (still_out l)\<close> by (auto simp: seen_def in_table_def left_by_def)
    then show ?thesis using x left_apart [OF x linv_apart [OF h]] linv_apart [OF h]
      by (simp add: level_def reading_eq left_by_def)
  qed
  then show ?thesis using settle_end_passes [OF i s p] by auto
qed


lemma settle_resend:
  assumes inv: "linv l" and s: "lg_settled l = (r, Some True) # ss" and o: "map_of (lg_out l) (rp_id r) = Some (r', True)"
    and p: "x \<in> passes ([new_object, set_moving (Some (r, lg_next_id l)),
      replace_pending (bump_all (keys_of r) (lg_pending l)) (lg_next_id l), add_failed_sends n] @ settle_end r) l"
  shows "level l k \<le> level x k"
proof -
  note F = settling_facts [OF inv s o]
  have rs: "r \<in> seen l" "finite (seen l)" using F(17) by (simp_all add: F(11))
  let ?y1 = "set_moving (Some (r, lg_next_id l)) (new_object l)"
  let ?y2 = "replace_pending (bump_all (keys_of r) (lg_pending l)) (lg_next_id l) ?y1"
  let ?y3 = "add_failed_sends n ?y2"
  have restored: "level l k \<le> level z k"
    if z: "lg_unacked z = lg_unacked l" "lg_pending z = bump_all (keys_of r) (lg_pending l)" "lg_inbox z = lg_inbox l"
      "lg_undeliverable z = lg_undeliverable l" "lg_pending_id z = lg_next_id l"
      "set (still_out z) = set (still_out l) \<and> lg_moving z = Some (r, lg_next_id l) \<or>
       set (still_out z) = set (still_out l) - {r} \<and> (lg_moving z = Some (r, lg_next_id l) \<or> lg_moving z = None)" for z
  proof -
    have id: "rp_id x = rp_id r \<longleftrightarrow> x = r" if "x \<in> seen l" for x
      using that F(3,10,12,14) unfolding F(11) by blast
    then have sz: "seen z = seen l - {r}"
      using z(1,5,6) F(3) unfolding F(11) by (auto simp: seen_def in_table_def)
    have "apart z" using F(8) z(1,6) unfolding apart_def by (elim inj_on_subset) auto
    then show ?thesis
    proof (rule level_bound [OF F(8) _ z(3), where S = "seen l - {r}"])
      show "\<forall>r\<in>seen z. 0 \<le> amount (keys_of r) k" using F(6,12) unfolding sz F(11) by blast
    qed (simp_all add: sz z sum.remove [OF rs(2,1)])
  qed
  have y: "lg_settled ?y3 = (r, Some True) # ss" "out_ids ?y3" "still_out ?y3 = still_out l" "still_out ?y2 = still_out l"
    "still_out ?y1 = still_out l"
    using F(7) s by (simp_all add: store_defs out_ids_def still_out_def)
  have "seen ?y1 = seen l" "apart ?y1 = apart l"
    using F(5,13) y(5) by (auto simp: seen_def in_table_def store_defs apart_def)
  then have l1: "level ?y1 k = level l k" using F(8) by (simp add: level_def reading_eq) (simp add: store_defs)
  have l2: "level l k \<le> level ?y2 k" "level l k \<le> level ?y3 k"
    using y(3,4) by (auto intro!: restored simp: store_defs)
  have "{o' \<in> set (still_out ?y3). rp_id o' \<noteq> rp_id r} = set (still_out l) - {r}"
    using F(10,12) unfolding y(3) by blast
  then have "level l k \<le> level x k" if "left_by r ?y3 x"
    using that unfolding left_by_def by (intro restored) (auto simp: store_defs)
  moreover have "level (new_object l) k = level l k" by (simp add: level_def) (simp add: store_defs)
  ultimately show ?thesis
    using p l1 l2 settle_end_passes [OF y(2,1), of x] by (auto simp: passes_append)
qed

text \<open>A report is held for resending, and the cap makes room for it.\<close>

definition drop_unacked :: "report \<Rightarrow> ledger \<Rightarrow> ledger" where
  "drop_unacked r l = l\<lparr>lg_unacked := remove_report r (lg_unacked l)\<rparr>"

definition add_undeliverable :: "drop_key \<times> int \<Rightarrow> ledger \<Rightarrow> ledger" where
  "add_undeliverable kn l = l\<lparr>lg_undeliverable := bump_tally (fst kn) (snd kn) (lg_undeliverable l)\<rparr>"

definition overflow_steps :: "report \<Rightarrow> (ledger \<Rightarrow> ledger) list" where
  "overflow_steps oldest =
     [add_total (R_LEDGER_OVERFLOW, U_REPORT) 1, add_pending (R_LEDGER_OVERFLOW, U_REPORT) 1] @
     map add_undeliverable (keys_of oldest) @ [drop_unacked oldest]"

lemma run_undeliverable:
  "run_steps (map add_undeliverable ks) l = l\<lparr>lg_undeliverable := bump_all ks (lg_undeliverable l)\<rparr>"
  by (induction ks arbitrary: l) (auto simp: add_undeliverable_def)

lemma overflow_is_steps:
  "overflow_once l = run_steps (overflow_steps (arg_min_list rp_timestamp_ns (lg_unacked l))) l"
  by (simp add: overflow_steps_def run_undeliverable overflow_once_def Let_def add_total_def add_pending_def drop_unacked_def)

function trim_pass :: "ledger \<Rightarrow> ledger set" where
  "trim_pass l =
     (if UNACKED_CAP < length (lg_unacked l)
      then passes (overflow_steps (arg_min_list rp_timestamp_ns (lg_unacked l))) l \<union> trim_pass (overflow_once l)
      else {l})"
  by auto
termination
proof (relation "measure (\<lambda>l. length (lg_unacked l))")
  fix l :: ledger
  assume "UNACKED_CAP < length (lg_unacked l)"
  then have "lg_unacked l \<noteq> []" by auto
  then show "(overflow_once l, l) \<in> measure (\<lambda>l. length (lg_unacked l))"
    by (simp add: overflow_once_def Let_def arg_min_list_mem)
qed simp

declare trim_pass.simps [simp del]

definition holding :: "ledger \<Rightarrow> report \<Rightarrow> ledger \<Rightarrow> bool" where
  "holding l r y \<longleftrightarrow>
     lg_out y = lg_out l \<and> lg_settled y = lg_settled l \<and> lg_moving y = None \<and> lg_inbox y = lg_inbox l \<and>
     set (lg_unacked y) \<subseteq> insert r (set (lg_unacked l)) \<and> distinct (map rp_id (lg_unacked y)) \<and>
     (\<forall>k. tally (lg_pending l) k \<le> tally (lg_pending y) k) \<and>
     (\<forall>k. tally (lg_undeliverable l) k + carried (lg_unacked l) k + amount (keys_of r) k
        \<le> tally (lg_undeliverable y) k + carried (lg_unacked y) k)"

lemma holding_le:
  "holding l r y \<Longrightarrow> tally (lg_pending l) k \<le> tally (lg_pending y) k"
  "holding l r y \<Longrightarrow> tally (lg_undeliverable l) k + carried (lg_unacked l) k + amount (keys_of r) k
     \<le> tally (lg_undeliverable y) k + carried (lg_unacked y) k"
  unfolding holding_def by blast+

lemma keys_nonneg: "wf_report x \<Longrightarrow> kn \<in> set (keys_of x) \<Longrightarrow> 0 \<le> snd kn"
proof -
  have "\<forall>(name, n) \<in> set es. 0 \<le> n \<Longrightarrow> kn \<in> set (keys_of_events es) \<Longrightarrow> 0 \<le> snd kn" for es
    by (induction es rule: keys_of_events.induct) (auto split: option.splits)
  then show "wf_report x \<Longrightarrow> kn \<in> set (keys_of x) \<Longrightarrow> 0 \<le> snd kn"
    unfolding keys_of_def wf_report_def by fastforce
qed

lemma holding_stores:
  "holding l r y \<Longrightarrow> holding l r (add_total key n y)"
  "holding l r y \<Longrightarrow> 0 \<le> n \<Longrightarrow> holding l r (add_pending key n y)"
  "holding l r y \<Longrightarrow> 0 \<le> snd kn \<Longrightarrow> holding l r (add_undeliverable kn y)"
  unfolding holding_def by (auto simp: add_total_def add_pending_def add_undeliverable_def add_increasing2)
    (metis add.assoc add.commute add_increasing)


lemma holding_overflow:
  assumes "holding l r y" "arg_min_list rp_timestamp_ns (lg_unacked y) \<in> set (lg_unacked y)"
  shows "holding l r (overflow_once y)"
proof -
  have u: "set (lg_unacked (overflow_once y)) \<subseteq> set (lg_unacked y)"
    unfolding overflow_fields by (rule set_remove_report)
  have "lg_out (overflow_once y) = lg_out y" "lg_settled (overflow_once y) = lg_settled y"
    "lg_moving (overflow_once y) = lg_moving y" "lg_inbox (overflow_once y) = lg_inbox y"
    by (simp_all add: overflow_once_def Let_def)
  moreover have "tally (lg_pending l) k \<le> tally (lg_pending (overflow_once y)) k" for k
  proof -
    have "tally (lg_pending y) k \<le> tally (lg_pending (overflow_once y)) k" by (auto simp: overflow_fields)
    moreover have "tally (lg_pending l) k \<le> tally (lg_pending y) k" by (rule holding_le(1) [OF assms(1)])
    ultimately show ?thesis by linarith
  qed
  moreover have "tally (lg_undeliverable (overflow_once y)) k + carried (lg_unacked (overflow_once y)) k =
      tally (lg_undeliverable y) k + carried (lg_unacked y) k" for k
    using assms(2) by (simp add: overflow_fields carried_remove_report)
  moreover have "distinct (map rp_id (lg_unacked (overflow_once y)))"
    using assms(1) by (simp add: holding_def overflow_fields distinct_remove_report)
  ultimately show ?thesis using assms(1) u unfolding holding_def by auto
qed

lemma holding_trim:
  assumes wf: "\<forall>x \<in> insert r (set (lg_unacked l)). wf_report x"
  shows "holding l r y \<Longrightarrow> x \<in> trim_pass y \<Longrightarrow> holding l r x"
proof (induction y rule: trim_pass.induct)
  case (1 y)
  let ?o = "arg_min_list rp_timestamp_ns (lg_unacked y)"
  show ?case
  proof (cases "UNACKED_CAP < length (lg_unacked y)")
    case True
    then have "lg_unacked y \<noteq> []" by auto
    then have o: "?o \<in> set (lg_unacked y)" by (rule arg_min_list_mem)
    then have "wf_report ?o" using wf 1(2) by (auto simp: holding_def)
    let ?fs = "[add_total (R_LEDGER_OVERFLOW, U_REPORT) 1, add_pending (R_LEDGER_OVERFLOW, U_REPORT) 1] @
      map add_undeliverable (keys_of ?o)"
    have "\<forall>f \<in> set ?fs. \<forall>y. holding l r y \<longrightarrow> holding l r (f y)"
      using holding_stores keys_nonneg [OF \<open>wf_report ?o\<close>] by auto
    then have "holding l r x" if "x \<in> passes ?fs y" using passes_keep [where P = "holding l r", OF 1(2) _ that] by blast
    moreover have "passes (overflow_steps ?o) y = passes ?fs y \<union> {run_steps ?fs y, overflow_once y}"
      unfolding overflow_is_steps overflow_steps_def append_assoc [symmetric] passes_append by simp
    moreover have "run_steps ?fs y \<in> passes ?fs y" by (rule passes_last)
    moreover have "holding l r (overflow_once y)" by (rule holding_overflow [OF 1(2) o])
    ultimately show ?thesis using 1(1) [OF True] 1(3) True by (subst (asm) trim_pass.simps) auto
  next
    case False
    then show ?thesis using 1(2,3) by (subst (asm) trim_pass.simps) simp
  qed
qed

lemma trim_last: "trim_unacked y \<in> trim_pass y"
proof (induction y rule: trim_unacked.induct)
  case (1 y)
  then show ?case by (subst trim_pass.simps, subst trim_unacked.simps) simp
qed

lemma settle_hold:
  assumes inv: "linv l" and s: "lg_settled l = (r, d) # ss" and o: "map_of (lg_out l) (rp_id r) = Some (r', f)"
    and d: "d \<noteq> None"
    and p: "x \<in> passes ([append_unacked r, trim_unacked] @ settle_end r) l \<union> trim_pass (append_unacked r l)"
  shows "level l k \<le> level x k"
proof -
  note F = settling_facts [OF inv s o]
  let ?O = "set (still_out l)"
  have rs: "r \<in> ?O" "finite ?O" using F(17) d by simp_all
  have disj: "set (lg_unacked l) \<inter> ?O = {}" using F(4,12) by blast
  have held: "level l k \<le> level z k"
    if y: "holding l r y" and z: "lg_unacked z = lg_unacked y" "lg_pending z = lg_pending y" "lg_inbox z = lg_inbox y"
      "lg_undeliverable z = lg_undeliverable y" "lg_moving z = None" "?O - {r} \<subseteq> set (still_out z)" "set (still_out z) \<subseteq> ?O"
    for y z
  proof -
    let ?U = "set (lg_unacked y)"
    have sz: "seen z = ?U \<union> set (still_out z)" using z(1,5) by (auto simp: seen_def in_table_def)
    have u: "?U \<subseteq> insert r (set (lg_unacked l))" "distinct (lg_unacked y)"
      using y by (auto simp: holding_def distinct_map)
    have "?U \<inter> (?O - {r}) = {}" using u(1) disj by blast
    then have "(\<Sum>r\<in>?U \<union> (?O - {r}). amount (keys_of r) k) = carried (lg_unacked y) k + (\<Sum>r\<in>?O - {r}. amount (keys_of r) k)"
      by (simp add: sum.union_disjoint carried_set [OF u(2)])
    moreover have "(\<Sum>r\<in>seen l. amount (keys_of r) k) =
        carried (lg_unacked l) k + amount (keys_of r) k + (\<Sum>r\<in>?O - {r}. amount (keys_of r) k)"
      using disj by (simp add: F(11) sum.union_disjoint carried_set [OF F(9)] sum.remove [OF rs(2,1)])
    moreover have "tally (lg_pending l) k \<le> tally (lg_pending y) k"
      "tally (lg_undeliverable l) k + carried (lg_unacked l) k + amount (keys_of r) k
        \<le> tally (lg_undeliverable y) k + carried (lg_unacked y) k"
      by (rule holding_le [OF y])+
    moreover have "apart z" using F(8) z(1,7) u(1) rs(1) unfolding apart_def by (elim inj_on_subset) auto
    moreover have "\<forall>r\<in>seen z. 0 \<le> amount (keys_of r) k" using F(6,12) z(7) u(1) rs(1) unfolding sz by blast
    moreover have "lg_inbox z = lg_inbox l" using y z(3) by (simp add: holding_def)
    ultimately show ?thesis using z(2,4,6)
      by (intro level_bound [OF F(8), where S = "?U \<union> (?O - {r})"]) (auto simp: sz)
  qed
  have kept: "level l k \<le> level y k" if "holding l r y" for y
  proof -
    have "still_out y = still_out l" using that by (simp add: holding_def still_out_def)
    then show ?thesis using that by (intro held [OF that]) (auto simp: holding_def)
  qed
  have ne: "rp_id r \<notin> rp_id ` set (lg_unacked l)" using F(14) by (metis imageE)
  let ?a = "append_unacked r l"
  have a: "holding l r ?a"
    using F(3,5,16) ne by (simp add: holding_def append_unacked_def)
  have "wf_report x" if "x \<in> insert r (set (lg_unacked l))" for x using F(15) [of x] F(12) rs(1) that by blast
  then have t: "holding l r y" if "y \<in> trim_pass ?a" for y using holding_trim [OF _ a that] by blast
  let ?t = "trim_unacked ?a"
  have h: "holding l r ?t" by (rule t [OF trim_last])
  have ft: "lg_settled ?t = (r, d) # ss" "out_ids ?t" "still_out ?t = still_out l"
    using h s F(7) by (simp_all add: holding_def out_ids_def still_out_def)
  have "level l k \<le> level x k" if x: "left_by r ?t x"
  proof (rule held [OF h])
    have "{o' \<in> set (still_out ?t). rp_id o' \<noteq> rp_id r} = ?O - {r}" using F(10,12) unfolding ft(3) by blast
    then show "?O - {r} \<subseteq> set (still_out x)" "set (still_out x) \<subseteq> ?O" using x by (auto simp: left_by_def)
    show "lg_moving x = None" using x h by (auto simp: left_by_def holding_def)
  qed (use x in \<open>auto simp: left_by_def\<close>)
  then show ?thesis
    using p kept [OF t] kept [OF a] kept [OF h] settle_end_passes [OF ft(2,1), of x] by (auto simp: passes_append)
qed


text \<open>Every state the stores of one settle, of a whole fold, of a hand-out and of a cut pass through.\<close>

definition settle_pass :: "report \<times> bool option \<Rightarrow> ledger \<Rightarrow> ledger set" where
  "settle_pass s l = passes (settle_steps s l) l \<union>
     (case s of (r, d) \<Rightarrow>
        (case map_of (lg_out l) (rp_id r) of
           Some (_, fresh) \<Rightarrow> if d \<noteq> None \<and> \<not> (d = Some True \<and> fresh) then trim_pass (append_unacked r l) else {}
         | None \<Rightarrow> {}))"

fun entries_pass :: "entry list \<Rightarrow> ledger \<Rightarrow> ledger set" where
  "entries_pass [] l = {l}"
| "entries_pass (e # es) l = passes (entry_steps e) l \<union> entries_pass es (run_steps (entry_steps e) l)"

fun settles_pass :: "(report \<times> bool option) list \<Rightarrow> ledger \<Rightarrow> ledger set" where
  "settles_pass [] l = {l}"
| "settles_pass (s # ss) l = settle_pass s l \<union> settles_pass ss (settle_one s l)"

definition fold_pass :: "ledger \<Rightarrow> ledger set" where
  "fold_pass l = entries_pass (lg_inbox l) l \<union> settles_pass (lg_settled (fold_inbox l)) (fold_inbox l)"

definition clear_unacked :: "ledger \<Rightarrow> ledger" where
  "clear_unacked l = l\<lparr>lg_unacked := []\<rparr>"

definition hand_steps :: "report list \<Rightarrow> (ledger \<Rightarrow> ledger) list" where
  "hand_steps rs = map (\<lambda>r. put_out r False) rs @ [clear_unacked]"

definition cut_pass :: "int \<Rightarrow> rat \<Rightarrow> int \<Rightarrow> ledger \<Rightarrow> ledger set" where
  "cut_pass time_ns now q l =
     (if lg_pending l = [] \<and> lg_failed_sends l = 0 then {l}
      else passes (cut_steps (cut_report time_ns now q l) l) l)"

definition attach_pass :: "int \<Rightarrow> rat \<Rightarrow> int \<Rightarrow> ledger \<Rightarrow> ledger set" where
  "attach_pass time_ns now q l =
     passes (hand_steps (lg_unacked l)) l \<union> cut_pass time_ns now q (run_steps (hand_steps (lg_unacked l)) l)"

lemma settle_level:
  assumes "linv l" "lg_settled l = s # ss" "x \<in> settle_pass s l"
  shows "level l k \<le> level x k"
proof -
  obtain r d where s: "s = (r, d)" by (cases s)
  note inv = assms(1) assms(2) [unfolded s]
  show ?thesis
  proof (cases "map_of (lg_out l) (rp_id r)")
    case None
    then show ?thesis using assms(3) settle_stale [OF inv None, of x k]
      by (simp add: s settle_pass_def settle_steps_def settle_end_def)
  next
    case (Some p)
    obtain r' f where p: "p = (r', f)" by (cases p)
    note o = Some [unfolded p]
    consider (resend) "d = Some True" "f" | (hold) "d \<noteq> None" "\<not> (d = Some True \<and> f)" | (conf) "d = None" by auto
    then show ?thesis
    proof cases
      case resend
      then show ?thesis using assms(3) o settle_resend [OF inv(1) inv(2) [unfolded resend(1)], of r' x "rp_failed_sends r" k]
        by (simp add: s settle_pass_def settle_steps_def settle_end_def)
    next
      case hold
      then have c: "(d = Some True \<and> f) = False" "(d \<noteq> None) = True" by simp_all
      have "settle_pass s l = passes ([append_unacked r, trim_unacked] @ settle_end r) l \<union> trim_pass (append_unacked r l)"
        unfolding s settle_pass_def settle_steps_def settle_end_def
        by (simp only: prod.case option.case c if_True if_False o simp_thms)
      then show ?thesis using settle_hold [OF inv o hold(1)] assms(3) by blast
    next
      case conf
      then show ?thesis using assms(3) o settle_confirmed [OF inv(1) inv(2) [unfolded conf] o, of x k]
        by (simp add: s settle_pass_def settle_steps_def settle_end_def)
    qed
  qed
qed

lemma entry_level:
  assumes inv: "linv l" and i: "lg_inbox l = e # es" and p: "x \<in> passes (entry_steps e) l"
  shows "level l k \<le> level x k"
proof -
  have "apart l" "case e of (r, u, n, w) \<Rightarrow> 0 < n" using inv i linv_apart by (auto simp: linv_def counts_ok_def)
  then have "reading l k \<le> reading x k" by (rule entry_reading [OF _ i _ p])
  moreover have "\<forall>f \<in> set (entry_steps e). \<forall>y. lg_undeliverable y = lg_undeliverable l \<longrightarrow>
      lg_undeliverable (f y) = lg_undeliverable l"
    by (cases e rule: entry_cases) (auto simp: store_frames)
  then have "lg_undeliverable x = lg_undeliverable l"
    using passes_keep [where P = "\<lambda>y. lg_undeliverable y = lg_undeliverable l", OF refl _ p] by blast
  ultimately show ?thesis by (simp add: level_def)
qed

lemma entries_level:
  "linv l \<Longrightarrow> lg_inbox l = es \<Longrightarrow> x \<in> entries_pass es l \<Longrightarrow> level l k \<le> level x k"
proof (induction es arbitrary: l)
  case (Cons e es)
  let ?l = "run_steps (entry_steps e) l"
  have "level l k \<le> level ?l k" by (rule entry_level [OF Cons.prems(1,2) passes_last])
  moreover have "linv ?l" "lg_inbox ?l = es" using linv_entry [OF Cons.prems(1,2)] Cons.prems(2) by (simp_all add: inbox_entry)
  ultimately show ?case
    using Cons.IH [of ?l] Cons.prems(3) entry_level [OF Cons.prems(1,2), of x k] by (auto intro: order_trans)
qed simp

lemma settles_level:
  "linv l \<Longrightarrow> lg_settled l = ss \<Longrightarrow> x \<in> settles_pass ss l \<Longrightarrow> level l k \<le> level x k"
proof (induction ss arbitrary: l)
  case (Cons s ss)
  obtain r d where s: "s = (r, d)" by (cases s)
  have "settle_one s l \<in> settle_pass s l" by (simp add: settle_pass_def settle_one_def passes_last)
  then have "level l k \<le> level (settle_one s l) k" by (rule settle_level [OF Cons.prems(1,2)])
  moreover have "linv (settle_one s l)" "lg_settled (settle_one s l) = ss"
    using linv_settle_one [OF Cons.prems(1) Cons.prems(2) [unfolded s]] by (simp_all add: s)
  ultimately show ?case
    using Cons.IH [of "settle_one s l"] Cons.prems(3) settle_level [OF Cons.prems(1,2), of x k] by (auto intro: order_trans)
qed simp

lemma entries_last: "fold_entries es l \<in> entries_pass es l"
  by (induction es arbitrary: l) simp_all

lemma settles_last: "settle_all ss l \<in> settles_pass ss l"
  by (induction ss arbitrary: l) simp_all

lemma fold_level:
  assumes "linv l" "x \<in> fold_pass l" shows "level l k \<le> level x k"
proof -
  note f = fold_inbox_laws [OF assms(1)]
  have "level l k \<le> level (fold_inbox l) k"
    using entries_level [OF assms(1) refl, of "fold_inbox l" k] entries_last by (simp add: fold_inbox_def)
  then show ?thesis
    using assms(2) entries_level [OF assms(1) refl, of x k] settles_level [OF conjunct1 [OF f] refl, of x k]
    by (auto simp: fold_pass_def)
qed

lemma run_hand: "run_steps (map (\<lambda>r. put_out r False) rs) l = hand_out rs l"
  by (induction rs arbitrary: l) simp_all

lemma handed_reading:
  assumes a: "apart l" and s: "lg_settled l = []" and m: "lg_moving l = None" and t: "set ts \<subseteq> set (lg_unacked l)"
    and u: "us = lg_unacked l \<or> us = [] \<and> set ts = set (lg_unacked l)"
    and y: "y = l\<lparr>lg_out := lg_out l @ map (\<lambda>r. (rp_id r, (r, False))) ts, lg_unacked := us\<rparr>"
  shows "reading y k = reading l k"
proof -
  have "set (lg_unacked y) \<union> set (still_out y) = set (lg_unacked l) \<union> set (still_out l)"
    using t u s by (auto simp: y still_out_def image_iff)
  then have "seen y = seen l" "apart y" using a m by (auto simp: seen_def in_table_def apart_def y)
  then show ?thesis using a by (simp add: reading_eq) (simp add: y)
qed

lemma hand_reading:
  assumes "linv l" "lg_settled l = []" "x \<in> passes (hand_steps (lg_unacked l)) l"
  shows "reading x k = reading l k"
proof -
  have h: "held_ok l" and m: "lg_moving l = None" using assms(1) by (simp_all add: linv_def)
  have e: "hand_out ts l = l\<lparr>lg_out := lg_out l @ map (\<lambda>r. (rp_id r, (r, False))) ts, lg_unacked := lg_unacked l\<rparr>"
    if "set ts \<subseteq> set (lg_unacked l)" "distinct (map rp_id ts)" for ts
  proof -
    have "rp_id ` set ts \<inter> fst ` set (lg_out l) = {}" using that(1) held_apart [OF h] by blast
    then show ?thesis using hand_out_eq [OF that(2)] by simp
  qed
  have d: "distinct (map rp_id (lg_unacked l))" by (rule held_unacked [OF h])
  note r = handed_reading [OF linv_apart [OF h] assms(2) m]
  let ?fs = "map (\<lambda>r. put_out r False) (lg_unacked l)"
  have "hand_out (lg_unacked l) l \<in> passes ?fs l" using passes_last [of ?fs l] by (simp add: run_hand)
  then have "x \<in> passes ?fs l \<or> x = clear_unacked (hand_out (lg_unacked l) l)"
    using assms(3) by (auto simp: hand_steps_def passes_append run_hand)
  moreover have "\<exists>i. x = hand_out (take i (lg_unacked l)) l" if "x \<in> passes ?fs l"
    using that unfolding passes_def by (auto simp: take_map run_hand)
  ultimately consider (out) i where "x = hand_out (take i (lg_unacked l)) l"
    | (clear) "x = clear_unacked (hand_out (lg_unacked l) l)" by blast
  then show ?thesis
  proof cases
    case out
    have t: "set (take i (lg_unacked l)) \<subseteq> set (lg_unacked l)" by (rule set_take_subset)
    have "distinct (map rp_id (take i (lg_unacked l)))" using d by (simp add: take_map [symmetric])
    then show ?thesis using r [OF t _ e [OF t]] out by simp
  next
    case clear
    then show ?thesis using r [OF subset_refl, of "[]" x k] e [OF subset_refl d] by (simp add: clear_unacked_def)
  qed
qed

lemma attach_reading:
  assumes "linv l" "lg_settled l = []" "x \<in> attach_pass time_ns now q l"
  shows "reading x k = reading l k"
proof -
  let ?h = "run_steps (hand_steps (lg_unacked l)) l"
  have h: "?h = (hand_out (lg_unacked l) l)\<lparr>lg_unacked := []\<rparr>"
    by (simp add: hand_steps_def run_hand clear_unacked_def)
  have "reading ?h k = reading l k" by (rule hand_reading [OF assms(1,2) passes_last])
  moreover have "linv ?h" "lg_settled ?h = []"
    unfolding h using hand_out_linv [OF assms(1,2)] assms(2) by simp_all
  ultimately have "reading x k = reading l k" if "x \<in> cut_pass time_ns now q ?h"
    using that cut_reading [of ?h x time_ns now q k] by (auto simp: cut_pass_def split: if_splits)
  then show ?thesis using assms(3) hand_reading [OF assms(1,2), of x k] by (auto simp: attach_pass_def)
qed

lemma fold_held_parks: "fold_held l \<in> fold_pass l"
  using settles_last by (simp add: fold_pass_def fold_held_def Let_def)

lemma attach_parks:
  "snd (cut_held time_ns now q ((hand_out (lg_unacked l) l)\<lparr>lg_unacked := []\<rparr>)) \<in> attach_pass time_ns now q l"
proof -
  let ?h = "run_steps (hand_steps (lg_unacked l)) l"
  have h: "(hand_out (lg_unacked l) l)\<lparr>lg_unacked := []\<rparr> = ?h"
    by (simp add: hand_steps_def run_hand clear_unacked_def)
  have "snd (cut_held time_ns now q ?h) \<in> cut_pass time_ns now q ?h"
    by (simp add: cut_pass_def cut_held_def Let_def passes_last)
  then show ?thesis unfolding h by (simp add: attach_pass_def)
qed

section \<open>Properties\<close>

text \<open>C7: a reader that cannot take the fold never misses a count, whatever two stores of the frame that holds it
  the reader lands between. In a whole fold (each record of the inbox, each queued settle, the reports
  dropped for the cap) what it reads, with what the ledger gave up on, never falls below what it was
  before the fold; while \<open>attach\<close> hands the held reports out and cuts a new one, it reads exactly
  what it would have read before. The last states of both are the ones the operations leave.\<close>

theorem parked_fold_hides_nothing:
  assumes "ledger_reach l"
  shows "(\<forall>x \<in> fold_pass l.
            tally (read_undelivered False l) k + tally (lg_undeliverable l) k
              \<le> tally (read_undelivered False x) k + tally (lg_undeliverable x) k) \<and>
         fold_held l \<in> fold_pass l \<and>
         (\<forall>x \<in> attach_pass time_ns now q (fold_held l).
            tally (read_undelivered False x) k = tally (read_undelivered False (fold_held l)) k) \<and>
         snd (cut_held time_ns now q ((hand_out (lg_unacked (fold_held l)) (fold_held l))\<lparr>lg_unacked := []\<rparr>))
           \<in> attach_pass time_ns now q (fold_held l)"
proof -
  have inv: "linv l" using assms by (rule reach_linv)
  show ?thesis
    using fold_level [OF inv, of _ k] attach_reading [OF fold_held_laws [OF inv], of _ time_ns now q k]
      fold_held_parks attach_parks
    by (simp add: level_def reading_def)
qed

theorem parked_fold_hides_nothing_witness:
  "tally (read_undelivered False sample_ledger) (R_NETWORK_ERROR, U_SPAN)
     + tally (lg_undeliverable sample_ledger) (R_NETWORK_ERROR, U_SPAN) \<le>
   tally (read_undelivered False (run_steps (take 3 (entry_steps (hd (lg_inbox sample_ledger)))) sample_ledger))
       (R_NETWORK_ERROR, U_SPAN)
     + tally (lg_undeliverable (run_steps (take 3 (entry_steps (hd (lg_inbox sample_ledger)))) sample_ledger))
         (R_NETWORK_ERROR, U_SPAN)"
proof -
  have i: "lg_inbox sample_ledger = [(Some R_NETWORK_ERROR, Some U_SPAN, 3, None)]"
    by (simp add: sample_ledger_def record_drop_def Let_def append_inbox_def arm_def fresh_ledger_def
        FOLD_AT_def)
  have "run_steps (take 3 (entry_steps (hd (lg_inbox sample_ledger)))) sample_ledger \<in> fold_pass sample_ledger"
    by (simp add: fold_pass_def i)
  then show ?thesis
    using parked_fold_hides_nothing [OF reach_sample, of "(R_NETWORK_ERROR, U_SPAN)" 0 0 0] by blast
qed

text \<open>What no receiver has confirmed. Read with the fold free, in any reachable
  state, \<open>undelivered\<close> is the process total less what was confirmed and what will
  never reach a receiver.\<close>

theorem undelivered_is_the_rest:
  assumes "ledger_reach l" "free_fold me l \<noteq> None"
  shows "let (c, l') = undelivered me l in
    tally c k = tally (lg_totals l') k - tally (lg_undeliverable l') k - tally (lg_confirmed l') k"
  using undelivered_rest [OF reach_linv [OF assms(1)] assms(2)] .

theorem undelivered_is_the_rest_witness:
  "let (c, l') = undelivered 0 sample_ledger in tally c (R_NETWORK_ERROR, U_SPAN) =
     tally (lg_totals l') (R_NETWORK_ERROR, U_SPAN) - tally (lg_undeliverable l') (R_NETWORK_ERROR, U_SPAN)
     - tally (lg_confirmed l') (R_NETWORK_ERROR, U_SPAN)"
proof (rule undelivered_is_the_rest [OF reach_sample])
  show "free_fold 0 sample_ledger \<noteq> None"
    by (simp add: sample_ledger_def record_drop_def Let_def append_inbox_def arm_def fresh_ledger_def
        FOLD_AT_def free_fold_def acquire_def)
qed

text \<open>\<open>attach\<close> takes only what it ships. A value that is no envelope, a transport
  that cannot carry reports, a \<open>client_reports\<close> that is neither a tuple nor a list,
  or a fold another frame holds: the envelope and the ledger come back as they were.
  Otherwise the host's own reports keep their place in front, nothing else of the
  envelope changes, and every report added is one the ledger now holds out under its
  identity, with none left waiting for resending.\<close>

theorem attach_takes_what_it_ships:
  assumes "ledger_reach l"
  shows "let (e', l') = attach me e attr q time_ns now l in
    (if \<not> en_is_envelope e \<or> attr \<noteq> Some True \<or> en_client_reports e = CR_other \<or> free_fold me l = None
     then e' = e \<and> l' = l
     else lg_unacked l' = [] \<and> en_spans e' = en_spans e \<and> en_snapshots e' = en_snapshots e \<and>
       (\<exists>held reports. (en_client_reports e = CR_tuple held \<or> en_client_reports e = CR_list held) \<and>
          (reports = [] \<longrightarrow> e' = e) \<and>
          (reports \<noteq> [] \<longrightarrow> en_client_reports e' = CR_tuple (held @ reports)) \<and>
          (\<forall>r \<in> set reports. \<exists>fresh. map_of (lg_out l') (rp_id r) = Some (r, fresh))))"
proof (cases "en_is_envelope e \<and> attr = Some True \<and> en_client_reports e \<noteq> CR_other \<and> free_fold me l \<noteq> None")
  case False
  then show ?thesis
    by (auto simp: attach_def carries_def split: held_reports.splits option.splits)
next
  case True
  then obtain l0 held where f: "free_fold me l = Some l0" and e: "en_is_envelope e" "attr = Some True"
    and held: "en_client_reports e = CR_tuple held \<or> en_client_reports e = CR_list held"
    by (cases "en_client_reports e") auto
  let ?l1 = "fold_held (l0\<lparr>lg_folding := True\<rparr>)"
  let ?l2 = "(hand_out (lg_unacked ?l1) ?l1)\<lparr>lg_unacked := []\<rparr>"
  have l1: "linv ?l1" "lg_settled ?l1 = []"
    using fold_held_laws reach_linv [OF assms] free_fold_linv [OF f] by simp_all
  have h1: "held_ok ?l1" using l1(1) by (simp add: linv_def)
  have out2: "lg_out ?l2 = lg_out ?l1 @ map (\<lambda>r. (rp_id r, (r, False))) (lg_unacked ?l1)"
    using hand_out_eq [OF held_unacked [OF h1] held_apart [OF h1]] by simp
  obtain fresh l3 where c: "cut_held time_ns now q ?l2 = (fresh, l3)" by (cases "cut_held time_ns now q ?l2")
  have l3: "linv l3" "lg_unacked l3 = []"
    using linv_cut [OF hand_out_linv [OF l1], of time_ns now q] c l1(2)
    by (auto simp: cut_held_def Let_def cut_state split: if_splits)
  have h3: "held_ok l3" using l3(1) by (simp add: linv_def)
  let ?reports = "lg_unacked ?l1 @ (case fresh of None \<Rightarrow> [] | Some r \<Rightarrow> [r])"
  have "out_reports l3 = out_reports ?l1 @ ?reports"
    using cut_out [OF hand_out_linv [OF l1] c] unfolding out2 by (simp add: comp_def)
  then have "r \<in> set (out_reports l3)" if "r \<in> set ?reports" for r using that by simp
  then have out: "\<forall>r \<in> set ?reports. \<exists>fresh. map_of (lg_out l3) (rp_id r) = Some (r, fresh)"
    using held_lookup [OF h3] by metis
  have a: "attach me e attr q time_ns now l =
      (let l4 = end_fold l3
       in if ?reports = [] then (e, l4)
          else (let l5 = (if en_spans e = [] \<and> en_snapshots e = [] then l4\<lparr>lg_last_solo := Some now\<rparr> else l4)
                in (e\<lparr>en_id := lg_next_id l5, en_client_reports := CR_tuple (held @ ?reports)\<rparr>,
                    l5\<lparr>lg_next_id := lg_next_id l5 + 1\<rparr>)))"
    using e held f c by (auto simp: attach_def carries_def Let_def)
  show ?thesis
  proof (cases "?reports = []")
    case True
    then have "attach me e attr q time_ns now l = (e, end_fold l3)" unfolding a by (simp add: Let_def)
    then show ?thesis using l3 e held f by auto
  next
    case False
    obtain l5 where r: "attach me e attr q time_ns now l = (e\<lparr>en_id := lg_next_id l5,
        en_client_reports := CR_tuple (held @ ?reports)\<rparr>, l5\<lparr>lg_next_id := lg_next_id l5 + 1\<rparr>)"
      and l5: "lg_out l5 = lg_out l3" "lg_unacked l5 = lg_unacked l3"
      using False unfolding a Let_def by (auto split: if_splits)
    let ?e' = "e\<lparr>en_id := lg_next_id l5, en_client_reports := CR_tuple (held @ ?reports)\<rparr>"
    have "\<exists>h reports. (en_client_reports e = CR_tuple h \<or> en_client_reports e = CR_list h) \<and>
        (reports = [] \<longrightarrow> ?e' = e) \<and>
        (reports \<noteq> [] \<longrightarrow> en_client_reports ?e' = CR_tuple (h @ reports)) \<and>
        (\<forall>r \<in> set reports. \<exists>fresh. map_of (lg_out l5) (rp_id r) = Some (r, fresh))"
      by (rule exI [of _ held], rule exI [of _ ?reports]) (use held False out l5(1) in auto)
    then show ?thesis
      unfolding r using l5(2) l3(2) e held f by auto
  qed
qed

theorem attach_takes_what_it_ships_witness:
  "let (e', l') = attach 0 sample_envelope None 0 5 1 sample_ledger
   in e' = sample_envelope \<and> l' = sample_ledger"
  using attach_takes_what_it_ships [OF reach_sample, of 0 sample_envelope None 0 5 1]
  by (simp add: Let_def split: prod.splits)

text \<open>The memory of settled envelopes is touched only by \<open>unsent\<close> and \<open>done_with\<close>.\<close>

lemma already_after:
  "already_unsent e (l\<lparr>lg_unsent := drop (length (lg_unsent l @ [en_id e]) - UNSENT_CAP) (lg_unsent l @ [en_id e])\<rparr>)"
  by (simp add: already_unsent_def UNSENT_CAP_def)

lemma entry_unsent [simp]: "lg_unsent (run_steps (entry_steps e) l) = lg_unsent l"
  by (cases e rule: entry_cases) (auto simp: store_frames)

lemma fold_entries_unsent [simp]: "lg_unsent (fold_entries es l) = lg_unsent l"
  by (induction es arbitrary: l) simp_all

lemma trim_unsent [simp]: "lg_unsent (trim_unacked l) = lg_unsent l"
  by (rule trim_invariant [where I = "\<lambda>x. lg_unsent x = lg_unsent l"])
    (simp_all add: overflow_once_def Let_def)

lemma settle_one_unsent [simp]: "lg_unsent (settle_one s l) = lg_unsent l"
  by (auto simp: settle_one_def settle_steps_def store_defs split: option.splits prod.splits)

lemma settle_all_unsent [simp]: "lg_unsent (settle_all ss l) = lg_unsent l"
  by (induction ss arbitrary: l) simp_all

lemma try_fold_unsent [simp]: "lg_unsent (snd (try_fold me l)) = lg_unsent l"
  by (auto simp: try_fold_def fold_held_def fold_inbox_def Let_def end_fold_def run_held_signals_def
      release_def free_fold_def acquire_def split: option.splits if_splits)

text \<open>One failure, one account. \<open>unsent\<close> says whether the failure is news exactly
  as \<open>already_unsent\<close> did before it; once it has settled an envelope, a second
  \<open>unsent\<close> of it, by any thread and whatever the transport says then, answers no and
  changes nothing; and the envelope is forgotten by its drain's last settle, be it
  \<open>unsent(last=True)\<close> or \<open>done\<close>.\<close>

theorem failure_accounted_once:
  "let (news, l') = unsent me e definite False l in
     news = (\<not> already_unsent e l) \<and> already_unsent e l' \<and>
     unsent me' e definite' False l' = (False, l') \<and>
     \<not> already_unsent e (snd (unsent me' e definite' True l')) \<and>
     \<not> already_unsent e (done_with me' e l')"
proof -
  have a: "already_unsent e (snd (unsent me e definite False l))"
    using already_after [of e l]
    by (auto simp: unsent_def Let_def already_unsent_def settle_def split: if_splits)
  moreover have "fst (unsent me e definite False l) = (\<not> already_unsent e l)"
    by (simp add: unsent_def Let_def)
  moreover have "\<not> already_unsent e (done_with me' e x)" for x
    by (simp add: done_with_def Let_def already_unsent_def settle_def)
  ultimately show ?thesis
    by (auto simp: Let_def unsent_def [of me'] already_unsent_def split: prod.splits)
qed

lemma fold_entries_settled [simp]: "lg_settled (fold_entries es l) = lg_settled l"
  by (induction es arbitrary: l) simp_all

lemma fold_entries_frame [simp]:
  "lg_undeliverable (fold_entries es l) = lg_undeliverable l"
  "lg_confirmed (fold_entries es l) = lg_confirmed l"
proof (induction es arbitrary: l)
  case (Cons e es)
  { case 1 then show ?case using Cons
      by (cases e rule: entry_cases) (auto simp: store_frames) }
  { case 2 then show ?case using Cons
      by (cases e rule: entry_cases) (auto simp: store_frames) }
qed simp_all

text \<open>A fork child starts from zero and can always fold. Whatever the parent was
  doing at the fork, a fold of another of its threads included, the child counts
  nothing of the parent's, holds and owes no report, its first fold is not refused,
  and what it records from then on is all it reports as undelivered.\<close>

theorem fork_child_starts_from_zero:
  assumes "reason_of reason = Some r" "0 < n"
  shows "let l' = at_fork_reinit now pid l;
             l'' = record_drop me reason n unit w l' in
    (\<forall>k. counted l' k = 0) \<and> lg_unacked l' = [] \<and> lg_out l' = [] \<and> lg_settled l' = [] \<and>
    free_fold me l' \<noteq> None \<and> at_fork_child now pid l' = l' \<and>
    tally (fst (undelivered me l'')) k =
      (if k = (r, case unit of None \<Rightarrow> default_unit r | Some u \<Rightarrow> u) then n else 0)"
proof -
  let ?l = "at_fork_reinit now pid l" and ?u = "case unit of None \<Rightarrow> default_unit r | Some u \<Rightarrow> u"
  have c: "record_drop me reason n unit w ?l = arm (append_inbox (Some r, Some ?u, n, w) ?l)"
    using assms by (simp add: record_drop_def Let_def append_inbox_def arm_def at_fork_reinit_def FOLD_AT_def)
  have "free_fold me (record_drop me reason n unit w ?l) \<noteq> None"
    unfolding c by (simp add: free_fold_def acquire_def at_fork_reinit_def append_inbox_def arm_def)
  then obtain l1 where f: "free_fold me (record_drop me reason n unit w ?l) = Some l1" by auto
  have "tally (fst (undelivered me (record_drop me reason n unit w ?l))) k = (if k = (r, ?u) then n else 0)"
  proof -
    let ?m = "fold_held (l1\<lparr>lg_folding := True\<rparr>)"
    have l1: "lg_settled l1 = []" "lg_undeliverable l1 = []" "lg_confirmed l1 = []"
      "counted l1 k = (if k = (r, ?u) then n else 0)"
      using assms unfolding free_fold_frame [OF f] counted_free [OF f] counted_record unit_for_def
      by (simp_all add: c) (simp_all add: at_fork_reinit_def append_inbox_def arm_def counted_def)
    have m: "?m = fold_inbox (l1\<lparr>lg_folding := True\<rparr>)"
      using fold_entries_settled [of "lg_inbox l1" "l1\<lparr>lg_folding := True\<rparr>"] l1(1)
      by (simp add: fold_held_def Let_def fold_inbox_def)
    have "counted ?m k = counted l1 k" "lg_inbox ?m = []"
      using fold_entries_counted [of "l1\<lparr>lg_folding := True\<rparr>" "lg_inbox l1" k]
      unfolding m by (simp_all add: fold_inbox_def counted_def)
    then have "tally (lg_totals ?m) k = (if k = (r, ?u) then n else 0)"
      using l1(4) by (simp add: counted_def)
    moreover have "lg_undeliverable ?m = []" "lg_confirmed ?m = []"
      unfolding m fold_inbox_def using l1 by simp_all
    moreover have "linv (record_drop me reason n unit w ?l)" by (rule linv_record_drop [OF linv_fork])
    note undelivered_rest [OF this, of me k]
    ultimately show ?thesis
      by (simp add: undelivered_def try_fold_def f end_fold_def run_held_signals_def release_def split: if_splits)
  qed
  then show ?thesis
    by (simp add: Let_def at_fork_child_def at_fork_reinit_def counted_def free_fold_def acquire_def)
qed

theorem fork_child_starts_from_zero_witness:
  "tally (fst (undelivered 1 (record_drop 1 (reason_value R_SEND_ERROR) 4 None None
      (at_fork_reinit 9 8 (sample_ledger\<lparr>lg_owner := Some 5, lg_depth := 1, lg_folding := True\<rparr>)))))
    (R_SEND_ERROR, U_SPAN) = 4"
  using fork_child_starts_from_zero [OF reason_of_value, of 4 9 8
      "sample_ledger\<lparr>lg_owner := Some 5, lg_depth := 1, lg_folding := True\<rparr>" 1 R_SEND_ERROR None None
      "(R_SEND_ERROR, U_SPAN)"]
  by (simp add: Let_def)

end
