(* ===== verification/Scope.thy ===== *)
theory Scope
  imports Types
begin

text \<open>
  Scopes: \<open>_scope.py\<close>, the fork rule of \<open>context/_contextvar.py\<close>, and the part of
  \<open>_hub.py\<close> that decides which scope a Context reads.

  The first half is the pure merge of the global, isolation and current layers, in
  its full form and in the two narrow forms the hot paths use, with the proof that
  the narrow forms read what the full one would. Host objects inside a context
  dictionary are opaque numbers.

  The second half gives scopes an identity and a heap, because \<open>retire\<close> rewrites a
  scope object other Contexts still hold. A Context is a number; a ContextVar is a
  map from Contexts; copying a Context copies its bindings. A Token can be reset
  only in the Context that made it, which is all \<open>here()\<close> rests on. The loops of
  \<open>retire\<close> and \<open>_settled\<close> follow links between scopes, so they are partial
  functions whose termination is a theorem about the heap (\<open>links_acyclic\<close>).
\<close>

section \<open>Scopes\<close>

record user_info =
  us_id :: "py_text option"
  us_email :: "py_text option"
  us_username :: "py_text option"
  us_ip_address :: "py_text option"

type_synonym host_object = nat
type_synonym tags = "(py_text \<times> py_text) list"

record scope =
  so_tags :: tags
  so_user :: "user_info option"
  so_contexts :: "(py_text \<times> (py_text \<times> host_object) list) list"
  so_active_span_context :: "span_context option"
  so_conversation :: "conversation option"
  so_tracestate :: "py_text option"

definition empty_scope :: scope where
  "empty_scope = \<lparr>so_tags = [], so_user = None, so_contexts = [],
     so_active_span_context = None, so_conversation = None, so_tracestate = None\<rparr>"

definition set_tag :: "py_text \<Rightarrow> py_text \<Rightarrow> scope \<Rightarrow> scope" where
  "set_tag key v s = s\<lparr>so_tags := AList.update key v (so_tags s)\<rparr>"

definition set_user :: "user_info option \<Rightarrow> scope \<Rightarrow> scope" where
  "set_user u s = s\<lparr>so_user := u\<rparr>"

definition set_context :: "py_text \<Rightarrow> (py_text \<times> host_object) list \<Rightarrow> scope \<Rightarrow> scope" where
  "set_context key v s = s\<lparr>so_contexts := AList.update key v (so_contexts s)\<rparr>"

text \<open>A clone copies the dictionaries; as values they are equal.\<close>

definition clone :: "scope \<Rightarrow> scope" where
  "clone s = \<lparr>so_tags = so_tags s, so_user = so_user s, so_contexts = so_contexts s,
     so_active_span_context = so_active_span_context s, so_conversation = so_conversation s,
     so_tracestate = so_tracestate s\<rparr>"

text \<open>\<open>dict.update\<close>.\<close>

fun dict_update :: "('k \<times> 'v) list \<Rightarrow> ('k \<times> 'v) list \<Rightarrow> ('k \<times> 'v) list" where
  "dict_update d [] = d"
| "dict_update d ((k, v) # rest) = dict_update (AList.update k v d) rest"

definition later :: "'a option \<Rightarrow> 'a option \<Rightarrow> 'a option" where
  "later old new = (case new of None \<Rightarrow> old | Some x \<Rightarrow> Some x)"

definition merge_layer :: "scope \<Rightarrow> scope \<Rightarrow> scope" where
  "merge_layer merged layer =
     merged\<lparr>so_tags := dict_update (so_tags merged) (so_tags layer),
       so_contexts := dict_update (so_contexts merged) (so_contexts layer),
       so_user := later (so_user merged) (so_user layer),
       so_active_span_context := later (so_active_span_context merged) (so_active_span_context layer),
       so_conversation := later (so_conversation merged) (so_conversation layer),
       so_tracestate := later (so_tracestate merged) (so_tracestate layer)\<rparr>"

definition merge_scopes :: "scope \<Rightarrow> scope \<Rightarrow> scope \<Rightarrow> scope" where
  "merge_scopes global isolation current =
     fold (\<lambda>layer merged. merge_layer merged layer) [isolation, current] (clone global)"

definition merged_trace_fields ::
  "scope \<Rightarrow> scope \<Rightarrow> scope \<Rightarrow> span_context option \<times> py_text option" where
  "merged_trace_fields global isolation current =
     fold (\<lambda>layer (active, ts). (later active (so_active_span_context layer), later ts (so_tracestate layer)))
       [isolation, current] (so_active_span_context global, so_tracestate global)"

definition merged_tags_and_user :: "scope \<Rightarrow> scope \<Rightarrow> scope \<Rightarrow> tags \<times> user_info option" where
  "merged_tags_and_user global isolation current =
     fold (\<lambda>layer (ts, u). (dict_update ts (so_tags layer), later u (so_user layer)))
       [isolation, current] (so_tags global, so_user global)"

text \<open>\<open>_fork\<close>: a clone with another span active; the two other fields are overrides.\<close>

definition fork_of ::
  "scope \<Rightarrow> span_context \<Rightarrow> conversation option \<Rightarrow> py_text option \<Rightarrow> scope" where
  "fork_of prev ctx conv ts =
     (clone prev)\<lparr>so_active_span_context := Some ctx,
       so_conversation := later (so_conversation prev) conv,
       so_tracestate := later (so_tracestate prev) ts\<rparr>"

lemma map_of_dict_update:
  "map_of (dict_update d e) k = (case map_of (rev e) k of None \<Rightarrow> map_of d k | Some v \<Rightarrow> Some v)"
  by (induction d e rule: dict_update.induct)
    (auto simp: map_of_update map_add_def split: option.splits)

lemma distinct_dict_update: "distinct (map fst d) \<Longrightarrow> distinct (map fst (dict_update d e))"
  by (induction d e rule: dict_update.induct) (auto simp: distinct_update)

lemma map_of_rev_distinct: "distinct (map fst e) \<Longrightarrow> map_of (rev e) k = map_of e k"
proof (induction e)
  case (Cons p e)
  then show ?case
    by (cases p) (auto simp: map_add_def map_of_eq_None_iff[THEN iffD2] split: option.splits)
qed simp

lemma later_simps [simp]: "later x None = x" "later x (Some y) = Some y" "later None y = y"
  by (simp_all add: later_def split: option.splits)

section \<open>Scopes with identity\<close>

type_synonym context_id = nat
type_synonym marker = nat
type_synonym scope_id = nat

datatype scope_var = CURRENT | ISOLATION

text \<open>\<open>hs_retired\<close> is the pair \<open>(_retired_to, _retired_by)\<close>. \<open>hb_token\<close> is the Context
  whose Token the marker holds.\<close>

record heap_scope =
  hs_value :: scope
  hs_retired :: "(scope_id \<times> marker) option"

record hub =
  hb_heap :: "scope_id \<Rightarrow> heap_scope option"
  hb_vars :: "scope_var \<Rightarrow> context_id \<Rightarrow> scope_id option"
  hb_here :: "context_id \<Rightarrow> marker option"
  hb_token :: "marker \<Rightarrow> context_id option"
  hb_next_scope :: scope_id
  hb_next_marker :: marker

definition set_var :: "scope_var \<Rightarrow> context_id \<Rightarrow> scope_id option \<Rightarrow> hub \<Rightarrow> hub" where
  "set_var v c s h = h\<lparr>hb_vars := (hb_vars h)(v := (hb_vars h v)(c := s))\<rparr>"

definition new_scope_object :: "scope \<Rightarrow> hub \<Rightarrow> scope_id \<times> hub" where
  "new_scope_object value h =
     (hb_next_scope h,
      h\<lparr>hb_heap := (hb_heap h)(hb_next_scope h \<mapsto> \<lparr>hs_value = value, hs_retired = None\<rparr>),
        hb_next_scope := hb_next_scope h + 1\<rparr>)"

definition link :: "hub \<Rightarrow> scope_id \<Rightarrow> (scope_id \<times> marker) option" where
  "link h s = (case hb_heap h s of None \<Rightarrow> None | Some x \<Rightarrow> hs_retired x)"

text \<open>\<open>here()\<close>: \<open>_here.reset(found.token)\<close> succeeds in the Context that made the Token.\<close>

definition here :: "context_id \<Rightarrow> hub \<Rightarrow> marker \<times> hub" where
  "here c h =
     (case (case hb_here h c of
              None \<Rightarrow> None
            | Some m \<Rightarrow> if hb_token h m = Some c then Some m else None) of
        Some m \<Rightarrow> (m, h)
      | None \<Rightarrow>
          (hb_next_marker h,
           h\<lparr>hb_next_marker := hb_next_marker h + 1,
             hb_token := (hb_token h)(hb_next_marker h \<mapsto> c),
             hb_here := (hb_here h)(c \<mapsto> hb_next_marker h)\<rparr>))"

definition copy_context :: "context_id \<Rightarrow> context_id \<Rightarrow> hub \<Rightarrow> hub" where
  "copy_context c c' h =
     h\<lparr>hb_vars := (\<lambda>v. (hb_vars h v)(c' := hb_vars h v c)),
       hb_here := (hb_here h)(c' := hb_here h c)\<rparr>"

partial_function (option) past_retired :: "hub \<Rightarrow> marker \<Rightarrow> scope_id \<Rightarrow> scope_id option" where
  "past_retired h owner prev =
     (case link h prev of
        Some (next, by) \<Rightarrow> if by = owner then past_retired h owner next else Some prev
      | None \<Rightarrow> Some prev)"

definition retire :: "scope_id \<Rightarrow> scope_id \<Rightarrow> marker \<Rightarrow> hub \<Rightarrow> hub option" where
  "retire fork prev owner h =
     (case past_retired h owner prev of
        None \<Rightarrow> None
      | Some p \<Rightarrow>
          Some (if p \<noteq> fork
                then h\<lparr>hb_heap := (hb_heap h)(fork := map_option (\<lambda>x. x\<lparr>hs_retired := Some (p, owner)\<rparr>) (hb_heap h fork))\<rparr>
                else h))"

partial_function (option) settle_loop ::
  "scope_var \<Rightarrow> context_id \<Rightarrow> marker \<Rightarrow> scope_id \<Rightarrow> hub \<Rightarrow> (scope_id \<times> hub) option" where
  "settle_loop v c mine s h =
     (case link h s of
        Some (next, by) \<Rightarrow>
          if by \<noteq> mine then Some (s, h)
          else settle_loop v c mine next (set_var v c (Some next) h)
      | None \<Rightarrow> Some (s, h))"

definition settled :: "scope_var \<Rightarrow> context_id \<Rightarrow> scope_id \<Rightarrow> hub \<Rightarrow> (scope_id \<times> hub) option" where
  "settled v c s h =
     (case link h s of
        None \<Rightarrow> Some (s, h)
      | Some _ \<Rightarrow> (case here c h of (mine, h1) \<Rightarrow> settle_loop v c mine s h1))"

text \<open>\<open>get_current_scope\<close> and \<open>get_isolation_scope\<close>.\<close>

definition get_scope :: "scope_var \<Rightarrow> context_id \<Rightarrow> hub \<Rightarrow> (scope_id \<times> hub) option" where
  "get_scope v c h =
     (case (case hb_vars h v c of
              Some s \<Rightarrow> (s, h)
            | None \<Rightarrow> (case new_scope_object empty_scope h of (s, h1) \<Rightarrow> (s, set_var v c (Some s) h1))) of
        (s, h1) \<Rightarrow> if link h1 s = None then Some (s, h1) else settled v c s h1)"

text \<open>A Token: the Context that made it and the value it restores.\<close>

type_synonym token = "context_id \<times> scope_id option"

definition settle_in ::
  "context_id \<Rightarrow> marker \<Rightarrow> scope_var \<Rightarrow> scope_id \<Rightarrow> scope_id \<Rightarrow> hub \<Rightarrow> hub" where
  "settle_in c owner v gone prev h =
     (if hb_vars h v c = Some gone
      then (case here c h of (m, h1) \<Rightarrow> if m = owner then set_var v c (Some prev) h1 else h1)
      else h)"

text \<open>\<open>lent\<close> is the installer's Context, when its Task could lend it.\<close>

definition take_down ::
  "scope_var \<Rightarrow> token \<Rightarrow> scope_id \<Rightarrow> scope_id \<Rightarrow> marker \<Rightarrow> context_id option \<Rightarrow> context_id \<Rightarrow> hub
     \<Rightarrow> (bool \<times> hub) option" where
  "take_down v token installed prev owner lent c h =
     (if fst token = c then Some (False, set_var v c (snd token) h)
      else
        (let h1 = (if hb_vars h v c = Some installed then set_var v c (Some prev) h else h)
         in case retire installed prev owner h1 of
              None \<Rightarrow> None
            | Some h2 \<Rightarrow>
                Some (True, case lent of None \<Rightarrow> h2 | Some o' \<Rightarrow> settle_in o' owner v installed prev h2)))"

text \<open>\<open>new_scope\<close>, up to its \<open>yield\<close>: the fork, its Token, the scope before and the
  marker of the installing Context.\<close>

definition enter_new_scope ::
  "context_id \<Rightarrow> hub \<Rightarrow> (scope_id \<times> token \<times> scope_id \<times> marker \<times> hub) option" where
  "enter_new_scope c h =
     (case get_scope CURRENT c h of
        None \<Rightarrow> None
      | Some (prev, h1) \<Rightarrow>
          (case here c h1 of
             (owner, h2) \<Rightarrow>
               (case new_scope_object (clone (case hb_heap h2 prev of None \<Rightarrow> empty_scope | Some x \<Rightarrow> hs_value x)) h2 of
                  (forked, h3) \<Rightarrow>
                    Some (forked, (c, hb_vars h3 CURRENT c), prev, owner,
                          set_var CURRENT c (Some forked) h3))))"

definition install_span ::
  "context_id \<Rightarrow> span_context \<Rightarrow> conversation option \<Rightarrow> py_text option \<Rightarrow> hub
     \<Rightarrow> (scope_id \<times> scope_id \<times> hub) option" where
  "install_span c ctx conv ts h =
     (case get_scope CURRENT c h of
        None \<Rightarrow> None
      | Some (prev, h1) \<Rightarrow>
          (case new_scope_object
                  (fork_of (case hb_heap h1 prev of None \<Rightarrow> empty_scope | Some x \<Rightarrow> hs_value x) ctx conv ts) h1 of
             (fork, h2) \<Rightarrow> Some (prev, fork, set_var CURRENT c (Some fork) h2)))"

definition restore_scope :: "context_id \<Rightarrow> scope_id \<Rightarrow> scope_id \<Rightarrow> hub \<Rightarrow> hub option" where
  "restore_scope c prev fork h =
     (if hb_vars h CURRENT c = Some fork then Some (set_var CURRENT c (Some prev) h)
      else (case here c h of (m, h1) \<Rightarrow> retire fork prev m h1))"

definition retire_fork :: "scope_id \<Rightarrow> scope_id \<Rightarrow> hub \<Rightarrow> hub" where
  "retire_fork fork prev h =
     (case (hb_heap h fork, hb_heap h prev) of
        (Some f, Some p) \<Rightarrow>
          h\<lparr>hb_heap := (hb_heap h)(fork \<mapsto> f\<lparr>hs_value := (hs_value f)\<lparr>
              so_active_span_context := so_active_span_context (hs_value p),
              so_conversation := so_conversation (hs_value p),
              so_tracestate := so_tracestate (hs_value p)\<rparr>\<rparr>)\<rparr>
      | _ \<Rightarrow> h)"

definition enter_isolation_scope ::
  "bool \<Rightarrow> context_id \<Rightarrow> hub \<Rightarrow> (scope_id \<times> (token \<times> scope_id) \<times> (token \<times> scope_id) \<times> marker \<times> hub) option" where
  "enter_isolation_scope keep_conversation c h =
     (case here c h of (owner, h0) \<Rightarrow>
      (case get_scope ISOLATION c h0 of None \<Rightarrow> None | Some (prev_iso, h1) \<Rightarrow>
      (case get_scope CURRENT c h1 of None \<Rightarrow> None | Some (prev_cur, h2) \<Rightarrow>
        (let value = (\<lambda>i. case hb_heap h2 i of None \<Rightarrow> empty_scope | Some x \<Rightarrow> hs_value x) in
         case new_scope_object (clone (value prev_iso)) h2 of (new_iso, h3) \<Rightarrow>
         (case new_scope_object (empty_scope\<lparr>so_conversation :=
                 (if keep_conversation then so_conversation (value prev_cur) else None)\<rparr>) h3 of
            (fresh, h4) \<Rightarrow>
              (let iso_token = (c, hb_vars h4 ISOLATION c);
                   h5 = set_var ISOLATION c (Some new_iso) h4;
                   cur_token = (c, hb_vars h5 CURRENT c);
                   h6 = set_var CURRENT c (Some fresh) h5
               in Some (new_iso, (cur_token, fresh), (iso_token, prev_iso), owner, h6)))))))"

section \<open>Links between scopes end\<close>

definition links :: "hub \<Rightarrow> marker \<Rightarrow> (scope_id \<times> scope_id) set" where
  "links h m = {(a, b). link h a = Some (b, m)}"

definition links_acyclic :: "hub \<Rightarrow> bool" where
  "links_acyclic h \<longleftrightarrow> finite (dom (hb_heap h)) \<and> (\<forall>m. acyclic (links h m)) \<and>
     (\<forall>m c. hb_token h m = Some c \<longrightarrow> m < hb_next_marker h)"

lemma link_heap: "hb_heap h' = hb_heap h \<Longrightarrow> link h' = link h"
  by (simp add: link_def fun_eq_iff)

lemma links_heap: "hb_heap h' = hb_heap h \<Longrightarrow> links h' m = links h m"
  unfolding links_def link_def by (simp only:)

lemma finite_links: "finite (dom (hb_heap h)) \<Longrightarrow> finite (links h m)"
proof -
  assume f: "finite (dom (hb_heap h))"
  have "links h m \<subseteq> (\<lambda>a. (a, fst (the (link h a)))) ` dom (hb_heap h)"
    by (force simp: links_def link_def split: option.splits)
  with f show ?thesis by (rule finite_surj)
qed

lemma wf_links: "links_acyclic h \<Longrightarrow> wf ((links h m)\<inverse>)"
  by (simp add: links_acyclic_def finite_links finite_acyclic_wf_converse)

lemma past_retired_total:
  assumes "links_acyclic h"
  shows "\<exists>p. past_retired h m s = Some p \<and> (s, p) \<in> (links h m)\<^sup>* \<and> (\<forall>b. link h p \<noteq> Some (b, m))"
  using wf_links [OF assms, of m]
proof (induction s rule: wf_induct_rule)
  case (less s)
  show ?case
  proof (cases "\<exists>n. link h s = Some (n, m)")
    case True
    then obtain n where n: "link h s = Some (n, m)" by auto
    then have "(s, n) \<in> links h m" by (simp add: links_def)
    moreover from this obtain p where "past_retired h m n = Some p" "(n, p) \<in> (links h m)\<^sup>*"
      "\<forall>b. link h p \<noteq> Some (b, m)" using less.IH by blast
    ultimately show ?thesis
      using n by (intro exI [of _ p]) (subst past_retired.simps, auto intro: converse_rtrancl_into_rtrancl)
  next
    case False
    then show ?thesis
      by (intro exI [of _ s]) (subst past_retired.simps, auto split: option.splits)
  qed
qed

lemma set_var_frame [simp]:
  "hb_heap (set_var v c x h) = hb_heap h" "hb_here (set_var v c x h) = hb_here h"
  "hb_token (set_var v c x h) = hb_token h" "hb_next_marker (set_var v c x h) = hb_next_marker h"
  "hb_next_scope (set_var v c x h) = hb_next_scope h"
  by (simp_all add: set_var_def)

lemma settle_loop_past:
  assumes "links_acyclic g" "hb_heap h = hb_heap g" "past_retired g m s = Some p"
  shows "\<exists>h'. settle_loop v c m s h = Some (p, h') \<and> hb_heap h' = hb_heap g \<and>
     hb_token h' = hb_token h \<and> hb_next_marker h' = hb_next_marker h"
  using wf_links [OF assms(1), of m] assms(2,3)
proof (induction s arbitrary: h rule: wf_induct_rule)
  case (less s)
  have l: "link h = link g" by (rule link_heap [OF less.prems(1)])
  show ?case
  proof (cases "\<exists>n. link g s = Some (n, m)")
    case True
    then obtain n where n: "link g s = Some (n, m)" by auto
    then have e: "(n, s) \<in> (links g m)\<inverse>" by (simp add: links_def)
    have pn: "past_retired g m n = Some p" using less.prems(2) n by (subst (asm) past_retired.simps) simp
    obtain h' where h': "settle_loop v c m n (set_var v c (Some n) h) = Some (p, h')" "hb_heap h' = hb_heap g"
      "hb_token h' = hb_token h" "hb_next_marker h' = hb_next_marker h"
      using less.IH [OF e _ pn, of "set_var v c (Some n) h"] less.prems(1) by auto
    have "settle_loop v c m s h = settle_loop v c m n (set_var v c (Some n) h)"
      by (subst settle_loop.simps) (simp add: l n)
    with h' show ?thesis by auto
  next
    case False
    then have "p = s" using less.prems(2) by (subst (asm) past_retired.simps) (auto split: option.splits if_splits)
    moreover have "settle_loop v c m s h = Some (s, h)"
      using False by (subst settle_loop.simps) (auto simp: l split: option.splits)
    ultimately show ?thesis using less.prems(1) by auto
  qed
qed

lemma here_frame:
  assumes "here c h = (m, h')"
  shows "hb_heap h' = hb_heap h" "hb_vars h' = hb_vars h" "hb_token h' m = Some c" "hb_here h' c = Some m"
    "links_acyclic h \<Longrightarrow> links_acyclic h'"
proof -
  show f: "hb_heap h' = hb_heap h" "hb_vars h' = hb_vars h" "hb_token h' m = Some c" "hb_here h' c = Some m"
    using assms by (auto simp: here_def split: option.splits if_splits)
  assume ok: "links_acyclic h"
  have "\<forall>n d. hb_token h' n = Some d \<longrightarrow> n < hb_next_marker h'"
    using assms ok by (auto simp: here_def links_acyclic_def less_Suc_eq split: option.splits if_splits)
  with ok show "links_acyclic h'"
    unfolding links_acyclic_def links_heap [OF f(1)] f(1) by blast
qed

lemma links_acyclic_frame:
  assumes "links_acyclic h" "hb_heap h' = hb_heap h" "hb_token h' = hb_token h"
    "hb_next_marker h' = hb_next_marker h"
  shows "links_acyclic h'"
proof -
  have "links h' m = links h m" for m by (rule links_heap [OF assms(2)])
  with assms show ?thesis by (simp add: links_acyclic_def)
qed

lemma new_scope_object_ok:
  assumes "links_acyclic h" "new_scope_object value h = (s, h')"
  shows "links_acyclic h'"
proof -
  have "links h' m \<subseteq> links h m" for m
    using assms(2) by (auto simp: new_scope_object_def links_def link_def split: if_splits)
  then show ?thesis
    using assms by (auto simp: links_acyclic_def new_scope_object_def intro: acyclic_subset)
qed

lemma settled_total:
  assumes "links_acyclic h"
  shows "\<exists>s' h'. settled v c s h = Some (s', h') \<and> links_acyclic h'"
proof (cases "link h s")
  case None
  then show ?thesis using assms by (simp add: settled_def)
next
  case (Some x)
  obtain m h1 where m: "here c h = (m, h1)" by (cases "here c h")
  note ok = here_frame(5) [OF m assms]
  obtain p where p: "past_retired h1 m s = Some p" using past_retired_total [OF ok] by blast
  obtain h' where "settle_loop v c m s h1 = Some (p, h')" "hb_heap h' = hb_heap h1"
    "hb_token h' = hb_token h1" "hb_next_marker h' = hb_next_marker h1"
    using settle_loop_past [OF ok refl p] by blast
  then show ?thesis
    using Some m links_acyclic_frame [OF ok] by (auto simp: settled_def)
qed

lemma get_scope_total:
  assumes "links_acyclic h"
  shows "\<exists>s h'. get_scope v c h = Some (s, h') \<and> links_acyclic h'"
proof (cases "hb_vars h v c")
  case (Some s)
  then show ?thesis using settled_total [OF assms, of v c s] assms by (auto simp: get_scope_def)
next
  case None
  obtain s h1 where n: "new_scope_object empty_scope h = (s, h1)" by (cases "new_scope_object empty_scope h")
  have "links_acyclic (set_var v c (Some s) h1)"
    by (rule links_acyclic_frame [OF new_scope_object_ok [OF assms n]]) simp_all
  then show ?thesis using settled_total [of "set_var v c (Some s) h1" v c s] None n by (auto simp: get_scope_def)
qed

lemma retire_total:
  assumes "links_acyclic h"
  shows "\<exists>h'. retire fork prev m h = Some h' \<and> links_acyclic h' \<and> hb_token h' = hb_token h \<and>
     hb_here h' = hb_here h \<and> hb_vars h' = hb_vars h"
proof -
  obtain p where p: "past_retired h m prev = Some p" "\<forall>b. link h p \<noteq> Some (b, m)"
    using past_retired_total [OF assms] by blast
  define h' where "h' = (if p \<noteq> fork
      then h\<lparr>hb_heap := (hb_heap h)(fork := map_option (\<lambda>x. x\<lparr>hs_retired := Some (p, m)\<rparr>) (hb_heap h fork))\<rparr>
      else h)"
  have r: "retire fork prev m h = Some h'" by (simp add: retire_def p h'_def)
  have "acyclic (links h' n)" for n
  proof (cases "n = m \<and> p \<noteq> fork")
    case True
    have "links h' m \<subseteq> insert (fork, p) (links h m)"
      by (auto simp: links_def link_def h'_def split: option.splits if_splits)
    moreover have "(p, fork) \<notin> (links h m)\<^sup>*"
      using p(2) True by (auto simp: links_def elim: converse_rtranclE)
    then have "acyclic (insert (fork, p) (links h m))"
      using assms by (simp add: acyclic_insert links_acyclic_def)
    ultimately show ?thesis using True acyclic_subset by blast
  next
    case False
    then have "links h' n \<subseteq> links h n"
      by (auto simp: links_def link_def h'_def split: option.splits if_splits)
    then show ?thesis using assms acyclic_subset unfolding links_acyclic_def by blast
  qed
  moreover have "finite (dom (hb_heap h'))"
    using assms by (auto simp: links_acyclic_def h'_def intro: finite_subset [of _ "insert fork (dom (hb_heap h))"])
  ultimately have "links_acyclic h'" using assms by (auto simp: links_acyclic_def h'_def)
  with r show ?thesis by (auto simp: h'_def)
qed

section \<open>Reachable hubs\<close>

inductive hub_step :: "hub \<Rightarrow> hub \<Rightarrow> bool" where
  hs_read: "get_scope v c h = Some (s, h') \<Longrightarrow> hub_step h h'"
| hs_here: "hub_step h (snd (here c h))"
| hs_copy: "hub_step h (copy_context c c' h)"
| hs_new: "hub_step h (snd (new_scope_object value h))"
| hs_set: "hub_step h (set_var v c s h)"
| hs_write: "hub_step h (h\<lparr>hb_heap := (hb_heap h)(s := map_option (hs_value_update f) (hb_heap h s))\<rparr>)"
| hs_retire: "retire fork prev owner h = Some h' \<Longrightarrow> hub_step h h'"
| hs_take_down: "take_down v token installed prev owner lent c h = Some (b, h') \<Longrightarrow> hub_step h h'"
| hs_restore: "restore_scope c prev fork h = Some h' \<Longrightarrow> hub_step h h'"

definition fresh_hub :: hub where
  "fresh_hub = \<lparr>hb_heap = Map.empty, hb_vars = (\<lambda>_ _. None), hb_here = (\<lambda>_. None),
     hb_token = (\<lambda>_. None), hb_next_scope = 0, hb_next_marker = 0\<rparr>"

inductive hub_reach :: "hub \<Rightarrow> bool" where
  hr_start: "hub_reach fresh_hub"
| hr_step: "hub_reach h \<Longrightarrow> hub_step h h' \<Longrightarrow> hub_reach h'"

lemma set_var_ok: "links_acyclic h \<Longrightarrow> links_acyclic (set_var v c s h)"
  by (rule links_acyclic_frame) simp_all

lemma settle_in_ok: "links_acyclic h \<Longrightarrow> links_acyclic (settle_in c owner v gone prev h)"
  using here_frame(5) set_var_ok by (auto simp: settle_in_def split: prod.splits)

lemma take_down_total:
  assumes "links_acyclic h"
  shows "\<exists>b h'. take_down v token installed prev owner lent c h = Some (b, h') \<and> links_acyclic h'"
proof (cases "fst token = c")
  case True
  then have "take_down v token installed prev owner lent c h = Some (False, set_var v c (snd token) h)"
    by (simp add: take_down_def)
  then show ?thesis using assms set_var_ok by blast
next
  case False
  define h1 where "h1 = (if hb_vars h v c = Some installed then set_var v c (Some prev) h else h)"
  have "links_acyclic h1" using assms set_var_ok by (simp add: h1_def)
  then obtain h2 where h2: "retire installed prev owner h1 = Some h2" "links_acyclic h2"
    using retire_total by blast
  then have "take_down v token installed prev owner lent c h =
      Some (True, case lent of None \<Rightarrow> h2 | Some o' \<Rightarrow> settle_in o' owner v installed prev h2)"
    using False by (simp add: take_down_def Let_def h1_def [symmetric])
  with h2(2) show ?thesis by (auto simp: settle_in_ok split: option.splits)
qed

lemma restore_total:
  assumes "links_acyclic h"
  shows "\<exists>h'. restore_scope c prev fork h = Some h' \<and> links_acyclic h'"
proof -
  obtain m h1 where m: "here c h = (m, h1)" by (cases "here c h")
  show ?thesis
    using retire_total [OF here_frame(5) [OF m assms], of fork prev m] assms m
    by (auto simp: restore_scope_def set_var_ok)
qed

lemma copy_context_ok: "links_acyclic h \<Longrightarrow> links_acyclic (copy_context c c' h)"
  by (rule links_acyclic_frame) (simp_all add: copy_context_def)

lemma write_ok:
  assumes "links_acyclic h"
  shows "links_acyclic (h\<lparr>hb_heap := (hb_heap h)(s := map_option (hs_value_update f) (hb_heap h s))\<rparr>)"
proof -
  let ?h = "h\<lparr>hb_heap := (hb_heap h)(s := map_option (hs_value_update f) (hb_heap h s))\<rparr>"
  have "links ?h m = links h m" for m
    by (cases "hb_heap h s") (auto simp: links_def link_def split: option.splits if_splits)
  moreover have "dom (hb_heap ?h) = dom (hb_heap h)"
    by (auto simp: dom_def)
  ultimately show ?thesis using assms unfolding links_acyclic_def by simp
qed

lemma hub_step_ok: "hub_step h h' \<Longrightarrow> links_acyclic h \<Longrightarrow> links_acyclic h'"
proof (induction rule: hub_step.induct)
  case (hs_read v c h s h')
  then show ?case using get_scope_total [of h v c] by auto
next
  case (hs_retire fork prev owner h h')
  then show ?case using retire_total [of h fork prev owner] by auto
next
  case (hs_take_down v token installed prev owner lent c h b h')
  then show ?case using take_down_total [of h v token installed prev owner lent c] by auto
next
  case (hs_restore c prev fork h h')
  then show ?case using restore_total [of h c prev fork] by auto
next
  case (hs_new h x)
  then show ?case using new_scope_object_ok [of h x] by (cases "new_scope_object x h") auto
next
  case (hs_here h c)
  then show ?case using here_frame(5) [of c h] by (cases "here c h") auto
qed (simp_all add: copy_context_ok set_var_ok write_ok)

lemma fresh_hub_ok: "links_acyclic fresh_hub"
  by (simp add: fresh_hub_def links_acyclic_def links_def link_def acyclic_def)

lemma hub_reach_ok: "hub_reach h \<Longrightarrow> links_acyclic h"
  by (induction rule: hub_reach.induct) (blast intro: hub_step_ok fresh_hub_ok)+

section \<open>Properties\<close>

text \<open>C33: every scope read and every way a block can end returns. In any hub reached
  by reads, forks, context copies, writes and retirements in any order, the loops of
  \<open>retire\<close> and \<open>_settled\<close> end: no sequence of abandoned blocks can tie scopes into
  a ring that a later read would follow for ever.\<close>

theorem hub_operations_return:
  assumes "hub_reach h"
  shows "get_scope v c h \<noteq> None \<and> retire fork prev owner h \<noteq> None \<and>
     take_down v token installed prev owner lent c h \<noteq> None \<and> restore_scope c prev fork h \<noteq> None"
  using get_scope_total [OF hub_reach_ok [OF assms], of v c]
    retire_total [OF hub_reach_ok [OF assms], of fork prev owner]
    take_down_total [OF hub_reach_ok [OF assms], of v token installed prev owner lent c]
    restore_total [OF hub_reach_ok [OF assms], of c prev fork]
  by auto

theorem hub_operations_return_witness:
  "get_scope CURRENT 3 (snd (here 3 fresh_hub)) \<noteq> None"
  using hub_operations_return [OF hr_step [OF hr_start hs_here]] by blast

text \<open>A retired scope is read as its replacement at home and nowhere else. After
  the block of \<open>fork\<close>, installed by Context \<open>c\<close>, was retired to \<open>prev\<close>, a read in \<open>c\<close>
  of a variable that still holds \<open>fork\<close> gives the scope \<open>prev\<close> stands for, past every
  scope \<open>c\<close> retired before; a read in any other Context, such as a task started inside
  the block, still gives \<open>fork\<close>.\<close>

theorem retired_scope_read:
  assumes "hub_reach h" "hb_here h c = Some m" "hb_token h m = Some c"
    "hb_heap h fork \<noteq> None" "retire fork prev m h = Some h'" "past_retired h m prev = Some p" "p \<noteq> fork"
    "hb_vars h v d = Some fork"
  shows "map_option fst (get_scope v d h') = Some (if d = c then p else fork)"
proof -
  have ok: "links_acyclic h" using assms(1) by (rule hub_reach_ok)
  have h': "hb_heap h' = (hb_heap h)(fork := map_option (\<lambda>x. x\<lparr>hs_retired := Some (p, m)\<rparr>) (hb_heap h fork))"
    "hb_vars h' = hb_vars h" "hb_here h' = hb_here h" "hb_token h' = hb_token h"
    "hb_next_marker h' = hb_next_marker h"
    using assms(5,6,7) by (auto simp: retire_def)
  have lf: "link h' fork = Some (p, m)" using assms(4) by (auto simp: link_def h'(1))
  have lp: "\<forall>b. link h' p \<noteq> Some (b, m)"
    using past_retired_total [OF ok, of m prev] assms(6,7) by (auto simp: link_def h'(1))
  obtain n h1 where n: "here d h' = (n, h1)" by (cases "here d h'")
  have l1: "link h1 = link h'" by (rule link_heap [OF here_frame(1) [OF n]])
  have "n = m \<longleftrightarrow> d = c"
    using n assms(2,3) ok h' by (auto simp: here_def links_acyclic_def split: option.splits if_splits)
  moreover have "settle_loop v d m p (set_var v d (Some p) h1) = Some (p, set_var v d (Some p) h1)"
    using lp by (subst settle_loop.simps)
      (auto simp: link_heap [of "set_var v d (Some p) h1" h1] l1 split: option.splits)
  ultimately have "map_option fst (settle_loop v d n fork h1) = Some (if d = c then p else fork)"
    by (subst settle_loop.simps) (auto simp: l1 lf)
  then show ?thesis
    using assms(8) by (simp add: get_scope_def settled_def h' lf n)
qed

definition sample_hub :: hub where
  "sample_hub = copy_context 0 9 (set_var CURRENT 0 (Some 1) (snd (new_scope_object empty_scope
     (set_var CURRENT 0 (Some 0) (snd (new_scope_object empty_scope (snd (here 0 fresh_hub))))))))"

lemma sample_hub_reach: "hub_reach sample_hub"
  unfolding sample_hub_def
  by (intro hr_step [OF _ hs_copy] hr_step [OF _ hs_set] hr_step [OF _ hs_new] hr_step [OF _ hs_here] hr_start)

lemma sample_hub_facts:
  "hb_here sample_hub 0 = Some 0" "hb_token sample_hub 0 = Some 0" "hb_heap sample_hub 1 \<noteq> None"
  "hb_vars sample_hub CURRENT 9 = Some 1" "past_retired sample_hub 0 0 = Some 0"
  by (simp_all add: sample_hub_def copy_context_def set_var_def new_scope_object_def here_def
      fresh_hub_def past_retired.simps link_def)

theorem retired_scope_read_witness:
  "map_option fst (get_scope CURRENT 9 (the (retire 1 0 0 sample_hub))) = Some 1"
proof -
  obtain h' where h': "retire 1 0 0 sample_hub = Some h'" by (simp add: retire_def sample_hub_facts)
  show ?thesis
    using retired_scope_read [OF sample_hub_reach sample_hub_facts(1,2,3) h' sample_hub_facts(5) _
        sample_hub_facts(4)] h' by simp
qed

text \<open>The two narrow merges agree with the full one. The propagation fields and the
  tags and user that the hot paths read are those of \<open>merge_scopes\<close>, and a tag resolves
  to the innermost layer that sets it.\<close>

theorem narrow_merges_agree:
  assumes "distinct (map fst (so_tags isolation))" "distinct (map fst (so_tags current))"
  shows "merged_trace_fields global isolation current =
      (so_active_span_context (merge_scopes global isolation current),
       so_tracestate (merge_scopes global isolation current)) \<and>
    merged_tags_and_user global isolation current =
      (so_tags (merge_scopes global isolation current), so_user (merge_scopes global isolation current)) \<and>
    map_of (so_tags (merge_scopes global isolation current)) k =
      (case map_of (so_tags current) k of Some v \<Rightarrow> Some v
       | None \<Rightarrow> (case map_of (so_tags isolation) k of Some v \<Rightarrow> Some v | None \<Rightarrow> map_of (so_tags global) k))"
  using assms
  by (auto simp: merged_trace_fields_def merged_tags_and_user_def merge_scopes_def merge_layer_def
      clone_def map_of_dict_update map_of_rev_distinct split: option.splits)

theorem narrow_merges_agree_witness:
  "merged_trace_fields empty_scope (empty_scope\<lparr>so_tracestate := Some [97]\<rparr>) empty_scope = (None, Some [97])"
  using narrow_merges_agree [of "empty_scope\<lparr>so_tracestate := Some [97]\<rparr>" empty_scope empty_scope "[]"]
  by (simp add: empty_scope_def merge_scopes_def merge_layer_def clone_def later_def)

end
