(* ===== verification/Buffer.thy ===== *)
theory Buffer
  imports Scope
begin

text \<open>
  What the client keeps and weighs: a finished span as far as its weight and its
  stamping need it, \<open>span_buffer_bytes\<close> and \<open>_value_bytes\<close> of \<open>_types.py\<close>, the
  \<open>_SpanBuffer\<close> of \<open>_client.py\<close> (a deque and its byte total in one object), and
  \<open>_stamp_scope\<close>.

  A Python value is what its exact type lets the weighing read: a string by its
  code points, bytes by their number, a memory view by its size unless released, a
  builtin collection by its items. A value of any other type reads as nothing.
\<close>

section \<open>Weighing a span\<close>

datatype py_value =
    V_str py_text
  | V_bytes nat
  | V_bytearray nat
  | V_memoryview "nat option"
  | V_collection "py_value list"
  | V_dict "(py_value \<times> py_value) list"
  | V_number
  | V_other nat

definition SPAN_OVERHEAD_BYTES :: nat where "SPAN_OVERHEAD_BYTES = 512"
definition COUNTED_ITEMS :: nat where "COUNTED_ITEMS = 1024"

fun nested_bytes :: "py_value \<Rightarrow> nat" where
  "nested_bytes (V_str t) = length t"
| "nested_bytes (V_bytes n) = n"
| "nested_bytes (V_bytearray n) = n"
| "nested_bytes (V_memoryview n) = (case n of None \<Rightarrow> 0 | Some k \<Rightarrow> k)"
| "nested_bytes _ = 0"

fun value_bytes :: "py_value \<Rightarrow> nat" where
  "value_bytes (V_collection items) = sum_list (map nested_bytes (take COUNTED_ITEMS items))"
| "value_bytes (V_dict pairs) =
     sum_list (map (\<lambda>(k, v). nested_bytes k + nested_bytes v) (take COUNTED_ITEMS pairs))"
| "value_bytes v = nested_bytes v"

text \<open>\<open>InternalSpan\<close>: the fields the weight and the stamping read. The typed blocks are
  present only when they are exactly the declared type.\<close>

record span =
  sp_id :: nat
  sp_name :: py_value
  sp_status_message :: py_value
  sp_input_data :: nat
  sp_output_data :: nat
  sp_extra :: "(py_value \<times> py_value) list"
  sp_events :: "(py_value \<times> (py_value \<times> py_value) list) list"
  sp_system_instructions :: "py_value option"
  sp_retrieval :: "(py_value \<times> py_value) option"

definition pair_bytes :: "py_value \<times> py_value \<Rightarrow> nat" where
  "pair_bytes p = value_bytes (fst p) + value_bytes (snd p)"

definition span_size :: "span \<Rightarrow> int" where
  "span_size s = int (SPAN_OVERHEAD_BYTES + sp_input_data s + sp_output_data s
     + value_bytes (sp_name s) + value_bytes (sp_status_message s)
     + sum_list (map pair_bytes (sp_extra s))
     + sum_list (map (\<lambda>(name, attrs). value_bytes name + sum_list (map pair_bytes attrs)) (sp_events s))
     + (case sp_system_instructions s of None \<Rightarrow> 0 | Some v \<Rightarrow> value_bytes v)
     + (case sp_retrieval s of None \<Rightarrow> 0 | Some (documents, query) \<Rightarrow> value_bytes documents + value_bytes query))"

lemma span_size_pos: "0 < span_size s"
  by (simp add: span_size_def SPAN_OVERHEAD_BYTES_def)

section \<open>Stamping\<close>

fun new_pairs :: "py_value list \<Rightarrow> (py_value \<times> py_value) list \<Rightarrow> (py_value \<times> py_value) list" where
  "new_pairs taken [] = []"
| "new_pairs taken ((key, v) # rest) =
     (if key \<in> set taken then new_pairs taken rest else (key, v) # new_pairs (key # taken) rest)"

definition user_pairs :: "user_info \<Rightarrow> (py_value \<times> py_value) list" where
  "user_pairs u =
     concat (map (\<lambda>(key, field). case field of None \<Rightarrow> [] | Some v \<Rightarrow> [(V_str (str_lit key), V_str v)])
       [(''user.id'', us_id u), (''user.email'', us_email u), (''user.name'', us_username u),
        (''client.address'', us_ip_address u)])"

definition stamp_scope :: "tags \<times> user_info option \<Rightarrow> span \<Rightarrow> span" where
  "stamp_scope merged s =
     (case merged of (tags, user) \<Rightarrow>
        if tags = [] \<and> user = None then s
        else
          (let additions = new_pairs (map fst (sp_extra s))
                 (map (\<lambda>(k, v). (V_str k, V_str v)) tags
                  @ (case user of None \<Rightarrow> [] | Some u \<Rightarrow> user_pairs u))
           in if additions = [] then s else s\<lparr>sp_extra := sp_extra s @ additions\<rparr>))"

section \<open>The buffer\<close>

record span_buffer =
  sb_spans :: "span list"
  sb_bytes :: int

definition empty_buffer :: span_buffer where
  "empty_buffer = \<lparr>sb_spans = [], sb_bytes = 0\<rparr>"

definition evict_oldest :: "span_buffer \<Rightarrow> span \<times> span_buffer" where
  "evict_oldest b = (hd (sb_spans b),
     b\<lparr>sb_spans := tl (sb_spans b), sb_bytes := sb_bytes b - span_size (hd (sb_spans b))\<rparr>)"

definition buffer_append :: "span \<Rightarrow> int \<Rightarrow> span_buffer \<Rightarrow> span_buffer" where
  "buffer_append s sz b = b\<lparr>sb_spans := sb_spans b @ [s], sb_bytes := sb_bytes b + sz\<rparr>"

definition buffer_prepend :: "span \<Rightarrow> int \<Rightarrow> span_buffer \<Rightarrow> span_buffer" where
  "buffer_prepend s sz b = b\<lparr>sb_spans := s # sb_spans b, sb_bytes := sb_bytes b + sz\<rparr>"

definition weight :: "span list \<Rightarrow> int" where
  "weight ss = sum_list (map span_size ss)"

lemma weight_simps [simp]:
  "weight [] = 0" "weight (s # ss) = span_size s + weight ss" "weight (xs @ ys) = weight xs + weight ys"
  by (simp_all add: weight_def)

lemma weight_nonneg: "0 \<le> weight ss"
  using span_size_pos by (induction ss) (auto intro: add_nonneg_nonneg less_imp_le)

text \<open>The total and the deque agree, and the bounds hold up to one span: a buffer of a
  single span may exceed the byte bound, as the code accepts it.\<close>

definition buffer_ok :: "nat \<Rightarrow> int \<Rightarrow> span_buffer \<Rightarrow> bool" where
  "buffer_ok max_spans max_bytes b \<longleftrightarrow> sb_bytes b = weight (sb_spans b) \<and>
     length (sb_spans b) \<le> max 1 max_spans \<and>
     (sb_bytes b \<le> max_bytes \<or> length (sb_spans b) \<le> 1)"

lemma buffer_ok_empty [simp]: "buffer_ok m n empty_buffer"
  by (simp add: buffer_ok_def empty_buffer_def)

lemma new_pairs_fresh: "set (map fst (new_pairs taken ps)) \<inter> set taken = {} \<and> distinct (map fst (new_pairs taken ps))"
proof (induction taken ps rule: new_pairs.induct)
  case (2 taken key v rest)
  then show ?case by (cases "key \<in> set taken") auto
qed simp

lemma new_pairs_subset: "set (new_pairs taken ps) \<subseteq> set ps"
  by (induction taken ps rule: new_pairs.induct) auto

lemma new_pairs_first:
  "key \<notin> set taken \<Longrightarrow> map_of (new_pairs taken ps) key = map_of ps key"
  by (induction taken ps rule: new_pairs.induct) auto

section \<open>Properties\<close>

text \<open>Stamping adds and never overwrites. The span keeps every attribute it had, in
  front and in order; what the scope adds has keys the span did not carry, each once;
  a key the scope sets and the span does not carry is stamped with the tag's value, or
  with the user's field when no tag sets it; and nothing but the attributes changes.\<close>

theorem stamping_never_overwrites:
  "\<exists>added. stamp_scope (tags, user) s = s\<lparr>sp_extra := sp_extra s @ added\<rparr> \<and>
     distinct (map fst added) \<and> set (map fst added) \<inter> set (map fst (sp_extra s)) = {} \<and>
     (\<forall>key. key \<notin> set (map fst (sp_extra s)) \<longrightarrow>
        map_of added key = map_of (map (\<lambda>(k, v). (V_str k, V_str v)) tags
          @ (case user of None \<Rightarrow> [] | Some u \<Rightarrow> user_pairs u)) key)"
proof -
  let ?ps = "map (\<lambda>(k, v). (V_str k, V_str v)) tags @ (case user of None \<Rightarrow> [] | Some u \<Rightarrow> user_pairs u)"
  let ?added = "new_pairs (map fst (sp_extra s)) ?ps"
  have "stamp_scope (tags, user) s = s\<lparr>sp_extra := sp_extra s @ ?added\<rparr>"
    by (auto simp: stamp_scope_def Let_def)
  then show ?thesis
    using new_pairs_fresh [of "map fst (sp_extra s)" ?ps] new_pairs_first [of _ "map fst (sp_extra s)" ?ps]
    by (intro exI [of _ ?added]) blast
qed

definition bare_span :: "nat \<Rightarrow> nat \<Rightarrow> span" where
  "bare_span i n = \<lparr>sp_id = i, sp_name = V_str [], sp_status_message = V_str [], sp_input_data = n,
     sp_output_data = 0, sp_extra = [], sp_events = [], sp_system_instructions = None, sp_retrieval = None\<rparr>"

theorem stamping_never_overwrites_witness:
  "\<exists>added. stamp_scope ([([1], [2])], None) (bare_span 0 0) = (bare_span 0 0)\<lparr>sp_extra := added\<rparr> \<and>
     map_of added (V_str [1]) = Some (V_str [2])"
proof -
  have e: "sp_extra (bare_span 0 0) = []" by (simp add: bare_span_def)
  obtain added where "stamp_scope ([([1], [2])], None) (bare_span 0 0) = (bare_span 0 0)\<lparr>sp_extra := added\<rparr>"
    "map_of added (V_str [1]) = Some (V_str [2])"
    using stamping_never_overwrites [of "[([1], [2])]" None "bare_span 0 0"] unfolding e by auto
  then show ?thesis by blast
qed

end
