(* ===== verification/Finalize.thy ===== *)
theory Finalize
  imports Scope
begin

text \<open>
  The deferred-parse queue, \<open>_finalize.py\<close>.

  A sealed job is what the queue may ask of it: its size, the outcome of its full
  finalization and of its fallback for each marker. An outcome is a span, nothing
  (the gate refused) or an exception, which the surrounding \<open>guard\<close> swallows.

  What an operation does besides changing the queue is a list of events in the
  order the code produces them: spans handed to the client's \<open>_admit\<close> with their
  scope snapshot, counters bumped, backlog reports, swallowed exceptions, and the
  worker's wake-up. The callback takes no part of the queue's state, so running
  the events after the bookkeeping is what the code does outside its lock.

  The worker's loop is given both whole (\<open>run_pending\<close>) and as the two locked
  sections around a parse (\<open>take_job\<close>, \<open>finish_job\<close>), which other threads can
  interleave with. Clock readings are a function of how many were taken.
\<close>

datatype 'sp outcome = J_span 'sp | J_none | J_raise

record 'sp job =
  jb_size :: int
  jb_run :: "'sp outcome"
  jb_fallback :: "limitation \<Rightarrow> 'sp outcome"

type_synonym scope_snapshot = "tags \<times> user_info option"

record 'sp fq_entry =
  fe_job :: "'sp job"
  fe_scope :: scope_snapshot

datatype leftover = KEEP | FALLBACK

datatype 'sp event =
    E_admit string 'sp scope_snapshot
  | E_bump string
  | E_report nat
  | E_swallowed string
  | E_wake

record 'sp queue =
  fq_max_jobs :: nat
  fq_max_bytes :: int
  fq_entries :: "'sp fq_entry list"
  fq_bytes :: int
  fq_stopping :: bool
  fq_in_flight :: int
  fq_in_flight_pid :: "int option"

definition new_queue :: "nat \<Rightarrow> int \<Rightarrow> 'sp queue" where
  "new_queue max_jobs max_bytes =
     \<lparr>fq_max_jobs = max_jobs, fq_max_bytes = max_bytes, fq_entries = [], fq_bytes = 0,
      fq_stopping = False, fq_in_flight = 0, fq_in_flight_pid = None\<rparr>"

text \<open>\<open>with guard(label): span = ...; if span is not None: admit(span, scope)\<close>.\<close>

definition admit_outcome :: "string \<Rightarrow> scope_snapshot \<Rightarrow> 'sp outcome \<Rightarrow> 'sp event list" where
  "admit_outcome label scope r =
     (case r of J_span s \<Rightarrow> [E_admit label s scope] | J_none \<Rightarrow> [] | J_raise \<Rightarrow> [E_swallowed label])"

definition fallback_now :: "'sp fq_entry \<Rightarrow> limitation \<Rightarrow> 'sp event list" where
  "fallback_now e marker =
     admit_outcome ''client.finalize.fallback'' (fe_scope e) (jb_fallback (fe_job e) marker)"

definition run_one :: "'sp fq_entry \<Rightarrow> 'sp event list" where
  "run_one e = admit_outcome ''client.finalize.run'' (fe_scope e) (jb_run (fe_job e))"

definition report_backlog :: "nat \<Rightarrow> 'sp event list" where
  "report_backlog count = [E_report count]"

text \<open>The eviction loop of \<open>submit\<close>: the evicted entries and the state left.\<close>

fun evict_loop ::
  "nat \<Rightarrow> int \<Rightarrow> int \<Rightarrow> 'sp fq_entry list \<Rightarrow> int \<Rightarrow> 'sp fq_entry list \<times> 'sp fq_entry list \<times> int" where
  "evict_loop max_jobs max_bytes sz [] bytes = ([], [], bytes)"
| "evict_loop max_jobs max_bytes sz (old # rest) bytes =
     (if max_jobs \<le> length (old # rest) \<or> max_bytes < bytes + sz
      then (case evict_loop max_jobs max_bytes sz rest (bytes - jb_size (fe_job old)) of
              (evicted, kept, b) \<Rightarrow> (old # evicted, kept, b))
      else ([], old # rest, bytes))"

definition submit :: "'sp job \<Rightarrow> scope_snapshot \<Rightarrow> 'sp queue \<Rightarrow> 'sp event list \<times> 'sp queue" where
  "submit job scope q =
     (let sz = jb_size job; new = \<lparr>fe_job = job, fe_scope = scope\<rparr> in
      if fq_max_bytes q < sz then
        (E_bump ''client.finalize.backlog_evicted'' # report_backlog 1 @ fallback_now new PARSE_BACKLOG_FULL, q)
      else
        (case evict_loop (fq_max_jobs q) (fq_max_bytes q) sz (fq_entries q) (fq_bytes q) of
           (evicted, kept, b) \<Rightarrow>
             (map (\<lambda>_. E_bump ''client.finalize.backlog_evicted'') evicted
              @ (if evicted = [] then [] else report_backlog (length evicted))
              @ concat (map (\<lambda>old. fallback_now old PARSE_BACKLOG_FULL) evicted)
              @ [E_wake],
              q\<lparr>fq_entries := kept @ [new], fq_bytes := b + sz\<rparr>)))"

text \<open>\<open>ensure_alive\<close> and the head of \<open>drain_all\<close>: an in-flight count of another
  process is not one here.\<close>

definition own_in_flight :: "int \<Rightarrow> 'sp queue \<Rightarrow> 'sp queue" where
  "own_in_flight pid q =
     (if fq_in_flight_pid q \<noteq> None \<and> fq_in_flight_pid q \<noteq> Some pid
      then q\<lparr>fq_in_flight := 0, fq_in_flight_pid := None\<rparr> else q)"

definition pop_entry :: "'sp queue \<Rightarrow> ('sp fq_entry \<times> 'sp queue) option" where
  "pop_entry q = (case fq_entries q of [] \<Rightarrow> None
     | e # rest \<Rightarrow> Some (e, q\<lparr>fq_entries := rest, fq_bytes := fq_bytes q - jb_size (fe_job e)\<rparr>))"

text \<open>The worker: \<open>None\<close> is its \<open>return\<close>.\<close>

definition take_job :: "int \<Rightarrow> 'sp queue \<Rightarrow> ('sp fq_entry \<times> 'sp queue) option" where
  "take_job pid q =
     (if fq_stopping q then None
      else case pop_entry q of None \<Rightarrow> None
           | Some (e, q1) \<Rightarrow> Some (e, q1\<lparr>fq_in_flight := fq_in_flight q1 + 1, fq_in_flight_pid := Some pid\<rparr>))"

definition finish_job :: "'sp queue \<Rightarrow> 'sp queue" where
  "finish_job q =
     q\<lparr>fq_in_flight := fq_in_flight q - 1,
       fq_in_flight_pid := (if fq_in_flight q - 1 = 0 then None else fq_in_flight_pid q)\<rparr>"

lemma pop_entry_shorter: "pop_entry q = Some (e, q') \<Longrightarrow> length (fq_entries q') < length (fq_entries q)"
  by (auto simp: pop_entry_def split: list.splits)

function run_pending :: "int \<Rightarrow> 'sp queue \<Rightarrow> 'sp event list \<times> 'sp queue" where
  "run_pending pid q = (case take_job pid q of None \<Rightarrow> ([], q)
     | Some (e, q1) \<Rightarrow>
         (case run_pending pid (finish_job q1) of (events, q2) \<Rightarrow> (run_one e @ events, q2)))"
  by auto
termination
  by (relation "measure (\<lambda>(pid, q). length (fq_entries q))")
    (auto simp: take_job_def finish_job_def dest: pop_entry_shorter split: if_splits option.splits)

declare run_pending.simps [simp del]

text \<open>\<open>drain_all\<close>: the parse loop up to the deadline, the fallback loop, the count of
  jobs finished. \<open>clock i\<close> is the reading before the \<open>i\<close>-th job. The timed wait for the
  worker's job at the end changes nothing here.\<close>

fun parse_until ::
  "rat option \<Rightarrow> (nat \<Rightarrow> rat) \<Rightarrow> nat \<Rightarrow> 'sp fq_entry list \<Rightarrow> int \<Rightarrow> 'sp event list \<times> 'sp fq_entry list \<times> int \<times> nat"
where
  "parse_until deadline clock i [] bytes = ([], [], bytes, i)"
| "parse_until deadline clock i (e # rest) bytes =
     (if (case deadline of None \<Rightarrow> False | Some d \<Rightarrow> d \<le> clock i) then ([], e # rest, bytes, i)
      else (case parse_until deadline clock (Suc i) rest (bytes - jb_size (fe_job e)) of
              (events, left, b, n) \<Rightarrow> (run_one e @ events, left, b, n)))"

fun fallback_all :: "'sp fq_entry list \<Rightarrow> int \<Rightarrow> 'sp event list \<times> int" where
  "fallback_all [] bytes = ([], bytes)"
| "fallback_all (e # rest) bytes =
     (case fallback_all rest (bytes - jb_size (fe_job e)) of
        (events, b) \<Rightarrow>
          (E_bump ''client.finalize.shutdown_fallback'' # fallback_now e PARSE_SKIPPED_AT_SHUTDOWN @ events, b))"

definition drain_all ::
  "int \<Rightarrow> rat option \<Rightarrow> (nat \<Rightarrow> rat) \<Rightarrow> leftover \<Rightarrow> 'sp queue \<Rightarrow> nat \<times> 'sp event list \<times> 'sp queue" where
  "drain_all pid deadline clock leftover q =
     (let q1 = own_in_flight pid q in
      case parse_until deadline clock 0 (fq_entries q1) (fq_bytes q1) of
        (events, left, b, finished) \<Rightarrow>
          (case leftover of
             KEEP \<Rightarrow> (finished, events, q1\<lparr>fq_entries := left, fq_bytes := b\<rparr>)
           | FALLBACK \<Rightarrow>
               (case fallback_all left b of
                  (events', b') \<Rightarrow>
                    (finished + length left, events @ events', q1\<lparr>fq_entries := [], fq_bytes := b'\<rparr>))))"

definition stop_queue :: "'sp queue \<Rightarrow> 'sp queue" where
  "stop_queue q = q\<lparr>fq_stopping := True\<rparr>"

definition pending :: "'sp queue \<Rightarrow> nat" where "pending q = length (fq_entries q)"
definition pending_bytes :: "'sp queue \<Rightarrow> int" where "pending_bytes q = fq_bytes q"

definition queue_at_fork_reinit :: "'sp queue \<Rightarrow> 'sp queue" where
  "queue_at_fork_reinit q =
     q\<lparr>fq_entries := [], fq_bytes := 0, fq_in_flight := 0, fq_in_flight_pid := None\<rparr>"

section \<open>Invariant\<close>

definition sizes :: "'sp fq_entry list \<Rightarrow> int" where
  "sizes es = sum_list (map (jb_size \<circ> fe_job) es)"

lemma sizes_simps [simp]:
  "sizes [] = 0" "sizes (e # es) = jb_size (fe_job e) + sizes es" "sizes (xs @ ys) = sizes xs + sizes ys"
  by (simp_all add: sizes_def)

definition queue_ok :: "'sp queue \<Rightarrow> bool" where
  "queue_ok q \<longleftrightarrow> fq_bytes q = sizes (fq_entries q) \<and> fq_bytes q \<le> fq_max_bytes q \<and>
     0 \<le> fq_max_bytes q \<and> length (fq_entries q) \<le> max 1 (fq_max_jobs q) \<and>
     (\<forall>e \<in> set (fq_entries q). 0 \<le> jb_size (fe_job e))"

lemma sizes_nonneg: "\<forall>e \<in> set es. 0 \<le> jb_size (fe_job e) \<Longrightarrow> 0 \<le> sizes es"
  by (induction es) auto

lemma evict_loop_split:
  "evict_loop mj mb sz es b = (evicted, kept, b') \<Longrightarrow>
   es = evicted @ kept \<and> b' = b - sizes evicted \<and>
   (kept = [] \<or> length kept < mj \<and> b' + sz \<le> mb) \<and>
   (\<forall>i < length evicted. mj \<le> length (drop i es) \<or> mb < b - sizes (take i es) + sz)"
proof (induction mj mb sz es b arbitrary: evicted kept b' rule: evict_loop.induct)
  case (2 mj mb sz old rest b)
  show ?case
  proof (cases "mj \<le> length (old # rest) \<or> mb < b + sz")
    case True
    then obtain ev where e: "evicted = old # ev"
      "evict_loop mj mb sz rest (b - jb_size (fe_job old)) = (ev, kept, b')"
      using "2.prems" by (auto split: prod.splits)
    note ih = "2.IH" [OF True e(2)]
    have "mj \<le> length (drop i (old # rest)) \<or> mb < b - sizes (take i (old # rest)) + sz"
      if "i < length evicted" for i
      using that True ih e(1) by (cases i) (auto simp: algebra_simps)
    with ih e(1) show ?thesis by auto
  next
    case False
    with "2.prems" show ?thesis by auto
  qed
qed auto

lemma queue_ok_submit:
  assumes "queue_ok q" "0 \<le> jb_size job"
  shows "queue_ok (snd (submit job scope q))"
proof (cases "fq_max_bytes q < jb_size job")
  case True
  then show ?thesis using assms by (simp add: submit_def Let_def)
next
  case False
  obtain ev kept b where l: "evict_loop (fq_max_jobs q) (fq_max_bytes q) (jb_size job) (fq_entries q) (fq_bytes q)
      = (ev, kept, b)" by (metis prod_cases3)
  note s = evict_loop_split [OF l]
  have q': "snd (submit job scope q) = q\<lparr>fq_entries := kept @ [\<lparr>fe_job = job, fe_scope = scope\<rparr>],
      fq_bytes := b + jb_size job\<rparr>"
    using False l by (simp add: submit_def Let_def)
  have "b = sizes kept" using s assms(1) by (simp add: queue_ok_def)
  with s False assms show ?thesis
    unfolding q' by (auto simp: queue_ok_def)
qed

lemma queue_ok_pop:
  assumes "queue_ok q" "pop_entry q = Some (e, q')"
  shows "queue_ok q'"
proof -
  obtain rest where r: "fq_entries q = e # rest" "q' = q\<lparr>fq_entries := rest, fq_bytes := fq_bytes q - jb_size (fe_job e)\<rparr>"
    using assms(2) by (auto simp: pop_entry_def split: list.splits)
  with assms(1) show ?thesis by (auto simp: queue_ok_def)
qed

lemma parse_until_split:
  "parse_until d clock i es b = (events, left, b', n) \<Longrightarrow>
   i \<le> n \<and> n \<le> i + length es \<and> left = drop (n - i) es \<and> b' = b - sizes (take (n - i) es) \<and>
   events = concat (map run_one (take (n - i) es)) \<and>
   (left \<noteq> [] \<longrightarrow> (\<exists>t. d = Some t \<and> t \<le> clock n)) \<and>
   (\<forall>j. i \<le> j \<and> j < n \<longrightarrow> (\<forall>t. d = Some t \<longrightarrow> clock j < t))"
proof (induction es arbitrary: i b events left b' n)
  case (Cons e es)
  show ?case
  proof (cases "case d of None \<Rightarrow> False | Some t \<Rightarrow> t \<le> clock i")
    case True
    with Cons.prems show ?thesis by (auto split: option.splits)
  next
    case False
    then obtain ev where r: "parse_until d clock (Suc i) es (b - jb_size (fe_job e)) = (ev, left, b', n)"
      "events = run_one e @ ev"
      using Cons.prems by (auto split: prod.splits option.splits)
    note c1 = Cons.IH [OF r(1)]
    note c2 = conjunct2 [OF c1] note c3 = conjunct2 [OF c2] note c4 = conjunct2 [OF c3]
    note c5 = conjunct2 [OF c4] note c6 = conjunct2 [OF c5]
    note ih = conjunct1 [OF c1] conjunct1 [OF c2] conjunct1 [OF c3] conjunct1 [OF c4] conjunct1 [OF c5]
    note ih2 = conjunct1 [OF c6] note ih3 = conjunct2 [OF c6]
    have n: "n - i = Suc (n - Suc i)" using ih(1) by simp
    have "clock j < t" if "i \<le> j" "j < n" "d = Some t" for j t
      using that False ih3 by (cases "j = i") (auto simp: not_le)
    then have "\<forall>j. i \<le> j \<and> j < n \<longrightarrow> (\<forall>t. d = Some t \<longrightarrow> clock j < t)" by blast
    moreover have "i \<le> n \<and> n \<le> i + length (e # es)" using ih(1,2) by simp
    moreover have "left = drop (n - i) (e # es)" "b' = b - sizes (take (n - i) (e # es))"
      "events = concat (map run_one (take (n - i) (e # es)))"
      unfolding n using ih(3-5) r(2) by simp_all
    ultimately show ?thesis using ih2 by blast
  qed
qed auto

lemma fallback_all_bytes: "snd (fallback_all es b) = b - sizes es"
  by (induction es arbitrary: b) (simp_all add: split_beta)

lemma fallback_all_events: "fst (fallback_all es b) =
  concat (map (\<lambda>e. E_bump ''client.finalize.shutdown_fallback'' # fallback_now e PARSE_SKIPPED_AT_SHUTDOWN) es)"
  by (induction es b rule: fallback_all.induct) (simp_all add: split_beta)

lemma queue_ok_own [simp]: "queue_ok (own_in_flight pid q) = queue_ok q"
  by (simp add: own_in_flight_def queue_ok_def)

lemma own_frame [simp]:
  "fq_entries (own_in_flight pid q) = fq_entries q" "fq_bytes (own_in_flight pid q) = fq_bytes q"
  "fq_max_jobs (own_in_flight pid q) = fq_max_jobs q" "fq_max_bytes (own_in_flight pid q) = fq_max_bytes q"
  by (simp_all add: own_in_flight_def)

lemma drain_all_eq:
  assumes "parse_until d clock 0 (fq_entries q) (fq_bytes q) = (ev, left, b, n)"
  shows "drain_all pid d clock KEEP q = (n, ev, (own_in_flight pid q)\<lparr>fq_entries := left, fq_bytes := b\<rparr>)"
    "drain_all pid d clock FALLBACK q =
      (n + length left, ev @ fst (fallback_all left b),
       (own_in_flight pid q)\<lparr>fq_entries := [], fq_bytes := snd (fallback_all left b)\<rparr>)"
  using assms by (simp_all add: drain_all_def Let_def split: prod.splits)

lemma sizes_take_le: "\<forall>e \<in> set es. 0 \<le> jb_size (fe_job e) \<Longrightarrow> 0 \<le> sizes (take n es)"
  by (intro sizes_nonneg) (auto dest: in_set_takeD)

lemma queue_ok_drain:
  assumes "queue_ok q"
  shows "queue_ok (snd (snd (drain_all pid d clock lo q)))"
proof -
  obtain ev left b n where p: "parse_until d clock 0 (fq_entries q) (fq_bytes q) = (ev, left, b, n)"
    by (metis prod_cases4)
  note s = parse_until_split [OF p]
  have sz: "sizes (fq_entries q) = sizes (take n (fq_entries q)) + sizes left"
    using s by (metis append_take_drop_id diff_zero sizes_simps(3))
  have "0 \<le> sizes (take n (fq_entries q))" using assms by (intro sizes_take_le) (simp add: queue_ok_def)
  with sz s assms show ?thesis
    by (cases lo) (auto simp: drain_all_eq [OF p] queue_ok_def fallback_all_bytes dest: in_set_dropD)
qed

text \<open>Every operation, the locked halves of the worker's loop included.\<close>

inductive queue_step :: "'sp queue \<Rightarrow> 'sp queue \<Rightarrow> bool" where
  qs_submit: "0 \<le> jb_size job \<Longrightarrow> queue_step q (snd (submit job scope q))"
| qs_alive: "queue_step q (own_in_flight pid q)"
| qs_take: "take_job pid q = Some (e, q') \<Longrightarrow> queue_step q q'"
| qs_finish: "queue_step q (finish_job q)"
| qs_pop: "pop_entry q = Some (e, q') \<Longrightarrow> queue_step q q'"
| qs_drain: "queue_step q (snd (snd (drain_all pid d clock lo q)))"
| qs_stop: "queue_step q (stop_queue q)"
| qs_fork: "queue_step q (queue_at_fork_reinit q)"

inductive queue_reach :: "'sp queue \<Rightarrow> bool" where
  qr_start: "0 \<le> max_bytes \<Longrightarrow> queue_reach (new_queue max_jobs max_bytes)"
| qr_step: "queue_reach q \<Longrightarrow> queue_step q q' \<Longrightarrow> queue_reach q'"

lemma queue_ok_take: "queue_ok q \<Longrightarrow> take_job pid q = Some (e, q') \<Longrightarrow> queue_ok q'"
  using queue_ok_pop [of q e] by (auto simp: take_job_def queue_ok_def split: if_splits option.splits)

lemma queue_reach_ok: "queue_reach q \<Longrightarrow> queue_ok q"
proof (induction rule: queue_reach.induct)
  case (qr_start max_bytes max_jobs)
  then show ?case by (simp add: new_queue_def queue_ok_def)
next
  case (qr_step q q')
  from qr_step(2,3) show ?case
    by (cases rule: queue_step.cases)
      (auto simp: queue_ok_submit queue_ok_drain intro: queue_ok_take queue_ok_pop,
       auto simp: queue_ok_def finish_job_def stop_queue_def queue_at_fork_reinit_def)
qed

section \<open>Properties\<close>

text \<open>Both bounds are literal. In every state of the queue, whatever submits, worker
  steps, drains and forks came before, the byte counter is the sum of the sizes of
  the jobs waiting, it is at most the byte bound, and no more jobs wait than the job
  bound allows (one, when the bound is zero).\<close>

theorem queue_within_bounds:
  assumes "queue_reach q"
  shows "pending_bytes q = sizes (fq_entries q) \<and> pending_bytes q \<le> fq_max_bytes q \<and>
    pending q \<le> max 1 (fq_max_jobs q)"
  using queue_reach_ok [OF assms] by (simp add: queue_ok_def pending_bytes_def pending_def)

definition sample_job :: "nat job" where
  "sample_job = \<lparr>jb_size = 3, jb_run = J_span 1, jb_fallback = (\<lambda>_. J_span 2)\<rparr>"

theorem queue_within_bounds_witness:
  "pending_bytes (snd (submit sample_job ([], None) (new_queue 1 5))) \<le> 5"
  using queue_within_bounds [OF qr_step [OF qr_start qs_submit], of 5 sample_job "([], None)" 1]
  by (simp add: sample_job_def submit_def new_queue_def)

text \<open>An overloaded queue never loses a job silently. A job larger than the byte
  bound leaves the queue as it was and is assembled at once without its parse.
  Otherwise the new job is appended, exactly as many of the oldest jobs leave as the
  bounds require, each of them is counted, all are reported once, each is assembled
  without its parse on the submitting thread in order, and the worker is woken.\<close>

theorem submit_loses_no_job:
  "let new = \<lparr>fe_job = job, fe_scope = scope\<rparr>; es = fq_entries q; (events, q') = submit job scope q in
   if fq_max_bytes q < jb_size job
   then q' = q \<and> events = [E_bump ''client.finalize.backlog_evicted'', E_report 1]
          @ fallback_now new PARSE_BACKLOG_FULL
   else (\<exists>n \<le> length es.
     fq_entries q' = drop n es @ [new] \<and>
     events = replicate n (E_bump ''client.finalize.backlog_evicted'') @ (if n = 0 then [] else [E_report n])
       @ concat (map (\<lambda>old. fallback_now old PARSE_BACKLOG_FULL) (take n es)) @ [E_wake] \<and>
     (n = length es \<or> length (drop n es) < fq_max_jobs q \<and>
        fq_bytes q - sizes (take n es) + jb_size job \<le> fq_max_bytes q) \<and>
     (\<forall>i < n. fq_max_jobs q \<le> length (drop i es) \<or>
        fq_max_bytes q < fq_bytes q - sizes (take i es) + jb_size job))"
proof (cases "fq_max_bytes q < jb_size job")
  case True
  then show ?thesis by (simp add: submit_def Let_def report_backlog_def)
next
  case False
  obtain ev kept b where l: "evict_loop (fq_max_jobs q) (fq_max_bytes q) (jb_size job) (fq_entries q) (fq_bytes q)
      = (ev, kept, b)" by (metis prod_cases3)
  note s = evict_loop_split [OF l]
  note s2 = conjunct2 [OF s] note s3 = conjunct2 [OF s2] note s4 = conjunct2 [OF s3]
  note es = conjunct1 [OF s]
  have r: "submit job scope q =
      (map (\<lambda>_. E_bump ''client.finalize.backlog_evicted'') ev
        @ (if ev = [] then [] else [E_report (length ev)])
        @ concat (map (\<lambda>old. fallback_now old PARSE_BACKLOG_FULL) ev) @ [E_wake],
       q\<lparr>fq_entries := kept @ [\<lparr>fe_job = job, fe_scope = scope\<rparr>], fq_bytes := b + jb_size job\<rparr>)"
    using False l by (simp add: submit_def Let_def report_backlog_def)
  have t: "take (length ev) (fq_entries q) = ev" "drop (length ev) (fq_entries q) = kept"
    "length ev \<le> length (fq_entries q)"
    by (simp_all add: es)
  have m: "length ev = length (fq_entries q) \<or> length kept < fq_max_jobs q \<and>
      fq_bytes q - sizes ev + jb_size job \<le> fq_max_bytes q"
    using conjunct1 [OF s3] conjunct1 [OF s2] es by auto
  show ?thesis
    unfolding Let_def r prod.case using False
    by (simp only: if_False, intro exI [of _ "length ev"] conjI)
      (use t m s4 in \<open>simp_all add: map_replicate_const\<close>)
qed

theorem submit_loses_no_job_witness:
  "submit sample_job ([], None) (new_queue 1 2) =
    ([E_bump ''client.finalize.backlog_evicted'', E_report 1, E_admit ''client.finalize.fallback'' 2 ([], None)], new_queue 1 2)"
  using submit_loses_no_job [of sample_job "([], None)" "new_queue 1 2"]
  by (cases "submit sample_job ([], None) (new_queue 1 2)")
    (simp add: sample_job_def new_queue_def fallback_now_def admit_outcome_def)

text \<open>What a drain leaves. It finishes the oldest jobs in order, with their parse,
  while the clock it reads before each is still short of the deadline, and counts
  them. \<open>KEEP\<close> leaves the rest queued in order; \<open>FALLBACK\<close> assembles each of them
  without its parse, marked and counted, and always returns with an empty queue.\<close>

theorem drain_finishes_in_order:
  assumes "queue_reach q"
  shows "\<exists>n \<le> pending q.
     (\<forall>j < n. \<forall>t. d = Some t \<longrightarrow> clock j < t) \<and>
     (n < pending q \<longrightarrow> (\<exists>t. d = Some t \<and> t \<le> clock n)) \<and>
     (case drain_all pid d clock lo q of (finished, events, q') \<Rightarrow>
       (case lo of
          KEEP \<Rightarrow> finished = n \<and> fq_entries q' = drop n (fq_entries q) \<and>
            events = concat (map run_one (take n (fq_entries q)))
        | FALLBACK \<Rightarrow> finished = pending q \<and> fq_entries q' = [] \<and> pending_bytes q' = 0 \<and>
            events = concat (map run_one (take n (fq_entries q)))
              @ concat (map (\<lambda>e. E_bump ''client.finalize.shutdown_fallback''
                    # fallback_now e PARSE_SKIPPED_AT_SHUTDOWN) (drop n (fq_entries q)))))"
proof -
  obtain ev left b n where p: "parse_until d clock 0 (fq_entries q) (fq_bytes q) = (ev, left, b, n)"
    by (metis prod_cases4)
  note c1 = parse_until_split [OF p]
  have ok: "fq_bytes q = sizes (fq_entries q)" using queue_reach_ok [OF assms] by (simp add: queue_ok_def)
  have sz: "sizes (fq_entries q) = sizes (take n (fq_entries q)) + sizes (drop n (fq_entries q))"
    by (metis append_take_drop_id sizes_simps(3))
  have f: "n \<le> pending q" "left = drop n (fq_entries q)" "b = fq_bytes q - sizes (take n (fq_entries q))"
    "ev = concat (map run_one (take n (fq_entries q)))"
    using c1 by (auto simp: pending_def)
  have A: "\<forall>j < n. \<forall>t. d = Some t \<longrightarrow> clock j < t" using c1 by blast
  have B: "n < pending q \<longrightarrow> (\<exists>t. d = Some t \<and> t \<le> clock n)" using c1 f(2) by (auto simp: pending_def)
  have C: "case drain_all pid d clock lo q of (finished, events, q') \<Rightarrow>
       (case lo of
          KEEP \<Rightarrow> finished = n \<and> fq_entries q' = drop n (fq_entries q) \<and>
            events = concat (map run_one (take n (fq_entries q)))
        | FALLBACK \<Rightarrow> finished = pending q \<and> fq_entries q' = [] \<and> pending_bytes q' = 0 \<and>
            events = concat (map run_one (take n (fq_entries q)))
              @ concat (map (\<lambda>e. E_bump ''client.finalize.shutdown_fallback''
                    # fallback_now e PARSE_SKIPPED_AT_SHUTDOWN) (drop n (fq_entries q))))"
    using f ok sz
    by (cases lo) (simp_all add: drain_all_eq [OF p] fallback_all_bytes fallback_all_events
        pending_bytes_def pending_def)
  show ?thesis by (rule exI [of _ n], intro conjI, rule f(1), rule A, rule B, rule C)
qed

definition sample_queue :: "nat queue" where
  "sample_queue = snd (submit sample_job ([], None) (new_queue 1 5))"

lemma sample_queue_reach: "queue_reach sample_queue"
  unfolding sample_queue_def by (rule qr_step [OF qr_start qs_submit]) (simp_all add: sample_job_def)

theorem drain_finishes_in_order_witness:
  "fq_entries (snd (snd (drain_all 7 (Some 2) (\<lambda>_. 3) FALLBACK sample_queue))) = []"
  using drain_finishes_in_order [OF sample_queue_reach, where d = "Some 2" and clock = "\<lambda>_. 3" and pid = 7
      and lo = FALLBACK]
  by (cases "drain_all 7 (Some 2) (\<lambda>_. 3) FALLBACK sample_queue") auto

end
