(* ===== verification/Worker.thy ===== *)
theory Worker
  imports Prelude
begin

text \<open>
  The background worker, \<open>_worker.py\<close>: one daemon thread per process, spawned on
  demand, woken, stopped and joined.

  The two callers of \<open>_spawn_locked\<close> hold the reentrant spawn lock, so another
  thread waits for a spawn to end, but code that re-enters on the same thread (a
  finalizer run by the allocation inside \<open>Thread(...)\<close>) does not. A spawn is
  therefore two steps: \<open>begin_spawn\<close>, up to the construction of the thread object,
  and \<open>end_spawn\<close>, from the second \<open>_stopped\<close> check on; anything can happen in
  between. \<open>Thread.start\<close> may raise (a limit on threads): \<open>wk_can_start\<close> says whether it would
  now, and \<open>refuse_spawn\<close> is what the raise leaves. A thread is a number with the process that started it; \<open>wk_live\<close> is the
  set of those started and not yet finished, in all processes.
\<close>

type_synonym pid = int

record worker =
  wk_wake :: bool
  wk_stopped :: bool
  wk_thread :: "nat option"
  wk_thread_for_pid :: "pid option"
  wk_spawning_pid :: "pid option"
  wk_live :: "(pid \<times> nat) list"
  wk_next :: nat
  wk_can_start :: bool

definition new_worker :: worker where
  "new_worker = \<lparr>wk_wake = False, wk_stopped = False, wk_thread = None, wk_thread_for_pid = None,
     wk_spawning_pid = None, wk_live = [], wk_next = 0,
     wk_can_start = True\<rparr>"

definition is_alive :: "pid \<Rightarrow> worker \<Rightarrow> bool" where
  "is_alive pid w = (case wk_thread w of None \<Rightarrow> False
     | Some t \<Rightarrow> wk_thread_for_pid w = Some pid \<and> (pid, t) \<in> set (wk_live w))"

definition spawn_in_flight :: "pid \<Rightarrow> worker \<Rightarrow> bool" where
  "spawn_in_flight pid w \<longleftrightarrow> wk_spawning_pid w = Some pid"

text \<open>\<open>_spawn_locked\<close> in its two steps.\<close>

definition begin_spawn :: "pid \<Rightarrow> worker \<Rightarrow> worker" where
  "begin_spawn pid w = (if wk_stopped w then w else w\<lparr>wk_spawning_pid := Some pid\<rparr>)"

definition end_spawn :: "pid \<Rightarrow> worker \<Rightarrow> worker" where
  "end_spawn pid w =
     (if wk_stopped w then w\<lparr>wk_spawning_pid := None\<rparr>
      else w\<lparr>wk_thread := Some (wk_next w), wk_thread_for_pid := Some pid,
             wk_live := (pid, wk_next w) # wk_live w, wk_next := wk_next w + 1,
             wk_spawning_pid := None\<rparr>)"

text \<open>\<open>thread.start()\<close> raised: the thread object is in its slot and never ran.\<close>

definition refuse_spawn :: "pid \<Rightarrow> worker \<Rightarrow> worker" where
  "refuse_spawn pid w =
     (if wk_stopped w then w\<lparr>wk_spawning_pid := None\<rparr>
      else w\<lparr>wk_thread := Some (wk_next w), wk_thread_for_pid := Some pid, wk_next := wk_next w + 1,
             wk_spawning_pid := None\<rparr>)"

text \<open>\<open>start\<close> and \<open>ensure_alive\<close> up to the construction: the state, and whether this
  frame is now spawning.\<close>

definition start :: "pid \<Rightarrow> worker \<Rightarrow> bool \<times> worker" where
  "start pid w =
     (if is_alive pid w \<or> spawn_in_flight pid w then (False, w)
      else (\<not> wk_stopped w, begin_spawn pid w))"

definition ensure_alive :: "pid \<Rightarrow> worker \<Rightarrow> bool \<times> worker" where
  "ensure_alive pid w =
     (if wk_stopped w \<or> is_alive pid w then (False, w)
      else if wk_stopped w \<or> is_alive pid w \<or> spawn_in_flight pid w then (False, w)
      else (\<not> wk_stopped w, begin_spawn pid w))"

text \<open>\<open>ensure_alive\<close> with nothing in between, and whether it raises.\<close>

definition ensure_alive_now :: "pid \<Rightarrow> worker \<Rightarrow> worker" where
  "ensure_alive_now pid w = (case ensure_alive pid w of (spawning, w1) \<Rightarrow>
     if \<not> spawning then w1 else if wk_can_start w then end_spawn pid w1 else refuse_spawn pid w1)"

definition ensure_alive_raises :: "pid \<Rightarrow> worker \<Rightarrow> bool" where
  "ensure_alive_raises pid w \<longleftrightarrow> fst (ensure_alive pid w) \<and> \<not> wk_can_start w"

definition wake :: "worker \<Rightarrow> worker" where
  "wake w = w\<lparr>wk_wake := True\<rparr>"

text \<open>\<open>stop\<close>: the thread to join, if any.\<close>

definition stop :: "pid \<Rightarrow> worker \<Rightarrow> nat option \<times> worker" where
  "stop pid w =
     (let w1 = w\<lparr>wk_stopped := True, wk_wake := True\<rparr>
      in (if is_alive pid w1 then wk_thread w1 else None, w1))"

text \<open>One pass of \<open>_run\<close> by thread \<open>t\<close>, after its wait: \<open>True\<close> when it drains. The
  loop survives whatever the drain raises and leaves only when stopped.\<close>

definition run_pass :: "pid \<Rightarrow> nat \<Rightarrow> worker \<Rightarrow> bool \<times> worker" where
  "run_pass pid t w =
     (let w1 = w\<lparr>wk_wake := False\<rparr>
      in if wk_stopped w1 then (False, w1\<lparr>wk_live := removeAll (pid, t) (wk_live w1)\<rparr>) else (True, w1))"

definition worker_at_fork_reinit :: "worker \<Rightarrow> worker" where
  "worker_at_fork_reinit w =
     w\<lparr>wk_wake := False, wk_thread := None, wk_thread_for_pid := None, wk_spawning_pid := None\<rparr>"

section \<open>Reachable workers\<close>

text \<open>A state with the frames that are inside a spawn: at most one per process, since
  the lock keeps other threads out and the marker keeps re-entering frames out. A
  thread may die at any time. A fork to a new process drops the parent's threads and
  frames; the reset hook may or may not run.\<close>

inductive worker_reach :: "pid \<Rightarrow> worker \<Rightarrow> bool" where
  wr_init: "worker_reach pid new_worker"
| wr_start: "worker_reach pid w \<Longrightarrow> worker_reach pid (snd (start pid w))"
| wr_ensure: "worker_reach pid w \<Longrightarrow> worker_reach pid (snd (ensure_alive pid w))"
| wr_end: "worker_reach pid w \<Longrightarrow> wk_spawning_pid w = Some pid \<Longrightarrow> worker_reach pid (end_spawn pid w)"
| wr_refused: "worker_reach pid w \<Longrightarrow> wk_spawning_pid w = Some pid \<Longrightarrow> worker_reach pid (refuse_spawn pid w)"
| wr_limit: "worker_reach pid w \<Longrightarrow> worker_reach pid (w\<lparr>wk_can_start := b\<rparr>)"
| wr_wake: "worker_reach pid w \<Longrightarrow> worker_reach pid (wake w)"
| wr_stop: "worker_reach pid w \<Longrightarrow> worker_reach pid (snd (stop pid w))"
| wr_pass: "worker_reach pid w \<Longrightarrow> worker_reach pid (snd (run_pass pid t w))"
| wr_death: "worker_reach pid w \<Longrightarrow> worker_reach pid (w\<lparr>wk_live := removeAll (pid, t) (wk_live w)\<rparr>)"
| wr_fork: "worker_reach pid w \<Longrightarrow> \<forall>(p, t) \<in> set (wk_live w). p \<noteq> child \<Longrightarrow>
     wk_spawning_pid w \<noteq> Some child \<Longrightarrow> wk_thread_for_pid w \<noteq> Some child \<Longrightarrow> worker_reach child w"
| wr_hook: "worker_reach pid w \<Longrightarrow> (\<forall>(p, t) \<in> set (wk_live w). p \<noteq> pid) \<Longrightarrow>
     worker_reach pid (worker_at_fork_reinit w)"

definition live_here :: "pid \<Rightarrow> worker \<Rightarrow> nat list" where
  "live_here pid w = map snd (filter (\<lambda>(p, t). p = pid) (wk_live w))"

lemma start_cases: "snd (start pid w) = w \<or>
    (snd (start pid w) = w\<lparr>wk_spawning_pid := Some pid\<rparr> \<and> \<not> is_alive pid w)"
  by (simp add: start_def begin_spawn_def)

lemma ensure_cases: "snd (ensure_alive pid w) = w \<or>
    (snd (ensure_alive pid w) = w\<lparr>wk_spawning_pid := Some pid\<rparr> \<and> \<not> is_alive pid w)"
  by (simp add: ensure_alive_def begin_spawn_def)

definition worker_ok :: "pid \<Rightarrow> worker \<Rightarrow> bool" where
  "worker_ok pid w \<longleftrightarrow>
     (\<forall>t. t \<in> set (live_here pid w) \<longrightarrow> wk_thread w = Some t \<and> wk_thread_for_pid w = Some pid) \<and>
     length (live_here pid w) \<le> 1 \<and> (wk_spawning_pid w = Some pid \<longrightarrow> live_here pid w = [])"

lemma live_here_simps [simp]:
  "live_here pid (w\<lparr>wk_spawning_pid := x\<rparr>) = live_here pid w"
  "live_here pid (w\<lparr>wk_wake := b\<rparr>) = live_here pid w"
  "live_here pid (w\<lparr>wk_stopped := b\<rparr>) = live_here pid w"
  "live_here pid (wake w) = live_here pid w"
  "live_here pid (w\<lparr>wk_can_start := b\<rparr>) = live_here pid w"
  "live_here pid (refuse_spawn pid' w) = live_here pid w"
  "live_here pid (worker_at_fork_reinit w) = live_here pid w"
  by (simp_all add: live_here_def wake_def worker_at_fork_reinit_def refuse_spawn_def)

lemma live_removed: "live_here pid (w\<lparr>wk_live := removeAll (pid, t) (wk_live w)\<rparr>) = removeAll t (live_here pid w)"
proof -
  have "map snd (filter (\<lambda>(p, t). p = pid) (removeAll (pid, t) xs)) =
      removeAll t (map snd (filter (\<lambda>(p, t). p = pid) xs))" for xs :: "(pid \<times> nat) list"
    by (induction xs) auto
  then show ?thesis by (simp add: live_here_def)
qed

lemma live_here_iff: "t \<in> set (live_here pid w) \<longleftrightarrow> (pid, t) \<in> set (wk_live w)"
  by (force simp: live_here_def)

lemma live_here_end:
  "live_here pid (end_spawn pid w) = (if wk_stopped w then live_here pid w else wk_next w # live_here pid w)"
  by (simp add: live_here_def end_spawn_def)

lemma not_alive_none:
  "worker_ok pid w \<Longrightarrow> \<not> is_alive pid w \<Longrightarrow> live_here pid w = []"
proof -
  assume ok: "worker_ok pid w" and n: "\<not> is_alive pid w"
  have "t \<notin> set (live_here pid w)" for t
  proof
    assume t: "t \<in> set (live_here pid w)"
    then have "wk_thread w = Some t" "wk_thread_for_pid w = Some pid" using ok unfolding worker_ok_def by blast+
    with n t show False by (simp add: is_alive_def live_here_iff)
  qed
  then show ?thesis by (metis last_in_set)
qed

lemma worker_ok_spawning:
  "worker_ok pid w \<Longrightarrow> \<not> is_alive pid w \<Longrightarrow> worker_ok pid (w\<lparr>wk_spawning_pid := Some pid\<rparr>)"
proof -
  assume "worker_ok pid w" "\<not> is_alive pid w"
  then have "live_here pid w = []" by (rule not_alive_none)
  then show ?thesis by (simp add: worker_ok_def)
qed

lemma worker_ok_removed:
  assumes "worker_ok pid w" "live_here pid w' = removeAll t (live_here pid w)" "wk_thread w' = wk_thread w"
    "wk_thread_for_pid w' = wk_thread_for_pid w" "wk_spawning_pid w' = wk_spawning_pid w"
  shows "worker_ok pid w'"
proof -
  have "length (live_here pid w') \<le> length (live_here pid w)" unfolding assms(2) by (rule length_removeAll_less_eq)
  moreover have "set (live_here pid w') \<subseteq> set (live_here pid w)" unfolding assms(2) by auto
  moreover have "live_here pid w = [] \<longrightarrow> live_here pid w' = []" unfolding assms(2) by simp
  ultimately show ?thesis using assms(1) unfolding worker_ok_def assms(3-5) by (meson le_trans subsetD)
qed

lemma worker_reach_ok: "worker_reach pid w \<Longrightarrow> worker_ok pid w"
proof (induction rule: worker_reach.induct)
  case (wr_init pid)
  then show ?case by (simp add: worker_ok_def new_worker_def live_here_def)
next
  case (wr_start pid w)
  then show ?case using start_cases [of pid w] worker_ok_spawning by metis
next
  case (wr_ensure pid w)
  then show ?case using ensure_cases [of pid w] worker_ok_spawning by metis
next
  case (wr_end pid w)
  then have "live_here pid w = []" by (simp add: worker_ok_def)
  then show ?case by (simp add: worker_ok_def live_here_end) (simp add: end_spawn_def)
next
  case (wr_refused pid w)
  then have "live_here pid w = []" by (simp add: worker_ok_def)
  moreover have "wk_spawning_pid (refuse_spawn pid w) = None" by (simp add: refuse_spawn_def)
  ultimately show ?case by (simp add: worker_ok_def)
next
  case (wr_pass pid w t)
  have f: "wk_thread (snd (run_pass pid t w)) = wk_thread w"
    "wk_thread_for_pid (snd (run_pass pid t w)) = wk_thread_for_pid w"
    "wk_spawning_pid (snd (run_pass pid t w)) = wk_spawning_pid w"
    by (simp_all add: run_pass_def Let_def)
  show ?case
  proof (cases "wk_stopped w")
    case True
    have "live_here pid (snd (run_pass pid t w)) = removeAll t (live_here pid w)"
      using True live_removed [of pid t "w\<lparr>wk_wake := False\<rparr>"] by (simp add: run_pass_def Let_def)
    from worker_ok_removed [OF wr_pass(2) this f] show ?thesis .
  next
    case False
    then have "live_here pid (snd (run_pass pid t w)) = live_here pid w" by (simp add: run_pass_def Let_def)
    then show ?thesis unfolding worker_ok_def f using wr_pass(2) [unfolded worker_ok_def] by metis
  qed
next
  case (wr_death pid w t)
  show ?case by (rule worker_ok_removed [OF wr_death(2) live_removed]) simp_all
next
  case (wr_fork pid w child)
  then have "live_here child w = []" by (auto simp: live_here_def filter_empty_conv)
  with wr_fork show ?case by (simp add: worker_ok_def)
next
  case (wr_hook pid w)
  then have "live_here pid w = []" by (auto simp: live_here_def filter_empty_conv)
  then show ?case by (simp add: worker_ok_def)
qed (auto simp: worker_ok_def wake_def stop_def Let_def)

section \<open>Properties\<close>

text \<open>One worker thread per process, whatever re-enters a spawn. In every reachable
  state at most one of the threads started in this process is running and it is the
  one the worker would join; a stopped worker never starts another, even when the
  stop lands inside a spawn; and an unstopped one that has no thread gets one from
  the next \<open>ensure_alive\<close> that can start one, unless this very process is already inside a spawn, so a
  fork child recovers whatever its parent was doing.\<close>

theorem one_worker_thread:
  assumes "worker_reach pid w"
  shows "length (live_here pid w) \<le> 1 \<and>
    (\<forall>t. t \<in> set (live_here pid w) \<longrightarrow> wk_thread w = Some t) \<and>
    (wk_stopped w \<longrightarrow> ensure_alive_now pid w = w \<and> wk_live (end_spawn pid w) = wk_live w \<and>
       \<not> fst (start pid w)) \<and>
    (\<not> wk_stopped w \<and> wk_can_start w \<and> wk_spawning_pid w \<noteq> Some pid \<longrightarrow> is_alive pid (ensure_alive_now pid w))"
  using worker_reach_ok [OF assms]
  by (auto simp: worker_ok_def ensure_alive_now_def ensure_alive_def begin_spawn_def end_spawn_def
      start_def spawn_in_flight_def is_alive_def)

theorem one_worker_thread_witness:
  "is_alive 8 (ensure_alive_now 8 (new_worker\<lparr>wk_spawning_pid := Some 7\<rparr>))"
proof -
  have "worker_reach 7 (snd (start 7 new_worker))" by (intro wr_start wr_init)
  then have "worker_reach 7 (new_worker\<lparr>wk_spawning_pid := Some 7\<rparr>)"
    by (simp add: start_def begin_spawn_def new_worker_def is_alive_def spawn_in_flight_def)
  then have "worker_reach 8 (new_worker\<lparr>wk_spawning_pid := Some 7\<rparr>)"
    by (rule wr_fork) (simp_all add: new_worker_def)
  then show ?thesis using one_worker_thread by (simp add: new_worker_def)
qed

end
