(* ===== verification/Client.thy ===== *)
theory Client
  imports Ledger_Delivery Buffer Finalize Worker
begin

text \<open>
  The client, \<open>_client.py\<close>: the buffer every capture path ends in, the drain that
  hands a batch to the transport and settles what became of it, and the shutdown.

  One record holds the client and the process state its methods touch: the drop
  ledger, the names of the counters bumped and of the lines reported once. What the
  code asks of others is an argument: the transport's word on an export, the host's
  \<open>before_send_envelope\<close>, the clock, whether the frame that holds the export slot
  lets go in time (\<open>outside\<close>). The buffer lock only brackets the statements written
  here as one step. \<open>report_once\<close> keys are a log of the keys said; the printing and
  the debug lines are left out.
\<close>

section \<open>Budgets\<close>

text \<open>What reaches \<open>flush\<close> and \<open>close\<close>: a float the application named, something
  \<open>float()\<close> refuses, or an \<open>_UnnamedTimeout\<close> with its two facts.\<close>

datatype timeout =
    T_named pyfloat
  | T_unusable
  | T_unnamed pyfloat bool bool

definition DEFAULT_TIMEOUT :: rat where "DEFAULT_TIMEOUT = 5"

definition FOLLOW_TRANSPORT_TIMEOUT :: timeout where
  "FOLLOW_TRANSPORT_TIMEOUT = T_unnamed (PFin DEFAULT_TIMEOUT) True False"

definition SHUTDOWN_TIMEOUT :: timeout where
  "SHUTDOWN_TIMEOUT = T_unnamed (PFin DEFAULT_TIMEOUT) False True"

text \<open>\<open>__reduce__\<close>: what \<open>copy\<close>, \<open>deepcopy\<close> and \<open>pickle\<close> rebuild.\<close>

definition rebuilt :: "timeout \<Rightarrow> timeout" where
  "rebuilt t = (case t of T_unnamed v ft fs \<Rightarrow> T_unnamed v ft fs | _ \<Rightarrow> t)"

definition named_by_caller :: "timeout \<Rightarrow> bool" where
  "named_by_caller t = (case t of T_unnamed _ _ _ \<Rightarrow> False | _ \<Rightarrow> True)"

text \<open>\<open>float(transport.export_timeout)\<close>, \<open>None\<close> where the read or the conversion raised.\<close>

definition configured_transport_timeout :: "rat \<Rightarrow> pyfloat option \<Rightarrow> pyfloat" where
  "configured_transport_timeout timeout_max read =
     (case read of
        None \<Rightarrow> PFin DEFAULT_TIMEOUT
      | Some configured \<Rightarrow>
          if is_nan configured \<or> pf_le configured (PFin 0) then PFin DEFAULT_TIMEOUT
          else py_min configured (PFin timeout_max))"

definition sanitize_timeout :: "rat \<Rightarrow> timeout \<Rightarrow> pyfloat" where
  "sanitize_timeout timeout_max t =
     (case (case t of T_named v \<Rightarrow> Some v | T_unnamed v _ _ \<Rightarrow> Some v | T_unusable \<Rightarrow> None) of
        None \<Rightarrow> PFin DEFAULT_TIMEOUT
      | Some v \<Rightarrow>
          if is_nan v then PFin DEFAULT_TIMEOUT
          else if pf_less v (PFin 0) then PFin 0
          else py_min v (PFin timeout_max))"

text \<open>\<open>_accepts_timeout\<close>: the parameters of \<open>export\<close>, \<open>None\<close> where no signature is readable.\<close>

datatype param_kind = POSITIONAL_ONLY | POSITIONAL_OR_KEYWORD | VAR_POSITIONAL | KEYWORD_ONLY | VAR_KEYWORD

definition accepts_timeout :: "(string \<times> param_kind) list option \<Rightarrow> bool" where
  "accepts_timeout signature =
     (case signature of
        None \<Rightarrow> False
      | Some params \<Rightarrow>
          list_ex (\<lambda>(name, kind). kind = VAR_KEYWORD \<or>
            name = ''timeout'' \<and> kind \<in> {POSITIONAL_OR_KEYWORD, KEYWORD_ONLY}) params)"

section \<open>State\<close>

type_synonym batch = "(span, nat) envelope"

record client =
  cl_max_buffer_spans :: nat
  cl_max_buffer_bytes :: int
  cl_flush_threshold :: nat
  cl_buffer :: span_buffer
  cl_snapshots :: "nat list"
  cl_dropped :: int
  cl_lost :: int
  cl_closed :: bool
  cl_finalize_drained :: bool
  cl_quiet_wake :: bool
  cl_mp_registered :: bool
  cl_export_owner :: "thread option"
  cl_export_depth :: nat
  cl_queue :: "span queue"
  cl_worker :: worker
  cl_finalize_worker :: worker
  cl_ledger :: ledger
  cl_counters :: counters
  cl_said :: "string list"

definition new_client :: "nat \<Rightarrow> int \<Rightarrow> nat \<Rightarrow> int \<Rightarrow> ledger \<Rightarrow> client" where
  "new_client max_spans max_bytes max_jobs max_job_bytes l =
     \<lparr>cl_max_buffer_spans = max_spans, cl_max_buffer_bytes = max_bytes,
      cl_flush_threshold = max 1 (max_spans div 4), cl_buffer = empty_buffer, cl_snapshots = [],
      cl_dropped = 0, cl_lost = 0, cl_closed = False, cl_finalize_drained = False,
      cl_quiet_wake = False, cl_mp_registered = False, cl_export_owner = None, cl_export_depth = 0,
      cl_queue = new_queue max_jobs max_job_bytes, cl_worker = new_worker,
      cl_finalize_worker = new_worker, cl_ledger = l, cl_counters = [], cl_said = []\<rparr>"

definition lose_item :: "thread \<Rightarrow> drop_reason \<Rightarrow> int \<Rightarrow> drop_unit option \<Rightarrow> client \<Rightarrow> client" where
  "lose_item me r n unit c =
     c\<lparr>cl_ledger := record_drop me (reason_value r) n unit None (cl_ledger c)\<rparr>"

definition bump :: "string \<Rightarrow> client \<Rightarrow> client" where
  "bump name c = c\<lparr>cl_counters := cl_counters c @ [name]\<rparr>"

definition say_once :: "string \<Rightarrow> client \<Rightarrow> client" where
  "say_once key c = (if key \<in> set (cl_said c) then c else c\<lparr>cl_said := cl_said c @ [key]\<rparr>)"

text \<open>\<open>guard.__exit__\<close> swallowing an exception at \<open>where\<close>.\<close>

definition swallow :: "thread \<Rightarrow> string \<Rightarrow> client \<Rightarrow> client" where
  "swallow me place c =
     (let c1 = bump place c
      in c1\<lparr>cl_ledger := record_drop me (reason_value R_INTERNAL_SDK_ERROR) 1 None (Some place) (cl_ledger c1)\<rparr>)"

section \<open>Capture\<close>

definition report_lost :: "thread \<Rightarrow> int \<Rightarrow> string \<Rightarrow> client \<Rightarrow> client" where
  "report_lost me n key c =
     (if n = 0 then c
      else say_once key (lose_item me R_SHUTDOWN_TAIL n None (c\<lparr>cl_lost := cl_lost c + n\<rparr>)))"

text \<open>The eviction loop of \<open>_admit\<close>.\<close>

function make_room :: "thread \<Rightarrow> int \<Rightarrow> client \<Rightarrow> client" where
  "make_room me sz c =
     (if sb_spans (cl_buffer c) \<noteq> [] \<and>
         (cl_max_buffer_spans c \<le> length (sb_spans (cl_buffer c)) \<or>
          cl_max_buffer_bytes c < sb_bytes (cl_buffer c) + sz)
      then make_room me sz
             (lose_item me R_QUEUE_OVERFLOW 1 None
                (c\<lparr>cl_buffer := snd (evict_oldest (cl_buffer c)), cl_dropped := cl_dropped c + 1\<rparr>))
      else c)"
  by auto
termination
  by (relation "measure (\<lambda>(me, sz, c). length (sb_spans (cl_buffer c)))")
    (auto simp: lose_item_def evict_oldest_def)

declare make_room.simps [simp del]

text \<open>Which scope a span is stamped with: a snapshot the producer took, or the calling
  context's at this moment (\<open>None\<close> when reading it raised).\<close>

datatype scope_arg = S_snapshot scope_snapshot | S_ambient "scope_snapshot option"

definition stamp :: "thread \<Rightarrow> scope_arg \<Rightarrow> span \<Rightarrow> client \<Rightarrow> span \<times> client" where
  "stamp me scope s c =
     (case scope of
        S_snapshot merged \<Rightarrow> (stamp_scope merged s, c)
      | S_ambient (Some merged) \<Rightarrow> (stamp_scope merged s, c)
      | S_ambient None \<Rightarrow> (s, swallow me ''client.scope_stamp'' c))"

text \<open>\<open>_admit\<close>. Where the worker cannot be respawned, \<open>ensure_alive\<close> raises out of it to the caller
  (\<open>admit_raises\<close>) and the span is not kept.\<close>

definition admit_raises :: "pid \<Rightarrow> client \<Rightarrow> bool" where
  "admit_raises pid c \<longleftrightarrow> \<not> cl_finalize_drained c \<and> ensure_alive_raises pid (cl_worker c)"

definition admit :: "thread \<Rightarrow> pid \<Rightarrow> scope_arg \<Rightarrow> span \<Rightarrow> client \<Rightarrow> client" where
  "admit me pid scope s c =
     (if cl_finalize_drained c then report_lost me 1 ''wardex.finalize.after_close'' c
      else
        (let c1 = c\<lparr>cl_worker := ensure_alive_now pid (cl_worker c)\<rparr> in
         if ensure_alive_raises pid (cl_worker c) then c1
         else case stamp me scope s c1 of
           (stamped, c2) \<Rightarrow>
             (let sz = span_size stamped;
                  c3 = make_room me sz c2;
                  c4 = c3\<lparr>cl_buffer := buffer_append stamped sz (cl_buffer c3)\<rparr>
              in if cl_flush_threshold c4 \<le> length (sb_spans (cl_buffer c4)) \<and> \<not> cl_quiet_wake c4
                 then c4\<lparr>cl_worker := wake (cl_worker c4)\<rparr> else c4)))"

definition capture_span :: "thread \<Rightarrow> pid \<Rightarrow> scope_arg \<Rightarrow> span \<Rightarrow> client \<Rightarrow> client" where
  "capture_span me pid scope s c =
     (if cl_closed c then lose_item me R_AFTER_CLOSE 1 None c else admit me pid scope s c)"

definition capture_raises :: "pid \<Rightarrow> client \<Rightarrow> bool" where
  "capture_raises pid c \<longleftrightarrow> \<not> cl_closed c \<and> admit_raises pid c"

text \<open>What the finalize queue produced, run in order. An admission runs under its job's guard.\<close>

fun run_event :: "thread \<Rightarrow> pid \<Rightarrow> span event \<Rightarrow> client \<Rightarrow> client" where
  "run_event me pid (E_admit place s scope) c =
     (let c1 = admit me pid (S_snapshot scope) s c in if admit_raises pid c then swallow me place c1 else c1)"
| "run_event me pid (E_bump name) c = bump name c"
| "run_event me pid (E_report n) c = say_once ''wardex.finalize.backlog'' c"
| "run_event me pid (E_swallowed place) c = swallow me place c"
| "run_event me pid E_wake c = c\<lparr>cl_finalize_worker := wake (cl_finalize_worker c)\<rparr>"

fun run_events :: "thread \<Rightarrow> pid \<Rightarrow> span event list \<Rightarrow> client \<Rightarrow> client" where
  "run_events me pid [] c = c"
| "run_events me pid (e # es) c = run_events me pid es (run_event me pid e c)"

text \<open>\<open>capture_deferred\<close>. \<open>job_scope\<close> is the job's own snapshot, \<open>ambient_scope\<close> the read
  taken when it has none. A finalize worker that cannot be respawned costs the parse, not the span.\<close>

definition capture_deferred ::
  "thread \<Rightarrow> pid \<Rightarrow> span job \<Rightarrow> scope_snapshot option \<Rightarrow> scope_snapshot option \<Rightarrow> client \<Rightarrow> client"
where
  "capture_deferred me pid job job_scope ambient_scope c =
     (if cl_closed c then
        lose_item me R_AFTER_CLOSE 1 None (bump ''client.finalize.rejected_closed'' c)
      else
        (case (case job_scope of
                 Some s \<Rightarrow> (s, c)
               | None \<Rightarrow> (case ambient_scope of
                            Some s \<Rightarrow> (s, c)
                          | None \<Rightarrow> (([], None), swallow me ''client.scope_stamp'' c))) of
           (scope, c1) \<Rightarrow>
             (let c2 = c1\<lparr>cl_queue := own_in_flight pid (cl_queue c1),
                          cl_finalize_worker := ensure_alive_now pid (cl_finalize_worker c1)\<rparr> in
              if ensure_alive_raises pid (cl_finalize_worker c1) then
                run_events me pid
                  (fallback_now \<lparr>fe_job = job, fe_scope = scope\<rparr> INSTRUMENTATION_DEGRADED)
                  (swallow me ''client.finalize.spawn'' c2)
              else
                (case submit job scope (cl_queue c2) of
                   (events, q) \<Rightarrow> run_events me pid events (c2\<lparr>cl_queue := q\<rparr>)))))"

definition capture_snapshot :: "thread \<Rightarrow> pid \<Rightarrow> nat \<Rightarrow> client \<Rightarrow> client" where
  "capture_snapshot me pid snap c =
     (if cl_closed c then lose_item me R_AFTER_CLOSE 1 (Some U_SNAPSHOT) c
      else
        (let c1 = c\<lparr>cl_worker := ensure_alive_now pid (cl_worker c)\<rparr> in
         if ensure_alive_raises pid (cl_worker c) then c1
         else
        (let c2 = (if cl_snapshots c1 \<noteq> [] \<and> cl_max_buffer_spans c1 \<le> length (cl_snapshots c1)
                   then lose_item me R_QUEUE_OVERFLOW 1 (Some U_SNAPSHOT)
                          (c1\<lparr>cl_snapshots := tl (cl_snapshots c1), cl_dropped := cl_dropped c1 + 1\<rparr>)
                   else c1)
         in c2\<lparr>cl_snapshots := cl_snapshots c2 @ [snap]\<rparr>)))"

definition snapshot_raises :: "pid \<Rightarrow> client \<Rightarrow> bool" where
  "snapshot_raises pid c \<longleftrightarrow> \<not> cl_closed c \<and> ensure_alive_raises pid (cl_worker c)"

section \<open>The drain\<close>

text \<open>What the code outside answers while one drain runs. \<open>ou_freed\<close>: another frame's
  hold of the export slot ends within the budget. \<open>ou_hook\<close>: \<open>before_send_envelope\<close>,
  if set. \<open>ou_export\<close>: the transport's \<open>export\<close> given how it is called; it may settle
  the batch with the ledger itself.\<close>

datatype hook_answer = H_raises | H_none | H_envelope batch
datatype transport_call = Plain | Timed rat "rat option"
datatype transport_answer = A_undelivered | A_other | A_raises

record outside =
  ou_freed :: bool
  ou_hook :: "(batch \<Rightarrow> hook_answer) option"
  ou_readable :: "batch \<Rightarrow> bool"
  ou_carries :: "bool option"
  ou_accepts_timeout :: bool
  ou_export :: "transport_call \<Rightarrow> batch \<Rightarrow> ledger \<Rightarrow> transport_answer \<times> ledger"
  ou_flush_raises :: bool
  ou_time_ns :: int
  ou_now :: rat
  ou_now_export :: rat

definition acquire_export_slot :: "thread \<Rightarrow> rat option \<Rightarrow> bool \<Rightarrow> client \<Rightarrow> client option" where
  "acquire_export_slot me budget freed c =
     (case cl_export_owner c of
        None \<Rightarrow> Some (c\<lparr>cl_export_owner := Some me, cl_export_depth := 1\<rparr>)
      | Some t \<Rightarrow>
          if t = me then Some (c\<lparr>cl_export_depth := cl_export_depth c + 1\<rparr>)
          else if budget = None \<or> freed then Some (c\<lparr>cl_export_owner := Some me, cl_export_depth := 1\<rparr>)
          else None)"

definition release_export_slot :: "client \<Rightarrow> client" where
  "release_export_slot c =
     (if cl_export_depth c \<le> 1 then c\<lparr>cl_export_owner := None, cl_export_depth := 0\<rparr>
      else c\<lparr>cl_export_depth := cl_export_depth c - 1\<rparr>)"

fun bump_times :: "nat \<Rightarrow> string \<Rightarrow> client \<Rightarrow> client" where
  "bump_times 0 name c = c"
| "bump_times (Suc n) name c = bump_times n name (bump name c)"

definition report_buffer_evicted :: "int \<Rightarrow> client \<Rightarrow> client" where
  "report_buffer_evicted n c =
     say_once ''client.buffer.evicted'' (bump_times (nat n) ''client.buffer.evicted'' c)"

definition report_transport_raised :: "thread \<Rightarrow> string \<Rightarrow> client \<Rightarrow> client" where
  "report_transport_raised me call c =
     (let counter = ''client.transport.'' @ call @ ''_failed''
      in say_once counter (lose_item me R_SEND_ERROR 1 (Some U_FAILURE) (bump counter c)))"

text \<open>\<open>count_drain_drop\<close>: the items of the envelope the raise took, or of the batch when
  the envelope cannot be read.\<close>

definition count_drain_drop ::
  "thread \<Rightarrow> string \<Rightarrow> drop_reason \<Rightarrow> batch \<Rightarrow> bool \<Rightarrow> span list \<Rightarrow> nat list \<Rightarrow> client \<Rightarrow> client" where
  "count_drain_drop me cause r e readable spans snaps c =
     (case (if readable then (length (en_spans e), length (en_snapshots e), c)
            else (length spans, length snaps, swallow me ''client.drain.envelope_unreadable'' c)) of
        (n, m, c1) \<Rightarrow>
          (let c2 = bump_times m (''client.drain.snapshot_dropped.'' @ cause)
                      (bump_times n (''client.drain.span_dropped.'' @ cause) c1)
           in if already_unsent e (cl_ledger c2) then c2
              else c2\<lparr>cl_ledger := record_items me (reason_value r) (int n) (int m) None (cl_ledger c2)\<rparr>))"

definition swap_out :: "client \<Rightarrow> span list \<times> nat list \<times> int \<times> client" where
  "swap_out c = (sb_spans (cl_buffer c), cl_snapshots c, cl_dropped c,
     c\<lparr>cl_buffer := empty_buffer, cl_snapshots := [], cl_dropped := 0\<rparr>)"

definition abandon :: "thread \<Rightarrow> client \<Rightarrow> client" where
  "abandon me c = (case swap_out c of (spans, snaps, dropped, c1) \<Rightarrow>
     (let c2 = (if dropped \<noteq> 0 then report_buffer_evicted dropped c1 else c1)
      in report_lost me (int (length spans + length snaps)) ''client.close.behind_an_export'' c2))"

text \<open>\<open>_return_to_buffer\<close>: the batch newest-first, each span if it fits.\<close>

fun return_spans :: "thread \<Rightarrow> span list \<Rightarrow> client \<Rightarrow> int \<times> client" where
  "return_spans me [] c = (0, c)"
| "return_spans me (s # rest) c =
     (let sz = span_size s; b = cl_buffer c in
      if sb_spans b \<noteq> [] \<and> (cl_max_buffer_spans c \<le> length (sb_spans b)
           \<or> cl_max_buffer_bytes c < sb_bytes b + sz)
      then (case return_spans me rest (lose_item me R_QUEUE_OVERFLOW 1 None c) of
              (n, c1) \<Rightarrow> (n + 1, c1))
      else return_spans me rest (c\<lparr>cl_buffer := buffer_prepend s sz b\<rparr>))"

fun return_snapshots :: "thread \<Rightarrow> nat list \<Rightarrow> client \<Rightarrow> int \<times> client" where
  "return_snapshots me [] c = (0, c)"
| "return_snapshots me (s # rest) c =
     (if cl_snapshots c \<noteq> [] \<and> cl_max_buffer_spans c \<le> length (cl_snapshots c)
      then (case return_snapshots me rest (lose_item me R_QUEUE_OVERFLOW 1 (Some U_SNAPSHOT) c) of
              (n, c1) \<Rightarrow> (n + 1, c1))
      else return_snapshots me rest (c\<lparr>cl_snapshots := s # cl_snapshots c\<rparr>))"

definition return_to_buffer :: "thread \<Rightarrow> span list \<Rightarrow> nat list \<Rightarrow> client \<Rightarrow> bool \<times> client" where
  "return_to_buffer me spans snaps c =
     (if cl_closed c then (False, c)
      else (case return_spans me (rev spans) c of (n, c1) \<Rightarrow>
            (case return_snapshots me (rev snaps) c1 of (m, c2) \<Rightarrow>
               (True, c2\<lparr>cl_dropped := cl_dropped c2 + (n + m)\<rparr>))))"

text \<open>\<open>_undelivered\<close> of the client.\<close>

definition give_back :: "thread \<Rightarrow> bool \<Rightarrow> span list \<Rightarrow> nat list \<Rightarrow> client \<Rightarrow> client" where
  "give_back me final spans snaps c =
     (if final then
        report_lost me (int (length spans + length snaps)) ''client.close.transport_declined'' c
      else (case return_to_buffer me spans snaps c of
              (True, c1) \<Rightarrow> c1
            | (False, c1) \<Rightarrow>
                report_lost me (int (length spans + length snaps)) ''client.closed.declined_after_close'' c1))"

text \<open>\<open>_export\<close>: how the transport is called.\<close>

definition export_call :: "rat option \<Rightarrow> bool \<Rightarrow> rat option \<Rightarrow> rat \<Rightarrow> transport_call" where
  "export_call deadline takes_timeout named now =
     (case deadline of
        None \<Rightarrow> Plain
      | Some d \<Rightarrow> if \<not> takes_timeout then Plain else Timed (max 0 (d - now)) named)"

definition flush_transport :: "thread \<Rightarrow> outside \<Rightarrow> client \<Rightarrow> client" where
  "flush_transport me ou c =
     (if ou_flush_raises ou then report_transport_raised me ''flush'' c else c)"

definition end_drain :: "int \<Rightarrow> client \<Rightarrow> client" where
  "end_drain dropped c =
     (let c1 = release_export_slot c
      in if dropped \<noteq> 0 then report_buffer_evicted dropped c1 else c1)"

text \<open>The part of \<open>_drain\<close> between the swap and the \<open>finally\<close>.\<close>

definition ship ::
  "thread \<Rightarrow> outside \<Rightarrow> rat option \<Rightarrow> bool \<Rightarrow> rat option \<Rightarrow> span list \<Rightarrow> nat list \<Rightarrow> client \<Rightarrow> client" where
  "ship me ou deadline final named spans snaps c =
     (let e = \<lparr>en_id = lg_next_id (cl_ledger c), en_is_envelope = True, en_spans = spans,
               en_snapshots = snaps, en_client_reports = CR_tuple []\<rparr>;
          c0 = c\<lparr>cl_ledger := (cl_ledger c)\<lparr>lg_next_id := lg_next_id (cl_ledger c) + 1\<rparr>\<rparr>
      in case (if spans = [] \<and> snaps = [] then H_envelope e
               else case ou_hook ou of None \<Rightarrow> H_envelope e | Some hook \<Rightarrow> hook e) of
           H_raises \<Rightarrow>
             say_once ''wardex.before_send_envelope''
               (count_drain_drop me ''before_send_raised'' R_BEFORE_SEND_ERROR e True spans snaps c0)
         | H_none \<Rightarrow>
             c0\<lparr>cl_ledger := record_items me (reason_value R_BEFORE_SEND) (int (length spans))
                              (int (length snaps)) None (cl_ledger c0)\<rparr>
         | H_envelope e1 \<Rightarrow>
             (case attach me e1 (ou_carries ou) (int (length spans + length snaps)) (ou_time_ns ou)
                     (ou_now ou) (cl_ledger c0) of
                (e2, l1) \<Rightarrow>
                  (case ou_export ou (export_call deadline (ou_accepts_timeout ou) named (ou_now_export ou)) e2 l1 of
                     (answer, l2) \<Rightarrow>
                       (let c1 = c0\<lparr>cl_ledger := l2\<rparr> in
                        case answer of
                          A_raises \<Rightarrow>
                            (let c2 = count_drain_drop me ''export_raised'' R_SEND_ERROR e2
                                        (ou_readable ou e2) spans snaps c1
                             in say_once ''client.drain.span_dropped.export_raised''
                                  (c2\<lparr>cl_ledger := snd (unsent me e2 False True (cl_ledger c2))\<rparr>))
                        | A_undelivered \<Rightarrow>
                            (let c2 = give_back me final spans snaps c1;
                                 c3 = c2\<lparr>cl_ledger := snd (unsent me e2 True False (cl_ledger c2))\<rparr>
                             in flush_transport me ou (c3\<lparr>cl_ledger := done_with me e2 (cl_ledger c3)\<rparr>))
                        | A_other \<Rightarrow>
                            flush_transport me ou (c1\<lparr>cl_ledger := done_with me e2 (cl_ledger c1)\<rparr>)))))"

definition drain ::
  "thread \<Rightarrow> outside \<Rightarrow> rat option \<Rightarrow> bool \<Rightarrow> bool \<Rightarrow> rat option \<Rightarrow> client \<Rightarrow> client" where
  "drain me ou budget final named requested c =
     (case acquire_export_slot me budget (ou_freed ou) c of
        None \<Rightarrow> if final then abandon me c else c
      | Some c1 \<Rightarrow>
          (case swap_out c1 of
             (spans, snaps, dropped, c2) \<Rightarrow>
               (let deadline = map_option (\<lambda>t. ou_now ou + t) budget;
                    name = (if named then (case requested of Some t \<Rightarrow> Some t | None \<Rightarrow> budget) else None)
                in end_drain dropped
                     (if spans = [] \<and> snaps = [] \<and> \<not> due (ou_carries ou) final (ou_now ou) (cl_ledger c2)
                      then flush_transport me ou c2
                      else ship me ou deadline final name spans snaps c2))))"

section \<open>Flushing and closing\<close>

text \<open>A sanitized budget is finite.\<close>

definition seconds :: "pyfloat \<Rightarrow> rat" where
  "seconds v = (case v of PFin x \<Rightarrow> x | _ \<Rightarrow> DEFAULT_TIMEOUT)"

text \<open>The parse phase: \<open>drain_all\<close> up to \<open>deadline\<close>, and what it admits.\<close>

definition finish_parses ::
  "thread \<Rightarrow> pid \<Rightarrow> rat \<Rightarrow> (nat \<Rightarrow> rat) \<Rightarrow> leftover \<Rightarrow> client \<Rightarrow> client" where
  "finish_parses me pid deadline clock lo c =
     (case drain_all pid (Some deadline) clock lo (cl_queue c) of
        (finished, events, q) \<Rightarrow> run_events me pid events (c\<lparr>cl_queue := q\<rparr>))"

text \<open>\<open>start_at\<close> and \<open>ou_now\<close> are the clock before and after the parse phase.\<close>

definition flush ::
  "thread \<Rightarrow> pid \<Rightarrow> rat \<Rightarrow> timeout \<Rightarrow> pyfloat option \<Rightarrow> rat \<Rightarrow> (nat \<Rightarrow> rat) \<Rightarrow> outside \<Rightarrow> client \<Rightarrow> client" where
  "flush me pid timeout_max t export_timeout start_at clock ou c =
     (case t of
        T_unnamed _ True _ \<Rightarrow>
          (let b = seconds (configured_transport_timeout timeout_max export_timeout)
           in drain me ou (Some b) False False None (finish_parses me pid (start_at + b) clock KEEP c))
      | _ \<Rightarrow>
          (let budget = seconds (sanitize_timeout timeout_max t)
           in drain me ou (Some (max (budget / 2) (budget - (ou_now ou - start_at)))) False
                (named_by_caller t) (Some budget)
                (finish_parses me pid (start_at + budget / 2) clock KEEP c)))"

definition shutdown_flush ::
  "thread \<Rightarrow> pid \<Rightarrow> rat \<Rightarrow> timeout \<Rightarrow> rat \<Rightarrow> (nat \<Rightarrow> rat) \<Rightarrow> outside \<Rightarrow> client \<Rightarrow> client" where
  "shutdown_flush me pid timeout_max t start_at clock ou c =
     (let budget = seconds (sanitize_timeout timeout_max t)
      in drain me ou (Some (max (budget / 2) (budget - (ou_now ou - start_at)))) False False None
           (finish_parses me pid (start_at + budget / 2) clock FALLBACK c))"

text \<open>The periodic worker's drain.\<close>

definition periodic_drain :: "thread \<Rightarrow> outside \<Rightarrow> client \<Rightarrow> client" where
  "periodic_drain me ou c = drain me ou None False False None c"

definition close_transport :: "thread \<Rightarrow> bool \<Rightarrow> client \<Rightarrow> client" where
  "close_transport me raises c = (if raises then report_transport_raised me ''close'' c else c)"

definition stop_worker :: "pid \<Rightarrow> client \<Rightarrow> client" where
  "stop_worker pid c = c\<lparr>cl_worker := snd (stop pid (cl_worker c))\<rparr>"

definition stop_finalize :: "pid \<Rightarrow> client \<Rightarrow> client" where
  "stop_finalize pid c = c\<lparr>cl_queue := stop_queue (cl_queue c),
     cl_finalize_worker := snd (stop pid (cl_finalize_worker c))\<rparr>"

definition close ::
  "thread \<Rightarrow> pid \<Rightarrow> rat \<Rightarrow> timeout \<Rightarrow> pyfloat \<Rightarrow> rat \<Rightarrow> (nat \<Rightarrow> rat) \<Rightarrow> outside \<Rightarrow> bool \<Rightarrow> client \<Rightarrow> client" where
  "close me pid timeout_max t shutdown_timeout start_at clock ou close_raises c =
     (let named = named_by_caller t;
          t1 = (case t of T_unnamed _ _ True \<Rightarrow> T_named shutdown_timeout | _ \<Rightarrow> t);
          budget = seconds (sanitize_timeout timeout_max t1)
      in if cl_closed c then c
         else
           (let c1 = stop_finalize pid (stop_worker pid (c\<lparr>cl_closed := True\<rparr>));
                c2 = finish_parses me pid (start_at + budget) clock FALLBACK c1;
                c3 = drain me ou (Some budget) True named None (c2\<lparr>cl_finalize_drained := True\<rparr>)
            in close_transport me close_raises c3))"

definition client_at_fork_reinit :: "client \<Rightarrow> client" where
  "client_at_fork_reinit c =
     (let c1 = c\<lparr>cl_export_owner := None, cl_export_depth := 0,
                 cl_worker := worker_at_fork_reinit (cl_worker c),
                 cl_queue := queue_at_fork_reinit (cl_queue c),
                 cl_finalize_worker := worker_at_fork_reinit (cl_finalize_worker c),
                 cl_mp_registered := False\<rparr>
      in if cl_closed c1 then c1
         else c1\<lparr>cl_buffer := empty_buffer, cl_snapshots := [], cl_dropped := 0, cl_lost := 0\<rparr>)"

definition register_mp_tail_flush :: "bool \<Rightarrow> client \<Rightarrow> bool \<times> client" where
  "register_mp_tail_flush mp_loaded c =
     (if cl_closed c \<or> cl_mp_registered c then (False, c)
      else if \<not> mp_loaded then (False, c)
      else (True, c\<lparr>cl_mp_registered := True\<rparr>))"

end
