(* ===== verification/Client_Laws.thy ===== *)
theory Client_Laws
  imports Client "HOL-Library.Sublist"
begin

text \<open>
  What the client promises: budgets every consumer accepts, bounds on what it keeps in
  every reachable state, and an account of every span. The account rests on the
  ledger only through its interface (\<open>loss_sink\<close>, \<open>batch_sink\<close>) and on the fact that
  settling a batch moves no count but the ledger's own overflow.
\<close>

section \<open>Settling moves no count\<close>

abbreviation OVERFLOW_KEY :: drop_key where
  "OVERFLOW_KEY \<equiv> (R_LEDGER_OVERFLOW, U_REPORT)"

lemma counted_trim:
  "k \<noteq> OVERFLOW_KEY \<Longrightarrow> tally (lg_totals (trim_unacked l)) k = tally (lg_totals l) k"
  by (rule trim_invariant [where I = "\<lambda>x. tally (lg_totals x) k = tally (lg_totals l) k"])
    (auto simp: overflow_fields)

lemma counted_settle_one: "k \<noteq> OVERFLOW_KEY \<Longrightarrow> counted (settle_one s l) k = counted l k"
  by (auto simp: settle_one_def settle_steps_def counted_def store_defs counted_trim
      split: option.splits prod.splits)

lemma counted_settle_all: "k \<noteq> OVERFLOW_KEY \<Longrightarrow> counted (settle_all ss l) k = counted l k"
  by (induction ss arbitrary: l) (simp_all add: counted_settle_one)

lemma counted_fold_held: "k \<noteq> OVERFLOW_KEY \<Longrightarrow> counted (fold_held l) k = counted l k"
  by (simp add: fold_held_def Let_def counted_settle_all)

lemma counted_try_fold: "k \<noteq> OVERFLOW_KEY \<Longrightarrow> counted (snd (try_fold me l)) k = counted l k"
  by (auto simp: try_fold_def counted_fold_held counted_free split: option.splits)

lemma counted_fields:
  "lg_totals l' = lg_totals l \<Longrightarrow> lg_inbox l' = lg_inbox l \<Longrightarrow> counted l' k = counted l k"
  by (simp add: counted_def)

lemma counted_quiet [simp]:
  "counted (l\<lparr>lg_unsent := x1\<rparr>) k = counted l k" "counted (l\<lparr>lg_next_id := x2\<rparr>) k = counted l k"
  "counted (l\<lparr>lg_last_solo := x3\<rparr>) k = counted l k" "counted (l\<lparr>lg_unacked := x4\<rparr>) k = counted l k"
  "counted (settle rs o' l) k = counted l k"
  by (simp_all add: counted_def settle_def)

lemma counted_unsent: "k \<noteq> OVERFLOW_KEY \<Longrightarrow> counted (snd (unsent me e d b l)) k = counted l k"
  by (simp add: unsent_def Let_def counted_try_fold)

lemma counted_done: "k \<noteq> OVERFLOW_KEY \<Longrightarrow> counted (done_with me e l) k = counted l k"
  by (simp add: done_with_def Let_def counted_try_fold)

lemma hand_out_counted [simp]: "counted (hand_out rs l) k = counted l k"
  by (induction rs arbitrary: l) (simp_all add: put_out_def counted_def)

lemma cut_held_counted: "counted (snd (cut_held t now q l)) k = counted l k"
  by (simp add: cut_held_def Let_def cut_state counted_def)

lemma cut_held_quiet: "cut_held t now q x = (fresh, l3) \<Longrightarrow> counted l3 k = counted x k"
  using cut_held_counted [of t now q x k] by simp

lemma end_fold_counted [simp]: "counted (end_fold l) k = counted l k"
  by (simp add: counted_def)

lemma counted_attach: "k \<noteq> OVERFLOW_KEY \<Longrightarrow> counted (snd (attach me e attr q t now l)) k = counted l k"
proof -
  assume k: "k \<noteq> OVERFLOW_KEY"
  have c: "counted l3 k = counted l k"
    if "free_fold me l = Some l0" "cut_held t now q x = (fresh, l3)"
      "x = (hand_out (lg_unacked (fold_held (l0\<lparr>lg_folding := True\<rparr>))) (fold_held (l0\<lparr>lg_folding := True\<rparr>)))\<lparr>lg_unacked := []\<rparr>"
    for l0 x fresh l3
    unfolding cut_held_quiet [OF that(2)] that(3) using counted_free [OF that(1), of k] k
    by (simp add: counted_fold_held)
  show ?thesis
    unfolding attach_def Let_def
    by (auto split: option.splits held_reports.splits prod.splits simp del: hand_out.simps dest!: c [OF _ _ refl])
qed

section \<open>The client's account\<close>

text \<open>An item is a span or a snapshot. \<open>accounted\<close> is what the client still holds plus
  what the ledger has counted as lost for one of the reasons of the client or of a transport.\<close>

definition CLIENT_REASONS :: "drop_reason list" where
  "CLIENT_REASONS = [R_QUEUE_OVERFLOW, R_AFTER_CLOSE, R_SHUTDOWN_TAIL, R_BEFORE_SEND,
     R_BEFORE_SEND_ERROR, R_SEND_ERROR, R_NETWORK_ERROR, R_RATELIMIT_BACKOFF, R_REQUEST_TOO_LARGE,
     R_SEND_UNCONFIRMED, R_UNMARSHALLABLE]"

definition lost_items :: "ledger \<Rightarrow> int" where
  "lost_items l = sum_list (map (\<lambda>r. counted l (r, U_SPAN) + counted l (r, U_SNAPSHOT)) CLIENT_REASONS)"

abbreviation resident :: "client \<Rightarrow> span list" where
  "resident c \<equiv> sb_spans (cl_buffer c)"

definition items :: "client \<Rightarrow> int" where
  "items c = int (length (resident c) + length (cl_snapshots c))"

definition accounted :: "client \<Rightarrow> int" where
  "accounted c = items c + lost_items (cl_ledger c)"

lemma lose_item_frame [simp]:
  "cl_buffer (lose_item me r n u c) = cl_buffer c" "cl_snapshots (lose_item me r n u c) = cl_snapshots c"
  "cl_closed (lose_item me r n u c) = cl_closed c" "cl_queue (lose_item me r n u c) = cl_queue c"
  "cl_max_buffer_spans (lose_item me r n u c) = cl_max_buffer_spans c"
  "cl_max_buffer_bytes (lose_item me r n u c) = cl_max_buffer_bytes c"
  "cl_finalize_drained (lose_item me r n u c) = cl_finalize_drained c"
  "cl_export_owner (lose_item me r n u c) = cl_export_owner c"
  "cl_export_depth (lose_item me r n u c) = cl_export_depth c"
  "cl_dropped (lose_item me r n u c) = cl_dropped c"
  by (simp_all add: lose_item_def)

lemma lose_item_counted:
  "counted (cl_ledger (lose_item me r n unit c)) k =
   counted (cl_ledger c) k + (if 0 < n \<and> k = (r, unit_for r unit) then n else 0)"
  by (simp add: lose_item_def lg.lose_member)

lemma bump_frame [simp]:
  "cl_buffer (bump name c) = cl_buffer c" "cl_snapshots (bump name c) = cl_snapshots c"
  "cl_closed (bump name c) = cl_closed c" "cl_queue (bump name c) = cl_queue c"
  "cl_max_buffer_spans (bump name c) = cl_max_buffer_spans c"
  "cl_max_buffer_bytes (bump name c) = cl_max_buffer_bytes c"
  "cl_finalize_drained (bump name c) = cl_finalize_drained c" "cl_ledger (bump name c) = cl_ledger c"
  "cl_export_owner (bump name c) = cl_export_owner c" "cl_export_depth (bump name c) = cl_export_depth c"
  by (simp_all add: bump_def)

lemma say_frame [simp]:
  "cl_buffer (say_once key c) = cl_buffer c" "cl_snapshots (say_once key c) = cl_snapshots c"
  "cl_closed (say_once key c) = cl_closed c" "cl_queue (say_once key c) = cl_queue c"
  "cl_max_buffer_spans (say_once key c) = cl_max_buffer_spans c"
  "cl_max_buffer_bytes (say_once key c) = cl_max_buffer_bytes c"
  "cl_finalize_drained (say_once key c) = cl_finalize_drained c" "cl_ledger (say_once key c) = cl_ledger c"
  "cl_export_owner (say_once key c) = cl_export_owner c" "cl_export_depth (say_once key c) = cl_export_depth c"
  by (simp_all add: say_once_def)

lemma swallow_frame [simp]:
  "cl_buffer (swallow me p c) = cl_buffer c" "cl_snapshots (swallow me p c) = cl_snapshots c"
  "cl_closed (swallow me p c) = cl_closed c" "cl_queue (swallow me p c) = cl_queue c"
  "cl_max_buffer_spans (swallow me p c) = cl_max_buffer_spans c"
  "cl_max_buffer_bytes (swallow me p c) = cl_max_buffer_bytes c"
  "cl_finalize_drained (swallow me p c) = cl_finalize_drained c"
  "cl_export_owner (swallow me p c) = cl_export_owner c" "cl_export_depth (swallow me p c) = cl_export_depth c"
  "cl_dropped (swallow me p c) = cl_dropped c" "cl_worker (swallow me p c) = cl_worker c"
  by (simp_all add: swallow_def bump_def Let_def)

lemma swallow_counted:
  "k \<noteq> (R_INTERNAL_SDK_ERROR, default_unit R_INTERNAL_SDK_ERROR) \<Longrightarrow>
   counted (cl_ledger (swallow me p c)) k = counted (cl_ledger c) k"
  by (simp add: swallow_def Let_def lg.lose_other unit_for_def)

lemma report_lost_frame [simp]:
  "cl_buffer (report_lost me n key c) = cl_buffer c" "cl_snapshots (report_lost me n key c) = cl_snapshots c"
  "cl_closed (report_lost me n key c) = cl_closed c" "cl_queue (report_lost me n key c) = cl_queue c"
  "cl_max_buffer_spans (report_lost me n key c) = cl_max_buffer_spans c"
  "cl_max_buffer_bytes (report_lost me n key c) = cl_max_buffer_bytes c"
  "cl_finalize_drained (report_lost me n key c) = cl_finalize_drained c"
  "cl_export_owner (report_lost me n key c) = cl_export_owner c"
  "cl_export_depth (report_lost me n key c) = cl_export_depth c"
  by (simp_all add: report_lost_def)

lemma report_lost_counted:
  "0 \<le> n \<Longrightarrow> counted (cl_ledger (report_lost me n key c)) k =
   counted (cl_ledger c) k + (if k = (R_SHUTDOWN_TAIL, default_unit R_SHUTDOWN_TAIL) then n else 0)"
  by (simp add: report_lost_def lose_item_counted unit_for_def)

text \<open>What one record adds to the account.\<close>

lemma lost_items_same: "(\<And>r u. counted l' (r, u) = counted l (r, u)) \<Longrightarrow> lost_items l' = lost_items l"
  by (simp add: lost_items_def)

lemma lost_items_quiet:
  "(\<And>k. k \<noteq> OVERFLOW_KEY \<Longrightarrow> counted l' k = counted l k) \<Longrightarrow> lost_items l' = lost_items l"
  by (simp add: lost_items_def CLIENT_REASONS_def)

definition client_key :: "drop_key \<Rightarrow> bool" where
  "client_key k \<longleftrightarrow> fst k \<in> set CLIENT_REASONS \<and> snd k \<in> {U_SPAN, U_SNAPSHOT}"

lemma lost_items_lose:
  "lost_items (cl_ledger (lose_item me r n unit c)) =
   lost_items (cl_ledger c) + (if 0 < n \<and> client_key (r, unit_for r unit) then n else 0)"
  by (cases r) (auto simp: lost_items_def CLIENT_REASONS_def client_key_def lose_item_counted)

lemma lost_items_batch:
  "lost_items (record_items me (reason_value r) (int n) (int m) w l) =
   lost_items l + (if r \<in> set CLIENT_REASONS then int n + int m else 0)"
  by (cases r) (auto simp: lost_items_def CLIENT_REASONS_def lg.lose_batch_member)

lemma lost_items_swallow: "lost_items (cl_ledger (swallow me p c)) = lost_items (cl_ledger c)"
  by (simp add: lost_items_def CLIENT_REASONS_def swallow_counted)

lemma lost_items_report: "0 \<le> n \<Longrightarrow> lost_items (cl_ledger (report_lost me n key c)) = lost_items (cl_ledger c) + n"
  by (simp add: report_lost_def lost_items_lose unit_for_def client_key_def CLIENT_REASONS_def)

lemma client_key_simps [simp]:
  "client_key (R_QUEUE_OVERFLOW, unit_for R_QUEUE_OVERFLOW None)"
  "client_key (R_QUEUE_OVERFLOW, unit_for R_QUEUE_OVERFLOW (Some U_SNAPSHOT))"
  "client_key (R_AFTER_CLOSE, unit_for R_AFTER_CLOSE None)"
  "client_key (R_AFTER_CLOSE, unit_for R_AFTER_CLOSE (Some U_SNAPSHOT))"
  "\<not> client_key (R_SEND_ERROR, unit_for R_SEND_ERROR (Some U_FAILURE))"
  by (simp_all add: client_key_def CLIENT_REASONS_def unit_for_def)

section \<open>Making room\<close>

lemma make_room_invariant:
  assumes "\<And>me c. resident c \<noteq> [] \<Longrightarrow> I c \<Longrightarrow>
    I (lose_item me R_QUEUE_OVERFLOW 1 None
        (c\<lparr>cl_buffer := snd (evict_oldest (cl_buffer c)), cl_dropped := cl_dropped c + 1\<rparr>))"
  shows "I c \<Longrightarrow> I (make_room me sz c)"
proof (induction me sz c rule: make_room.induct)
  case (1 me sz c)
  show ?case
  proof (cases "resident c \<noteq> [] \<and> (cl_max_buffer_spans c \<le> length (resident c) \<or>
      cl_max_buffer_bytes c < sb_bytes (cl_buffer c) + sz)")
    case True
    with assms [OF _ 1(2)] have "I (lose_item me R_QUEUE_OVERFLOW 1 None
        (c\<lparr>cl_buffer := snd (evict_oldest (cl_buffer c)), cl_dropped := cl_dropped c + 1\<rparr>))" by simp
    from 1(1) [OF True this] show ?thesis by (simp only: make_room.simps [of me sz c] if_P [OF True] if_True)
  next
    case False
    with 1(2) show ?thesis by (simp only: make_room.simps [of me sz c] if_not_P [OF False] if_False)
  qed
qed

text \<open>Everything the client keeps but the ledger, the counters and the lines said.\<close>

definition same_store :: "client \<Rightarrow> client \<Rightarrow> bool" where
  "same_store c c' \<longleftrightarrow> cl_buffer c' = cl_buffer c \<and> cl_snapshots c' = cl_snapshots c \<and>
     cl_closed c' = cl_closed c \<and> cl_queue c' = cl_queue c \<and>
     cl_max_buffer_spans c' = cl_max_buffer_spans c \<and> cl_max_buffer_bytes c' = cl_max_buffer_bytes c \<and>
     cl_finalize_drained c' = cl_finalize_drained c"

definition fits :: "client \<Rightarrow> int \<Rightarrow> span list \<Rightarrow> bool" where
  "fits c sz ss \<longleftrightarrow> length ss < cl_max_buffer_spans c \<and> weight ss + sz \<le> cl_max_buffer_bytes c"

lemma make_room_step:
  "make_room me sz c =
    (if resident c \<noteq> [] \<and> (cl_max_buffer_spans c \<le> length (resident c) \<or>
        cl_max_buffer_bytes c < sb_bytes (cl_buffer c) + sz)
     then make_room me sz (lose_item me R_QUEUE_OVERFLOW 1 None
        (c\<lparr>cl_buffer := snd (evict_oldest (cl_buffer c)), cl_dropped := cl_dropped c + 1\<rparr>))
     else c)"
  by (rule make_room.simps)

text \<open>The loop drops the oldest spans, exactly as many as it has to, and counts each.\<close>

lemma make_room_drops:
  "sb_bytes (cl_buffer c) = weight (resident c) \<Longrightarrow>
   \<exists>n \<le> length (resident c).
     resident (make_room me sz c) = drop n (resident c) \<and>
     sb_bytes (cl_buffer (make_room me sz c)) = weight (drop n (resident c)) \<and>
     (n = length (resident c) \<or> fits c sz (drop n (resident c))) \<and>
     (\<forall>i < n. \<not> fits c sz (drop i (resident c))) \<and>
     lost_items (cl_ledger (make_room me sz c)) = lost_items (cl_ledger c) + int n \<and>
     cl_dropped (make_room me sz c) = cl_dropped c + int n"
proof (induction me sz c rule: make_room.induct)
  case (1 me sz c)
  show ?case
  proof (cases "resident c \<noteq> [] \<and> (cl_max_buffer_spans c \<le> length (resident c) \<or>
      cl_max_buffer_bytes c < sb_bytes (cl_buffer c) + sz)")
    case True
    let ?c = "lose_item me R_QUEUE_OVERFLOW 1 None
        (c\<lparr>cl_buffer := snd (evict_oldest (cl_buffer c)), cl_dropped := cl_dropped c + 1\<rparr>)"
    obtain s ss where r: "resident c = s # ss" using True by (cases "resident c") auto
    have b: "resident ?c = ss" "sb_bytes (cl_buffer ?c) = weight ss" "fits ?c sz = fits c sz"
      using r "1.prems" by (auto simp: evict_oldest_def fits_def)
    have f: "\<not> fits c sz (resident c)" using True "1.prems" by (auto simp: fits_def)
    have m: "make_room me sz c = make_room me sz ?c"
      by (subst make_room_step) (simp only: if_P [OF True])
    obtain n where n: "n \<le> length ss" "resident (make_room me sz ?c) = drop n ss"
      "sb_bytes (cl_buffer (make_room me sz ?c)) = weight (drop n ss)"
      "n = length ss \<or> fits c sz (drop n ss)" "\<forall>i < n. \<not> fits c sz (drop i ss)"
      "lost_items (cl_ledger (make_room me sz ?c)) = lost_items (cl_ledger ?c) + int n"
      "cl_dropped (make_room me sz ?c) = cl_dropped ?c + int n"
      using "1.IH" [OF True] b by auto
    have "\<forall>i < Suc n. \<not> fits c sz (drop i (resident c))"
      using n(5) f r by (auto simp: drop_Cons' less_Suc_eq_0_disj)
    moreover have "lost_items (cl_ledger ?c) = lost_items (cl_ledger c) + 1" by (simp add: lost_items_lose)
    moreover have "Suc n \<le> length (resident c)" "drop (Suc n) (resident c) = drop n ss" "cl_dropped ?c = cl_dropped c + 1"
      using n(1) r by simp_all
    ultimately show ?thesis
      unfolding m using n r by (intro exI [of _ "Suc n"]) simp
  next
    case False
    then have m: "make_room me sz c = c" by (subst make_room_step) (simp only: if_not_P if_False)
    from False "1.prems" have "resident c = [] \<or> fits c sz (resident c)" by (auto simp: fits_def)
    then show ?thesis unfolding m using "1.prems" by (intro exI [of _ 0]) auto
  qed
qed

lemma make_room_frame:
  "cl_snapshots (make_room me sz c) = cl_snapshots c" "cl_closed (make_room me sz c) = cl_closed c"
  "cl_queue (make_room me sz c) = cl_queue c" "cl_max_buffer_spans (make_room me sz c) = cl_max_buffer_spans c"
  "cl_max_buffer_bytes (make_room me sz c) = cl_max_buffer_bytes c"
  "cl_finalize_drained (make_room me sz c) = cl_finalize_drained c"
  "cl_export_owner (make_room me sz c) = cl_export_owner c"
  "cl_export_depth (make_room me sz c) = cl_export_depth c"
  by (rule make_room_invariant [where I = "\<lambda>x. _ x = _ c"], simp, simp)+

section \<open>Admission\<close>

lemma stamp_frame:
  "stamp me scope s c = (x, c') \<Longrightarrow> same_store c c' \<and> lost_items (cl_ledger c') = lost_items (cl_ledger c) \<and>
     cl_dropped c' = cl_dropped c \<and> cl_worker c' = cl_worker c \<and>
     cl_export_owner c' = cl_export_owner c \<and> cl_export_depth c' = cl_export_depth c"
  by (cases scope) (auto simp: stamp_def same_store_def lost_items_swallow split: option.splits)

text \<open>Admission on an open queue, in one equation.\<close>

lemma admit_open:
  assumes "\<not> cl_finalize_drained c" "\<not> admit_raises pid c" "sb_bytes (cl_buffer c) = weight (resident c)"
  shows "\<exists>n \<le> length (resident c). \<exists>x. let c' = admit me pid scope s c in
     (\<exists>merged. x = stamp_scope merged s \<or> x = s) \<and>
     resident c' = drop n (resident c) @ [x] \<and> sb_bytes (cl_buffer c') = weight (resident c') \<and>
     (n = length (resident c) \<or> fits c (span_size x) (drop n (resident c))) \<and>
     (\<forall>i < n. \<not> fits c (span_size x) (drop i (resident c))) \<and>
     lost_items (cl_ledger c') = lost_items (cl_ledger c) + int n \<and> cl_snapshots c' = cl_snapshots c \<and>
     cl_closed c' = cl_closed c \<and> cl_queue c' = cl_queue c \<and> cl_finalize_drained c' = cl_finalize_drained c \<and>
     cl_max_buffer_spans c' = cl_max_buffer_spans c \<and> cl_max_buffer_bytes c' = cl_max_buffer_bytes c"
proof -
  let ?c1 = "c\<lparr>cl_worker := ensure_alive_now pid (cl_worker c)\<rparr>"
  obtain x c2 where st: "stamp me scope s ?c1 = (x, c2)" by (cases "stamp me scope s ?c1")
  note f = stamp_frame [OF st, unfolded same_store_def]
  have x: "\<exists>merged. x = stamp_scope merged s \<or> x = s"
    using st by (auto simp: stamp_def split: scope_arg.splits option.splits)
  have b: "sb_bytes (cl_buffer c2) = weight (resident c2)" using f assms by simp
  have r: "resident c2 = resident c" "fits c2 = fits c" using f by (auto simp: fits_def fun_eq_iff)
  obtain n where n: "n \<le> length (resident c)"
    "resident (make_room me (span_size x) c2) = drop n (resident c)"
    "sb_bytes (cl_buffer (make_room me (span_size x) c2)) = weight (drop n (resident c))"
    "n = length (resident c) \<or> fits c (span_size x) (drop n (resident c))"
    "\<forall>i < n. \<not> fits c (span_size x) (drop i (resident c))"
    "lost_items (cl_ledger (make_room me (span_size x) c2)) = lost_items (cl_ledger c2) + int n"
    using make_room_drops [OF b, of me "span_size x"] unfolding r by auto
  show ?thesis
    using n x assms(1,2) f st
    by (intro exI [of _ n] conjI exI [of _ x])
      (auto simp: admit_def admit_raises_def Let_def buffer_append_def make_room_frame)
qed

lemma admit_drained: "cl_finalize_drained c \<Longrightarrow> admit me pid scope s c = report_lost me 1 ''wardex.finalize.after_close'' c"
  by (simp add: admit_def)

lemma admit_refused: "admit_raises pid c \<Longrightarrow>
    admit me pid scope s c = c\<lparr>cl_worker := ensure_alive_now pid (cl_worker c)\<rparr>"
  by (simp add: admit_def admit_raises_def Let_def)

lemma drained_never_raises: "cl_finalize_drained c \<Longrightarrow> \<not> admit_raises pid c"
  by (simp add: admit_raises_def)

section \<open>Bounds\<close>

definition client_ok :: "client \<Rightarrow> bool" where
  "client_ok c \<longleftrightarrow> buffer_ok (cl_max_buffer_spans c) (cl_max_buffer_bytes c) (cl_buffer c) \<and>
     length (cl_snapshots c) \<le> max 1 (cl_max_buffer_spans c) \<and> queue_ok (cl_queue c)"

lemma client_okD: "client_ok c \<Longrightarrow> sb_bytes (cl_buffer c) = weight (resident c)"
  by (simp add: client_ok_def buffer_ok_def)

lemma client_ok_same: "same_store c c' \<Longrightarrow> client_ok c' = client_ok c"
  by (simp add: client_ok_def same_store_def)

lemma same_store_simps [simp]:
  "same_store c (lose_item me r n u c)" "same_store c (bump name c)" "same_store c (say_once key c)"
  "same_store c (swallow me p c)" "same_store c (report_lost me n key c)" "same_store c c"
  by (simp_all add: same_store_def)

lemma client_ok_frame [simp]:
  "client_ok (lose_item me r n u c) = client_ok c" "client_ok (bump name c) = client_ok c"
  "client_ok (say_once key c) = client_ok c" "client_ok (swallow me p c) = client_ok c"
  "client_ok (report_lost me n key c) = client_ok c"
  by (rule client_ok_same, simp)+

lemma client_ok_fields [simp]:
  "client_ok (c\<lparr>cl_worker := w\<rparr>) = client_ok c" "client_ok (c\<lparr>cl_finalize_worker := w\<rparr>) = client_ok c"
  "client_ok (c\<lparr>cl_ledger := l\<rparr>) = client_ok c" "client_ok (c\<lparr>cl_closed := b\<rparr>) = client_ok c"
  "client_ok (c\<lparr>cl_finalize_drained := b\<rparr>) = client_ok c" "client_ok (c\<lparr>cl_lost := n\<rparr>) = client_ok c"
  "client_ok (c\<lparr>cl_dropped := n\<rparr>) = client_ok c" "client_ok (c\<lparr>cl_export_owner := x, cl_export_depth := d\<rparr>) = client_ok c"
  "client_ok (c\<lparr>cl_export_depth := d\<rparr>) = client_ok c"
  by (simp_all add: client_ok_def)

lemma client_ok_admit:
  assumes "client_ok c"
  shows "client_ok (admit me pid scope s c)"
proof (cases "cl_finalize_drained c")
  case True
  with assms show ?thesis by (simp add: admit_drained)
next
  case False
  show ?thesis
  proof (cases "admit_raises pid c")
    case True
    then show ?thesis using assms by (simp add: admit_refused)
  next
    case ret: False
    from admit_open [OF False ret client_okD [OF assms], of me scope s] assms show ?thesis
      by (auto simp: client_ok_def buffer_ok_def fits_def Let_def)
  qed
qed

lemma accounted_admit:
  assumes "client_ok c"
  shows "accounted (admit me pid scope s c) = accounted c + (if admit_raises pid c then 0 else 1)"
proof (cases "cl_finalize_drained c")
  case True
  then show ?thesis by (simp add: admit_drained drained_never_raises accounted_def items_def lost_items_report)
next
  case False
  show ?thesis
  proof (cases "admit_raises pid c")
    case True
    then show ?thesis by (simp add: admit_refused accounted_def items_def)
  next
    case ret: False
    from admit_open [OF False ret client_okD [OF assms], of me scope s] ret show ?thesis
      by (auto simp: accounted_def items_def Let_def)
  qed
qed

text \<open>The admissions of the queue's events that returned.\<close>

fun landed :: "thread \<Rightarrow> pid \<Rightarrow> span event list \<Rightarrow> client \<Rightarrow> int" where
  "landed me pid [] c = 0"
| "landed me pid (e # es) c =
     (case e of E_admit _ _ _ \<Rightarrow> if admit_raises pid c then 0 else 1 | _ \<Rightarrow> 0) + landed me pid es (run_event me pid e c)"

lemma accounted_frame [simp]:
  "accounted (bump name c) = accounted c" "accounted (say_once key c) = accounted c"
  "accounted (swallow me p c) = accounted c" "accounted (c\<lparr>cl_worker := w\<rparr>) = accounted c"
  "accounted (c\<lparr>cl_finalize_worker := w\<rparr>) = accounted c" "accounted (c\<lparr>cl_queue := q\<rparr>) = accounted c"
  "accounted (c\<lparr>cl_closed := b\<rparr>) = accounted c" "accounted (c\<lparr>cl_finalize_drained := b\<rparr>) = accounted c"
  by (simp_all add: accounted_def items_def lost_items_swallow)

lemma run_events_ok:
  "client_ok c \<Longrightarrow> client_ok (run_events me pid es c) \<and>
   accounted (run_events me pid es c) = accounted c + landed me pid es c"
proof (induction es arbitrary: c)
  case (Cons e es)
  have "client_ok (run_event me pid e c) \<and> accounted (run_event me pid e c) = accounted c + landed me pid [e] c"
    using Cons.prems by (cases e) (simp_all add: client_ok_admit accounted_admit Let_def)
  with Cons.IH [of "run_event me pid e c"] show ?case by simp
qed simp

lemma admit_frame:
  assumes "client_ok c"
  shows "cl_queue (admit me pid scope s c) = cl_queue c" "cl_closed (admit me pid scope s c) = cl_closed c"
    "cl_finalize_drained (admit me pid scope s c) = cl_finalize_drained c"
  using admit_open [OF _ _ client_okD [OF assms], of pid me scope s]
  by (cases "cl_finalize_drained c"; cases "admit_raises pid c"; simp add: admit_drained admit_refused; auto simp: Let_def)+

lemma run_events_frame:
  "client_ok c \<Longrightarrow> cl_queue (run_events me pid es c) = cl_queue c \<and> cl_closed (run_events me pid es c) = cl_closed c \<and>
    cl_finalize_drained (run_events me pid es c) = cl_finalize_drained c"
proof (induction es arbitrary: c)
  case (Cons e es)
  have "client_ok (run_event me pid e c)" using run_events_ok [of c me pid "[e]"] Cons.prems by simp
  from Cons.IH [OF this] Cons.prems show ?case by (cases e) (simp_all add: admit_frame Let_def)
qed simp

section \<open>Giving a batch back\<close>

lemma return_spans_split:
  "return_spans me rs c = (n, c') \<Longrightarrow> client_ok c \<Longrightarrow>
   \<exists>kept. subseq kept rs \<and> resident c' = rev kept @ resident c \<and>
     n = int (length rs) - int (length kept) \<and> lost_items (cl_ledger c') = lost_items (cl_ledger c) + n \<and>
     client_ok c' \<and> cl_snapshots c' = cl_snapshots c \<and> cl_dropped c' = cl_dropped c \<and>
     cl_closed c' = cl_closed c \<and> cl_queue c' = cl_queue c \<and> cl_finalize_drained c' = cl_finalize_drained c \<and>
     cl_export_owner c' = cl_export_owner c \<and> cl_export_depth c' = cl_export_depth c"
proof (induction rs arbitrary: c n c')
  case (Cons s rs)
  show ?case
  proof (cases "resident c \<noteq> [] \<and> (cl_max_buffer_spans c \<le> length (resident c)
      \<or> cl_max_buffer_bytes c < sb_bytes (cl_buffer c) + span_size s)")
    case True
    then obtain n1 where n1: "return_spans me rs (lose_item me R_QUEUE_OVERFLOW 1 None c) = (n1, c')" "n = n1 + 1"
      using Cons.prems(1) by (auto simp: Let_def split: prod.splits)
    obtain kept where "subseq kept rs" "resident c' = rev kept @ resident c" "n1 = int (length rs) - int (length kept)"
      "lost_items (cl_ledger c') = lost_items (cl_ledger (lose_item me R_QUEUE_OVERFLOW 1 None c)) + n1"
      "client_ok c' \<and> cl_snapshots c' = cl_snapshots c \<and> cl_dropped c' = cl_dropped c \<and>
     cl_closed c' = cl_closed c \<and> cl_queue c' = cl_queue c \<and> cl_finalize_drained c' = cl_finalize_drained c \<and>
     cl_export_owner c' = cl_export_owner c \<and> cl_export_depth c' = cl_export_depth c"
      using Cons.IH [OF n1(1)] Cons.prems(2) by auto
    then show ?thesis using n1(2) by (intro exI [of _ kept]) (auto simp: lost_items_lose)
  next
    case False
    let ?c = "c\<lparr>cl_buffer := buffer_prepend s (span_size s) (cl_buffer c)\<rparr>"
    have r: "return_spans me rs ?c = (n, c')"
      using Cons.prems(1) False by (simp add: Let_def split: if_splits)
    have "client_ok ?c"
      using Cons.prems(2) False by (auto simp: client_ok_def buffer_ok_def buffer_prepend_def)
    from Cons.IH [OF r this] obtain kept where "subseq kept rs" "resident c' = rev kept @ resident ?c"
      "n = int (length rs) - int (length kept)" "lost_items (cl_ledger c') = lost_items (cl_ledger c) + n"
      "client_ok c' \<and> cl_snapshots c' = cl_snapshots c \<and> cl_dropped c' = cl_dropped c \<and>
     cl_closed c' = cl_closed c \<and> cl_queue c' = cl_queue c \<and> cl_finalize_drained c' = cl_finalize_drained c \<and>
     cl_export_owner c' = cl_export_owner c \<and> cl_export_depth c' = cl_export_depth c" by auto
    then show ?thesis by (intro exI [of _ "s # kept"]) (auto simp: buffer_prepend_def)
  qed
qed auto

lemma return_snapshots_split:
  "return_snapshots me rs c = (n, c') \<Longrightarrow> client_ok c \<Longrightarrow>
   \<exists>kept. subseq kept rs \<and> cl_snapshots c' = rev kept @ cl_snapshots c \<and>
     n = int (length rs) - int (length kept) \<and> lost_items (cl_ledger c') = lost_items (cl_ledger c) + n \<and>
     client_ok c' \<and> cl_buffer c' = cl_buffer c \<and> cl_dropped c' = cl_dropped c \<and>
     cl_closed c' = cl_closed c \<and> cl_queue c' = cl_queue c \<and> cl_finalize_drained c' = cl_finalize_drained c \<and>
     cl_export_owner c' = cl_export_owner c \<and> cl_export_depth c' = cl_export_depth c"
proof (induction rs arbitrary: c n c')
  case (Cons s rs)
  show ?case
  proof (cases "cl_snapshots c \<noteq> [] \<and> cl_max_buffer_spans c \<le> length (cl_snapshots c)")
    case True
    then obtain n1 where n1: "return_snapshots me rs (lose_item me R_QUEUE_OVERFLOW 1 (Some U_SNAPSHOT) c) = (n1, c')"
      "n = n1 + 1"
      using Cons.prems(1) by (auto split: prod.splits)
    from Cons.IH [OF n1(1)] Cons.prems(2) n1(2) show ?thesis
      by (auto simp: lost_items_lose intro: list_emb_Cons)
  next
    case False
    let ?c = "c\<lparr>cl_snapshots := s # cl_snapshots c\<rparr>"
    have r: "return_snapshots me rs ?c = (n, c')" using Cons.prems(1) False by (simp split: if_splits)
    have "client_ok ?c" using Cons.prems(2) False by (auto simp: client_ok_def)
    from Cons.IH [OF r this] obtain kept where "subseq kept rs" "cl_snapshots c' = rev kept @ cl_snapshots ?c"
      "n = int (length rs) - int (length kept)" "lost_items (cl_ledger c') = lost_items (cl_ledger c) + n"
      "client_ok c' \<and> cl_buffer c' = cl_buffer c \<and> cl_dropped c' = cl_dropped c \<and>
     cl_closed c' = cl_closed c \<and> cl_queue c' = cl_queue c \<and> cl_finalize_drained c' = cl_finalize_drained c \<and>
     cl_export_owner c' = cl_export_owner c \<and> cl_export_depth c' = cl_export_depth c" by auto
    then show ?thesis by (intro exI [of _ "s # kept"]) auto
  qed
qed auto

lemma subseq_of_rev: "subseq xs (rev ys) \<Longrightarrow> subseq (rev xs) ys"
proof (induction ys arbitrary: xs)
  case (Cons y ys)
  then obtain us vs where x: "xs = us @ vs" "subseq us (rev ys)" "subseq vs [y]"
    by (auto simp: subseq_append_iff)
  have "vs = [] \<or> vs = [y]" using x(3) by (cases vs) (auto split: if_splits)
  with Cons.IH [OF x(2)] x(1) show ?case by auto
qed (auto dest: list_emb_Nil2)

lemma return_to_buffer_open:
  assumes "return_to_buffer me spans snaps c = (took, c')" "\<not> cl_closed c" "client_ok c"
  shows "took \<and> (\<exists>kept kept'. subseq kept spans \<and> subseq kept' snaps \<and>
     resident c' = kept @ resident c \<and> cl_snapshots c' = kept' @ cl_snapshots c \<and>
     lost_items (cl_ledger c') = lost_items (cl_ledger c)
       + int (length spans + length snaps) - int (length kept + length kept') \<and>
     cl_dropped c' = cl_dropped c + int (length spans + length snaps) - int (length kept + length kept')) \<and>
     client_ok c' \<and> cl_closed c' = cl_closed c \<and> cl_queue c' = cl_queue c \<and>
     cl_finalize_drained c' = cl_finalize_drained c \<and>
     cl_export_owner c' = cl_export_owner c \<and> cl_export_depth c' = cl_export_depth c"
proof -
  obtain n c1 where s: "return_spans me (rev spans) c = (n, c1)" by (cases "return_spans me (rev spans) c")
  obtain m c2 where t: "return_snapshots me (rev snaps) c1 = (m, c2)" by (cases "return_snapshots me (rev snaps) c1")
  have r: "took" "c' = c2\<lparr>cl_dropped := cl_dropped c2 + (n + m)\<rparr>"
    using assms(1,2) s t by (auto simp: return_to_buffer_def)
  obtain ks where ks: "subseq ks (rev spans)" "resident c1 = rev ks @ resident c"
    "n = int (length spans) - int (length ks)" "lost_items (cl_ledger c1) = lost_items (cl_ledger c) + n"
    and ok: "client_ok c1" and f1: "cl_snapshots c1 = cl_snapshots c" "cl_dropped c1 = cl_dropped c"
     "cl_closed c1 = cl_closed c" "cl_queue c1 = cl_queue c" "cl_finalize_drained c1 = cl_finalize_drained c"
     "cl_export_owner c1 = cl_export_owner c" "cl_export_depth c1 = cl_export_depth c"
    using return_spans_split [OF s assms(3)] by auto
  obtain kn where kn: "subseq kn (rev snaps)" "cl_snapshots c2 = rev kn @ cl_snapshots c1"
    "m = int (length snaps) - int (length kn)" "lost_items (cl_ledger c2) = lost_items (cl_ledger c1) + m"
    and f2: "client_ok c2" "cl_buffer c2 = cl_buffer c1" "cl_dropped c2 = cl_dropped c1"
     "cl_closed c2 = cl_closed c1" "cl_queue c2 = cl_queue c1" "cl_finalize_drained c2 = cl_finalize_drained c1"
     "cl_export_owner c2 = cl_export_owner c1" "cl_export_depth c2 = cl_export_depth c1"
    using return_snapshots_split [OF t ok] by auto
  have "\<exists>kept kept'. subseq kept spans \<and> subseq kept' snaps \<and>
     resident c' = kept @ resident c \<and> cl_snapshots c' = kept' @ cl_snapshots c \<and>
     lost_items (cl_ledger c') = lost_items (cl_ledger c)
       + int (length spans + length snaps) - int (length kept + length kept') \<and>
     cl_dropped c' = cl_dropped c + int (length spans + length snaps) - int (length kept + length kept')"
    using subseq_of_rev [OF ks(1)] subseq_of_rev [OF kn(1)] ks(2-4) kn(2-4) f1 f2
    by (intro exI [of _ "rev ks"] exI [of _ "rev kn"]) (simp add: r)
  with r f1 f2 show ?thesis by simp
qed

lemma give_back_facts:
  assumes "client_ok c"
  shows "client_ok (give_back me final spans snaps c)"
    "accounted (give_back me final spans snaps c) = accounted c + int (length spans + length snaps)"
    "cl_queue (give_back me final spans snaps c) = cl_queue c"
    "cl_closed (give_back me final spans snaps c) = cl_closed c"
    "cl_finalize_drained (give_back me final spans snaps c) = cl_finalize_drained c"
    "cl_export_owner (give_back me final spans snaps c) = cl_export_owner c"
    "cl_export_depth (give_back me final spans snaps c) = cl_export_depth c"
    "final \<or> cl_closed c \<Longrightarrow> cl_buffer (give_back me final spans snaps c) = cl_buffer c \<and>
       cl_snapshots (give_back me final spans snaps c) = cl_snapshots c"
proof -
  have "let c' = give_back me final spans snaps c in
      client_ok c' \<and> accounted c' = accounted c + int (length spans + length snaps) \<and>
      cl_queue c' = cl_queue c \<and> cl_closed c' = cl_closed c \<and> cl_finalize_drained c' = cl_finalize_drained c \<and>
      cl_export_owner c' = cl_export_owner c \<and> cl_export_depth c' = cl_export_depth c \<and>
      (final \<or> cl_closed c \<longrightarrow> cl_buffer c' = cl_buffer c \<and> cl_snapshots c' = cl_snapshots c)"
  proof (cases "final \<or> cl_closed c")
    case True
    then show ?thesis
      using assms by (auto simp: give_back_def return_to_buffer_def Let_def accounted_def items_def lost_items_report)
  next
    case False
    obtain took c' where r: "return_to_buffer me spans snaps c = (took, c')" by fastforce
    with return_to_buffer_open [OF r _ assms] False show ?thesis
      by (auto simp: give_back_def Let_def accounted_def items_def split: prod.splits)
  qed
  then show "client_ok (give_back me final spans snaps c)"
    "accounted (give_back me final spans snaps c) = accounted c + int (length spans + length snaps)"
    "cl_queue (give_back me final spans snaps c) = cl_queue c"
    "cl_closed (give_back me final spans snaps c) = cl_closed c"
    "cl_finalize_drained (give_back me final spans snaps c) = cl_finalize_drained c"
    "cl_export_owner (give_back me final spans snaps c) = cl_export_owner c"
    "cl_export_depth (give_back me final spans snaps c) = cl_export_depth c"
    "final \<or> cl_closed c \<Longrightarrow> cl_buffer (give_back me final spans snaps c) = cl_buffer c \<and>
       cl_snapshots (give_back me final spans snaps c) = cl_snapshots c"
    unfolding Let_def by blast+
qed

section \<open>A drain\<close>

text \<open>A step that touches neither what is kept nor the account nor the export slot.\<close>

definition quiet :: "client \<Rightarrow> client \<Rightarrow> bool" where
  "quiet c c' \<longleftrightarrow> same_store c c' \<and> lost_items (cl_ledger c') = lost_items (cl_ledger c) \<and>
     cl_export_owner c' = cl_export_owner c \<and> cl_export_depth c' = cl_export_depth c"

lemma quiet_trans: "quiet a b \<Longrightarrow> quiet b c \<Longrightarrow> quiet a c"
  by (simp add: quiet_def same_store_def)

lemma quiet_simps [simp]:
  "quiet c c" "quiet c (bump name c)" "quiet c (say_once key c)" "quiet c (swallow me p c)"
  by (simp_all add: quiet_def lost_items_swallow)

lemma quiet_ledger: "lost_items l = lost_items (cl_ledger c) \<Longrightarrow> quiet c (c\<lparr>cl_ledger := l\<rparr>)"
  by (simp add: quiet_def same_store_def)

lemma quiet_bumps [simp]: "quiet c (bump_times n name c)"
  by (induction n name c rule: bump_times.induct) (auto intro: quiet_trans [OF quiet_simps(2)])

lemma quiet_evicted [simp]: "quiet c (report_buffer_evicted n c)"
  unfolding report_buffer_evicted_def by (rule quiet_trans [OF quiet_bumps quiet_simps(3)])

lemma quiet_raised [simp]: "quiet c (report_transport_raised me call c)"
  by (simp add: report_transport_raised_def Let_def quiet_def same_store_def lost_items_lose)

lemma quiet_flush [simp]: "quiet c (flush_transport me ou c)"
  by (simp add: flush_transport_def)

lemma quietD:
  assumes "quiet c c'"
  shows "client_ok c' = client_ok c" "accounted c' = accounted c" "cl_buffer c' = cl_buffer c"
    "cl_snapshots c' = cl_snapshots c" "cl_closed c' = cl_closed c" "cl_queue c' = cl_queue c"
    "cl_finalize_drained c' = cl_finalize_drained c" "cl_export_owner c' = cl_export_owner c"
    "cl_export_depth c' = cl_export_depth c" "lost_items (cl_ledger c') = lost_items (cl_ledger c)"
  using assms client_ok_same [of c c'] by (auto simp: quiet_def accounted_def items_def same_store_def)

lemma quiet_unsent: "quiet c (c\<lparr>cl_ledger := snd (unsent me e d b (cl_ledger c))\<rparr>)"
  by (rule quiet_ledger, rule lost_items_quiet, rule counted_unsent)

lemma quiet_done: "quiet c (c\<lparr>cl_ledger := done_with me e (cl_ledger c)\<rparr>)"
  by (rule quiet_ledger, rule lost_items_quiet, rule counted_done)

lemma accounted_settled [simp]:
  "accounted (c\<lparr>cl_ledger := snd (unsent me e d b (cl_ledger c))\<rparr>) = accounted c"
  "accounted (c\<lparr>cl_ledger := done_with me e (cl_ledger c)\<rparr>) = accounted c"
  "accounted (flush_transport me ou c) = accounted c"
  "accounted (report_buffer_evicted n c) = accounted c"
  by (rule quietD(2) [OF quiet_unsent], rule quietD(2) [OF quiet_done], rule quietD(2) [OF quiet_flush],
      rule quietD(2) [OF quiet_evicted])

text \<open>What attaching reports leaves of the envelope and of the memory of failures.\<close>

lemma free_fold_unsent: "free_fold me l = Some l1 \<Longrightarrow> lg_unsent l1 = lg_unsent l"
  by (auto simp: free_fold_def acquire_def split: option.splits if_splits)

lemma settle_one_next: "lg_next_id l \<le> lg_next_id (settle_one s l)"
  by (auto simp: settle_one_def settle_steps_def store_defs split: option.splits prod.splits)

lemma settle_all_next: "lg_next_id l \<le> lg_next_id (settle_all ss l)"
  by (induction ss arbitrary: l) (auto intro: order_trans [OF settle_one_next])

lemma entry_next [simp]: "lg_next_id (run_steps (entry_steps e) l) = lg_next_id l"
  by (cases e rule: entry_cases) (auto simp: store_frames)

lemma fold_entries_next [simp]: "lg_next_id (fold_entries es l) = lg_next_id l"
  by (induction es arbitrary: l) simp_all

lemma fold_held_next: "lg_next_id l \<le> lg_next_id (fold_held l)"
  using settle_all_next [of "fold_inbox l"] by (simp add: fold_held_def fold_inbox_def Let_def)

lemma fold_held_unsent: "lg_unsent (fold_held l) = lg_unsent l"
  by (simp add: fold_held_def fold_inbox_def Let_def)

lemma hand_out_keeps [simp]: "lg_next_id (hand_out rs l) = lg_next_id l" "lg_unsent (hand_out rs l) = lg_unsent l"
  by (induction rs arbitrary: l) (simp_all add: put_out_def)

lemma cut_held_keeps:
  "cut_held t now q x = (fresh, l3) \<Longrightarrow> lg_next_id x \<le> lg_next_id l3 \<and> lg_unsent l3 = lg_unsent x"
  by (auto simp: cut_held_def Let_def cut_state split: if_splits)

lemma end_fold_unsent [simp]: "lg_unsent (end_fold l) = lg_unsent l"
  by (simp add: end_fold_def run_held_signals_def release_def)

lemma attach_frame:
  assumes "attach me e attr q t now l = (e2, l1)"
  shows "en_spans e2 = en_spans e \<and> en_snapshots e2 = en_snapshots e \<and> lg_unsent l1 = lg_unsent l \<and>
    (en_id e2 = en_id e \<or> lg_next_id l \<le> en_id e2)"
proof -
  have c: "lg_next_id l \<le> lg_next_id l3 \<and> lg_unsent l3 = lg_unsent l"
    if "free_fold me l = Some l0" "cut_held t now q x = (fresh, l3)"
      "x = (hand_out (lg_unacked (fold_held (l0\<lparr>lg_folding := True\<rparr>))) (fold_held (l0\<lparr>lg_folding := True\<rparr>)))\<lparr>lg_unacked := []\<rparr>"
    for l0 x fresh l3
    using cut_held_keeps [OF that(2)] fold_held_next [of "l0\<lparr>lg_folding := True\<rparr>"] free_fold_unsent [OF that(1)]
      free_fold_frame(10) [OF that(1)] fold_held_unsent [of "l0\<lparr>lg_folding := True\<rparr>"]
    unfolding that(3) by simp
  show ?thesis
    using assms unfolding attach_def Let_def
    by (auto split: option.splits held_reports.splits prod.splits if_splits simp del: hand_out.simps dest!: c [OF _ _ refl])
qed

text \<open>What the host's code is assumed to do where an account is drawn: the hook vetoes or
  passes a batch but does not edit it, and a transport that does not take a batch leaves the
  ledger alone.\<close>

definition vetoes_only :: "outside \<Rightarrow> bool" where
  "vetoes_only ou \<longleftrightarrow> (case ou_hook ou of None \<Rightarrow> True
     | Some hook \<Rightarrow> (\<forall>e e1. hook e = H_envelope e1 \<longrightarrow> e1 = e))"

definition declines_cleanly :: "outside \<Rightarrow> bool" where
  "declines_cleanly ou \<longleftrightarrow>
     (\<forall>call e l. fst (ou_export ou call e l) \<noteq> A_other \<longrightarrow> snd (ou_export ou call e l) = l)"

definition fresh_ids :: "client \<Rightarrow> bool" where
  "fresh_ids c \<longleftrightarrow> (\<forall>i \<in> set (lg_unsent (cl_ledger c)). i < lg_next_id (cl_ledger c))"

lemma record_drop_unsent [simp]: "lg_unsent (record_drop me reason n u w l) = lg_unsent l"
  by (auto simp: record_drop_def Let_def arm_def append_inbox_def fold_inbox_def end_fold_def
      run_held_signals_def release_def dest!: free_fold_unsent split: option.splits)

lemma bump_times_ledger [simp]: "cl_ledger (bump_times n name c) = cl_ledger c"
  by (induction n name c rule: bump_times.induct) simp_all

lemma count_drain_drop_accounts:
  assumes "\<not> already_unsent e (cl_ledger c)" "r \<in> set CLIENT_REASONS"
    "length (en_spans e) = length spans" "length (en_snapshots e) = length snaps"
  shows "let c' = count_drain_drop me cause r e readable spans snaps c in
    same_store c c' \<and> cl_export_owner c' = cl_export_owner c \<and> cl_export_depth c' = cl_export_depth c \<and>
    lost_items (cl_ledger c') = lost_items (cl_ledger c) + int (length spans + length snaps)"
proof -
  define c1 where "c1 = (if readable then c else swallow me ''client.drain.envelope_unreadable'' c)"
  define c2 where "c2 = bump_times (length snaps) (''client.drain.snapshot_dropped.'' @ cause)
      (bump_times (length spans) (''client.drain.span_dropped.'' @ cause) c1)"
  have q: "quiet c c1" by (simp add: c1_def)
  have q2: "quiet c c2" unfolding c2_def by (rule quiet_trans [OF q quiet_trans [OF quiet_bumps quiet_bumps]])
  have u: "lg_unsent (cl_ledger c2) = lg_unsent (cl_ledger c)"
    by (simp add: c2_def c1_def swallow_def Let_def)
  have "count_drain_drop me cause r e readable spans snaps c =
      (if already_unsent e (cl_ledger c2) then c2
       else c2\<lparr>cl_ledger := record_items me (reason_value r) (int (length spans)) (int (length snaps)) None (cl_ledger c2)\<rparr>)"
    by (cases readable) (simp_all add: count_drain_drop_def c1_def c2_def Let_def assms(3,4))
  then have e: "count_drain_drop me cause r e readable spans snaps c =
      c2\<lparr>cl_ledger := record_items me (reason_value r) (int (length spans)) (int (length snaps)) None (cl_ledger c2)\<rparr>"
    using assms(1) u by (simp add: already_unsent_def)
  show ?thesis
    unfolding e Let_def using quietD [OF q2] q2 assms(2) by (simp add: same_store_def quiet_def lost_items_batch)
qed

lemma count_drain_drop_frame:
  "let c' = count_drain_drop me cause r e readable spans snaps c in
    same_store c c' \<and> cl_export_owner c' = cl_export_owner c \<and> cl_export_depth c' = cl_export_depth c"
proof -
  have q: "quiet c (bump_times m x (bump_times n y (if readable then c else swallow me p c)))" for m x n y p
    by (rule quiet_trans [OF _ quiet_trans [OF quiet_bumps quiet_bumps]]) simp
  then show ?thesis
    using quietD(3-9) [OF q] by (cases readable) (auto simp: count_drain_drop_def Let_def quiet_def same_store_def)
qed

text \<open>The swapped-out batch through the hook and the transport.\<close>

definition kept_apart :: "bool \<Rightarrow> client \<Rightarrow> client \<Rightarrow> bool" where
  "kept_apart final c c' \<longleftrightarrow> client_ok c' \<and> cl_queue c' = cl_queue c \<and> cl_closed c' = cl_closed c \<and>
     cl_finalize_drained c' = cl_finalize_drained c \<and>
     cl_export_owner c' = cl_export_owner c \<and> cl_export_depth c' = cl_export_depth c \<and>
     (final \<or> cl_closed c \<longrightarrow> cl_buffer c' = cl_buffer c \<and> cl_snapshots c' = cl_snapshots c)"

text \<open>The transport took the batch, and counted \<open>k\<close> of its items as lost while it did.\<close>

definition shipped :: "outside \<Rightarrow> span list \<Rightarrow> nat list \<Rightarrow> int \<Rightarrow> bool" where
  "shipped ou spans snaps k \<longleftrightarrow>
     (\<exists>call e l l'. en_spans e = spans \<and> en_snapshots e = snaps \<and> \<not> already_unsent e l \<and>
        ou_export ou call e l = (A_other, l') \<and> k = lost_items l' - lost_items l)"

lemma kept_apart_quiet: "kept_apart final c c1 \<Longrightarrow> quiet c1 c2 \<Longrightarrow> kept_apart final c c2"
  unfolding kept_apart_def using quietD [of c1 c2] by simp

lemma kept_apart_same:
  "client_ok c \<Longrightarrow> same_store c c' \<Longrightarrow> cl_export_owner c' = cl_export_owner c \<Longrightarrow>
   cl_export_depth c' = cl_export_depth c \<Longrightarrow> kept_apart final c c'"
  using client_ok_same [of c c'] by (simp add: kept_apart_def same_store_def)

lemma accounted_same:
  "same_store c c' \<Longrightarrow> lost_items (cl_ledger c') = lost_items (cl_ledger c) + n \<Longrightarrow> accounted c' = accounted c + n"
  by (simp add: accounted_def items_def same_store_def)

text \<open>The transport's three answers.\<close>

definition answered ::
  "thread \<Rightarrow> outside \<Rightarrow> bool \<Rightarrow> span list \<Rightarrow> nat list \<Rightarrow> batch \<Rightarrow> transport_answer \<Rightarrow> client \<Rightarrow> client" where
  "answered me ou final spans snaps e2 answer c1 =
    (case answer of
       A_raises \<Rightarrow>
         (let c2 = count_drain_drop me ''export_raised'' R_SEND_ERROR e2 (ou_readable ou e2) spans snaps c1
          in say_once ''client.drain.span_dropped.export_raised''
               (c2\<lparr>cl_ledger := snd (unsent me e2 False True (cl_ledger c2))\<rparr>))
     | A_undelivered \<Rightarrow>
         (let c2 = give_back me final spans snaps c1;
              c3 = c2\<lparr>cl_ledger := snd (unsent me e2 True False (cl_ledger c2))\<rparr>
          in flush_transport me ou (c3\<lparr>cl_ledger := done_with me e2 (cl_ledger c3)\<rparr>))
     | A_other \<Rightarrow> flush_transport me ou (c1\<lparr>cl_ledger := done_with me e2 (cl_ledger c1)\<rparr>))"

lemma answered_keeps:
  assumes "client_ok c1"
  shows "kept_apart final c1 (answered me ou final spans snaps e2 answer c1)"
proof (cases answer)
  case A_raises
  let ?c2 = "count_drain_drop me ''export_raised'' R_SEND_ERROR e2 (ou_readable ou e2) spans snaps c1"
  have "kept_apart final c1 ?c2"
    using count_drain_drop_frame [where c = c1 and r = R_SEND_ERROR and me = me and cause = "''export_raised''"
        and readable = "ou_readable ou e2" and spans = spans and snaps = snaps and e = e2]
      kept_apart_same [OF assms, of ?c2] by (simp add: Let_def)
  with A_raises show ?thesis
    by (simp only: answered_def transport_answer.case Let_def kept_apart_quiet [OF _ quiet_trans [OF quiet_unsent quiet_simps(3)]])
next
  case A_undelivered
  have "kept_apart final c1 (give_back me final spans snaps c1)"
    using give_back_facts [OF assms] by (simp add: kept_apart_def)
  with A_undelivered show ?thesis
    by (simp only: answered_def transport_answer.case Let_def
        kept_apart_quiet [OF _ quiet_trans [OF quiet_unsent quiet_trans [OF quiet_done quiet_flush]]])
next
  case A_other
  have "kept_apart final c1 c1" using assms by (simp add: kept_apart_def)
  with A_other show ?thesis
    by (simp only: answered_def transport_answer.case kept_apart_quiet [OF _ quiet_trans [OF quiet_done quiet_flush]])
qed

lemma answered_accounts:
  assumes "client_ok c1" "\<not> already_unsent e2 (cl_ledger c1)" "en_spans e2 = spans" "en_snapshots e2 = snaps"
  shows "accounted (answered me ou final spans snaps e2 answer c1) =
    accounted c1 + (if answer = A_other then 0 else int (length spans + length snaps))"
proof (cases answer)
  case A_raises
  let ?c2 = "count_drain_drop me ''export_raised'' R_SEND_ERROR e2 (ou_readable ou e2) spans snaps c1"
  have "same_store c1 ?c2 \<and> lost_items (cl_ledger ?c2) = lost_items (cl_ledger c1) + int (length spans + length snaps)"
    using count_drain_drop_accounts [OF assms(2), where r = R_SEND_ERROR and me = me and cause = "''export_raised''"
        and readable = "ou_readable ou e2" and spans = spans and snaps = snaps]
      assms(3,4) by (simp add: Let_def CLIENT_REASONS_def)
  then have "accounted ?c2 = accounted c1 + int (length spans + length snaps)"
    using accounted_same by blast
  then show ?thesis by (simp only: A_raises answered_def transport_answer.case Let_def accounted_frame accounted_settled) simp
next
  case A_undelivered
  then show ?thesis
    using give_back_facts(2) [OF assms(1), of me final spans snaps]
    by (simp only: answered_def transport_answer.case Let_def accounted_settled) simp
next
  case A_other
  then show ?thesis
    by (simp only: answered_def transport_answer.case accounted_settled) simp
qed

lemma ship_split:
  "ship me ou deadline final named spans snaps c =
    (let e = \<lparr>en_id = lg_next_id (cl_ledger c), en_is_envelope = True, en_spans = spans,
               en_snapshots = snaps, en_client_reports = CR_tuple []\<rparr>;
         c0 = c\<lparr>cl_ledger := (cl_ledger c)\<lparr>lg_next_id := lg_next_id (cl_ledger c) + 1\<rparr>\<rparr>
     in case (if spans = [] \<and> snaps = [] then H_envelope e
              else case ou_hook ou of None \<Rightarrow> H_envelope e | Some hook \<Rightarrow> hook e) of
          H_raises \<Rightarrow>
            say_once ''wardex.before_send_envelope''
              (count_drain_drop me ''before_send_raised'' R_BEFORE_SEND_ERROR e True spans snaps c0)
        | H_none \<Rightarrow>
            c0\<lparr>cl_ledger := record_items me (reason_value R_BEFORE_SEND) (int (length spans))
                             (int (length snaps)) None (cl_ledger c0)\<rparr>
        | H_envelope e1 \<Rightarrow>
            (case attach me e1 (ou_carries ou) (int (length spans + length snaps)) (ou_time_ns ou)
                    (ou_now ou) (cl_ledger c0) of
               (e2, l1) \<Rightarrow>
                 (case ou_export ou (export_call deadline (ou_accepts_timeout ou) named (ou_now_export ou)) e2 l1 of
                    (answer, l2) \<Rightarrow> answered me ou final spans snaps e2 answer (c0\<lparr>cl_ledger := l2\<rparr>))))"
  unfolding ship_def answered_def Let_def by (rule refl)

lemma ship_keeps:
  assumes "client_ok c"
  shows "kept_apart final c (ship me ou deadline final named spans snaps c)"
proof -
  let ?c0 = "c\<lparr>cl_ledger := (cl_ledger c)\<lparr>lg_next_id := lg_next_id (cl_ledger c) + 1\<rparr>\<rparr>"
  have l: "kept_apart final c (?c0\<lparr>cl_ledger := l\<rparr>)" for l
    using assms by (simp add: kept_apart_def)
  have d: "kept_apart final c (say_once k (count_drain_drop me x r e b spans snaps ?c0))" for k x r e b
    using count_drain_drop_frame [where c = ?c0 and me = me and cause = x and r = r and e = e and readable = b
        and spans = spans and snaps = snaps] assms
    by (intro kept_apart_quiet [OF kept_apart_same quiet_simps(3)]) (simp_all add: Let_def same_store_def)
  have a: "kept_apart final c (answered me ou final spans snaps e2 answer (?c0\<lparr>cl_ledger := l2\<rparr>))" for e2 answer l2
    using answered_keeps [of "?c0\<lparr>cl_ledger := l2\<rparr>" final me ou spans snaps e2 answer] assms
    by (simp add: kept_apart_def)
  define e :: batch where "e = \<lparr>en_id = lg_next_id (cl_ledger c), en_is_envelope = True, en_spans = spans,
               en_snapshots = snaps, en_client_reports = CR_tuple []\<rparr>"
  obtain hk where hk: "(if spans = [] \<and> snaps = [] then H_envelope e
      else case ou_hook ou of None \<Rightarrow> H_envelope e | Some hook \<Rightarrow> hook e) = hk" by blast
  show ?thesis
    unfolding ship_split Let_def e_def [symmetric] hk
    using l d a by (cases hk) (simp_all split: prod.split)
qed

lemma ship_accounts:
  assumes "client_ok c" "vetoes_only ou" "declines_cleanly ou" "fresh_ids c"
  shows "let c' = ship me ou deadline final named spans snaps c in
    accounted c' = accounted c + int (length spans + length snaps) \<or>
    (\<exists>k. accounted c' = accounted c + k \<and> shipped ou spans snaps k)"
proof -
  define c0 where "c0 = c\<lparr>cl_ledger := (cl_ledger c)\<lparr>lg_next_id := lg_next_id (cl_ledger c) + 1\<rparr>\<rparr>"
  define e :: batch where "e = \<lparr>en_id = lg_next_id (cl_ledger c), en_is_envelope = True, en_spans = spans,
               en_snapshots = snaps, en_client_reports = CR_tuple []\<rparr>"
  define call where "call = export_call deadline (ou_accepts_timeout ou) named (ou_now_export ou)"
  define hk where "hk = (if spans = [] \<and> snaps = [] then H_envelope e
      else case ou_hook ou of None \<Rightarrow> H_envelope e | Some hook \<Rightarrow> hook e)"
  obtain e2 l1 where at: "attach me e (ou_carries ou) (int (length spans + length snaps)) (ou_time_ns ou)
      (ou_now ou) (cl_ledger c0) = (e2, l1)" by fastforce
  obtain answer l2 where ex: "ou_export ou call e2 l1 = (answer, l2)" by fastforce
  have l2: "answer \<noteq> A_other \<Longrightarrow> l2 = l1" using ex assms(3) by (metis declines_cleanly_def fst_conv snd_conv)
  have hk_e: "e1 = e" if "hk = H_envelope e1" for e1
    using that assms(2) by (auto simp: hk_def vetoes_only_def split: if_splits option.splits)
  have s: "ship me ou deadline final named spans snaps c =
      (case hk of H_raises \<Rightarrow> say_once ''wardex.before_send_envelope''
          (count_drain_drop me ''before_send_raised'' R_BEFORE_SEND_ERROR e True spans snaps c0)
       | H_none \<Rightarrow> c0\<lparr>cl_ledger := record_items me (reason_value R_BEFORE_SEND) (int (length spans))
                             (int (length snaps)) None (cl_ledger c0)\<rparr>
       | H_envelope e1 \<Rightarrow> answered me ou final spans snaps e2 answer (c0\<lparr>cl_ledger := l2\<rparr>))"
    unfolding ship_split Let_def c0_def [symmetric] e_def [symmetric] hk_def [symmetric] call_def [symmetric]
    using hk_e at ex by (cases hk) simp_all
  have a0: "accounted c0 = accounted c" "client_ok c0"
    using assms(1) by (simp_all add: c0_def accounted_def items_def lost_items_def)
  have fresh: "i < lg_next_id (cl_ledger c)" if "i \<in> set (lg_unsent (cl_ledger c0))" for i
    using that assms(4) by (simp add: c0_def fresh_ids_def)
  show ?thesis
  proof (cases hk)
    case H_raises
    have "\<not> already_unsent e (cl_ledger c0)"
      using fresh [of "en_id e"] by (auto simp: already_unsent_def e_def)
    from count_drain_drop_accounts [OF this, where r = R_BEFORE_SEND_ERROR and me = me and readable = True
        and cause = "''before_send_raised''" and spans = spans and snaps = snaps]
    have "accounted (count_drain_drop me ''before_send_raised'' R_BEFORE_SEND_ERROR e True spans snaps c0)
        = accounted c0 + int (length spans + length snaps)"
      by (intro accounted_same) (simp_all add: Let_def e_def CLIENT_REASONS_def)
    then show ?thesis unfolding s using H_raises a0 by simp
  next
    case H_none
    have "accounted (c0\<lparr>cl_ledger := record_items me (reason_value R_BEFORE_SEND) (int (length spans))
        (int (length snaps)) None (cl_ledger c0)\<rparr>) = accounted c0 + int (length spans + length snaps)"
      by (intro accounted_same) (simp_all add: same_store_def lost_items_batch CLIENT_REASONS_def)
    then show ?thesis unfolding s using H_none a0 by simp
  next
    case (H_envelope e1)
    note f = attach_frame [OF at]
    have n: "\<not> already_unsent e2 l1"
      using f fresh [of "en_id e2"] by (auto simp: already_unsent_def e_def c0_def)
    have l1: "lost_items l1 = lost_items (cl_ledger c0)"
      using counted_attach [where l = "cl_ledger c0" and me = me and e = e] at
      by (intro lost_items_quiet) (metis snd_conv)
    have e2: "en_spans e2 = spans" "en_snapshots e2 = snaps" using f by (simp_all add: e_def)
    show ?thesis
    proof (cases "answer = A_other")
      case True
      have "shipped ou spans snaps (lost_items l2 - lost_items l1)"
        unfolding shipped_def using ex True e2 n by blast
      moreover have "accounted (answered me ou final spans snaps e2 answer (c0\<lparr>cl_ledger := l2\<rparr>)) =
          accounted c + (lost_items l2 - lost_items l1)"
      proof -
        have "accounted (answered me ou final spans snaps e2 answer (c0\<lparr>cl_ledger := l2\<rparr>)) =
            accounted (c0\<lparr>cl_ledger := l2\<rparr>)"
          by (simp only: True answered_def transport_answer.case accounted_settled)
        also have "\<dots> = accounted c0 + (lost_items l2 - lost_items l1)"
          using l1 by (simp add: accounted_def items_def)
        finally show ?thesis using a0 by simp
      qed
      ultimately show ?thesis unfolding s using H_envelope by (auto simp: Let_def)
    next
      case False
      then have q: "quiet c0 (c0\<lparr>cl_ledger := l2\<rparr>)" using l1 l2 by (intro quiet_ledger) simp
      have "accounted (answered me ou final spans snaps e2 answer (c0\<lparr>cl_ledger := l2\<rparr>)) =
          accounted c + int (length spans + length snaps)"
        using answered_accounts [of "c0\<lparr>cl_ledger := l2\<rparr>" e2 spans snaps me ou final answer] quietD(1,2) [OF q] n a0 l2 e2 False
        by simp
      then show ?thesis unfolding s using H_envelope by (auto simp: Let_def)
    qed
  qed
qed

definition swapped :: "client \<Rightarrow> client" where
  "swapped c = c\<lparr>cl_buffer := empty_buffer, cl_snapshots := [], cl_dropped := 0\<rparr>"

lemma swap_out_eq: "swap_out c = (resident c, cl_snapshots c, cl_dropped c, swapped c)"
  by (simp add: swap_out_def swapped_def)

lemma swapped_facts:
  "client_ok c \<Longrightarrow> client_ok (swapped c)" "accounted (swapped c) = accounted c - items c"
  "resident (swapped c) = []" "cl_snapshots (swapped c) = []" "cl_queue (swapped c) = cl_queue c"
  "cl_closed (swapped c) = cl_closed c" "cl_finalize_drained (swapped c) = cl_finalize_drained c"
  "fresh_ids (swapped c) = fresh_ids c" "cl_export_owner (swapped c) = cl_export_owner c"
  "cl_export_depth (swapped c) = cl_export_depth c" "cl_dropped (swapped c) = 0"
  "cl_ledger (swapped c) = cl_ledger c"
  by (auto simp: swapped_def client_ok_def buffer_ok_def empty_buffer_def accounted_def items_def fresh_ids_def)

lemma slot_fields [simp]:
  "client_ok (c\<lparr>cl_export_owner := x\<rparr>) = client_ok c" "accounted (c\<lparr>cl_export_owner := x\<rparr>) = accounted c"
  "accounted (c\<lparr>cl_export_depth := d\<rparr>) = accounted c" "fresh_ids (c\<lparr>cl_export_owner := x\<rparr>) = fresh_ids c"
  "fresh_ids (c\<lparr>cl_export_depth := d\<rparr>) = fresh_ids c" "items (c\<lparr>cl_export_owner := x\<rparr>) = items c"
  "items (c\<lparr>cl_export_depth := d\<rparr>) = items c"
  by (simp_all add: accounted_def items_def fresh_ids_def client_ok_def)

lemma acquire_slot_facts:
  assumes "acquire_export_slot me budget freed c = Some c1"
  shows "same_store c c1" "cl_ledger c1 = cl_ledger c" "cl_dropped c1 = cl_dropped c"
    "cl_export_owner c1 = Some me"
    "cl_export_depth c1 = (if cl_export_owner c = Some me then cl_export_depth c + 1 else 1)"
  using assms by (auto simp: acquire_export_slot_def same_store_def split: option.splits if_splits)

lemma end_drain_facts:
  "same_store c (end_drain n c)" "accounted (end_drain n c) = accounted c"
  "cl_export_owner (end_drain n c) = (if cl_export_depth c \<le> 1 then None else cl_export_owner c)"
  "cl_export_depth (end_drain n c) = (if cl_export_depth c \<le> 1 then 0 else cl_export_depth c - 1)"
proof -
  have q: "quiet (release_export_slot c) (end_drain n c)" by (simp add: end_drain_def Let_def)
  have r: "same_store c (release_export_slot c)" "accounted (release_export_slot c) = accounted c"
    by (simp_all add: release_export_slot_def same_store_def)
  show "same_store c (end_drain n c)" using q r(1) by (simp add: quiet_def same_store_def)
  show "accounted (end_drain n c) = accounted c" using quietD(2) [OF q] r(2) by simp
  show "cl_export_owner (end_drain n c) = (if cl_export_depth c \<le> 1 then None else cl_export_owner c)"
    "cl_export_depth (end_drain n c) = (if cl_export_depth c \<le> 1 then 0 else cl_export_depth c - 1)"
    using quietD(8,9) [OF q] by (simp_all add: release_export_slot_def)
qed

text \<open>The slot is a reentrant lock: taken zero or more times by one thread.\<close>

definition slot_ok :: "client \<Rightarrow> bool" where
  "slot_ok c \<longleftrightarrow> (cl_export_owner c = None) = (cl_export_depth c = 0)"

definition abandoned :: "thread \<Rightarrow> client \<Rightarrow> client" where
  "abandoned me c = report_lost me (items c) ''client.close.behind_an_export''
     (if cl_dropped c \<noteq> 0 then report_buffer_evicted (cl_dropped c) (swapped c) else swapped c)"

lemma abandon_eq: "abandon me c = abandoned me c"
  by (simp add: abandon_def swap_out_eq abandoned_def items_def)

lemma abandon_facts:
  assumes "client_ok c"
  shows "client_ok (abandon me c)" "accounted (abandon me c) = accounted c"
    "resident (abandon me c) = []" "cl_snapshots (abandon me c) = []" "cl_queue (abandon me c) = cl_queue c"
    "cl_closed (abandon me c) = cl_closed c" "cl_finalize_drained (abandon me c) = cl_finalize_drained c"
    "cl_export_owner (abandon me c) = cl_export_owner c" "cl_export_depth (abandon me c) = cl_export_depth c"
proof -
  let ?c = "if cl_dropped c \<noteq> 0 then report_buffer_evicted (cl_dropped c) (swapped c) else swapped c"
  have q: "quiet (swapped c) ?c" by simp
  note d = quietD [OF q] swapped_facts(1) [OF assms] swapped_facts(2-) [of c]
  have i: "0 \<le> items c" by (simp add: items_def)
  have "accounted (report_lost me (items c) k ?c) = accounted ?c + items c" for k
    by (rule accounted_same) (simp_all add: lost_items_report i)
  with d show "client_ok (abandon me c)" "accounted (abandon me c) = accounted c"
    "resident (abandon me c) = []" "cl_snapshots (abandon me c) = []" "cl_queue (abandon me c) = cl_queue c"
    "cl_closed (abandon me c) = cl_closed c" "cl_finalize_drained (abandon me c) = cl_finalize_drained c"
    "cl_export_owner (abandon me c) = cl_export_owner c" "cl_export_depth (abandon me c) = cl_export_depth c"
    unfolding abandon_eq abandoned_def by (simp_all del: if_split)
qed

text \<open>One drain, in terms of the client that holds the slot.\<close>

lemma drain_taken:
  assumes "acquire_export_slot me budget (ou_freed ou) c = Some c1"
  shows "\<exists>deadline name. drain me ou budget final named requested c = end_drain (cl_dropped c)
    (if resident c = [] \<and> cl_snapshots c = [] \<and> \<not> due (ou_carries ou) final (ou_now ou) (cl_ledger c)
     then flush_transport me ou (swapped c1)
     else ship me ou deadline final name (resident c) (cl_snapshots c) (swapped c1))"
proof -
  have f: "resident c1 = resident c" "cl_snapshots c1 = cl_snapshots c" "cl_dropped c1 = cl_dropped c"
    "cl_ledger (swapped c1) = cl_ledger c"
    using acquire_slot_facts [OF assms] swapped_facts(12) [of c1] by (simp_all add: same_store_def)
  show ?thesis unfolding drain_def Let_def assms option.case swap_out_eq f prod.case by blast
qed

lemma drain_facts:
  assumes "client_ok c"
  shows "client_ok (drain me ou budget final named requested c) \<and>
    cl_queue (drain me ou budget final named requested c) = cl_queue c \<and>
    cl_closed (drain me ou budget final named requested c) = cl_closed c \<and>
    cl_finalize_drained (drain me ou budget final named requested c) = cl_finalize_drained c \<and>
    (final \<longrightarrow> resident (drain me ou budget final named requested c) = [] \<and>
       cl_snapshots (drain me ou budget final named requested c) = []) \<and>
    (slot_ok c \<longrightarrow> slot_ok (drain me ou budget final named requested c)) \<and>
    (vetoes_only ou \<longrightarrow> declines_cleanly ou \<longrightarrow> fresh_ids c \<longrightarrow>
       accounted (drain me ou budget final named requested c) = accounted c \<or>
       (\<exists>k. accounted (drain me ou budget final named requested c) = accounted c - items c + k \<and>
          shipped ou (resident c) (cl_snapshots c) k))"
proof (cases "acquire_export_slot me budget (ou_freed ou) c")
  case None
  then show ?thesis using assms abandon_facts [OF assms, of me] by (simp add: drain_def slot_ok_def)
next
  case (Some c1)
  obtain deadline name where d: "drain me ou budget final named requested c = end_drain (cl_dropped c)
    (if resident c = [] \<and> cl_snapshots c = [] \<and> \<not> due (ou_carries ou) final (ou_now ou) (cl_ledger c)
     then flush_transport me ou (swapped c1)
     else ship me ou deadline final name (resident c) (cl_snapshots c) (swapped c1))"
    using drain_taken [OF Some] by blast
  define c3 where "c3 = (if resident c = [] \<and> cl_snapshots c = [] \<and> \<not> due (ou_carries ou) final (ou_now ou) (cl_ledger c)
     then flush_transport me ou (swapped c1)
     else ship me ou deadline final name (resident c) (cl_snapshots c) (swapped c1))"
  note a = acquire_slot_facts [OF Some]
  have ok: "client_ok c1" "client_ok (swapped c1)"
    using client_ok_same [OF a(1)] assms swapped_facts(1) [of c1] by simp_all
  have acc: "accounted (swapped c1) = accounted c - items c" "fresh_ids (swapped c1) = fresh_ids c"
    using a swapped_facts [of c1] by (simp_all add: accounted_def items_def same_store_def fresh_ids_def)
  have k: "kept_apart final (swapped c1) c3"
    unfolding c3_def using ship_keeps [OF ok(2)] kept_apart_quiet [OF kept_apart_same [OF ok(2)] quiet_flush] by simp
  have ac: "accounted c3 = accounted c \<or>
      (\<exists>k. accounted c3 = accounted c - items c + k \<and> shipped ou (resident c) (cl_snapshots c) k)"
    if "vetoes_only ou" "declines_cleanly ou" "fresh_ids c"
    using ship_accounts [OF ok(2) that(1,2), of me deadline final name "resident c" "cl_snapshots c"] that acc
    by (auto simp: c3_def Let_def items_def)
  note e = end_drain_facts [where c = c3 and n = "cl_dropped c"]
  have w: "drain me ou budget final named requested c = end_drain (cl_dropped c) c3"
    unfolding d c3_def ..
  show ?thesis
    unfolding w using e k a ac swapped_facts [of c1] client_ok_same [OF e(1)]
    by (auto simp: kept_apart_def same_store_def slot_ok_def)
qed

section \<open>Whole operations\<close>

lemma capture_span_facts:
  assumes "client_ok c"
  shows "client_ok (capture_span me pid scope s c) \<and>
    accounted (capture_span me pid scope s c) = accounted c + (if capture_raises pid c then 0 else 1)"
  using assms client_ok_admit accounted_admit
  by (auto simp: capture_span_def capture_raises_def accounted_def items_def lost_items_lose)

lemma capture_snapshot_facts:
  assumes "client_ok c"
  shows "client_ok (capture_snapshot me pid x c) \<and>
    accounted (capture_snapshot me pid x c) = accounted c + (if snapshot_raises pid c then 0 else 1)"
  using assms
  by (cases "cl_snapshots c") (auto simp: capture_snapshot_def snapshot_raises_def Let_def accounted_def items_def lost_items_lose client_ok_def)

lemma client_ok_queue: "client_ok c \<Longrightarrow> queue_ok q \<Longrightarrow> client_ok (c\<lparr>cl_queue := q\<rparr>)"
  by (simp add: client_ok_def)

lemma finish_parses_facts:
  assumes "client_ok c"
  shows "client_ok (finish_parses me pid d clock lo c)"
    "cl_closed (finish_parses me pid d clock lo c) = cl_closed c"
    "lo = FALLBACK \<Longrightarrow> fq_entries (cl_queue (finish_parses me pid d clock lo c)) = []"
proof -
  obtain n es q where r: "drain_all pid (Some d) clock lo (cl_queue c) = (n, es, q)" by (metis prod_cases3)
  have "client_ok (c\<lparr>cl_queue := q\<rparr>)"
    using queue_ok_drain [of "cl_queue c" pid "Some d" clock lo] assms r
    by (intro client_ok_queue) (simp_all add: client_ok_def)
  note f = run_events_ok [OF this, of me pid es] run_events_frame [OF this, of me pid es]
  show "client_ok (finish_parses me pid d clock lo c)"
    "cl_closed (finish_parses me pid d clock lo c) = cl_closed c"
    using f by (simp_all add: finish_parses_def r)
  show "fq_entries (cl_queue (finish_parses me pid d clock lo c)) = []" if "lo = FALLBACK"
    using f r that by (auto simp: finish_parses_def drain_all_def Let_def split: prod.splits)
qed

lemma client_ok_drain: "client_ok c \<Longrightarrow> client_ok (drain me ou b final named rq c)"
  using drain_facts by blast

lemma client_ok_flush:
  assumes "client_ok c"
  shows "client_ok (flush me pid m t x s clock ou c)" "client_ok (shutdown_flush me pid m t s clock ou c)"
  using finish_parses_facts(1) [OF assms] client_ok_drain
  by (auto simp: flush_def shutdown_flush_def Let_def split: timeout.splits bool.splits)

lemma client_ok_stops: "client_ok c \<Longrightarrow> client_ok (stop_finalize pid (stop_worker pid c))"
  by (simp add: stop_finalize_def stop_worker_def client_ok_def stop_queue_def queue_ok_def)

lemma client_ok_close:
  assumes "client_ok c"
  shows "client_ok (close me pid m t st s clock ou raises c)"
proof -
  have q: "client_ok (close_transport me raises x) = client_ok x" for x
    using quietD(1) [OF quiet_raised] by (simp add: close_transport_def)
  show ?thesis
    using assms by (simp add: close_def Let_def q client_ok_drain finish_parses_facts(1) client_ok_stops)
qed

lemma client_ok_deferred:
  assumes "client_ok c" "0 \<le> jb_size job"
  shows "client_ok (capture_deferred me pid job js as c)"
proof -
  have t: "client_ok (case submit job sc (cl_queue x) of (es, q) \<Rightarrow> run_events me pid es (x\<lparr>cl_queue := q\<rparr>))"
    if "client_ok x" for x sc
  proof -
    obtain es q where r: "submit job sc (cl_queue x) = (es, q)" by fastforce
    have "queue_ok q" using queue_ok_submit [of "cl_queue x" job sc] that assms(2) r by (simp add: client_ok_def)
    then show ?thesis using run_events_ok client_ok_queue that by (simp add: r)
  qed
  obtain sc c1 where sc: "(case js of
                 Some s \<Rightarrow> (s, c)
               | None \<Rightarrow> (case as of
                            Some s \<Rightarrow> (s, c)
                          | None \<Rightarrow> (([], None), swallow me ''client.scope_stamp'' c))) = (sc, c1)"
    by fastforce
  then have ok: "client_ok c1" using assms(1) by (auto split: option.splits)
  then have o: "client_ok (c1\<lparr>cl_queue := own_in_flight pid (cl_queue c1), cl_finalize_worker := x\<rparr>)" for x
    by (simp add: client_ok_def)
  show ?thesis
  proof (cases "cl_closed c")
    case True
    then show ?thesis using assms(1) by (simp add: capture_deferred_def)
  next
    case False
    then show ?thesis
      unfolding capture_deferred_def sc prod.case Let_def if_not_P [OF False]
      using run_events_ok [of "swallow me ''client.finalize.spawn'' _"] o t
      by (cases "ensure_alive_raises pid (cl_finalize_worker c1)")
        (simp_all only: not_True_eq_False not_False_eq_True if_True if_False client_ok_frame client_ok_fields simp_thms)
  qed
qed

section \<open>Reachable clients\<close>

text \<open>Whole operations, and the halves of those that let other threads in: a batch swapped
  out, given back later or abandoned, a queue worker's take and finish, its admission.\<close>

inductive client_step :: "client \<Rightarrow> client \<Rightarrow> bool" where
  cs_capture: "client_step c (capture_span me pid scope s c)"
| cs_deferred: "0 \<le> jb_size job \<Longrightarrow> client_step c (capture_deferred me pid job js as c)"
| cs_snapshot: "client_step c (capture_snapshot me pid x c)"
| cs_flush: "client_step c (flush me pid m t ex began clock ou c)"
| cs_shutdown: "client_step c (shutdown_flush me pid m t began clock ou c)"
| cs_periodic: "client_step c (periodic_drain me ou c)"
| cs_close: "client_step c (close me pid m t st began clock ou raises c)"
| cs_fork: "client_step c (client_at_fork_reinit c)"
| cs_mp: "client_step c (snd (register_mp_tail_flush loaded c))"
| cs_swap: "client_step c (swapped c)"
| cs_back: "client_step c (give_back me final spans snaps c)"
| cs_abandon: "client_step c (abandon me c)"
| cs_take: "take_job pid (cl_queue c) = Some (e, q) \<Longrightarrow> client_step c (c\<lparr>cl_queue := q\<rparr>)"
| cs_finish: "client_step c (c\<lparr>cl_queue := finish_job (cl_queue c)\<rparr>)"
| cs_events: "client_step c (run_events me pid es c)"
| cs_threads: "client_step c (c\<lparr>cl_worker := w, cl_finalize_worker := w'\<rparr>)"

inductive client_reach :: "client \<Rightarrow> bool" where
  cr_start: "0 \<le> max_job_bytes \<Longrightarrow> client_reach (new_client max_spans max_bytes max_jobs max_job_bytes l)"
| cr_step: "client_reach c \<Longrightarrow> client_step c c' \<Longrightarrow> client_reach c'"

lemma client_ok_fork: "client_ok c \<Longrightarrow> client_ok (client_at_fork_reinit c)"
  by (auto simp: client_at_fork_reinit_def Let_def client_ok_def queue_ok_def queue_at_fork_reinit_def)

lemma client_step_ok:
  assumes "client_step c c'" "client_ok c"
  shows "client_ok c'"
  using assms
proof (cases rule: client_step.cases)
  case (cs_take pid e q)
  then show ?thesis using assms(2) queue_ok_take client_ok_queue by (metis client_ok_def)
next
  case cs_finish
  then show ?thesis using assms(2) by (simp add: client_ok_def finish_job_def queue_ok_def)
next
  case (cs_mp loaded)
  then show ?thesis using assms(2) by (auto simp: register_mp_tail_flush_def client_ok_def)
qed (simp_all add: capture_span_facts client_ok_deferred capture_snapshot_facts client_ok_flush
      periodic_drain_def client_ok_drain client_ok_close client_ok_fork swapped_facts give_back_facts
      abandon_facts run_events_ok)

lemma client_reach_ok: "client_reach c \<Longrightarrow> client_ok c"
proof (induction rule: client_reach.induct)
  case (cr_start max_job_bytes max_spans max_bytes max_jobs l)
  then show ?case by (simp add: new_client_def client_ok_def new_queue_def queue_ok_def empty_buffer_def buffer_ok_def)
next
  case (cr_step c c')
  then show ?case using client_step_ok by blast
qed

section \<open>Properties\<close>

text \<open>C8: resident memory is bounded in every reachable state, whatever captures, drains,
  returned batches, closes and forks interleave. The byte counter is the weight of the
  spans resident; no more spans and no more snapshots are resident than the span bound
  (one, when it is zero); the weight exceeds the byte bound only for a single span.\<close>

theorem client_within_bounds:
  assumes "client_reach c"
  shows "sb_bytes (cl_buffer c) = weight (resident c) \<and>
    length (resident c) \<le> max 1 (cl_max_buffer_spans c) \<and>
    (weight (resident c) \<le> cl_max_buffer_bytes c \<or> length (resident c) \<le> 1) \<and>
    length (cl_snapshots c) \<le> max 1 (cl_max_buffer_spans c) \<and>
    pending_bytes (cl_queue c) \<le> fq_max_bytes (cl_queue c)"
  using client_reach_ok [OF assms] by (auto simp: client_ok_def buffer_ok_def queue_ok_def pending_bytes_def)

definition idle_client :: client where
  "idle_client = new_client 2 2000 4 4000 (fresh_ledger 0 7 1)"

lemma idle_client_facts:
  "client_reach idle_client" "\<not> cl_closed idle_client" "\<not> cl_finalize_drained idle_client"
  "cl_snapshots idle_client = []" "resident idle_client = []" "fresh_ids idle_client" "items idle_client = 0"
  "cl_queue idle_client = new_queue 4 4000" "cl_dropped idle_client = 0" "\<not> ensure_alive_raises p (cl_worker idle_client)"
  unfolding idle_client_def
  by (rule cr_start) (simp_all add: new_client_def empty_buffer_def fresh_ids_def fresh_ledger_def items_def
      ensure_alive_raises_def new_worker_def)

definition sample_client :: client where
  "sample_client = capture_span 0 7 (S_snapshot ([], None)) (bare_span 1 0) idle_client"

lemma sample_client_reach: "client_reach sample_client"
  unfolding sample_client_def by (rule cr_step [OF idle_client_facts(1) cs_capture])

lemma sample_client_open: "\<not> cl_closed sample_client" "\<not> cl_finalize_drained sample_client"
  using admit_frame(2,3) [OF client_reach_ok [OF idle_client_facts(1)]] idle_client_facts(2,3)
  by (simp_all add: sample_client_def capture_span_def)

lemma sample_client_worker: "\<not> capture_raises 7 sample_client"
  by code_simp

theorem client_within_bounds_witness: "length (resident sample_client) \<le> max 1 (cl_max_buffer_spans sample_client)"
  using client_within_bounds [OF sample_client_reach] by blast

text \<open>A capture keeps the newest. On a client that still drains, and can have its worker, the captured span is
  resident last, stamped or untouched; it displaces exactly the oldest spans it has to,
  none when it fits; and one that is too large even for an empty buffer is kept alone.\<close>

theorem capture_keeps_newest:
  assumes "client_reach c" "\<not> cl_closed c" "\<not> cl_finalize_drained c" "\<not> capture_raises pid c"
  shows "\<exists>n \<le> length (resident c). \<exists>x.
    (x = s \<or> (\<exists>merged. x = stamp_scope merged s)) \<and>
    resident (capture_span me pid scope s c) = drop n (resident c) @ [x] \<and>
    (n = length (resident c) \<or> fits c (span_size x) (drop n (resident c))) \<and>
    (\<forall>i < n. \<not> fits c (span_size x) (drop i (resident c)))"
  using admit_open [OF assms(3) _ client_okD [OF client_reach_ok [OF assms(1)]], of pid me scope s] assms(2,4)
  by (auto simp: capture_span_def capture_raises_def Let_def)

theorem capture_keeps_newest_witness:
  "\<exists>n x. resident (capture_span 0 7 (S_ambient None) (bare_span 2 0) sample_client) = drop n (resident sample_client) @ [x]"
  using capture_keeps_newest [OF sample_client_reach sample_client_open sample_client_worker, of "bare_span 2 0" 0 "S_ambient None"]
  by blast


definition declining :: outside where
  "declining = \<lparr>ou_freed = False, ou_hook = None, ou_readable = (\<lambda>_. True), ou_carries = None,
     ou_accepts_timeout = True, ou_export = (\<lambda>_ _ l. (A_undelivered, l)), ou_flush_raises = False,
     ou_time_ns = 0, ou_now = 0, ou_now_export = 0\<rparr>"



lemma drain_slot:
  assumes "client_ok c" "acquire_export_slot me budget (ou_freed ou) c = Some c1"
  shows "cl_export_owner (drain me ou budget final named requested c) =
      (if cl_export_depth c1 \<le> 1 then None else cl_export_owner c1)"
    "cl_export_depth (drain me ou budget final named requested c) =
      (if cl_export_depth c1 \<le> 1 then 0 else cl_export_depth c1 - 1)"
proof -
  obtain deadline name where d: "drain me ou budget final named requested c = end_drain (cl_dropped c)
    (if resident c = [] \<and> cl_snapshots c = [] \<and> \<not> due (ou_carries ou) final (ou_now ou) (cl_ledger c)
     then flush_transport me ou (swapped c1)
     else ship me ou deadline final name (resident c) (cl_snapshots c) (swapped c1))"
    using drain_taken [OF assms(2)] by blast
  have ok: "client_ok (swapped c1)"
    using client_ok_same [OF acquire_slot_facts(1) [OF assms(2)]] assms(1) swapped_facts(1) [of c1] by simp
  have k: "kept_apart final (swapped c1) (if resident c = [] \<and> cl_snapshots c = [] \<and>
        \<not> due (ou_carries ou) final (ou_now ou) (cl_ledger c)
     then flush_transport me ou (swapped c1)
     else ship me ou deadline final name (resident c) (cl_snapshots c) (swapped c1))"
    using ship_keeps [OF ok] kept_apart_quiet [OF kept_apart_same [OF ok] quiet_flush] by simp
  show "cl_export_owner (drain me ou budget final named requested c) =
      (if cl_export_depth c1 \<le> 1 then None else cl_export_owner c1)"
    "cl_export_depth (drain me ou budget final named requested c) =
      (if cl_export_depth c1 \<le> 1 then 0 else cl_export_depth c1 - 1)"
    unfolding d end_drain_facts(3,4) using k swapped_facts(9,10) [of c1] by (simp_all only: kept_apart_def simp_thms)
qed

text \<open>C31: the export slot always comes back. A drain that found the slot free leaves it
  free; one that re-entered on the thread that holds it leaves that hold as deep as it
  was, whatever the hook and the transport did, raises included; and one that could not
  get it within its budget, unless it is the last, changes nothing at all, so the spans
  are still there for the next.\<close>

theorem export_slot_comes_back:
  assumes "client_reach c"
  shows "let c' = drain me ou budget final named requested c in
    (cl_export_owner c = None \<longrightarrow> cl_export_owner c' = None \<and> cl_export_depth c' = 0) \<and>
    (cl_export_owner c = Some me \<and> 1 \<le> cl_export_depth c \<longrightarrow>
       cl_export_owner c' = Some me \<and> cl_export_depth c' = cl_export_depth c) \<and>
    (acquire_export_slot me budget (ou_freed ou) c = None \<and> \<not> final \<longrightarrow> c' = c)"
proof (cases "acquire_export_slot me budget (ou_freed ou) c")
  case None
  then show ?thesis by (auto simp: drain_def acquire_export_slot_def split: option.splits if_splits)
next
  case (Some c1)
  note s = drain_slot [OF client_reach_ok [OF assms] Some] acquire_slot_facts(4,5) [OF Some]
  show ?thesis unfolding Let_def s using Some by auto
qed

theorem export_slot_comes_back_witness:
  "cl_export_owner (drain 0 declining None True False None idle_client) = None"
  using export_slot_comes_back [OF idle_client_facts(1), of 0 declining None True False None]
  by (simp add: Let_def idle_client_def new_client_def)



lemma bare_span_size: "span_size (bare_span i n) = 512 + int n"
  by (simp add: bare_span_def span_size_def SPAN_OVERHEAD_BYTES_def)



text \<open>Which spans of a declined batch are evicted. Not always the oldest of the batch:
  a large newer span that no longer fits is evicted and a smaller, older one is still put
  back after it.\<close>

theorem older_span_may_outlive_newer:
  "resident (give_back 0 False [bare_span 1 0, bare_span 2 1000] []
     (idle_client\<lparr>cl_buffer := buffer_append (bare_span 3 0) 512 empty_buffer, cl_max_buffer_spans := 10\<rparr>))
   = [bare_span 1 0, bare_span 3 0]"
  by (simp add: give_back_def return_to_buffer_def idle_client_def new_client_def buffer_append_def
      buffer_prepend_def empty_buffer_def bare_span_size lose_item_def Let_def)

text \<open>A tail lost at shutdown is counted in one unit. Abandoning it, and giving back a
  batch the last drain could not ship, count every snapshot of it as a span: the spans'
  tally rises by the number of items and the snapshots' does not move.\<close>

theorem shutdown_tail_counts_snapshots_as_spans:
  "counted (cl_ledger (abandon me c)) (R_SHUTDOWN_TAIL, U_SPAN) =
     counted (cl_ledger c) (R_SHUTDOWN_TAIL, U_SPAN) + int (length (resident c)) + int (length (cl_snapshots c)) \<and>
   counted (cl_ledger (abandon me c)) (R_SHUTDOWN_TAIL, U_SNAPSHOT) =
     counted (cl_ledger c) (R_SHUTDOWN_TAIL, U_SNAPSHOT)"
proof -
  have "cl_ledger (report_buffer_evicted n c) = cl_ledger c" for n c by (simp add: report_buffer_evicted_def)
  then show ?thesis
    by (simp add: abandon_eq abandoned_def report_lost_counted items_def swapped_facts(12))
qed

text \<open>C28: close leaves nothing behind. Whatever was resident, queued or in a snapshot, and
  whatever the transport, the hook and the slot did, after \<open>close\<close> no span, no snapshot
  and no parse is left in the client, a second close changes nothing, and a capture or a late parse afterwards is counted as lost and never kept.\<close>

theorem close_leaves_nothing:
  assumes "client_reach c" "\<not> cl_closed c"
  shows "let c' = close me pid tm t st began clock ou raises c in
    resident c' = [] \<and> cl_snapshots c' = [] \<and> fq_entries (cl_queue c') = [] \<and>
    cl_closed c' \<and>
    close me' pid' tm' t' st' began' clock' ou' raises' c' = c' \<and>
    resident (capture_span me' pid' scope s c') = [] \<and> accounted (capture_span me' pid' scope s c') = accounted c' + 1 \<and>
    resident (admit me' pid' scope s c') = [] \<and> accounted (admit me' pid' scope s c') = accounted c' + 1"
proof -
  define b where "b = seconds (sanitize_timeout tm (case t of T_unnamed _ _ True \<Rightarrow> T_named st | _ \<Rightarrow> t))"
  define c1 where "c1 = stop_finalize pid (stop_worker pid (c\<lparr>cl_closed := True\<rparr>))"
  define c2 where "c2 = (finish_parses me pid (began + b) clock FALLBACK c1)\<lparr>cl_finalize_drained := True\<rparr>"
  define c3 where "c3 = drain me ou (Some b) True (named_by_caller t) None c2"
  have e: "close me pid tm t st began clock ou raises c = close_transport me raises c3"
    using assms(2) by (simp add: close_def Let_def b_def c1_def c2_def c3_def)
  have q: "quiet c3 (close_transport me raises c3)" by (simp add: close_transport_def)
  have ok1: "client_ok c1" "cl_closed c1"
    using client_ok_stops [of "c\<lparr>cl_closed := True\<rparr>" pid] client_reach_ok [OF assms(1)]
    by (simp_all only: c1_def client_ok_fields) (simp add: stop_finalize_def stop_worker_def)
  note f = finish_parses_facts [OF ok1(1), where me = me and pid = pid and d = "began + b" and clock = clock and lo = FALLBACK]
  have ok2: "client_ok c2" "cl_closed c2" "cl_finalize_drained c2" "fq_entries (cl_queue c2) = []"
    using f ok1 by (simp_all add: c2_def)
  note d = drain_facts [OF ok2(1), of me ou "Some b" True "named_by_caller t" None, folded c3_def]
  let ?c = "close me pid tm t st began clock ou raises c"
  have r: "resident ?c = []" "cl_snapshots ?c = []" "fq_entries (cl_queue ?c) = []" "cl_closed ?c" "cl_finalize_drained ?c"
    "client_ok ?c"
    unfolding e using quietD [OF q] d ok2 by simp_all
  have "close me' pid' tm' t' st' began' clock' ou' raises' ?c = ?c" using r(4) by (simp add: close_def Let_def)
  moreover have "resident (capture_span me' pid' scope s ?c) = []" using r by (simp add: capture_span_def)
  moreover have "resident (admit me' pid' scope s ?c) = []" using r by (simp add: admit_drained)
  ultimately show ?thesis
    unfolding Let_def using r capture_span_facts [OF r(6)] accounted_admit [OF r(6)] by (simp add: capture_raises_def drained_never_raises)
qed

theorem close_leaves_nothing_witness:
  "resident (close 0 7 100 (T_named (PFin 2)) (PFin 5) 0 (\<lambda>_. 0) declining False sample_client) = []"
  using close_leaves_nothing [OF sample_client_reach sample_client_open(1), of 0 7 100 "T_named (PFin 2)" "PFin 5" 0
      "\<lambda>_. 0" declining False]
  by (simp add: Let_def)

text \<open>A fork child keeps its own account. The child of an open client has nothing of the
  parent's to ship, no parse waiting, counters at zero and a free export slot, so the
  first drain in it is granted at any budget whoever held the slot in the parent; the
  child of a closed client stays closed.\<close>

theorem fork_child_owns_nothing:
  "let c' = client_at_fork_reinit c in
    cl_export_owner c' = None \<and> cl_closed c' = cl_closed c \<and> fq_entries (cl_queue c') = [] \<and>
    acquire_export_slot me budget freed c' \<noteq> None \<and> wk_spawning_pid (cl_worker c') = None \<and>
    (if cl_closed c then resident c' = resident c
     else resident c' = [] \<and> cl_snapshots c' = [] \<and> cl_dropped c' = 0 \<and> cl_lost c' = 0)"
  by (simp add: client_at_fork_reinit_def Let_def queue_at_fork_reinit_def worker_at_fork_reinit_def
      acquire_export_slot_def empty_buffer_def)

text \<open>Every budget is one the timed waits accept. Whatever the application passed or
  the transport configured (a NaN, an infinity, a negative number, nothing readable), the
  budget is a finite number between zero and the platform's limit, or the default; a
  number that was usable is passed on unchanged; and the transport's own is never zero.\<close>

theorem budgets_are_usable:
  assumes "DEFAULT_TIMEOUT \<le> tm"
  shows "(\<exists>x. sanitize_timeout tm t = PFin x \<and> 0 \<le> x \<and> x \<le> tm) \<and>
    (0 \<le> y \<and> y \<le> tm \<longrightarrow> sanitize_timeout tm (T_named (PFin y)) = PFin y) \<and>
    (\<exists>x. configured_transport_timeout tm read = PFin x \<and> 0 < x \<and> x \<le> tm)"
proof -
  have d: "0 < DEFAULT_TIMEOUT" by (simp add: DEFAULT_TIMEOUT_def)
  have v: "\<exists>x. (if is_nan v then PFin DEFAULT_TIMEOUT else if pf_less v (PFin 0) then PFin 0
      else py_min v (PFin tm)) = PFin x \<and> 0 \<le> x \<and> x \<le> tm" for v
    using assms d by (cases v) (auto simp: py_min_def is_nan_def)
  have "\<exists>x. sanitize_timeout tm t = PFin x \<and> 0 \<le> x \<and> x \<le> tm"
    using v assms d by (cases t) (auto simp: sanitize_timeout_def)
  moreover have "0 \<le> y \<and> y \<le> tm \<longrightarrow> sanitize_timeout tm (T_named (PFin y)) = PFin y"
    by (auto simp: sanitize_timeout_def py_min_def is_nan_def)
  moreover have "\<exists>x. configured_transport_timeout tm read = PFin x \<and> 0 < x \<and> x \<le> tm"
  proof (cases read)
    case (Some w)
    then show ?thesis using assms d
      by (cases w) (auto simp: configured_transport_timeout_def py_min_def is_nan_def pf_le_def)
  qed (use assms d in \<open>auto simp: configured_transport_timeout_def\<close>)
  ultimately show ?thesis by blast
qed

theorem budgets_are_usable_witness: "\<exists>x. sanitize_timeout 9 (T_named PNaN) = PFin x \<and> 0 \<le> x \<and> x \<le> 9"
  using budgets_are_usable [of 9 "T_named PNaN" 0 None] by (simp add: DEFAULT_TIMEOUT_def)

end
