(* ===== verification/Units.thy ===== *)
theory Units
  imports Parentage
begin

text \<open>
  Logical units, \<open>_assembly/_units.py\<close>, and the ids a bound dropped,
  \<open>_assembly/_forgotten.py\<close>.

  Units and drafts are objects the code shares and mutates, so they live in a heap: a
  unit or a draft is a number, \<open>us_unit\<close> and \<open>us_draft\<close> read the object it names, and
  the record \<open>units\<close> is one registry together with the heap. A unit of another
  registry is one whose \<open>un_registry\<close> is not \<open>us_self\<close>. A dictionary keyed by units is
  the list of its keys in insertion order; a dictionary with values an association list.

  A parent is always older than its child, so a walk up the parents is bounded by the
  next free number (\<open>chain\<close>), and a walk down the children by the same number
  (\<open>collect\<close>): \<open>Units_Laws\<close> shows that neither bound is ever reached.

  The clock, the random ids and the task running now are arguments. What the ContextVar
  \<open>_ambient_unit\<close> holds in the calling context is the argument \<open>here\<close> of an operation
  that reads it. A draft with \<open>dr_faulty\<close> stands for one whose building raises, which
  the \<open>guard\<close> around it swallows. Handing a draft to the sink appends it to
  \<open>us_emitted\<close>; what the sink does with it is not part of the registry.
\<close>

section \<open>Objects\<close>

datatype unit_kind = SESSION | AGENT | STEP | CALL

record unit_key =
  uk_namespace :: py_text
  uk_value :: py_text

type_synonym unit_id = nat
type_synonym draft_id = nat
type_synonym task = nat

datatype status_code = S_UNSET | S_OK | S_ERROR

record draft =
  dr_context :: span_context
  dr_conversation :: "conversation option"
  dr_limitations :: "limitation list"
  dr_io :: "(bytes \<times> bytes \<times> bool \<times> bool) option"
  dr_truncated :: bool
  dr_status :: status_code
  dr_error_type :: "py_text option"
  dr_end :: "int option"
  dr_emitted :: bool
  dr_faulty :: bool

record open_draft =
  od_draft :: draft_id
  od_claim_key :: "unit_key option"
  od_rank :: int

record work_unit =
  un_registry :: nat
  un_key :: unit_key
  un_kind :: unit_kind
  un_owner :: "py_text option"
  un_draft :: draft_id
  un_parentage :: parentage
  un_conversation :: "conversation option"
  un_tracestate :: "py_text option"
  un_parent :: "unit_id option"
  un_live :: bool
  un_evicted :: bool
  un_children :: "unit_id list"
  un_alias_keys :: "unit_key list"
  un_remembered :: "(unit_key \<times> span_context) list"
  un_claims :: "(unit_key \<times> int) list"
  un_open :: "open_draft list"
  un_input :: bytes
  un_output :: bytes
  un_input_recorded :: bool
  un_output_recorded :: bool
  un_input_truncated :: bool
  un_output_truncated :: bool

record ambient_unit =
  au_unit :: unit_id
  au_owner :: task
  au_pinned :: bool

text \<open>\<open>_Carrier\<close> of a pin: told from another by \<open>pn_no\<close>; \<open>pn_previous\<close> is what the
  ContextVar held before. \<open>PinToken\<close> holds the carrier it stands for, if any.\<close>

record pin =
  pn_no :: nat
  pn_owner :: task
  pn_previous :: "ambient_unit option"

record pin_token =
  pt_unit :: unit_id
  pt_carrier :: "pin option"
  pt_installed :: bool

record units =
  us_self :: nat
  us_max_units :: nat
  us_max_entries :: nat
  us_max_links :: nat
  us_max_record :: nat
  us_unit :: "unit_id \<Rightarrow> work_unit"
  us_draft :: "draft_id \<Rightarrow> draft"
  us_next_unit :: unit_id
  us_next_draft :: draft_id
  us_roots :: "unit_id list"
  us_live :: "unit_id list"
  us_pins :: "(unit_id \<times> pin) list"
  us_next_pin :: nat
  us_retired :: "unit_id list"
  us_by_alias :: "(unit_key \<times> unit_id) list"
  us_link_memory :: "(unit_key \<times> span_context) list"
  us_forgot_key :: "(unit_key \<times> unit_id) list"
  us_forgot_unit :: "(unit_id \<times> unit_key list) list"
  us_counters :: counters
  us_emitted :: "draft_id list"

definition count :: "string \<Rightarrow> units \<Rightarrow> units" where
  "count name s = s\<lparr>us_counters := us_counters s @ [''assembly._units.'' @ name]\<rparr>"

definition set_unit :: "unit_id \<Rightarrow> (work_unit \<Rightarrow> work_unit) \<Rightarrow> units \<Rightarrow> units" where
  "set_unit u f s = s\<lparr>us_unit := (us_unit s)(u := f (us_unit s u))\<rparr>"

definition set_draft :: "draft_id \<Rightarrow> (draft \<Rightarrow> draft) \<Rightarrow> units \<Rightarrow> units" where
  "set_draft d f s = s\<lparr>us_draft := (us_draft s)(d := f (us_draft s d))\<rparr>"

definition is_live :: "units \<Rightarrow> unit_id \<Rightarrow> bool" where
  "is_live s u = un_live (us_unit s u)"

definition unit_context :: "units \<Rightarrow> unit_id \<Rightarrow> span_context" where
  "unit_context s u = dr_context (us_draft s (un_draft (us_unit s u)))"

definition IN_UNIT :: evidence where
  "IN_UNIT = evidence_of UNIT_ACTIVE"

text \<open>\<open>SpanDraft.__init__\<close>, as far as the registry reads a draft.\<close>

definition new_draft :: "span_id \<Rightarrow> parentage \<Rightarrow> bool \<Rightarrow> draft" where
  "new_draft fresh_span p faulty =
     \<lparr>dr_context = child_context fresh_span p, dr_conversation = pa_conversation p,
      dr_limitations = rev (remdups (rev (pa_limitations p))), dr_io = None, dr_truncated = False,
      dr_status = S_UNSET, dr_error_type = None, dr_end = None, dr_emitted = False, dr_faulty = faulty\<rparr>"

definition add_limitation :: "limitation \<Rightarrow> draft \<Rightarrow> draft" where
  "add_limitation marker d =
     (if marker \<in> set (dr_limitations d) then d else d\<lparr>dr_limitations := dr_limitations d @ [marker]\<rparr>)"

definition alloc_draft :: "draft \<Rightarrow> units \<Rightarrow> draft_id \<times> units" where
  "alloc_draft d s = (us_next_draft s,
     s\<lparr>us_draft := (us_draft s)(us_next_draft s := d), us_next_draft := us_next_draft s + 1\<rparr>)"

section \<open>Walking up\<close>

fun chain :: "nat \<Rightarrow> (unit_id \<Rightarrow> work_unit) \<Rightarrow> unit_id option \<Rightarrow> unit_id list" where
  "chain 0 us u = []"
| "chain (Suc n) us None = []"
| "chain (Suc n) us (Some u) = u # chain n us (un_parent (us u))"

definition up :: "units \<Rightarrow> unit_id option \<Rightarrow> unit_id list" where
  "up s u = chain (us_next_unit s) (us_unit s) u"

definition enclosing :: "units \<Rightarrow> unit_kind \<Rightarrow> unit_id \<Rightarrow> unit_id option" where
  "enclosing s kind u = find (\<lambda>v. un_kind (us_unit s v) = kind) (up s (Some u))"

definition is_descendant :: "units \<Rightarrow> unit_id \<Rightarrow> span_context \<Rightarrow> bool" where
  "is_descendant s u ancestor =
     list_ex (\<lambda>v. sc_span_id (unit_context s v) = sc_span_id ancestor) (up s (un_parent (us_unit s u)))"

definition child_edge ::
  "units \<Rightarrow> unit_id \<Rightarrow> trace_id \<Rightarrow> evidence \<Rightarrow> conversation option \<Rightarrow> parentage" where
  "child_edge s u fresh evidence conv =
     child_of fresh (unit_context s u) evidence
       (case conv of None \<Rightarrow> un_conversation (us_unit s u) | Some x \<Rightarrow> Some x) (un_tracestate (us_unit s u))"

section \<open>Claims\<close>

text \<open>\<open>_evict_oldest\<close>: what leaves the table, and the rest.\<close>

definition evict_oldest :: "nat \<Rightarrow> 'a list \<Rightarrow> 'a option \<times> 'a list" where
  "evict_oldest bound table =
     (if length table < bound then (None, table) else (Some (hd table), tl table))"

definition claim :: "unit_id \<Rightarrow> unit_key \<Rightarrow> int \<Rightarrow> units \<Rightarrow> bool \<times> units" where
  "claim u key rank s =
     (case map_of (un_claims (us_unit s u)) key of
        Some best \<Rightarrow>
          if rank \<le> best then (False, s)
          else (True, set_unit u (\<lambda>x. x\<lparr>un_claims := AList.update key rank (un_claims x)\<rparr>) s)
      | None \<Rightarrow>
          (case evict_oldest (us_max_entries s) (un_claims (us_unit s u)) of
             (evicted, rest) \<Rightarrow>
               (True, set_unit u (\<lambda>x. x\<lparr>un_claims := AList.update key rank rest\<rparr>)
                        (if evicted = None then s else count ''claim_table_full'' s))))"

definition owner_rank :: "units \<Rightarrow> unit_id \<Rightarrow> unit_key \<Rightarrow> int option" where
  "owner_rank s u key = map_of (un_claims (us_unit s u)) key"

definition superseded :: "work_unit \<Rightarrow> open_draft \<Rightarrow> bool" where
  "superseded x e = (case od_claim_key e of None \<Rightarrow> False
     | Some key \<Rightarrow> (case map_of (un_claims x) key of None \<Rightarrow> False | Some owner \<Rightarrow> od_rank e < owner))"

section \<open>Emitting\<close>

text \<open>\<open>_flush\<close>: the latch makes a draft's second hand-over a counted no-op.\<close>

fun flush_drafts :: "draft_id list \<Rightarrow> units \<Rightarrow> units" where
  "flush_drafts [] s = s"
| "flush_drafts (d # ds) s =
     flush_drafts ds
       (if dr_emitted (us_draft s d) then count ''emit_duplicate'' s
        else (set_draft d (\<lambda>x. x\<lparr>dr_emitted := True\<rparr>) s)\<lparr>us_emitted := us_emitted s @ [d]\<rparr>)"

definition force_close :: "limitation \<Rightarrow> int \<Rightarrow> draft \<Rightarrow> draft" where
  "force_close marker end_ns d =
     (add_limitation marker d)\<lparr>dr_status := S_UNSET, dr_end := Some end_ns\<rparr>"

section \<open>Two-phase spans\<close>

definition open_span ::
  "unit_id \<Rightarrow> evidence \<Rightarrow> unit_key option \<Rightarrow> int \<Rightarrow> trace_id \<Rightarrow> span_id \<Rightarrow> bool \<Rightarrow> units \<Rightarrow> draft_id \<times> units" where
  "open_span u evidence key now fresh fresh_span faulty s =
     (case alloc_draft (new_draft fresh_span (child_edge s u fresh evidence None) faulty) s of
        (d, s1) \<Rightarrow>
          if \<not> is_live s1 u then (d, count ''open_span_after_close'' s1)
          else
            (case evict_oldest (us_max_entries s1) (un_open (us_unit s1 u)) of
               (evicted, rest) \<Rightarrow>
                 (let entry = \<lparr>od_draft = d, od_claim_key = key,
                        od_rank = (case key of None \<Rightarrow> 0
                                   | Some k \<Rightarrow> (case map_of (un_claims (us_unit s1 u)) k of None \<Rightarrow> 0 | Some r \<Rightarrow> r))\<rparr>;
                      s2 = set_unit u (\<lambda>x. x\<lparr>un_open := rest @ [entry]\<rparr>)
                             (if evicted = None then s1 else count ''open_span_table_full'' s1)
                  in (d, case evicted of
                           None \<Rightarrow> s2
                         | Some old \<Rightarrow>
                             if superseded (us_unit s1 u) old then count ''claim_superseded'' s2
                             else flush_drafts [od_draft old]
                                    (set_draft (od_draft old) (force_close UNIT_TABLE_FULL now) s2)))))"

definition close_span ::
  "unit_id \<Rightarrow> draft_id \<Rightarrow> status_code \<Rightarrow> py_text option \<Rightarrow> int \<Rightarrow> units \<Rightarrow> units" where
  "close_span u d status err end_ns s =
     (case find (\<lambda>e. od_draft e = d) (un_open (us_unit s u)) of
        None \<Rightarrow> count ''close_span_after_emit'' s
      | Some entry \<Rightarrow>
          (let s1 = set_unit u (\<lambda>x. x\<lparr>un_open := remove1 entry (un_open x)\<rparr>) s
           in if superseded (us_unit s u) entry then count ''claim_superseded'' s1
              else flush_drafts [d]
                     (set_draft d (\<lambda>x. x\<lparr>dr_status := status,
                         dr_error_type := (if err = None then dr_error_type x else err),
                         dr_end := Some end_ns\<rparr>) s1)))"

section \<open>Annotation\<close>

definition note_marker :: "limitation \<Rightarrow> unit_id \<Rightarrow> units \<Rightarrow> units" where
  "note_marker marker u s =
     (if \<not> is_live s u then count ''note_after_close'' s
      else set_draft (un_draft (us_unit s u)) (add_limitation marker) s)"

definition append_capped :: "bytes \<Rightarrow> bytes \<Rightarrow> nat \<Rightarrow> bool \<times> bytes" where
  "append_capped buf data cap =
     (if cap \<le> length buf then (data \<noteq> [], buf)
      else if length data \<le> cap - length buf then (False, buf @ data)
      else (True, buf @ take (cap - length buf) data))"

definition record_input :: "unit_id \<Rightarrow> bytes \<Rightarrow> units \<Rightarrow> units" where
  "record_input u data s =
     set_unit u (\<lambda>x. case append_capped (un_input x) data (us_max_record s) of
        (clipped, buf) \<Rightarrow> x\<lparr>un_input_recorded := True, un_input := buf,
                        un_input_truncated := un_input_truncated x \<or> clipped\<rparr>) s"

definition record_output :: "unit_id \<Rightarrow> bytes \<Rightarrow> units \<Rightarrow> units" where
  "record_output u data s =
     set_unit u (\<lambda>x. case append_capped (un_output x) data (us_max_record s) of
        (clipped, buf) \<Rightarrow> x\<lparr>un_output_recorded := True, un_output := buf,
                        un_output_truncated := un_output_truncated x \<or> clipped\<rparr>) s"

definition finalize_draft :: "work_unit \<Rightarrow> status_code \<Rightarrow> py_text option \<Rightarrow> int \<Rightarrow> draft \<Rightarrow> draft" where
  "finalize_draft x status err end_ns d =
     (let recorded = un_input_recorded x \<or> un_output_recorded x;
          d1 = (if recorded
                then d\<lparr>dr_io := Some (un_input x, un_output x, un_input_recorded x, un_output_recorded x),
                       dr_truncated := dr_truncated d \<or> un_input_truncated x \<or> un_output_truncated x\<rparr>
                else d)
      in d1\<lparr>dr_status := status, dr_error_type := (if err = None then dr_error_type d else err),
            dr_end := Some end_ns\<rparr>)"

definition finalize :: "unit_id \<Rightarrow> status_code \<Rightarrow> py_text option \<Rightarrow> int \<Rightarrow> units \<Rightarrow> units" where
  "finalize u status err end_ns s =
     (let x = us_unit s u;
          s1 = set_draft (un_draft x) (finalize_draft x status err end_ns) s
      in if (un_input_recorded x \<or> un_output_recorded x) \<and> (un_input_truncated x \<or> un_output_truncated x)
         then count ''record_truncated'' s1 else s1)"

section \<open>Forgotten aliases\<close>

fun forget_ring :: "nat \<Rightarrow> unit_id \<Rightarrow> unit_key list \<Rightarrow> units \<Rightarrow> unit_key list \<times> units" where
  "forget_ring bound u [] s = ([], s)"
| "forget_ring bound u (oldest # ring) s =
     (if bound \<le> length (oldest # ring)
      then forget_ring bound u ring
             (count ''alias_forgotten_table_full''
               (if map_of (us_forgot_key s) oldest = Some u
                then s\<lparr>us_forgot_key := AList.delete oldest (us_forgot_key s)\<rparr> else s))
      else (oldest # ring, s))"

definition ring_of :: "units \<Rightarrow> unit_id \<Rightarrow> unit_key list" where
  "ring_of s u = (case map_of (us_forgot_unit s) u of None \<Rightarrow> [] | Some ring \<Rightarrow> ring)"

definition forget :: "unit_key \<Rightarrow> unit_id \<Rightarrow> units \<Rightarrow> units" where
  "forget key u s =
     (case forget_ring (us_max_entries s) u (ring_of s u) s of
        (ring, s1) \<Rightarrow>
          s1\<lparr>us_forgot_unit := AList.update u (ring @ [key]) (us_forgot_unit s1),
             us_forgot_key := AList.update key u (us_forgot_key s1)\<rparr>)"

definition lost_nothing :: "units \<Rightarrow> unit_id \<Rightarrow> ambient option \<Rightarrow> unit_id option \<Rightarrow> bool" where
  "lost_nothing s owner amb holder =
     (if owner \<in> set (up s holder) then True
      else case (case amb of None \<Rightarrow> None | Some a \<Rightarrow> am_span_context a) of
             None \<Rightarrow> False
           | Some ctx \<Rightarrow>
               if sc_trace_id ctx \<noteq> sc_trace_id (unit_context s owner) then False
               else \<not> list_ex (\<lambda>v. sc_span_id (unit_context s v) = sc_span_id ctx)
                         (up s (un_parent (us_unit s owner))))"

definition recall :: "unit_key \<Rightarrow> ambient option \<Rightarrow> unit_id option \<Rightarrow> units \<Rightarrow> unit_id option \<times> units" where
  "recall key amb holder s =
     (case map_of (us_forgot_key s) key of
        None \<Rightarrow> (None, s)
      | Some owner \<Rightarrow>
          if lost_nothing s owner amb holder then (None, s)
          else (Some owner, count ''alias_forgotten_consumed'' s))"

definition rebound :: "unit_key \<Rightarrow> unit_id \<Rightarrow> bool \<Rightarrow> units \<Rightarrow> units" where
  "rebound key u carries_loss s =
     (case map_of (us_forgot_key s) key of
        None \<Rightarrow> s
      | Some owner \<Rightarrow>
          if carries_loss \<and> owner \<noteq> u then s
          else (let s1 = s\<lparr>us_forgot_key := AList.delete key (us_forgot_key s)\<rparr>
                in case map_of (us_forgot_unit s1) owner of
                     None \<Rightarrow> s1
                   | Some ring \<Rightarrow> s1\<lparr>us_forgot_unit := AList.update owner (remove1 key ring) (us_forgot_unit s1)\<rparr>))"

definition drop_unit_keys :: "unit_id \<Rightarrow> units \<Rightarrow> units" where
  "drop_unit_keys u s =
     s\<lparr>us_forgot_unit := AList.delete u (us_forgot_unit s),
       us_forgot_key := filter (\<lambda>(k, v). \<not> (k \<in> set (ring_of s u) \<and> v = u)) (us_forgot_key s)\<rparr>"

text \<open>\<open>forgotten_edge\<close>; the sole live session is the caller's to ask.\<close>

definition forgotten_edge ::
  "units \<Rightarrow> unit_id option \<Rightarrow> ambient \<Rightarrow> py_text option \<Rightarrow> unit_id \<Rightarrow> trace_id \<Rightarrow> parentage" where
  "forgotten_edge s sole amb hint owner fresh =
     with_limitation
       (case sole of
          Some u \<Rightarrow> child_edge s u fresh ((evidence_of UNIT_SOLE)\<lparr>ev_request_id := hint\<rparr>) None
        | None \<Rightarrow>
            (case am_span_context amb of
               Some ctx \<Rightarrow>
                 (let cross = sc_trace_id ctx \<noteq> sc_trace_id (unit_context s owner);
                      e = cap_at_alias_tier ((evidence_of CONTEXTVAR)\<lparr>ev_request_id := hint,
                            ev_confidence := (if cross then Some (PFin (8 / 10)) else None)\<rparr>);
                      p = resolve_parentage fresh amb e
                  in if cross then with_limitation p CORRELATION_CONFLICT else p)
             | None \<Rightarrow> resolve_parentage fresh EMPTY_AMBIENT ((evidence_of UNRESOLVED)\<lparr>ev_request_id := hint\<rparr>)))
       ALIAS_FORGOTTEN"

section \<open>Aliases\<close>

definition evict_alias :: "unit_id \<Rightarrow> units \<Rightarrow> unit_key option \<times> units" where
  "evict_alias u s =
     (case evict_oldest (us_max_entries s) (un_alias_keys (us_unit s u)) of
        (None, _) \<Rightarrow> (None, s)
      | (Some key, rest) \<Rightarrow>
          (Some key, set_unit u (\<lambda>x. x\<lparr>un_alias_keys := rest, un_remembered := AList.delete key (un_remembered x)\<rparr>)
                       (count ''alias_table_full'' s)))"

definition bind_alias_locked :: "unit_key \<Rightarrow> unit_id \<Rightarrow> bool \<Rightarrow> units \<Rightarrow> units" where
  "bind_alias_locked key u carries_loss s =
     (let s1 = (case map_of (us_by_alias s) key of
                  None \<Rightarrow> s | Some v \<Rightarrow> if v \<noteq> u then count ''alias_rebound'' s else s);
          s2 = rebound key u carries_loss s1;
          s3 = (if key \<in> set (un_alias_keys (us_unit s2 u)) then s2
                else (case evict_alias u s2 of
                        (evicted, s21) \<Rightarrow>
                          (let s22 = (case evicted of None \<Rightarrow> s21
                                      | Some old \<Rightarrow>
                                          if map_of (us_by_alias s21) old = Some u
                                          then forget old u (s21\<lparr>us_by_alias := AList.delete old (us_by_alias s21)\<rparr>)
                                          else s21)
                           in set_unit u (\<lambda>x. x\<lparr>un_alias_keys := un_alias_keys x @ [key]\<rparr>) s22)))
      in s3\<lparr>us_by_alias := AList.update key u (us_by_alias s3),
            us_link_memory := AList.delete key (us_link_memory s3)\<rparr>)"

definition alias_to :: "unit_key \<Rightarrow> unit_key \<Rightarrow> units \<Rightarrow> units" where
  "alias_to key new s =
     (case map_of (us_by_alias s) key of
        None \<Rightarrow> count ''alias_unknown_key'' s
      | Some u \<Rightarrow> if is_live s u then bind_alias_locked new u False s else count ''alias_unknown_key'' s)"

definition bind_alias :: "unit_id \<Rightarrow> unit_key \<Rightarrow> bool \<Rightarrow> units \<Rightarrow> units" where
  "bind_alias u key remember s =
     (if \<not> is_live s u then count ''alias_after_close'' s
      else (let s1 = bind_alias_locked key u False s
            in if remember
               then set_unit u (\<lambda>x. x\<lparr>un_remembered := AList.update key (unit_context s1 u) (un_remembered x)\<rparr>) s1
               else s1))"

definition find_unit :: "unit_key \<Rightarrow> units \<Rightarrow> unit_id option \<times> units" where
  "find_unit key s =
     (case map_of (us_by_alias s) key of
        None \<Rightarrow> (None, s)
      | Some u \<Rightarrow> if is_live s u then (Some u, s)
                  else (None, s\<lparr>us_by_alias := AList.delete key (us_by_alias s)\<rparr>))"

definition resolve_link_target :: "unit_key \<Rightarrow> units \<Rightarrow> span_context option" where
  "resolve_link_target key s =
     (case map_of (us_by_alias s) key of
        None \<Rightarrow> map_of (us_link_memory s) key
      | Some u \<Rightarrow> if is_live s u then Some (unit_context s u) else map_of (us_link_memory s) key)"

section \<open>Closing\<close>

text \<open>Phase one: every span the subtree owes, and the units to detach, parent first.\<close>

fun collect_open :: "work_unit \<Rightarrow> int \<Rightarrow> open_draft list \<Rightarrow> units \<Rightarrow> draft_id list \<times> units" where
  "collect_open x end_ns [] s = ([], s)"
| "collect_open x end_ns (e # es) s =
     (if superseded x e then collect_open x end_ns es (count ''claim_superseded'' s)
      else if dr_faulty (us_draft s (od_draft e)) then collect_open x end_ns es (count ''close_open_span'' s)
      else (case collect_open x end_ns es
                   (set_draft (od_draft e) (force_close CHILD_SPAN_UNCLOSED end_ns) s) of
              (ds, s1) \<Rightarrow> (od_draft e # ds, s1)))"

fun collect ::
  "nat \<Rightarrow> unit_id \<Rightarrow> status_code \<Rightarrow> py_text option \<Rightarrow> int \<Rightarrow> units
     \<Rightarrow> draft_id list \<times> unit_id list \<times> units"
where
  "collect 0 u status err end_ns s = ([], [], s)"
| "collect (Suc n) u status err end_ns s =
     (case fold (\<lambda>child (ds, doomed, s1).
              if \<not> is_live s1 child then (ds, doomed, count ''close_after_close'' s1)
              else (case collect n child S_UNSET None end_ns (note_marker CHILD_SPAN_UNCLOSED child s1) of
                      (ds2, doomed2, s2) \<Rightarrow> (ds @ ds2, doomed @ doomed2, s2)))
            (un_children (us_unit s u)) ([], [u], s) of
        (ds, doomed, s1) \<Rightarrow>
          (case collect_open (us_unit s1 u) end_ns (un_open (us_unit s1 u)) s1 of
             (ds2, s2) \<Rightarrow>
               if dr_faulty (us_draft s2 (un_draft (us_unit s2 u)))
               then (ds @ ds2, doomed, count ''close_finalize'' s2)
               else (ds @ ds2 @ [un_draft (us_unit s2 u)], doomed, finalize u status err end_ns s2)))"

text \<open>Phase two: unlink one unit from every table. The pin of a unit that closes on
  another task is retired from here.\<close>

fun trim_links :: "(unit_key \<times> span_context) list \<Rightarrow> units \<Rightarrow> units" where
  "trim_links [] s = s\<lparr>us_link_memory := []\<rparr>"
| "trim_links (m # ms) s =
     (if us_max_links s < length (m # ms) then trim_links ms (count ''link_memory_full'' s)
      else s\<lparr>us_link_memory := m # ms\<rparr>)"

fun remember_links ::
  "unit_id \<Rightarrow> (unit_key \<times> span_context) list \<Rightarrow> units \<Rightarrow> units" where
  "remember_links u [] s = s"
| "remember_links u ((key, ctx) # rest) s =
     remember_links u rest
       (if map_of (us_by_alias s) key \<noteq> Some u then s
        else trim_links (AList.delete key (us_link_memory s) @ [(key, ctx)]) s)"

definition detach :: "task \<Rightarrow> unit_id \<Rightarrow> units \<Rightarrow> units" where
  "detach me u s =
     (let x = us_unit s u;
          s1 = (set_unit u (\<lambda>x. x\<lparr>un_live := False, un_children := [], un_open := []\<rparr>) s)
                 \<lparr>us_roots := remove1 u (us_roots s), us_live := remove1 u (us_live s)\<rparr>;
          s2 = (case map_of (us_pins s1) u of
                  None \<Rightarrow> s1
                | Some pin \<Rightarrow>
                    (let s11 = s1\<lparr>us_pins := AList.delete u (us_pins s1)\<rparr>
                     in if pn_owner pin = me then s11
                        else count ''pin_retired_from_afar'' (s11\<lparr>us_retired := us_retired s11 @ [u]\<rparr>)));
          s3 = (case un_parent x of
                  None \<Rightarrow> s2
                | Some p \<Rightarrow> set_unit p (\<lambda>y. y\<lparr>un_children := remove1 u (un_children y)\<rparr>) s2);
          s4 = drop_unit_keys u (remember_links u (un_remembered x) s3)
      in set_unit u (\<lambda>y. y\<lparr>un_remembered := [], un_alias_keys := []\<rparr>)
           (s4\<lparr>us_by_alias := filter (\<lambda>(k, v). \<not> (k \<in> set (un_alias_keys x) \<and> v = u)) (us_by_alias s4)\<rparr>))"

definition close_locked ::
  "task \<Rightarrow> unit_id \<Rightarrow> status_code \<Rightarrow> py_text option \<Rightarrow> int \<Rightarrow> units \<Rightarrow> draft_id list \<times> units" where
  "close_locked me u status err end_ns s =
     (if \<not> is_live s u then ([], count ''close_after_close'' s)
      else (case collect (us_next_unit s) u status err end_ns s of
              (ds, doomed, s1) \<Rightarrow> (ds, fold (detach me) doomed s1)))"

definition close_unit ::
  "task \<Rightarrow> unit_id \<Rightarrow> status_code \<Rightarrow> py_text option \<Rightarrow> int \<Rightarrow> units \<Rightarrow> units" where
  "close_unit me u status err end_ns s =
     (case close_locked me u status err end_ns s of (ds, s1) \<Rightarrow> flush_drafts ds s1)"

definition mark_evicted :: "unit_id \<Rightarrow> units \<Rightarrow> units" where
  "mark_evicted u s = set_unit u (\<lambda>x. x\<lparr>un_evicted := True\<rparr>) s"

definition evict_root :: "task \<Rightarrow> int \<Rightarrow> units \<Rightarrow> draft_id list \<times> units" where
  "evict_root me end_ns s =
     (let oldest = hd (us_roots s)
      in close_locked me oldest S_UNSET None end_ns (note_marker UNIT_EVICTED oldest (mark_evicted oldest s)))"

fun close_roots ::
  "task \<Rightarrow> limitation \<Rightarrow> py_text option \<Rightarrow> int \<Rightarrow> unit_id list \<Rightarrow> units \<Rightarrow> draft_id list \<times> units" where
  "close_roots me reason owner end_ns [] s = ([], s)"
| "close_roots me reason owner end_ns (r # rs) s =
     (if owner \<noteq> None \<and> un_owner (us_unit s r) \<noteq> owner then close_roots me reason owner end_ns rs s
      else (case close_locked me r S_UNSET None end_ns (note_marker reason r s) of
              (ds, s1) \<Rightarrow>
                (case close_roots me reason owner end_ns rs s1 of (ds2, s2) \<Rightarrow> (ds @ ds2, s2))))"

text \<open>\<open>owned\<close>: this thread is already inside the registry's lock.\<close>

definition close_all :: "task \<Rightarrow> bool \<Rightarrow> limitation \<Rightarrow> py_text option \<Rightarrow> int \<Rightarrow> units \<Rightarrow> units" where
  "close_all me owned reason owner end_ns s =
     (if owned then count ''close_all_reentrant'' s
      else (case close_roots me reason owner end_ns (us_roots s) s of (ds, s1) \<Rightarrow> flush_drafts ds s1))"

section \<open>Opening\<close>

text \<open>\<open>current()\<close>: what the carrier in the calling context names, if it may be a parent;
  and the carrier afterwards, which a dead foreign entry of this task leaves.\<close>

definition retire_dead_foreign ::
  "task \<Rightarrow> ambient_unit \<Rightarrow> units \<Rightarrow> ambient_unit option \<times> units" where
  "retire_dead_foreign me entry s =
     (if \<not> is_live s (au_unit entry) \<and> au_owner entry = me
      then (None, count ''ambient_foreign_retired'' s) else (Some entry, s))"

definition current ::
  "task \<Rightarrow> ambient_unit option \<Rightarrow> units \<Rightarrow> unit_id option \<times> ambient_unit option \<times> units" where
  "current me here s =
     (case here of
        None \<Rightarrow> (None, here, s)
      | Some entry \<Rightarrow>
          if un_registry (us_unit s (au_unit entry)) \<noteq> us_self s
          then (case retire_dead_foreign me entry (count ''ambient_foreign_registry'' s) of
                  (here', s1) \<Rightarrow> (None, here', s1))
          else if \<not> is_live s (au_unit entry)
          then (None, here,
                count (if au_pinned entry
                       then (if au_owner entry = me then ''pin_stale'' else ''pin_leaked'')
                       else ''ambient_stale'') s)
          else (Some (au_unit entry), here, s))"

definition closed_ambient_context ::
  "task \<Rightarrow> ambient_unit option \<Rightarrow> units \<Rightarrow> span_context option \<times> ambient_unit option \<times> units" where
  "closed_ambient_context me here s =
     (case here of
        None \<Rightarrow> (None, here, s)
      | Some entry \<Rightarrow>
          if un_registry (us_unit s (au_unit entry)) \<noteq> us_self s
          then (case retire_dead_foreign me entry
                       (if au_pinned entry then count ''stale_pin_foreign_registry'' s else s) of
                  (here', s1) \<Rightarrow> (None, here', s1))
          else if is_live s (au_unit entry) then (None, here, s)
          else (Some (unit_context s (au_unit entry)), here, s))"

definition closed_unit_in_scope ::
  "task \<Rightarrow> ambient_unit option \<Rightarrow> units \<Rightarrow> bool \<times> ambient_unit option \<times> units" where
  "closed_unit_in_scope me here s =
     (case closed_ambient_context me here s of (ctx, rest) \<Rightarrow> (ctx \<noteq> None, rest))"

definition note_refused_ambient :: "ambient_unit option \<Rightarrow> units \<Rightarrow> units" where
  "note_refused_ambient here s =
     (case here of
        None \<Rightarrow> count ''stale_activation_ambient'' s
      | Some entry \<Rightarrow>
          count (if un_evicted (us_unit s (au_unit entry)) then ''stale_ambient_evicted''
                 else if au_pinned entry then ''stale_pin_ambient'' else ''stale_activation_ambient'') s)"

definition refused_ambient_marker :: "ambient_unit option \<Rightarrow> units \<Rightarrow> limitation" where
  "refused_ambient_marker here s =
     (case here of
        None \<Rightarrow> CORRELATION_CONFLICT
      | Some entry \<Rightarrow> if un_evicted (us_unit s (au_unit entry)) then INSTRUMENTATION_DEGRADED
                      else CORRELATION_CONFLICT)"

definition poisoned ::
  "task \<Rightarrow> ambient_unit option \<Rightarrow> ambient \<Rightarrow> units \<Rightarrow> bool \<times> ambient_unit option \<times> units" where
  "poisoned me here amb s =
     (case closed_ambient_context me here s of
        (stale, rest) \<Rightarrow> (stale \<noteq> None \<and> am_span_context amb \<noteq> None \<and> am_span_context amb = stale, rest))"

definition becomes_trace_root ::
  "task \<Rightarrow> ambient_unit option \<Rightarrow> ambient \<Rightarrow> units \<Rightarrow> bool \<times> ambient_unit option \<times> units" where
  "becomes_trace_root me here amb s =
     (case poisoned me here amb s of (p, rest) \<Rightarrow> (p \<or> am_span_context amb = None, rest))"

definition sole_live :: "units \<Rightarrow> unit_kind \<Rightarrow> py_text option \<Rightarrow> unit_id option" where
  "sole_live s kind owner =
     (case filter (\<lambda>u. un_kind (us_unit s u) = kind \<and> (owner = None \<or> un_owner (us_unit s u) = owner)) (us_live s) of
        [u] \<Rightarrow> Some u | _ \<Rightarrow> None)"

definition parent_is_closed_unit :: "ambient_unit option \<Rightarrow> span_context option \<Rightarrow> units \<Rightarrow> bool \<times> units" where
  "parent_is_closed_unit here parent s =
     (case (here, parent) of
        (Some entry, Some ctx) \<Rightarrow>
          if is_live s (au_unit entry) \<or> ctx \<noteq> unit_context s (au_unit entry) then (False, s)
          else (True, count ''ambient_closed_at_issue'' s)
      | _ \<Rightarrow> (False, s))"

text \<open>\<open>_conversation_under\<close> and \<open>ambient_stated_conversation\<close>; a conversation is compared
  by identity.\<close>

definition conversation_under ::
  "units \<Rightarrow> unit_id \<Rightarrow> unit_kind \<Rightarrow> ambient \<Rightarrow> ambient_unit option \<Rightarrow> conversation option" where
  "conversation_under s parent kind amb here =
     (let own = un_conversation (us_unit s parent) in
      case (am_conversation amb, here) of
        (Some said, Some entry) \<Rightarrow>
          if kind \<notin> {SESSION, AGENT} then own
          else if list_ex (\<lambda>v. un_conversation (us_unit s v) = Some said) (up s (Some (au_unit entry))) then own
          else if parent \<in> set (up s (Some (au_unit entry))) then Some said else own
      | _ \<Rightarrow> own)"

definition ambient_stated_conversation ::
  "units \<Rightarrow> py_text \<Rightarrow> conversation \<Rightarrow> ambient_unit option \<Rightarrow> bool" where
  "ambient_stated_conversation s owner conv here =
     list_ex (\<lambda>v. pa_conversation (un_parentage (us_unit s v)) \<noteq> Some conv)
       (case here of None \<Rightarrow> []
        | Some entry \<Rightarrow>
            takeWhile (\<lambda>v. un_owner (us_unit s v) = Some owner \<and> un_conversation (us_unit s v) = Some conv)
              (up s (Some (au_unit entry))))"

fun evict_roots_to :: "nat \<Rightarrow> (units \<Rightarrow> bool) \<Rightarrow> task \<Rightarrow> int \<Rightarrow> units \<Rightarrow> draft_id list \<times> units" where
  "evict_roots_to 0 full me now s = ([], s)"
| "evict_roots_to (Suc n) full me now s =
     (if full s then
        (case evict_root me now s of (ds, s1) \<Rightarrow>
          (case evict_roots_to n full me now s1 of (ds2, s2) \<Rightarrow> (ds @ ds2, s2)))
      else ([], s))"

definition over_total :: "units \<Rightarrow> bool" where
  "over_total s \<longleftrightarrow> us_max_units s * us_max_entries s \<le> length (us_live s) \<and> us_roots s \<noteq> []"

definition over_roots :: "units \<Rightarrow> bool" where
  "over_roots s \<longleftrightarrow> us_max_units s \<le> length (us_roots s)"

text \<open>The arguments of \<open>open\<close>. \<open>op_evidence\<close> is \<open>None\<close> for the default \<open>AMBIENT\<close> object.\<close>

record open_args =
  op_kind :: unit_kind
  op_key :: unit_key
  op_ambient :: ambient
  op_evidence :: "evidence option"
  op_parent :: "unit_id option"
  op_aliases :: "unit_key list"
  op_owner :: "py_text option"
  op_conversation :: "conversation option"
  op_carries_loss :: bool
  op_faulty :: bool

definition opening_edge ::
  "task \<Rightarrow> ambient_unit option \<Rightarrow> trace_id \<Rightarrow> open_args \<Rightarrow> units
     \<Rightarrow> parentage \<times> conversation option \<times> py_text option \<times> ambient_unit option \<times> units"
where
  "opening_edge me here fresh op s =
     (case op_parent op of
        Some p \<Rightarrow>
          (let e = (case op_evidence op of None \<Rightarrow> IN_UNIT | Some e \<Rightarrow> e);
               conv = conversation_under s p (op_kind op) (op_ambient op) here
           in (child_edge s p fresh e conv, conv, un_tracestate (us_unit s p), here, s))
      | None \<Rightarrow>
          (let e = (case op_evidence op of None \<Rightarrow> AMBIENT | Some e \<Rightarrow> e) in
           case poisoned me here (op_ambient op) s of
             (True, here', s1) \<Rightarrow>
               (let pa = with_limitation (resolve_parentage fresh EMPTY_AMBIENT e) (refused_ambient_marker here' s1)
                in (pa, pa_conversation pa, pa_tracestate pa, here', note_refused_ambient here' s1))
           | (False, here', s1) \<Rightarrow>
               (let pa = resolve_parentage fresh (op_ambient op) e
                in (pa, pa_conversation pa, pa_tracestate pa, here', s1))))"

text \<open>Under the lock: room, attachment, aliases.\<close>

definition attach_child :: "task \<Rightarrow> int \<Rightarrow> unit_id \<Rightarrow> unit_id \<Rightarrow> units \<Rightarrow> draft_id list \<times> units" where
  "attach_child me now p u s =
     (case evict_oldest (us_max_entries s) (un_children (us_unit s p)) of
        (None, _) \<Rightarrow> ([], set_unit p (\<lambda>x. x\<lparr>un_children := un_children x @ [u]\<rparr>) s)
      | (Some old, rest) \<Rightarrow>
          (case close_locked me old S_UNSET None now
                  (note_marker UNIT_TABLE_FULL old (mark_evicted old
                     (set_unit p (\<lambda>x. x\<lparr>un_children := rest\<rparr>) (count ''child_table_full'' s)))) of
             (ds, s1) \<Rightarrow> (ds, set_unit p (\<lambda>x. x\<lparr>un_children := un_children x @ [u]\<rparr>) s1)))"

definition attach_root :: "task \<Rightarrow> int \<Rightarrow> unit_id option \<Rightarrow> unit_id \<Rightarrow> units \<Rightarrow> draft_id list \<times> units" where
  "attach_root me now parent u s =
     (let s1 = (case parent of None \<Rightarrow> s
                | Some p \<Rightarrow> count (if \<not> is_live s p then ''parent_closed'' else ''parent_foreign_registry'') s)
      in case evict_roots_to (length (us_roots s1) + 1) over_roots me now s1 of
           (ds, s2) \<Rightarrow> (ds, s2\<lparr>us_roots := us_roots s2 @ [u]\<rparr>))"

text \<open>The object of the new unit is written when it is registered: nothing that runs between
  its construction and its registration can reach it.\<close>

definition new_unit :: "open_args \<Rightarrow> nat \<Rightarrow> draft_id \<Rightarrow> parentage \<Rightarrow> conversation option \<Rightarrow> py_text option \<Rightarrow> work_unit" where
  "new_unit op self d pa conv ts =
     \<lparr>un_registry = self, un_key = op_key op, un_kind = op_kind op, un_owner = op_owner op, un_draft = d,
      un_parentage = pa, un_conversation = conv, un_tracestate = ts, un_parent = op_parent op,
      un_live = True, un_evicted = False, un_children = [], un_alias_keys = [], un_remembered = [],
      un_claims = [], un_open = [], un_input = [], un_output = [], un_input_recorded = False,
      un_output_recorded = False, un_input_truncated = False, un_output_truncated = False\<rparr>"

definition register :: "unit_id \<Rightarrow> work_unit \<Rightarrow> units \<Rightarrow> units" where
  "register u x s =
     s\<lparr>us_unit := (us_unit s)(u := x), us_next_unit := u + 1, us_live := us_live s @ [u]\<rparr>"

definition attach :: "task \<Rightarrow> int \<Rightarrow> unit_id option \<Rightarrow> unit_id \<Rightarrow> units \<Rightarrow> draft_id list \<times> units" where
  "attach me now parent u s =
     (case parent of
        Some p \<Rightarrow> if is_live s p \<and> un_registry (us_unit s p) = us_self s then attach_child me now p u s
                  else attach_root me now parent u s
      | None \<Rightarrow> attach_root me now None u s)"

definition open_unit ::
  "task \<Rightarrow> ambient_unit option \<Rightarrow> int \<Rightarrow> trace_id \<Rightarrow> span_id \<Rightarrow> open_args \<Rightarrow> units
     \<Rightarrow> unit_id \<times> ambient_unit option \<times> units"
where
  "open_unit me here now fresh fresh_span op s =
     (case opening_edge me here fresh op s of
        (pa, conv0, ts, here', s1) \<Rightarrow>
          (let conv = (case op_conversation op of None \<Rightarrow> conv0 | Some c \<Rightarrow> Some c);
               d0 = new_draft fresh_span pa (op_faulty op);
               d1 = (if op_conversation op = None then d0 else d0\<lparr>dr_conversation := op_conversation op\<rparr>)
           in case alloc_draft d1 s1 of
                (d, s2) \<Rightarrow>
                  (let u = us_next_unit s2
                   in case evict_roots_to (length (us_roots s2) + 1) over_total me now s2 of
                        (ds, s3) \<Rightarrow>
                          (case attach me now (op_parent op) u s3 of
                             (ds2, s4) \<Rightarrow>
                               (let s5 = register u (new_unit op (us_self s4) d pa conv ts) s4;
                                    s6 = bind_alias_locked (op_key op) u (op_carries_loss op) s5;
                                    s7 = fold (\<lambda>k s. bind_alias_locked k u False s) (op_aliases op) s6
                                in (u, here', flush_drafts (ds @ ds2) s7))))))"

section \<open>Resolving\<close>

definition edge :: "unit_key option \<Rightarrow> ambient \<Rightarrow> trace_id \<Rightarrow> units \<Rightarrow> parentage \<times> units" where
  "edge key amb fresh s =
     (case (case key of None \<Rightarrow> (None, s) | Some k \<Rightarrow> find_unit k s) of
        (found, s1) \<Rightarrow>
          (let hint = map_option uk_value key in
           case (found, am_span_context amb) of
             (Some u, Some ctx) \<Rightarrow>
               if sc_trace_id (unit_context s1 u) = sc_trace_id ctx
               then (if is_descendant s1 u ctx
                     then (child_edge s1 u fresh ((evidence_of UNIT_ALIAS)\<lparr>ev_request_id := hint\<rparr>) None, s1)
                     else (resolve_parentage fresh amb ((evidence_of CONTEXTVAR)\<lparr>ev_request_id := hint\<rparr>), s1))
               else (with_limitation
                       (resolve_parentage fresh amb ((evidence_of CONTEXTVAR)\<lparr>ev_request_id := hint,
                            ev_confidence := Some (PFin (8 / 10))\<rparr>)) CORRELATION_CONFLICT, s1)
           | (Some u, None) \<Rightarrow>
               (child_edge s1 u fresh ((evidence_of UNIT_ALIAS)\<lparr>ev_request_id := hint\<rparr>) None, s1)
           | (None, ctx) \<Rightarrow>
               (case (case key of None \<Rightarrow> (None, s1) | Some k \<Rightarrow> recall k (Some amb) None s1) of
                  (Some owner, s2) \<Rightarrow> (forgotten_edge s2 (sole_live s2 SESSION None) amb hint owner fresh, s2)
                | (None, s2) \<Rightarrow>
                    (if ctx \<noteq> None then (resolve_parentage fresh amb AMBIENT, s2)
                     else
                       (case sole_live s2 SESSION None of
                          Some u \<Rightarrow>
                            (with_limitation
                               (child_edge s2 u fresh ((evidence_of UNIT_SOLE)\<lparr>ev_request_id := hint\<rparr>) None)
                               UNIT_INFERRED_SOLE, s2)
                        | None \<Rightarrow>
                            (with_limitation
                               (resolve_parentage fresh EMPTY_AMBIENT ((evidence_of UNRESOLVED)\<lparr>ev_request_id := hint\<rparr>))
                               PARENT_UNRESOLVED, s2))))))"

definition resolve ::
  "task \<Rightarrow> ambient_unit option \<Rightarrow> unit_key option \<Rightarrow> ambient \<Rightarrow> trace_id \<Rightarrow> units
     \<Rightarrow> parentage \<times> ambient_unit option \<times> units"
where
  "resolve me here key amb fresh s =
     (case poisoned me here amb s of
        (True, here', s1) \<Rightarrow>
          (case edge key EMPTY_AMBIENT fresh (note_refused_ambient here' s1) of
             (p, s2) \<Rightarrow> (with_limitation p (refused_ambient_marker here' s2), here', s2))
      | (False, here', s1) \<Rightarrow> (case edge key amb fresh s1 of (p, s2) \<Rightarrow> (p, here', s2)))"

section \<open>Pins and forks\<close>

text \<open>A carrier puts its unit in the ContextVar; the scope fork under it is the hub's.\<close>

definition pin_driver ::
  "task \<Rightarrow> task \<Rightarrow> unit_id \<Rightarrow> ambient_unit option \<Rightarrow> units \<Rightarrow> pin_token \<times> ambient_unit option \<times> units" where
  "pin_driver me owner_task u here s =
     (if owner_task \<noteq> me
      then (\<lparr>pt_unit = u, pt_carrier = None, pt_installed = False\<rparr>, here,
            note_marker CORRELATION_CONFLICT u (count ''pin_foreign_task'' s))
      else (let pin = \<lparr>pn_no = us_next_pin s, pn_owner = me, pn_previous = here\<rparr>
            in (\<lparr>pt_unit = u, pt_carrier = Some pin, pt_installed = True\<rparr>,
                Some \<lparr>au_unit = u, au_owner = me, au_pinned = True\<rparr>,
                s\<lparr>us_pins := AList.update u pin (us_pins s), us_next_pin := us_next_pin s + 1\<rparr>)))"

text \<open>Both halves of \<open>remove\<close> raise on another task, and each is guarded on its own.\<close>

definition unpin ::
  "task \<Rightarrow> pin_token \<Rightarrow> ambient_unit option \<Rightarrow> units \<Rightarrow> pin_token \<times> ambient_unit option \<times> units" where
  "unpin me tok here s =
     (case pt_carrier tok of
        None \<Rightarrow> (tok, here, s)
      | Some pin \<Rightarrow>
          (let s1 = (if map_of (us_pins s) (pt_unit tok) = Some pin
                     then s\<lparr>us_pins := AList.delete (pt_unit tok) (us_pins s)\<rparr> else s);
               spent = tok\<lparr>pt_carrier := None, pt_installed := False\<rparr>
           in if pn_owner pin = me then (spent, pn_previous pin, s1)
              else (spent, here, count ''unpin'' (count ''unpin'' s1))))"

definition units_at_fork_reinit :: "units \<Rightarrow> units" where
  "units_at_fork_reinit s =
     s\<lparr>us_roots := [], us_live := [], us_pins := [], us_by_alias := [], us_link_memory := [],
       us_forgot_key := [], us_forgot_unit := []\<rparr>"

definition new_units :: "nat \<Rightarrow> nat \<Rightarrow> nat \<Rightarrow> nat \<Rightarrow> nat \<Rightarrow> (unit_id \<Rightarrow> work_unit) \<Rightarrow> (draft_id \<Rightarrow> draft) \<Rightarrow> units" where
  "new_units self max_units max_entries max_links max_record unit0 draft0 =
     \<lparr>us_self = self, us_max_units = max_units, us_max_entries = max_entries, us_max_links = max_links,
      us_max_record = max_record, us_unit = unit0, us_draft = draft0, us_next_unit = 0, us_next_draft = 0,
      us_roots = [], us_live = [], us_pins = [], us_next_pin = 0, us_retired = [], us_by_alias = [], us_link_memory = [],
      us_forgot_key = [], us_forgot_unit = [], us_counters = [], us_emitted = []\<rparr>"

end
