(* ===== verification/Units_Tables.thy ===== *)
theory Units_Tables
  imports Units
begin

text \<open>
  What keeps the registry of \<open>Units\<close> together: the tables hold exactly the standing
  units, every standing unit hangs off a root, nothing outgrows its bound, an alias names
  a standing unit, and a span still held has not been shipped. The lemmas say that each
  operation keeps this, closing and opening included.
\<close>

section \<open>The invariant\<close>

definition own :: "units \<Rightarrow> unit_id \<Rightarrow> bool" where
  "own s u \<longleftrightarrow> u < us_next_unit s \<and> un_registry (us_unit s u) = us_self s"

definition standing :: "units \<Rightarrow> unit_id \<Rightarrow> bool" where
  "standing s u \<longleftrightarrow> own s u \<and> is_live s u"

definition tree_but :: "unit_id set \<Rightarrow> units \<Rightarrow> bool" where
  "tree_but X s \<longleftrightarrow>
     distinct (us_live s) \<and> distinct (us_roots s) \<and>
     (\<forall>u. u \<in> set (us_live s) \<longleftrightarrow> standing s u) \<and>
     set (us_roots s) \<subseteq> set (us_live s) \<and>
     (\<forall>u p. u < us_next_unit s \<longrightarrow> un_parent (us_unit s u) = Some p \<longrightarrow> p < u) \<and>
     (\<forall>p. standing s p \<longrightarrow> distinct (un_children (us_unit s p))) \<and>
     (\<forall>p c. standing s p \<longrightarrow> c \<in> set (un_children (us_unit s p)) \<longrightarrow>
        standing s c \<and> un_parent (us_unit s c) = Some p) \<and>
     (\<forall>u. standing s u \<longrightarrow> u \<in> X \<or> u \<in> set (us_roots s) \<or>
        (\<exists>p. standing s p \<and> u \<in> set (un_children (us_unit s p))))"

abbreviation tree_ok :: "units \<Rightarrow> bool" where
  "tree_ok \<equiv> tree_but {}"

definition bounds_ok :: "units \<Rightarrow> bool" where
  "bounds_ok s \<longleftrightarrow>
     length (us_roots s) \<le> us_max_units s \<and>
     length (us_live s) \<le> us_max_units s * us_max_entries s \<and>
     length (us_link_memory s) \<le> us_max_links s \<and>
     (\<forall>u. own s u \<longrightarrow> length (un_children (us_unit s u)) \<le> us_max_entries s) \<and>
     (\<forall>u. own s u \<longrightarrow> length (un_alias_keys (us_unit s u)) \<le> us_max_entries s) \<and>
     (\<forall>u. own s u \<longrightarrow> length (un_claims (us_unit s u)) \<le> us_max_entries s) \<and>
     (\<forall>u. own s u \<longrightarrow> length (un_open (us_unit s u)) \<le> (if un_live (us_unit s u) then us_max_entries s else 0))"

definition alias_ok :: "units \<Rightarrow> bool" where
  "alias_ok s \<longleftrightarrow>
     distinct (map fst (us_by_alias s)) \<and>
     (\<forall>k u. map_of (us_by_alias s) k = Some u \<longrightarrow>
        standing s u \<and> k \<in> set (un_alias_keys (us_unit s u)))"

definition holdings :: "work_unit \<Rightarrow> draft_id list" where
  "holdings x = map od_draft (un_open x) @ [un_draft x]"

definition drafts_ok :: "units \<Rightarrow> bool" where
  "drafts_ok s \<longleftrightarrow>
     distinct (us_emitted s) \<and>
     (\<forall>d < us_next_draft s. dr_emitted (us_draft s d) \<longleftrightarrow> d \<in> set (us_emitted s)) \<and>
     (\<forall>d \<in> set (us_emitted s). d < us_next_draft s) \<and>
     (\<forall>u. standing s u \<longrightarrow> distinct (holdings (us_unit s u)) \<and>
        (\<forall>d \<in> set (holdings (us_unit s u)). d < us_next_draft s \<and> d \<notin> set (us_emitted s))) \<and>
     (\<forall>u v. standing s u \<longrightarrow> standing s v \<longrightarrow> u \<noteq> v \<longrightarrow>
        set (holdings (us_unit s u)) \<inter> set (holdings (us_unit s v)) = {})"

definition units_but :: "unit_id set \<Rightarrow> units \<Rightarrow> bool" where
  "units_but X s \<longleftrightarrow> 1 \<le> us_max_units s \<and> 1 \<le> us_max_entries s \<and>
     tree_but X s \<and> bounds_ok s \<and> alias_ok s \<and> drafts_ok s"

abbreviation units_ok :: "units \<Rightarrow> bool" where
  "units_ok \<equiv> units_but {}"

text \<open>A unit outside \<open>X\<close> hangs off a root or off a standing parent; \<open>X\<close> is empty between
  operations.\<close>

section \<open>Operations that leave the tables alone\<close>

text \<open>\<open>same_tables s t\<close>: \<open>t\<close> differs from \<open>s\<close> in what drafts say, in counters, in the
  forgotten ids and in the pins only. \<open>same_shipped\<close>: no draft changed hands.\<close>

definition same_tables :: "units \<Rightarrow> units \<Rightarrow> bool" where
  "same_tables s t \<longleftrightarrow>
     us_self t = us_self s \<and> us_max_units t = us_max_units s \<and> us_max_entries t = us_max_entries s \<and>
     us_max_links t = us_max_links s \<and> us_max_record t = us_max_record s \<and>
     us_unit t = us_unit s \<and> us_next_unit t = us_next_unit s \<and> us_next_draft t = us_next_draft s \<and>
     us_roots t = us_roots s \<and> us_live t = us_live s \<and> us_by_alias t = us_by_alias s \<and>
     us_link_memory t = us_link_memory s \<and> us_emitted t = us_emitted s \<and>
     (\<forall>d. dr_emitted (us_draft t d) = dr_emitted (us_draft s d) \<and>
          dr_faulty (us_draft t d) = dr_faulty (us_draft s d) \<and>
          dr_context (us_draft t d) = dr_context (us_draft s d))"

named_theorems tables "operations that leave the tables alone"

lemma same_tables_refl [tables, simp]: "same_tables s s"
  by (simp add: same_tables_def)

lemma same_tables_trans: "same_tables s t \<Longrightarrow> same_tables t r \<Longrightarrow> same_tables s r"
  by (simp add: same_tables_def)

lemma same_tables_count [tables, simp]: "same_tables s (count n t) \<longleftrightarrow> same_tables s t"
  by (simp add: same_tables_def count_def)

lemma add_limitation_keeps [simp]:
  "dr_emitted (add_limitation m d) = dr_emitted d" "dr_faulty (add_limitation m d) = dr_faulty d"
  "dr_context (add_limitation m d) = dr_context d"
  by (simp_all add: add_limitation_def)

lemma force_close_keeps [simp]:
  "dr_emitted (force_close m e d) = dr_emitted d" "dr_faulty (force_close m e d) = dr_faulty d"
  "dr_context (force_close m e d) = dr_context d"
  by (simp_all add: force_close_def)

lemma finalize_draft_keeps [simp]:
  "dr_emitted (finalize_draft x st er e d) = dr_emitted d"
  "dr_faulty (finalize_draft x st er e d) = dr_faulty d"
  "dr_context (finalize_draft x st er e d) = dr_context d"
  by (simp_all add: finalize_draft_def Let_def)

lemma same_tables_set_draft:
  assumes "\<And>x. dr_emitted (f x) = dr_emitted x" "\<And>x. dr_faulty (f x) = dr_faulty x"
    "\<And>x. dr_context (f x) = dr_context x"
  shows "same_tables s (set_draft d f s)"
  using assms by (simp add: same_tables_def set_draft_def)

lemma same_tables_note_marker [tables]: "same_tables s (note_marker m u s)"
  by (auto simp: note_marker_def intro!: same_tables_set_draft)

lemma same_tables_finalize [tables]: "same_tables s (finalize u st er e s)"
  by (auto simp: finalize_def Let_def intro!: same_tables_set_draft)

lemma same_tables_collect_open: "same_tables s (snd (collect_open x e es s))"
proof (induction es arbitrary: s)
  case (Cons en es)
  have "same_tables s (set_draft (od_draft en) (force_close CHILD_SPAN_UNCLOSED e) s)"
    by (rule same_tables_set_draft) simp_all
  then have "same_tables s (snd (collect_open x e es (set_draft (od_draft en) (force_close CHILD_SPAN_UNCLOSED e) s)))"
    using Cons.IH same_tables_trans by blast
  moreover have "same_tables s (snd (collect_open x e es (count n s)))" for n
    using Cons.IH [of "count n s"] same_tables_trans same_tables_count same_tables_refl by blast
  ultimately show ?case by (simp split: prod.splits) (metis snd_conv)
qed simp

lemma same_tables_standing: "same_tables s t \<Longrightarrow> standing t u = standing s u"
  by (simp add: same_tables_def standing_def own_def is_live_def)

lemma same_tables_own: "same_tables s t \<Longrightarrow> own t u = own s u"
  by (simp add: same_tables_def own_def)

lemma same_tables_live: "same_tables s t \<Longrightarrow> is_live t u = is_live s u"
  by (simp add: same_tables_def is_live_def)

lemma same_tables_tree: "same_tables s t \<Longrightarrow> tree_but X t = tree_but X s"
proof -
  assume st: "same_tables s t"
  have "us_live t = us_live s" "us_roots t = us_roots s" "us_unit t = us_unit s" "us_next_unit t = us_next_unit s"
    using st by (simp_all add: same_tables_def)
  then show ?thesis unfolding tree_but_def by (simp only: same_tables_standing [OF st])
qed

lemma same_tables_bounds:
  assumes st: "same_tables s t"
  shows "bounds_ok t = bounds_ok s"
  unfolding bounds_ok_def same_tables_own [OF st] using st by (simp add: same_tables_def)

lemma same_tables_alias:
  assumes st: "same_tables s t"
  shows "alias_ok t = alias_ok s"
  unfolding alias_ok_def same_tables_standing [OF st] using st by (simp add: same_tables_def)

lemma same_tables_drafts:
  assumes st: "same_tables s t"
  shows "drafts_ok t = drafts_ok s"
  unfolding drafts_ok_def same_tables_standing [OF st] using st by (simp add: same_tables_def)

lemma same_tables_ok:
  assumes st: "same_tables s t"
  shows "units_but X s \<Longrightarrow> units_but X t"
proof -
  have "us_max_units t = us_max_units s" "us_max_entries t = us_max_entries s"
    using st by (simp_all add: same_tables_def)
  then show "units_but X s \<Longrightarrow> units_but X t"
    unfolding units_but_def same_tables_tree [OF st] same_tables_bounds [OF st]
      same_tables_alias [OF st] same_tables_drafts [OF st] by simp
qed

section \<open>Phase one: what a close collects\<close>

text \<open>The units a close takes down and the spans it owes, read off the tables.\<close>

fun subtree :: "nat \<Rightarrow> (unit_id \<Rightarrow> work_unit) \<Rightarrow> unit_id \<Rightarrow> unit_id list" where
  "subtree 0 us u = []"
| "subtree (Suc n) us u =
     u # concat (map (subtree n us) (filter (\<lambda>c. un_live (us c)) (un_children (us u))))"

definition own_spans :: "(unit_id \<Rightarrow> work_unit) \<Rightarrow> (draft_id \<Rightarrow> bool) \<Rightarrow> unit_id \<Rightarrow> draft_id list" where
  "own_spans us faulty u =
     map od_draft (filter (\<lambda>e. \<not> superseded (us u) e \<and> \<not> faulty (od_draft e)) (un_open (us u))) @
     (if faulty (un_draft (us u)) then [] else [un_draft (us u)])"

fun owed :: "nat \<Rightarrow> (unit_id \<Rightarrow> work_unit) \<Rightarrow> (draft_id \<Rightarrow> bool) \<Rightarrow> unit_id \<Rightarrow> draft_id list" where
  "owed 0 us faulty u = []"
| "owed (Suc n) us faulty u =
     concat (map (owed n us faulty) (filter (\<lambda>c. un_live (us c)) (un_children (us u)))) @ own_spans us faulty u"

definition faulty_in :: "units \<Rightarrow> draft_id \<Rightarrow> bool" where
  "faulty_in s d = dr_faulty (us_draft s d)"

lemma same_tables_unit: "same_tables s t \<Longrightarrow> us_unit t = us_unit s"
  by (simp add: same_tables_def)

lemma same_tables_faulty: "same_tables s t \<Longrightarrow> faulty_in t = faulty_in s"
  by (simp add: same_tables_def faulty_in_def fun_eq_iff)

lemma collect_open_drafts:
  "fst (collect_open x e es s) =
     map od_draft (filter (\<lambda>en. \<not> superseded x en \<and> \<not> faulty_in s (od_draft en)) es)"
proof (induction es arbitrary: s)
  case (Cons en es)
  have "faulty_in (set_draft (od_draft en) (force_close CHILD_SPAN_UNCLOSED e) s) = faulty_in s"
    by (rule same_tables_faulty) (rule same_tables_set_draft; simp)
  moreover have "faulty_in (count n s) = faulty_in s" for n
    by (rule same_tables_faulty) simp
  ultimately show ?case
    by (simp add: faulty_in_def [of s "od_draft en", symmetric] Cons.IH case_prod_beta)
qed simp

lemma collect_reads:
  "\<exists>t. collect n u st er e s = (owed n (us_unit s) (faulty_in s) u, subtree n (us_unit s) u, t) \<and> same_tables s t"
proof (induction n arbitrary: u st er s)
  case (Suc n)
  let ?step = "\<lambda>child (ds, doomed, s1).
     if \<not> is_live s1 child then (ds, doomed, count ''close_after_close'' s1)
     else (case collect n child S_UNSET None e (note_marker CHILD_SPAN_UNCLOSED child s1) of
             (ds2, doomed2, s2) \<Rightarrow> (ds @ ds2, doomed @ doomed2, s2))"
  have walk: "\<exists>t. fold ?step cs (ds, dm, s1) =
      (ds @ concat (map (owed n (us_unit s) (faulty_in s)) (filter (\<lambda>c. un_live (us_unit s c)) cs)),
       dm @ concat (map (subtree n (us_unit s)) (filter (\<lambda>c. un_live (us_unit s c)) cs)), t) \<and> same_tables s t"
    if "same_tables s s1" for cs ds dm s1
    using that
  proof (induction cs arbitrary: ds dm s1)
    case (Cons c cs)
    note same = same_tables_unit [OF Cons.prems] same_tables_faulty [OF Cons.prems]
    show ?case
    proof (cases "un_live (us_unit s c)")
      case True
      have noted: "same_tables s (note_marker CHILD_SPAN_UNCLOSED c s1)"
        using Cons.prems same_tables_note_marker same_tables_trans by blast
      obtain t where t: "collect n c S_UNSET None e (note_marker CHILD_SPAN_UNCLOSED c s1) =
          (owed n (us_unit s) (faulty_in s) c, subtree n (us_unit s) c, t)"
        "same_tables (note_marker CHILD_SPAN_UNCLOSED c s1) t"
        using Suc.IH [of c S_UNSET None "note_marker CHILD_SPAN_UNCLOSED c s1"]
          same_tables_unit [OF noted] same_tables_faulty [OF noted] by auto
      then have "same_tables s t" using noted same_tables_trans by blast
      from Cons.IH [OF this, of "ds @ owed n (us_unit s) (faulty_in s) c" "dm @ subtree n (us_unit s) c"]
      show ?thesis using True t same by (simp add: is_live_def)
    next
      case False
      have "same_tables s (count ''close_after_close'' s1)" using Cons.prems by simp
      from Cons.IH [OF this, of ds dm] show ?thesis using False same by (simp add: is_live_def)
    qed
  qed simp
  obtain t where t: "fold ?step (un_children (us_unit s u)) ([], [u], s) =
      (concat (map (owed n (us_unit s) (faulty_in s)) (filter (\<lambda>c. un_live (us_unit s c)) (un_children (us_unit s u)))),
       u # concat (map (subtree n (us_unit s)) (filter (\<lambda>c. un_live (us_unit s c)) (un_children (us_unit s u)))), t)"
    "same_tables s t"
    using walk [OF same_tables_refl, of "un_children (us_unit s u)" "[]" "[u]"] by auto
  obtain ds2 s2 where o: "collect_open (us_unit t u) e (un_open (us_unit t u)) t = (ds2, s2)"
    by (cases "collect_open (us_unit t u) e (un_open (us_unit t u)) t")
  have s2: "same_tables s s2"
    using same_tables_collect_open [of t "us_unit t u" e "un_open (us_unit t u)"] o t(2) same_tables_trans by simp
  note eqs = same_tables_unit [OF t(2)] same_tables_unit [OF s2] same_tables_faulty [OF t(2)]
    same_tables_faulty [OF s2, unfolded faulty_in_def fun_eq_iff, rule_format]
  have ds2: "ds2 = map od_draft (filter (\<lambda>en. \<not> superseded (us_unit s u) en \<and> \<not> faulty_in s (od_draft en)) (un_open (us_unit s u)))"
    using collect_open_drafts [of "us_unit t u" e "un_open (us_unit t u)" t] o eqs by simp
  have fin: "same_tables s (finalize u st er e s2)"
    using s2 same_tables_finalize same_tables_trans by blast
  show ?case
    using t(1) o eqs ds2 s2 fin unfolding faulty_in_def by (simp add: own_spans_def faulty_in_def [abs_def])
qed simp

section \<open>The forest\<close>

definition kids :: "units \<Rightarrow> (unit_id \<times> unit_id) set" where
  "kids s = {(p, c). standing s p \<and> c \<in> set (un_children (us_unit s p))}"

definition under :: "units \<Rightarrow> unit_id \<Rightarrow> unit_id set" where
  "under s u = {v. (u, v) \<in> (kids s)\<^sup>*}"

lemma same_tables_kids: "same_tables s t \<Longrightarrow> kids t = kids s"
  by (frule same_tables_unit) (simp add: kids_def same_tables_standing)

lemma standing_live: "standing s u \<Longrightarrow> un_live (us_unit s u)"
  by (simp add: standing_def is_live_def)

lemma standing_next: "standing s u \<Longrightarrow> u < us_next_unit s"
  by (simp add: standing_def own_def)

lemma kid_standing: "tree_but X s \<Longrightarrow> standing s p \<Longrightarrow> c \<in> set (un_children (us_unit s p)) \<Longrightarrow> standing s c"
  by (simp add: tree_but_def)

lemma kid_parent:
  "tree_but X s \<Longrightarrow> standing s p \<Longrightarrow> c \<in> set (un_children (us_unit s p)) \<Longrightarrow> un_parent (us_unit s c) = Some p"
  by (simp add: tree_but_def)

lemma parent_older: "tree_but X s \<Longrightarrow> u < us_next_unit s \<Longrightarrow> un_parent (us_unit s u) = Some p \<Longrightarrow> p < u"
  by (simp add: tree_but_def)

lemma kid_younger: "tree_but X s \<Longrightarrow> standing s p \<Longrightarrow> c \<in> set (un_children (us_unit s p)) \<Longrightarrow> p < c"
  using kid_parent kid_standing standing_next parent_older by meson

lemma kids_standing: "tree_but X s \<Longrightarrow> (p, c) \<in> kids s \<Longrightarrow> standing s p \<and> standing s c"
  by (auto simp: kids_def kid_standing)

lemma under_standing: "tree_but X s \<Longrightarrow> standing s u \<Longrightarrow> v \<in> under s u \<Longrightarrow> standing s v"
  unfolding under_def mem_Collect_eq
  by (erule rtrancl_induct) (auto dest: kids_standing)

lemma under_older: "tree_but X s \<Longrightarrow> v \<in> under s u \<Longrightarrow> u \<le> v"
  unfolding under_def mem_Collect_eq
  by (erule rtrancl_induct) (fastforce simp: kids_def dest: kid_younger)+

lemma under_self [simp]: "u \<in> under s u"
  by (simp add: under_def)

lemma under_unfold: "under s u = insert u (\<Union>c \<in> {c. (u, c) \<in> kids s}. under s c)"
  unfolding under_def by (auto elim: converse_rtranclE intro: converse_rtrancl_into_rtrancl)

lemma under_down: "v \<in> under s u \<Longrightarrow> (v, w) \<in> kids s \<Longrightarrow> w \<in> under s u"
  unfolding under_def by (auto intro: rtrancl_into_rtrancl)

lemma kids_single: "tree_but X s \<Longrightarrow> single_valued ((kids s)\<inverse>)"
  unfolding single_valued_def kids_def
  using kid_parent by (metis (no_types, lifting) CollectD case_prodD converseD option.inject)

lemma siblings_apart:
  assumes "tree_but X s" "(u, c) \<in> kids s" "(u, d) \<in> kids s" "c \<noteq> d"
  shows "under s c \<inter> under s d = {}"
proof -
  have no: False if "(x, y) \<in> kids s" "(x, z) \<in> kids s" "(y, z) \<in> (kids s)\<^sup>*" "y \<noteq> z" for x y z
  proof -
    note given = that
    obtain w where w: "(y, w) \<in> (kids s)\<^sup>*" "(w, z) \<in> kids s"
      using given(3,4) by (metis rtranclE)
    have "w = x"
      using kids_single [OF assms(1)] w(2) that(2) by (auto simp: single_valued_def)
    then have "y \<le> x" using under_older [OF assms(1)] w(1) by (auto simp: under_def)
    moreover have "x < y" using that(1) kid_younger [OF assms(1)] by (auto simp: kids_def)
    ultimately show False by simp
  qed
  show ?thesis
  proof (rule ccontr)
    assume "under s c \<inter> under s d \<noteq> {}"
    then obtain v where v: "(c, v) \<in> (kids s)\<^sup>*" "(d, v) \<in> (kids s)\<^sup>*" by (auto simp: under_def)
    then have "(v, c) \<in> ((kids s)\<inverse>)\<^sup>*" "(v, d) \<in> ((kids s)\<inverse>)\<^sup>*" by (simp_all add: rtrancl_converse)
    then have "(c, d) \<in> ((kids s)\<inverse>)\<^sup>* \<or> (d, c) \<in> ((kids s)\<inverse>)\<^sup>*"
      using single_valued_confluent [OF kids_single [OF assms(1)]] by blast
    then show False using no assms(2-4) by (auto simp: rtrancl_converse)
  qed
qed

text \<open>The bound of a walk down is never reached: a unit is older than its children.\<close>

lemma live_kids:
  "tree_but X s \<Longrightarrow> standing s u \<Longrightarrow>
     filter (\<lambda>c. un_live (us_unit s c)) (un_children (us_unit s u)) = un_children (us_unit s u)"
  by (rule filter_True) (auto dest: kid_standing standing_live)

lemma kid_fuel:
  assumes "tree_but X s" "standing s u" "us_next_unit s - u \<le> Suc n" "c \<in> set (un_children (us_unit s u))"
  shows "us_next_unit s - c \<le> n"
  using kid_younger [OF assms(1,2,4)] assms(3) by simp

lemma subtree_is_under:
  assumes "tree_but X s"
  shows "standing s u \<Longrightarrow> us_next_unit s - u \<le> n \<Longrightarrow> set (subtree n (us_unit s) u) = under s u"
proof (induction n arbitrary: u)
  case 0
  then show ?case using standing_next by fastforce
next
  case (Suc n)
  have "set (subtree n (us_unit s) c) = under s c" if "c \<in> set (un_children (us_unit s u))" for c
    using Suc.IH kid_standing [OF assms Suc.prems(1) that] kid_fuel [OF assms Suc.prems that] by blast
  then show ?case
    using Suc.prems(1) live_kids [OF assms Suc.prems(1)]
    by (subst under_unfold) (auto simp: kids_def)
qed

lemma holdings_spans: "set (own_spans us f u) \<subseteq> set (holdings (us u))"
  by (auto simp: own_spans_def holdings_def)

lemma owed_from_under:
  assumes "tree_but X s"
  shows "standing s u \<Longrightarrow> us_next_unit s - u \<le> n \<Longrightarrow>
    set (owed n (us_unit s) f u) = (\<Union>v \<in> under s u. set (own_spans (us_unit s) f v))"
proof (induction n arbitrary: u)
  case 0
  then show ?case using standing_next by fastforce
next
  case (Suc n)
  have "set (owed n (us_unit s) f c) = (\<Union>v \<in> under s c. set (own_spans (us_unit s) f v))"
    if "c \<in> set (un_children (us_unit s u))" for c
    using Suc.IH kid_standing [OF assms Suc.prems(1) that] kid_fuel [OF assms Suc.prems that] by blast
  then show ?case
    using Suc.prems(1) live_kids [OF assms Suc.prems(1)]
    by (subst under_unfold) (auto simp: kids_def)
qed

lemma distinct_concat_map:
  assumes "distinct xs" "\<And>x. x \<in> set xs \<Longrightarrow> distinct (f x)"
    "\<And>x y. x \<in> set xs \<Longrightarrow> y \<in> set xs \<Longrightarrow> x \<noteq> y \<Longrightarrow> set (f x) \<inter> set (f y) = {}"
  shows "distinct (concat (map f xs))"
  using assms
proof (induction xs)
  case (Cons x xs)
  have "set (f x) \<inter> set (f y) = {}" if "y \<in> set xs" for y
    using Cons.prems(1,3) that by (metis distinct.simps(2) list.set_intros)
  then show ?case using Cons by auto
qed simp

lemma spans_held_apart:
  "drafts_ok s \<Longrightarrow> standing s u \<Longrightarrow> standing s v \<Longrightarrow> u \<noteq> v \<Longrightarrow>
     set (holdings (us_unit s u)) \<inter> set (holdings (us_unit s v)) = {}"
  by (simp add: drafts_ok_def)

lemma spans_held_distinct: "drafts_ok s \<Longrightarrow> standing s u \<Longrightarrow> distinct (holdings (us_unit s u))"
  by (simp add: drafts_ok_def)

lemma held_fresh:
  "drafts_ok s \<Longrightarrow> standing s u \<Longrightarrow> d \<in> set (holdings (us_unit s u)) \<Longrightarrow>
     d < us_next_draft s \<and> d \<notin> set (us_emitted s)"
  by (simp add: drafts_ok_def)

lemma own_spans_distinct: "distinct (holdings (us u)) \<Longrightarrow> distinct (own_spans us f u)"
  by (auto simp: own_spans_def holdings_def distinct_map inj_on_def)

lemma spans_apart:
  assumes "drafts_ok s" "standing s u" "standing s v" "u \<noteq> v"
  shows "set (own_spans (us_unit s) f u) \<inter> set (own_spans (us_unit s) f v) = {}"
  using spans_held_apart [OF assms] holdings_spans by (metis Int_mono subset_empty)

lemma owed_distinct:
  assumes "tree_but X s" "drafts_ok s"
  shows "standing s u \<Longrightarrow> us_next_unit s - u \<le> n \<Longrightarrow> distinct (owed n (us_unit s) f u)"
proof (induction n arbitrary: u)
  case (Suc n)
  let ?cs = "un_children (us_unit s u)"
  have kid: "standing s c \<and> us_next_unit s - c \<le> n \<and> (u, c) \<in> kids s" if "c \<in> set ?cs" for c
    using kid_standing [OF assms(1) Suc.prems(1) that] kid_fuel [OF assms(1) Suc.prems that] that Suc.prems(1)
    by (simp add: kids_def)
  have owed_c: "set (owed n (us_unit s) f c) = (\<Union>v \<in> under s c. set (own_spans (us_unit s) f v))"
    if "c \<in> set ?cs" for c
    using owed_from_under [OF assms(1)] kid [OF that] by blast
  have apart: "set (own_spans (us_unit s) f v) \<inter> set (own_spans (us_unit s) f w) = {}"
    if "v \<in> under s c" "w \<in> under s d" "c \<in> set ?cs" "d \<in> set ?cs" "c \<noteq> d" for v w c d
  proof (rule spans_apart [OF assms(2)])
    show "standing s v" "standing s w" using under_standing [OF assms(1)] that kid by meson+
    show "v \<noteq> w" using siblings_apart [OF assms(1), of u c d] that kid by blast
  qed
  have up: "set (own_spans (us_unit s) f v) \<inter> set (own_spans (us_unit s) f u) = {}"
    if "v \<in> under s c" "c \<in> set ?cs" for v c
  proof -
    have "u < v" using under_older [OF assms(1) that(1)] kid_younger [OF assms(1) Suc.prems(1) that(2)] by simp
    moreover have "standing s v" using under_standing [OF assms(1)] that kid by meson
    ultimately show ?thesis using spans_apart [OF assms(2) _ Suc.prems(1)] by simp
  qed
  have "distinct (concat (map (owed n (us_unit s) f) ?cs))"
  proof (rule distinct_concat_map)
    show "distinct ?cs" using assms(1) Suc.prems(1) by (simp add: tree_but_def)
    show "distinct (owed n (us_unit s) f c)" if "c \<in> set ?cs" for c using Suc.IH kid that by blast
    show "set (owed n (us_unit s) f c) \<inter> set (owed n (us_unit s) f d) = {}"
      if "c \<in> set ?cs" "d \<in> set ?cs" "c \<noteq> d" for c d
      using apart that by (simp add: owed_c) blast
  qed
  moreover have "distinct (own_spans (us_unit s) f u)"
    by (rule own_spans_distinct) (rule spans_held_distinct [OF assms(2) Suc.prems(1)])
  moreover have "set (concat (map (owed n (us_unit s) f) ?cs)) \<inter> set (own_spans (us_unit s) f u) = {}"
    using up by (auto simp: owed_c)
  ultimately show ?case by (simp add: live_kids [OF assms(1) Suc.prems(1)])
qed simp

section \<open>Phase two: unlinking\<close>

lemma trim_links_drops:
  "\<exists>cs. trim_links ms s =
     s\<lparr>us_link_memory := drop (length ms - us_max_links s) ms, us_counters := cs\<rparr>"
proof (induction ms arbitrary: s)
  case Nil
  show ?case by (rule exI [of _ "us_counters s"]) simp
next
  case (Cons m ms)
  show ?case
  proof (cases "us_max_links s < length (m # ms)")
    case True
    obtain cs where "trim_links ms (count ''link_memory_full'' s) =
      (count ''link_memory_full'' s)\<lparr>us_link_memory := drop (length ms - us_max_links s) ms, us_counters := cs\<rparr>"
      using Cons.IH [of "count ''link_memory_full'' s"] by (auto simp: count_def)
    moreover have "length (m # ms) - us_max_links s = Suc (length ms - us_max_links s)" using True by simp
    ultimately show ?thesis using True by (auto simp: count_def)
  next
    case False
    show ?thesis using False by (intro exI [of _ "us_counters s"]) simp
  qed
qed

lemma remember_links_frame:
  "\<exists>lm cs. remember_links u ms s = s\<lparr>us_link_memory := lm, us_counters := cs\<rparr> \<and>
     (length (us_link_memory s) \<le> us_max_links s \<longrightarrow> length lm \<le> us_max_links s)"
proof (induction u ms s rule: remember_links.induct)
  case (1 u s)
  show ?case by (rule exI [of _ "us_link_memory s"], rule exI [of _ "us_counters s"]) simp
next
  case (2 u key ctx rest s)
  let ?ms = "AList.delete key (us_link_memory s) @ [(key, ctx)]"
  obtain cs where cs: "trim_links ?ms s =
      s\<lparr>us_link_memory := drop (length ?ms - us_max_links s) ?ms, us_counters := cs\<rparr>"
    using trim_links_drops by blast
  show ?case
  proof (cases "map_of (us_by_alias s) key = Some u")
    case True
    then obtain lm c2 where
      "remember_links u rest (trim_links ?ms s) = (trim_links ?ms s)\<lparr>us_link_memory := lm, us_counters := c2\<rparr>"
      "length (us_link_memory (trim_links ?ms s)) \<le> us_max_links (trim_links ?ms s) \<longrightarrow>
         length lm \<le> us_max_links (trim_links ?ms s)"
      using 2 by auto
    then show ?thesis using True
      by (intro exI [of _ lm] exI [of _ c2]) (simp add: cs del: drop_append)
  next
    case False
    then show ?thesis using 2 by simp
  qed
qed

definition unlink_heap :: "unit_id \<Rightarrow> (unit_id \<Rightarrow> work_unit) \<Rightarrow> unit_id \<Rightarrow> work_unit" where
  "unlink_heap u us =
     (let us1 = us(u := (us u)\<lparr>un_live := False, un_children := [], un_open := []\<rparr>);
          us2 = (case un_parent (us u) of None \<Rightarrow> us1
                 | Some p \<Rightarrow> us1(p := (us1 p)\<lparr>un_children := remove1 u (un_children (us1 p))\<rparr>))
      in us2(u := (us2 u)\<lparr>un_remembered := [], un_alias_keys := []\<rparr>))"

lemma unlink_heap_fields [simp]:
  "un_live (unlink_heap u us v) = (un_live (us v) \<and> v \<noteq> u)"
  "un_open (unlink_heap u us v) = (if v = u then [] else un_open (us v))"
  "un_alias_keys (unlink_heap u us v) = (if v = u then [] else un_alias_keys (us v))"
  "un_children (unlink_heap u us v) =
     (if v = u then [] else if un_parent (us u) = Some v then remove1 u (un_children (us v)) else un_children (us v))"
  "un_registry (unlink_heap u us v) = un_registry (us v)"
  "un_parent (unlink_heap u us v) = un_parent (us v)"
  "un_draft (unlink_heap u us v) = un_draft (us v)"
  "un_claims (unlink_heap u us v) = un_claims (us v)"
  "un_owner (unlink_heap u us v) = un_owner (us v)"
  "un_kind (unlink_heap u us v) = un_kind (us v)"
  by (auto simp: unlink_heap_def Let_def split: option.splits)

lemma detach_frame:
  "\<exists>lm cs fk fu pins ret. detach me u s =
     s\<lparr>us_unit := unlink_heap u (us_unit s), us_roots := remove1 u (us_roots s), us_live := remove1 u (us_live s),
       us_by_alias := filter (\<lambda>(k, v). \<not> (k \<in> set (un_alias_keys (us_unit s u)) \<and> v = u)) (us_by_alias s),
       us_link_memory := lm, us_counters := cs, us_forgot_key := fk, us_forgot_unit := fu,
       us_pins := pins, us_retired := ret\<rparr> \<and>
     (length (us_link_memory s) \<le> us_max_links s \<longrightarrow> length lm \<le> us_max_links s)"
proof -
  define s1 where "s1 = (set_unit u (\<lambda>x. x\<lparr>un_live := False, un_children := [], un_open := []\<rparr>) s)
                 \<lparr>us_roots := remove1 u (us_roots s), us_live := remove1 u (us_live s)\<rparr>"
  define s2 where "s2 = (case map_of (us_pins s1) u of None \<Rightarrow> s1
     | Some pin \<Rightarrow> (let s11 = s1\<lparr>us_pins := AList.delete u (us_pins s1)\<rparr>
         in if pn_owner pin = me then s11
            else count ''pin_retired_from_afar'' (s11\<lparr>us_retired := us_retired s11 @ [u]\<rparr>)))"
  define s3 where "s3 = (case un_parent (us_unit s u) of None \<Rightarrow> s2
     | Some p \<Rightarrow> set_unit p (\<lambda>y. y\<lparr>un_children := remove1 u (un_children y)\<rparr>) s2)"
  have "\<exists>cs pins ret. s2 = s1\<lparr>us_counters := cs, us_pins := pins, us_retired := ret\<rparr>"
  proof (cases "map_of (us_pins s1) u")
    case None
    show ?thesis unfolding s2_def None
      by (intro exI [of _ "us_counters s1"] exI [of _ "us_pins s1"] exI [of _ "us_retired s1"]) simp
  next
    case (Some pin)
    show ?thesis
    proof (cases "pn_owner pin = me")
      case True
      show ?thesis unfolding s2_def Some using True
        by (intro exI [of _ "us_counters s1"] exI [of _ "AList.delete u (us_pins s1)"] exI [of _ "us_retired s1"]) simp
    next
      case False
      show ?thesis unfolding s2_def Some using False
        by (simp add: count_def Let_def)
          (rule exI [of _ "us_counters s1 @ [''assembly._units.'' @ ''pin_retired_from_afar'']"],
           rule exI [of _ "AList.delete u (us_pins s1)"], rule exI [of _ "us_retired s1 @ [u]"], simp)
    qed
  qed
  then obtain cs pins ret where s2: "s2 = s1\<lparr>us_counters := cs, us_pins := pins, us_retired := ret\<rparr>" by blast
  obtain lm c2 where rl: "remember_links u (un_remembered (us_unit s u)) s3 = s3\<lparr>us_link_memory := lm, us_counters := c2\<rparr>"
    "length (us_link_memory s3) \<le> us_max_links s3 \<longrightarrow> length lm \<le> us_max_links s3"
    using remember_links_frame by blast
  define s4 where "s4 = drop_unit_keys u (s3\<lparr>us_link_memory := lm, us_counters := c2\<rparr>)"
  have s3: "us_link_memory s3 = us_link_memory s" "us_max_links s3 = us_max_links s"
    by (auto simp: s3_def s2 s1_def set_unit_def split: option.splits)
  have "detach me u s = set_unit u (\<lambda>y. y\<lparr>un_remembered := [], un_alias_keys := []\<rparr>)
      (s4\<lparr>us_by_alias := filter (\<lambda>(k, v). \<not> (k \<in> set (un_alias_keys (us_unit s u)) \<and> v = u)) (us_by_alias s4)\<rparr>)"
    unfolding s4_def rl(1) [symmetric] by (simp only: detach_def Let_def s1_def s2_def s3_def)
  also have "\<dots> = s\<lparr>us_unit := unlink_heap u (us_unit s), us_roots := remove1 u (us_roots s),
       us_live := remove1 u (us_live s),
       us_by_alias := filter (\<lambda>(k, v). \<not> (k \<in> set (un_alias_keys (us_unit s u)) \<and> v = u)) (us_by_alias s),
       us_link_memory := lm, us_counters := c2, us_forgot_key := us_forgot_key s4, us_forgot_unit := us_forgot_unit s4,
       us_pins := pins, us_retired := ret\<rparr>"
    by (auto simp: s4_def drop_unit_keys_def s3_def s2 s1_def set_unit_def unlink_heap_def Let_def
        intro!: units.equality split: option.splits)
  finally have "detach me u s = s\<lparr>us_unit := unlink_heap u (us_unit s), us_roots := remove1 u (us_roots s),
       us_live := remove1 u (us_live s),
       us_by_alias := filter (\<lambda>(k, v). \<not> (k \<in> set (un_alias_keys (us_unit s u)) \<and> v = u)) (us_by_alias s),
       us_link_memory := lm, us_counters := c2, us_forgot_key := us_forgot_key s4, us_forgot_unit := us_forgot_unit s4,
       us_pins := pins, us_retired := ret\<rparr>" .
  moreover have "length (us_link_memory s) \<le> us_max_links s \<longrightarrow> length lm \<le> us_max_links s"
    using rl(2) s3 by simp
  ultimately show ?thesis by blast
qed

text \<open>What a whole list of units leaves when it is unlinked: \<open>torn D s t\<close>.\<close>

definition torn :: "unit_id set \<Rightarrow> units \<Rightarrow> units \<Rightarrow> bool" where
  "torn D s t \<longleftrightarrow>
     us_self t = us_self s \<and> us_max_units t = us_max_units s \<and> us_max_entries t = us_max_entries s \<and>
     us_max_links t = us_max_links s \<and> us_max_record t = us_max_record s \<and>
     us_next_unit t = us_next_unit s \<and> us_next_draft t = us_next_draft s \<and>
     us_draft t = us_draft s \<and> us_emitted t = us_emitted s \<and>
     us_live t = filter (\<lambda>v. v \<notin> D) (us_live s) \<and> us_roots t = filter (\<lambda>v. v \<notin> D) (us_roots s) \<and>
     us_by_alias t = filter (\<lambda>(k, v). \<not> (v \<in> D \<and> k \<in> set (un_alias_keys (us_unit s v)))) (us_by_alias s) \<and>
     (length (us_link_memory s) \<le> us_max_links s \<longrightarrow> length (us_link_memory t) \<le> us_max_links s) \<and>
     (\<forall>v. un_live (us_unit t v) = (un_live (us_unit s v) \<and> v \<notin> D) \<and>
        un_registry (us_unit t v) = un_registry (us_unit s v) \<and>
        un_parent (us_unit t v) = un_parent (us_unit s v) \<and>
        un_draft (us_unit t v) = un_draft (us_unit s v) \<and>
        un_claims (us_unit t v) = un_claims (us_unit s v) \<and>
        un_kind (us_unit t v) = un_kind (us_unit s v) \<and> un_owner (us_unit t v) = un_owner (us_unit s v) \<and>
        un_open (us_unit t v) = (if v \<in> D then [] else un_open (us_unit s v)) \<and>
        un_alias_keys (us_unit t v) = (if v \<in> D then [] else un_alias_keys (us_unit s v)) \<and>
        (distinct (un_children (us_unit s v)) \<longrightarrow>
           un_children (us_unit t v) =
             (if v \<in> D then []
              else filter (\<lambda>c. \<not> (c \<in> D \<and> un_parent (us_unit s c) = Some v)) (un_children (us_unit s v)))) \<and>
        length (un_children (us_unit t v)) \<le> length (un_children (us_unit s v)))"

lemma remove1_filter: "distinct xs \<Longrightarrow> remove1 u xs = filter (\<lambda>v. v \<noteq> u) xs"
  by (simp add: distinct_remove1_removeAll removeAll_filter_not_eq) (simp add: eq_commute)

lemma torn_detach:
  assumes "distinct (us_live s)" "distinct (us_roots s)"
  shows "torn {u} s (detach me u s)"
proof -
  obtain lm cs fk fu pins ret where d: "detach me u s =
     s\<lparr>us_unit := unlink_heap u (us_unit s), us_roots := remove1 u (us_roots s), us_live := remove1 u (us_live s),
       us_by_alias := filter (\<lambda>(k, v). \<not> (k \<in> set (un_alias_keys (us_unit s u)) \<and> v = u)) (us_by_alias s),
       us_link_memory := lm, us_counters := cs, us_forgot_key := fk, us_forgot_unit := fu,
       us_pins := pins, us_retired := ret\<rparr>"
    and lm: "length (us_link_memory s) \<le> us_max_links s \<longrightarrow> length lm \<le> us_max_links s"
    using detach_frame by blast
  have len: "length (remove1 u xs) \<le> length xs" for xs :: "unit_id list"
    by (simp add: length_remove1)
  show ?thesis
    unfolding torn_def d using assms lm
    by (auto simp: remove1_filter len intro!: filter_cong)
qed

lemma torn_trans:
  assumes "torn D s r" "torn E r t"
  shows "torn (D \<union> E) s t"
proof -
  have k: "un_children (us_unit t v) = (if v \<in> D \<union> E then []
              else filter (\<lambda>c. \<not> (c \<in> D \<union> E \<and> un_parent (us_unit s c) = Some v)) (un_children (us_unit s v)))"
    if "distinct (un_children (us_unit s v))" for v
  proof -
    have r: "un_children (us_unit r v) = (if v \<in> D then []
              else filter (\<lambda>c. \<not> (c \<in> D \<and> un_parent (us_unit s c) = Some v)) (un_children (us_unit s v)))"
      using assms(1) that by (simp add: torn_def)
    then have "distinct (un_children (us_unit r v))" using that by simp
    then show ?thesis using assms r by (auto simp: torn_def intro: filter_cong)
  qed
  have a: "us_by_alias t = filter (\<lambda>(k, v). \<not> (v \<in> D \<union> E \<and> k \<in> set (un_alias_keys (us_unit s v)))) (us_by_alias s)"
    using assms by (auto simp: torn_def intro!: filter_cong)
  have l: "length (us_link_memory s) \<le> us_max_links s \<longrightarrow> length (us_link_memory t) \<le> us_max_links s"
    using assms by (simp add: torn_def)
  have c: "length (un_children (us_unit t v)) \<le> length (un_children (us_unit s v))" for v
    using assms by (simp add: torn_def) (meson le_trans)
  show ?thesis
    unfolding torn_def using k a l c assms by (auto simp: torn_def)
qed

lemma torn_empty: "torn {} s s"
  by (simp add: torn_def)

lemma torn_fold:
  "distinct (us_live s) \<Longrightarrow> distinct (us_roots s) \<Longrightarrow> torn (set dm) s (fold (detach me) dm s)"
proof (induction dm arbitrary: s)
  case (Cons u dm)
  have one: "torn {u} s (detach me u s)" using Cons.prems torn_detach by blast
  then have "distinct (us_live (detach me u s))" "distinct (us_roots (detach me u s))"
    using Cons.prems by (simp_all add: torn_def)
  then have "torn (set dm) (detach me u s) (fold (detach me) dm (detach me u s))" using Cons.IH by blast
  from torn_trans [OF one this] show ?case by simp
qed (simp add: torn_empty)

section \<open>Closing keeps the invariant\<close>

lemma torn_standing: "torn D s t \<Longrightarrow> standing t v = (standing s v \<and> v \<notin> D)"
  by (auto simp: torn_def standing_def own_def is_live_def)

lemma torn_own: "torn D s t \<Longrightarrow> own t v = own s v"
  by (auto simp: torn_def own_def)

lemma torn_children:
  assumes "torn D s t" "tree_but X s" "standing s v" "v \<notin> D"
  shows "un_children (us_unit t v) = filter (\<lambda>c. c \<notin> D) (un_children (us_unit s v))"
proof -
  have "distinct (un_children (us_unit s v))" using assms by (simp add: tree_but_def)
  then have "un_children (us_unit t v) =
      filter (\<lambda>c. \<not> (c \<in> D \<and> un_parent (us_unit s c) = Some v)) (un_children (us_unit s v))"
    using assms(1,4) by (simp add: torn_def)
  also have "\<dots> = filter (\<lambda>c. c \<notin> D) (un_children (us_unit s v))"
    using kid_parent [OF assms(2,3)] by (intro filter_cong) auto
  finally show ?thesis .
qed

lemma torn_tree:
  assumes s: "tree_but X s" and t: "torn D s t" and down: "\<And>v w. v \<in> D \<Longrightarrow> (v, w) \<in> kids s \<Longrightarrow> w \<in> D"
  shows "tree_but (X - D) t"
proof -
  note st = torn_standing [OF t] and ch = torn_children [OF t s]
  have fields: "us_live t = filter (\<lambda>v. v \<notin> D) (us_live s)" "us_roots t = filter (\<lambda>v. v \<notin> D) (us_roots s)"
    "us_next_unit t = us_next_unit s" "\<And>v. un_parent (us_unit t v) = un_parent (us_unit s v)"
    using t by (simp_all add: torn_def)
  have up: "w \<notin> D \<longrightarrow> p \<notin> D" if "standing s p" "w \<in> set (un_children (us_unit s p))" for p w
    using down that by (auto simp: kids_def)
  show ?thesis
    unfolding tree_but_def fields
  proof (intro conjI)
    show "distinct (filter (\<lambda>v. v \<notin> D) (us_live s))" "distinct (filter (\<lambda>v. v \<notin> D) (us_roots s))"
      using s by (simp_all add: tree_but_def)
    show "\<forall>u. (u \<in> set (filter (\<lambda>v. v \<notin> D) (us_live s))) = standing t u"
      using s by (auto simp: tree_but_def st)
    show "set (filter (\<lambda>v. v \<notin> D) (us_roots s)) \<subseteq> set (filter (\<lambda>v. v \<notin> D) (us_live s))"
      using s by (auto simp: tree_but_def)
    show "\<forall>u p. u < us_next_unit s \<longrightarrow> un_parent (us_unit s u) = Some p \<longrightarrow> p < u"
      using s by (simp add: tree_but_def)
    show "\<forall>p. standing t p \<longrightarrow> distinct (un_children (us_unit t p))"
      using s by (auto simp: tree_but_def st ch)
    show "\<forall>p c. standing t p \<longrightarrow> c \<in> set (un_children (us_unit t p)) \<longrightarrow>
        standing t c \<and> un_parent (us_unit s c) = Some p"
      using s by (auto simp: tree_but_def st ch)
    show "\<forall>u. standing t u \<longrightarrow> u \<in> X - D \<or> u \<in> set (filter (\<lambda>v. v \<notin> D) (us_roots s)) \<or>
        (\<exists>p. standing t p \<and> u \<in> set (un_children (us_unit t p)))"
    proof (intro allI impI)
      fix u assume "standing t u"
      then have u: "standing s u" "u \<notin> D" by (simp_all add: st)
      then consider "u \<in> X" | "u \<in> set (us_roots s)" | p where "standing s p" "u \<in> set (un_children (us_unit s p))"
        using s by (auto simp: tree_but_def)
      then show "u \<in> X - D \<or> u \<in> set (filter (\<lambda>v. v \<notin> D) (us_roots s)) \<or>
        (\<exists>p. standing t p \<and> u \<in> set (un_children (us_unit t p)))"
      proof cases
        case 1 then show ?thesis using u by simp
      next
        case 2 then show ?thesis using u by simp
      next
        case 3
        then have "p \<notin> D" using up u by blast
        then have "standing t p \<and> u \<in> set (un_children (us_unit t p))" using 3 u by (simp add: st ch)
        then show ?thesis by blast
      qed
    qed
  qed
qed

lemma torn_bounds:
  assumes "bounds_ok s" "torn D s t"
  shows "bounds_ok t"
proof -
  have f: "us_max_units t = us_max_units s" "us_max_entries t = us_max_entries s" "us_max_links t = us_max_links s"
    "\<And>u. un_claims (us_unit t u) = un_claims (us_unit s u)"
    "\<And>u. length (un_alias_keys (us_unit t u)) \<le> length (un_alias_keys (us_unit s u))"
    "\<And>u. length (un_children (us_unit t u)) \<le> length (un_children (us_unit s u))"
    "length (us_roots t) \<le> length (us_roots s)" "length (us_live t) \<le> length (us_live s)"
    using assms(2) by (simp_all add: torn_def)
  have "length (un_open (us_unit t u)) \<le> (if un_live (us_unit t u) then us_max_entries s else 0)" if "own s u" for u
  proof -
    have "length (un_open (us_unit s u)) \<le> (if un_live (us_unit s u) then us_max_entries s else 0)"
      using assms(1) that by (simp add: bounds_ok_def)
    then show ?thesis using assms(2) by (auto simp: torn_def split: if_splits)
  qed
  moreover have "length (us_link_memory t) \<le> us_max_links s" using assms by (simp add: torn_def bounds_ok_def)
  ultimately show ?thesis
    using assms(1) unfolding bounds_ok_def torn_own [OF assms(2)] f(1-4)
    by (meson f(5-8) le_trans)
qed

lemma torn_alias:
  assumes "alias_ok s" "torn D s t"
  shows "alias_ok t"
proof -
  have by_alias: "us_by_alias t =
      filter (\<lambda>(k, v). \<not> (v \<in> D \<and> k \<in> set (un_alias_keys (us_unit s v)))) (us_by_alias s)"
    using assms by (simp add: torn_def)
  have keys: "distinct (map fst (us_by_alias s))" using assms by (simp add: alias_ok_def)
  have "standing t u \<and> k \<in> set (un_alias_keys (us_unit t u))" if "map_of (us_by_alias t) k = Some u" for k u
  proof -
    have mem: "(k, u) \<in> set (us_by_alias s)" "\<not> (u \<in> D \<and> k \<in> set (un_alias_keys (us_unit s u)))"
      using map_of_SomeD [OF that] by (auto simp: by_alias)
    then have "map_of (us_by_alias s) k = Some u" using keys by simp
    then have "standing s u" "k \<in> set (un_alias_keys (us_unit s u))" using assms by (simp_all add: alias_ok_def)
    then show ?thesis using mem(2) assms(2) by (simp add: torn_standing [OF assms(2)]) (simp add: torn_def)
  qed
  moreover have "distinct (map fst (us_by_alias t))"
    using keys by (simp add: by_alias distinct_map_filter)
  ultimately show ?thesis by (simp add: alias_ok_def)
qed

lemma drafts_shrink:
  assumes s: "drafts_ok s" and e: "us_emitted t = us_emitted s" and n: "us_next_draft t = us_next_draft s"
    and f: "\<And>d. dr_emitted (us_draft t d) = dr_emitted (us_draft s d)"
    and h: "\<And>v. standing t v \<Longrightarrow> standing s v \<and> set (holdings (us_unit t v)) \<subseteq> set (holdings (us_unit s v)) \<and>
      distinct (holdings (us_unit t v))"
  shows "drafts_ok t"
  unfolding drafts_ok_def e n f
proof (intro conjI)
  show "\<forall>u v. standing t u \<longrightarrow> standing t v \<longrightarrow> u \<noteq> v \<longrightarrow>
      set (holdings (us_unit t u)) \<inter> set (holdings (us_unit t v)) = {}"
    using spans_held_apart [OF s] h by blast
  show "\<forall>u. standing t u \<longrightarrow> distinct (holdings (us_unit t u)) \<and>
      (\<forall>d \<in> set (holdings (us_unit t u)). d < us_next_draft s \<and> d \<notin> set (us_emitted s))"
    using held_fresh [OF s] h by blast
qed (use s in \<open>simp_all add: drafts_ok_def\<close>)

lemma torn_drafts:
  assumes "drafts_ok s" "torn D s t"
  shows "drafts_ok t"
proof (rule drafts_shrink [OF assms(1)])
  fix v assume "standing t v"
  then have v: "standing s v" "v \<notin> D" by (simp_all add: torn_standing [OF assms(2)])
  then have "holdings (us_unit t v) = holdings (us_unit s v)"
    using assms(2) by (simp add: torn_def holdings_def)
  then show "standing s v \<and> set (holdings (us_unit t v)) \<subseteq> set (holdings (us_unit s v)) \<and>
      distinct (holdings (us_unit t v))"
    using v spans_held_distinct [OF assms(1)] by simp
qed (use assms(2) in \<open>simp_all add: torn_def\<close>)

lemma torn_ok:
  assumes "units_but X s" "torn D s t" "\<And>v w. v \<in> D \<Longrightarrow> (v, w) \<in> kids s \<Longrightarrow> w \<in> D"
  shows "units_but (X - D) t"
proof -
  have "us_max_units t = us_max_units s" "us_max_entries t = us_max_entries s"
    using assms(2) by (simp_all add: torn_def)
  then show ?thesis
    using assms torn_tree torn_bounds torn_alias torn_drafts unfolding units_but_def by metis
qed

lemma torn_of_same: "same_tables s r \<Longrightarrow> torn D r t \<Longrightarrow> kids r = kids s"
  by (rule same_tables_kids)

lemma close_locked_dead:
  "\<not> is_live s u \<Longrightarrow> close_locked me u st er e s = ([], count ''close_after_close'' s)"
  by (simp add: close_locked_def)

lemma close_locked_effect:
  assumes "tree_but X s" "standing s u"
  shows "\<exists>r t. close_locked me u st er e s = (owed (us_next_unit s) (us_unit s) (faulty_in s) u, t) \<and>
     same_tables s r \<and> torn (under s u) r t"
proof -
  obtain r where r: "collect (us_next_unit s) u st er e s =
      (owed (us_next_unit s) (us_unit s) (faulty_in s) u, subtree (us_next_unit s) (us_unit s) u, r)" "same_tables s r"
    using collect_reads by blast
  have sub: "set (subtree (us_next_unit s) (us_unit s) u) = under s u"
    by (rule subtree_is_under [OF assms]) simp
  have "distinct (us_live r)" "distinct (us_roots r)" using r(2) assms(1) by (simp_all add: same_tables_def tree_but_def)
  from torn_fold [OF this, of "subtree (us_next_unit s) (us_unit s) u" me]
  have "torn (under s u) r (fold (detach me) (subtree (us_next_unit s) (us_unit s) u) r)" by (simp add: sub)
  then show ?thesis
    using r standing_live [OF assms(2)] by (auto simp: close_locked_def is_live_def)
qed

lemma units_but_tree: "units_but X s \<Longrightarrow> tree_but X s"
  by (simp add: units_but_def)

lemma units_but_drafts: "units_but X s \<Longrightarrow> drafts_ok s"
  by (simp add: units_but_def)

text \<open>The drafts waiting for the sink: distinct, fresh, and held by no standing unit.\<close>

definition waiting_ok :: "draft_id list \<Rightarrow> units \<Rightarrow> bool" where
  "waiting_ok ds s \<longleftrightarrow> distinct ds \<and>
     (\<forall>d \<in> set ds. d < us_next_draft s \<and> d \<notin> set (us_emitted s) \<and>
        (\<forall>v. standing s v \<longrightarrow> d \<notin> set (holdings (us_unit s v))))"

lemma waiting_nil [simp]: "waiting_ok [] s"
  by (simp add: waiting_ok_def)

lemma owed_held:
  assumes "tree_but X s" "standing s u" "d \<in> set (owed (us_next_unit s) (us_unit s) f u)"
  obtains v where "v \<in> under s u" "d \<in> set (holdings (us_unit s v))" "standing s v"
proof -
  have "us_next_unit s - u \<le> us_next_unit s" by simp
  from owed_from_under [OF assms(1,2) this] assms(3)
  obtain v where "v \<in> under s u" "d \<in> set (own_spans (us_unit s) f v)" by auto
  then show ?thesis using that holdings_spans under_standing [OF assms(1,2)] by blast
qed

theorem close_locked_keeps:
  assumes ok: "units_but X s" and X: "X \<subseteq> {u}" and u: "own s u" and w: "waiting_ok ds s"
  shows "units_ok (snd (close_locked me u st er e s)) \<and>
    waiting_ok (ds @ fst (close_locked me u st er e s)) (snd (close_locked me u st er e s))"
proof (cases "is_live s u")
  case False
  have same: "same_tables s (count ''close_after_close'' s)" by simp
  have "\<not> standing s u" using False by (simp add: standing_def)
  then have "units_ok s" using ok X by (auto simp: units_but_def tree_but_def)
  from same_tables_ok [OF same this] w show ?thesis
    by (simp add: close_locked_dead [OF False]) (simp add: waiting_ok_def standing_def own_def is_live_def count_def)
next
  case True
  then have u: "standing s u" using u by (simp add: standing_def)
  have tree: "tree_but X s" and dr: "drafts_ok s" using ok by (simp_all add: units_but_def)
  let ?o = "owed (us_next_unit s) (us_unit s) (faulty_in s) u"
  obtain r t where t: "close_locked me u st er e s = (?o, t)" "same_tables s r" "torn (under s u) r t"
    using close_locked_effect [OF tree u] by blast
  have "units_but X r" using same_tables_ok [OF t(2) ok] .
  moreover have "\<And>v w. v \<in> under s u \<Longrightarrow> (v, w) \<in> kids r \<Longrightarrow> w \<in> under s u"
    using under_down by (simp add: same_tables_kids [OF t(2)])
  ultimately have "units_but (X - under s u) t" using torn_ok [OF _ t(3)] by blast
  moreover have "X - under s u = {}" using X by auto
  ultimately have okt: "units_ok t" by simp
  have f: "us_next_draft t = us_next_draft s" "us_emitted t = us_emitted s"
    using t(2,3) by (simp_all add: torn_def same_tables_def)
  have st: "standing t v = (standing s v \<and> v \<notin> under s u)" for v
    using torn_standing [OF t(3)] same_tables_standing [OF t(2)] by simp
  have h: "holdings (us_unit t v) = holdings (us_unit s v)" if "standing t v" for v
    using t(2,3) that st by (simp add: torn_def same_tables_def holdings_def)
  have "waiting_ok (ds @ ?o) t"
    unfolding waiting_ok_def
  proof (intro conjI ballI)
    have "d \<notin> set ds" if "d \<in> set ?o" for d
      using w owed_held [OF tree u that] by (metis waiting_ok_def)
    then have "set ds \<inter> set ?o = {}" by blast
    then show "distinct (ds @ ?o)"
      using w owed_distinct [OF tree dr u] by (simp add: waiting_ok_def)
    fix d assume d: "d \<in> set (ds @ ?o)"
    have fresh: "d < us_next_draft s \<and> d \<notin> set (us_emitted s)"
    proof (cases "d \<in> set ds")
      case True then show ?thesis using w by (simp add: waiting_ok_def)
    next
      case False
      then have "d \<in> set ?o" using d by simp
      then obtain x where "d \<in> set (holdings (us_unit s x))" "standing s x"
        using owed_held [OF tree u] by metis
      then show ?thesis using held_fresh [OF dr] by blast
    qed
    then show "d < us_next_draft t" "d \<notin> set (us_emitted t)" by (simp_all add: f)
    show "\<forall>v. standing t v \<longrightarrow> d \<notin> set (holdings (us_unit t v))"
    proof (intro allI impI)
      fix v assume v: "standing t v"
      then have sv: "standing s v" "v \<notin> under s u" by (simp_all add: st)
      have "d \<notin> set (holdings (us_unit s v))"
      proof (cases "d \<in> set ds")
        case True then show ?thesis using w sv by (simp add: waiting_ok_def)
      next
        case False
        then have "d \<in> set ?o" using d by simp
        then obtain x where "x \<in> under s u" "d \<in> set (holdings (us_unit s x))" "standing s x"
          using owed_held [OF tree u] by metis
        then show ?thesis using sv spans_held_apart [OF dr, of x v] by blast
      qed
      then show "d \<notin> set (holdings (us_unit t v))" using h [OF v] by simp
    qed
  qed
  then show ?thesis using okt t(1) by simp
qed

end
