(* ===== verification/Units_Forest.thy ===== *)
theory Units_Forest
  imports Units_Tables
begin

text \<open>
  The registry of \<open>Units\<close> against its specification, a forest of units. A step of the
  specification cuts a unit with all that hangs off it, or grafts a new unit onto a node or
  as a root. Every operation of the registry is a sequence of such steps, the evictions that
  make room included, so what holds of every forest grown that way holds of the registry.
\<close>

section \<open>The specification\<close>

text \<open>The specification: who is standing, who hangs off whom, who is a root.\<close>

record forest =
  fo_nodes :: "unit_id set"
  fo_edges :: "(unit_id \<times> unit_id) set"
  fo_roots :: "unit_id set"

definition forest_of :: "units \<Rightarrow> forest" where
  "forest_of s = \<lparr>fo_nodes = set (us_live s), fo_edges = kids s, fo_roots = set (us_roots s)\<rparr>"

definition cut_forest :: "unit_id \<Rightarrow> forest \<Rightarrow> forest" where
  "cut_forest u f = (let gone = {v. (u, v) \<in> (fo_edges f)\<^sup>*} in
     \<lparr>fo_nodes = fo_nodes f - gone, fo_edges = fo_edges f \<inter> (- gone) \<times> (- gone),
      fo_roots = fo_roots f - gone\<rparr>)"

definition graft_forest :: "unit_id option \<Rightarrow> unit_id \<Rightarrow> forest \<Rightarrow> forest" where
  "graft_forest pos u f =
     \<lparr>fo_nodes = insert u (fo_nodes f),
      fo_edges = (case pos of None \<Rightarrow> fo_edges f | Some p \<Rightarrow> insert (p, u) (fo_edges f)),
      fo_roots = (case pos of None \<Rightarrow> insert u (fo_roots f) | Some p \<Rightarrow> fo_roots f)\<rparr>"

inductive forest_step :: "forest \<Rightarrow> forest \<Rightarrow> bool" where
  cutting: "u \<in> fo_nodes f \<Longrightarrow> forest_step f (cut_forest u f)"
| grafting: "u \<notin> fo_nodes f \<Longrightarrow> (case pos of None \<Rightarrow> True | Some p \<Rightarrow> p \<in> fo_nodes f) \<Longrightarrow>
    forest_step f (graft_forest pos u f)"

definition forest_ok :: "forest \<Rightarrow> bool" where
  "forest_ok f \<longleftrightarrow>
     fo_roots f \<subseteq> fo_nodes f \<and> fo_edges f \<subseteq> fo_nodes f \<times> fo_nodes f \<and>
     single_valued ((fo_edges f)\<inverse>) \<and> (\<forall>r \<in> fo_roots f. \<forall>p. (p, r) \<notin> fo_edges f) \<and>
     fo_nodes f = (fo_edges f)\<^sup>* `` fo_roots f"

text \<open>Dropping the edge to the unit that is cut changes nothing.\<close>

lemma cut_forest_edge: "cut_forest c (f\<lparr>fo_edges := fo_edges f - {(p, c)}\<rparr>) = cut_forest c f"
proof -
  have "(c, v) \<in> (fo_edges f - {(p, c)})\<^sup>*" if "(c, v) \<in> (fo_edges f)\<^sup>*" for v
    using that
  proof (induction rule: rtrancl_induct)
    case (step y z)
    then show ?case by (cases "(y, z) = (p, c)") (auto intro: rtrancl_into_rtrancl)
  qed simp
  moreover have "(c, v) \<in> (fo_edges f)\<^sup>*" if "(c, v) \<in> (fo_edges f - {(p, c)})\<^sup>*" for v
    using that rtrancl_mono [of "fo_edges f - {(p, c)}" "fo_edges f"] by auto
  ultimately have "{v. (c, v) \<in> (fo_edges f - {(p, c)})\<^sup>*} = {v. (c, v) \<in> (fo_edges f)\<^sup>*}" by blast
  then show ?thesis by (auto simp: cut_forest_def Let_def)
qed

text \<open>In a forest every unit has exactly one way up, and it ends at a root.\<close>

lemma cut_edges_reach:
  assumes "(r, v) \<in> E\<^sup>*" "v \<notin> E\<^sup>* `` {u}"
  shows "(r, v) \<in> (E \<inter> (- (E\<^sup>* `` {u})) \<times> (- (E\<^sup>* `` {u})))\<^sup>*"
  using assms
proof (induction rule: rtrancl_induct)
  case (step y z)
  then have "y \<notin> E\<^sup>* `` {u}" by (auto intro: rtrancl_into_rtrancl)
  then show ?case using step by (auto intro: rtrancl_into_rtrancl)
qed simp

lemma cut_forest_ok: "forest_ok f \<Longrightarrow> forest_ok (cut_forest u f)"
proof -
  assume ok: "forest_ok f"
  let ?E = "fo_edges f" and ?G = "(fo_edges f)\<^sup>* `` {u}"
  let ?E' = "?E \<inter> (- ?G) \<times> (- ?G)"
  have cut: "cut_forest u f = \<lparr>fo_nodes = fo_nodes f - ?G, fo_edges = ?E', fo_roots = fo_roots f - ?G\<rparr>"
    by (simp add: cut_forest_def Image_def Let_def)
  have "fo_nodes f - ?G = ?E'\<^sup>* `` (fo_roots f - ?G)"
  proof (intro equalityI subsetI)
    fix v assume v: "v \<in> fo_nodes f - ?G"
    then obtain r where r: "r \<in> fo_roots f" "(r, v) \<in> ?E\<^sup>*" using ok by (auto simp: forest_ok_def)
    then have "r \<notin> ?G" using v by (auto intro: rtrancl_trans)
    then show "v \<in> ?E'\<^sup>* `` (fo_roots f - ?G)" using cut_edges_reach [OF r(2)] v r(1) by auto
  next
    fix v assume "v \<in> ?E'\<^sup>* `` (fo_roots f - ?G)"
    then obtain r where r: "r \<in> fo_roots f" "r \<notin> ?G" "(r, v) \<in> ?E'\<^sup>*" by auto
    have "(r, v) \<in> ?E\<^sup>*" using r(3) rtrancl_mono [of ?E' ?E] by auto
    moreover have "v \<notin> ?G" using r(3,2) by (induction rule: rtrancl_induct) auto
    ultimately show "v \<in> fo_nodes f - ?G" using r(1) ok by (auto simp: forest_ok_def)
  qed
  moreover have "fo_roots f - ?G \<subseteq> fo_nodes f - ?G" "?E' \<subseteq> (fo_nodes f - ?G) \<times> (fo_nodes f - ?G)"
    "single_valued (?E'\<inverse>)" "\<forall>r \<in> fo_roots f - ?G. \<forall>p. (p, r) \<notin> ?E'"
    using ok unfolding forest_ok_def single_valued_def by blast+
  ultimately show ?thesis unfolding cut forest_ok_def by simp
qed

lemma graft_forest_ok:
  assumes "forest_ok f" "u \<notin> fo_nodes f" "case pos of None \<Rightarrow> True | Some p \<Rightarrow> p \<in> fo_nodes f"
  shows "forest_ok (graft_forest pos u f)"
proof -
  have e: "fo_edges f \<subseteq> fo_nodes f \<times> fo_nodes f" "fo_roots f \<subseteq> fo_nodes f"
    "fo_nodes f = (fo_edges f)\<^sup>* `` fo_roots f" using assms(1) unfolding forest_ok_def by blast+
  have stay: "v \<in> fo_nodes f" if "(w, v) \<in> (fo_edges f)\<^sup>*" "w \<in> fo_nodes f" for w v
    using that e(1) by (induction rule: rtrancl_induct) auto
  show ?thesis
  proof (cases pos)
    case None
    have "(u, v) \<in> (fo_edges f)\<^sup>* \<Longrightarrow> v = u" for v
      using assms(2) e(1) by (auto elim: converse_rtranclE)
    then have "(fo_edges f)\<^sup>* `` insert u (fo_roots f) = insert u (fo_nodes f)" using e(3) by auto
    then show ?thesis using assms(1,2) None unfolding forest_ok_def graft_forest_def by auto
  next
    case (Some p)
    let ?E = "insert (p, u) (fo_edges f)"
    have p: "p \<in> fo_nodes f" using assms(3) Some by simp
    have "?E\<^sup>* `` fo_roots f = insert u (fo_nodes f)"
    proof (intro equalityI subsetI)
      fix v assume "v \<in> ?E\<^sup>* `` fo_roots f"
      then obtain r where "r \<in> fo_roots f" "(r, v) \<in> ?E\<^sup>*" by auto
      from this(2,1) show "v \<in> insert u (fo_nodes f)"
        using e p assms(2) by (induction rule: rtrancl_induct) auto
    next
      fix v assume v: "v \<in> insert u (fo_nodes f)"
      have old: "w \<in> ?E\<^sup>* `` fo_roots f" if "w \<in> fo_nodes f" for w
        using that e(3) rtrancl_mono [of "fo_edges f" ?E] by auto
      show "v \<in> ?E\<^sup>* `` fo_roots f"
        using v old old [OF p] by (auto intro: rtrancl_into_rtrancl)
    qed
    then show ?thesis using assms(1,2) p Some unfolding forest_ok_def graft_forest_def
      by (auto simp: single_valued_def)
  qed
qed

theorem forest_step_ok: "forest_step\<^sup>*\<^sup>* f g \<Longrightarrow> forest_ok f \<Longrightarrow> forest_ok g"
  by (induction rule: rtranclp_induct)
    (auto elim!: forest_step.cases intro: cut_forest_ok graft_forest_ok)

section \<open>Tables and forest\<close>

abbreviation grows :: "units \<Rightarrow> units \<Rightarrow> bool" where
  "grows s t \<equiv> forest_step\<^sup>*\<^sup>* (forest_of s) (forest_of t)"

lemma grows_trans: "grows s r \<Longrightarrow> grows r t \<Longrightarrow> grows s t"
  by (rule rtranclp_trans)

lemma grows_eq: "forest_of t = forest_of s \<Longrightarrow> grows s t"
  by simp

lemma forest_same_tables: "same_tables s t \<Longrightarrow> forest_of t = forest_of s"
  by (simp add: forest_of_def same_tables_kids) (simp add: same_tables_def)

lemma forest_kept:
  assumes "us_live t = us_live s" "us_roots t = us_roots s"
    "\<And>v. standing t v = standing s v" "\<And>v. un_children (us_unit t v) = un_children (us_unit s v)"
  shows "forest_of t = forest_of s"
  by (simp add: forest_of_def kids_def assms)

lemma forest_torn:
  assumes "tree_but X s" "torn (under s u) s t"
  shows "forest_of t = cut_forest u (forest_of s)"
proof -
  have "us_live t = filter (\<lambda>v. v \<notin> under s u) (us_live s)" "us_roots t = filter (\<lambda>v. v \<notin> under s u) (us_roots s)"
    using assms(2) by (simp_all add: torn_def)
  moreover have "kids t = kids s \<inter> (- under s u) \<times> (- under s u)"
    by (auto simp: kids_def torn_standing [OF assms(2)] torn_children [OF assms(2,1)])
  ultimately show ?thesis by (auto simp: forest_of_def cut_forest_def Let_def under_def)
qed

lemma forest_torn0:
  assumes "tree_but X s" "torn {} s t"
  shows "forest_of t = forest_of s"
proof -
  have "kids t = kids s"
    by (auto simp: kids_def torn_standing [OF assms(2)] torn_children [OF assms(2,1)])
  then show ?thesis using assms(2) by (simp add: forest_of_def torn_def)
qed

lemma close_locked_forest:
  assumes "tree_but X s" "standing s u" "close_locked me u st er e s = (ds, t)"
  shows "forest_of t = cut_forest u (forest_of s)"
proof -
  obtain r where r: "same_tables s r" "torn (under s u) r t"
    using close_locked_effect [OF assms(1,2), of me st er e] assms(3) by auto
  have "under r u = under s u" using same_tables_kids [OF r(1)] by (simp add: under_def)
  then show ?thesis
    using forest_torn [of X r u t] r assms(1) same_tables_tree [OF r(1)] forest_same_tables [OF r(1)] by simp
qed

end
