(* ===== verification/Units_Laws.thy ===== *)
theory Units_Laws
  imports Units_Forest
begin

text \<open>
  Every operation of the unit registry keeps the invariant of \<open>Units_Tables\<close>: making
  room, opening, binding an alias, opening and closing a span, claiming, sweeping.
\<close>

section \<open>Shipping\<close>

lemma flush_frame:
  assumes "distinct ds" "\<forall>d \<in> set ds. \<not> dr_emitted (us_draft s d)"
  shows "flush_drafts ds s = s\<lparr>us_draft := (\<lambda>d. if d \<in> set ds then (us_draft s d)\<lparr>dr_emitted := True\<rparr> else us_draft s d),
     us_emitted := us_emitted s @ ds\<rparr>"
  using assms
proof (induction ds arbitrary: s)
  case (Cons d ds)
  let ?t = "(set_draft d (\<lambda>x. x\<lparr>dr_emitted := True\<rparr>) s)\<lparr>us_emitted := us_emitted s @ [d]\<rparr>"
  have "\<forall>x \<in> set ds. \<not> dr_emitted (us_draft ?t x)" using Cons.prems by (auto simp: set_draft_def)
  then have "flush_drafts ds ?t = ?t\<lparr>us_draft := (\<lambda>x. if x \<in> set ds then (us_draft ?t x)\<lparr>dr_emitted := True\<rparr> else us_draft ?t x),
     us_emitted := us_emitted ?t @ ds\<rparr>" using Cons by simp
  also have "\<dots> = s\<lparr>us_draft := (\<lambda>x. if x \<in> set (d # ds) then (us_draft s x)\<lparr>dr_emitted := True\<rparr> else us_draft s x),
     us_emitted := us_emitted s @ d # ds\<rparr>"
    using Cons.prems(1) by (auto simp: set_draft_def fun_eq_iff intro!: units.equality)
  finally show ?case using Cons.prems by simp
qed simp

lemma waiting_unemitted: "waiting_ok ds s \<Longrightarrow> drafts_ok s \<Longrightarrow> \<forall>d \<in> set ds. \<not> dr_emitted (us_draft s d)"
  by (auto simp: waiting_ok_def drafts_ok_def)

lemma flush_waiting:
  assumes "waiting_ok ds s" "drafts_ok s"
  shows "flush_drafts ds s = s\<lparr>us_draft := (\<lambda>d. if d \<in> set ds then (us_draft s d)\<lparr>dr_emitted := True\<rparr> else us_draft s d),
     us_emitted := us_emitted s @ ds\<rparr>"
  using assms waiting_unemitted flush_frame by (simp add: waiting_ok_def)

text \<open>The tables up to what drafts say and what was shipped.\<close>

definition same_units :: "units \<Rightarrow> units \<Rightarrow> bool" where
  "same_units s t \<longleftrightarrow>
     us_self t = us_self s \<and> us_max_units t = us_max_units s \<and> us_max_entries t = us_max_entries s \<and>
     us_max_links t = us_max_links s \<and> us_unit t = us_unit s \<and> us_next_unit t = us_next_unit s \<and>
     us_roots t = us_roots s \<and> us_live t = us_live s \<and> us_by_alias t = us_by_alias s \<and>
     us_link_memory t = us_link_memory s"

lemma same_units_standing:
  assumes "same_units s t" shows "standing t u = standing s u"
  using assms by (simp add: same_units_def standing_def own_def is_live_def)

lemma forest_same_units:
  assumes "same_units s t" shows "forest_of t = forest_of s"
  using assms same_units_standing [OF assms] by (intro forest_kept) (simp_all add: same_units_def)

lemma same_units_ok:
  assumes st: "same_units s t" and ok: "units_ok s" and dr: "drafts_ok t"
  shows "units_ok t"
proof -
  have o: "own t u = own s u" for u using st by (simp add: same_units_def own_def)
  have f: "us_max_units t = us_max_units s" "us_max_entries t = us_max_entries s"
    "us_max_links t = us_max_links s" "us_unit t = us_unit s" "us_next_unit t = us_next_unit s"
    "us_roots t = us_roots s" "us_live t = us_live s" "us_by_alias t = us_by_alias s"
    "us_link_memory t = us_link_memory s" using st by (simp_all add: same_units_def)
  show ?thesis
    using ok dr unfolding units_but_def tree_but_def bounds_ok_def alias_ok_def f o same_units_standing [OF st]
    by simp
qed

lemma flush_keeps:
  assumes ok: "units_ok s" and w: "waiting_ok ds s"
  shows "units_ok (flush_drafts ds s)"
proof -
  note fl = flush_waiting [OF w units_but_drafts [OF ok]]
  have same: "same_units s (flush_drafts ds s)" by (simp add: fl same_units_def)
  have dr: "drafts_ok s" using ok by (rule units_but_drafts)
  have "drafts_ok (flush_drafts ds s)"
    unfolding drafts_ok_def same_units_standing [OF same]
  proof (intro conjI)
    show "distinct (us_emitted (flush_drafts ds s))"
      using dr w by (auto simp: fl drafts_ok_def waiting_ok_def)
    show "\<forall>d < us_next_draft (flush_drafts ds s).
        dr_emitted (us_draft (flush_drafts ds s) d) = (d \<in> set (us_emitted (flush_drafts ds s)))"
      using dr by (auto simp: fl drafts_ok_def)
    show "\<forall>d \<in> set (us_emitted (flush_drafts ds s)). d < us_next_draft (flush_drafts ds s)"
      using dr w by (auto simp: fl drafts_ok_def waiting_ok_def)
    show "\<forall>u. standing s u \<longrightarrow> distinct (holdings (us_unit (flush_drafts ds s) u)) \<and>
        (\<forall>d \<in> set (holdings (us_unit (flush_drafts ds s) u)).
           d < us_next_draft (flush_drafts ds s) \<and> d \<notin> set (us_emitted (flush_drafts ds s)))"
      using spans_held_distinct [OF dr] held_fresh [OF dr] w by (auto simp: fl waiting_ok_def)
    show "\<forall>u v. standing s u \<longrightarrow> standing s v \<longrightarrow> u \<noteq> v \<longrightarrow>
        set (holdings (us_unit (flush_drafts ds s) u)) \<inter> set (holdings (us_unit (flush_drafts ds s) v)) = {}"
      using spans_held_apart [OF dr] by (simp add: fl)
  qed
  then show ?thesis using same_units_ok [OF same ok] by blast
qed

lemma close_unit_keeps:
  assumes "units_ok s" "own s u"
  shows "units_ok (close_unit me u st er e s)"
proof -
  obtain ds t where t: "close_locked me u st er e s = (ds, t)" by (cases "close_locked me u st er e s")
  have "units_ok t \<and> waiting_ok ds t"
    using close_locked_keeps [OF assms(1) _ assms(2) waiting_nil, of me st er e] t by simp
  then show ?thesis using t flush_keeps by (simp add: close_unit_def)
qed

section \<open>Making room\<close>

text \<open>\<open>going X s ds\<close>: the invariant up to \<open>X\<close>, with \<open>ds\<close> waiting for the sink.\<close>

definition going_but :: "unit_id set \<Rightarrow> units \<Rightarrow> draft_id list \<Rightarrow> bool" where
  "going_but X s ds \<longleftrightarrow> units_but X s \<and> waiting_ok ds s"

abbreviation going :: "units \<Rightarrow> draft_id list \<Rightarrow> bool" where
  "going \<equiv> going_but {}"

lemmas going_def = going_but_def

lemma going_nil [simp]: "going_but X s [] = units_but X s"
  by (simp add: going_def)

lemma flush_same_units: "going s ds \<Longrightarrow> same_units s (flush_drafts ds s)"
  using flush_waiting [of ds s] by (simp add: going_def units_but_def same_units_def)

lemma going_same:
  assumes "going_but X s ds" "same_tables s t" shows "going_but X t ds"
proof -
  have "waiting_ok ds t"
    using assms same_tables_standing [OF assms(2)] by (simp add: going_def waiting_ok_def) (simp add: same_tables_def)
  then show ?thesis using assms same_tables_ok by (simp add: going_def)
qed

lemma going_torn0:
  assumes "going_but X s ds" "torn {} s t" shows "going_but X t ds"
proof -
  have "waiting_ok ds t"
    using assms torn_standing [OF assms(2)] by (simp add: going_def waiting_ok_def) (simp add: torn_def holdings_def)
  then show ?thesis using assms torn_ok [of X s "{}" t] by (simp add: going_def)
qed

text \<open>Rewriting what the tables do not hang on, in one unit.\<close>

lemma torn_set_unit:
  assumes "\<And>x. un_live (f x) = un_live x" "\<And>x. un_registry (f x) = un_registry x"
    "\<And>x. un_parent (f x) = un_parent x" "\<And>x. un_draft (f x) = un_draft x"
    "\<And>x. un_claims (f x) = un_claims x" "\<And>x. un_kind (f x) = un_kind x" "\<And>x. un_owner (f x) = un_owner x"
    "\<And>x. un_open (f x) = un_open x" "\<And>x. un_alias_keys (f x) = un_alias_keys x"
    "\<And>x. un_children (f x) = un_children x"
  shows "torn {} s (set_unit u f s)"
  using assms by (simp add: torn_def set_unit_def)

lemma torn_mark_evicted: "torn {} s (mark_evicted u s)"
  unfolding mark_evicted_def by (rule torn_set_unit) simp_all

lemma going_marked: "going_but X s ds \<Longrightarrow> going_but X (note_marker m v (mark_evicted u s)) ds"
  by (meson going_same going_torn0 same_tables_note_marker torn_mark_evicted)

definition steady :: "units \<Rightarrow> units \<Rightarrow> bool" where
  "steady s t \<longleftrightarrow> us_self t = us_self s \<and> us_max_units t = us_max_units s \<and>
     us_max_entries t = us_max_entries s \<and> us_next_unit t = us_next_unit s \<and> us_next_draft t = us_next_draft s \<and>
     us_max_links t = us_max_links s \<and> us_emitted t = us_emitted s \<and>
     (\<forall>v. un_registry (us_unit t v) = un_registry (us_unit s v)) \<and>
     (\<forall>v. un_parent (us_unit t v) = un_parent (us_unit s v)) \<and>
     (\<forall>v. un_live (us_unit t v) \<longrightarrow> un_live (us_unit s v))"

definition same_limits :: "units \<Rightarrow> units \<Rightarrow> bool" where
  "same_limits s t \<longleftrightarrow> us_self t = us_self s \<and> us_max_units t = us_max_units s \<and>
     us_max_entries t = us_max_entries s \<and> us_max_links t = us_max_links s"

lemma limits_trans: "same_limits s r \<Longrightarrow> same_limits r t \<Longrightarrow> same_limits s t"
  by (simp add: same_limits_def)

lemma limits_steady: "steady s t \<Longrightarrow> same_limits s t"
  by (simp add: steady_def same_limits_def)

lemma limits_units: "same_units s t \<Longrightarrow> same_limits s t"
  by (simp add: same_units_def same_limits_def)

lemma steady_refl: "steady s s"
  by (simp add: steady_def)

lemma steady_trans: "steady s r \<Longrightarrow> steady r t \<Longrightarrow> steady s t"
  by (simp add: steady_def)

lemma steady_same: "same_tables s t \<Longrightarrow> steady s t"
  by (simp add: same_tables_def steady_def)

lemma steady_torn: "torn D s t \<Longrightarrow> steady s t"
  by (simp add: torn_def steady_def)

lemma steady_own: "steady s t \<Longrightarrow> own t v = own s v"
  by (simp add: steady_def own_def)

text \<open>What closing one unit gives the operations that close to make room.\<close>

lemma close_locked_room:
  assumes "going_but X s ds" "X \<subseteq> {u}" "own s u" "close_locked me u st er e s = (ds2, t)"
  shows "going t (ds @ ds2) \<and> steady s t \<and> \<not> is_live t u \<and>
    forest_of t = (if is_live s u then cut_forest u (forest_of s) else forest_of s) \<and>
    (\<forall>v < u. standing s v \<longrightarrow> standing t v \<and> length (un_children (us_unit t v)) \<le> length (un_children (us_unit s v))) \<and>
    set (us_roots t) \<subseteq> set (us_roots s) - {u} \<and> length (us_roots t) \<le> length (us_roots s) \<and>
    length (us_live t) \<le> length (us_live s) \<and>
    (u \<in> set (us_live s) \<longrightarrow> length (us_live t) < length (us_live s)) \<and>
    (u \<in> set (us_roots s) \<longrightarrow> length (us_roots t) < length (us_roots s))"
proof (cases "is_live s u")
  case False
  have t: "ds2 = []" "t = count ''close_after_close'' s"
    using assms(4) close_locked_dead [OF False] by simp_all
  have "\<not> standing s u" using False by (simp add: standing_def)
  then have "u \<notin> set (us_live s)" "u \<notin> set (us_roots s)"
    using assms(1) by (auto simp: going_def units_but_def tree_but_def)
  moreover have same: "same_tables s t" by (simp add: t)
  moreover have "going t ds"
    using close_locked_keeps [of X s u ds me st er e] assms by (simp add: going_def t)
  ultimately show ?thesis
    using steady_same [OF same] same_tables_standing [OF same] same_tables_unit [OF same] False
      forest_same_tables [OF same] t
    by (auto simp: count_def is_live_def)
next
  case True
  then have u: "standing s u" using assms(3) by (simp add: standing_def)
  have tree: "tree_but X s" using assms(1) by (simp add: going_def units_but_def)
  obtain r where r: "same_tables s r" "torn (under s u) r t"
    using close_locked_effect [OF tree u, of me st er e] assms(4) by auto
  have f: "us_live t = filter (\<lambda>v. v \<notin> under s u) (us_live s)" "us_roots t = filter (\<lambda>v. v \<notin> under s u) (us_roots s)"
    using r by (simp_all add: torn_def same_tables_def)
  have "going t (ds @ ds2)"
    using close_locked_keeps [of X s u ds me st er e] assms by (simp add: going_def)
  moreover have "steady s t" using steady_trans [OF steady_same steady_torn] r by blast
  moreover have "\<not> is_live t u" using r(2) by (simp add: torn_def is_live_def)
  moreover have "forest_of t = (if is_live s u then cut_forest u (forest_of s) else forest_of s)"
    using close_locked_forest [OF tree u assms(4)] True by simp
  moreover have "standing t v \<and> length (un_children (us_unit t v)) \<le> length (un_children (us_unit s v))"
    if "v < u" "standing s v" for v
  proof -
    have "v \<notin> under s u" using under_older [OF tree] that(1) by fastforce
    then have "standing t v" using that torn_standing [OF r(2)] same_tables_standing [OF r(1)] by simp
    moreover have "length (un_children (us_unit t v)) \<le> length (un_children (us_unit s v))"
      using r by (simp add: torn_def same_tables_def)
    ultimately show ?thesis by blast
  qed
  moreover have "length (filter (\<lambda>v. v \<notin> under s u) xs) < length xs" if "u \<in> set xs" for xs
    using length_filter_less [OF that, of "\<lambda>v. v \<notin> under s u"] by simp
  moreover have "set (filter (\<lambda>v. v \<notin> under s u) (us_roots s)) \<subseteq> set (us_roots s) - {u}" by auto
  ultimately show ?thesis unfolding f by (simp only: length_filter_le) blast
qed

lemma live_standing: "tree_ok s \<Longrightarrow> u \<in> set (us_live s) \<longleftrightarrow> standing s u"
  unfolding tree_but_def by blast

lemma root_standing: "tree_ok s \<Longrightarrow> u \<in> set (us_roots s) \<Longrightarrow> standing s u"
  unfolding tree_but_def by blast

lemma hangs: "tree_ok s \<Longrightarrow> standing s u \<Longrightarrow>
    u \<in> set (us_roots s) \<or> (\<exists>p. standing s p \<and> u \<in> set (un_children (us_unit s p)))"
  unfolding tree_but_def by blast

lemma forest_marked: "tree_but X s \<Longrightarrow> forest_of (note_marker m v (mark_evicted u s)) = forest_of s"
  using forest_same_tables [OF same_tables_note_marker] forest_torn0 [OF _ torn_mark_evicted] by simp

lemma evict_root_room:
  assumes "going s ds" "us_roots s \<noteq> []" "evict_root me e s = (ds2, t)"
  shows "going t (ds @ ds2) \<and> steady s t \<and> length (us_roots t) < length (us_roots s) \<and>
    length (us_live t) \<le> length (us_live s) \<and> grows s t"
proof -
  let ?u = "hd (us_roots s)" and ?r = "note_marker UNIT_EVICTED (hd (us_roots s)) (mark_evicted (hd (us_roots s)) s)"
  have t: "close_locked me ?u S_UNSET None e ?r = (ds2, t)" using assms(3) by (simp add: evict_root_def Let_def)
  have st: "steady s ?r" by (meson steady_same steady_torn steady_trans same_tables_note_marker torn_mark_evicted)
  have roots: "us_roots ?r = us_roots s" "us_live ?r = us_live s"
    using same_tables_note_marker [of "mark_evicted ?u s" UNIT_EVICTED ?u] torn_mark_evicted [of s ?u]
    by (simp_all add: same_tables_def torn_def)
  have "own s ?u"
    using root_standing [OF _ hd_in_set [OF assms(2)]] assms(1) by (simp add: going_def units_but_def standing_def)
  then have "own ?r ?u" using steady_own [OF st] by simp
  moreover have "forest_of ?r = forest_of s"
    using forest_marked [of "{}" s] assms(1) by (simp add: going_def units_but_def)
  moreover have "?u \<in> fo_nodes (forest_of s)"
    using root_standing [OF _ hd_in_set [OF assms(2)]] live_standing [of s ?u] assms(1)
    by (simp add: going_def units_but_def forest_of_def)
  ultimately show ?thesis
    using close_locked_room [OF going_marked [OF assms(1)] _ _ t] st steady_trans roots hd_in_set [OF assms(2)]
      forest_step.cutting [of ?u "forest_of s"] by (auto split: if_splits)
qed

text \<open>The loop that evicts ends with room: each turn takes a root, and a full table has one.\<close>

lemma evict_roots_to_room:
  assumes full: "\<And>r. units_ok r \<Longrightarrow> full r \<Longrightarrow> us_roots r \<noteq> []"
  shows "going s ds \<Longrightarrow> length (us_roots s) < n \<Longrightarrow> evict_roots_to n full me e s = (ds2, t) \<Longrightarrow>
    going t (ds @ ds2) \<and> steady s t \<and> \<not> full t \<and> length (us_live t) \<le> length (us_live s) \<and> grows s t"
proof (induction n arbitrary: s ds ds2 t)
  case (Suc n)
  show ?case
  proof (cases "full s")
    case True
    then have ne: "us_roots s \<noteq> []" using full Suc.prems(1) by (simp add: going_def)
    obtain d1 r where r: "evict_root me e s = (d1, r)" by (cases "evict_root me e s")
    obtain d2 q where q: "evict_roots_to n full me e r = (d2, q)" by (cases "evict_roots_to n full me e r")
    note one = evict_root_room [OF Suc.prems(1) ne r]
    have out: "ds2 = d1 @ d2" "t = q" using Suc.prems(3) True r q by simp_all
    have less: "length (us_roots r) < n" using one Suc.prems(2) by simp
    from Suc.IH [OF _ less q] one have
      "going q ((ds @ d1) @ d2) \<and> steady r q \<and> \<not> full q \<and> length (us_live q) \<le> length (us_live r) \<and> grows r q" by blast
    then show ?thesis using one out steady_trans [of s r q] grows_trans [of s r q] by (simp only: append_assoc) simp
  next
    case False
    then show ?thesis using Suc.prems steady_refl by auto
  qed
qed simp

text \<open>No root means no unit, so the ceiling on all units can be kept by taking roots.\<close>

lemma no_roots_no_units: "tree_ok s \<Longrightarrow> us_roots s = [] \<Longrightarrow> us_live s = []"
proof (rule ccontr)
  assume s: "tree_ok s" "us_roots s = []" "us_live s \<noteq> []"
  let ?m = "Min (set (us_live s))"
  have m: "?m \<in> set (us_live s)" using s(3) by simp
  then have "standing s ?m" using s(1) live_standing by blast
  then obtain p where p: "standing s p" "?m \<in> set (un_children (us_unit s p))"
    using hangs [OF s(1)] s(2) by auto
  then have "p < ?m" "p \<in> set (us_live s)" using s(1) kid_younger live_standing by blast+
  then show False by (meson List.finite_set Min_le leD)
qed

lemma roots_ok: "units_ok s \<Longrightarrow> over_roots s \<Longrightarrow> us_roots s \<noteq> []"
  by (auto simp: units_but_def over_roots_def)

lemma not_over_total:
  assumes "units_ok s" "\<not> over_total s" shows "length (us_live s) < us_max_units s * us_max_entries s"
proof (cases "us_roots s = []")
  case True
  then have "us_live s = []" using assms no_roots_no_units by (simp add: units_but_def)
  then show ?thesis using assms(1) by (simp add: units_but_def)
next
  case False then show ?thesis using assms(2) by (simp add: over_total_def)
qed

section \<open>Opening keeps the invariant\<close>

text \<open>\<open>ready s t ds p u\<close>: in \<open>t\<close> there is room for \<open>u\<close>, and \<open>t\<close> already lists it where it
  will hang; \<open>s\<close> is \<open>t\<close> before that.\<close>

definition hang :: "unit_id option \<Rightarrow> unit_id \<Rightarrow> units \<Rightarrow> units" where
  "hang parent u s =
     (case parent of
        Some p \<Rightarrow> set_unit p (\<lambda>x. x\<lparr>un_children := un_children x @ [u]\<rparr>) s
      | None \<Rightarrow> s\<lparr>us_roots := us_roots s @ [u]\<rparr>)"

definition room_at :: "unit_id option \<Rightarrow> units \<Rightarrow> bool" where
  "room_at parent s =
     (case parent of
        Some p \<Rightarrow> standing s p \<and> length (un_children (us_unit s p)) < us_max_entries s
      | None \<Rightarrow> length (us_roots s) < us_max_units s)"

lemma attach_root_hangs:
  assumes "going s ds" "attach_root me e parent u s = (ds2, t)"
  shows "\<exists>r. t = hang None u r \<and> going r (ds @ ds2) \<and> steady s r \<and> room_at None r \<and>
     length (us_live r) \<le> length (us_live s) \<and> grows s r"
proof -
  define s1 where "s1 = (case parent of None \<Rightarrow> s
     | Some p \<Rightarrow> count (if \<not> is_live s p then ''parent_closed'' else ''parent_foreign_registry'') s)"
  have same: "same_tables s s1" by (auto simp: s1_def split: option.splits)
  have g1: "going s1 ds" using going_same [OF assms(1) same] .
  obtain d r where r: "evict_roots_to (length (us_roots s1) + 1) over_roots me e s1 = (d, r)"
    by (cases "evict_roots_to (length (us_roots s1) + 1) over_roots me e s1")
  have out: "ds2 = d" "t = r\<lparr>us_roots := us_roots r @ [u]\<rparr>"
    using assms(2) r by (simp_all add: attach_root_def Let_def s1_def)
  have "going r (ds @ d) \<and> steady s1 r \<and> \<not> over_roots r \<and> length (us_live r) \<le> length (us_live s1) \<and> grows s1 r"
    by (rule evict_roots_to_room [OF roots_ok g1 _ r]) simp_all
  moreover have "us_live s1 = us_live s" "forest_of s1 = forest_of s"
    using same forest_same_tables [OF same] by (simp_all add: same_tables_def)
  ultimately show ?thesis
    using out steady_trans [OF steady_same [OF same], of r]
    by (intro exI [of _ r]) (simp add: hang_def room_at_def over_roots_def not_le)
qed

text \<open>A child taken off its parent's list, about to be closed, hangs nowhere for a moment.\<close>

lemma cut_child:
  assumes "units_ok s" "standing s p" "un_children (us_unit s p) = c # rest"
  shows "units_but {c} (set_unit p (\<lambda>x. x\<lparr>un_children := rest\<rparr>) s)"
proof -
  let ?t = "set_unit p (\<lambda>x. x\<lparr>un_children := rest\<rparr>) s"
  have tree: "tree_ok s" using assms(1) by (simp add: units_but_def)
  have st: "standing ?t v = standing s v" "own ?t v = own s v" for v
    by (simp_all add: standing_def own_def is_live_def set_unit_def)
  have ch: "un_children (us_unit ?t v) = (if v = p then rest else un_children (us_unit s v))" for v
    by (simp add: set_unit_def)
  have f: "us_live ?t = us_live s" "us_roots ?t = us_roots s" "us_next_unit ?t = us_next_unit s"
    "us_max_units ?t = us_max_units s" "us_max_entries ?t = us_max_entries s" "us_max_links ?t = us_max_links s"
    "us_link_memory ?t = us_link_memory s" "us_by_alias ?t = us_by_alias s"
    "un_parent (us_unit ?t v) = un_parent (us_unit s v)" "un_alias_keys (us_unit ?t v) = un_alias_keys (us_unit s v)"
    "un_claims (us_unit ?t v) = un_claims (us_unit s v)" "un_open (us_unit ?t v) = un_open (us_unit s v)"
    "un_live (us_unit ?t v) = un_live (us_unit s v)" for v
    by (simp_all add: set_unit_def)
  have "tree_but {c} ?t"
    unfolding tree_but_def st f
  proof (intro conjI)
    show "\<forall>q. standing s q \<longrightarrow> distinct (un_children (us_unit ?t q))"
      using tree assms(3) by (auto simp: tree_but_def ch)
    show "\<forall>q d. standing s q \<longrightarrow> d \<in> set (un_children (us_unit ?t q)) \<longrightarrow>
        standing s d \<and> un_parent (us_unit s d) = Some q"
      using kid_standing [OF tree] kid_parent [OF tree] assms(3) by (simp add: ch)
    show "\<forall>u. standing s u \<longrightarrow> u \<in> {c} \<or> u \<in> set (us_roots s) \<or>
        (\<exists>q. standing s q \<and> u \<in> set (un_children (us_unit ?t q)))"
      using hangs [OF tree] assms(3) by (simp add: ch) (metis set_ConsD)
  qed (use tree in \<open>simp_all add: tree_but_def\<close>)
  moreover have "bounds_ok ?t"
    using assms(1) unfolding units_but_def bounds_ok_def st f
    by (elim conjE, intro conjI) (simp_all add: ch, use assms(3) in force)
  moreover have "alias_ok ?t" using assms(1) by (simp add: units_but_def alias_ok_def st f)
  moreover have "drafts_ok ?t"
  proof (rule drafts_shrink [of s])
    show "drafts_ok s" using assms(1) by (simp add: units_but_def)
    show "standing s v \<and> set (holdings (us_unit ?t v)) \<subseteq> set (holdings (us_unit s v)) \<and>
        distinct (holdings (us_unit ?t v))" if "standing ?t v" for v
    proof -
      have "holdings (us_unit ?t v) = holdings (us_unit s v)" by (simp add: holdings_def set_unit_def)
      then show ?thesis using that spans_held_distinct [of s v] assms(1) by (simp add: st units_but_def)
    qed
  qed (simp_all add: set_unit_def)
  ultimately show ?thesis using assms(1) f unfolding units_but_def by simp
qed

lemma waiting_shrinks:
  assumes "waiting_ok ds s" "us_next_draft t = us_next_draft s" "us_emitted t = us_emitted s"
    "\<And>v. standing t v \<Longrightarrow> standing s v \<and> set (holdings (us_unit t v)) \<subseteq> set (holdings (us_unit s v))"
  shows "waiting_ok ds t"
  using assms unfolding waiting_ok_def by (metis subsetD)

lemma attach_child_hangs:
  assumes "going s ds" "standing s p" "attach_child me e p u s = (ds2, t)"
  shows "\<exists>r. t = hang (Some p) u r \<and> going r (ds @ ds2) \<and> steady s r \<and> room_at (Some p) r \<and>
     length (us_live r) \<le> length (us_live s) \<and> grows s r"
proof (cases "length (un_children (us_unit s p)) < us_max_entries s")
  case True
  then show ?thesis
    using assms by (intro exI [of _ s]) (auto simp: attach_child_def evict_oldest_def hang_def room_at_def steady_refl)
next
  case False
  have "us_max_entries s \<ge> 1" using assms(1) by (simp add: going_def units_but_def)
  then obtain c rest where ch: "un_children (us_unit s p) = c # rest"
    using False by (cases "un_children (us_unit s p)") auto
  define s0 where "s0 = set_unit p (\<lambda>x. x\<lparr>un_children := rest\<rparr>) (count ''child_table_full'' s)"
  define s1 where "s1 = note_marker UNIT_TABLE_FULL c (mark_evicted c s0)"
  have ok: "units_ok s" and w: "waiting_ok ds s" using assms(1) by (simp_all add: going_def)
  have same: "same_tables s (count ''child_table_full'' s)" by simp
  have ct: "units_ok (count ''child_table_full'' s)" "standing (count ''child_table_full'' s) v = standing s v"
    "us_unit (count ''child_table_full'' s) = us_unit s" for v
    using same_tables_ok [OF same ok] same_tables_standing [OF same] same_tables_unit [OF same] by simp_all
  have g0: "units_but {c} s0" unfolding s0_def by (rule cut_child) (simp_all add: ct assms(2) ch)
  moreover have "waiting_ok ds s0"
    by (rule waiting_shrinks [OF w])
      (auto simp: s0_def count_def set_unit_def standing_def own_def is_live_def holdings_def split: if_splits)
  ultimately have g1: "going_but {c} s1 ds" using going_marked by (simp add: s1_def going_def)
  have tr: "steady s0 s1" unfolding s1_def
    by (meson steady_same steady_torn steady_trans same_tables_note_marker torn_mark_evicted)
  have s01: "steady s s0" by (auto simp: steady_def s0_def set_unit_def count_def)
  have marked: "standing s1 v = standing s0 v" "length (un_children (us_unit s1 v)) \<le> length (un_children (us_unit s0 v))"
    "us_live s1 = us_live s0" for v
    using torn_mark_evicted [of s0 c] same_tables_note_marker [of "mark_evicted c s0" UNIT_TABLE_FULL c]
    unfolding s1_def [symmetric]
    by (simp_all add: torn_standing [of "{}" s0] same_tables_standing [of "mark_evicted c s0"])
      (simp_all add: torn_def same_tables_def)
  have p0: "standing s0 p" "length (un_children (us_unit s0 p)) \<le> length rest" "us_live s0 = us_live s"
    using assms(2) by (simp_all add: s0_def count_def set_unit_def standing_def own_def is_live_def)
  have c: "standing s c" "p < c"
    using kid_standing [of "{}" s p c] kid_younger [of "{}" s p c] ok assms(2) ch by (simp_all add: units_but_def)
  then have oc: "own s1 c" using steady_own [OF s01] steady_own [OF tr] by (simp add: standing_def)
  obtain d r where r: "close_locked me c S_UNSET None e s1 = (d, r)" by (cases "close_locked me c S_UNSET None e s1")
  note room = close_locked_room [OF g1 subset_refl oc r]
  have full: "us_max_entries s \<le> Suc (length rest)" using False ch by simp
  have out: "ds2 = d" "t = hang (Some p) u r"
    using assms(3) full r ch
    by (simp_all add: attach_child_def evict_oldest_def hang_def s0_def [symmetric] s1_def [symmetric])
  have "length (un_children (us_unit s p)) \<le> us_max_entries s"
    using ok assms(2) by (simp add: units_but_def bounds_ok_def standing_def)
  then have less: "length rest < us_max_entries s" using ch by simp
  have sr: "steady s r" using steady_trans [OF steady_trans [OF s01 tr]] room by blast
  have "standing r p" "length (un_children (us_unit r p)) \<le> length (un_children (us_unit s1 p))"
    using room c(2) p0(1) marked(1) by blast+
  then have "room_at (Some p) r"
    using less marked(2) [of p] p0(2) sr by (simp add: room_at_def steady_def)
  moreover have "length (us_live r) \<le> length (us_live s)" using room marked(3) p0(3) by simp
  moreover have "grows s r"
  proof -
    have "tree_but {c} s0" using g0 by (simp add: units_but_def)
    then have f1: "forest_of s1 = forest_of s0" unfolding s1_def by (rule forest_marked)
    have "kids s0 = kids s - {(p, c)}"
    proof -
      have st0: "standing s0 v = standing s v" for v
        by (simp add: s0_def count_def set_unit_def standing_def own_def is_live_def)
      have ch0: "un_children (us_unit s0 v) = (if v = p then rest else un_children (us_unit s v))" for v
        by (simp add: s0_def count_def set_unit_def)
      have "c \<notin> set rest" using ok assms(2) ch by (auto simp: units_but_def tree_but_def)
      then show ?thesis using ch by (auto simp: kids_def st0 ch0 split: if_splits)
    qed
    then have f0: "forest_of s0 = (forest_of s)\<lparr>fo_edges := fo_edges (forest_of s) - {(p, c)}\<rparr>"
      by (simp add: forest_of_def p0(3)) (simp add: s0_def set_unit_def count_def)
    have "is_live s1 c" using c(1) tr oc marked(1) [of c]
      by (simp add: s0_def count_def set_unit_def standing_def own_def is_live_def split: if_splits)
    then have "forest_of r = cut_forest c (forest_of s)"
      using room f1 f0 cut_forest_edge by simp
    moreover have "c \<in> fo_nodes (forest_of s)"
      using c(1) live_standing [of s c] ok by (simp add: units_but_def forest_of_def)
    ultimately show ?thesis using forest_step.cutting [of c "forest_of s"] by auto
  qed
  ultimately show ?thesis using out room sr by blast
qed

text \<open>Registering the new unit where room was made for it.\<close>

definition newborn :: "units \<Rightarrow> draft_id \<Rightarrow> unit_id option \<Rightarrow> work_unit \<Rightarrow> bool" where
  "newborn s d parent x \<longleftrightarrow> un_live x \<and> un_registry x = us_self s \<and> un_children x = [] \<and> un_alias_keys x = [] \<and>
     un_claims x = [] \<and> un_open x = [] \<and> un_draft x = d \<and>
     (case parent of Some p \<Rightarrow> un_parent x = Some p
      | None \<Rightarrow> (case un_parent x of None \<Rightarrow> True | Some q \<Rightarrow> q < us_next_unit s))"

lemma register_keeps:
  assumes g: "going r (d # ds)" and x: "newborn r d parent x" and room: "room_at parent r"
    and total: "length (us_live r) < us_max_units r * us_max_entries r" and u: "u = us_next_unit r"
  defines "t \<equiv> register u x (hang parent u r)"
  shows "going t ds \<and> standing t u \<and> forest_of t = graft_forest parent u (forest_of r)"
proof -
  have ok: "units_ok r" and w: "waiting_ok (d # ds) r" using g by (simp_all add: going_def)
  have tree: "tree_ok r" and dr: "drafts_ok r" using ok by (simp_all add: units_but_def)
  have nu: "\<not> standing r u" by (simp add: u standing_def own_def)
  have pu: "p \<noteq> u" if "parent = Some p" for p using room nu that by (auto simp: room_at_def)
  have f: "us_next_unit t = Suc u" "us_self t = us_self r" "us_live t = us_live r @ [u]"
    "us_roots t = (if parent = None then us_roots r @ [u] else us_roots r)"
    "us_max_units t = us_max_units r" "us_max_entries t = us_max_entries r" "us_max_links t = us_max_links r"
    "us_link_memory t = us_link_memory r" "us_by_alias t = us_by_alias r" "us_draft t = us_draft r"
    "us_emitted t = us_emitted r" "us_next_draft t = us_next_draft r"
    by (auto simp: t_def register_def hang_def set_unit_def split: option.splits)
  have ut: "us_unit t u = x" by (simp add: t_def register_def)
  have uo: "un_live (us_unit t v) = un_live (us_unit r v)" "un_registry (us_unit t v) = un_registry (us_unit r v)"
    "un_parent (us_unit t v) = un_parent (us_unit r v)" "un_alias_keys (us_unit t v) = un_alias_keys (us_unit r v)"
    "un_claims (us_unit t v) = un_claims (us_unit r v)" "un_open (us_unit t v) = un_open (us_unit r v)"
    "un_draft (us_unit t v) = un_draft (us_unit r v)"
    "un_children (us_unit t v) = (if parent = Some v then un_children (us_unit r v) @ [u] else un_children (us_unit r v))"
    if "v \<noteq> u" for v
    using that by (auto simp: t_def register_def hang_def set_unit_def split: option.splits)
  have st: "standing t v = (standing r v \<or> v = u)" for v
    using x by (cases "v = u") (auto simp: standing_def own_def is_live_def f ut uo newborn_def u [symmetric])
  have ow: "own t v = (own r v \<or> v = u)" for v
    using x by (cases "v = u") (auto simp: own_def f ut uo newborn_def u [symmetric])
  have kid_u: "u \<notin> set (un_children (us_unit r v))" if "standing r v" for v
    using kid_standing [OF tree that] nu by blast
  have tb: "distinct (us_live r)" "distinct (us_roots r)" "set (us_roots r) \<subseteq> set (us_live r)"
    "\<And>p. standing r p \<Longrightarrow> distinct (un_children (us_unit r p))"
    using tree by (simp_all add: tree_but_def)
  have "tree_ok t"
    unfolding tree_but_def f
  proof (intro conjI)
    show "distinct (us_live r @ [u])" using tb(1) nu live_standing [OF tree] by simp
    show "distinct (if parent = None then us_roots r @ [u] else us_roots r)"
      using tb(2) nu root_standing [OF tree] by auto
    show "\<forall>v. (v \<in> set (us_live r @ [u])) = standing t v" using live_standing [OF tree] by (auto simp: st)
    show "set (if parent = None then us_roots r @ [u] else us_roots r) \<subseteq> set (us_live r @ [u])"
      using tb(3) by auto
    show "\<forall>v p. v < Suc u \<longrightarrow> un_parent (us_unit t v) = Some p \<longrightarrow> p < v"
    proof (intro allI impI)
      fix v p assume v: "v < Suc u" "un_parent (us_unit t v) = Some p"
      show "p < v"
      proof (cases "v = u")
        case True
        then show ?thesis using v(2) x room standing_next [of r]
          by (auto simp: ut newborn_def u [symmetric] room_at_def split: option.splits)
      next
        case False
        then show ?thesis using v parent_older [OF tree] by (simp add: uo u [symmetric])
      qed
    qed
    show "\<forall>p. standing t p \<longrightarrow> distinct (un_children (us_unit t p))"
    proof (intro allI impI)
      fix p assume p: "standing t p"
      show "distinct (un_children (us_unit t p))"
      proof (cases "p = u")
        case True then show ?thesis using x by (simp add: ut newborn_def)
      next
        case False then show ?thesis using p tb(4) kid_u by (simp add: st uo)
      qed
    qed
    show "\<forall>p c. standing t p \<longrightarrow> c \<in> set (un_children (us_unit t p)) \<longrightarrow>
        standing t c \<and> un_parent (us_unit t c) = Some p"
    proof (intro allI impI)
      fix p c assume pc: "standing t p" "c \<in> set (un_children (us_unit t p))"
      then have "p \<noteq> u" using x by (auto simp: ut newborn_def)
      then have p: "standing r p" using pc(1) st by blast
      show "standing t c \<and> un_parent (us_unit t c) = Some p"
      proof (cases "c = u")
        case True
        then have "parent = Some p" using pc(2) uo(8) [OF \<open>p \<noteq> u\<close>] kid_u [OF p] by (auto split: if_splits)
        then show ?thesis using True x by (simp add: st ut newborn_def)
      next
        case False
        then have "c \<in> set (un_children (us_unit r p))" using pc(2) uo(8) [OF \<open>p \<noteq> u\<close>] by (auto split: if_splits)
        then show ?thesis using kid_standing [OF tree p] kid_parent [OF tree p] False by (simp add: st uo)
      qed
    qed
    show "\<forall>v. standing t v \<longrightarrow> v \<in> {} \<or> v \<in> set (if parent = None then us_roots r @ [u] else us_roots r) \<or>
        (\<exists>p. standing t p \<and> v \<in> set (un_children (us_unit t p)))"
    proof (intro allI impI)
      fix v assume v: "standing t v"
      have lift: "standing t p \<and> v \<in> set (un_children (us_unit t p))"
        if "standing r p" "v \<in> set (un_children (us_unit r p))" for p
      proof -
        have "p \<noteq> u" using that nu by blast
        then show ?thesis using that by (simp add: st uo)
      qed
      show "v \<in> {} \<or> v \<in> set (if parent = None then us_roots r @ [u] else us_roots r) \<or>
        (\<exists>p. standing t p \<and> v \<in> set (un_children (us_unit t p)))"
      proof (cases "v = u")
        case True
        show ?thesis
        proof (cases parent)
          case None then show ?thesis using True by simp
        next
          case (Some p)
          then have "standing t p \<and> u \<in> set (un_children (us_unit t p))"
            using room pu by (simp add: room_at_def st uo)
          then show ?thesis using True by blast
        qed
      next
        case False
        then have "standing r v" using v st by blast
        then consider "v \<in> set (us_roots r)" | p where "standing r p" "v \<in> set (un_children (us_unit r p))"
          using hangs [OF tree] by blast
        then show ?thesis
        proof cases
          case 1 then show ?thesis by simp
        next
          case 2 then show ?thesis using lift by blast
        qed
      qed
    qed
  qed
  moreover have "bounds_ok t"
  proof -
    have b: "bounds_ok r" using ok by (simp add: units_but_def)
    have each: "length (un_children (us_unit t v)) \<le> us_max_entries r \<and>
        length (un_alias_keys (us_unit t v)) \<le> us_max_entries r \<and>
        length (un_claims (us_unit t v)) \<le> us_max_entries r \<and>
        length (un_open (us_unit t v)) \<le> (if un_live (us_unit t v) then us_max_entries r else 0)" if v: "own t v" for v
    proof (cases "v = u")
      case True then show ?thesis using x by (simp add: ut newborn_def)
    next
      case False
      then have "own r v" using v ow by blast
      then have "length (un_children (us_unit r v)) \<le> us_max_entries r"
        "length (un_alias_keys (us_unit r v)) \<le> us_max_entries r"
        "length (un_claims (us_unit r v)) \<le> us_max_entries r"
        "length (un_open (us_unit r v)) \<le> (if un_live (us_unit r v) then us_max_entries r else 0)" using b by (simp_all add: bounds_ok_def)
      then show ?thesis using False room by (auto simp: uo room_at_def)
    qed
    have "length (us_roots t) \<le> us_max_units r"
      using b room by (cases parent) (simp_all add: f bounds_ok_def room_at_def)
    then show ?thesis using each b total unfolding bounds_ok_def f by simp
  qed
  moreover have "alias_ok t"
  proof -
    have ar: "alias_ok r" using ok by (simp add: units_but_def)
    have "standing t v \<and> k \<in> set (un_alias_keys (us_unit t v))" if "map_of (us_by_alias r) k = Some v" for k v
    proof -
      have v: "standing r v" "k \<in> set (un_alias_keys (us_unit r v))" using ar that by (simp_all add: alias_ok_def)
      then have "v \<noteq> u" using nu by blast
      then show ?thesis using v by (simp add: st uo)
    qed
    then show ?thesis using ar unfolding alias_ok_def f by blast
  qed
  moreover have h: "holdings (us_unit t v) = (if v = u then [d] else holdings (us_unit r v))" for v
    using x by (cases "v = u") (simp_all add: holdings_def ut uo newborn_def)
  have dw: "d < us_next_draft r" "d \<notin> set (us_emitted r)" "d \<notin> set ds"
    "\<And>v. standing r v \<Longrightarrow> d \<notin> set (holdings (us_unit r v))"
    using w by (simp_all add: waiting_ok_def)
  have "drafts_ok t"
    unfolding drafts_ok_def f
  proof (intro conjI)
    show "\<forall>v. standing t v \<longrightarrow> distinct (holdings (us_unit t v)) \<and>
        (\<forall>e \<in> set (holdings (us_unit t v)). e < us_next_draft r \<and> e \<notin> set (us_emitted r))"
      using dw(1,2) spans_held_distinct [OF dr] held_fresh [OF dr] by (simp add: h st)
    show "\<forall>v w. standing t v \<longrightarrow> standing t w \<longrightarrow> v \<noteq> w \<longrightarrow>
        set (holdings (us_unit t v)) \<inter> set (holdings (us_unit t w)) = {}"
      using dw(4) spans_held_apart [OF dr] by (simp add: h st)
  qed (use dr in \<open>simp_all add: drafts_ok_def\<close>)
  moreover have "waiting_ok ds t"
    using w dw(3) by (auto simp: waiting_ok_def f h st)
  moreover have "forest_of t = graft_forest parent u (forest_of r)"
  proof -
    have "kids t = (case parent of None \<Rightarrow> kids r | Some p \<Rightarrow> insert (p, u) (kids r))"
    proof -
      have "(v, c) \<in> kids t \<longleftrightarrow> (v, c) \<in> kids r \<or> (parent = Some v \<and> c = u)" for v c
      proof (cases "v = u")
        case True
        then show ?thesis using nu pu x by (auto simp: kids_def ut newborn_def)
      next
        case False
        then show ?thesis using room by (auto simp: kids_def st uo room_at_def)
      qed
      then show ?thesis by (cases parent) auto
    qed
    then show ?thesis by (cases parent) (simp_all add: forest_of_def graft_forest_def f)
  qed
  ultimately show ?thesis using ok f st unfolding units_but_def going_def by simp
qed

section \<open>Aliases keep the invariant\<close>

definition same_forest :: "units \<Rightarrow> units \<Rightarrow> bool" where
  "same_forest s t \<longleftrightarrow>
     us_self t = us_self s \<and> us_max_units t = us_max_units s \<and> us_max_entries t = us_max_entries s \<and>
     us_max_links t = us_max_links s \<and> us_next_unit t = us_next_unit s \<and> us_next_draft t = us_next_draft s \<and>
     us_roots t = us_roots s \<and> us_live t = us_live s \<and> us_emitted t = us_emitted s \<and>
     (\<forall>d. dr_emitted (us_draft t d) = dr_emitted (us_draft s d)) \<and>
     (\<forall>v. un_live (us_unit t v) = un_live (us_unit s v) \<and> un_registry (us_unit t v) = un_registry (us_unit s v) \<and>
        un_parent (us_unit t v) = un_parent (us_unit s v) \<and> un_children (us_unit t v) = un_children (us_unit s v) \<and>
        un_draft (us_unit t v) = un_draft (us_unit s v) \<and> un_open (us_unit t v) = un_open (us_unit s v) \<and>
        un_claims (us_unit t v) = un_claims (us_unit s v) \<and> un_kind (us_unit t v) = un_kind (us_unit s v) \<and>
        un_owner (us_unit t v) = un_owner (us_unit s v))"

lemma same_forest_standing: "same_forest s t \<Longrightarrow> standing t v = standing s v"
  by (simp add: same_forest_def standing_def own_def is_live_def)

lemma forest_same_forest: "same_forest s t \<Longrightarrow> forest_of t = forest_of s"
  by (rule forest_kept) (simp_all add: same_forest_standing, simp_all add: same_forest_def)

lemma same_forest_trans: "same_forest s r \<Longrightarrow> same_forest r t \<Longrightarrow> same_forest s t"
  by (simp add: same_forest_def)

lemma same_forest_going:
  assumes g: "going s ds" and st: "same_forest s t" and a: "alias_ok t"
    and l: "length (us_link_memory t) \<le> us_max_links t"
    and k: "\<And>v. own t v \<Longrightarrow> length (un_alias_keys (us_unit t v)) \<le> us_max_entries t"
  shows "going t ds"
proof -
  have ok: "units_ok s" and w: "waiting_ok ds s" using g by (simp_all add: going_def)
  have f: "us_max_units t = us_max_units s" "us_max_entries t = us_max_entries s"
    "us_max_links t = us_max_links s" "us_next_unit t = us_next_unit s" "us_next_draft t = us_next_draft s"
    "us_roots t = us_roots s" "us_live t = us_live s" "us_emitted t = us_emitted s" "\<And>d. dr_emitted (us_draft t d) = dr_emitted (us_draft s d)"
    "\<And>v. own t v = own s v"
    "\<And>v. un_parent (us_unit t v) = un_parent (us_unit s v)" "\<And>v. un_children (us_unit t v) = un_children (us_unit s v)"
    "\<And>v. un_open (us_unit t v) = un_open (us_unit s v)" "\<And>v. un_claims (us_unit t v) = un_claims (us_unit s v)"
    "\<And>v. un_live (us_unit t v) = un_live (us_unit s v)"
    using st by (simp_all add: same_forest_def own_def)
  have h: "holdings (us_unit t v) = holdings (us_unit s v)" for v
    using st by (simp add: same_forest_def holdings_def)
  have "tree_ok t" using ok unfolding units_but_def tree_but_def f same_forest_standing [OF st] by simp
  moreover have "bounds_ok t"
    using ok l k unfolding units_but_def bounds_ok_def f by simp
  moreover have "drafts_ok t"
    using ok unfolding units_but_def drafts_ok_def f same_forest_standing [OF st] h by simp
  moreover have "waiting_ok ds t"
    using w unfolding waiting_ok_def f same_forest_standing [OF st] h by simp
  ultimately show ?thesis using ok a f unfolding going_def units_but_def by simp
qed

lemma forget_ring_keeps: "same_tables s (snd (forget_ring b u ring s))"
proof (induction b u ring s rule: forget_ring.induct)
  case (2 b u k ring s)
  have "same_tables s (if map_of (us_forgot_key s) k = Some u
      then s\<lparr>us_forgot_key := AList.delete k (us_forgot_key s)\<rparr> else s)" (is "same_tables s ?r")
    by (simp add: same_tables_def)
  then have r: "same_tables s (count ''alias_forgotten_table_full'' ?r)" by simp
  show ?case
  proof (cases "b \<le> length (k # ring)")
    case True
    from same_tables_trans [OF r 2 [OF True]] show ?thesis using True by (simp only: forget_ring.simps if_True)
  next
    case False
    then show ?thesis by simp
  qed
qed simp

lemma same_tables_forget: "same_tables s (forget k u s)"
proof -
  obtain ring r where r: "forget_ring (us_max_entries s) u (ring_of s u) s = (ring, r)"
    by (cases "forget_ring (us_max_entries s) u (ring_of s u) s")
  then have "same_tables s r" using forget_ring_keeps [of s "us_max_entries s" u "ring_of s u"] by simp
  then show ?thesis by (simp add: forget_def r) (simp add: same_tables_def)
qed

lemma same_tables_rebound: "same_tables s (rebound k u c s)"
  by (simp add: rebound_def Let_def same_tables_def split: option.splits)

lemma same_tables_forest: "same_tables s t \<Longrightarrow> same_forest s t"
  by (simp add: same_tables_def same_forest_def)

text \<open>The key table after one binding: the key, what the unit's own bound dropped, the rest.\<close>

lemma bind_alias_going:
  assumes g: "going s ds" and u: "standing s u"
  shows "going (bind_alias_locked key u c s) ds \<and> same_forest s (bind_alias_locked key u c s) \<and>
    map_of (us_by_alias (bind_alias_locked key u c s)) key = Some u"
proof -
  define s1 where "s1 = (case map_of (us_by_alias s) key of
     None \<Rightarrow> s | Some v \<Rightarrow> if v \<noteq> u then count ''alias_rebound'' s else s)"
  define s2 where "s2 = rebound key u c s1"
  define s21 where "s21 = snd (evict_alias u s2)"
  define s22 where "s22 = (case fst (evict_alias u s2) of None \<Rightarrow> s21
     | Some old \<Rightarrow> if map_of (us_by_alias s21) old = Some u
         then forget old u (s21\<lparr>us_by_alias := AList.delete old (us_by_alias s21)\<rparr>) else s21)"
  define s3 where "s3 = (if key \<in> set (un_alias_keys (us_unit s2 u)) then s2
     else set_unit u (\<lambda>x. x\<lparr>un_alias_keys := un_alias_keys x @ [key]\<rparr>) s22)"
  let ?t = "s3\<lparr>us_by_alias := AList.update key u (us_by_alias s3), us_link_memory := AList.delete key (us_link_memory s3)\<rparr>"
  have t: "bind_alias_locked key u c s = ?t"
    by (simp only: bind_alias_locked_def Let_def s1_def s2_def s3_def s22_def s21_def case_prod_beta)
  have ok: "units_ok s" using g by (simp add: going_def)
  have "same_tables s s1" by (auto simp: s1_def split: option.splits)
  then have same2: "same_tables s s2" using same_tables_rebound same_tables_trans s2_def by metis
  have ok2: "units_ok s2" using same_tables_ok [OF same2 ok] .
  then have al2: "alias_ok s2" and bd2: "bounds_ok s2" and e2: "1 \<le> us_max_entries s2"
    by (simp_all add: units_but_def)
  have u2: "standing s2 u" using u same_tables_standing [OF same2] by simp
  let ?ks = "un_alias_keys (us_unit s2 u)"
  have klen: "length ?ks \<le> us_max_entries s2" using bd2 u2 by (simp add: bounds_ok_def standing_def)
  have finish: ?thesis
    if f: "same_forest s2 s3" and keys: "distinct (map fst (us_by_alias s3))"
      and own_keys: "\<And>v. own s3 v \<Longrightarrow> length (un_alias_keys (us_unit s3 v)) \<le> us_max_entries s3"
      and named: "\<And>k v. k \<noteq> key \<Longrightarrow> map_of (us_by_alias s3) k = Some v \<Longrightarrow>
        standing s2 v \<and> k \<in> set (un_alias_keys (us_unit s3 v))"
      and mine: "key \<in> set (un_alias_keys (us_unit s3 u))"
      and lm: "us_link_memory s3 = us_link_memory s2"
  proof -
    have ft: "same_forest s2 ?t" using f by (simp add: same_forest_def)
    have "standing ?t v \<and> k \<in> set (un_alias_keys (us_unit ?t v))" if "map_of (us_by_alias ?t) k = Some v" for k v
      using that named [of k v] mine u2 same_forest_standing [OF ft] by (auto simp: update_conv' split: if_splits)
    then have "alias_ok ?t" using keys by (simp add: alias_ok_def distinct_update)
    moreover have "length (us_link_memory ?t) \<le> us_max_links ?t"
    proof -
      have "length (AList.delete key (us_link_memory s2)) \<le> length (us_link_memory s2)" by (rule length_delete_le)
      also have "\<dots> \<le> us_max_links s2" using bd2 by (simp add: bounds_ok_def)
      finally show ?thesis using f lm by (simp add: same_forest_def)
    qed
    moreover have "length (un_alias_keys (us_unit ?t v)) \<le> us_max_entries ?t" if "own ?t v" for v
      using own_keys [of v] that by (simp add: own_def)
    ultimately have "going ?t ds" using same_forest_going [OF going_same [OF g same2] ft] by blast
    moreover have "same_forest s ?t" using ft same_tables_forest [OF same2] same_forest_trans by blast
    ultimately show ?thesis by (simp add: t update_conv')
  qed
  show ?thesis
  proof (cases "key \<in> set ?ks")
    case True
    then have "s3 = s2" by (simp add: s3_def)
    then show ?thesis
      by (intro finish) (use True al2 bd2 in \<open>simp_all add: alias_ok_def bounds_ok_def same_forest_def\<close>)
  next
    case False
    have s3: "s3 = set_unit u (\<lambda>x. x\<lparr>un_alias_keys := un_alias_keys x @ [key]\<rparr>) s22" using False by (simp add: s3_def)
    show ?thesis
    proof (cases "length ?ks < us_max_entries s2")
      case True
      then have "s22 = s2" by (simp add: s22_def s21_def evict_alias_def evict_oldest_def)
      then show ?thesis using True s3
        by (intro finish) (use al2 bd2 in \<open>auto simp: alias_ok_def bounds_ok_def same_forest_def set_unit_def own_def\<close>)
    next
      case full: False
      then obtain old rest where ks: "?ks = old # rest" using e2 klen by (cases ?ks) auto
      define r where "r = set_unit u (\<lambda>x. x\<lparr>un_alias_keys := rest, un_remembered := AList.delete old (un_remembered x)\<rparr>)
          (count ''alias_table_full'' s2)"
      have ev: "evict_alias u s2 = (Some old, r)" using full ks by (simp add: evict_alias_def evict_oldest_def r_def)
      have rf: "same_forest s2 r" "us_by_alias r = us_by_alias s2" "us_link_memory r = us_link_memory s2"
        "\<And>v. un_alias_keys (us_unit r v) = (if v = u then rest else un_alias_keys (us_unit s2 v))"
        by (simp_all add: r_def same_forest_def set_unit_def count_def)
      have q: "same_forest r s22 \<and> us_link_memory s22 = us_link_memory r \<and> us_unit s22 = us_unit r \<and>
          us_by_alias s22 = (if map_of (us_by_alias s2) old = Some u then AList.delete old (us_by_alias s2) else us_by_alias s2)"
      proof (cases "map_of (us_by_alias s2) old = Some u")
        case True
        let ?d = "r\<lparr>us_by_alias := AList.delete old (us_by_alias r)\<rparr>"
        have "s22 = forget old u ?d" using True by (simp add: s22_def s21_def ev rf)
        moreover have "same_tables ?d (forget old u ?d)" by (rule same_tables_forget)
        moreover have "same_forest r ?d" by (simp add: same_forest_def)
        ultimately show ?thesis
          using True same_tables_forest [of ?d "forget old u ?d"] same_forest_trans [of r ?d "forget old u ?d"] rf(2)
          by (simp add: same_tables_def)
      next
        case False then show ?thesis by (simp add: s22_def s21_def ev rf) (simp add: same_forest_def)
      qed
      have f3: "same_forest s2 s3"
      proof -
        have "same_forest s22 s3" unfolding s3 by (simp add: same_forest_def set_unit_def)
        moreover have "same_forest s2 s22" using same_forest_trans [OF rf(1)] q by blast
        ultimately show ?thesis using same_forest_trans by blast
      qed
      have ak: "un_alias_keys (us_unit s3 v) = (if v = u then rest @ [key] else un_alias_keys (us_unit s2 v))" for v
        using q rf by (simp add: s3 set_unit_def)
      have ba: "us_by_alias s3 = us_by_alias s22" by (simp add: s3 set_unit_def)
      have dk: "distinct (map fst (us_by_alias s2))" using al2 by (simp add: alias_ok_def)
      show ?thesis
      proof (rule finish [OF f3])
        show "distinct (map fst (us_by_alias s3))" using dk q by (simp add: ba AList.distinct_delete)
        show "us_link_memory s3 = us_link_memory s2" using q rf by (simp add: s3 set_unit_def)
        show "key \<in> set (un_alias_keys (us_unit s3 u))" by (simp add: ak)
        show "length (un_alias_keys (us_unit s3 v)) \<le> us_max_entries s3" if "own s3 v" for v
        proof -
          have "own s2 v" "us_max_entries s3 = us_max_entries s2"
            using that f3 by (simp_all add: same_forest_def own_def)
          then have "length (un_alias_keys (us_unit s2 v)) \<le> us_max_entries s3" using bd2 by (simp add: bounds_ok_def)
          then show ?thesis using klen ks \<open>us_max_entries s3 = us_max_entries s2\<close> by (simp add: ak)
        qed
        show "standing s2 v \<and> k \<in> set (un_alias_keys (us_unit s3 v))"
          if k: "k \<noteq> key" "map_of (us_by_alias s3) k = Some v" for k v
        proof -
          have m: "map_of (us_by_alias s2) k = Some v" "k = old \<longrightarrow> v \<noteq> u"
            using k(2) q by (auto simp: ba delete_conv' split: if_splits)
          then have "standing s2 v" "k \<in> set (un_alias_keys (us_unit s2 v))" using al2 by (simp_all add: alias_ok_def)
          then show ?thesis using m(2) ks by (auto simp: ak)
        qed
      qed
    qed
  qed
qed

section \<open>Opening, whole\<close>

lemma same_tables_poisoned: "poisoned me here amb s = (p, h, t) \<Longrightarrow> same_tables s t"
  by (auto simp: poisoned_def closed_ambient_context_def retire_dead_foreign_def
      split: option.splits prod.splits if_splits)

lemma same_tables_note_refused: "same_tables s (note_refused_ambient here s)"
  by (simp add: note_refused_ambient_def split: option.splits)

lemma opening_edge_frame:
  assumes "opening_edge me here fresh op s = (pa, conv, ts, here', t)"
  shows "same_tables s t"
proof (cases "op_parent op")
  case (Some p)
  then show ?thesis using assms by (simp add: opening_edge_def Let_def)
next
  case None
  obtain q h r where q: "poisoned me here (op_ambient op) s = (q, h, r)" by (cases "poisoned me here (op_ambient op) s")
  have "same_tables s r" using same_tables_poisoned [OF q] .
  moreover have "t = r \<or> t = note_refused_ambient h r"
    using assms None q by (cases q) (auto simp: opening_edge_def Let_def)
  ultimately show ?thesis using same_tables_trans [OF _ same_tables_note_refused] by blast
qed

lemma alloc_draft_going:
  assumes "units_ok s" "alloc_draft d0 s = (d, t)" "\<not> dr_emitted d0"
  shows "going t [d] \<and> d = us_next_draft s \<and> us_draft t d = d0 \<and> same_units s t"
proof -
  have t: "d = us_next_draft s" "t = s\<lparr>us_draft := (us_draft s)(us_next_draft s := d0), us_next_draft := us_next_draft s + 1\<rparr>"
    using assms(2) by (auto simp: alloc_draft_def)
  have same: "same_units s t" by (simp add: t same_units_def)
  have dr: "drafts_ok s" using assms(1) by (simp add: units_but_def)
  have d: "d \<notin> set (us_emitted s)" using dr t(1) by (auto simp: drafts_ok_def)
  have "drafts_ok t"
    unfolding drafts_ok_def same_units_standing [OF same]
  proof (intro conjI)
    show "\<forall>x < us_next_draft t. dr_emitted (us_draft t x) = (x \<in> set (us_emitted t))"
      using dr d assms(3) by (auto simp: t drafts_ok_def less_Suc_eq)
    show "\<forall>u. standing s u \<longrightarrow> distinct (holdings (us_unit t u)) \<and>
        (\<forall>x \<in> set (holdings (us_unit t u)). x < us_next_draft t \<and> x \<notin> set (us_emitted t))"
      using spans_held_distinct [OF dr] held_fresh [OF dr] by (simp add: t less_Suc_eq)
    show "\<forall>u v. standing s u \<longrightarrow> standing s v \<longrightarrow> u \<noteq> v \<longrightarrow>
        set (holdings (us_unit t u)) \<inter> set (holdings (us_unit t v)) = {}"
      using spans_held_apart [OF dr] by (simp add: t)
    show "distinct (us_emitted t)" "\<forall>x \<in> set (us_emitted t). x < us_next_draft t"
      using dr by (auto simp: t drafts_ok_def less_Suc_eq)
  qed
  then have "units_ok t" using same_units_ok [OF same assms(1)] by blast
  moreover have "waiting_ok [d] t"
  proof -
    have "d \<notin> set (holdings (us_unit s v))" if "standing s v" for v
      using held_fresh [OF dr that] t(1) by blast
    then show ?thesis using d unfolding waiting_ok_def same_units_standing [OF same] by (simp add: t)
  qed
  ultimately show ?thesis using same t by (simp add: going_def)
qed

lemma bind_aliases_going:
  "going s ds \<Longrightarrow> standing s u \<Longrightarrow>
   going (fold (\<lambda>k s. bind_alias_locked k u False s) ks s) ds \<and>
   same_forest s (fold (\<lambda>k s. bind_alias_locked k u False s) ks s)"
proof (induction ks arbitrary: s)
  case (Cons k ks)
  let ?r = "bind_alias_locked k u False s"
  have one: "going ?r ds" "same_forest s ?r" using bind_alias_going [OF Cons.prems] by blast+
  have "standing ?r u" using Cons.prems(2) same_forest_standing [OF one(2)] by simp
  from Cons.IH [OF one(1) this] show ?case using same_forest_trans [OF one(2)] by simp
qed (simp add: same_forest_def)

definition parent_known :: "open_args \<Rightarrow> units \<Rightarrow> bool" where
  "parent_known op s \<longleftrightarrow> (case op_parent op of None \<Rightarrow> True | Some p \<Rightarrow> p < us_next_unit s)"

lemma attach_hangs:
  assumes g: "going s ds" and at: "attach me e parent u s = (ds2, t)"
    and p: "\<And>q. parent = Some q \<Longrightarrow> q < us_next_unit s"
  shows "\<exists>r pos. t = hang pos u r \<and> going r (ds @ ds2) \<and> steady s r \<and> room_at pos r \<and>
     length (us_live r) \<le> length (us_live s) \<and> grows s r \<and> (pos = parent \<or> pos = None)"
proof (cases parent)
  case None
  then have "attach_root me e None u s = (ds2, t)" using at by (simp add: attach_def)
  from attach_root_hangs [OF g this] show ?thesis by blast
next
  case (Some q)
  show ?thesis
  proof (cases "is_live s q \<and> un_registry (us_unit s q) = us_self s")
    case True
    then have "standing s q" using p [OF Some] by (simp add: standing_def own_def)
    moreover have "attach_child me e q u s = (ds2, t)" using at Some True by (simp add: attach_def)
    ultimately show ?thesis using attach_child_hangs [OF g] Some by blast
  next
    case False
    then have "attach_root me e parent u s = (ds2, t)"
      using at unfolding attach_def Some by (simp only: option.case if_False)
    from attach_root_hangs [OF g this] show ?thesis by blast
  qed
qed

lemma new_draft_unemitted: "\<not> dr_emitted (new_draft f p b)"
  by (simp add: new_draft_def)

theorem open_keeps:
  assumes ok: "units_ok s" and p: "parent_known op s"
    and op: "open_unit me here now fresh fsp op s = (u, here', t)"
  shows "units_ok t \<and> u = us_next_unit s \<and> standing t u \<and> us_next_unit t = Suc u \<and> grows s t \<and> same_limits s t"
proof -
  obtain pa conv0 ts h s1 where e: "opening_edge me here fresh op s = (pa, conv0, ts, h, s1)"
    by (cases "opening_edge me here fresh op s")
  define conv where "conv = (case op_conversation op of None \<Rightarrow> conv0 | Some c \<Rightarrow> Some c)"
  define d1 where "d1 = (if op_conversation op = None then new_draft fsp pa (op_faulty op)
     else (new_draft fsp pa (op_faulty op))\<lparr>dr_conversation := op_conversation op\<rparr>)"
  obtain d s2 where d: "alloc_draft d1 s1 = (d, s2)" by (cases "alloc_draft d1 s1")
  obtain ds s3 where r: "evict_roots_to (length (us_roots s2) + 1) over_total me now s2 = (ds, s3)"
    by (cases "evict_roots_to (length (us_roots s2) + 1) over_total me now s2")
  obtain ds2 s4 where at: "attach me now (op_parent op) (us_next_unit s2) s3 = (ds2, s4)"
    by (cases "attach me now (op_parent op) (us_next_unit s2) s3")
  define x where "x = new_unit op (us_self s4) d pa conv ts"
  define s5 where "s5 = register (us_next_unit s2) x s4"
  define s6 where "s6 = bind_alias_locked (op_key op) (us_next_unit s2) (op_carries_loss op) s5"
  define s7 where "s7 = fold (\<lambda>k s. bind_alias_locked k (us_next_unit s2) False s) (op_aliases op) s6"
  have out: "u = us_next_unit s2" "t = flush_drafts (ds @ ds2) s7"
    using op unfolding open_unit_def e prod.case Let_def conv_def [symmetric] d1_def [symmetric] d r at
      x_def [symmetric] s5_def [symmetric] s6_def [symmetric] s7_def [symmetric] by simp_all
  have same1: "same_tables s s1" using opening_edge_frame [OF e] .
  have ok1: "units_ok s1" using same_tables_ok [OF same1 ok] .
  have g2: "going s2 [d]" "same_units s1 s2"
  proof -
    have "\<not> dr_emitted d1" by (simp add: d1_def new_draft_def)
    from alloc_draft_going [OF ok1 d this] show "going s2 [d]" "same_units s1 s2" by blast+
  qed
  have room3: "going s3 ([d] @ ds) \<and> steady s2 s3 \<and> \<not> over_total s3 \<and> length (us_live s3) \<le> length (us_live s2) \<and>
      grows s2 s3"
    using evict_roots_to_room [OF _ g2(1) _ r] by (simp add: over_total_def)
  have nu: "us_next_unit s2 = us_next_unit s" using same1 g2(2) by (simp add: same_tables_def same_units_def)
  have n3: "us_next_unit s3 = us_next_unit s" using nu room3 by (simp add: steady_def)
  have "q < us_next_unit s3" if "op_parent op = Some q" for q using p that n3 by (simp add: parent_known_def)
  then obtain r4 pos where r4: "s4 = hang pos (us_next_unit s2) r4" "going r4 (([d] @ ds) @ ds2)" "steady s3 r4"
    "room_at pos r4" "length (us_live r4) \<le> length (us_live s3)" "grows s3 r4" "pos = op_parent op \<or> pos = None"
    using attach_hangs [OF _ at, of "[d] @ ds"] room3 by blast
  have n4: "us_next_unit s2 = us_next_unit r4" using nu n3 r4(3) by (simp add: steady_def)
  have total: "length (us_live r4) < us_max_units r4 * us_max_entries r4"
    using not_over_total [of s3] room3 r4(3,5) by (simp add: going_def steady_def)
  have nb: "newborn r4 d pos x"
    using r4(1,7) p n4 nu
    by (auto simp: newborn_def x_def new_unit_def hang_def set_unit_def parent_known_def split: option.splits)
  have g5: "going s5 (ds @ ds2)" "standing s5 (us_next_unit s2)"
    "forest_of s5 = graft_forest pos (us_next_unit s2) (forest_of r4)"
    using register_keeps [OF _ nb r4(4) total n4, of "ds @ ds2"] r4(1,2) by (simp_all add: s5_def)
  have g6: "going s6 (ds @ ds2)" "same_forest s5 s6" using bind_alias_going [OF g5(1,2)] by (simp_all add: s6_def)
  have "standing s6 (us_next_unit s2)" using g5(2) same_forest_standing [OF g6(2)] by simp
  note g7 = bind_aliases_going [OF g6(1) this, of "op_aliases op", folded s7_def]
  have s7: "going s7 (ds @ ds2)" "same_forest s5 s7" using g7 same_forest_trans [OF g6(2)] by blast+
  have "units_ok t" using flush_keeps s7(1) out(2) by (simp add: going_def)
  moreover have fl: "t = s7\<lparr>us_draft := us_draft t, us_emitted := us_emitted t\<rparr>"
    using flush_waiting [of "ds @ ds2" s7] s7(1) out(2) by (simp add: going_def units_but_def)
  have same7: "same_units s7 t" by (subst fl) (simp add: same_units_def)
  have "standing t u" using g5(2) same_forest_standing [OF s7(2)] same_units_standing [OF same7] out(1) by simp
  moreover have "us_next_unit t = Suc u"
    using same7 s7(2) out(1) by (simp add: same_units_def same_forest_def s5_def register_def)
  moreover have "grows s t"
  proof -
    have "forest_of s2 = forest_of s" using forest_same_tables [OF same1] forest_same_units [OF g2(2)] by simp
    then have up: "grows s r4" using room3 grows_trans [OF _ r4(6), of s] by simp
    have "us_next_unit s2 \<notin> fo_nodes (forest_of r4)"
      using live_standing [of r4] standing_next [of r4 "us_next_unit s2"] r4(2) n4
      by (auto simp: going_def units_but_def forest_of_def)
    moreover have "case pos of None \<Rightarrow> True | Some p \<Rightarrow> p \<in> fo_nodes (forest_of r4)"
      using r4(2,4) live_standing [of r4]
      by (auto simp: going_def units_but_def forest_of_def room_at_def split: option.splits)
    ultimately have "grows r4 s5" using forest_step.grafting g5(3) by (metis r_into_rtranclp)
    moreover have "forest_of t = forest_of s5"
      using forest_same_units [OF same7] forest_same_forest [OF s7(2)] by simp
    ultimately show ?thesis using grows_trans [OF up] by simp
  qed
  moreover have "same_limits s t"
  proof -
    have "same_limits s s2" using same1 g2(2) by (simp add: same_tables_def same_units_def same_limits_def)
    then have "same_limits s r4"
      using room3 r4(3) limits_steady limits_trans by blast
    moreover have "same_limits r4 s5"
      by (cases pos) (simp_all add: s5_def r4(1) register_def hang_def set_unit_def same_limits_def)
    moreover have "same_limits s5 t" using s7(2) same7 by (simp add: same_forest_def same_units_def same_limits_def)
    ultimately show ?thesis using limits_trans by blast
  qed
  ultimately show ?thesis using out(1) nu by simp
qed

section \<open>The other operations\<close>

lemma close_roots_going:
  "going s ds \<Longrightarrow> \<forall>r \<in> set rs. own s r \<Longrightarrow> close_roots me reason owner e rs s = (ds2, t) \<Longrightarrow>
    going t (ds @ ds2) \<and> steady s t \<and> grows s t"
proof (induction rs arbitrary: s ds ds2 t)
  case (Cons r rs)
  show ?case
  proof (cases "owner \<noteq> None \<and> un_owner (us_unit s r) \<noteq> owner")
    case True
    then show ?thesis using Cons by simp
  next
    case False
    let ?n = "note_marker reason r s"
    have n: "going ?n ds" "steady s ?n" using going_same [OF Cons.prems(1)] steady_same same_tables_note_marker by blast+
    obtain d1 q where q: "close_locked me r S_UNSET None e ?n = (d1, q)" by (cases "close_locked me r S_UNSET None e ?n")
    obtain d2 p where p: "close_roots me reason owner e rs q = (d2, p)" by (cases "close_roots me reason owner e rs q")
    have "own ?n r" using Cons.prems(2) steady_own [OF n(2)] by simp
    note one = close_locked_room [OF n(1) empty_subsetI this q]
    have "steady s q" using n(2) one steady_trans by blast
    then have "\<forall>v \<in> set rs. own q v" using Cons.prems(2) steady_own by simp
    then have "going p ((ds @ d1) @ d2) \<and> steady q p \<and> grows q p" using Cons.IH [of q "ds @ d1"] p one by blast
    moreover have "ds2 = d1 @ d2" "t = p" using Cons.prems(3) False q p by auto
    moreover have "grows s q"
    proof (cases "is_live ?n r")
      case True
      then have "r \<in> fo_nodes (forest_of ?n)"
        using live_standing [of ?n r] n(1) \<open>own ?n r\<close> by (simp add: going_def units_but_def forest_of_def standing_def)
      then show ?thesis
        using one True forest_step.cutting [of r "forest_of ?n"] forest_same_tables [OF same_tables_note_marker, of reason r s] by auto
    next
      case False
      then show ?thesis using one forest_same_tables [OF same_tables_note_marker, of reason r s] by simp
    qed
    ultimately show ?thesis using steady_trans [OF \<open>steady s q\<close>] grows_trans [of s q] by simp
  qed
qed (simp add: steady_refl)

lemma roots_own: "units_ok s \<Longrightarrow> \<forall>r \<in> set (us_roots s). own s r"
  using root_standing by (auto simp: units_but_def standing_def)

theorem close_all_keeps: "units_ok s \<Longrightarrow>
    units_ok (close_all me owned reason owner e s) \<and> grows s (close_all me owned reason owner e s) \<and>
    same_limits s (close_all me owned reason owner e s)"
proof -
  assume ok: "units_ok s"
  obtain ds t where t: "close_roots me reason owner e (us_roots s) s = (ds, t)"
    by (cases "close_roots me reason owner e (us_roots s) s")
  have g: "going t ([] @ ds)" "grows s t" "same_limits s t" using close_roots_going [OF _ roots_own [OF ok] t, of "[]"] ok limits_steady by simp_all
  then have "units_ok (flush_drafts ds t)" using flush_keeps by (simp add: going_def)
  moreover have "grows s (flush_drafts ds t)"
    using g forest_same_units [OF flush_same_units, of t ds] by simp
  moreover have "same_limits s (flush_drafts ds t)"
    using g limits_trans limits_units [OF flush_same_units] by simp
  moreover have "same_limits s (count n s)" for n by (simp add: same_limits_def count_def)
  moreover have "units_ok (count n s)" "forest_of (count n s) = forest_of s" for n
    using same_tables_ok [OF _ ok] forest_same_tables [of s "count n s"] by simp_all
  ultimately show ?thesis using t by (simp add: close_all_def)
qed

text \<open>Rewriting the claims or the open spans of one unit.\<close>

lemma edit_ok:
  assumes ok: "units_ok s"
    and f: "\<And>x. un_live (f x) = un_live x" "\<And>x. un_registry (f x) = un_registry x"
      "\<And>x. un_parent (f x) = un_parent x" "\<And>x. un_alias_keys (f x) = un_alias_keys x"
      "\<And>x. un_children (f x) = un_children x"
    and b: "own s u \<Longrightarrow> length (un_claims (f (us_unit s u))) \<le> us_max_entries s"
      "own s u \<Longrightarrow> length (un_open (f (us_unit s u))) \<le> (if un_live (us_unit s u) then us_max_entries s else 0)"
    and d: "drafts_ok (set_unit u f s)"
  shows "units_ok (set_unit u f s)"
proof -
  let ?t = "set_unit u f s"
  have st: "standing ?t v = standing s v" "own ?t v = own s v" for v
    using f by (simp_all add: standing_def own_def is_live_def set_unit_def)
  have g: "us_live ?t = us_live s" "us_roots ?t = us_roots s" "us_next_unit ?t = us_next_unit s"
    "us_max_units ?t = us_max_units s" "us_max_entries ?t = us_max_entries s" "us_max_links ?t = us_max_links s"
    "us_link_memory ?t = us_link_memory s" "us_by_alias ?t = us_by_alias s"
    "un_parent (us_unit ?t v) = un_parent (us_unit s v)" "un_alias_keys (us_unit ?t v) = un_alias_keys (us_unit s v)"
    "un_children (us_unit ?t v) = un_children (us_unit s v)" for v
    using f by (simp_all add: set_unit_def)
  have bs: "bounds_ok s" using ok by (simp add: units_but_def)
  have "length (un_claims (us_unit ?t v)) \<le> us_max_entries s \<and> length (un_open (us_unit ?t v)) \<le> (if un_live (us_unit ?t v) then us_max_entries s else 0)"
    if "own s v" for v
    using that bs b f by (cases "v = u") (simp_all add: set_unit_def bounds_ok_def)
  then have "bounds_ok ?t" using bs unfolding bounds_ok_def st g by blast
  moreover have "tree_ok ?t" using ok unfolding units_but_def tree_but_def st g by simp
  moreover have "alias_ok ?t" using ok unfolding units_but_def alias_ok_def st g by simp
  ultimately show ?thesis using ok d unfolding units_but_def g by simp
qed

lemma length_update_new: "length (AList.update k v al) \<le> Suc (length al)"
  by (induction al) auto

lemma length_update_old: "map_of al k = Some w \<Longrightarrow> length (AList.update k v al) = length al"
  by (induction al) (auto split: if_splits)

lemma drafts_set_unit:
  assumes "drafts_ok s" "\<And>x. un_draft (f x) = un_draft x" "\<And>x. un_live (f x) = un_live x"
    "\<And>x. un_registry (f x) = un_registry x"
    "set (un_open (f (us_unit s u))) \<subseteq> set (un_open (us_unit s u))"
    "standing s u \<Longrightarrow> distinct (map od_draft (un_open (f (us_unit s u))))"
  shows "drafts_ok (set_unit u f s)"
proof (rule drafts_shrink [OF assms(1)])
  fix v assume "standing (set_unit u f s) v"
  then have v: "standing s v"
    using assms(3,4) by (simp add: standing_def own_def is_live_def set_unit_def split: if_splits)
  show "standing s v \<and> set (holdings (us_unit (set_unit u f s) v)) \<subseteq> set (holdings (us_unit s v)) \<and>
      distinct (holdings (us_unit (set_unit u f s) v))"
  proof (cases "v = u")
    case True
    then show ?thesis using v assms(2,5,6) spans_held_distinct [OF assms(1) v]
      by (auto simp: holdings_def set_unit_def)
  next
    case False
    then have "us_unit (set_unit u f s) v = us_unit s v" by (simp add: set_unit_def)
    then show ?thesis using v spans_held_distinct [OF assms(1) v] by simp
  qed
qed (simp_all add: set_unit_def)

lemma claim_keeps:
  assumes ok: "units_ok s"
  shows "units_ok (snd (claim u key rank s))"
proof -
  have dr: "drafts_ok s" and b: "bounds_ok s" and e: "1 \<le> us_max_entries s" using ok by (simp_all add: units_but_def)
  have edit: "units_ok (set_unit u (\<lambda>x. x\<lparr>un_claims := cl (un_claims x)\<rparr>) r)"
    if r: "units_ok r" and l: "own r u \<Longrightarrow> length (cl (un_claims (us_unit r u))) \<le> us_max_entries r" for cl r
  proof (rule edit_ok [OF r])
    show "drafts_ok (set_unit u (\<lambda>x. x\<lparr>un_claims := cl (un_claims x)\<rparr>) r)"
      using r spans_held_distinct [of r u] by (intro drafts_set_unit) (auto simp: units_but_def holdings_def)
    show "length (un_open (us_unit r u\<lparr>un_claims := cl (un_claims (us_unit r u))\<rparr>)) \<le>
        (if un_live (us_unit r u) then us_max_entries r else 0)" if "own r u" using that r by (simp add: units_but_def bounds_ok_def)
  qed (use l in simp_all)
  have len: "own s u \<Longrightarrow> length (un_claims (us_unit s u)) \<le> us_max_entries s" using b by (simp add: bounds_ok_def)
  show ?thesis
  proof (cases "map_of (un_claims (us_unit s u)) key")
    case (Some best)
    then show ?thesis
      using ok edit [OF ok, of "AList.update key rank"] len length_update_old [OF Some] by (auto simp: claim_def)
  next
    case None
    obtain ev rest where er: "evict_oldest (us_max_entries s) (un_claims (us_unit s u)) = (ev, rest)"
      by (cases "evict_oldest (us_max_entries s) (un_claims (us_unit s u))")
    have rest: "own s u \<Longrightarrow> Suc (length rest) \<le> us_max_entries s"
      using er e len by (auto simp: evict_oldest_def split: if_splits)
    define r where "r = (if ev = None then s else count ''claim_table_full'' s)"
    have same: "same_tables s r" by (simp add: r_def)
    have okr: "units_ok r" and eqr: "own r u = own s u" "us_max_entries r = us_max_entries s"
      using same_tables_ok [OF same ok] same_tables_own [OF same] same by (simp_all add: same_tables_def)
    have "units_ok (set_unit u (\<lambda>x. x\<lparr>un_claims := (\<lambda>_. AList.update key rank rest) (un_claims x)\<rparr>) r)"
      using rest length_update_new [of key rank rest] eqr by (intro edit [OF okr]) simp
    then show ?thesis using None er by (simp add: claim_def r_def)
  qed
qed

lemma dead_holds_no_span: "units_ok s \<Longrightarrow> own s u \<Longrightarrow> un_open (us_unit s u) \<noteq> [] \<Longrightarrow> standing s u"
  by (auto simp: units_but_def bounds_ok_def standing_def is_live_def split: if_splits)

text \<open>A span taken out of the table of an own unit waits for the sink, and nothing else holds it.\<close>

lemma take_entry:
  assumes g: "going s ds" and u: "own s u" and e: "entry \<in> set (un_open (us_unit s u))"
  shows "going (set_unit u (\<lambda>x. x\<lparr>un_open := remove1 entry (un_open x)\<rparr>) s) (od_draft entry # ds)"
proof -
  have ok: "units_ok s" and w: "waiting_ok ds s" using g by (simp_all add: going_def)
  let ?t = "set_unit u (\<lambda>x. x\<lparr>un_open := remove1 entry (un_open x)\<rparr>) s"
  have st: "standing s u" using dead_holds_no_span [OF ok u] e by fastforce
  have dr: "drafts_ok s" and b: "bounds_ok s" using ok by (simp_all add: units_but_def)
  have dist: "distinct (holdings (us_unit s u))" using spans_held_distinct [OF dr st] .
  then have dm: "distinct (map od_draft (un_open (us_unit s u)))" by (simp add: holdings_def)
  have rest: "od_draft entry \<notin> set (map od_draft (remove1 entry (un_open (us_unit s u))))"
    "distinct (map od_draft (remove1 entry (un_open (us_unit s u))))"
  proof -
    have ds: "distinct (un_open (us_unit s u))" using dm by (simp add: distinct_map)
    have rem: "set (remove1 entry (un_open (us_unit s u))) = set (un_open (us_unit s u)) - {entry}"
      using ds by simp
    show "od_draft entry \<notin> set (map od_draft (remove1 entry (un_open (us_unit s u))))"
      using dm e by (auto simp: rem distinct_map inj_on_def)
    show "distinct (map od_draft (remove1 entry (un_open (us_unit s u))))"
      using dm ds rem by (auto simp: distinct_map intro: inj_on_subset)
  qed
  have "drafts_ok ?t"
    using rest(2) set_remove1_subset [of entry "un_open (us_unit s u)"] by (intro drafts_set_unit [OF dr]) simp_all
  then have okt: "units_ok ?t"
  proof (rule edit_ok [OF ok, rotated -1])
    show "own s u \<Longrightarrow> length (un_open (us_unit s u\<lparr>un_open := remove1 entry (un_open (us_unit s u))\<rparr>))
        \<le> (if un_live (us_unit s u) then us_max_entries s else 0)"
      using b by (auto simp: bounds_ok_def length_remove1 split: if_splits)
    show "own s u \<Longrightarrow> length (un_claims (us_unit s u\<lparr>un_open := remove1 entry (un_open (us_unit s u))\<rparr>)) \<le> us_max_entries s"
      using b by (simp add: bounds_ok_def)
  qed simp_all
  have held: "od_draft entry \<in> set (holdings (us_unit s u))" using e by (auto simp: holdings_def)
  have "od_draft entry \<notin> set (holdings (us_unit ?t v))" if "standing ?t v" for v
  proof (cases "v = u")
    case True
    have "od_draft entry \<in> od_draft ` set (un_open (us_unit s u))" using e by (rule imageI)
    then have "od_draft entry \<noteq> un_draft (us_unit s u)" using dist by (auto simp only: holdings_def distinct_append set_map list.set)
    then show ?thesis using True rest(1) by (simp add: holdings_def set_unit_def)
  next
    case False
    then have "standing s v" "us_unit ?t v = us_unit s v"
      using that by (simp_all add: standing_def own_def is_live_def set_unit_def)
    then show ?thesis using spans_held_apart [OF dr st] False held by auto
  qed
  moreover have "waiting_ok ds ?t"
  proof (rule waiting_shrinks [OF w])
    fix v assume v: "standing ?t v"
    show "standing s v \<and> set (holdings (us_unit ?t v)) \<subseteq> set (holdings (us_unit s v))"
      using v set_remove1_subset [of entry "un_open (us_unit s u)"]
      by (auto simp: standing_def own_def is_live_def holdings_def set_unit_def split: if_splits)
  qed (simp_all add: set_unit_def)
  moreover have "od_draft entry \<notin> set ds" using w st held by (auto simp: waiting_ok_def)
  ultimately have "waiting_ok (od_draft entry # ds) ?t"
    using held_fresh [OF dr st held] by (simp add: waiting_ok_def) (simp add: set_unit_def)
  then show ?thesis using okt by (simp add: going_def)
qed

lemma find_entry: "find P xs = Some x \<Longrightarrow> x \<in> set xs \<and> P x"
  by (auto simp: find_Some_iff)

lemma close_span_keeps:
  assumes ok: "units_ok s" and u: "own s u"
  shows "units_ok (close_span u d st err e s)"
proof (cases "find (\<lambda>e. od_draft e = d) (un_open (us_unit s u))")
  case None
  then show ?thesis using same_tables_ok [OF _ ok] by (simp add: close_span_def)
next
  case (Some entry)
  then have en: "entry \<in> set (un_open (us_unit s u))" "od_draft entry = d" using find_entry by force+
  let ?r = "set_unit u (\<lambda>x. x\<lparr>un_open := remove1 entry (un_open x)\<rparr>) s"
  let ?d = "set_draft d (\<lambda>x. x\<lparr>dr_status := st, dr_error_type := (if err = None then dr_error_type x else err),
      dr_end := Some e\<rparr>) ?r"
  have g: "going ?r [d]" using take_entry [of s "[]", OF _ u en(1)] ok en(2) by simp
  have "same_tables ?r ?d" by (rule same_tables_set_draft) simp_all
  then have "going ?d [d]" using going_same [OF g] by blast
  then have "units_ok (flush_drafts [d] ?d)" using flush_keeps by (simp only: going_def)
  moreover have "units_ok (count n ?r)" for n using same_tables_ok [of ?r "count n ?r"] g by (simp add: going_def)
  ultimately show ?thesis by (simp add: close_span_def Some Let_def del: flush_drafts.simps)
qed

lemma add_entry:
  assumes g: "going s (od_draft entry # ds)" and u: "standing s u"
    and room: "length (un_open (us_unit s u)) < us_max_entries s"
  shows "going (set_unit u (\<lambda>x. x\<lparr>un_open := un_open x @ [entry]\<rparr>) s) ds"
proof -
  let ?t = "set_unit u (\<lambda>x. x\<lparr>un_open := un_open x @ [entry]\<rparr>) s"
  have ok: "units_ok s" and w: "waiting_ok (od_draft entry # ds) s" using g by (simp_all add: going_def)
  have dr: "drafts_ok s" and b: "bounds_ok s" using ok by (simp_all add: units_but_def)
  have st: "standing ?t v = standing s v" for v by (simp add: standing_def own_def is_live_def set_unit_def)
  have h: "set (holdings (us_unit ?t v)) = (if v = u then insert (od_draft entry) (set (holdings (us_unit s v)))
      else set (holdings (us_unit s v)))" for v
    by (auto simp: holdings_def set_unit_def)
  have new: "od_draft entry \<notin> set (holdings (us_unit s v))" if "standing s v" for v
    using w that by (simp add: waiting_ok_def)
  have hd: "distinct (holdings (us_unit ?t v))" if "standing s v" for v
    using spans_held_distinct [OF dr that] new [OF that] by (cases "v = u") (auto simp: holdings_def set_unit_def)
  have fresh: "od_draft entry < us_next_draft s" "od_draft entry \<notin> set (us_emitted s)" "od_draft entry \<notin> set ds"
    using w by (simp_all add: waiting_ok_def)
  have f: "us_emitted ?t = us_emitted s" "us_next_draft ?t = us_next_draft s" "us_draft ?t = us_draft s"
    by (simp_all add: set_unit_def)
  have "drafts_ok ?t"
    unfolding drafts_ok_def st f
  proof (intro conjI)
    show "\<forall>v. standing s v \<longrightarrow> distinct (holdings (us_unit ?t v)) \<and>
        (\<forall>d \<in> set (holdings (us_unit ?t v)). d < us_next_draft s \<and> d \<notin> set (us_emitted s))"
      using hd fresh held_fresh [OF dr] by (simp add: h)
    show "\<forall>v w. standing s v \<longrightarrow> standing s w \<longrightarrow> v \<noteq> w \<longrightarrow>
        set (holdings (us_unit ?t v)) \<inter> set (holdings (us_unit ?t w)) = {}"
      using new spans_held_apart [OF dr] by (simp add: h)
  qed (use dr in \<open>simp_all add: drafts_ok_def\<close>)
  then have "units_ok ?t"
  proof (rule edit_ok [OF ok, rotated -1])
    show "own s u \<Longrightarrow> length (un_open (us_unit s u\<lparr>un_open := un_open (us_unit s u) @ [entry]\<rparr>))
        \<le> (if un_live (us_unit s u) then us_max_entries s else 0)"
      using room standing_live [OF u] by simp
    show "own s u \<Longrightarrow> length (un_claims (us_unit s u\<lparr>un_open := un_open (us_unit s u) @ [entry]\<rparr>)) \<le> us_max_entries s"
      using b by (simp add: bounds_ok_def)
  qed simp_all
  moreover have "waiting_ok ds ?t"
    using w fresh(3) by (auto simp: waiting_ok_def st f h)
  ultimately show ?thesis by (simp add: going_def)
qed

lemma going_swap: "going s (a # b # ds) \<Longrightarrow> going s (b # a # ds)"
  by (auto simp: going_def waiting_ok_def)

lemma set_unit_twice: "set_unit u f (set_unit u g s) = set_unit u (\<lambda>x. f (g x)) s"
  by (simp add: set_unit_def)

lemma set_unit_count: "set_unit u f (count n s) = count n (set_unit u f s)"
  by (simp add: set_unit_def count_def)

lemma waiting_drop: "waiting_ok (d # ds) s \<Longrightarrow> waiting_ok ds s"
  by (simp add: waiting_ok_def)

lemma open_span_keeps:
  assumes ok: "units_ok s" and u: "own s u"
  shows "units_ok (snd (open_span u ev key now fresh fsp faulty s))"
proof -
  define d0 where "d0 = new_draft fsp (child_edge s u fresh ev None) faulty"
  obtain d s1 where d: "alloc_draft d0 s = (d, s1)" by (cases "alloc_draft d0 s")
  have g1: "going s1 [d]" "same_units s s1"
    using alloc_draft_going [OF ok d] new_draft_unemitted by (auto simp: d0_def)
  have ok1: "units_ok s1" using g1 by (simp add: going_def)
  have u1: "own s1 u" using u g1(2) by (simp add: own_def same_units_def)
  show ?thesis
  proof (cases "is_live s1 u")
    case False
    then show ?thesis using same_tables_ok [OF _ ok1] by (simp add: open_span_def d0_def [symmetric] d)
  next
    case True
    then have st: "standing s1 u" using u1 by (simp add: standing_def)
    define entry where "entry = \<lparr>od_draft = d, od_claim_key = key,
      od_rank = (case key of None \<Rightarrow> 0
        | Some k \<Rightarrow> (case map_of (un_claims (us_unit s1 u)) k of None \<Rightarrow> 0 | Some r \<Rightarrow> r))\<rparr>"
    have de: "od_draft entry = d" by (simp add: entry_def)
    show ?thesis
    proof (cases "length (un_open (us_unit s1 u)) < us_max_entries s1")
      case room: True
      have "going (set_unit u (\<lambda>x. x\<lparr>un_open := un_open x @ [entry]\<rparr>) s1) []"
        using add_entry [OF _ st room, of entry "[]"] g1(1) de by simp
      moreover have "set_unit u (\<lambda>x. x\<lparr>un_open := un_open (us_unit s1 u) @ [entry]\<rparr>) s1 =
          set_unit u (\<lambda>x. x\<lparr>un_open := un_open x @ [entry]\<rparr>) s1" by (simp add: set_unit_def)
      ultimately show ?thesis using room True
        by (simp add: open_span_def d0_def [symmetric] d evict_oldest_def Let_def entry_def)
    next
      case full: False
      have "1 \<le> us_max_entries s1" using ok1 by (simp add: units_but_def)
      then obtain old rest where op: "un_open (us_unit s1 u) = old # rest"
        using full by (cases "un_open (us_unit s1 u)") auto
      let ?cut = "set_unit u (\<lambda>x. x\<lparr>un_open := remove1 old (un_open x)\<rparr>) s1"
      let ?add = "set_unit u (\<lambda>x. x\<lparr>un_open := un_open x @ [entry]\<rparr>) ?cut"
      have cut: "going ?cut [od_draft old, d]" using take_entry [OF g1(1) u1, of old] op by simp
      have cst: "standing ?cut u" using st by (simp add: standing_def own_def is_live_def set_unit_def)
      have lim: "length (old # rest) \<le> us_max_entries s1"
        using ok1 u1 op by (auto simp: units_but_def bounds_ok_def split: if_splits)
      then have "length (un_open (us_unit ?cut u)) < us_max_entries ?cut"
        using op by (simp add: set_unit_def)
      then have add: "going ?add [od_draft old]"
        using add_entry [OF _ cst, of entry "[od_draft old]"] going_swap [OF cut] de by simp
      have same: "set_unit u (\<lambda>x. x\<lparr>un_open := rest @ [entry]\<rparr>) (count ''open_span_table_full'' s1) =
          count ''open_span_table_full'' ?add"
        using op by (simp add: set_unit_def count_def)
      let ?c = "count ''open_span_table_full'' ?add"
      let ?f = "set_draft (od_draft old) (force_close UNIT_TABLE_FULL now) ?c"
      have "same_tables ?c ?f" by (rule same_tables_set_draft) simp_all
      then have "same_tables ?add ?f" using same_tables_trans [of ?add ?c ?f] by simp
      then have "going ?f [od_draft old]" using going_same [OF add] by blast
      then have fl: "units_ok (flush_drafts [od_draft old] ?f)" using flush_keeps by (simp only: going_def)
      have cs: "units_ok (count ''claim_superseded'' ?c)"
        using add same_tables_ok [of ?add "count ''claim_superseded'' ?c"] by (simp add: going_def)
      show ?thesis using full True fl cs
        by (simp add: open_span_def d0_def [symmetric] d evict_oldest_def op Let_def entry_def [symmetric] same
            del: flush_drafts.simps)
    qed
  qed
qed

end
