(* ===== verification/Units_Life.thy ===== *)
theory Units_Life
  imports Units_Laws
begin

text \<open>
  The life of a unit registry: every operation as a step, the invariant along every
  sequence of steps, and what the operations promise on the states a registry can reach.
\<close>

section \<open>Every sequence of operations\<close>

lemma record_keeps: "units_ok s \<Longrightarrow> units_ok (record_input u data s) \<and> units_ok (record_output u data s)"
proof -
  assume ok: "units_ok s"
  have "torn {} s (record_input u data s)" unfolding record_input_def
    by (rule torn_set_unit) (simp_all split: prod.splits)
  moreover have "torn {} s (record_output u data s)" unfolding record_output_def
    by (rule torn_set_unit) (simp_all split: prod.splits)
  ultimately show ?thesis using going_torn0 [of "{}" s "[]"] ok by simp
qed

lemma bind_alias_keeps:
  assumes ok: "units_ok s" and u: "own s u"
  shows "units_ok (bind_alias u key remember s)"
proof (cases "is_live s u")
  case True
  then have "standing s u" using u by (simp add: standing_def)
  then have b: "units_ok (bind_alias_locked key u False s)"
    using bind_alias_going [of s "[]" u key False] ok by simp
  have "torn {} r (set_unit u (\<lambda>x. x\<lparr>un_remembered := m x\<rparr>) r)" for m r
    by (rule torn_set_unit) simp_all
  then have "units_ok (set_unit u (\<lambda>x. x\<lparr>un_remembered := m x\<rparr>) (bind_alias_locked key u False s))" for m
    using going_torn0 [of "{}" "bind_alias_locked key u False s" "[]"] b by simp
  then show ?thesis using b True by (simp add: bind_alias_def Let_def)
next
  case False
  then show ?thesis using same_tables_ok [OF _ ok] by (simp add: bind_alias_def)
qed

lemma alias_names_standing: "units_ok s \<Longrightarrow> map_of (us_by_alias s) key = Some u \<Longrightarrow> standing s u"
  by (simp add: units_but_def alias_ok_def)

lemma alias_to_keeps: "units_ok s \<Longrightarrow> units_ok (alias_to key new s)"
  using bind_alias_going [of s "[]"] alias_names_standing same_tables_ok [of s "count n s" for n]
  by (auto simp: alias_to_def split: option.splits)

lemma find_unit_pure: "units_ok s \<Longrightarrow> find_unit key s = (map_of (us_by_alias s) key, s)"
  using alias_names_standing by (fastforce simp: find_unit_def standing_def split: option.splits)

lemma same_tables_current: "current me here s = (r, h, t) \<Longrightarrow> same_tables s t"
  by (auto simp: current_def retire_dead_foreign_def split: option.splits if_splits prod.splits)

lemma same_tables_recall: "recall k amb h s = (r, t) \<Longrightarrow> same_tables s t"
  by (auto simp: recall_def split: option.splits if_splits)

lemma same_tables_edge:
  assumes ok: "units_ok s" and e: "edge key amb fresh s = (p, t)"
  shows "same_tables s t"
proof -
  have f: "(case key of None \<Rightarrow> (None, s) | Some k \<Rightarrow> find_unit k s) =
      (case key of None \<Rightarrow> None | Some k \<Rightarrow> map_of (us_by_alias s) k, s)"
    by (simp add: find_unit_pure [OF ok] split: option.splits)
  obtain r q where rq: "(case key of None \<Rightarrow> (None, s) | Some k \<Rightarrow> recall k (Some amb) None s) = (r, q)"
    by (cases "case key of None \<Rightarrow> (None, s) | Some k \<Rightarrow> recall k (Some amb) None s")
  have q: "same_tables s q" using rq same_tables_recall by (cases key) auto
  have "t = s \<or> t = q"
    using e unfolding edge_def f prod.case Let_def rq
    by (auto split: option.splits if_splits)
  then show ?thesis using q by auto
qed

lemma same_tables_resolve:
  assumes ok: "units_ok s" and r: "resolve me here key amb fresh s = (p, h, t)"
  shows "same_tables s t"
proof -
  obtain b h1 s1 where b: "poisoned me here amb s = (b, h1, s1)" by (cases "poisoned me here amb s")
  have s1: "same_tables s s1" using same_tables_poisoned [OF b] .
  have s2: "same_tables s (note_refused_ambient h1 s1)"
    using same_tables_trans [OF s1 same_tables_note_refused] .
  have "same_tables s1 t \<or> same_tables (note_refused_ambient h1 s1) t"
    using r b same_tables_edge [OF same_tables_ok [OF s1 ok]] same_tables_edge [OF same_tables_ok [OF s2 ok]]
    by (cases b) (auto simp: resolve_def split: prod.splits)
  then show ?thesis using s1 s2 same_tables_trans by blast
qed

lemma same_tables_pin: "pin_driver me o' u here s = (tok, h, t) \<Longrightarrow> same_tables s t"
proof (cases "o' = me")
  case True
  then show "pin_driver me o' u here s = (tok, h, t) \<Longrightarrow> ?thesis"
    by (auto simp: pin_driver_def Let_def) (simp add: same_tables_def)
next
  case False
  have "same_tables s (note_marker CORRELATION_CONFLICT u (count ''pin_foreign_task'' s))"
    by (rule same_tables_trans [OF _ same_tables_note_marker]) simp
  then show "pin_driver me o' u here s = (tok, h, t) \<Longrightarrow> ?thesis" using False by (auto simp: pin_driver_def)
qed

lemma same_tables_unpin: "unpin me tok here s = (tok', h, t) \<Longrightarrow> same_tables s t"
  by (auto simp: unpin_def Let_def same_tables_def count_def split: option.splits if_splits)

text \<open>One operation of the registry, on one of its own units where it takes one; or another
  registry of the process making or closing a unit of its own.\<close>

inductive unit_step :: "units \<Rightarrow> units \<Rightarrow> bool" where
  step_open: "parent_known op s \<Longrightarrow> open_unit me here now fresh fsp op s = (u, here', t) \<Longrightarrow> unit_step s t"
| step_close: "own s u \<Longrightarrow> unit_step s (close_unit me u st er e s)"
| step_close_all: "unit_step s (close_all me owned reason owner e s)"
| step_open_span: "own s u \<Longrightarrow> open_span u ev key now fresh fsp faulty s = (d, t) \<Longrightarrow> unit_step s t"
| step_close_span: "own s u \<Longrightarrow> unit_step s (close_span u d st er e s)"
| step_claim: "own s u \<Longrightarrow> claim u key rank s = (won, t) \<Longrightarrow> unit_step s t"
| step_note: "own s u \<Longrightarrow> unit_step s (note_marker m u s)"
| step_record_input: "own s u \<Longrightarrow> unit_step s (record_input u data s)"
| step_record_output: "own s u \<Longrightarrow> unit_step s (record_output u data s)"
| step_alias: "unit_step s (alias_to key new s)"
| step_bind_alias: "own s u \<Longrightarrow> unit_step s (bind_alias u key remember s)"
| step_find: "find_unit key s = (found, t) \<Longrightarrow> unit_step s t"
| step_recall: "recall key amb holder s = (found, t) \<Longrightarrow> unit_step s t"
| step_current: "current me here s = (found, here', t) \<Longrightarrow> unit_step s t"
| step_resolve: "resolve me here key amb fresh s = (p, here', t) \<Longrightarrow> unit_step s t"
| step_pin: "own s u \<Longrightarrow> pin_driver me o' u here s = (tok, here', t) \<Longrightarrow> unit_step s t"
| step_unpin: "unpin me tok here s = (tok', here', t) \<Longrightarrow> unit_step s t"
| step_foreign_open: "un_registry x \<noteq> us_self s \<Longrightarrow>
    (\<And>p. un_parent x = Some p \<Longrightarrow> p < us_next_unit s) \<Longrightarrow>
    unit_step s (s\<lparr>us_unit := (us_unit s)(us_next_unit s := x), us_next_unit := us_next_unit s + 1\<rparr>)"
| step_foreign_close: "un_registry (us_unit s v) \<noteq> us_self s \<Longrightarrow>
    unit_step s (set_unit v (\<lambda>x. x\<lparr>un_live := False\<rparr>) s)"

inductive unit_reach :: "units \<Rightarrow> units \<Rightarrow> bool" for s0 where
  reach_here: "unit_reach s0 s0"
| reach_step: "unit_reach s0 s \<Longrightarrow> unit_step s t \<Longrightarrow> unit_reach s0 t"

lemma foreign_keeps:
  assumes ok: "units_ok s"
    and f: "us_self t = us_self s" "us_max_units t = us_max_units s" "us_max_entries t = us_max_entries s"
      "us_max_links t = us_max_links s" "us_roots t = us_roots s" "us_live t = us_live s"
      "us_by_alias t = us_by_alias s" "us_link_memory t = us_link_memory s" "us_draft t = us_draft s"
      "us_emitted t = us_emitted s" "us_next_draft t = us_next_draft s"
    and o: "\<And>v. own t v = own s v" and same: "\<And>v. own s v \<Longrightarrow> us_unit t v = us_unit s v"
    and older: "\<And>v p. v < us_next_unit t \<Longrightarrow> un_parent (us_unit t v) = Some p \<Longrightarrow> p < v"
  shows "units_ok t"
proof -
  have st: "standing t v = standing s v" for v
    using o [of v] same [of v] by (auto simp: standing_def is_live_def)
  have so: "us_unit t v = us_unit s v" if "standing s v" for v using same that by (simp add: standing_def)
  have tree: "tree_ok s" and dr: "drafts_ok s" and al: "alias_ok s" and bd: "bounds_ok s"
    using ok by (simp_all add: units_but_def)
  have "tree_ok t"
    unfolding tree_but_def f st
  proof (intro conjI)
    show "\<forall>u p. u < us_next_unit t \<longrightarrow> un_parent (us_unit t u) = Some p \<longrightarrow> p < u" using older by blast
    show "\<forall>p. standing s p \<longrightarrow> distinct (un_children (us_unit t p))"
      using tree by (simp add: so) (simp add: tree_but_def)
    show "\<forall>p c. standing s p \<longrightarrow> c \<in> set (un_children (us_unit t p)) \<longrightarrow>
        standing s c \<and> un_parent (us_unit t c) = Some p"
      using kid_standing [OF tree] kid_parent [OF tree] by (simp add: so)
    show "\<forall>u. standing s u \<longrightarrow> u \<in> {} \<or> u \<in> set (us_roots s) \<or>
        (\<exists>p. standing s p \<and> u \<in> set (un_children (us_unit t p)))"
      using hangs [OF tree] so by (metis (no_types))
  qed (use tree in \<open>simp_all add: tree_but_def\<close>)
  moreover have "bounds_ok t" using bd unfolding bounds_ok_def f o by (simp add: same)
  moreover have "alias_ok t" using al unfolding alias_ok_def f st by (simp add: so)
  moreover have "drafts_ok t"
    by (rule drafts_shrink [OF dr]) (simp_all add: f st so spans_held_distinct [OF dr])
  ultimately show ?thesis using ok f unfolding units_but_def by simp
qed

theorem step_keeps: "unit_step s t \<Longrightarrow> units_ok s \<Longrightarrow> units_ok t"
proof (induction rule: unit_step.induct)
  case (step_foreign_open x s)
  have older: "p < v" if "v < us_next_unit s" "un_parent (us_unit s v) = Some p" for v p
    using parent_older [of "{}" s] step_foreign_open.prems that by (simp add: units_but_def)
  show ?case
    by (rule foreign_keeps [OF step_foreign_open.prems])
      (use step_foreign_open.hyps older in \<open>auto simp: own_def less_Suc_eq split: if_splits\<close>)
next
  case (step_foreign_close s v)
  have older: "p < w" if "w < us_next_unit s" "un_parent (us_unit s w) = Some p" for w p
    using parent_older [of "{}" s] step_foreign_close.prems that by (simp add: units_but_def)
  show ?case
    by (rule foreign_keeps [OF step_foreign_close.prems])
      (use step_foreign_close.hyps older in \<open>auto simp: own_def set_unit_def split: if_splits\<close>)
next
  case (step_open op s me here now fresh fsp u here' t)
  then show ?case using open_keeps by blast
next
  case (step_open_span s u ev key now fresh fsp faulty d t)
  then show ?case using open_span_keeps by (metis snd_conv)
next
  case (step_claim s u key rank won t)
  then show ?case using claim_keeps by (metis snd_conv)
next
  case (step_find key s found t)
  then show ?case by (simp add: find_unit_pure)
next
  case (step_note s u m)
  then show ?case using same_tables_ok [OF same_tables_note_marker] by blast
next
  case (step_resolve me here key amb fresh s p here' t)
  then show ?case using same_tables_ok same_tables_resolve by blast
next
  case (step_close s u me st er e)
  then show ?case using close_unit_keeps by blast
next
  case (step_close_all s me owned reason owner e)
  then show ?case using close_all_keeps by blast
next
  case (step_close_span s u d st er e)
  then show ?case using close_span_keeps by blast
next
  case (step_record_input s u data)
  then show ?case using record_keeps by blast
next
  case (step_record_output s u data)
  then show ?case using record_keeps by blast
next
  case (step_alias s key new)
  then show ?case using alias_to_keeps by blast
next
  case (step_bind_alias s u key remember)
  then show ?case using bind_alias_keeps by blast
next
  case (step_recall key amb holder s found t)
  then show ?case using same_tables_ok [OF same_tables_recall] by blast
next
  case (step_current me here s found here' t)
  then show ?case using same_tables_ok [OF same_tables_current] by blast
next
  case (step_pin s u me o' here tok here' t)
  then show ?case using same_tables_ok [OF same_tables_pin] by blast
next
  case (step_unpin me tok here s tok' here' t)
  then show ?case using same_tables_ok [OF same_tables_unpin] by blast
qed

lemma new_units_ok:
  "1 \<le> max_units \<Longrightarrow> 1 \<le> max_entries \<Longrightarrow> units_ok (new_units self max_units max_entries max_links max_record u0 d0)"
  by (simp add: units_but_def tree_but_def bounds_ok_def alias_ok_def drafts_ok_def standing_def own_def new_units_def)

theorem reach_ok: "unit_reach s0 s \<Longrightarrow> units_ok s0 \<Longrightarrow> units_ok s"
  by (induction rule: unit_reach.induct) (auto intro: step_keeps)

section \<open>What a reachable registry looks like\<close>

definition registry_state :: "nat \<Rightarrow> nat \<Rightarrow> units \<Rightarrow> bool" where
  "registry_state max_units max_entries s \<longleftrightarrow>
     (\<exists>self max_links max_record u0 d0.
        unit_reach (new_units self max_units max_entries max_links max_record u0 d0) s)"

lemma registry_ok: "registry_state m e s \<Longrightarrow> 1 \<le> m \<Longrightarrow> 1 \<le> e \<Longrightarrow> units_ok s"
  unfolding registry_state_def using reach_ok new_units_ok by blast

lemma under_root: "tree_ok s \<Longrightarrow> standing s u \<Longrightarrow> \<exists>r \<in> set (us_roots s). u \<in> under s r"
proof (induction u rule: less_induct)
  case (less u)
  from hangs [OF less.prems] show ?case
  proof
    assume "u \<in> set (us_roots s)"
    then show ?thesis using under_self by blast
  next
    assume "\<exists>p. standing s p \<and> u \<in> set (un_children (us_unit s p))"
    then obtain p where p: "standing s p" "u \<in> set (un_children (us_unit s p))" by blast
    then obtain r where "r \<in> set (us_roots s)" "p \<in> under s r"
      using less.IH [of p] kid_younger [OF less.prems(1)] less.prems(1) by blast
    moreover have "(p, u) \<in> kids s" using p by (simp add: kids_def)
    ultimately show ?thesis using under_down by blast
  qed
qed

section \<open>What a close does\<close>

lemma close_unit_effect:
  assumes ok: "units_ok s" and u: "standing s u"
  shows "\<exists>r. same_tables s r \<and>
    (\<exists>q. torn (under s u) r q \<and> close_unit me u st er e s = flush_drafts (owed (us_next_unit s) (us_unit s) (faulty_in s) u) q \<and>
      going q (owed (us_next_unit s) (us_unit s) (faulty_in s) u))"
proof -
  have tree: "tree_ok s" using ok by (simp add: units_but_def)
  obtain r q where r: "close_locked me u st er e s = (owed (us_next_unit s) (us_unit s) (faulty_in s) u, q)"
    "same_tables s r" "torn (under s u) r q" using close_locked_effect [OF tree u] by blast
  have "going q (owed (us_next_unit s) (us_unit s) (faulty_in s) u)"
    using close_locked_keeps [OF ok empty_subsetI _ waiting_nil, of u me st er e] u r(1)
    by (simp add: standing_def going_def)
  then show ?thesis using r by (auto simp: close_unit_def)
qed

lemma flush_emits: "going s ds \<Longrightarrow> us_emitted (flush_drafts ds s) = us_emitted s @ ds"
  using flush_waiting [of ds s] by (simp add: going_def units_but_def)

lemma close_unit_forest:
  assumes ok: "units_ok s" and u: "standing s u"
  shows "forest_of (close_unit me u st er e s) = cut_forest u (forest_of s)"
proof -
  obtain ds q where q: "close_locked me u st er e s = (ds, q)" by (cases "close_locked me u st er e s")
  have "going q ds"
    using close_locked_keeps [OF ok empty_subsetI _ waiting_nil, of u me st er e] u q
    by (simp add: standing_def going_def)
  then have "forest_of (close_unit me u st er e s) = forest_of q"
    using forest_same_units [OF flush_same_units] q by (simp add: close_unit_def)
  then show ?thesis using close_locked_forest [of "{}", OF _ u q] ok by (simp add: units_but_def)
qed

section \<open>What a close says\<close>

definition says :: "units \<Rightarrow> draft_id \<Rightarrow> limitation \<Rightarrow> bool" where
  "says s d m \<longleftrightarrow> m \<in> set (dr_limitations (us_draft s d))"

definition more_said :: "units \<Rightarrow> units \<Rightarrow> bool" where
  "more_said s t \<longleftrightarrow> (\<forall>d m. says s d m \<longrightarrow> says t d m)"

lemma more_said_refl [simp]: "more_said s s"
  by (simp add: more_said_def)

lemma more_said_trans: "more_said s r \<Longrightarrow> more_said r t \<Longrightarrow> more_said s t"
  by (simp add: more_said_def)

lemma more_said_count [simp]: "more_said s (count n t) = more_said s t"
  by (simp add: more_said_def says_def count_def)

lemma more_said_set_draft:
  "(\<And>x. set (dr_limitations x) \<subseteq> set (dr_limitations (f x))) \<Longrightarrow> more_said s (set_draft d f s)"
  by (auto simp: more_said_def says_def set_draft_def)

lemma add_limitation_says: "set (dr_limitations (add_limitation m x)) = insert m (set (dr_limitations x))"
  by (auto simp: add_limitation_def)

lemma force_close_says: "set (dr_limitations (force_close m e x)) = insert m (set (dr_limitations x))"
  by (simp add: force_close_def add_limitation_says)

lemma finalize_draft_says: "dr_limitations (finalize_draft x st er e d) = dr_limitations d"
  by (simp add: finalize_draft_def Let_def)

lemma more_said_note: "more_said s (note_marker m u s)"
  by (auto simp: note_marker_def add_limitation_says intro!: more_said_set_draft)

lemma more_said_finalize: "more_said s (finalize u st er e s)"
  by (auto simp: finalize_def Let_def finalize_draft_says intro!: more_said_set_draft)

lemma note_says: "is_live s u \<Longrightarrow> says (note_marker m u s) (un_draft (us_unit s u)) m"
  by (simp add: note_marker_def says_def set_draft_def add_limitation_says)

lemma collect_open_says:
  "more_said s (snd (collect_open x e es s)) \<and>
   (\<forall>d \<in> set (fst (collect_open x e es s)). says (snd (collect_open x e es s)) d CHILD_SPAN_UNCLOSED)"
proof (induction es arbitrary: s)
  case (Cons en es)
  let ?f = "set_draft (od_draft en) (force_close CHILD_SPAN_UNCLOSED e) s"
  have f: "more_said s ?f" "says ?f (od_draft en) CHILD_SPAN_UNCLOSED"
    by (rule more_said_set_draft) (auto simp: force_close_says says_def set_draft_def)
  have c: "more_said s (snd (collect_open x e es (count n s)))" for n
  proof (rule more_said_trans)
    show "more_said s (count n s)" by simp
    show "more_said (count n s) (snd (collect_open x e es (count n s)))" using Cons.IH by blast
  qed
  have c2: "\<forall>d \<in> set (fst (collect_open x e es (count n s))).
      says (snd (collect_open x e es (count n s))) d CHILD_SPAN_UNCLOSED" for n
    using Cons.IH by blast
  have "more_said s (snd (collect_open x e es ?f))" "says (snd (collect_open x e es ?f)) (od_draft en) CHILD_SPAN_UNCLOSED"
  proof -
    have m: "more_said ?f (snd (collect_open x e es ?f))" using Cons.IH by blast
    show "more_said s (snd (collect_open x e es ?f))" by (rule more_said_trans [OF f(1) m])
    show "says (snd (collect_open x e es ?f)) (od_draft en) CHILD_SPAN_UNCLOSED"
      using m f(2) unfolding more_said_def by blast
  qed
  moreover have "\<forall>d \<in> set (fst (collect_open x e es ?f)). says (snd (collect_open x e es ?f)) d CHILD_SPAN_UNCLOSED"
    using Cons.IH by blast
  ultimately show ?case using c c2
    by (simp only: collect_open.simps case_prod_beta fst_conv snd_conv list.set split: if_split) simp
qed simp

text \<open>Every unit below the one closed, and every span it had open, says it was closed from above.\<close>

definition said_open :: "units \<Rightarrow> units \<Rightarrow> unit_id \<Rightarrow> bool" where
  "said_open s t v \<longleftrightarrow> (\<forall>e \<in> set (un_open (us_unit s v)).
     \<not> superseded (us_unit s v) e \<and> \<not> faulty_in s (od_draft e) \<longrightarrow> says t (od_draft e) CHILD_SPAN_UNCLOSED)"

definition said_unit :: "units \<Rightarrow> units \<Rightarrow> unit_id \<Rightarrow> bool" where
  "said_unit s t v \<longleftrightarrow> says t (un_draft (us_unit s v)) CHILD_SPAN_UNCLOSED"

lemma said_more: "more_said t r \<Longrightarrow> said_open s t v \<Longrightarrow> said_open s r v"
  "more_said t r \<Longrightarrow> said_unit s t v \<Longrightarrow> said_unit s r v"
  by (auto simp: said_open_def said_unit_def more_said_def)

lemma said_same: "same_tables s s' \<Longrightarrow> said_open s' t v = said_open s t v"
  "same_tables s s' \<Longrightarrow> said_unit s' t v = said_unit s t v"
  by (simp_all add: said_open_def said_unit_def same_tables_unit same_tables_faulty)

lemma collect_says:
  "collect n u st er e s = (ds, dm, t) \<Longrightarrow>
     more_said s t \<and> (\<forall>v \<in> set (tl dm). said_unit s t v) \<and> (\<forall>v \<in> set dm. said_open s t v)"
proof (induction n arbitrary: u st er s ds dm t)
  case (Suc n)
  let ?step = "\<lambda>child (ds, doomed, s1).
     if \<not> is_live s1 child then (ds, doomed, count ''close_after_close'' s1)
     else (case collect n child S_UNSET None e (note_marker CHILD_SPAN_UNCLOSED child s1) of
             (ds2, doomed2, s2) \<Rightarrow> (ds @ ds2, doomed @ doomed2, s2))"
  have walk: "more_said s1 t1 \<and> same_tables s t1 \<and> (\<exists>dm'. dm1 = dm0 @ dm' \<and>
      (\<forall>v \<in> set dm'. said_unit s t1 v \<and> said_open s t1 v))"
    if "same_tables s s1" "fold ?step cs (ds0, dm0, s1) = (ds1, dm1, t1)" for cs ds0 dm0 s1 ds1 dm1 t1
    using that
  proof (induction cs arbitrary: ds0 dm0 s1)
    case (Cons c cs)
    show ?case
    proof (cases "is_live s1 c")
      case False
      have "same_tables s (count ''close_after_close'' s1)" using Cons.prems(1) by simp
      from Cons.IH [OF this] show ?thesis using Cons.prems(2) False
        by (simp add: more_said_def says_def count_def)
    next
      case True
      let ?n = "note_marker CHILD_SPAN_UNCLOSED c s1"
      have n: "same_tables s1 ?n" "more_said s1 ?n" "says ?n (un_draft (us_unit s1 c)) CHILD_SPAN_UNCLOSED"
        using same_tables_note_marker more_said_note note_says [OF True] by blast+
      have sn: "same_tables s ?n" using same_tables_trans [OF Cons.prems(1) n(1)] .
      obtain d2 dm2 s2 where c2: "collect n c S_UNSET None e ?n = (d2, dm2, s2)"
        by (cases "collect n c S_UNSET None e ?n")
      note ih = Suc.IH [OF c2]
      have reads: "dm2 = subtree n (us_unit ?n) c" "same_tables ?n s2"
        using collect_reads [of n c S_UNSET None e ?n] c2 by auto
      have s2: "same_tables s s2" using same_tables_trans [OF sn reads(2)] .
      have dm2: "\<forall>v \<in> set dm2. said_unit s s2 v \<and> said_open s s2 v"
      proof
        fix v assume v: "v \<in> set dm2"
        have "said_unit ?n s2 v"
        proof (cases n)
          case 0 then show ?thesis using v reads(1) by simp
        next
          case (Suc k)
          then have "v = c \<or> v \<in> set (tl dm2)" using v reads(1) by auto
          then show ?thesis
          proof
            assume "v = c"
            moreover have "us_unit ?n = us_unit s1" using same_tables_unit [OF n(1)] .
            ultimately show ?thesis using n(3) ih by (simp add: said_unit_def more_said_def)
          next
            assume "v \<in> set (tl dm2)"
            then show ?thesis using ih by blast
          qed
        qed
        then show "said_unit s s2 v \<and> said_open s s2 v"
          using ih v said_same [OF sn] by blast
      qed
      have "fold ?step cs (ds0 @ d2, dm0 @ dm2, s2) = (ds1, dm1, t1)"
        using Cons.prems(2) True c2 by simp
      from Cons.IH [OF s2 this] obtain dm' where dm': "more_said s2 t1" "same_tables s t1"
        "dm1 = (dm0 @ dm2) @ dm'" "\<forall>v \<in> set dm'. said_unit s t1 v \<and> said_open s t1 v" by blast
      have "\<forall>v \<in> set (dm2 @ dm'). said_unit s t1 v \<and> said_open s t1 v"
        using dm2 dm'(4) said_more [OF dm'(1)] by auto
      moreover have "more_said s1 t1" using more_said_trans [OF n(2)] more_said_trans dm'(1) ih by blast
      moreover have "dm1 = dm0 @ dm2 @ dm'" using dm'(3) by simp
      ultimately show ?thesis using dm'(2) by blast
    qed
  qed simp
  obtain d1 dm1 s1 where f: "fold ?step (un_children (us_unit s u)) ([], [u], s) = (d1, dm1, s1)"
    by (cases "fold ?step (un_children (us_unit s u)) ([], [u], s)")
  from walk [OF same_tables_refl f] obtain dm' where w: "more_said s s1" "same_tables s s1"
    "dm1 = [u] @ dm'" "\<forall>v \<in> set dm'. said_unit s s1 v \<and> said_open s s1 v" by blast
  obtain d2 s2 where o: "collect_open (us_unit s1 u) e (un_open (us_unit s1 u)) s1 = (d2, s2)"
    by (cases "collect_open (us_unit s1 u) e (un_open (us_unit s1 u)) s1")
  have m2: "more_said s1 s2" "\<forall>d \<in> set d2. says s2 d CHILD_SPAN_UNCLOSED"
    using collect_open_says [of s1 "us_unit s1 u" e "un_open (us_unit s1 u)"] o by simp_all
  have u_open: "said_open s s2 u"
    unfolding said_open_def
  proof (intro ballI impI)
    fix en assume en: "en \<in> set (un_open (us_unit s u))"
      "\<not> superseded (us_unit s u) en \<and> \<not> faulty_in s (od_draft en)"
    have "od_draft en \<in> set d2"
      using collect_open_drafts [of "us_unit s1 u" e "un_open (us_unit s1 u)" s1] o en
        same_tables_unit [OF w(2)] same_tables_faulty [OF w(2)] by simp
    then show "says s2 (od_draft en) CHILD_SPAN_UNCLOSED" using m2(2) by blast
  qed
  have fin: "dm = dm1 \<and> (t = count ''close_finalize'' s2 \<or> t = finalize u st er e s2)"
    using Suc.prems f o by (auto split: if_splits)
  then have m3: "more_said s2 t" using more_said_finalize by auto
  have "\<forall>v \<in> set dm'. said_unit s t v \<and> said_open s t v"
    using w(4) said_more more_said_trans [OF m2(1) m3] by blast
  moreover have "said_open s t u" using said_more(1) [OF m3 u_open] .
  moreover have "more_said s t" using more_said_trans w(1) m2(1) m3 by blast
  ultimately show ?case using w(3) fin by auto
qed simp

section \<open>The registry refines the forest\<close>

definition same_shape :: "units \<Rightarrow> units \<Rightarrow> bool" where
  "same_shape s t \<longleftrightarrow> same_limits s t \<and> us_live t = us_live s \<and> us_roots t = us_roots s \<and>
     (\<forall>v. standing t v = standing s v) \<and> (\<forall>v. standing s v \<longrightarrow> un_children (us_unit t v) = un_children (us_unit s v))"

lemma shape_trans: "same_shape s r \<Longrightarrow> same_shape r t \<Longrightarrow> same_shape s t"
  by (simp add: same_shape_def same_limits_def)

lemma shape_forest: "same_shape s t \<Longrightarrow> forest_of t = forest_of s"
  by (auto simp: same_shape_def same_limits_def forest_of_def kids_def)

lemma shape_limits: "same_shape s t \<Longrightarrow> same_limits s t"
  by (simp add: same_shape_def)

lemma shape_refl [simp]: "same_shape s s"
  by (simp add: same_shape_def same_limits_def)

lemma shape_count [simp]: "same_shape s (count n t) = same_shape s t"
  by (simp add: same_shape_def same_limits_def count_def standing_def own_def is_live_def)

lemma shape_tables: "same_tables s t \<Longrightarrow> same_shape s t"
  by (simp add: same_shape_def same_limits_def same_tables_standing) (simp add: same_tables_def)

lemma shape_units: "same_units s t \<Longrightarrow> same_shape s t"
  by (simp add: same_shape_def same_limits_def same_units_standing) (simp add: same_units_def)

lemma shape_set_unit:
  assumes "\<And>x. un_live (f x) = un_live x" "\<And>x. un_registry (f x) = un_registry x"
    "\<And>x. un_children (f x) = un_children x"
  shows "same_shape s (set_unit u f s)"
  using assms by (simp add: same_shape_def same_limits_def set_unit_def standing_def own_def is_live_def)

lemma shape_set_draft: "same_shape s (set_draft d f s)"
  by (simp add: same_shape_def same_limits_def set_draft_def standing_def own_def is_live_def)

lemma shape_flush: "same_shape s (flush_drafts ds s)"
proof (induction ds s rule: flush_drafts.induct)
  case (2 d ds s)
  have "same_shape s (if dr_emitted (us_draft s d) then count ''emit_duplicate'' s
      else (set_draft d (\<lambda>x. x\<lparr>dr_emitted := True\<rparr>) s)\<lparr>us_emitted := us_emitted s @ [d]\<rparr>)"
    by (simp add: same_shape_def same_limits_def count_def set_draft_def standing_def own_def is_live_def)
  from shape_trans [OF this 2] show ?case by (simp only: flush_drafts.simps)
qed simp

lemma shape_close_span: "same_shape s (close_span u d st err e s)"
proof (cases "find (\<lambda>e. od_draft e = d) (un_open (us_unit s u))")
  case (Some entry)
  have "same_shape s (set_unit u (\<lambda>x. x\<lparr>un_open := remove1 entry (un_open x)\<rparr>) s)" (is "same_shape s ?r")
    by (rule shape_set_unit) simp_all
  moreover have "same_shape ?r (flush_drafts ds (set_draft d f ?r))" for ds f
    using shape_trans [OF shape_set_draft shape_flush] .
  ultimately show ?thesis
    using shape_trans [of s ?r] by (simp add: close_span_def Some Let_def del: flush_drafts.simps)
qed (simp add: close_span_def)

lemma shape_open_span: "same_shape s (snd (open_span u ev key now fresh fsp faulty s))"
proof -
  obtain d s1 where d: "alloc_draft (new_draft fsp (child_edge s u fresh ev None) faulty) s = (d, s1)"
    by (cases "alloc_draft (new_draft fsp (child_edge s u fresh ev None) faulty) s")
  have s1: "same_shape s s1"
    using d by (auto simp: alloc_draft_def same_shape_def same_limits_def standing_def own_def is_live_def)
  have edit: "same_shape s (set_unit u (\<lambda>x. x\<lparr>un_open := es\<rparr>) r)" if "same_shape s r" for es r
    by (rule shape_trans [OF that]) (rule shape_set_unit; simp)
  have ship: "same_shape s (flush_drafts ds (set_draft x f r))" if "same_shape s r" for ds x f r
    using shape_trans [OF that shape_trans [OF shape_set_draft shape_flush]] .
  show ?thesis
    unfolding open_span_def d prod.case Let_def
    by (auto simp: s1 split: prod.splits option.splits simp del: flush_drafts.simps intro!: edit ship)
qed

lemma shape_claim: "same_shape s (snd (claim u key rank s))"
proof -
  have "same_shape s (set_unit u (\<lambda>x. x\<lparr>un_claims := c x\<rparr>) r)" if "same_shape s r" for c r
    by (rule shape_trans [OF that]) (rule shape_set_unit; simp)
  then show ?thesis by (simp add: claim_def split: option.splits prod.splits)
qed

lemma shape_record: "same_shape s (record_input u data s)" "same_shape s (record_output u data s)"
  unfolding record_input_def record_output_def
  by (rule shape_set_unit; simp split: prod.splits)+

lemma shape_forest_rel: "same_forest s t \<Longrightarrow> same_shape s t"
  by (simp add: same_shape_def same_limits_def same_forest_standing) (simp add: same_forest_def)

lemma shape_bind_alias:
  assumes "units_ok s" "own s u" shows "same_shape s (bind_alias u key remember s)"
proof (cases "is_live s u")
  case True
  then have "standing s u" using assms(2) by (simp add: standing_def)
  then have b: "same_shape s (bind_alias_locked key u False s)"
    using bind_alias_going [of s "[]" u key False] assms(1) shape_forest_rel by simp
  have "same_shape s (set_unit u (\<lambda>x. x\<lparr>un_remembered := m x\<rparr>) (bind_alias_locked key u False s))" for m
    by (rule shape_trans [OF b]) (rule shape_set_unit; simp)
  then show ?thesis using b by (simp add: bind_alias_def Let_def)
qed (simp add: bind_alias_def)

lemma shape_alias_to: "units_ok s \<Longrightarrow> same_shape s (alias_to key new s)"
  using bind_alias_going [of s "[]"] alias_names_standing shape_forest_rel
  by (auto simp: alias_to_def split: option.splits)

lemma shape_both: "same_shape s t \<Longrightarrow> grows s t \<and> same_limits s t"
  using shape_forest by (simp add: shape_limits)

lemma limits_close: "units_ok s \<Longrightarrow> own s u \<Longrightarrow> same_limits s (close_unit me u st er e s)"
proof -
  assume ok: "units_ok s" and u: "own s u"
  obtain ds t where t: "close_locked me u st er e s = (ds, t)" by (cases "close_locked me u st er e s")
  have "going t ([] @ ds) \<and> steady s t"
    using close_locked_room [of "{}" s "[]" u me st er e ds t] ok u t by simp
  then show ?thesis
    using limits_trans [OF limits_steady limits_units [OF flush_same_units, of t ds]] t by (simp add: close_unit_def)
qed

text \<open>A step of the registry is a run of the forest.\<close>

theorem step_grows: "unit_step s t \<Longrightarrow> units_ok s \<Longrightarrow> grows s t \<and> same_limits s t"
proof (induction rule: unit_step.induct)
  case (step_open op s me here now fresh fsp u here' t)
  then show ?case using open_keeps by blast
next
  case (step_close s u me st er e)
  show ?case
  proof (cases "is_live s u")
    case True
    then have u: "standing s u" using step_close.hyps by (simp add: standing_def)
    then have "u \<in> fo_nodes (forest_of s)"
      using live_standing [of s u] step_close.prems by (simp add: units_but_def forest_of_def)
    then show ?thesis
      using close_unit_forest [OF step_close.prems u, of me st er e] forest_step.cutting
        limits_close [OF step_close.prems step_close.hyps] by (metis r_into_rtranclp)
  next
    case False
    have "same_shape s (close_unit me u st er e s)" by (simp add: close_unit_def close_locked_dead [OF False])
    then show ?thesis using shape_both by blast
  qed
next
  case (step_close_all s me owned reason owner e)
  then show ?case using close_all_keeps by blast
next
  case (step_open_span s u ev key now fresh fsp faulty d t)
  then show ?case using shape_both [OF shape_open_span] by (metis snd_conv)
next
  case (step_close_span s u d st er e)
  then show ?case using shape_both [OF shape_close_span] by blast
next
  case (step_claim s u key rank won t)
  then show ?case using shape_both [OF shape_claim] by (metis snd_conv)
next
  case (step_note s u m)
  then show ?case using shape_both [OF shape_tables [OF same_tables_note_marker]] by blast
next
  case (step_record_input s u data)
  then show ?case using shape_both [OF shape_record(1)] by blast
next
  case (step_record_output s u data)
  then show ?case using shape_both [OF shape_record(2)] by blast
next
  case (step_alias s key new)
  then show ?case using shape_both [OF shape_alias_to] by blast
next
  case (step_bind_alias s u key remember)
  then show ?case using shape_both [OF shape_bind_alias] by blast
next
  case (step_find key s found t)
  then show ?case by (simp add: find_unit_pure same_limits_def)
next
  case (step_recall key amb holder s found t)
  then show ?case using shape_both [OF shape_tables [OF same_tables_recall]] by blast
next
  case (step_current me here s found here' t)
  then show ?case using shape_both [OF shape_tables [OF same_tables_current]] by blast
next
  case (step_resolve me here key amb fresh s p here' t)
  then show ?case using shape_both [OF shape_tables [OF same_tables_resolve]] by blast
next
  case (step_pin s u me o' here tok here' t)
  then show ?case using shape_both [OF shape_tables [OF same_tables_pin]] by blast
next
  case (step_unpin me tok here s tok' here' t)
  then show ?case using shape_both [OF shape_tables [OF same_tables_unpin]] by blast
next
  case (step_foreign_open x s)
  then have "same_shape s (s\<lparr>us_unit := (us_unit s)(us_next_unit s := x), us_next_unit := us_next_unit s + 1\<rparr>)"
    by (auto simp: same_shape_def same_limits_def standing_def own_def is_live_def)
  then show ?case using shape_both by blast
next
  case (step_foreign_close s v)
  then have "same_shape s (set_unit v (\<lambda>x. x\<lparr>un_live := False\<rparr>) s)"
    by (auto simp: same_shape_def same_limits_def standing_def own_def is_live_def set_unit_def)
  then show ?case using shape_both by blast
qed

lemma reach_grows: "unit_reach s0 s \<Longrightarrow> units_ok s0 \<Longrightarrow> grows s0 s \<and> same_limits s0 s"
proof (induction rule: unit_reach.induct)
  case (reach_step s t)
  then show ?case using step_grows reach_ok grows_trans limits_trans by blast
qed (simp add: same_limits_def)

lemma new_units_forest: "forest_of (new_units self m e l r u0 d0) = \<lparr>fo_nodes = {}, fo_edges = {}, fo_roots = {}\<rparr>"
  by (simp add: forest_of_def kids_def new_units_def standing_def own_def)

lemma reach_forest_ok:
  assumes "unit_reach (new_units self m e l r u0 d0) s" "1 \<le> m" "1 \<le> e"
  shows "forest_ok (forest_of s)"
proof (rule forest_step_ok [OF conjunct1 [OF reach_grows [OF assms(1)]]])
  show "units_ok (new_units self m e l r u0 d0)" using assms(2,3) new_units_ok by blast
  show "forest_ok (forest_of (new_units self m e l r u0 d0))" by (simp add: new_units_forest forest_ok_def single_valued_def)
qed

end
