(* ===== verification/Units_Claims.thy ===== *)
theory Units_Claims
  imports Units_Life
begin

text \<open>
  What the unit registry of \<open>Units\<close> promises to its callers, on every state its operations
  can reach. The states \<open>demo_\<close> are a session with a call under it, for the witnesses.
\<close>

definition demo_args :: "unit_kind \<Rightarrow> string \<Rightarrow> unit_id option \<Rightarrow> open_args" where
  "demo_args kind name parent =
     \<lparr>op_kind = kind, op_key = \<lparr>uk_namespace = str_lit ''demo'', uk_value = str_lit name\<rparr>,
      op_ambient = EMPTY_AMBIENT, op_evidence = None, op_parent = parent, op_aliases = [],
      op_owner = None, op_conversation = None, op_carries_loss = False, op_faulty = False\<rparr>"

definition demo_new :: units where
  "demo_new = new_units 0 2 2 4 100
     (\<lambda>_. new_unit (demo_args SESSION ''none'' None) 0 0 (resolve_parentage [0] EMPTY_AMBIENT AMBIENT) None None)
     (\<lambda>_. new_draft [0] (resolve_parentage [0] EMPTY_AMBIENT AMBIENT) False)"

definition demo_one :: units where
  "demo_one = snd (snd (open_unit 0 None 1 [1] [2] (demo_args SESSION ''a'' None) demo_new))"

definition demo_two :: units where
  "demo_two = snd (snd (open_unit 0 None 1 [1] [3] (demo_args CALL ''b'' (Some 0)) demo_one))"

lemma step_opened:
  "parent_known op s \<Longrightarrow> unit_step s (snd (snd (open_unit me here now fresh fsp op s)))"
  using step_open [of op s me here now fresh fsp] by (metis prod.collapse)

lemma demo_one_step: "unit_step demo_new demo_one"
  unfolding demo_one_def by (rule step_opened) (simp add: parent_known_def demo_args_def)

lemma demo_new_ok: "units_ok demo_new"
  unfolding demo_new_def by (rule new_units_ok) simp_all

lemma demo_one_next: "us_next_unit demo_one = 1"
  by code_simp

lemma demo_two_step: "unit_step demo_one demo_two"
  unfolding demo_two_def by (rule step_opened) (simp add: parent_known_def demo_args_def demo_one_next)

lemma demo_two_next: "us_next_unit demo_two = 2"
  by code_simp

lemma demo_two_live: "us_live demo_two = [0, 1]"
  by code_simp

lemma demo_two_reached: "unit_reach demo_new demo_two"
  using reach_step [OF reach_step [OF reach_here demo_one_step] demo_two_step] .

lemma demo_two_ok: "units_ok demo_two"
  using reach_ok [OF demo_two_reached demo_new_ok] .

lemma demo_two_standing: "standing demo_two 0" "standing demo_two 1"
  using live_standing [of demo_two] demo_two_ok demo_two_live by (auto simp: units_but_def)

lemma demo_two_reach: "unit_reach (new_units 0 2 2 4 100
     (\<lambda>_. new_unit (demo_args SESSION ''none'' None) 0 0 (resolve_parentage [0] EMPTY_AMBIENT AMBIENT) None None)
     (\<lambda>_. new_draft [0] (resolve_parentage [0] EMPTY_AMBIENT AMBIENT) False)) demo_two"
  using demo_two_reached by (simp only: demo_new_def)

section \<open>The tables\<close>

text \<open>C9: within the process that made it, the unit registry is a forest. Every operation of
  \<open>unit_step\<close>, the evictions that make room included, is a run of the specification (a unit is cut
  with everything that hangs off it, or a new unit is grafted onto a standing one or as a root), so
  on every state these operations lead to each standing unit has one way up, and it ends at a root.
  The reset in a fork child, \<open>units_at_fork_reinit\<close>, is not one of them: it empties the tables while
  the host may still hold a unit of the parent, and \<open>fork_orphan_takes_children\<close> shows that such a
  unit takes children that then hang off no root.\<close>

theorem registry_refines_forest:
  assumes "unit_reach (new_units self m e l r u0 d0) s" "1 \<le> m" "1 \<le> e" "unit_step s t"
  shows "forest_step\<^sup>*\<^sup>* (forest_of s) (forest_of t) \<and> forest_ok (forest_of s) \<and> forest_ok (forest_of t)"
proof -
  have ok: "units_ok s" using reach_ok [OF assms(1)] new_units_ok assms(2,3) by blast
  have g: "grows s t" using step_grows [OF assms(4) ok] by blast
  have f: "forest_ok (forest_of s)" using reach_forest_ok [OF assms(1-3)] .
  then show ?thesis using g forest_step_ok [OF g] by simp
qed

theorem registry_refines_forest_witness:
  "forest_step\<^sup>*\<^sup>* (forest_of demo_two) (forest_of (close_unit 0 1 S_OK None 5 demo_two))"
proof -
  have "own demo_two 1" using demo_two_standing by (simp add: standing_def)
  from registry_refines_forest [OF demo_two_reach _ _ step_close [OF this]] show ?thesis by simp
qed

text \<open>Nothing in the registry outgrows its bound. On every state a registry can reach
  there are at most \<open>max_units\<close> roots and \<open>max_units * max_entries\<close> units in all, the link
  memory is within its own bound, and no unit has more children, aliases, claims or open
  spans than \<open>max_entries\<close>; a closed unit has no open span.\<close>

theorem registry_within_bounds:
  assumes "unit_reach (new_units self m e l r u0 d0) s" "1 \<le> m" "1 \<le> e"
  shows "length (us_roots s) \<le> m \<and> length (us_live s) \<le> m * e \<and> length (us_link_memory s) \<le> l \<and>
    (own s u \<longrightarrow> length (un_children (us_unit s u)) \<le> e \<and> length (un_alias_keys (us_unit s u)) \<le> e \<and>
       length (un_claims (us_unit s u)) \<le> e \<and>
       length (un_open (us_unit s u)) \<le> (if is_live s u then e else 0))"
proof -
  have new: "units_ok (new_units self m e l r u0 d0)" using new_units_ok assms(2,3) by blast
  have "bounds_ok s" using reach_ok [OF assms(1) new] by (simp add: units_but_def)
  moreover have "same_limits (new_units self m e l r u0 d0) s" using reach_grows [OF assms(1) new] by blast
  ultimately show ?thesis
    by (cases "un_live (us_unit s u)") (auto simp: bounds_ok_def same_limits_def new_units_def is_live_def)
qed

theorem registry_within_bounds_witness: "length (us_roots demo_two) \<le> 2 \<and> length (us_live demo_two) \<le> 4"
  using registry_within_bounds [OF demo_two_reach, of 0] by simp

text \<open>C25: a span ships once. On every state a registry can reach no span was handed to the
  sink twice, and a span that a standing unit still holds, its own or an open one, was not
  handed over and is held by that unit only.\<close>

theorem every_span_ships_once:
  assumes "unit_reach (new_units self m e l r u0 d0) s" "1 \<le> m" "1 \<le> e"
  shows "distinct (us_emitted s) \<and>
    (standing s u \<and> d \<in> set (holdings (us_unit s u)) \<longrightarrow>
       d \<notin> set (us_emitted s) \<and> \<not> dr_emitted (us_draft s d) \<and>
       (standing s v \<and> d \<in> set (holdings (us_unit s v)) \<longrightarrow> v = u))"
proof -
  have dr: "drafts_ok s"
    using reach_ok [OF assms(1)] new_units_ok assms(2,3) by (simp add: units_but_def)
  then have "d \<notin> set (us_emitted s) \<and> \<not> dr_emitted (us_draft s d)"
    if "standing s u" "d \<in> set (holdings (us_unit s u))"
    using held_fresh [OF dr that] by (simp add: drafts_ok_def)
  moreover have "v = u" if "standing s u" "d \<in> set (holdings (us_unit s u))" "standing s v" "d \<in> set (holdings (us_unit s v))"
    using spans_held_apart [OF dr that(1,3)] that(2,4) by blast
  moreover have "distinct (us_emitted s)" using dr by (simp add: drafts_ok_def)
  ultimately show ?thesis by blast
qed

theorem every_span_ships_once_witness:
  "un_draft (us_unit demo_two 1) \<notin> set (us_emitted demo_two) \<and> \<not> dr_emitted (us_draft demo_two (un_draft (us_unit demo_two 1)))"
  using every_span_ships_once [OF demo_two_reach, where u = 1 and d = "un_draft (us_unit demo_two 1)"] demo_two_standing
  by (simp add: holdings_def)

text \<open>C30: an alias never leads to a closed unit. On every state a registry can reach
  \<open>find\<close> is a plain lookup that changes nothing, what it returns is a standing unit, and that
  unit lists the key as one of its own.\<close>

theorem alias_leads_to_standing_unit:
  assumes "unit_reach (new_units self m e l r u0 d0) s" "1 \<le> m" "1 \<le> e"
  shows "find_unit key s = (map_of (us_by_alias s) key, s) \<and>
    (case map_of (us_by_alias s) key of None \<Rightarrow> True
     | Some u \<Rightarrow> u \<in> set (us_live s) \<and> is_live s u \<and> key \<in> set (un_alias_keys (us_unit s u)))"
proof -
  have ok: "units_ok s" using reach_ok [OF assms(1)] new_units_ok assms(2,3) by blast
  have "u \<in> set (us_live s) \<and> is_live s u \<and> key \<in> set (un_alias_keys (us_unit s u))"
    if "map_of (us_by_alias s) key = Some u" for u
    using ok that live_standing [of s u] by (simp add: units_but_def alias_ok_def standing_def)
  then show ?thesis by (simp add: find_unit_pure [OF ok] split: option.splits)
qed

theorem alias_leads_to_standing_unit_witness:
  "find_unit (op_key (demo_args CALL ''b'' (Some 0))) demo_two = (Some 1, demo_two)"
proof -
  have "map_of (us_by_alias demo_two) (op_key (demo_args CALL ''b'' (Some 0))) = Some 1" by code_simp
  with alias_leads_to_standing_unit [OF demo_two_reach, where key = "op_key (demo_args CALL ''b'' (Some 0))"]
  show ?thesis by simp
qed

section \<open>Closing\<close>

text \<open>C18: a close ships what the subtree owes and nothing else, once, the unit's own span
  last. What it owes is, for the unit and everything under it, the spans still open that lost
  no claim, and the unit's own span; a span whose building fails costs itself alone.\<close>

theorem close_ships_what_it_owes:
  assumes "unit_reach (new_units self m e l r u0 d0) s" "1 \<le> m" "1 \<le> e" "standing s u"
  shows "\<exists>ds. us_emitted (close_unit me u st er en s) = us_emitted s @ ds \<and> distinct ds \<and>
    set ds = (\<Union>v \<in> under s u. set (own_spans (us_unit s) (\<lambda>d. dr_faulty (us_draft s d)) v)) \<and>
    (dr_faulty (us_draft s (un_draft (us_unit s u))) \<or> (ds \<noteq> [] \<and> last ds = un_draft (us_unit s u)))"
proof -
  have ok: "units_ok s" using reach_ok [OF assms(1)] new_units_ok assms(2,3) by blast
  then have tree: "tree_ok s" and dr: "drafts_ok s" by (simp_all add: units_but_def)
  let ?f = "\<lambda>d. dr_faulty (us_draft s d)"
  have ff: "faulty_in s = ?f" by (simp add: faulty_in_def fun_eq_iff)
  obtain n where n: "us_next_unit s = Suc n" using standing_next [OF assms(4)] by (cases "us_next_unit s") auto
  let ?o = "owed (us_next_unit s) (us_unit s) ?f u"
  obtain r q where r: "same_tables s r" "torn (under s u) r q"
    "close_unit me u st er en s = flush_drafts ?o q" "going q ?o"
    using close_unit_effect [OF ok assms(4), of me st er en] unfolding ff by blast
  have "us_emitted (close_unit me u st er en s) = us_emitted s @ ?o"
    using flush_emits [OF r(4)] r(1,2,3) by (simp add: torn_def same_tables_def)
  moreover have "distinct ?o" using owed_distinct [OF tree dr assms(4)] by simp
  moreover have "set ?o = (\<Union>v \<in> under s u. set (own_spans (us_unit s) ?f v))"
    using owed_from_under [OF tree assms(4)] by simp
  moreover have "?f (un_draft (us_unit s u)) \<or> (?o \<noteq> [] \<and> last ?o = un_draft (us_unit s u))"
    by (simp add: n own_spans_def)
  ultimately show ?thesis by blast
qed

theorem close_ships_what_it_owes_witness:
  "\<exists>ds. us_emitted (close_unit 0 0 S_OK None 5 demo_two) = us_emitted demo_two @ ds \<and> distinct ds \<and>
    last ds = un_draft (us_unit demo_two 0)"
proof -
  have "dr_faulty (us_draft demo_two (un_draft (us_unit demo_two 0))) = False" by code_simp
  with close_ships_what_it_owes [OF demo_two_reach _ _ demo_two_standing(1), where me = 0 and st = S_OK and er = None and en = 5]
  show ?thesis by auto
qed

text \<open>A teardown says so on everything it closes from above. After a close, the own span
  of every unit under the one closed, and every span that was still open there and lost no
  claim, carries \<open>CHILD_SPAN_UNCLOSED\<close>; and no span lost a marker it had.\<close>

theorem teardown_marks_what_it_closes:
  assumes "unit_reach (new_units self m e l r u0 d0) s" "1 \<le> m" "1 \<le> e" "standing s u" "v \<in> under s u"
    and t: "t = close_unit me u st er en s"
  shows "(v = u \<or> CHILD_SPAN_UNCLOSED \<in> set (dr_limitations (us_draft t (un_draft (us_unit s v))))) \<and>
    (\<forall>x \<in> set (un_open (us_unit s v)). \<not> superseded (us_unit s v) x \<and> \<not> dr_faulty (us_draft s (od_draft x)) \<longrightarrow>
       CHILD_SPAN_UNCLOSED \<in> set (dr_limitations (us_draft t (od_draft x)))) \<and>
    set (dr_limitations (us_draft s d)) \<subseteq> set (dr_limitations (us_draft t d))"
proof -
  have ok: "units_ok s" using reach_ok [OF assms(1)] new_units_ok assms(2,3) by blast
  then have tree: "tree_ok s" by (simp add: units_but_def)
  obtain n where n: "us_next_unit s = Suc n" using standing_next [OF assms(4)] by (cases "us_next_unit s") auto
  obtain ds dm c where c: "collect (us_next_unit s) u st er en s = (ds, dm, c)"
    by (cases "collect (us_next_unit s) u st er en s")
  have reads: "dm = subtree (us_next_unit s) (us_unit s) u" "same_tables s c"
    using collect_reads [of "us_next_unit s" u st er en s] c by auto
  have dm: "set dm = under s u" using subtree_is_under [OF tree assms(4)] reads(1) by simp
  have hd: "dm = u # tl dm" using reads(1) n by simp
  note says = collect_says [OF c]
  let ?q = "fold (detach me) dm c"
  have cl: "close_locked me u st er en s = (ds, ?q)"
    using c standing_live [OF assms(4)] by (simp add: close_locked_def is_live_def)
  have g: "going ?q ds"
    using close_locked_keeps [OF ok empty_subsetI _ waiting_nil, of u me st er en] assms(4) cl
    by (simp add: standing_def going_def)
  have "torn (set dm) c ?q"
    using torn_fold [of c dm me] reads(2) tree by (simp add: same_tables_def tree_but_def)
  then have "us_draft ?q = us_draft c" by (simp add: torn_def)
  moreover have "dr_limitations (us_draft (flush_drafts ds ?q) d) = dr_limitations (us_draft ?q d)" for d
    using flush_waiting [of ds ?q] g by (simp add: going_def units_but_def)
  ultimately have lim: "says t d x = says c d x" for d x
    by (simp add: t close_unit_def cl says_def)
  have "v = u \<or> says t (un_draft (us_unit s v)) CHILD_SPAN_UNCLOSED"
    using says assms(5) dm hd lim by (metis said_unit_def set_ConsD)
  moreover have "said_open s t v" using says assms(5) dm lim by (simp add: said_open_def)
  moreover have "more_said s t" using says lim by (simp add: more_said_def)
  ultimately show ?thesis
    by (auto simp: says_def said_open_def more_said_def faulty_in_def)
qed

theorem teardown_marks_what_it_closes_witness:
  "CHILD_SPAN_UNCLOSED \<in> set (dr_limitations (us_draft (close_unit 0 0 S_OK None 5 demo_two) (un_draft (us_unit demo_two 1))))"
proof -
  have "un_children (us_unit demo_two 0) = [1]" by code_simp
  then have "1 \<in> under demo_two 0"
    using under_down [OF under_self, of 0 1 demo_two] demo_two_standing by (simp add: kids_def)
  from teardown_marks_what_it_closes [OF demo_two_reach _ _ demo_two_standing(1) this refl]
  show ?thesis by auto
qed

text \<open>Opening a unit returns a standing one. Whatever had to be evicted to make room, the
  new unit has the next free number, is registered, and hangs off a root.\<close>

theorem open_returns_a_standing_unit:
  assumes "unit_reach (new_units self m e l r u0 d0) s" "1 \<le> m" "1 \<le> e" "parent_known op s"
    "open_unit me here now fresh fsp op s = (u, here', t)"
  shows "u = us_next_unit s \<and> u \<in> set (us_live t) \<and> is_live t u \<and> (\<exists>root \<in> set (us_roots t). u \<in> under t root)"
proof -
  have ok: "units_ok s" using reach_ok [OF assms(1)] new_units_ok assms(2,3) by blast
  note o = open_keeps [OF ok assms(4,5)]
  then have tree: "tree_ok t" and st: "standing t u" using units_but_def by blast+
  then show ?thesis using o under_root [OF tree st] live_standing [OF tree] by (simp add: standing_def)
qed

theorem open_returns_a_standing_unit_witness:
  "is_live (snd (snd (open_unit 0 None 1 [1] [4] (demo_args CALL ''c'' (Some 1)) demo_two))) 2"
proof -
  have p: "parent_known (demo_args CALL ''c'' (Some 1)) demo_two"
    by (simp add: parent_known_def demo_args_def demo_two_next)
  obtain u h t where o: "open_unit 0 None 1 [1] [4] (demo_args CALL ''c'' (Some 1)) demo_two = (u, h, t)"
    by (cases "open_unit 0 None 1 [1] [4] (demo_args CALL ''c'' (Some 1)) demo_two")
  from open_returns_a_standing_unit [OF demo_two_reach _ _ p o] have "u = 2 \<and> is_live t u" using demo_two_next by auto
  then show ?thesis unfolding o by auto
qed

section \<open>Finding a parent\<close>

definition edge_from :: "units \<Rightarrow> ambient \<Rightarrow> parentage \<Rightarrow> bool" where
  "edge_from s amb p \<longleftrightarrow>
     pa_parent_span_id p = None \<or>
     pa_parent_span_id p = map_option sc_span_id (am_span_context amb) \<or>
     (\<exists>u \<in> set (us_live s). pa_parent_span_id p = Some (sc_span_id (unit_context s u)) \<and>
        pa_trace_id p = sc_trace_id (unit_context s u))"

lemma same_tables_context: "same_tables s t \<Longrightarrow> unit_context t u = unit_context s u"
  by (simp add: same_tables_def unit_context_def)

lemma sole_live_listed: "sole_live s kind owner = Some u \<Longrightarrow> u \<in> set (us_live s)"
proof -
  assume "sole_live s kind owner = Some u"
  then have "filter (\<lambda>u. un_kind (us_unit s u) = kind \<and> (owner = None \<or> un_owner (us_unit s u) = owner)) (us_live s) = [u]"
    by (auto simp: sole_live_def split: list.splits)
  then have "u \<in> set (filter (\<lambda>u. un_kind (us_unit s u) = kind \<and> (owner = None \<or> un_owner (us_unit s u) = owner)) (us_live s))"
    by simp
  then show ?thesis by simp
qed

lemma edge_from_child: "u \<in> set (us_live s) \<Longrightarrow> edge_from s amb (child_edge s u fresh e c)"
  by (auto simp: edge_from_def child_edge_def)

lemma edge_from_ambient: "edge_from s amb (resolve_parentage fresh amb e)"
  by (cases "am_span_context amb") (simp_all add: edge_from_def resolve_parentage_def Let_def)

lemma edge_from_nothing: "edge_from s amb (resolve_parentage fresh EMPTY_AMBIENT e)"
  by (simp add: edge_from_def resolve_parentage_def EMPTY_AMBIENT_def Let_def)

lemma edge_from_marked [simp]: "edge_from s amb (with_limitation p m) = edge_from s amb p"
  by (simp add: edge_from_def)

lemmas edge_froms = edge_from_child edge_from_ambient edge_from_nothing

lemma forgotten_edge_from:
  "(\<And>u. sole = Some u \<Longrightarrow> u \<in> set (us_live s)) \<Longrightarrow> edge_from s amb (forgotten_edge s sole amb hint owner fresh)"
  by (auto simp: forgotten_edge_def Let_def edge_froms split: option.splits)

lemma edge_from_same: "same_tables s t \<Longrightarrow> edge_from t amb p = edge_from s amb p"
  by (simp add: edge_from_def same_tables_context) (simp add: same_tables_def)

lemma edge_honest:
  assumes ok: "units_ok s" and e: "edge key amb fresh s = (p, t)"
  shows "edge_from s amb p"
proof -
  define found where "found = (case key of None \<Rightarrow> None | Some k \<Rightarrow> map_of (us_by_alias s) k)"
  have f: "(case key of None \<Rightarrow> (None, s) | Some k \<Rightarrow> find_unit k s) = (found, s)"
    by (simp add: found_def find_unit_pure [OF ok] split: option.splits)
  have fl: "u \<in> set (us_live s)" if "found = Some u" for u
    using that ok alias_names_standing [OF ok] live_standing [of s u]
    by (auto simp: found_def units_but_def split: option.splits)
  obtain r q where rq: "(case key of None \<Rightarrow> (None, s) | Some k \<Rightarrow> recall k (Some amb) None s) = (r, q)"
    by (cases "case key of None \<Rightarrow> (None, s) | Some k \<Rightarrow> recall k (Some amb) None s")
  have q: "same_tables s q" using rq same_tables_recall by (cases key) auto
  have kid: "edge_from s amb (child_edge q u fresh ev c)" if "u \<in> set (us_live q)" for u ev c
    using edge_from_child [OF that] edge_from_same [OF q] by simp
  have forgot: "edge_from s amb (forgotten_edge q (sole_live q SESSION None) amb h owner fresh)" for h owner
    using forgotten_edge_from [of "sole_live q SESSION None" q] sole_live_listed [of q SESSION None] edge_from_same [OF q] by simp
  show ?thesis
    using e kid forgot edge_from_child [OF fl] sole_live_listed [of q SESSION None]
    unfolding edge_def f prod.case Let_def rq
    by (auto simp: edge_from_ambient edge_from_nothing split: option.splits if_splits)
qed

text \<open>A resolved edge names a parent that can have children. On every state a registry can
  reach, the parent of the edge is none, or the caller's own scope, or the span of a standing
  unit. When the caller's scope is the leftover of a closed unit it is refused: the edge
  carries the marker that says so, and its parent is none or a standing unit.\<close>

theorem resolved_parent_can_have_children:
  assumes "unit_reach (new_units self m e l r u0 d0) s" "1 \<le> m" "1 \<le> e"
    "resolve me here key amb fresh s = (p, here', t)"
  shows "edge_from s amb p \<and>
    (fst (poisoned me here amb s) \<longrightarrow>
       edge_from s EMPTY_AMBIENT p \<and> refused_ambient_marker here' t \<in> set (pa_limitations p))"
proof -
  have ok: "units_ok s" using reach_ok [OF assms(1)] new_units_ok assms(2,3) by blast
  obtain b h1 s1 where b: "poisoned me here amb s = (b, h1, s1)" by (cases "poisoned me here amb s")
  have s1: "same_tables s s1" using same_tables_poisoned [OF b] .
  have s2: "same_tables s (note_refused_ambient h1 s1)" using same_tables_trans [OF s1 same_tables_note_refused] .
  have weaken: "edge_from s amb x" if "edge_from s EMPTY_AMBIENT x" for x
    using that by (auto simp: edge_from_def EMPTY_AMBIENT_def)
  show ?thesis
  proof (cases b)
    case True
    obtain p0 t0 where e: "edge key EMPTY_AMBIENT fresh (note_refused_ambient h1 s1) = (p0, t0)"
      by (cases "edge key EMPTY_AMBIENT fresh (note_refused_ambient h1 s1)")
    have "edge_from s EMPTY_AMBIENT p0" using edge_honest [OF same_tables_ok [OF s2 ok] e] edge_from_same [OF s2] by simp
    moreover have "p = with_limitation p0 (refused_ambient_marker here' t)"
      using assms(4) b True e by (auto simp: resolve_def)
    ultimately show ?thesis using weaken b True by simp
  next
    case False
    obtain p0 t0 where e: "edge key amb fresh s1 = (p0, t0)" by (cases "edge key amb fresh s1")
    have "edge_from s amb p0" using edge_honest [OF same_tables_ok [OF s1 ok] e] edge_from_same [OF s1] by simp
    then show ?thesis using assms(4) b False e by (simp add: resolve_def)
  qed
qed

theorem resolved_parent_can_have_children_witness:
  "edge_from demo_two EMPTY_AMBIENT
     (fst (resolve 0 None (Some (op_key (demo_args CALL ''b'' (Some 0)))) EMPTY_AMBIENT [9] demo_two))"
proof -
  obtain p h t where r: "resolve 0 None (Some (op_key (demo_args CALL ''b'' (Some 0)))) EMPTY_AMBIENT [9] demo_two = (p, h, t)"
    by (cases "resolve 0 None (Some (op_key (demo_args CALL ''b'' (Some 0)))) EMPTY_AMBIENT [9] demo_two")
  from resolved_parent_can_have_children [OF demo_two_reach _ _ r] show ?thesis by (simp add: r)
qed

section \<open>Claims, forks and lost ids\<close>

text \<open>The better observer owns a claim, and the loser's span is never shipped. A claim
  succeeds exactly when nobody holds the key or the rank beats the holder's; afterwards the
  rank on record is the best seen (unless the table was full and let an older key go); and
  closing a span whose claim was beaten ships nothing.\<close>

theorem better_claim_wins:
  assumes "find (\<lambda>e. od_draft e = d) (un_open (us_unit s u)) = Some entry"
    "od_claim_key entry = Some key" "owner_rank s u key = Some best" "od_rank entry < best"
  shows "us_emitted (close_span u d st er en s) = us_emitted s \<and>
    (fst (claim u k r s) \<longleftrightarrow> (case owner_rank s u k of None \<Rightarrow> True | Some b \<Rightarrow> b < r)) \<and>
    owner_rank (snd (claim u k r s)) u k = Some (case owner_rank s u k of None \<Rightarrow> r | Some b \<Rightarrow> max b r)"
proof -
  have "superseded (us_unit s u) entry" using assms(2-4) by (simp add: superseded_def owner_rank_def)
  then have "us_emitted (close_span u d st er en s) = us_emitted s"
    by (simp add: close_span_def assms(1) Let_def count_def set_unit_def)
  moreover have "owner_rank (snd (claim u k r s)) u k = Some (case owner_rank s u k of None \<Rightarrow> r | Some b \<Rightarrow> max b r)"
    by (auto simp: claim_def owner_rank_def set_unit_def count_def update_conv' max_def split: option.splits prod.splits)
  ultimately show ?thesis
    by (auto simp: claim_def owner_rank_def split: option.splits prod.splits)
qed

definition demo_claimed :: units where
  "demo_claimed = snd (claim 0 (op_key (demo_args CALL ''k'' None)) 2
     (snd (open_span 0 IN_UNIT (Some (op_key (demo_args CALL ''k'' None))) 1 [1] [5] False demo_two)))"

theorem better_claim_wins_witness:
  "us_emitted (close_span 0 2 S_OK None 9 demo_claimed) = us_emitted demo_claimed"
proof -
  have "find (\<lambda>e. od_draft e = 2) (un_open (us_unit demo_claimed 0)) =
      Some \<lparr>od_draft = 2, od_claim_key = Some (op_key (demo_args CALL ''k'' None)), od_rank = 0\<rparr>" by code_simp
  moreover have "owner_rank demo_claimed 0 (op_key (demo_args CALL ''k'' None)) = Some 2" by code_simp
  ultimately show ?thesis
    using better_claim_wins [where u = 0 and d = 2 and s = demo_claimed and best = 2 and
        key = "op_key (demo_args CALL ''k'' None)" and
        entry = "\<lparr>od_draft = 2, od_claim_key = Some (op_key (demo_args CALL ''k'' None)), od_rank = 0\<rparr>"]
    by simp
qed

text \<open>An edge through an id whose alias a bound dropped is never presented as sure. Its
  confidence is a number no higher than that of a resolved alias, it says
  \<open>ALIAS_FORGOTTEN\<close>, and when the caller's scope is in another trace than the forgotten
  unit it says \<open>CORRELATION_CONFLICT\<close> too.\<close>

theorem forgotten_id_is_never_sure:
  "ALIAS_FORGOTTEN \<in> set (pa_limitations (forgotten_edge s sole amb hint owner fresh)) \<and>
   (\<exists>c. ci_confidence (pa_correlation (forgotten_edge s sole amb hint owner fresh)) = PFin c \<and> 0 \<le> c \<and> c \<le> 9 / 10) \<and>
   (case (sole, am_span_context amb) of
      (None, Some ctx) \<Rightarrow> sc_trace_id ctx = sc_trace_id (unit_context s owner) \<or>
        CORRELATION_CONFLICT \<in> set (pa_limitations (forgotten_edge s sole amb hint owner fresh))
    | _ \<Rightarrow> True)"
proof (cases sole)
  case (Some u)
  then show ?thesis
    by (simp add: forgotten_edge_def child_edge_def child_of_def resolve_parentage_def Let_def confidence_for_def
        evidence_of_def) (rule exI [of _ "1 / 2"], simp)
next
  case None
  show ?thesis
  proof (cases "am_span_context amb")
    case no: None
    show ?thesis using None no
      by (simp add: forgotten_edge_def resolve_parentage_def Let_def confidence_for_def evidence_of_def EMPTY_AMBIENT_def)
  next
    case (Some ctx)
    show ?thesis using None Some
      by (auto simp: forgotten_edge_def resolve_parentage_def Let_def confidence_for_def evidence_of_def
          cap_at_alias_tier_def is_nan_def)
        (rule exI [of _ "4 / 5"], simp, rule exI [of _ "9 / 10"], simp)
  qed
qed

text \<open>A fork child drops its inherited units without closing them. A unit the host still holds
  stays alive there, so a child opened under it is attached to a parent no root leads to:
  the ceiling on all units cannot be kept by evicting a root.\<close>

theorem fork_orphan_takes_children:
  "us_live (snd (snd (open_unit 0 None 1 [1] [3] (demo_args CALL ''b'' (Some 0)) (units_at_fork_reinit demo_one)))) = [1] \<and>
   us_roots (snd (snd (open_unit 0 None 1 [1] [3] (demo_args CALL ''b'' (Some 0)) (units_at_fork_reinit demo_one)))) = []"
  by code_simp

end
