(* ===== verification/Naming.thy ===== *)
theory Naming
  imports W3C "HOL-Library.Sublist"
begin

text \<open>
  The closed vocabulary of spans: \<open>_assembly/_vocab.py\<close> (what a span may be called,
  what it must carry to be called that, what may be written next to it), the
  enumerations of \<open>_enums.py\<close> it uses, and the capture policy of
  \<open>_assembly/_policy.py\<close>.

  A wire value is a HOL string, read as code points by \<^const>\<open>str_lit\<close>; a subject or a
  key is \<^typ>\<open>py_text\<close>.
\<close>

section \<open>Intents, blocks and labels\<close>

datatype span_kind = K_INTERNAL | K_CLIENT | K_SERVER | K_PRODUCER | K_CONSUMER

datatype capture_source =
    FROM_ADAPTER | FROM_SSL | FROM_SOCKET | FROM_STDIO | FROM_GRPC | FROM_WEBSOCKET
  | FROM_MANUAL | FROM_OTEL_BRIDGE

datatype block =
    B_GEN_AI | B_AGENT | B_TOOL | B_RETRIEVAL | B_EMBEDDINGS | B_EVALUATION | B_WORKFLOW_NAME

datatype (plugins only: code) span_intent =
    INVOKE_WORKFLOW | CREATE_AGENT | INVOKE_AGENT | EXECUTE_STEP | HANDOFF | EVALUATE
  | EXECUTE_TOOL | CHAT | TEXT_COMPLETION | EMBEDDINGS | GENERATE_CONTENT | RETRIEVAL

primrec intent_value :: "span_intent \<Rightarrow> string" where
  "intent_value INVOKE_WORKFLOW = ''invoke_workflow''"
| "intent_value CREATE_AGENT = ''create_agent''"
| "intent_value INVOKE_AGENT = ''invoke_agent''"
| "intent_value EXECUTE_STEP = ''execute_step''"
| "intent_value HANDOFF = ''handoff''"
| "intent_value EVALUATE = ''evaluate''"
| "intent_value EXECUTE_TOOL = ''execute_tool''"
| "intent_value CHAT = ''chat''"
| "intent_value TEXT_COMPLETION = ''text_completion''"
| "intent_value EMBEDDINGS = ''embeddings''"
| "intent_value GENERATE_CONTENT = ''generate_content''"
| "intent_value RETRIEVAL = ''retrieval''"

text \<open>\<open>_RULES\<close>, one row per intent: the kind, the required blocks, the required keys.\<close>

primrec rule_of :: "span_intent \<Rightarrow> span_kind \<times> block list \<times> string list" where
  "rule_of INVOKE_WORKFLOW = (K_INTERNAL, [B_WORKFLOW_NAME], [])"
| "rule_of CREATE_AGENT = (K_INTERNAL, [B_AGENT], [])"
| "rule_of INVOKE_AGENT = (K_INTERNAL, [B_AGENT], [])"
| "rule_of EXECUTE_STEP = (K_INTERNAL, [], [''wardex.step.name''])"
| "rule_of HANDOFF = (K_INTERNAL, [B_AGENT], [])"
| "rule_of EVALUATE = (K_INTERNAL, [B_EVALUATION], [])"
| "rule_of EXECUTE_TOOL = (K_INTERNAL, [B_TOOL], [])"
| "rule_of CHAT = (K_CLIENT, [B_GEN_AI], [])"
| "rule_of TEXT_COMPLETION = (K_CLIENT, [B_GEN_AI], [])"
| "rule_of EMBEDDINGS = (K_CLIENT, [B_GEN_AI, B_EMBEDDINGS], [])"
| "rule_of GENERATE_CONTENT = (K_CLIENT, [B_GEN_AI], [])"
| "rule_of RETRIEVAL = (K_CLIENT, [B_RETRIEVAL], [])"

definition default_kind :: "span_intent \<Rightarrow> span_kind" where
  "default_kind intent = fst (rule_of intent)"

definition required_blocks :: "span_intent \<Rightarrow> block list" where
  "required_blocks intent = fst (snd (rule_of intent))"

definition required_extra_keys :: "span_intent \<Rightarrow> string list" where
  "required_extra_keys intent = snd (snd (rule_of intent))"

datatype link_reason = TRIGGERED_BY | HANDOFF_FROM | RESUMED_FROM | RETRIED_FROM | CACHE_SOURCE

datatype transport_label = T_HTTP | T_GRPC | T_WEBSOCKET | T_MCP

primrec label_value :: "transport_label \<Rightarrow> string" where
  "label_value T_HTTP = ''HTTP''"
| "label_value T_GRPC = ''gRPC''"
| "label_value T_WEBSOCKET = ''WS''"
| "label_value T_MCP = ''MCP''"

section \<open>The name grammar\<close>

definition vocabulary_name :: "span_intent \<Rightarrow> py_text option \<Rightarrow> py_text" where
  "vocabulary_name intent subject =
     (case subject of
        None \<Rightarrow> str_lit (intent_value intent)
      | Some text \<Rightarrow>
          let text = strip text in
          if text = [] \<or> text = str_lit ''None'' then str_lit (intent_value intent)
          else str_lit (intent_value intent) @ str_lit '' '' @ text)"

definition transport_name :: "transport_label \<Rightarrow> py_text option \<Rightarrow> py_text" where
  "transport_name label subject =
     (case subject of
        None \<Rightarrow> str_lit (label_value label)
      | Some text \<Rightarrow>
          if strip text = [] then str_lit (label_value label)
          else str_lit (label_value label) @ str_lit '' '' @ strip text)"

section \<open>Keys\<close>

definition DECLARED_EXTRA_PREFIXES :: "string list" where
  "DECLARED_EXTRA_PREFIXES =
     [''gen_ai.'', ''wardex.'', ''mcp.'', ''network.'', ''openai.'', ''rpc.'', ''ws.'', ''http.'',
      ''server.'', ''url.'', ''error.'', ''code.'']"

definition is_declared_extra_key :: "py_text \<Rightarrow> bool" where
  "is_declared_extra_key key = list_ex (\<lambda>p. prefix (str_lit p) key) DECLARED_EXTRA_PREFIXES"

section \<open>The capture policy\<close>

datatype capture_mode = MODE_AGENT | MODE_ALL

text \<open>What \<open>config.capture_mode\<close> holds: a member, or anything else (absent included).\<close>

datatype mode_value = Member_mode capture_mode | Unreadable_mode

definition capture_mode_of :: "mode_value option \<Rightarrow> capture_mode" where
  "capture_mode_of config =
     (case config of
        None \<Rightarrow> MODE_ALL
      | Some (Member_mode m) \<Rightarrow> m
      | Some Unreadable_mode \<Rightarrow> MODE_AGENT)"

definition should_capture ::
  "capture_mode \<Rightarrow> span_context option \<Rightarrow> bool \<Rightarrow> bool \<Rightarrow> bool \<Rightarrow> bool" where
  "should_capture mode parent agent_semantic degraded parent_closed =
     (if mode = MODE_ALL then True
      else if agent_semantic then True
      else if (case parent of None \<Rightarrow> False | Some p \<Rightarrow> \<not> sc_is_remote p \<and> \<not> parent_closed) then True
      else degraded)"

end
