(* ===== verification/Builder.thy ===== *)
theory Builder
  imports Naming Units "HOL-Library.List_Lexorder"
begin

text \<open>
  \<open>_assembly/_builder.py\<close>: the integrity record under construction
  (\<open>IntegrityBuilder\<close>), the check of inclusive token totals, the span under
  construction (\<open>SpanDraft\<close>) with its three naming modes, and \<open>finish\<close>, which either
  materializes an \<open>InternalSpan\<close> or raises the \<open>VocabularyError\<close> that deletes the span.

  Every raise is a constructor of \<open>vocab_error\<close>. \<open>finish\<close> writes the draft (it fills in
  a manual span's missing error type), so it returns the draft beside its result.
  A typed block the builder only carries is a reference (\<open>payload\<close>); of a \<open>gen_ai\<close>
  block the builder reads the operation and the five counts. The id of a conversation
  object is read through the argument \<open>conv_id\<close>. A marker may be a string that is no
  \<open>Limitation\<close> (\<open>Stray\<close>), which the code guards against.
\<close>

section \<open>Values\<close>

type_synonym payload = nat

datatype scalar = Sc_str py_text | Sc_int int | Sc_float pyfloat | Sc_bool bool

datatype span_marker = Member limitation | Stray py_text

definition truthy_text :: "py_text option \<Rightarrow> bool" where
  "truthy_text t = (case t of None \<Rightarrow> False | Some x \<Rightarrow> x \<noteq> [])"

section \<open>The integrity record\<close>

record integrity =
  ib_req_headers :: bool
  ib_req_body :: bool
  ib_resp_headers :: bool
  ib_resp_body :: bool
  ib_redacted :: bool
  ib_truncated :: bool
  ib_dropped_chunks :: int
  ib_markers :: "span_marker list"
  ib_touched :: bool

record capture_integrity =
  cg_request_headers_captured :: bool
  cg_request_body_captured :: bool
  cg_response_headers_captured :: bool
  cg_response_body_captured :: bool
  cg_redacted :: bool
  cg_truncated :: bool
  cg_dropped_chunk_count :: int
  cg_limitations :: "span_marker list"

definition new_integrity :: integrity where
  "new_integrity = \<lparr>ib_req_headers = False, ib_req_body = False, ib_resp_headers = False,
     ib_resp_body = False, ib_redacted = False, ib_truncated = False, ib_dropped_chunks = 0,
     ib_markers = [], ib_touched = False\<rparr>"

definition request_headers :: "bool \<Rightarrow> bool \<Rightarrow> integrity \<Rightarrow> integrity" where
  "request_headers attempted ok b = b\<lparr>ib_touched := True, ib_req_headers := (attempted \<and> ok)\<rparr>"

definition request_body :: "bool \<Rightarrow> bool \<Rightarrow> integrity \<Rightarrow> integrity" where
  "request_body attempted ok b = b\<lparr>ib_touched := True, ib_req_body := (attempted \<and> ok)\<rparr>"

definition response_headers :: "bool \<Rightarrow> bool \<Rightarrow> integrity \<Rightarrow> integrity" where
  "response_headers attempted ok b = b\<lparr>ib_touched := True, ib_resp_headers := (attempted \<and> ok)\<rparr>"

definition response_body :: "bool \<Rightarrow> bool \<Rightarrow> integrity \<Rightarrow> integrity" where
  "response_body attempted ok b = b\<lparr>ib_touched := True, ib_resp_body := (attempted \<and> ok)\<rparr>"

definition mark_truncated :: "bool \<Rightarrow> integrity \<Rightarrow> integrity" where
  "mark_truncated v b = b\<lparr>ib_touched := True, ib_truncated := v\<rparr>"

definition mark_redacted :: "bool \<Rightarrow> integrity \<Rightarrow> integrity" where
  "mark_redacted v b = b\<lparr>ib_touched := True, ib_redacted := v\<rparr>"

definition dropped_chunks :: "int \<Rightarrow> integrity \<Rightarrow> integrity" where
  "dropped_chunks n b = b\<lparr>ib_touched := True, ib_dropped_chunks := n\<rparr>"

definition put_limitation :: "span_marker \<Rightarrow> integrity \<Rightarrow> integrity" where
  "put_limitation marker b =
     (let b = b\<lparr>ib_touched := True\<rparr>
      in if marker \<in> set (ib_markers b) then b else b\<lparr>ib_markers := ib_markers b @ [marker]\<rparr>)"

definition build_integrity :: "integrity \<Rightarrow> capture_integrity option" where
  "build_integrity b =
     (if \<not> ib_touched b then None
      else Some \<lparr>cg_request_headers_captured = ib_req_headers b,
                 cg_request_body_captured = ib_req_body b,
                 cg_response_headers_captured = ib_resp_headers b,
                 cg_response_body_captured = ib_resp_body b,
                 cg_redacted = ib_redacted b, cg_truncated = ib_truncated b,
                 cg_dropped_chunk_count = ib_dropped_chunks b,
                 cg_limitations = ib_markers b\<rparr>)"

interpretation integrity: marker_carrier put_limitation ib_markers
  by unfold_locales (simp add: put_limitation_def Let_def)

section \<open>Token counts\<close>

text \<open>A value found where a count belongs. An \<open>int\<close> and a \<open>float\<close> compare exactly; their
  sum converts the \<open>int\<close>, which overflows from \<open>2 ^ 1024 - 2 ^ 970\<close> on (half a unit in the
  last place above the largest double), and rounds as the machine does: the rounded sum
  of two floats is the argument \<open>fadd\<close>, the nearest double of an \<open>int\<close> is \<open>nearest\<close>.\<close>

datatype count_value = Co_none | Co_bool bool | Co_int int | Co_float pyfloat | Co_other nat

datatype number = N_int int | N_float pyfloat

datatype py_error = OverflowError

fun count_of :: "count_value \<Rightarrow> number option" where
  "count_of (Co_int n) = Some (N_int n)"
| "count_of (Co_float x) = Some (N_float x)"
| "count_of _ = None"

fun nonzero :: "number \<Rightarrow> bool" where
  "nonzero (N_int n) = (n \<noteq> 0)"
| "nonzero (N_float x) = (x \<noteq> PFin 0)"

definition or_zero :: "number option \<Rightarrow> number" where
  "or_zero v = (case v of None \<Rightarrow> N_int 0 | Some n \<Rightarrow> if nonzero n then n else N_int 0)"

definition FLOAT_OVERFLOW :: int where
  "FLOAT_OVERFLOW = 2 ^ 1024 - 2 ^ 970"

fun to_float :: "(int \<Rightarrow> pyfloat) \<Rightarrow> number \<Rightarrow> py_error + pyfloat" where
  "to_float nearest (N_int n) = (if \<bar>n\<bar> \<ge> FLOAT_OVERFLOW then Inl OverflowError else Inr (nearest n))"
| "to_float nearest (N_float x) = Inr x"

fun add_numbers ::
  "(int \<Rightarrow> pyfloat) \<Rightarrow> (pyfloat \<Rightarrow> pyfloat \<Rightarrow> pyfloat) \<Rightarrow> number \<Rightarrow> number \<Rightarrow> py_error + number" where
  "add_numbers nearest fadd (N_int a) (N_int b) = Inr (N_int (a + b))"
| "add_numbers nearest fadd a b =
     (case to_float nearest a of
        Inl e \<Rightarrow> Inl e
      | Inr x \<Rightarrow> (case to_float nearest b of Inl e \<Rightarrow> Inl e | Inr y \<Rightarrow> Inr (N_float (fadd x y))))"

fun exact :: "number \<Rightarrow> pyfloat" where
  "exact (N_int n) = PFin (of_int n)"
| "exact (N_float x) = x"

definition number_less :: "number \<Rightarrow> number \<Rightarrow> bool" where
  "number_less a b = pf_less (exact a) (exact b)"

record gen_ai =
  ga_operation :: py_text
  ga_input_tokens :: count_value
  ga_output_tokens :: count_value
  ga_cache_read_input_tokens :: count_value
  ga_cache_creation_input_tokens :: count_value
  ga_reasoning_output_tokens :: count_value
  ga_rest :: payload

definition violates_inclusive_totals ::
  "(int \<Rightarrow> pyfloat) \<Rightarrow> (pyfloat \<Rightarrow> pyfloat \<Rightarrow> pyfloat) \<Rightarrow> gen_ai \<Rightarrow> py_error + bool" where
  "violates_inclusive_totals nearest fadd attrs =
     (case (case count_of (ga_input_tokens attrs) of
              None \<Rightarrow> Inr False
            | Some whole \<Rightarrow>
                (case add_numbers nearest fadd (or_zero (count_of (ga_cache_read_input_tokens attrs)))
                        (or_zero (count_of (ga_cache_creation_input_tokens attrs))) of
                   Inl e \<Rightarrow> Inl e
                 | Inr tiers \<Rightarrow> Inr (number_less whole tiers))) of
        Inl e \<Rightarrow> Inl e
      | Inr input_short \<Rightarrow>
          Inr (input_short \<or>
               (case count_of (ga_output_tokens attrs) of
                  None \<Rightarrow> False
                | Some whole \<Rightarrow> number_less whole (or_zero (count_of (ga_reasoning_output_tokens attrs))))))"

section \<open>The draft\<close>

datatype vocab_error =
    No_end
  | No_name
  | Off_grammar
  | Missing_subject
  | Missing_blocks span_intent "block list"
  | Missing_keys span_intent "py_text list"
  | Untyped_error
  | Empty_conversation
  | Undeclared_keys "py_text list"
  | Left_trace
  | Stray_markers "span_marker list"
  | Not_manual
  | Not_transport

record span_link =
  ln_trace_id :: trace_id
  ln_span_id :: span_id
  ln_reason :: link_reason

record span_event =
  evt_name :: py_text
  evt_timestamp_ns :: int
  evt_attributes :: "(py_text \<times> scalar) list"

record span_draft =
  sd_context :: span_context
  sd_parentage :: parentage
  sd_intent :: "span_intent option"
  sd_subject :: "py_text option"
  sd_label :: "transport_label option"
  sd_manual_name :: "py_text option"
  sd_kind :: "span_kind option"
  sd_start_ns :: int
  sd_end_ns :: "int option"
  sd_sources :: "capture_source list"
  sd_integrity :: integrity
  sd_gen_ai :: "gen_ai option"
  sd_agent :: "payload option"
  sd_tool :: "payload option"
  sd_retrieval :: "payload option"
  sd_embeddings :: "payload option"
  sd_evaluation :: "payload option"
  sd_transport :: "payload option"
  sd_conversation :: "conversation option"
  sd_correlation :: "correlation_info option"
  sd_call_site :: "payload option"
  sd_workflow_name :: "py_text option"
  sd_server_address :: "py_text option"
  sd_server_port :: "int option"
  sd_operation_label :: "py_text option"
  sd_status :: status_code
  sd_status_message :: py_text
  sd_error_type :: "py_text option"
  sd_input_data :: bytes
  sd_output_data :: bytes
  sd_extra :: "(py_text \<times> scalar) list"
  sd_links :: "span_link list"
  sd_events :: "span_event list"
  sd_emitted :: bool

definition new_span_draft ::
  "span_id \<Rightarrow> parentage \<Rightarrow> span_intent option \<Rightarrow> py_text option \<Rightarrow> capture_source \<Rightarrow> int \<Rightarrow>
   span_kind option \<Rightarrow> span_draft" where
  "new_span_draft fresh_span p intent subject source start_ns kind =
     \<lparr>sd_context = child_context fresh_span p, sd_parentage = p, sd_intent = intent,
      sd_subject = subject, sd_label = None, sd_manual_name = None,
      sd_kind = (case kind of Some k \<Rightarrow> Some k | None \<Rightarrow> map_option default_kind intent),
      sd_start_ns = start_ns, sd_end_ns = None, sd_sources = [source],
      sd_integrity = fold put_limitation (map Member (pa_limitations p)) new_integrity,
      sd_gen_ai = None, sd_agent = None, sd_tool = None, sd_retrieval = None, sd_embeddings = None,
      sd_evaluation = None, sd_transport = None, sd_conversation = pa_conversation p,
      sd_correlation = Some (pa_correlation p), sd_call_site = None, sd_workflow_name = None,
      sd_server_address = None, sd_server_port = None, sd_operation_label = None,
      sd_status = S_UNSET, sd_status_message = [], sd_error_type = None,
      sd_input_data = [], sd_output_data = [], sd_extra = [], sd_links = [], sd_events = [],
      sd_emitted = False\<rparr>"

definition vocabulary_draft ::
  "span_id \<Rightarrow> parentage \<Rightarrow> span_intent \<Rightarrow> py_text option \<Rightarrow> capture_source \<Rightarrow> int \<Rightarrow>
   span_kind option \<Rightarrow> span_draft" where
  "vocabulary_draft fresh_span p intent = new_span_draft fresh_span p (Some intent)"

definition transport_draft ::
  "span_id \<Rightarrow> parentage \<Rightarrow> transport_label \<Rightarrow> py_text option \<Rightarrow> capture_source \<Rightarrow> int \<Rightarrow>
   span_kind \<Rightarrow> span_draft" where
  "transport_draft fresh_span p label subject source start_ns kind =
     (new_span_draft fresh_span p None subject source start_ns (Some kind))\<lparr>sd_label := Some label\<rparr>"

definition manual_span_name :: "py_text \<Rightarrow> py_text" where
  "manual_span_name name = (if name = [] then str_lit ''span'' else name)"

definition manual_draft ::
  "span_id \<Rightarrow> parentage \<Rightarrow> py_text \<Rightarrow> span_kind \<Rightarrow> int \<Rightarrow> capture_source \<Rightarrow> span_draft" where
  "manual_draft fresh_span p name kind start_ns source =
     (new_span_draft fresh_span p None None source start_ns (Some kind))
       \<lparr>sd_manual_name := Some (manual_span_name name)\<rparr>"

section \<open>Its operations\<close>

definition rename :: "py_text \<Rightarrow> span_draft \<Rightarrow> vocab_error + span_draft" where
  "rename name d =
     (if sd_manual_name d = None then Inl Not_manual
      else Inr (d\<lparr>sd_manual_name := Some (manual_span_name name)\<rparr>))"

definition relabel ::
  "transport_label \<Rightarrow> py_text option \<Rightarrow> span_draft \<Rightarrow> vocab_error + span_draft" where
  "relabel label subject d =
     (if sd_label d = None then Inl Not_transport
      else Inr (d\<lparr>sd_label := Some label, sd_subject := subject\<rparr>))"

definition put_gen_ai ::
  "(int \<Rightarrow> pyfloat) \<Rightarrow> (pyfloat \<Rightarrow> pyfloat \<Rightarrow> pyfloat) \<Rightarrow> gen_ai \<Rightarrow> counters \<Rightarrow> span_draft \<Rightarrow>
   py_error + counters \<times> span_draft" where
  "put_gen_ai nearest fadd attrs c d =
     (case violates_inclusive_totals nearest fadd attrs of
        Inl e \<Rightarrow> Inl e
      | Inr short \<Rightarrow>
          Inr (if short then c @ [''assembly.builder.gen_ai_usage_not_inclusive''] else c,
               d\<lparr>sd_gen_ai := Some attrs\<rparr>))"

definition put_agent :: "payload \<Rightarrow> span_draft \<Rightarrow> span_draft" where
  "put_agent attrs d = d\<lparr>sd_agent := Some attrs\<rparr>"

definition put_tool :: "payload \<Rightarrow> span_draft \<Rightarrow> span_draft" where
  "put_tool attrs d = d\<lparr>sd_tool := Some attrs\<rparr>"

definition put_retrieval :: "payload \<Rightarrow> span_draft \<Rightarrow> span_draft" where
  "put_retrieval attrs d = d\<lparr>sd_retrieval := Some attrs\<rparr>"

definition put_embeddings :: "payload \<Rightarrow> span_draft \<Rightarrow> span_draft" where
  "put_embeddings attrs d = d\<lparr>sd_embeddings := Some attrs\<rparr>"

definition put_evaluation :: "payload \<Rightarrow> span_draft \<Rightarrow> span_draft" where
  "put_evaluation attrs d = d\<lparr>sd_evaluation := Some attrs\<rparr>"

definition put_transport :: "payload \<Rightarrow> span_draft \<Rightarrow> span_draft" where
  "put_transport attrs d = d\<lparr>sd_transport := Some attrs\<rparr>"

definition put_conversation :: "conversation option \<Rightarrow> span_draft \<Rightarrow> span_draft" where
  "put_conversation conv d = d\<lparr>sd_conversation := conv\<rparr>"

definition put_call_site :: "payload option \<Rightarrow> span_draft \<Rightarrow> span_draft" where
  "put_call_site site d = d\<lparr>sd_call_site := site\<rparr>"

definition put_workflow_name :: "py_text option \<Rightarrow> span_draft \<Rightarrow> span_draft" where
  "put_workflow_name name d = d\<lparr>sd_workflow_name := name\<rparr>"

definition put_server :: "py_text option \<Rightarrow> int option \<Rightarrow> span_draft \<Rightarrow> span_draft" where
  "put_server address port d = d\<lparr>sd_server_address := address, sd_server_port := port\<rparr>"

definition put_io :: "bytes \<Rightarrow> bytes \<Rightarrow> bool \<Rightarrow> bool \<Rightarrow> span_draft \<Rightarrow> span_draft" where
  "put_io input_data output_data input_attempted output_attempted d =
     d\<lparr>sd_input_data := input_data, sd_output_data := output_data,
       sd_integrity := response_body output_attempted True
                         (request_body input_attempted True (sd_integrity d))\<rparr>"

definition put_end_ns :: "int \<Rightarrow> span_draft \<Rightarrow> span_draft" where
  "put_end_ns end_ns d = d\<lparr>sd_end_ns := Some end_ns\<rparr>"

definition put_start_ns :: "int \<Rightarrow> span_draft \<Rightarrow> span_draft" where
  "put_start_ns start_ns d = d\<lparr>sd_start_ns := start_ns\<rparr>"

definition put_status :: "status_code \<Rightarrow> py_text \<Rightarrow> span_draft \<Rightarrow> span_draft" where
  "put_status code message d = d\<lparr>sd_status := code, sd_status_message := message\<rparr>"

definition put_error :: "py_text option \<Rightarrow> py_text \<Rightarrow> span_draft \<Rightarrow> span_draft" where
  "put_error error_type message d =
     (let d = d\<lparr>sd_error_type := error_type\<rparr>
      in if message \<noteq> [] then d\<lparr>sd_status_message := message\<rparr> else d)"

definition put_marker :: "span_marker \<Rightarrow> span_draft \<Rightarrow> span_draft" where
  "put_marker marker d = d\<lparr>sd_integrity := put_limitation marker (sd_integrity d)\<rparr>"

definition on_integrity :: "(integrity \<Rightarrow> integrity) \<Rightarrow> span_draft \<Rightarrow> span_draft" where
  "on_integrity f d = d\<lparr>sd_integrity := f (sd_integrity d)\<rparr>"

definition add_link :: "span_context \<Rightarrow> link_reason \<Rightarrow> span_draft \<Rightarrow> span_draft" where
  "add_link ctx reason d =
     d\<lparr>sd_links := sd_links d @ [\<lparr>ln_trace_id = sc_trace_id ctx, ln_span_id = sc_span_id ctx,
                                  ln_reason = reason\<rparr>]\<rparr>"

definition add_event :: "py_text \<Rightarrow> int \<Rightarrow> (py_text \<times> scalar) list \<Rightarrow> span_draft \<Rightarrow> span_draft" where
  "add_event name ts_ns attrs d =
     d\<lparr>sd_events := sd_events d @ [\<lparr>evt_name = name, evt_timestamp_ns = ts_ns,
                                    evt_attributes = sort_key fst attrs\<rparr>]\<rparr>"

definition add_source :: "capture_source \<Rightarrow> span_draft \<Rightarrow> span_draft" where
  "add_source source d =
     (if source \<notin> set (sd_sources d) then d\<lparr>sd_sources := sd_sources d @ [source]\<rparr> else d)"

definition put_operation_label :: "py_text option \<Rightarrow> span_draft \<Rightarrow> span_draft" where
  "put_operation_label operation d = d\<lparr>sd_operation_label := operation\<rparr>"

definition put_extra :: "py_text \<Rightarrow> scalar \<Rightarrow> span_draft \<Rightarrow> span_draft" where
  "put_extra key v d = d\<lparr>sd_extra := sd_extra d @ [(key, v)]\<rparr>"

definition replace_correlation :: "correlation_info option \<Rightarrow> span_draft \<Rightarrow> span_draft" where
  "replace_correlation correlation d = d\<lparr>sd_correlation := correlation\<rparr>"

definition first_given :: "'a option \<Rightarrow> 'a option \<Rightarrow> 'a option" where
  "first_given extra base = (if extra \<noteq> None then extra else base)"

definition merge_correlation :: "correlation_info \<Rightarrow> span_draft \<Rightarrow> span_draft" where
  "merge_correlation extra d =
     (case sd_correlation d of
        None \<Rightarrow> d\<lparr>sd_correlation := Some extra\<rparr>
      | Some base \<Rightarrow>
          d\<lparr>sd_correlation := Some
             \<lparr>ci_operation_id = first_given (ci_operation_id extra) (ci_operation_id base),
              ci_request_id = first_given (ci_request_id extra) (ci_request_id base),
              ci_attempt_id = first_given (ci_attempt_id extra) (ci_attempt_id base),
              ci_active_span_id_at_capture = ci_active_span_id_at_capture base,
              ci_confidence = py_min (ci_confidence base) (ci_confidence extra),
              ci_strategy = ci_strategy base\<rparr>\<rparr>)"

definition claim_emit :: "span_draft \<Rightarrow> bool \<times> span_draft" where
  "claim_emit d = (if sd_emitted d then (False, d) else (True, d\<lparr>sd_emitted := True\<rparr>))"

section \<open>Materializing\<close>

definition draft_name :: "span_draft \<Rightarrow> py_text" where
  "draft_name d =
     (case sd_manual_name d of
        Some name \<Rightarrow> name
      | None \<Rightarrow>
          (case sd_label d of
             Some label \<Rightarrow> transport_name label (sd_subject d)
           | None \<Rightarrow>
               (case sd_intent d of
                  Some intent \<Rightarrow> vocabulary_name intent (sd_subject d)
                | None \<Rightarrow> [])))"

definition normalize_manual_error :: "span_draft \<Rightarrow> span_draft" where
  "normalize_manual_error d =
     (if sd_manual_name d = None then d
      else if sd_status d = S_ERROR \<and> \<not> truthy_text (sd_error_type d)
      then d\<lparr>sd_error_type := Some (str_lit ''_OTHER'')\<rparr>
      else d)"

definition check_name :: "py_text \<Rightarrow> span_draft \<Rightarrow> vocab_error option" where
  "check_name name d =
     (if name = [] then Some No_name
      else case sd_intent d of
        None \<Rightarrow> None
      | Some intent \<Rightarrow>
          if name \<noteq> vocabulary_name intent (sd_subject d) then Some Off_grammar
          else if suffix (str_lit '' None'') name \<or> name = str_lit ''None'' then Some Missing_subject
          else None)"

fun present :: "span_draft \<Rightarrow> block \<Rightarrow> bool" where
  "present d B_GEN_AI = (sd_gen_ai d \<noteq> None)"
| "present d B_AGENT = (sd_agent d \<noteq> None)"
| "present d B_TOOL = (sd_tool d \<noteq> None)"
| "present d B_RETRIEVAL = (sd_retrieval d \<noteq> None)"
| "present d B_EMBEDDINGS = (sd_embeddings d \<noteq> None)"
| "present d B_EVALUATION = (sd_evaluation d \<noteq> None)"
| "present d B_WORKFLOW_NAME = (sd_workflow_name d \<noteq> None)"

definition missing_blocks :: "span_draft \<Rightarrow> span_intent \<Rightarrow> block list" where
  "missing_blocks d intent = filter (\<lambda>b. \<not> present d b) (required_blocks intent)"

definition missing_keys :: "span_draft \<Rightarrow> span_intent \<Rightarrow> py_text list" where
  "missing_keys d intent =
     filter (\<lambda>k. k \<notin> set (map fst (sd_extra d))) (map str_lit (required_extra_keys intent))"

definition check_structure :: "span_draft \<Rightarrow> vocab_error option" where
  "check_structure d =
     (case sd_intent d of
        None \<Rightarrow> None
      | Some intent \<Rightarrow>
          if missing_blocks d intent \<noteq> [] then Some (Missing_blocks intent (missing_blocks d intent))
          else if missing_keys d intent \<noteq> [] then Some (Missing_keys intent (missing_keys d intent))
          else None)"

definition check_status :: "span_draft \<Rightarrow> vocab_error option" where
  "check_status d =
     (if sd_status d = S_ERROR \<and> \<not> truthy_text (sd_error_type d) then Some Untyped_error else None)"

definition check_conversation :: "(conversation \<Rightarrow> py_text) \<Rightarrow> span_draft \<Rightarrow> vocab_error option" where
  "check_conversation conv_id d =
     (case sd_conversation d of
        None \<Rightarrow> None
      | Some conv \<Rightarrow> if conv_id conv = [] then Some Empty_conversation else None)"

definition undeclared_keys :: "span_draft \<Rightarrow> py_text list" where
  "undeclared_keys d = sort (remdups (filter (\<lambda>k. \<not> is_declared_extra_key k) (map fst (sd_extra d))))"

definition check_extra :: "span_draft \<Rightarrow> vocab_error option" where
  "check_extra d =
     (if sd_manual_name d \<noteq> None then None
      else if undeclared_keys d \<noteq> [] then Some (Undeclared_keys (undeclared_keys d))
      else None)"

definition check_trace :: "span_draft \<Rightarrow> vocab_error option" where
  "check_trace d =
     (if sc_trace_id (sd_context d) \<noteq> pa_trace_id (sd_parentage d) then Some Left_trace else None)"

fun first_breach :: "vocab_error option list \<Rightarrow> vocab_error option" where
  "first_breach [] = None"
| "first_breach (None # rest) = first_breach rest"
| "first_breach (Some e # rest) = Some e"

definition checks :: "(conversation \<Rightarrow> py_text) \<Rightarrow> span_draft \<Rightarrow> vocab_error option" where
  "checks conv_id d =
     first_breach [check_name (draft_name d) d, check_structure d, check_status d,
       check_conversation conv_id d, check_extra d, check_trace d]"

definition OPERATION_KEY :: py_text where
  "OPERATION_KEY = str_lit ''gen_ai.operation.name''"

definition carried_gen_ai :: "span_draft \<Rightarrow> gen_ai option" where
  "carried_gen_ai d =
     (case sd_intent d of
        None \<Rightarrow> sd_gen_ai d
      | Some intent \<Rightarrow>
          map_option (\<lambda>g. g\<lparr>ga_operation := str_lit (intent_value intent)\<rparr>) (sd_gen_ai d))"

definition carried_extra :: "span_draft \<Rightarrow> (py_text \<times> scalar) list" where
  "carried_extra d =
     (if sd_gen_ai d \<noteq> None then sd_extra d
      else case sd_intent d of
        Some intent \<Rightarrow> (OPERATION_KEY, Sc_str (str_lit (intent_value intent))) # sd_extra d
      | None \<Rightarrow>
          (case sd_operation_label d of
             Some label \<Rightarrow> (OPERATION_KEY, Sc_str label) # sd_extra d
           | None \<Rightarrow> sd_extra d))"

fun is_member :: "span_marker \<Rightarrow> bool" where
  "is_member (Member m) = True"
| "is_member (Stray t) = False"

record internal_span =
  fs_context :: span_context
  fs_parent_span_id :: "span_id option"
  fs_name :: py_text
  fs_kind :: span_kind
  fs_start_time_ns :: int
  fs_end_time_ns :: int
  fs_status :: status_code
  fs_status_message :: py_text
  fs_gen_ai :: "gen_ai option"
  fs_agent :: "payload option"
  fs_tool :: "payload option"
  fs_transport :: "payload option"
  fs_retrieval :: "payload option"
  fs_embeddings :: "payload option"
  fs_evaluation :: "payload option"
  fs_conversation :: "conversation option"
  fs_call_site :: "payload option"
  fs_error_type :: "py_text option"
  fs_server_address :: "py_text option"
  fs_server_port :: "int option"
  fs_workflow_name :: "py_text option"
  fs_capture_sources :: "capture_source list"
  fs_capture_integrity :: "capture_integrity option"
  fs_correlation :: "correlation_info option"
  fs_input_data :: bytes
  fs_output_data :: bytes
  fs_extra :: "(py_text \<times> scalar) list"
  fs_events :: "span_event list"
  fs_links :: "span_link list"

definition materialized :: "int \<Rightarrow> span_draft \<Rightarrow> internal_span" where
  "materialized end_ns d =
     \<lparr>fs_context = sd_context d, fs_parent_span_id = pa_parent_span_id (sd_parentage d),
      fs_name = draft_name d,
      fs_kind = (case sd_kind d of Some k \<Rightarrow> k | None \<Rightarrow> K_INTERNAL),
      fs_start_time_ns = sd_start_ns d, fs_end_time_ns = end_ns,
      fs_status = sd_status d, fs_status_message = sd_status_message d,
      fs_gen_ai = carried_gen_ai d, fs_agent = sd_agent d, fs_tool = sd_tool d,
      fs_transport = sd_transport d, fs_retrieval = sd_retrieval d, fs_embeddings = sd_embeddings d,
      fs_evaluation = sd_evaluation d, fs_conversation = sd_conversation d,
      fs_call_site = sd_call_site d, fs_error_type = sd_error_type d,
      fs_server_address = sd_server_address d, fs_server_port = sd_server_port d,
      fs_workflow_name = sd_workflow_name d, fs_capture_sources = sd_sources d,
      fs_capture_integrity = build_integrity (sd_integrity d), fs_correlation = sd_correlation d,
      fs_input_data = sd_input_data d, fs_output_data = sd_output_data d,
      fs_extra = carried_extra d, fs_events = sd_events d, fs_links = sd_links d\<rparr>"

definition finish ::
  "(conversation \<Rightarrow> py_text) \<Rightarrow> int option \<Rightarrow> span_draft \<Rightarrow>
   (vocab_error + internal_span) \<times> span_draft" where
  "finish conv_id end_ns d =
     (case first_given end_ns (sd_end_ns d) of
        None \<Rightarrow> (Inl No_end, d)
      | Some end_ns \<Rightarrow>
          let d = normalize_manual_error d;
              stray = filter (\<lambda>m. \<not> is_member m) (ib_markers (sd_integrity d))
          in (case checks conv_id d of
                Some e \<Rightarrow> Inl e
              | None \<Rightarrow> if stray \<noteq> [] then Inl (Stray_markers stray) else Inr (materialized end_ns d),
              d))"

end
