(* ===== verification/Builder_Laws.thy ===== *)
theory Builder_Laws
  imports Builder
begin

text \<open>
  What the constructor of spans keeps and what \<open>finish\<close> decides. \<open>draft_step\<close> is one
  method call on a draft, \<open>built p d\<close> says that \<open>d\<close> is a draft of the edge \<open>p\<close> after any
  sequence of calls, and \<open>draft_ok\<close> is the invariant they keep. The carriers of the
  draft interpret the contracts of \<^theory_text>\<open>Carrier\<close>. The last section relates a draft
  to the registry's view of it.
\<close>

section \<open>Names\<close>

lemma str_lit_Nil [simp]: "str_lit s = [] \<longleftrightarrow> s = []"
  by (simp add: str_lit_def)

lemma str_lit_inject [simp]: "str_lit s = str_lit t \<longleftrightarrow> s = t"
proof
  assume "str_lit s = str_lit t"
  then show "s = t" unfolding str_lit_def
  proof (induction s arbitrary: t)
    case Nil
    then show ?case by simp
  next
    case (Cons c s)
    then show ?case by (cases t) auto
  qed
qed simp

lemma intent_value_nonempty [simp]: "intent_value i \<noteq> []"
  by (cases i) simp_all

lemma intent_value_inject [simp]: "intent_value i = intent_value j \<longleftrightarrow> i = j"
  by (cases i; cases j; simp)

lemma label_value_nonempty [simp]: "label_value l \<noteq> []"
  by (cases l) simp_all

lemma space_not_in_intent [simp]: "32 \<notin> set (str_lit (intent_value i))"
  by (cases i) (simp_all add: str_lit_def)

lemma space_not_in_label [simp]: "32 \<notin> set (str_lit (label_value l))"
  by (cases l) (simp_all add: str_lit_def)

lemma label_is_no_intent [simp]: "label_value l \<noteq> intent_value i"
  by (cases l; cases i) simp_all

text \<open>The operation of a name is what stands before its first space.\<close>

definition operation_of :: "py_text \<Rightarrow> py_text" where
  "operation_of name = takeWhile (\<lambda>c. c \<noteq> 32) name"

definition subject_of :: "py_text \<Rightarrow> py_text" where
  "subject_of name = drop 1 (dropWhile (\<lambda>c. c \<noteq> 32) name)"

lemma str_lit_space: "str_lit '' '' = [32]"
  by (simp add: str_lit_def)

lemma operation_of_join:
  assumes "32 \<notin> set v"
  shows "operation_of v = v" "operation_of (v @ str_lit '' '' @ t) = v"
    and "subject_of v = []" "subject_of (v @ str_lit '' '' @ t) = t"
proof -
  have all: "\<forall>c \<in> set v. c \<noteq> 32" using assms by metis
  then show "operation_of v = v" "operation_of (v @ str_lit '' '' @ t) = v"
    by (simp_all add: operation_of_def takeWhile_append2 str_lit_space)
  from all show "subject_of v = []" "subject_of (v @ str_lit '' '' @ t) = t"
    by (simp_all add: subject_of_def dropWhile_append2 str_lit_space dropWhile_eq_Nil_conv [THEN iffD2])
qed

definition no_subject :: "py_text option \<Rightarrow> bool" where
  "no_subject s = (case s of None \<Rightarrow> True | Some t \<Rightarrow> strip t = [] \<or> strip t = str_lit ''None'')"

lemma vocabulary_name_cases:
  "vocabulary_name i s =
     (if no_subject s then str_lit (intent_value i)
      else str_lit (intent_value i) @ str_lit '' '' @ strip (the s))"
  by (auto simp: vocabulary_name_def no_subject_def Let_def split: option.splits)

lemma operation_of_vocabulary_name: "operation_of (vocabulary_name i s) = str_lit (intent_value i)"
  by (simp add: vocabulary_name_cases operation_of_join)

lemma subject_of_vocabulary_name:
  "subject_of (vocabulary_name i s) = (if no_subject s then [] else strip (the s))"
  by (simp add: vocabulary_name_cases operation_of_join)

lemma operation_of_transport_name: "operation_of (transport_name l s) = str_lit (label_value l)"
  by (auto simp: transport_name_def operation_of_join split: option.splits)

lemma names_not_empty [simp]: "vocabulary_name i s \<noteq> []" "transport_name l s \<noteq> []"
  by (auto simp: vocabulary_name_cases transport_name_def split: option.splits)

lemma manual_span_name_not_empty [simp]: "manual_span_name n \<noteq> []"
  by (simp add: manual_span_name_def)

lemma no_intent_is_None: "intent_value i \<noteq> ''None''"
  by (cases i) simp_all

lemma suffix_None_bare: "\<not> suffix (str_lit '' None'') (str_lit (intent_value i))"
proof
  assume "suffix (str_lit '' None'') (str_lit (intent_value i))"
  moreover have "32 \<in> set (str_lit '' None'')" by (simp add: str_lit_def)
  ultimately have "32 \<in> set (str_lit (intent_value i))" by (meson set_mono_suffix subsetD)
  then show False by simp
qed

text \<open>The one way the grammar refuses its own name: the subject ends in the word \<open>None\<close>.\<close>

lemma vocabulary_name_refused:
  "suffix (str_lit '' None'') (vocabulary_name i s) \<or> vocabulary_name i s = str_lit ''None'' \<longleftrightarrow>
   \<not> no_subject s \<and> suffix (str_lit '' None'') (str_lit '' '' @ strip (the s))"
proof (cases "no_subject s")
  case True
  then show ?thesis by (simp add: vocabulary_name_cases suffix_None_bare no_intent_is_None)
next
  case False
  let ?v = "str_lit (intent_value i)" and ?t = "strip (the s)"
  have name: "vocabulary_name i s = ?v @ str_lit '' '' @ ?t"
    using False by (simp add: vocabulary_name_cases)
  have "operation_of (vocabulary_name i s) \<noteq> operation_of (str_lit ''None'')"
    by (cases i) (simp_all add: operation_of_vocabulary_name, simp_all add: operation_of_def str_lit_def)
  then have other: "vocabulary_name i s \<noteq> str_lit ''None''" by metis
  have "suffix (str_lit '' None'') (?v @ str_lit '' '' @ ?t) \<longleftrightarrow>
        suffix (str_lit '' None'') (str_lit '' '' @ ?t)"
  proof
    assume "suffix (str_lit '' None'') (?v @ str_lit '' '' @ ?t)"
    then consider "suffix (str_lit '' None'') (str_lit '' '' @ ?t)"
      | ys where "str_lit '' None'' = ys @ str_lit '' '' @ ?t" "suffix ys ?v"
      by (auto simp: suffix_append)
    then show "suffix (str_lit '' None'') (str_lit '' '' @ ?t)"
    proof cases
      case 2
      have "ys = []"
      proof (rule ccontr)
        assume "ys \<noteq> []"
        then have "hd ys = 32" using 2(1) by (cases ys) (auto simp: str_lit_def)
        with \<open>ys \<noteq> []\<close> have "32 \<in> set ys" by (metis hd_in_set)
        with 2(2) have "32 \<in> set ?v" by (meson set_mono_suffix subsetD)
        then show False by simp
      qed
      with 2 show ?thesis by simp
    qed
  qed (simp add: suffix_appendI)
  with name other False show ?thesis by simp
qed

lemma refused_subject:
  "suffix (str_lit '' None'') (vocabulary_name i s) \<or> vocabulary_name i s = str_lit ''None'' \<longleftrightarrow>
   \<not> no_subject s \<and> suffix (str_lit '' None'') (strip (the s))"
proof -
  have "str_lit '' None'' = 32 # str_lit ''None''" by (simp add: str_lit_def)
  then have "suffix (str_lit '' None'') (str_lit '' '' @ t) \<longleftrightarrow>
      t = str_lit ''None'' \<or> suffix (str_lit '' None'') t" for t
    by (auto simp: str_lit_space suffix_Cons)
  moreover have "strip (the s) \<noteq> str_lit ''None''" if "\<not> no_subject s"
    using that by (auto simp: no_subject_def split: option.splits)
  ultimately show ?thesis unfolding vocabulary_name_refused by blast
qed

section \<open>Carriers\<close>

interpretation draft_markers: marker_carrier put_marker "\<lambda>d. ib_markers (sd_integrity d)"
  by unfold_locales (simp add: put_marker_def integrity.held_attach)

interpretation draft_sources: settled_carrier add_source sd_sources
  by unfold_locales (simp_all add: add_source_def)

lemma new_integrity_markers [simp]: "ib_markers new_integrity = []"
  by (simp add: new_integrity_def)

lemma built_markers [simp]:
  "set (ib_markers (fold put_limitation ms new_integrity)) = set ms"
  "distinct (ib_markers (fold put_limitation ms new_integrity))"
  using integrity.set_held_fold [of ms new_integrity] integrity.distinct_held_fold [of new_integrity ms]
  by simp_all

lemma integrity_frame [simp]:
  "ib_markers (request_headers a k b) = ib_markers b"
  "ib_markers (request_body a k b) = ib_markers b"
  "ib_markers (response_headers a k b) = ib_markers b"
  "ib_markers (response_body a k b) = ib_markers b"
  "ib_markers (mark_truncated v b) = ib_markers b"
  "ib_markers (mark_redacted v b) = ib_markers b"
  "ib_markers (dropped_chunks n b) = ib_markers b"
  by (simp_all add: request_headers_def request_body_def response_headers_def response_body_def
      mark_truncated_def mark_redacted_def dropped_chunks_def)

section \<open>The draft through its life\<close>

lemmas draft_setters =
  put_agent_def put_tool_def put_retrieval_def put_embeddings_def put_evaluation_def
  put_transport_def put_conversation_def put_call_site_def put_workflow_name_def put_server_def
  put_end_ns_def put_start_ns_def put_status_def put_operation_label_def put_extra_def
  add_link_def add_event_def replace_correlation_def

inductive draft_step :: "span_draft \<Rightarrow> span_draft \<Rightarrow> bool" where
  Rename: "rename name d = Inr d' \<Longrightarrow> draft_step d d'"
| Relabel: "relabel label subject d = Inr d' \<Longrightarrow> draft_step d d'"
| Gen_ai: "put_gen_ai nearest fadd attrs c d = Inr (c', d') \<Longrightarrow> draft_step d d'"
| Agent: "draft_step d (put_agent a d)"
| Tool: "draft_step d (put_tool a d)"
| Retrieval: "draft_step d (put_retrieval a d)"
| Embeddings: "draft_step d (put_embeddings a d)"
| Evaluation: "draft_step d (put_evaluation a d)"
| Transport: "draft_step d (put_transport a d)"
| Conversation: "draft_step d (put_conversation conv d)"
| Call_site: "draft_step d (put_call_site site d)"
| Workflow: "draft_step d (put_workflow_name name' d)"
| Server: "draft_step d (put_server address port d)"
| Io: "draft_step d (put_io input_data output_data input_attempted output_attempted d)"
| End: "draft_step d (put_end_ns t d)"
| Start: "draft_step d (put_start_ns t d)"
| Status: "draft_step d (put_status code message d)"
| Error: "draft_step d (put_error error_type message d)"
| Marker: "draft_step d (put_marker marker d)"
| Request_headers: "draft_step d (on_integrity (request_headers attempted ok) d)"
| Request_body: "draft_step d (on_integrity (request_body attempted ok) d)"
| Response_headers: "draft_step d (on_integrity (response_headers attempted ok) d)"
| Response_body: "draft_step d (on_integrity (response_body attempted ok) d)"
| Truncated: "draft_step d (on_integrity (mark_truncated v) d)"
| Redacted: "draft_step d (on_integrity (mark_redacted v) d)"
| Dropped: "draft_step d (on_integrity (dropped_chunks n) d)"
| Link: "draft_step d (add_link ctx reason d)"
| Event: "draft_step d (add_event event_name ts attributes d)"
| Source: "draft_step d (add_source source d)"
| Label: "draft_step d (put_operation_label operation d)"
| Extra: "draft_step d (put_extra key scalar d)"
| Correlation: "draft_step d (replace_correlation correlation d)"
| Merge: "draft_step d (merge_correlation hint d)"
| Claim: "draft_step d (snd (claim_emit d))"
| Finish: "draft_step d (snd (finish conv_id end_ns d))"

inductive built :: "parentage \<Rightarrow> span_draft \<Rightarrow> bool" for p where
  Vocabulary: "built p (vocabulary_draft sid p intent subject source t kind)"
| Transport_mode: "built p (transport_draft sid p label subject source t kind')"
| Manual: "built p (manual_draft sid p name kind' t source)"
| Called: "built p d \<Longrightarrow> draft_step d d' \<Longrightarrow> built p d'"

definition one_mode :: "span_draft \<Rightarrow> bool" where
  "one_mode d \<longleftrightarrow>
     (sd_intent d \<noteq> None \<and> sd_label d = None \<and> sd_manual_name d = None) \<or>
     (sd_intent d = None \<and> sd_label d \<noteq> None \<and> sd_manual_name d = None) \<or>
     (sd_intent d = None \<and> sd_label d = None \<and> truthy_text (sd_manual_name d))"

definition draft_ok :: "parentage \<Rightarrow> span_draft \<Rightarrow> bool" where
  "draft_ok p d \<longleftrightarrow>
     one_mode d \<and> sd_parentage d = p \<and> sc_trace_id (sd_context d) = pa_trace_id p \<and>
     sc_trace_flags (sd_context d) = pa_trace_flags p \<and> \<not> sc_is_remote (sd_context d) \<and>
     sd_sources d \<noteq> [] \<and> distinct (sd_sources d) \<and>
     distinct (ib_markers (sd_integrity d)) \<and>
     Member ` set (pa_limitations p) \<subseteq> set (ib_markers (sd_integrity d))"

lemma new_span_draft_ok:
  "draft_ok p (vocabulary_draft sid p intent subject source t kind)"
  "draft_ok p (transport_draft sid p label subject source t kind')"
  "draft_ok p (manual_draft sid p name kind' t source)"
  by (simp_all add: draft_ok_def one_mode_def vocabulary_draft_def transport_draft_def
      manual_draft_def new_span_draft_def child_context_def truthy_text_def)

lemma finish_state:
  "snd (finish conv_id end_ns d) = (if first_given end_ns (sd_end_ns d) = None then d
     else normalize_manual_error d)"
  by (simp add: finish_def Let_def split: option.splits)

text \<open>What a call may touch: the marks it leaves are only ever added to.\<close>

definition keeps_core :: "span_draft \<Rightarrow> span_draft \<Rightarrow> bool" where
  "keeps_core d d' \<longleftrightarrow>
     sd_context d' = sd_context d \<and> sd_parentage d' = sd_parentage d \<and> sd_intent d' = sd_intent d \<and>
     (sd_label d' = None \<longleftrightarrow> sd_label d = None) \<and>
     (sd_manual_name d' = None \<longleftrightarrow> sd_manual_name d = None) \<and>
     (truthy_text (sd_manual_name d) \<longrightarrow> truthy_text (sd_manual_name d')) \<and>
     (sd_intent d \<noteq> None \<longrightarrow> sd_label d = None \<longrightarrow> sd_subject d' = sd_subject d) \<and>
     (\<exists>more. sd_sources d' = sd_sources d @ more) \<and>
     (distinct (sd_sources d) \<longrightarrow> distinct (sd_sources d')) \<and>
     (\<exists>more. ib_markers (sd_integrity d') = ib_markers (sd_integrity d) @ more) \<and>
     (distinct (ib_markers (sd_integrity d)) \<longrightarrow> distinct (ib_markers (sd_integrity d'))) \<and>
     (sd_emitted d \<longrightarrow> sd_emitted d')"

lemma keeps_core_ok: "keeps_core d d' \<Longrightarrow> draft_ok p d \<Longrightarrow> draft_ok p d'"
  unfolding keeps_core_def draft_ok_def one_mode_def by auto

lemma keeps_core_same:
  assumes "sd_context d' = sd_context d" "sd_parentage d' = sd_parentage d" "sd_intent d' = sd_intent d"
    "sd_label d' = sd_label d" "sd_manual_name d' = sd_manual_name d" "sd_subject d' = sd_subject d"
    "sd_sources d' = sd_sources d" "ib_markers (sd_integrity d') = ib_markers (sd_integrity d)"
    "sd_emitted d \<longrightarrow> sd_emitted d'"
  shows "keeps_core d d'"
  using assms by (simp add: keeps_core_def)

lemma step_keeps_core: "draft_step d d' \<Longrightarrow> keeps_core d d'"
proof (induction rule: draft_step.induct)
  case (Rename name d d')
  then show ?case
    by (auto simp: rename_def keeps_core_def truthy_text_def split: if_splits)
next
  case (Relabel label subject d d')
  then show ?case by (auto simp: relabel_def keeps_core_def split: if_splits)
next
  case (Gen_ai nearest fadd attrs c d c' d')
  then show ?case
    by (intro keeps_core_same) (auto simp: put_gen_ai_def split: sum.splits)
next
  case (Marker d marker)
  then show ?case
    using draft_markers.keeps_order [of marker d] draft_markers.distinct_held [of d marker]
    by (simp add: keeps_core_def put_marker_def)
next
  case (Source d source)
  then show ?case by (simp add: keeps_core_def add_source_def)
next
  case (Finish d conv_id end_ns)
  then show ?case
    by (intro keeps_core_same) (simp_all add: finish_state normalize_manual_error_def)
next
  case (Merge d hint)
  then show ?case
    by (intro keeps_core_same) (simp_all add: merge_correlation_def split: option.splits)
next
  case (Error d error_type message)
  then show ?case by (intro keeps_core_same) (simp_all add: put_error_def Let_def)
next
  case (Claim d)
  then show ?case by (intro keeps_core_same) (simp_all add: claim_emit_def)
qed (intro keeps_core_same; simp add: draft_setters put_io_def on_integrity_def)+

lemma built_ok: "built p d \<Longrightarrow> draft_ok p d"
  by (induction rule: built.induct) (auto simp: new_span_draft_ok intro: keeps_core_ok step_keeps_core)

lemma normalize_frame [simp]:
  "sd_context (normalize_manual_error d) = sd_context d"
  "sd_parentage (normalize_manual_error d) = sd_parentage d"
  "sd_intent (normalize_manual_error d) = sd_intent d"
  "sd_label (normalize_manual_error d) = sd_label d"
  "sd_subject (normalize_manual_error d) = sd_subject d"
  "sd_manual_name (normalize_manual_error d) = sd_manual_name d"
  "sd_status (normalize_manual_error d) = sd_status d"
  "sd_conversation (normalize_manual_error d) = sd_conversation d"
  "sd_extra (normalize_manual_error d) = sd_extra d"
  "sd_sources (normalize_manual_error d) = sd_sources d"
  "sd_integrity (normalize_manual_error d) = sd_integrity d"
  "sd_gen_ai (normalize_manual_error d) = sd_gen_ai d"
  "sd_operation_label (normalize_manual_error d) = sd_operation_label d"
  "sd_correlation (normalize_manual_error d) = sd_correlation d"
  "draft_name (normalize_manual_error d) = draft_name d"
  by (simp_all add: normalize_manual_error_def draft_name_def split: option.splits)

text \<open>A draft with a marker has been touched, so its integrity record ships.\<close>

definition touched_ok :: "span_draft \<Rightarrow> bool" where
  "touched_ok d \<longleftrightarrow> ib_markers (sd_integrity d) = [] \<or> ib_touched (sd_integrity d)"

lemma fold_put_limitation_touched: "ib_touched (fold put_limitation ms b) \<longleftrightarrow> ib_touched b \<or> ms \<noteq> []"
  by (induction ms arbitrary: b) (simp_all add: put_limitation_def Let_def)

lemma touched_new:
  "touched_ok (vocabulary_draft sid p intent subject source t kind)"
  "touched_ok (transport_draft sid p label subject source t kind')"
  "touched_ok (manual_draft sid p name kind' t source)"
  using built_markers(1) [of "map Member (pa_limitations p)"]
  by (auto simp: touched_ok_def vocabulary_draft_def transport_draft_def manual_draft_def
      new_span_draft_def fold_put_limitation_touched)

lemma touched_same: "sd_integrity d' = sd_integrity d \<Longrightarrow> touched_ok d \<Longrightarrow> touched_ok d'"
  by (simp add: touched_ok_def)

lemma touched_step:
  assumes "draft_step d d'" "touched_ok d"
  shows "touched_ok d'"
  using assms
proof (cases rule: draft_step.cases)
  case (Gen_ai nearest fadd attrs c c')
  then show ?thesis using assms(2) by (auto simp: put_gen_ai_def touched_ok_def split: sum.splits)
next
  case (Marker marker)
  then show ?thesis by (simp add: touched_ok_def put_marker_def put_limitation_def Let_def)
qed (use assms(2) in \<open>auto simp: touched_ok_def rename_def relabel_def draft_setters put_io_def
      on_integrity_def put_error_def add_source_def merge_correlation_def claim_emit_def finish_state
      request_headers_def request_body_def response_headers_def response_body_def
      mark_truncated_def mark_redacted_def dropped_chunks_def Let_def
      split: if_splits option.splits\<close>)

lemma built_touched: "built p d \<Longrightarrow> ib_markers (sd_integrity d) = [] \<or> ib_touched (sd_integrity d)"
  by (induction rule: built.induct) (use touched_new touched_step in \<open>auto simp: touched_ok_def\<close>)

section \<open>What \<open>finish\<close> decides\<close>

lemma first_breach_None: "first_breach es = None \<longleftrightarrow> set es \<subseteq> {None}"
  by (induction es rule: first_breach.induct) auto

lemma normalize_present [simp]: "present (normalize_manual_error d) b = present d b"
  by (cases b) (simp_all add: normalize_manual_error_def)

lemma normalize_not_manual: "sd_manual_name d = None \<Longrightarrow> normalize_manual_error d = d"
  by (simp add: normalize_manual_error_def)

lemma missing_frame [simp]:
  "missing_blocks (normalize_manual_error d) i = missing_blocks d i"
  "missing_keys (normalize_manual_error d) i = missing_keys d i"
  "undeclared_keys (normalize_manual_error d) = undeclared_keys d"
  by (simp_all add: missing_blocks_def missing_keys_def undeclared_keys_def)

lemma check_status_normalized:
  "check_status (normalize_manual_error d) = None \<longleftrightarrow>
   sd_manual_name d \<noteq> None \<or> sd_status d \<noteq> S_ERROR \<or> truthy_text (sd_error_type d)"
  by (auto simp: check_status_def normalize_manual_error_def truthy_text_def)

lemma undeclared_keys_Nil: "undeclared_keys d = [] \<longleftrightarrow> list_all (\<lambda>(k, v). is_declared_extra_key k) (sd_extra d)"
proof -
  have "undeclared_keys d = [] \<longleftrightarrow> filter (\<lambda>k. \<not> is_declared_extra_key k) (map fst (sd_extra d)) = []"
    unfolding undeclared_keys_def by (metis remdups_eq_nil_iff set_sort set_empty)
  then show ?thesis by (auto simp: filter_empty_conv list_all_iff)
qed

definition names_itself :: "span_draft \<Rightarrow> bool" where
  "names_itself d = (case sd_intent d of
     None \<Rightarrow> True
   | Some intent \<Rightarrow>
       (no_subject (sd_subject d) \<or> \<not> suffix (str_lit '' None'') (strip (the (sd_subject d)))) \<and>
       list_all (present d) (required_blocks intent) \<and>
       list_all (\<lambda>k. str_lit k \<in> fst ` set (sd_extra d)) (required_extra_keys intent))"

lemma draft_name_nonempty: "one_mode d \<Longrightarrow> draft_name d \<noteq> []"
  by (auto simp: one_mode_def draft_name_def truthy_text_def split: option.splits)

lemma draft_name_intent:
  "one_mode d \<Longrightarrow> sd_intent d = Some i \<Longrightarrow> draft_name d = vocabulary_name i (sd_subject d)"
  by (auto simp: one_mode_def draft_name_def)

lemma name_and_structure:
  assumes "one_mode d"
  shows "check_name (draft_name d) d = None \<and> check_structure d = None \<longleftrightarrow> names_itself d"
proof (cases "sd_intent d")
  case None
  then show ?thesis using draft_name_nonempty [OF assms]
    by (simp add: check_name_def check_structure_def names_itself_def)
next
  case (Some i)
  have "check_name (draft_name d) d = None \<longleftrightarrow>
      (no_subject (sd_subject d) \<or> \<not> suffix (str_lit '' None'') (strip (the (sd_subject d))))"
    using Some by (simp add: check_name_def draft_name_intent [OF assms Some] refused_subject)
  moreover have "check_structure d = None \<longleftrightarrow>
      list_all (present d) (required_blocks i) \<and>
      list_all (\<lambda>k. str_lit k \<in> fst ` set (sd_extra d)) (required_extra_keys i)"
    using Some by (simp add: check_structure_def missing_blocks_def missing_keys_def
        filter_empty_conv list_all_iff)
  ultimately show ?thesis using Some by (simp add: names_itself_def)
qed

lemma checks_None:
  assumes "draft_ok p d"
  shows "checks conv_id (normalize_manual_error d) = None \<longleftrightarrow>
    names_itself d \<and>
    (sd_manual_name d \<noteq> None \<or>
     (sd_status d \<noteq> S_ERROR \<or> truthy_text (sd_error_type d)) \<and>
     list_all (\<lambda>(k, v). is_declared_extra_key k) (sd_extra d)) \<and>
    pred_option (\<lambda>c. conv_id c \<noteq> []) (sd_conversation d)"
proof -
  let ?n = "normalize_manual_error d"
  have one: "one_mode ?n" using assms by (simp add: draft_ok_def one_mode_def)
  have self: "names_itself ?n = names_itself d"
    by (simp add: names_itself_def list_all_iff split: option.splits)
  have "checks conv_id ?n = None \<longleftrightarrow>
      (check_name (draft_name ?n) ?n = None \<and> check_structure ?n = None) \<and>
      check_status ?n = None \<and> check_conversation conv_id ?n = None \<and>
      check_extra ?n = None \<and> check_trace ?n = None"
    by (auto simp: checks_def first_breach_None)
  moreover have "check_conversation conv_id ?n = None \<longleftrightarrow>
      pred_option (\<lambda>c. conv_id c \<noteq> []) (sd_conversation d)"
    by (auto simp: check_conversation_def split: option.splits)
  moreover have "check_extra ?n = None \<longleftrightarrow>
      sd_manual_name d \<noteq> None \<or> list_all (\<lambda>(k, v). is_declared_extra_key k) (sd_extra d)"
    by (simp add: check_extra_def undeclared_keys_Nil)
  moreover have "check_trace ?n = None" using assms by (simp add: check_trace_def draft_ok_def)
  ultimately show ?thesis
    using name_and_structure [OF one] self check_status_normalized [of d] by auto
qed

lemma finish_result:
  "fst (finish conv_id end_ns d) =
     (case first_given end_ns (sd_end_ns d) of
        None \<Rightarrow> Inl No_end
      | Some t \<Rightarrow>
          (case checks conv_id (normalize_manual_error d) of
             Some e \<Rightarrow> Inl e
           | None \<Rightarrow>
               if list_all is_member (ib_markers (sd_integrity d))
               then Inr (materialized t (normalize_manual_error d))
               else Inl (Stray_markers (filter (\<lambda>m. \<not> is_member m) (ib_markers (sd_integrity d))))))"
  by (auto simp: finish_def Let_def list_all_iff filter_empty_conv split: option.splits)
     
lemma finish_accepts:
  assumes "draft_ok p d"
  shows "fst (finish conv_id end_ns d) = Inr s \<longleftrightarrow>
    (case first_given end_ns (sd_end_ns d) of
       None \<Rightarrow> False
     | Some t \<Rightarrow> s = materialized t (normalize_manual_error d)) \<and>
    names_itself d \<and>
    (sd_manual_name d \<noteq> None \<or>
     (sd_status d \<noteq> S_ERROR \<or> truthy_text (sd_error_type d)) \<and>
     list_all (\<lambda>(k, v). is_declared_extra_key k) (sd_extra d)) \<and>
    pred_option (\<lambda>c. conv_id c \<noteq> []) (sd_conversation d) \<and>
    list_all is_member (ib_markers (sd_integrity d))"
  using checks_None [OF assms, of conv_id]
  by (cases "checks conv_id (normalize_manual_error d)")
     (auto simp: finish_result split: option.splits)

section \<open>Emission, hints, counts\<close>

inductive draft_steps :: "span_draft \<Rightarrow> span_draft \<Rightarrow> bool" where
  Same: "draft_steps d d"
| More: "draft_steps d d' \<Longrightarrow> draft_step d' d'' \<Longrightarrow> draft_steps d d''"

lemma steps_keep_emitted: "draft_steps d d' \<Longrightarrow> sd_emitted d \<Longrightarrow> sd_emitted d'"
  by (induction rule: draft_steps.induct) (auto dest: step_keeps_core simp: keeps_core_def)

lemma fold_merge_correlation:
  "sd_correlation d = Some base \<Longrightarrow>
   \<exists>c. sd_correlation (fold merge_correlation hints d) = Some c \<and>
       ci_strategy c = ci_strategy base \<and>
       ci_active_span_id_at_capture c = ci_active_span_id_at_capture base \<and>
       ci_confidence c = foldl py_min (ci_confidence base) (map ci_confidence hints)"
proof (induction hints arbitrary: d base)
  case Nil
  then show ?case by simp
next
  case (Cons h hints)
  let ?d = "merge_correlation h d"
  obtain c where c: "sd_correlation ?d = Some c" "ci_strategy c = ci_strategy base"
      "ci_active_span_id_at_capture c = ci_active_span_id_at_capture base"
      "ci_confidence c = py_min (ci_confidence base) (ci_confidence h)"
    using Cons.prems by (simp add: merge_correlation_def)
  show ?case using Cons.IH [OF c(1)] c by simp
qed

lemma foldl_py_min_le: "a \<noteq> PNaN \<Longrightarrow> pf_le (foldl py_min a xs) a"
proof (induction xs arbitrary: a)
  case Nil
  then show ?case by (simp add: pf_le_refl)
next
  case (Cons x xs)
  have ok: "py_min a x \<noteq> PNaN" and le: "pf_le (py_min a x) a"
    using Cons.prems by (cases a; cases x; auto simp: py_min_def pf_le_def)+
  from pf_le_trans [OF Cons.IH [OF ok] le] show ?case by simp
qed

text \<open>A block without floats: the count of anything that is not an \<open>int\<close> reads as none.\<close>

fun no_float :: "count_value \<Rightarrow> bool" where
  "no_float (Co_float x) = False"
| "no_float _ = True"

fun tokens :: "count_value \<Rightarrow> int" where
  "tokens (Co_int n) = n"
| "tokens _ = 0"

fun is_count :: "count_value \<Rightarrow> bool" where
  "is_count (Co_int n) = True"
| "is_count _ = False"

lemma count_of_no_float: "no_float v \<Longrightarrow> count_of v = (if is_count v then Some (N_int (tokens v)) else None)"
  by (cases v) simp_all

lemma or_zero_no_float: "no_float v \<Longrightarrow> or_zero (count_of v) = N_int (tokens v)"
  by (cases v) (simp_all add: or_zero_def)

lemma number_less_int [simp]: "number_less (N_int a) (N_int b) \<longleftrightarrow> a < b"
  by (simp add: number_less_def)

lemma inclusive_over_ints:
  assumes "no_float (ga_input_tokens g)" "no_float (ga_output_tokens g)"
    "no_float (ga_cache_read_input_tokens g)" "no_float (ga_cache_creation_input_tokens g)"
    "no_float (ga_reasoning_output_tokens g)"
  shows "violates_inclusive_totals nearest fadd g = Inr
    (is_count (ga_input_tokens g) \<and> tokens (ga_input_tokens g)
       < tokens (ga_cache_read_input_tokens g) + tokens (ga_cache_creation_input_tokens g) \<or>
     is_count (ga_output_tokens g) \<and> tokens (ga_output_tokens g) < tokens (ga_reasoning_output_tokens g))"
  unfolding violates_inclusive_totals_def assms [THEN or_zero_no_float]
  by (simp add: assms count_of_no_float)

section \<open>The registry's view of a draft\<close>

definition span_force_close :: "limitation \<Rightarrow> int \<Rightarrow> span_draft \<Rightarrow> span_draft" where
  "span_force_close marker end_ns d =
     put_end_ns end_ns (put_status S_UNSET [] (put_marker (Member marker) d))"

definition span_close :: "status_code \<Rightarrow> py_text option \<Rightarrow> int \<Rightarrow> span_draft \<Rightarrow> span_draft" where
  "span_close status err end_ns d =
     (let d = put_status status [] d;
          d = (if err \<noteq> None then put_error err [] d else d)
      in put_end_ns end_ns d)"

definition span_finalize ::
  "work_unit \<Rightarrow> status_code \<Rightarrow> py_text option \<Rightarrow> int \<Rightarrow> span_draft \<Rightarrow> span_draft" where
  "span_finalize x status err end_ns d =
     (let d = (if un_input_recorded x \<or> un_output_recorded x
               then put_io (un_input x) (un_output x) (un_input_recorded x) (un_output_recorded x) d
               else d);
          d = (if (un_input_recorded x \<or> un_output_recorded x) \<and>
                  (un_input_truncated x \<or> un_output_truncated x)
               then on_integrity (mark_truncated True) d else d)
      in span_close status err end_ns d)"

definition stands_for :: "span_draft \<Rightarrow> draft \<Rightarrow> bool" where
  "stands_for d u \<longleftrightarrow>
     dr_context u = sd_context d \<and> dr_conversation u = sd_conversation d \<and>
     map Member (dr_limitations u) = ib_markers (sd_integrity d) \<and>
     (case dr_io u of
        None \<Rightarrow> sd_input_data d = [] \<and> sd_output_data d = [] \<and>
                \<not> ib_req_body (sd_integrity d) \<and> \<not> ib_resp_body (sd_integrity d)
      | Some (i, out, tried_in, tried_out) \<Rightarrow>
          sd_input_data d = i \<and> sd_output_data d = out \<and>
          ib_req_body (sd_integrity d) = tried_in \<and> ib_resp_body (sd_integrity d) = tried_out) \<and>
     dr_truncated u = ib_truncated (sd_integrity d) \<and>
     dr_status u = sd_status d \<and> dr_error_type u = sd_error_type d \<and> dr_end u = sd_end_ns d \<and>
     dr_emitted u = sd_emitted d"

lemma fold_put_limitation_flags:
  "ib_req_body (fold put_limitation ms b) = ib_req_body b \<and>
   ib_resp_body (fold put_limitation ms b) = ib_resp_body b \<and>
   ib_truncated (fold put_limitation ms b) = ib_truncated b"
  by (induction ms arbitrary: b) (simp_all add: put_limitation_def Let_def)

lemma put_limitation_flags [simp]:
  "ib_req_body (put_limitation m b) = ib_req_body b"
  "ib_resp_body (put_limitation m b) = ib_resp_body b"
  "ib_truncated (put_limitation m b) = ib_truncated b"
  by (simp_all add: put_limitation_def Let_def)

lemma held_fold_put_limitation:
  "ib_markers (fold put_limitation ms b) =
   ib_markers b @ rev (remdups (rev (filter (\<lambda>m. m \<notin> set (ib_markers b)) ms)))"
proof (induction ms arbitrary: b)
  case Nil
  then show ?case by simp
next
  case (Cons m ms)
  have drop: "rev (remdups (rev xs @ [m])) = m # rev (remdups (rev (filter (\<lambda>x. x \<noteq> m) xs)))" for xs :: "span_marker list"
    by (induction xs rule: rev_induct) auto
  show ?case
  proof (cases "m \<in> set (ib_markers b)")
    case True
    then show ?thesis using Cons.IH [of "put_limitation m b"] by (simp add: integrity.held_attach)
  next
    case False
    then have "ib_markers (put_limitation m b) = ib_markers b @ [m]" by (simp add: integrity.held_attach)
    with Cons.IH [of "put_limitation m b"] False show ?thesis
      by (simp add: drop conj_commute)
  qed
qed

lemma stands_for_new:
  "stands_for (new_span_draft sid p intent subject source t kind) (new_draft sid p faulty)"
proof -
  have "map Member (remdups xs) = remdups (map Member xs)" for xs by (induction xs) auto
  then have "map Member (rev (remdups (rev ms))) = rev (remdups (rev (map Member ms)))" for ms
    by (simp add: rev_map [symmetric])
  then show ?thesis
    by (simp add: stands_for_def new_span_draft_def new_draft_def held_fold_put_limitation
        fold_put_limitation_flags) (simp add: new_integrity_def)
qed

lemma stands_for_limitation:
  assumes "stands_for d u"
  shows "stands_for (put_marker (Member m) d) (add_limitation m u)"
proof -
  have markers: "ib_markers (sd_integrity d) = map Member (dr_limitations u)"
    using assms by (simp add: stands_for_def)
  then have "Member m \<in> set (ib_markers (sd_integrity d)) \<longleftrightarrow> m \<in> set (dr_limitations u)" by auto
  with assms show ?thesis
    by (auto simp: stands_for_def put_marker_def add_limitation_def integrity.held_attach
        split: option.splits)
qed

lemma stands_for_force_close:
  "stands_for d u \<Longrightarrow> stands_for (span_force_close m end_ns d) (force_close m end_ns u)"
  using stands_for_limitation [of d u m]
  by (auto simp: stands_for_def span_force_close_def force_close_def draft_setters split: option.splits)

lemma stands_for_close:
  "stands_for d u \<Longrightarrow> stands_for (span_close status err end_ns d)
     (u\<lparr>dr_status := status, dr_error_type := (if err = None then dr_error_type u else err),
        dr_end := Some end_ns\<rparr>)"
  by (auto simp: stands_for_def span_close_def draft_setters put_error_def Let_def split: option.splits)

lemma stands_for_finalize:
  assumes "stands_for d u"
  shows "stands_for (span_finalize x status err end_ns d) (finalize_draft x status err end_ns u)"
  using assms
  by (auto simp: stands_for_def span_finalize_def finalize_draft_def span_close_def draft_setters
      put_io_def put_error_def on_integrity_def mark_truncated_def request_body_def response_body_def
      Let_def split: option.splits)

lemma stands_for_claim:
  "stands_for d u \<Longrightarrow> fst (claim_emit d) = (\<not> dr_emitted u) \<and>
     stands_for (snd (claim_emit d)) (u\<lparr>dr_emitted := True\<rparr>)"
  by (auto simp: stands_for_def claim_emit_def split: option.splits)

lemma stands_for_conversation:
  "stands_for d u \<Longrightarrow> stands_for (put_conversation conv d) (u\<lparr>dr_conversation := conv\<rparr>)"
  by (auto simp: stands_for_def draft_setters split: option.splits)

end
