(* ===== verification/Snapshot.thy ===== *)
theory Snapshot
  imports Builder_Laws
begin

text \<open>
  \<open>_assembly/_snapshot.py\<close>: a state snapshot under construction. It names an existing
  span (the parent of the resolved edge), carries the caller's attributes and ships
  its own markers under one attribute key, which no caller can write.

  A tool set and an input reference are references the draft only carries. The type
  argument of the published call is a member, a string, or anything else.
\<close>

datatype snapshot_type = SPAN_START | SPAN_END | TURN_START

primrec snapshot_type_value :: "snapshot_type \<Rightarrow> string" where
  "snapshot_type_value SPAN_START = ''span_start''"
| "snapshot_type_value SPAN_END = ''span_end''"
| "snapshot_type_value TURN_START = ''turn_start''"

definition SNAPSHOT_TYPES :: "(py_text \<times> snapshot_type) list" where
  "SNAPSHOT_TYPES = map (\<lambda>t. (str_lit (snapshot_type_value t), t)) [SPAN_START, SPAN_END, TURN_START]"

datatype type_arg = Ty_member snapshot_type | Ty_text py_text | Ty_other

definition NO_SPAN :: span_id where
  "NO_SPAN = replicate 8 0"

definition SNAPSHOT_INTEGRITY_KEY :: py_text where
  "SNAPSHOT_INTEGRITY_KEY = str_lit ''wardex.limitations''"

fun coerce_snapshot_type :: "type_arg \<Rightarrow> py_text \<times> bool" where
  "coerce_snapshot_type (Ty_member t) = (str_lit (snapshot_type_value t), True)"
| "coerce_snapshot_type (Ty_text v) =
     (case map_of SNAPSHOT_TYPES v of
        Some known \<Rightarrow> (str_lit (snapshot_type_value known), True)
      | None \<Rightarrow> ([], False))"
| "coerce_snapshot_type Ty_other = ([], False)"

record snapshot_draft =
  sn_parentage :: parentage
  sn_snapshot_type :: py_text
  sn_turn_index :: int
  sn_conversation_state :: bytes
  sn_tool_definitions :: "payload option"
  sn_input_refs :: "payload list"
  sn_attrs :: "(py_text \<times> scalar) list"
  sn_markers :: "span_marker list"

record state_snapshot =
  ss_trace_id :: trace_id
  ss_span_id :: span_id
  ss_timestamp_ns :: int
  ss_snapshot_type :: py_text
  ss_turn_index :: int
  ss_conversation_state :: bytes
  ss_tool_definitions :: "payload option"
  ss_attributes :: "(py_text \<times> scalar) list"
  ss_input_refs :: "payload list"

definition snapshot_limitation :: "span_marker \<Rightarrow> snapshot_draft \<Rightarrow> snapshot_draft" where
  "snapshot_limitation marker d =
     (if marker \<notin> set (sn_markers d) then d\<lparr>sn_markers := sn_markers d @ [marker]\<rparr> else d)"

definition new_snapshot :: "parentage \<Rightarrow> type_arg \<Rightarrow> int \<Rightarrow> snapshot_draft" where
  "new_snapshot p ty turn_index =
     (let (wire, recognized) = coerce_snapshot_type ty;
          d = \<lparr>sn_parentage = p, sn_snapshot_type = wire, sn_turn_index = turn_index,
               sn_conversation_state = [], sn_tool_definitions = None, sn_input_refs = [],
               sn_attrs = [], sn_markers = map Member (pa_limitations p)\<rparr>
      in if recognized then d else snapshot_limitation (Member SNAPSHOT_TYPE_UNKNOWN) d)"

definition snapshot_state :: "bytes \<Rightarrow> snapshot_draft \<Rightarrow> snapshot_draft" where
  "snapshot_state data d = d\<lparr>sn_conversation_state := data\<rparr>"

definition snapshot_tools :: "payload option \<Rightarrow> snapshot_draft \<Rightarrow> snapshot_draft" where
  "snapshot_tools defs d = d\<lparr>sn_tool_definitions := defs\<rparr>"

definition snapshot_input_ref :: "payload \<Rightarrow> snapshot_draft \<Rightarrow> snapshot_draft" where
  "snapshot_input_ref ref d = d\<lparr>sn_input_refs := sn_input_refs d @ [ref]\<rparr>"

definition snapshot_extra :: "py_text \<times> scalar \<Rightarrow> snapshot_draft \<Rightarrow> snapshot_draft" where
  "snapshot_extra kv d =
     (if fst kv = SNAPSHOT_INTEGRITY_KEY then d else d\<lparr>sn_attrs := sn_attrs d @ [kv]\<rparr>)"

definition snapshot_extras :: "(py_text \<times> scalar) list option \<Rightarrow> snapshot_draft \<Rightarrow> snapshot_draft" where
  "snapshot_extras attributes d =
     (case attributes of None \<Rightarrow> d | Some kvs \<Rightarrow> fold snapshot_extra kvs d)"

fun marker_text :: "span_marker \<Rightarrow> py_text" where
  "marker_text (Member m) = str_lit (limitation_value m)"
| "marker_text (Stray t) = t"

fun comma_join :: "py_text list \<Rightarrow> py_text" where
  "comma_join [] = []"
| "comma_join [t] = t"
| "comma_join (t # ts) = t @ str_lit '','' @ comma_join ts"

definition finish_snapshot :: "int \<Rightarrow> snapshot_draft \<Rightarrow> vocab_error + state_snapshot" where
  "finish_snapshot timestamp_ns d =
     (let stray = filter (\<lambda>m. \<not> is_member m) (sn_markers d)
      in if stray \<noteq> [] then Inl (Stray_markers stray)
         else Inr \<lparr>ss_trace_id = pa_trace_id (sn_parentage d),
                   ss_span_id = (case pa_parent_span_id (sn_parentage d) of
                                   Some parent \<Rightarrow> parent | None \<Rightarrow> NO_SPAN),
                   ss_timestamp_ns = timestamp_ns, ss_snapshot_type = sn_snapshot_type d,
                   ss_turn_index = sn_turn_index d, ss_conversation_state = sn_conversation_state d,
                   ss_tool_definitions = sn_tool_definitions d,
                   ss_attributes = sn_attrs d @
                     (if sn_markers d \<noteq> []
                      then [(SNAPSHOT_INTEGRITY_KEY, Sc_str (comma_join (map marker_text (sn_markers d))))]
                      else []),
                   ss_input_refs = sn_input_refs d\<rparr>)"

section \<open>Library lemmas\<close>

interpretation snapshot: settled_carrier snapshot_limitation sn_markers
  by unfold_locales (simp_all add: snapshot_limitation_def)

text \<open>The markers are read back from the one attribute: no wire value holds a comma.\<close>

fun comma_split :: "py_text \<Rightarrow> py_text list" where
  "comma_split [] = [[]]"
| "comma_split (c # cs) =
     (case comma_split cs of
        t # ts \<Rightarrow> if c = 44 then [] # t # ts else (c # t) # ts
      | [] \<Rightarrow> [])"

lemma comma_split_nonempty: "comma_split t \<noteq> []"
  by (induction t) (auto split: list.splits)

lemma comma_split_plain: "44 \<notin> set t \<Longrightarrow> comma_split t = [t]"
  by (induction t) auto

lemma comma_split_append:
  "44 \<notin> set t \<Longrightarrow> comma_split (t @ 44 # rest) = t # comma_split rest"
  by (induction t) (auto split: list.splits simp: comma_split_nonempty)

lemma comma_split_join:
  "ts \<noteq> [] \<Longrightarrow> list_all (\<lambda>t. 44 \<notin> set t) ts \<Longrightarrow> comma_split (comma_join ts) = ts"
  by (induction ts rule: comma_join.induct)
     (simp_all add: comma_split_plain comma_split_append str_lit_def)

lemma no_comma_in_marker: "44 \<notin> set (str_lit (limitation_value m))"
  by (cases m) (simp_all add: str_lit_def)

lemma markers_read_back:
  assumes "ms \<noteq> []" "list_all is_member ms"
  shows "comma_split (comma_join (map marker_text ms)) = map marker_text ms"
proof (rule comma_split_join)
  show "list_all (\<lambda>t. 44 \<notin> set t) (map marker_text ms)"
  proof -
    have "44 \<notin> set (marker_text m)" if "is_member m" for m
      using that by (cases m) (simp_all add: no_comma_in_marker)
    with assms(2) show ?thesis by (simp add: list_all_iff)
  qed
qed (use assms in simp)

lemma fold_snapshot_extra_attrs:
  "sn_attrs (fold snapshot_extra kvs d) =
   sn_attrs d @ filter (\<lambda>kv. fst kv \<noteq> SNAPSHOT_INTEGRITY_KEY) kvs"
  by (induction kvs arbitrary: d) (simp_all add: snapshot_extra_def)

inductive snapshot_step :: "snapshot_draft \<Rightarrow> snapshot_draft \<Rightarrow> bool" where
  State: "snapshot_step d (snapshot_state data d)"
| Tools: "snapshot_step d (snapshot_tools defs d)"
| Input_ref: "snapshot_step d (snapshot_input_ref ref d)"
| Limit: "snapshot_step d (snapshot_limitation marker d)"
| Extra_kv: "snapshot_step d (snapshot_extra kv d)"
| Extras: "snapshot_step d (snapshot_extras attributes d)"

inductive snapshot_built :: "parentage \<Rightarrow> type_arg \<Rightarrow> snapshot_draft \<Rightarrow> bool" for p ty where
  Fresh: "snapshot_built p ty (new_snapshot p ty turn_index)"
| Then: "snapshot_built p ty d \<Longrightarrow> snapshot_step d d' \<Longrightarrow> snapshot_built p ty d'"

definition snapshot_ok :: "parentage \<Rightarrow> type_arg \<Rightarrow> snapshot_draft \<Rightarrow> bool" where
  "snapshot_ok p ty d \<longleftrightarrow>
     sn_parentage d = p \<and> sn_snapshot_type d = fst (coerce_snapshot_type ty) \<and>
     SNAPSHOT_INTEGRITY_KEY \<notin> fst ` set (sn_attrs d) \<and>
     Member ` set (pa_limitations p) \<subseteq> set (sn_markers d) \<and>
     (snd (coerce_snapshot_type ty) \<or> Member SNAPSHOT_TYPE_UNKNOWN \<in> set (sn_markers d)) \<and>
     (distinct (pa_limitations p) \<longrightarrow> distinct (sn_markers d))"

lemma snapshot_step_ok:
  assumes "snapshot_step d d'" "snapshot_ok p ty d"
  shows "snapshot_ok p ty d'"
  using assms
proof (induction rule: snapshot_step.induct)
  case (Limit d marker)
  have "sn_parentage (snapshot_limitation marker d) = sn_parentage d"
    "sn_snapshot_type (snapshot_limitation marker d) = sn_snapshot_type d"
    "sn_attrs (snapshot_limitation marker d) = sn_attrs d"
    by (simp_all add: snapshot_limitation_def)
  with Limit show ?case
    by (auto simp: snapshot_ok_def snapshot.set_held snapshot.distinct_held)
next
  case (Extras d attributes)
  have frame: "sn_parentage (fold snapshot_extra kvs d) = sn_parentage d \<and>
      sn_snapshot_type (fold snapshot_extra kvs d) = sn_snapshot_type d \<and>
      sn_markers (fold snapshot_extra kvs d) = sn_markers d" for kvs
    by (induction kvs arbitrary: d) (simp_all add: snapshot_extra_def)
  show ?case using Extras frame
    by (auto simp: snapshot_ok_def snapshot_extras_def fold_snapshot_extra_attrs split: option.splits)
qed (auto simp: snapshot_ok_def snapshot_state_def snapshot_tools_def snapshot_input_ref_def
    snapshot_extra_def)

lemma snapshot_built_ok: "snapshot_built p ty d \<Longrightarrow> snapshot_ok p ty d"
proof (induction rule: snapshot_built.induct)
  case (Fresh turn_index)
  have inj: "distinct (map Member ms) = distinct ms" for ms by (simp add: distinct_map inj_on_def)
  show ?case
    by (auto simp: snapshot_ok_def new_snapshot_def snapshot_limitation_def inj Let_def
        split: prod.splits)
qed (rule snapshot_step_ok)

end
