(* ===== verification/Builder_Claims.thy ===== *)
theory Builder_Claims
  imports Snapshot
begin

text \<open>
  The properties of the span constructor and of state snapshots, each with the
  concrete draft it is evaluated on.
\<close>

section \<open>Concrete drafts\<close>

definition demo_edge :: parentage where
  "demo_edge = resolve_parentage [1, 2] \<lparr>am_span_context = Some \<lparr>sc_trace_id = [7], sc_span_id = [8],
     sc_trace_flags = 1, sc_is_remote = False\<rparr>, am_conversation = None, am_tracestate = None\<rparr>
     (evidence_of UNIT_SOLE)"

definition demo_block :: gen_ai where
  "demo_block = \<lparr>ga_operation = str_lit ''x'', ga_input_tokens = Co_int 10, ga_output_tokens = Co_int 4,
     ga_cache_read_input_tokens = Co_int 6, ga_cache_creation_input_tokens = Co_none,
     ga_reasoning_output_tokens = Co_int 5, ga_rest = 0\<rparr>"

definition demo_chat :: "string \<Rightarrow> span_draft" where
  "demo_chat subject =
     vocabulary_draft [9] demo_edge CHAT (Some (str_lit subject)) FROM_ADAPTER 100 None"

definition demo_counted :: span_draft where
  "demo_counted = snd (projr (put_gen_ai (\<lambda>n. PFin 0) (\<lambda>a b. a) demo_block [] (demo_chat ''claude'')))"

definition demo_ended :: span_draft where
  "demo_ended = put_end_ns 200 demo_counted"

lemma demo_counted_step: "draft_step (demo_chat subject)
    (snd (projr (put_gen_ai (\<lambda>n. PFin 0) (\<lambda>a b. a) demo_block [] (demo_chat subject))))"
  by (rule draft_step.Gen_ai [of "\<lambda>n. PFin 0" "\<lambda>a b. a" demo_block "[]"])
     (simp add: put_gen_ai_def violates_inclusive_totals_def demo_block_def or_zero_def split: sum.splits)

lemma demo_ended_built: "built demo_edge demo_ended"
  unfolding demo_ended_def demo_counted_def
  by (rule built.Called [OF built.Called [OF built.Vocabulary demo_counted_step [unfolded demo_chat_def]] draft_step.End,
        folded demo_chat_def])

lemma demo_ended_eq: "demo_ended = (demo_chat ''claude'')\<lparr>sd_gen_ai := Some demo_block, sd_end_ns := Some 200\<rparr>"
  by (simp add: demo_ended_def demo_counted_def put_end_ns_def put_gen_ai_def
      violates_inclusive_totals_def demo_block_def or_zero_def)

definition demo_snapshot :: snapshot_draft where
  "demo_snapshot = snapshot_extras (Some [(str_lit ''wardex.limitations'', Sc_str []), (str_lit ''k'', Sc_int 1)])
     (new_snapshot demo_edge (Ty_text (str_lit ''turn'')) 0)"

lemma demo_snapshot_markers:
  "sn_markers demo_snapshot = [Member UNIT_INFERRED_SOLE, Member SNAPSHOT_TYPE_UNKNOWN]"
  by (simp add: demo_snapshot_def new_snapshot_def snapshot_extras_def snapshot_extra_def
      SNAPSHOT_TYPES_def SNAPSHOT_INTEGRITY_KEY_def snapshot_limitation_def demo_edge_def
      resolve_parentage_def evidence_of_def markers_for_def Let_def)

section \<open>Finishing\<close>

text \<open>C10: \<open>finish\<close> accepts a draft in exactly these cases, whatever calls led to it, and what it
  then returns is the materialized draft. It needs an end; an interpreted span needs a subject
  that does not end in the word \<open>None\<close>, the blocks and the keys of its intent; a span the
  SDK names itself needs a type for its error and declared keys only, where a span the host
  named is exempt from both; a conversation needs an id; every marker is a member of the
  vocabulary. Nothing else deletes a span.\<close>

theorem finish_accepts_exactly:
  assumes "built p d"
  shows "fst (finish conv_id end_ns d) = Inr s \<longleftrightarrow>
    (case first_given end_ns (sd_end_ns d) of
       None \<Rightarrow> False
     | Some t \<Rightarrow> s = materialized t (normalize_manual_error d)) \<and>
    (case sd_intent d of
       None \<Rightarrow> True
     | Some intent \<Rightarrow>
         (no_subject (sd_subject d) \<or> \<not> suffix (str_lit '' None'') (strip (the (sd_subject d)))) \<and>
         list_all (present d) (required_blocks intent) \<and>
         list_all (\<lambda>k. str_lit k \<in> fst ` set (sd_extra d)) (required_extra_keys intent)) \<and>
    (sd_manual_name d \<noteq> None \<or>
     (sd_status d \<noteq> S_ERROR \<or> truthy_text (sd_error_type d)) \<and>
     list_all (\<lambda>(k, v). is_declared_extra_key k) (sd_extra d)) \<and>
    pred_option (\<lambda>c. conv_id c \<noteq> []) (sd_conversation d) \<and>
    list_all is_member (ib_markers (sd_integrity d))"
  using finish_accepts [OF built_ok [OF assms], unfolded names_itself_def] .

lemma demo_ended_facts:
  "sd_intent demo_ended = Some CHAT" "sd_subject demo_ended = Some (str_lit ''claude'')"
  "sd_end_ns demo_ended = Some 200" "sd_manual_name demo_ended = None"
  "sd_status demo_ended = S_UNSET" "sd_extra demo_ended = []" "sd_conversation demo_ended = None"
  "sd_gen_ai demo_ended = Some demo_block"
  "ib_markers (sd_integrity demo_ended) = [Member UNIT_INFERRED_SOLE]"
  "strip (str_lit ''claude'') = str_lit ''claude''"
  by (simp_all add: demo_ended_eq demo_chat_def vocabulary_draft_def new_span_draft_def demo_edge_def
      resolve_parentage_def evidence_of_def markers_for_def put_limitation_def Let_def
      strip_def is_space_def str_lit_def)

theorem finish_accepts_exactly_witness:
  "fst (finish (\<lambda>c. []) None demo_ended) = Inr (materialized 200 demo_ended)"
proof -
  have "\<not> suffix (str_lit '' None'') (str_lit ''claude'')" by (simp add: str_lit_def suffix_def)
  then show ?thesis
    using finish_accepts_exactly [OF demo_ended_built, of "\<lambda>c. []" None "materialized 200 demo_ended"]
    by (simp add: demo_ended_facts first_given_def required_blocks_def required_extra_keys_def
        normalize_not_manual no_subject_def)
qed

text \<open>C11: every span that reaches the wire is whole. It stays in its edge's trace under its edge's
  parent, has a name, at least one observer and none twice, a type for its error, a
  conversation with an id; every marker of its edge is on it, no marker twice and none outside
  the vocabulary; an interpreted span carries the operation of its intent, in its \<open>gen_ai\<close>
  block if it has one and as the first attribute otherwise.\<close>

theorem finished_span_is_whole:
  assumes "built p d"
    and "fst (finish conv_id end_ns d) = Inr s"
  shows "sc_trace_id (fs_context s) = pa_trace_id p \<and>
    fs_parent_span_id s = pa_parent_span_id p \<and>
    fs_name s \<noteq> [] \<and>
    fs_capture_sources s \<noteq> [] \<and>
    distinct (fs_capture_sources s) \<and>
    (fs_status s \<noteq> S_ERROR \<or> truthy_text (fs_error_type s)) \<and>
    pred_option (\<lambda>c. conv_id c \<noteq> []) (fs_conversation s) \<and>
    Member ` set (pa_limitations p) \<subseteq>
         (case fs_capture_integrity s of None \<Rightarrow> {} | Some g \<Rightarrow> set (cg_limitations g)) \<and>
    pred_option (\<lambda>g. distinct (cg_limitations g) \<and> list_all is_member (cg_limitations g))
           (fs_capture_integrity s) \<and>
    (case sd_intent d of
           None \<Rightarrow> True
         | Some intent \<Rightarrow>
             (case fs_gen_ai s of
                Some g \<Rightarrow> ga_operation g = str_lit (intent_value intent) \<and> fs_extra s = sd_extra d
              | None \<Rightarrow> fs_extra s = (OPERATION_KEY, Sc_str (str_lit (intent_value intent))) # sd_extra d))"
proof (intro conjI)
  let ?n = "normalize_manual_error d"
  note ok = built_ok [OF assms(1)]
  obtain t where s: "s = materialized t ?n"
    using assms(2) unfolding finish_accepts [OF ok] by (auto split: option.splits)
  have acc: "sd_manual_name d \<noteq> None \<or> sd_status d \<noteq> S_ERROR \<or> truthy_text (sd_error_type d)"
    and conv: "pred_option (\<lambda>c. conv_id c \<noteq> []) (sd_conversation d)"
    and mem: "list_all is_member (ib_markers (sd_integrity d))"
    using assms(2) unfolding finish_accepts [OF ok] by auto
  show "sc_trace_id (fs_context s) = pa_trace_id p" "fs_parent_span_id s = pa_parent_span_id p"
    "fs_capture_sources s \<noteq> []" "distinct (fs_capture_sources s)"
    using ok by (simp_all add: s materialized_def draft_ok_def)
  show "fs_name s \<noteq> []"
    using ok draft_name_nonempty [of d] by (simp add: s materialized_def draft_ok_def)
  show "fs_status s \<noteq> S_ERROR \<or> truthy_text (fs_error_type s)"
    using acc check_status_normalized [of d]
    by (auto simp: s materialized_def check_status_def split: if_splits)
  show "pred_option (\<lambda>c. conv_id c \<noteq> []) (fs_conversation s)"
    using conv by (simp add: s materialized_def)
  show "Member ` set (pa_limitations p) \<subseteq>
      (case fs_capture_integrity s of None \<Rightarrow> {} | Some g \<Rightarrow> set (cg_limitations g))"
    using ok built_touched [OF assms(1)]
    by (auto simp: s materialized_def build_integrity_def draft_ok_def)
  show "pred_option (\<lambda>g. distinct (cg_limitations g) \<and> list_all is_member (cg_limitations g))
      (fs_capture_integrity s)"
    using ok mem by (simp add: s materialized_def build_integrity_def draft_ok_def)
  show "case sd_intent d of
           None \<Rightarrow> True
         | Some intent \<Rightarrow>
             (case fs_gen_ai s of
                Some g \<Rightarrow> ga_operation g = str_lit (intent_value intent) \<and> fs_extra s = sd_extra d
              | None \<Rightarrow> fs_extra s = (OPERATION_KEY, Sc_str (str_lit (intent_value intent))) # sd_extra d)"
    by (auto simp: s materialized_def carried_gen_ai_def carried_extra_def split: option.splits)
qed

theorem finished_span_is_whole_witness:
  "fs_parent_span_id (materialized 200 demo_ended) = Some [8] \<and>
   fs_name (materialized 200 demo_ended) \<noteq> []"
proof -
  have "\<not> suffix (str_lit '' None'') (str_lit ''claude'')" by (simp add: str_lit_def suffix_def)
  then have fin: "fst (finish (\<lambda>c. []) None demo_ended) = Inr (materialized 200 demo_ended)"
    using finish_accepts [OF built_ok [OF demo_ended_built], of "\<lambda>c. []" None "materialized 200 demo_ended"]
    by (simp add: demo_ended_facts first_given_def required_blocks_def required_extra_keys_def
        normalize_not_manual no_subject_def names_itself_def)
  have "pa_parent_span_id demo_edge = Some [8]"
    by (simp add: demo_edge_def resolve_parentage_def Let_def)
  with finished_span_is_whole [OF demo_ended_built fin] show ?thesis by simp
qed

text \<open>The grammar of names. The operation of an interpreted span's name is the wire value of
  its intent and the rest is the stripped subject, or nothing when the subject was absent, blank
  or the word \<open>None\<close>; a transport name starts with its label, so no transport name is the name
  of an interpreted span.\<close>

theorem names_are_read_back:
  "operation_of (vocabulary_name intent subject) = str_lit (intent_value intent) \<and>
   subject_of (vocabulary_name intent subject) =
     (if no_subject subject then [] else strip (the subject)) \<and>
   operation_of (transport_name label subject') = str_lit (label_value label) \<and>
   vocabulary_name intent subject \<noteq> transport_name label subject'"
  by (metis operation_of_vocabulary_name subject_of_vocabulary_name operation_of_transport_name
      label_is_no_intent str_lit_inject)

text \<open>A subject whose last word is \<open>None\<close> deletes the span, though the subject was given: the
  check meant for an interpolated missing subject reads the finished name.\<close>

theorem subject_ending_in_none_deletes:
  assumes "built p d" "sd_intent d = Some intent" "sd_subject d = Some subject"
    and "suffix (str_lit '' None'') (strip subject)"
    and "first_given end_ns (sd_end_ns d) \<noteq> None"
  shows "fst (finish conv_id end_ns d) = Inl Missing_subject"
proof -
  have one: "one_mode d" using built_ok [OF assms(1)] by (simp add: draft_ok_def)
  have "strip subject \<noteq> []" "strip subject \<noteq> str_lit ''None''"
    using assms(4) by (auto simp: str_lit_def suffix_def)
  then have "check_name (draft_name d) (normalize_manual_error d) = Some Missing_subject"
    using refused_subject [of intent "Some subject"] assms
    by (simp add: check_name_def draft_name_intent [OF one assms(2)] no_subject_def)
  then have "checks conv_id (normalize_manual_error d) = Some Missing_subject"
    by (simp add: checks_def)
  with assms(5) show ?thesis by (auto simp: finish_result)
qed

theorem subject_ending_in_none_deletes_witness:
  "fst (finish (\<lambda>c. []) (Some 200) (demo_chat ''Order None'')) = Inl Missing_subject"
proof (rule subject_ending_in_none_deletes)
  show "built demo_edge (demo_chat ''Order None'')" unfolding demo_chat_def by (rule built.Vocabulary)
  show "sd_intent (demo_chat ''Order None'') = Some CHAT"
    "sd_subject (demo_chat ''Order None'') = Some (str_lit ''Order None'')"
    by (simp_all add: demo_chat_def vocabulary_draft_def new_span_draft_def)
  show "suffix (str_lit '' None'') (strip (str_lit ''Order None''))"
    by (simp add: strip_def is_space_def str_lit_def suffix_def)
  show "first_given (Some 200) (sd_end_ns (demo_chat ''Order None'')) \<noteq> None"
    by (simp add: first_given_def)
qed

section \<open>Emission and hints\<close>

text \<open>A draft is handed to a sink at most once. The first claim of a draft that was never
  claimed is granted, and after a claim no sequence of calls makes another one succeed, so no
  two spans leave under one span id.\<close>

theorem draft_is_claimed_once:
  assumes "draft_steps (snd (claim_emit d)) d'"
  shows "fst (claim_emit d) = (\<not> sd_emitted d) \<and>
    fst (claim_emit d') = False \<and>
    sd_context d' = sd_context d"
proof (intro conjI)
  have "sd_emitted (snd (claim_emit d))" by (simp add: claim_emit_def)
  with assms have "sd_emitted d'" by (rule steps_keep_emitted)
  then show "fst (claim_emit d') = False" by (simp add: claim_emit_def)
  show "fst (claim_emit d) = (\<not> sd_emitted d)" by (simp add: claim_emit_def)
  have "sd_context y = sd_context x" if "draft_steps x y" for x y
    using that by (induction rule: draft_steps.induct) (auto dest: step_keeps_core simp: keeps_core_def)
  from this [OF assms] show "sd_context d' = sd_context d" by (simp add: claim_emit_def)
qed

theorem draft_is_claimed_once_witness:
  "fst (claim_emit (put_status S_OK [] (snd (claim_emit demo_ended)))) = False"
  using draft_is_claimed_once [OF draft_steps.More [OF draft_steps.Same draft_step.Status]] by blast

text \<open>A framework's hint can only lower the trust in an edge. Whatever hints are merged into
  a draft of a resolved edge, the confidence is the least of the edge's own and theirs, never
  above what the table grants the edge's source, and the source and the span that was active
  stay the ones the edge decided.\<close>

theorem hints_only_lower_trust:
  "\<exists>c. sd_correlation (fold merge_correlation hints
         (new_span_draft sid (resolve_parentage fresh amb ev) intent subject source t kind)) = Some c \<and>
       ci_confidence c = foldl py_min (ci_confidence (pa_correlation (resolve_parentage fresh amb ev)))
                           (map ci_confidence hints) \<and>
       pf_le (ci_confidence c) (PFin (confidence_table
         (the (ci_strategy (pa_correlation (resolve_parentage fresh amb ev)))))) \<and>
       ci_strategy c = ci_strategy (pa_correlation (resolve_parentage fresh amb ev)) \<and>
       ci_active_span_id_at_capture c = map_option sc_span_id (am_span_context amb)"
proof -
  let ?p = "resolve_parentage fresh amb ev"
  let ?base = "pa_correlation ?p" and ?d = "new_span_draft sid ?p intent subject source t kind"
  obtain c where c: "sd_correlation (fold merge_correlation hints ?d) = Some c"
      "ci_strategy c = ci_strategy ?base"
      "ci_active_span_id_at_capture c = ci_active_span_id_at_capture ?base"
      "ci_confidence c = foldl py_min (ci_confidence ?base) (map ci_confidence hints)"
    using fold_merge_correlation [of ?d ?base hints] by (auto simp: new_span_draft_def)
  have src: "ci_confidence ?base = confidence_for (the (ci_strategy ?base)) ev"
    "ci_active_span_id_at_capture ?base = map_option sc_span_id (am_span_context amb)"
    by (simp_all add: resolve_parentage_def Let_def split: option.splits)
  have range: "pf_le (ci_confidence ?base) (PFin (confidence_table (the (ci_strategy ?base))))"
    using confidence_for_range [of "the (ci_strategy ?base)" ev] by (simp add: src)
  have number: "ci_confidence ?base \<noteq> PNaN"
    using confidence_for_range [of "the (ci_strategy ?base)" ev] by (auto simp: src pf_le_def)
  have "pf_le (ci_confidence c) (PFin (confidence_table (the (ci_strategy ?base))))"
    using pf_le_trans [OF foldl_py_min_le [OF number] range] by (simp add: c(4))
  with c src show ?thesis by simp
qed

section \<open>Counts\<close>

text \<open>Attaching a \<open>gen_ai\<close> block whose counts are integers, absent, or no numbers at all
  never fails and never changes the block; the violation of the inclusive totals is counted
  exactly when a total that is an integer is smaller than what it must contain.\<close>

theorem totals_are_observed_not_enforced:
  assumes "list_all no_float [ga_input_tokens g, ga_output_tokens g, ga_cache_read_input_tokens g,
             ga_cache_creation_input_tokens g, ga_reasoning_output_tokens g]"
  shows "put_gen_ai nearest fadd g c d = Inr
    (if is_count (ga_input_tokens g) \<and> tokens (ga_input_tokens g)
          < tokens (ga_cache_read_input_tokens g) + tokens (ga_cache_creation_input_tokens g) \<or>
        is_count (ga_output_tokens g) \<and> tokens (ga_output_tokens g) < tokens (ga_reasoning_output_tokens g)
     then c @ [''assembly.builder.gen_ai_usage_not_inclusive''] else c,
     d\<lparr>sd_gen_ai := Some g\<rparr>)"
  using assms inclusive_over_ints [of g nearest fadd] by (simp add: put_gen_ai_def)

theorem totals_are_observed_not_enforced_witness:
  "put_gen_ai (\<lambda>n. PFin 0) (\<lambda>a b. a) demo_block [] demo_ended =
     Inr ([''assembly.builder.gen_ai_usage_not_inclusive''], demo_ended\<lparr>sd_gen_ai := Some demo_block\<rparr>)"
  using totals_are_observed_not_enforced [of demo_block "\<lambda>n. PFin 0" "\<lambda>a b. a" "[]" demo_ended]
  by (simp add: demo_block_def)

text \<open>The predicate is not total: an \<open>int\<close> too large for a double beside a \<open>float\<close> raises
  out of the setter, in the middle of the host's own call.\<close>

theorem oversized_count_raises:
  assumes "FLOAT_OVERFLOW \<le> \<bar>n\<bar>" "x \<noteq> PFin 0"
    and "ga_cache_read_input_tokens g = Co_int n" "ga_cache_creation_input_tokens g = Co_float x"
    and "ga_input_tokens g = Co_int whole"
  shows "put_gen_ai nearest fadd g c d = Inl OverflowError"
proof -
  have "n \<noteq> 0" using assms(1) by (auto simp: FLOAT_OVERFLOW_def)
  then show ?thesis using assms
    by (simp add: put_gen_ai_def violates_inclusive_totals_def or_zero_def)
qed

theorem oversized_count_raises_witness:
  "put_gen_ai (\<lambda>n. PFin 0) (\<lambda>a b. a)
     (demo_block\<lparr>ga_cache_read_input_tokens := Co_int (2 ^ 1024),
                 ga_cache_creation_input_tokens := Co_float (PFin 1)\<rparr>) [] demo_ended = Inl OverflowError"
  by (rule oversized_count_raises [of "2 ^ 1024" "PFin 1" _ 10])
     (simp_all add: FLOAT_OVERFLOW_def demo_block_def)

section \<open>The registry's drafts\<close>

text \<open>The registry's view of a draft refines to the constructor's. A new draft is what the
  registry takes it for, and every operation the registry performs on one keeps the two in
  step: attaching a marker, stating a conversation, closing a two-phase span, a force-close,
  finalizing a unit's own span with its recorded bodies, and the emission latch, whose answer
  is the one the registry acts on.\<close>

theorem drafts_refine_registry_view:
  assumes "stands_for d u"
  shows "stands_for (new_span_draft sid p intent subject source t kind) (new_draft sid p faulty) \<and>
    stands_for (put_marker (Member m) d) (add_limitation m u) \<and>
    stands_for (put_conversation conv d) (u\<lparr>dr_conversation := conv\<rparr>) \<and>
    stands_for (span_close status err end_ns d)
           (u\<lparr>dr_status := status, dr_error_type := (if err = None then dr_error_type u else err),
              dr_end := Some end_ns\<rparr>) \<and>
    stands_for (span_force_close m end_ns d) (force_close m end_ns u) \<and>
    stands_for (span_finalize x status err end_ns d) (finalize_draft x status err end_ns u) \<and>
    fst (claim_emit d) = (\<not> dr_emitted u) \<and>
    stands_for (snd (claim_emit d)) (u\<lparr>dr_emitted := True\<rparr>)"
  using stands_for_new stands_for_limitation [OF assms] stands_for_conversation [OF assms]
    stands_for_close [OF assms] stands_for_force_close [OF assms] stands_for_finalize [OF assms]
    stands_for_claim [OF assms]
  by blast

theorem drafts_refine_registry_view_witness:
  "stands_for (span_force_close UNIT_EVICTED 7 (demo_chat ''claude''))
     (force_close UNIT_EVICTED 7 (new_draft [9] demo_edge False))"
  unfolding demo_chat_def vocabulary_draft_def
  by (rule drafts_refine_registry_view [THEN conjunct2, THEN conjunct2, THEN conjunct2, THEN conjunct2,
        THEN conjunct1, OF stands_for_new])

section \<open>Snapshots\<close>

text \<open>A snapshot says what is wrong with it exactly once. Its markers ship under one key, at
  most once, whatever the caller wrote, and read back as the markers in order; every marker of its
  edge is among them, and so is the one for an unknown type unless the type was recognized. It
  names its edge's parent, or the invalid span id when there is none.\<close>

theorem snapshot_states_its_limits_once:
  assumes "snapshot_built p ty d" "finish_snapshot timestamp_ns d = Inr s"
  shows "filter (\<lambda>kv. fst kv = SNAPSHOT_INTEGRITY_KEY) (ss_attributes s) =
      (if sn_markers d = [] then []
       else [(SNAPSHOT_INTEGRITY_KEY, Sc_str (comma_join (map marker_text (sn_markers d))))]) \<and>
    filter (\<lambda>kv. fst kv \<noteq> SNAPSHOT_INTEGRITY_KEY) (ss_attributes s) = sn_attrs d \<and>
    (sn_markers d = [] \<or>
      comma_split (comma_join (map marker_text (sn_markers d))) = map marker_text (sn_markers d)) \<and>
    Member ` set (pa_limitations p) \<subseteq> set (sn_markers d) \<and>
    (snd (coerce_snapshot_type ty) \<or> Member SNAPSHOT_TYPE_UNKNOWN \<in> set (sn_markers d)) \<and>
    ss_snapshot_type s = fst (coerce_snapshot_type ty) \<and>
    ss_trace_id s = pa_trace_id p \<and>
    ss_span_id s = (case pa_parent_span_id p of Some parent \<Rightarrow> parent | None \<Rightarrow> NO_SPAN)"
proof (intro conjI)
  note ok = snapshot_built_ok [OF assms(1)]
  have members: "list_all is_member (sn_markers d)"
    using assms(2) by (auto simp: finish_snapshot_def Let_def filter_empty_conv list_all_iff split: if_splits)
  have attrs: "ss_attributes s = sn_attrs d @ (if sn_markers d = [] then []
      else [(SNAPSHOT_INTEGRITY_KEY, Sc_str (comma_join (map marker_text (sn_markers d))))])"
    using assms(2) by (auto simp: finish_snapshot_def Let_def split: if_splits)
  have clean: "filter (\<lambda>kv. fst kv = SNAPSHOT_INTEGRITY_KEY) (sn_attrs d) = []"
    "filter (\<lambda>kv. fst kv \<noteq> SNAPSHOT_INTEGRITY_KEY) (sn_attrs d) = sn_attrs d"
    using ok by (force simp: snapshot_ok_def filter_empty_conv filter_id_conv image_iff)+
  show "filter (\<lambda>kv. fst kv = SNAPSHOT_INTEGRITY_KEY) (ss_attributes s) =
      (if sn_markers d = [] then []
       else [(SNAPSHOT_INTEGRITY_KEY, Sc_str (comma_join (map marker_text (sn_markers d))))])"
    "filter (\<lambda>kv. fst kv \<noteq> SNAPSHOT_INTEGRITY_KEY) (ss_attributes s) = sn_attrs d"
    using clean by (simp_all add: attrs)
  show "sn_markers d = [] \<or>
      comma_split (comma_join (map marker_text (sn_markers d))) = map marker_text (sn_markers d)"
    using markers_read_back [OF _ members] by blast
  show "Member ` set (pa_limitations p) \<subseteq> set (sn_markers d)"
    "snd (coerce_snapshot_type ty) \<or> Member SNAPSHOT_TYPE_UNKNOWN \<in> set (sn_markers d)"
    using ok by (simp_all add: snapshot_ok_def)
  show "ss_snapshot_type s = fst (coerce_snapshot_type ty)" "ss_trace_id s = pa_trace_id p"
    "ss_span_id s = (case pa_parent_span_id p of Some parent \<Rightarrow> parent | None \<Rightarrow> NO_SPAN)"
    using ok assms(2) by (auto simp: finish_snapshot_def snapshot_ok_def Let_def split: if_splits)
qed

theorem snapshot_states_its_limits_once_witness:
  "filter (\<lambda>kv. fst kv = SNAPSHOT_INTEGRITY_KEY)
     (ss_attributes (projr (finish_snapshot 5 demo_snapshot))) =
   [(SNAPSHOT_INTEGRITY_KEY, Sc_str (str_lit ''unit_inferred_sole,snapshot_type_unknown''))]"
proof -
  have built: "snapshot_built demo_edge (Ty_text (str_lit ''turn'')) demo_snapshot"
    unfolding demo_snapshot_def
    by (rule snapshot_built.Then [OF snapshot_built.Fresh snapshot_step.Extras])
  have "\<exists>s. finish_snapshot 5 demo_snapshot = Inr s"
    by (simp add: finish_snapshot_def demo_snapshot_markers)
  then have fin: "finish_snapshot 5 demo_snapshot = Inr (projr (finish_snapshot 5 demo_snapshot))"
    by auto
  show ?thesis
    using snapshot_states_its_limits_once [OF built fin]
    by (simp add: demo_snapshot_markers str_lit_def)
qed

end
