(* ===== verification/Patchset.thy ===== *)
theory Patchset
  imports Types
begin

text \<open>
  \<open>_assembly/_patchset.py\<close>: the one mechanism that patches the host and takes its
  patches out again.

  A target is a number; an attribute value is an object identity. The host's memory
  is the record \<open>host\<close>: what an object holds itself (\<open>ho_own\<close>, its namespace or, without
  one, its slots), what lies behind the data descriptors of its type (\<open>ho_field\<close>), and how
  it answers: whether it has a namespace or refuses to be asked, what its type holds under a
  name, whether an assignment or a deletion raises, whether it is still alive. An assignment
  lands in \<open>ho_own\<close> exactly where Python puts it there (\<open>lands_own\<close>). What the reads and writes
  run of the host's code is their answer; a raising one has no effect, and a \<open>__setattr__\<close> of the host
  that does anything but raise or assign is not modelled. The lock is what
  makes each operation one step; the weak reference of a record is its flag \<open>pt_weak\<close>.
\<close>

type_synonym obj = nat
type_synonym attr = string
type_synonym ident = nat

datatype target_kind = Class_target | Module_target | Instance_target

text \<open>What the MRO of \<open>type(target)\<close> holds under a name: nothing, a value that is no data
  descriptor, a slot, another data descriptor.\<close>

datatype type_entry = No_entry | Plain_entry | Slot_entry | Data_entry

datatype dict_answer = Dict_there | Dict_none | Dict_raises

record host =
  ho_kind :: "obj \<Rightarrow> target_kind"
  ho_dict :: "obj \<Rightarrow> dict_answer"
  ho_entry :: "obj \<Rightarrow> attr \<Rightarrow> type_entry"
  ho_getattr_hook :: "obj \<Rightarrow> bool"
  ho_own :: "obj \<Rightarrow> attr \<Rightarrow> ident option"
  ho_inherited :: "obj \<Rightarrow> attr \<Rightarrow> ident option"
  ho_field :: "obj \<Rightarrow> attr \<Rightarrow> ident option"
  ho_read_raises :: "obj \<Rightarrow> attr \<Rightarrow> bool"
  ho_refuses_set :: "obj \<Rightarrow> attr \<Rightarrow> bool"
  ho_refuses_del :: "obj \<Rightarrow> attr \<Rightarrow> bool"
  ho_alive :: "obj \<Rightarrow> bool"
  ho_weakrefable :: "obj \<Rightarrow> bool"

section \<open>Python's assignment and deletion\<close>

definition lands_own :: "host \<Rightarrow> obj \<Rightarrow> attr \<Rightarrow> bool" where
  "lands_own h t n = (case ho_entry h t n of
     Data_entry \<Rightarrow> False
   | Slot_entry \<Rightarrow> ho_dict h t \<noteq> Dict_there
   | _ \<Rightarrow> ho_dict h t = Dict_there)"

definition write_own :: "obj \<Rightarrow> attr \<Rightarrow> ident option \<Rightarrow> host \<Rightarrow> host" where
  "write_own t n v h = h\<lparr>ho_own := (ho_own h)(t := (ho_own h t)(n := v))\<rparr>"

definition write_field :: "obj \<Rightarrow> attr \<Rightarrow> ident option \<Rightarrow> host \<Rightarrow> host" where
  "write_field t n v h = h\<lparr>ho_field := (ho_field h)(t := (ho_field h t)(n := v))\<rparr>"

definition set_attr :: "obj \<Rightarrow> attr \<Rightarrow> ident \<Rightarrow> host \<Rightarrow> host option" where
  "set_attr t n v h =
     (if ho_refuses_set h t n then None
      else if lands_own h t n then Some (write_own t n (Some v) h)
      else Some (write_field t n (Some v) h))"

definition del_attr :: "obj \<Rightarrow> attr \<Rightarrow> host \<Rightarrow> host option" where
  "del_attr t n h =
     (if ho_refuses_del h t n then None
      else if lands_own h t n
      then (if ho_own h t n = None then None else Some (write_own t n None h))
      else (if ho_field h t n = None then None else Some (write_field t n None h)))"

section \<open>Reading a target\<close>

datatype read_answer = Missing | Unreadable | Holds ident

definition of_lookup :: "ident option \<Rightarrow> read_answer" where
  "of_lookup v = (case v of None \<Rightarrow> Missing | Some x \<Rightarrow> Holds x)"

definition own_value :: "host \<Rightarrow> obj \<Rightarrow> attr \<Rightarrow> read_answer" where
  "own_value h t n =
     (case ho_dict h t of
        Dict_raises \<Rightarrow> Unreadable
      | Dict_there \<Rightarrow> if ho_read_raises h t n then Unreadable else of_lookup (ho_own h t n)
      | Dict_none \<Rightarrow>
          if ho_read_raises h t n then Unreadable
          else of_lookup (if ho_entry h t n = Slot_entry then ho_own h t n else ho_inherited h t n))"

definition is_scopeable :: "host \<Rightarrow> obj \<Rightarrow> attr \<Rightarrow> bool" where
  "is_scopeable h t n =
     (if ho_entry h t n = Slot_entry \<or> ho_entry h t n = Data_entry
      then (if ho_entry h t n \<noteq> Slot_entry then False
            else ho_dict h t = Dict_none \<and> \<not> ho_getattr_hook h t)
      else ho_dict h t \<noteq> Dict_none)"

section \<open>A set of patches\<close>

record patch =
  pt_target :: obj
  pt_name :: attr
  pt_wrapper :: ident
  pt_original :: "ident option"
  pt_weak :: bool

record patch_set =
  ps_owner :: string
  ps_patches :: "patch list"
  ps_superseded :: nat
  ps_collected :: nat
  ps_refused :: nat
  ps_counters :: counters

definition new_patch_set :: "string \<Rightarrow> patch_set" where
  "new_patch_set owner = \<lparr>ps_owner = owner, ps_patches = [], ps_superseded = 0, ps_collected = 0,
     ps_refused = 0, ps_counters = []\<rparr>"

definition note_at :: "string \<Rightarrow> patch_set \<Rightarrow> patch_set" where
  "note_at what ps = ps\<lparr>ps_counters := ps_counters ps @ [ps_owner ps @ what]\<rparr>"

definition dead :: "host \<Rightarrow> patch \<Rightarrow> bool" where
  "dead h r \<longleftrightarrow> pt_weak r \<and> \<not> ho_alive h (pt_target r)"

definition refuse :: "patch_set \<Rightarrow> patch_set" where
  "refuse ps = note_at ''.patch_refused'' (ps\<lparr>ps_refused := ps_refused ps + 1\<rparr>)"

definition prune :: "host \<Rightarrow> patch_set \<Rightarrow> patch_set" where
  "prune h ps =
     (let live = filter (\<lambda>r. \<not> dead h r) (ps_patches ps);
          gone = length (ps_patches ps) - length live
      in if gone = 0 then ps
         else ps\<lparr>ps_collected := ps_collected ps + gone, ps_patches := live\<rparr>)"

definition may_patch :: "host \<Rightarrow> obj \<Rightarrow> attr \<Rightarrow> patch_set \<Rightarrow> bool \<times> patch_set" where
  "may_patch h t n ps =
     (if ho_kind h t \<noteq> Instance_target then (True, ps)
      else if ho_dict h t = Dict_raises then (False, refuse (note_at ''.patch'' ps))
      else if is_scopeable h t n then (True, ps)
      else (False, refuse ps))"

definition hold :: "host \<Rightarrow> obj \<Rightarrow> patch_set \<Rightarrow> bool \<times> patch_set" where
  "hold h t ps =
     (if ho_kind h t \<noteq> Instance_target then (False, ps)
      else if ho_weakrefable h t then (True, ps)
      else (False, note_at ''.strong_hold'' ps))"

definition patch_attr :: "obj \<Rightarrow> attr \<Rightarrow> ident \<Rightarrow> host \<Rightarrow> patch_set \<Rightarrow> bool \<times> host \<times> patch_set" where
  "patch_attr t n wrapper h ps =
     (case may_patch h t n (prune h ps) of
        (False, ps) \<Rightarrow> (False, h, ps)
      | (True, ps) \<Rightarrow>
          (case own_value h t n of
             Unreadable \<Rightarrow> (False, h, refuse (note_at ''.patch'' ps))
           | original \<Rightarrow>
               (case hold h t ps of
                  (weak, ps) \<Rightarrow>
                    (let record = \<lparr>pt_target = t, pt_name = n, pt_wrapper = wrapper,
                           pt_original = (case original of Holds v \<Rightarrow> Some v | _ \<Rightarrow> None),
                           pt_weak = weak\<rparr>
                     in (case set_attr t n wrapper h of
                           None \<Rightarrow> (False, h, note_at ''.patch'' ps)
                         | Some h' \<Rightarrow> (True, h', ps\<lparr>ps_patches := ps_patches ps @ [record]\<rparr>))))))"

definition restore_one :: "patch \<Rightarrow> host \<Rightarrow> patch_set \<Rightarrow> host \<times> patch_set" where
  "restore_one r h ps =
     (if dead h r then (h, ps\<lparr>ps_collected := ps_collected ps + 1\<rparr>)
      else (case own_value h (pt_target r) (pt_name r) of
              Unreadable \<Rightarrow> (h, note_at ''.restore'' ps)
            | current \<Rightarrow>
                (if current \<noteq> Holds (pt_wrapper r)
                 then (h, note_at (''.'' @ limitation_value PATCH_SUPERSEDED)
                            (ps\<lparr>ps_superseded := ps_superseded ps + 1\<rparr>))
                 else (case (case pt_original r of
                               Some v \<Rightarrow> set_attr (pt_target r) (pt_name r) v h
                             | None \<Rightarrow> del_attr (pt_target r) (pt_name r) h) of
                         None \<Rightarrow> (h, note_at ''.restore'' ps)
                       | Some h' \<Rightarrow> (h', ps)))))"

fun undo :: "patch list \<Rightarrow> host \<Rightarrow> patch_set \<Rightarrow> host \<times> patch_set" where
  "undo [] h ps = (h, ps)"
| "undo (r # rs) h ps = (case restore_one r h ps of (h, ps) \<Rightarrow> undo rs h ps)"

definition restore_all :: "host \<Rightarrow> patch_set \<Rightarrow> host \<times> patch_set" where
  "restore_all h ps = undo (rev (ps_patches ps)) h (ps\<lparr>ps_patches := []\<rparr>)"

definition set_limitations :: "patch_set \<Rightarrow> limitation list" where
  "set_limitations ps = (if ps_superseded ps > 0 then [PATCH_SUPERSEDED] else [])"

text \<open>Several installs one after the other, as a component performs them.\<close>

fun patch_many :: "(obj \<times> attr \<times> ident) list \<Rightarrow> host \<Rightarrow> patch_set \<Rightarrow> host \<times> patch_set" where
  "patch_many [] h ps = (h, ps)"
| "patch_many ((t, n, w) # rest) h ps =
     (case patch_attr t n w h ps of (ok, h, ps) \<Rightarrow> patch_many rest h ps)"

section \<open>Library lemmas\<close>

lemma host_frame [simp]:
  "ho_kind (write_own t n v h) = ho_kind h" "ho_dict (write_own t n v h) = ho_dict h"
  "ho_entry (write_own t n v h) = ho_entry h" "ho_getattr_hook (write_own t n v h) = ho_getattr_hook h"
  "ho_inherited (write_own t n v h) = ho_inherited h" "ho_field (write_own t n v h) = ho_field h"
  "ho_read_raises (write_own t n v h) = ho_read_raises h"
  "ho_refuses_set (write_own t n v h) = ho_refuses_set h"
  "ho_refuses_del (write_own t n v h) = ho_refuses_del h"
  "ho_alive (write_own t n v h) = ho_alive h" "ho_weakrefable (write_own t n v h) = ho_weakrefable h"
  "ho_own (write_own t n v h) = (ho_own h)(t := (ho_own h t)(n := v))"
  by (simp_all add: write_own_def)

lemma lands_own_write [simp]: "lands_own (write_own t n v h) = lands_own h"
  by (simp add: lands_own_def fun_eq_iff split: type_entry.split)

lemma write_back: "write_own t n (ho_own h t n) (write_own t n v h) = h"
  by (simp add: write_own_def)

lemma note_at_frame [simp]:
  "ps_patches (note_at w ps) = ps_patches ps" "ps_superseded (note_at w ps) = ps_superseded ps"
  "ps_patches (refuse ps) = ps_patches ps" "ps_superseded (refuse ps) = ps_superseded ps"
  by (simp_all add: note_at_def refuse_def)

text \<open>The read looks where the write lands.\<close>

lemma own_value_reads_own:
  assumes "lands_own h t n" "own_value h t n \<noteq> Unreadable"
  shows "own_value h t n = of_lookup (ho_own h t n)"
    and "own_value (write_own t n v h) t n = of_lookup v"
  using assms
  by (auto simp: lands_own_def own_value_def split: type_entry.splits dict_answer.splits if_splits)

lemma scopeable_lands_own:
  assumes "fst (may_patch h t n ps)" "ho_kind h t = Instance_target"
  shows "lands_own h t n"
  using assms
  by (cases "ho_entry h t n"; cases "ho_dict h t")
     (auto simp: may_patch_def is_scopeable_def lands_own_def split: if_splits)

lemma may_patch_frame [simp]:
  "ps_patches (snd (may_patch h t n ps)) = ps_patches ps"
  "ps_superseded (snd (may_patch h t n ps)) = ps_superseded ps"
  by (simp_all add: may_patch_def)

lemma hold_frame [simp]:
  "ps_patches (snd (hold h t ps)) = ps_patches ps"
  "ps_superseded (snd (hold h t ps)) = ps_superseded ps"
  by (simp_all add: hold_def)

lemma prune_frame:
  "ps_superseded (prune h ps) = ps_superseded ps"
  "set (ps_patches (prune h ps)) \<subseteq> set (ps_patches ps)"
  "list_all (\<lambda>r. \<not> dead h r) (ps_patches ps) \<Longrightarrow> prune h ps = ps"
  by (auto simp: prune_def Let_def list_all_iff filter_id_conv [THEN iffD2])

text \<open>What one install does: nothing, or one write to the target's own storage and one record.\<close>

lemma patch_attr_cases:
  assumes "patch_attr t n w h ps = (ok, h', ps')"
    and "ho_kind h t = Instance_target \<or> lands_own h t n"
  shows "\<not> ok \<and> h' = h \<and> ps_patches ps' = ps_patches (prune h ps) \<or>
    ok \<and> lands_own h t n \<and> h' = write_own t n (Some w) h \<and> own_value h t n \<noteq> Unreadable \<and>
    \<not> ho_refuses_set h t n \<and>
    (\<exists>weak. ps_patches ps' = ps_patches (prune h ps) @
       [\<lparr>pt_target = t, pt_name = n, pt_wrapper = w, pt_original = ho_own h t n, pt_weak = weak\<rparr>])"
proof -
  obtain may ps1 where m: "may_patch h t n (prune h ps) = (may, ps1)" by fastforce
  have p1: "ps_patches ps1 = ps_patches (prune h ps)"
    using may_patch_frame(1) [of h t n "prune h ps"] by (simp add: m)
  obtain weak ps2 where hd: "hold h t ps1 = (weak, ps2)" by fastforce
  have p2: "ps_patches ps2 = ps_patches ps1" using hold_frame(1) [of h t ps1] by (simp add: hd)
  show ?thesis
  proof (cases "may \<and> own_value h t n \<noteq> Unreadable \<and> \<not> ho_refuses_set h t n")
    case False
    then have "\<not> ok \<and> h' = h \<and> ps_patches ps' = ps_patches (prune h ps)"
      using assms(1) m hd p1 p2
      by (auto simp: patch_attr_def set_attr_def Let_def split: bool.splits read_answer.splits)
    then show ?thesis ..
  next
    case True
    then have own: "lands_own h t n"
      using assms(2) scopeable_lands_own [of h t n "prune h ps"] m by auto
    have "own_value h t n = of_lookup (ho_own h t n)" using own_value_reads_own(1) own True by blast
    then have "ok \<and> h' = write_own t n (Some w) h \<and> ps_patches ps' = ps_patches (prune h ps) @
       [\<lparr>pt_target = t, pt_name = n, pt_wrapper = w, pt_original = ho_own h t n, pt_weak = weak\<rparr>]"
      using assms(1) m hd True own p1 p2
      by (cases "ho_own h t n") (auto simp: patch_attr_def set_attr_def of_lookup_def Let_def)
    with own True show ?thesis by blast
  qed
qed

text \<open>Undoing the newest record takes its write back, and nothing else.\<close>

lemma restore_one_inverse:
  assumes "lands_own h t n" "own_value h t n \<noteq> Unreadable" "\<not> ho_refuses_set h t n"
    "\<not> ho_refuses_del h t n" "ho_alive h t"
  shows "restore_one \<lparr>pt_target = t, pt_name = n, pt_wrapper = w, pt_original = ho_own h t n, pt_weak = weak\<rparr>
      (write_own t n (Some w) h) qs = (h, qs)"
proof -
  have "own_value (write_own t n (Some w) h) t n = Holds w"
    using own_value_reads_own(2) [OF assms(1,2), of "Some w"] by (simp add: of_lookup_def)
  moreover have "set_attr t n v (write_own t n (Some w) h) = Some h" if "ho_own h t n = Some v" for v
    using assms that write_back [of t n h "Some w"] by (simp add: set_attr_def)
  moreover have "del_attr t n (write_own t n (Some w) h) = Some h" if "ho_own h t n = None"
    using assms that write_back [of t n h "Some w"] by (simp add: del_attr_def)
  ultimately show ?thesis using assms(5)
    by (cases "ho_own h t n") (simp_all add: restore_one_def dead_def)
qed

definition unwinds :: "host \<Rightarrow> host \<Rightarrow> patch_set \<Rightarrow> bool" where
  "unwinds h0 h ps \<longleftrightarrow>
     (\<forall>qs. undo (rev (ps_patches ps)) h qs = (h0, qs)) \<and> list_all (\<lambda>r. \<not> dead h r) (ps_patches ps)"

definition tame :: "host \<Rightarrow> obj \<times> attr \<times> ident \<Rightarrow> bool" where
  "tame h req = (case req of (t, n, w) \<Rightarrow>
     (ho_kind h t = Instance_target \<or> lands_own h t n) \<and> ho_alive h t \<and> \<not> ho_refuses_del h t n)"

lemma tame_write [simp]: "tame (write_own t n v h) = tame h"
  by (simp add: tame_def fun_eq_iff)

lemma patch_attr_unwinds:
  assumes "unwinds h0 h ps" "tame h (t, n, w)" "patch_attr t n w h ps = (ok, h', ps')"
  shows "unwinds h0 h' ps' \<and> tame h' = tame h"
proof -
  have quiet: "prune h ps = ps" using assms(1) by (simp add: prune_frame unwinds_def)
  have side: "ho_kind h t = Instance_target \<or> lands_own h t n" "ho_alive h t" "\<not> ho_refuses_del h t n"
    using assms(2) by (simp_all add: tame_def)
  consider "\<not> ok" "h' = h" "ps_patches ps' = ps_patches ps"
    | weak where "lands_own h t n" "own_value h t n \<noteq> Unreadable" "\<not> ho_refuses_set h t n"
        "h' = write_own t n (Some w) h"
        "ps_patches ps' = ps_patches ps @
          [\<lparr>pt_target = t, pt_name = n, pt_wrapper = w, pt_original = ho_own h t n, pt_weak = weak\<rparr>]"
    using patch_attr_cases [OF assms(3) side(1)] quiet by auto
  then show ?thesis
  proof cases
    case 1
    with assms(1) show ?thesis by (simp add: unwinds_def)
  next
    case 2
    have "dead h' r = dead h r" for r using 2(4) by (simp add: dead_def)
    with assms(1) 2 side restore_one_inverse [OF 2(1-3) side(3,2)] show ?thesis
      by (simp add: unwinds_def dead_def)
  qed
qed

lemma patch_many_unwinds:
  "unwinds h0 h ps \<Longrightarrow> list_all (tame h) reqs \<Longrightarrow> patch_many reqs h ps = (h', ps') \<Longrightarrow>
   unwinds h0 h' ps'"
proof (induction reqs arbitrary: h ps)
  case Nil
  then show ?case by simp
next
  case (Cons req reqs)
  obtain t n w where req: "req = (t, n, w)" by (cases req)
  obtain ok h1 ps1 where one: "patch_attr t n w h ps = (ok, h1, ps1)" by (metis prod_cases3)
  have "unwinds h0 h1 ps1 \<and> tame h1 = tame h"
    using patch_attr_unwinds [OF Cons.prems(1) _ one] Cons.prems(2) req by simp
  with Cons.IH [of h1 ps1] Cons.prems one req show ?case by simp
qed

section \<open>Any host, any set\<close>

text \<open>What one restore does to a host of which nothing is known: if the attribute reads as holding the
  record's wrapper, it may write there, into the target's own storage or through a data descriptor,
  whichever the assignment lands in now; else it changes nothing.\<close>

definition ours :: "patch list \<Rightarrow> obj \<Rightarrow> attr \<Rightarrow> read_answer set" where
  "ours rs t n = (\<lambda>r. Holds (pt_wrapper r)) ` {r \<in> set rs. pt_target r = t \<and> pt_name r = n}"

definition only_at :: "obj \<Rightarrow> attr \<Rightarrow> host \<Rightarrow> host \<Rightarrow> bool" where
  "only_at t n h h' \<longleftrightarrow>
     (\<exists>v. h' = (if lands_own h t n then write_own t n v h else write_field t n v h))"

lemma write_field_frame [simp]:
  "ho_kind (write_field t n v h) = ho_kind h" "ho_dict (write_field t n v h) = ho_dict h"
  "ho_entry (write_field t n v h) = ho_entry h" "ho_inherited (write_field t n v h) = ho_inherited h"
  "ho_own (write_field t n v h) = ho_own h" "ho_read_raises (write_field t n v h) = ho_read_raises h"
  "lands_own (write_field t n v h) = lands_own h"
  "ho_field (write_field t n v h) = (ho_field h)(t := (ho_field h t)(n := v))"
  by (simp_all add: write_field_def lands_own_def fun_eq_iff split: type_entry.split)

lemma restore_one_host:
  assumes "restore_one r h ps = (h', ps')"
  shows "h' = h \<or> own_value h (pt_target r) (pt_name r) = Holds (pt_wrapper r) \<and> only_at (pt_target r) (pt_name r) h h'"
    and "ps_patches ps' = ps_patches ps"
proof -
  let ?t = "pt_target r" and ?n = "pt_name r"
  have s: "only_at ?t ?n h x" if "set_attr ?t ?n v h = Some x \<or> del_attr ?t ?n h = Some x" for v x
    using that by (auto simp: set_attr_def del_attr_def only_at_def split: if_splits)
  show "h' = h \<or> own_value h ?t ?n = Holds (pt_wrapper r) \<and> only_at ?t ?n h h'"
    using assms s by (auto simp: restore_one_def split: if_splits read_answer.splits option.splits)
  show "ps_patches ps' = ps_patches ps"
    using assms
    by (auto simp: restore_one_def note_at_def split: if_splits read_answer.splits option.splits)
qed

lemma only_at_other:
  assumes "only_at t n h h'" "(t', n') \<noteq> (t, n)"
  shows "ho_own h' t' n' = ho_own h t' n'" "ho_field h' t' n' = ho_field h t' n'" "own_value h' t' n' = own_value h t' n'"
proof -
  show own: "ho_own h' t' n' = ho_own h t' n'" and "ho_field h' t' n' = ho_field h t' n'"
    using assms by (auto simp: only_at_def split: if_splits)
  have "ho_dict h' = ho_dict h" "ho_entry h' = ho_entry h" "ho_inherited h' = ho_inherited h"
    "ho_read_raises h' = ho_read_raises h"
    using assms(1) by (auto simp: only_at_def)
  then show "own_value h' t' n' = own_value h t' n'" using own by (simp add: own_value_def cong: dict_answer.case_cong)
qed

lemma only_at_same:
  assumes "only_at t n h h'"
  shows "lands_own h' = lands_own h" "lands_own h t n \<Longrightarrow> ho_field h' = ho_field h"
    "\<not> lands_own h t n \<Longrightarrow> ho_own h' = ho_own h"
  using assms by (auto simp: only_at_def)

lemma undo_host:
  "undo rs h ps = (h', ps') \<Longrightarrow>
   lands_own h' = lands_own h \<and> ps_patches ps' = ps_patches ps \<and>
   (\<forall>t n. own_value h t n \<notin> ours rs t n \<longrightarrow> ho_own h' t n = ho_own h t n \<and> ho_field h' t n = ho_field h t n) \<and>
   (\<forall>t n. lands_own h t n \<longrightarrow> ho_field h' t n = ho_field h t n) \<and>
   (\<forall>t n. \<not> lands_own h t n \<longrightarrow> ho_own h' t n = ho_own h t n)"
proof (induction rs h ps arbitrary: h' ps' rule: undo.induct)
  case (1 h ps)
  then show ?case by simp
next
  case (2 r rs h ps)
  obtain h1 ps1 where one: "restore_one r h ps = (h1, ps1)" by fastforce
  let ?t = "pt_target r" and ?n = "pt_name r"
  have rest: "lands_own h' = lands_own h1 \<and> ps_patches ps' = ps_patches ps1 \<and>
      (\<forall>t n. own_value h1 t n \<notin> ours rs t n \<longrightarrow> ho_own h' t n = ho_own h1 t n \<and> ho_field h' t n = ho_field h1 t n) \<and>
      (\<forall>t n. lands_own h1 t n \<longrightarrow> ho_field h' t n = ho_field h1 t n) \<and>
      (\<forall>t n. \<not> lands_own h1 t n \<longrightarrow> ho_own h' t n = ho_own h1 t n)"
    using "2.IH" [OF one [symmetric]] "2.prems" one by simp
  have sub: "ours rs t n \<subseteq> ours (r # rs) t n" for t n by (auto simp: ours_def)
  from restore_one_host(1) [OF one] show ?case
  proof
    assume "h1 = h"
    moreover have "own_value h t n \<notin> ours rs t n" if "own_value h t n \<notin> ours (r # rs) t n" for t n
      using that sub by auto
    ultimately show ?thesis using rest restore_one_host(2) [OF one] by simp
  next
    assume a: "own_value h ?t ?n = Holds (pt_wrapper r) \<and> only_at ?t ?n h h1"
    then have mine: "own_value h ?t ?n \<in> ours (r # rs) ?t ?n" by (auto simp: ours_def)
    note other = only_at_other [OF conjunct2 [OF a]] and same = only_at_same [OF conjunct2 [OF a]]
    have "ho_own h' t n = ho_own h t n \<and> ho_field h' t n = ho_field h t n" if "own_value h t n \<notin> ours (r # rs) t n" for t n
    proof -
      have ne: "(t, n) \<noteq> (?t, ?n)" using that mine by auto
      then have "own_value h1 t n \<notin> ours rs t n" using that sub other(3) [OF ne] by auto
      then show ?thesis using rest other(1,2) [OF ne] by simp
    qed
    moreover have "ho_field h' t n = ho_field h t n" if "lands_own h t n" for t n
      using that rest same other(2) by (cases "(t, n) = (?t, ?n)") auto
    moreover have "ho_own h' t n = ho_own h t n" if "\<not> lands_own h t n" for t n
      using that rest same other(1) by (cases "(t, n) = (?t, ?n)") auto
    ultimately show ?thesis using rest same(1) restore_one_host(2) [OF one] by simp
  qed
qed

section \<open>Concrete hosts\<close>

definition demo_host :: host where
  "demo_host = \<lparr>ho_kind = (\<lambda>t. if t = 0 then Class_target else Instance_target),
     ho_dict = (\<lambda>t. Dict_there), ho_entry = (\<lambda>t n. if n = ''sealed'' then Data_entry else No_entry),
     ho_getattr_hook = (\<lambda>t. False),
     ho_own = (\<lambda>t n. if t = 0 \<and> n = ''read'' then Some 5 else None),
     ho_inherited = (\<lambda>t n. None), ho_field = (\<lambda>t n. None), ho_read_raises = (\<lambda>t n. False),
     ho_refuses_set = (\<lambda>t n. False), ho_refuses_del = (\<lambda>t n. False), ho_alive = (\<lambda>t. True),
     ho_weakrefable = (\<lambda>t. True)\<rparr>"

definition demo_requests :: "(obj \<times> attr \<times> ident) list" where
  "demo_requests = [(0, ''read'', 10), (1, ''read'', 11), (0, ''read'', 12)]"

definition demo_patched :: "host \<times> patch_set" where
  "demo_patched = patch_many demo_requests demo_host (new_patch_set ''interceptors.ssl'')"

lemma demo_lands: "lands_own demo_host t n \<longleftrightarrow> n \<noteq> ''sealed''"
  by (simp add: lands_own_def demo_host_def)

lemma demo_patch:
  "patch_attr 0 ''read'' 10 demo_host (new_patch_set owner) =
     (True, write_own 0 ''read'' (Some 10) demo_host, (new_patch_set owner)\<lparr>ps_patches :=
        [\<lparr>pt_target = 0, pt_name = ''read'', pt_wrapper = 10, pt_original = Some 5, pt_weak = False\<rparr>]\<rparr>)"
proof -
  have "own_value demo_host 0 ''read'' = Holds 5"
    by (simp add: own_value_def demo_host_def of_lookup_def)
  moreover have "set_attr 0 ''read'' 10 demo_host = Some (write_own 0 ''read'' (Some 10) demo_host)"
    by (simp add: set_attr_def demo_lands) (simp add: demo_host_def)
  moreover have "prune demo_host (new_patch_set owner) = new_patch_set owner"
    "may_patch demo_host 0 ''read'' (new_patch_set owner) = (True, new_patch_set owner)"
    "hold demo_host 0 (new_patch_set owner) = (False, new_patch_set owner)"
    by (simp_all add: prune_def new_patch_set_def may_patch_def hold_def demo_host_def)
  ultimately show ?thesis by (simp add: patch_attr_def new_patch_set_def)
qed

section \<open>Installing and restoring\<close>

text \<open>C13: uninstalling gives the host back exactly as it was. The targets are instances, or classes and modules
  whose own type holds no data descriptor under the name (\<open>lands_own\<close>); they stay alive and refuse no
  deletion. Whatever was patched, in whatever order and however often the same attribute, and
  whichever of the requests the set refused, when nothing else touched the host in between restoring
  leaves every attribute what and where it was: inherited ones inherited, own ones own. Nothing is
  reported as superseded and the set is empty.\<close>

theorem uninstall_gives_the_host_back:
  assumes "list_all (\<lambda>(t, n, w). (ho_kind h t = Instance_target \<or> lands_own h t n) \<and>
             ho_alive h t \<and> \<not> ho_refuses_del h t n) requests"
    and "patch_many requests h (new_patch_set owner) = (h', ps)"
  shows "restore_all h' ps = (h, ps\<lparr>ps_patches := []\<rparr>)"
proof -
  have "unwinds h h (new_patch_set owner)" by (simp add: unwinds_def new_patch_set_def)
  moreover have "list_all (tame h) requests"
    using assms(1) by (simp add: tame_def [abs_def])
  ultimately have "unwinds h h' ps" using patch_many_unwinds assms(2) by blast
  then show ?thesis by (simp add: restore_all_def unwinds_def)
qed

theorem uninstall_gives_the_host_back_witness:
  "restore_all (fst demo_patched) (snd demo_patched) =
     (demo_host, (snd demo_patched)\<lparr>ps_patches := []\<rparr>)"
proof (rule uninstall_gives_the_host_back)
  show "list_all (\<lambda>(t, n, w). (ho_kind demo_host t = Instance_target \<or> lands_own demo_host t n) \<and>
      ho_alive demo_host t \<and> \<not> ho_refuses_del demo_host t n) demo_requests"
    by (simp add: demo_requests_def demo_lands) (simp add: demo_host_def)
  show "patch_many demo_requests demo_host (new_patch_set ''interceptors.ssl'') =
      (fst demo_patched, snd demo_patched)"
    by (simp add: demo_patched_def)
qed

text \<open>C12: an uninstall never destroys another library's work. Take any host, whatever other libraries did to
  it since the patches went in, to the attributes, to the types' entries or to what refuses, and
  any set. Restoring changes an attribute only if reading it yields one of the set's own wrappers for
  it; where an assignment lands in the target's own storage it touches nothing behind a data
  descriptor, and where a descriptor takes it, nothing of the storage; and the set is empty after.
  An install on an instance, and one whose assignment lands in the target's storage, writes nothing
  behind a descriptor either.\<close>

theorem restore_never_clobbers:
  assumes "restore_all h ps = (h', ps')"
    and "patch_attr t0 n0 w h0 ps0 = (ok, h1, ps1)" "ho_kind h0 t0 = Instance_target \<or> lands_own h0 t0 n0"
  shows "(\<forall>t n. own_value h t n \<notin> (\<lambda>r. Holds (pt_wrapper r)) ` {r \<in> set (ps_patches ps). pt_target r = t \<and> pt_name r = n} \<longrightarrow>
            ho_own h' t n = ho_own h t n \<and> ho_field h' t n = ho_field h t n) \<and>
    (\<forall>t n. lands_own h t n \<longrightarrow> ho_field h' t n = ho_field h t n) \<and>
    (\<forall>t n. \<not> lands_own h t n \<longrightarrow> ho_own h' t n = ho_own h t n) \<and>
    ps_patches ps' = [] \<and> ho_field h1 = ho_field h0"
proof -
  have "undo (rev (ps_patches ps)) h (ps\<lparr>ps_patches := []\<rparr>) = (h', ps')"
    using assms(1) by (simp add: restore_all_def)
  from undo_host [OF this] patch_attr_cases [OF assms(2,3)] show ?thesis by (auto simp: ours_def)
qed

text \<open>Another library assigned its own value, and made a property of another patched name on the class.\<close>

theorem restore_never_clobbers_witness:
  "ho_own (fst (restore_all
      ((write_own 0 ''read'' (Some 10) demo_host)\<lparr>ho_own := (\<lambda>t n. Some 77), ho_entry := (\<lambda>t n. Data_entry)\<rparr>)
      (snd (snd (patch_attr 0 ''read'' 10 demo_host (new_patch_set ''a'')))))) 0 ''read'' = Some 77"
proof -
  let ?h1 = "write_own 0 ''read'' (Some 10) demo_host"
  let ?ps = "snd (snd (patch_attr 0 ''read'' 10 demo_host (new_patch_set ''a'')))"
  let ?h = "?h1\<lparr>ho_own := (\<lambda>t n. Some 77), ho_entry := (\<lambda>t n. Data_entry)\<rparr>"
  have p: "patch_attr 0 ''read'' 10 demo_host (new_patch_set ''a'') = (True, ?h1, ?ps)"
    by (simp add: demo_patch)
  have l: "ho_kind demo_host 0 = Instance_target \<or> lands_own demo_host 0 ''read''" by (simp add: demo_lands)
  have r: "restore_all ?h ?ps = (fst (restore_all ?h ?ps), snd (restore_all ?h ?ps))" by simp
  have "own_value ?h 0 ''read'' = Holds 77" by (simp add: own_value_def of_lookup_def demo_host_def)
  then have "own_value ?h 0 ''read'' \<notin> (\<lambda>r. Holds (pt_wrapper r)) `
      {r \<in> set (ps_patches ?ps). pt_target r = 0 \<and> pt_name r = ''read''}"
    by (auto simp: demo_patch)
  then have "ho_own (fst (restore_all ?h ?ps)) 0 ''read'' = ho_own ?h 0 ''read''"
    using restore_never_clobbers [THEN conjunct1, OF r p l] by blast
  then show ?thesis by simp
qed

text \<open>The promise that a class is always patchable fails where its metaclass holds a data
  descriptor under the name: the patch reports success, the wrapper goes through the descriptor
  into the host's state, and the restore reports a supersession that never happened and leaves it
  there.\<close>

theorem descriptor_on_metaclass_leaks_wrapper:
  assumes "ho_kind h t = Class_target" "ho_entry h t n = Data_entry" "ho_dict h t = Dict_there"
    and "\<not> ho_read_raises h t n" "\<not> ho_refuses_set h t n" "ho_own h t n \<noteq> Some w"
    and "patch_attr t n w h (new_patch_set owner) = (ok, h1, ps)" "restore_all h1 ps = (h2, ps')"
  shows "ok \<and>
    ho_own h2 = ho_own h \<and>
    ho_field h2 t n = Some w \<and>
    ps_superseded ps' = 1"
proof (intro conjI)
  have not_own: "\<not> lands_own h t n" using assms(2) by (simp add: lands_own_def)
  have p: "ok" "h1 = write_field t n (Some w) h" "ps_superseded ps = 0"
    "ps_patches ps = [\<lparr>pt_target = t, pt_name = n, pt_wrapper = w, pt_original = ho_own h t n, pt_weak = False\<rparr>]"
    using assms not_own
    by (auto simp: patch_attr_def prune_def may_patch_def own_value_def of_lookup_def hold_def
        set_attr_def new_patch_set_def split: option.splits)
  have "own_value h1 t n = of_lookup (ho_own h t n)"
    using assms by (simp add: p own_value_def write_field_def)
  with assms(6) have "own_value h1 t n \<noteq> Holds w" "own_value h1 t n \<noteq> Unreadable"
    by (auto simp: of_lookup_def split: option.splits)
  then have "h2 = h1 \<and> ps_superseded ps' = 1"
    using assms(8) p
    by (cases "own_value h1 t n") (auto simp: restore_all_def restore_one_def dead_def note_at_def)
  with p show "ok" "ho_own h2 = ho_own h" "ho_field h2 t n = Some w" "ps_superseded ps' = 1"
    by (simp_all add: write_field_def)
qed

theorem descriptor_on_metaclass_leaks_wrapper_witness:
  "ho_field (fst (restore_all
     (fst (snd (patch_attr 0 ''sealed'' 10 demo_host (new_patch_set ''a''))))
     (snd (snd (patch_attr 0 ''sealed'' 10 demo_host (new_patch_set ''a'')))))) 0 ''sealed'' = Some 10"
  by (rule descriptor_on_metaclass_leaks_wrapper
      [THEN conjunct2, THEN conjunct2, THEN conjunct1, of demo_host 0 "''sealed''" 10 "''a''"
          "fst (patch_attr 0 ''sealed'' 10 demo_host (new_patch_set ''a''))" _ _ _
          "snd (restore_all (fst (snd (patch_attr 0 ''sealed'' 10 demo_host (new_patch_set ''a''))))
             (snd (snd (patch_attr 0 ''sealed'' 10 demo_host (new_patch_set ''a'')))))"])
     (simp_all add: demo_host_def)

end
