(* ===== verification/Diag.thy ===== *)
theory Diag
  imports Ledger_Laws
begin

text \<open>
  \<open>_assembly/_diag.py\<close>: the tallies of swallowed failures (\<open>Counters\<close>), the one sanctioned
  swallow (\<open>guard\<close>) and the line printed once per key (\<open>report_once\<close>).

  A bump appends to an inbox and folds it only when the lock is free, so no bump ever
  waits. \<open>tallies\<close> is the table; \<open>tl_moving\<close> is the name a fold has popped and not yet
  stored, which exists between two bytecodes of the folding thread. The small steps
  (\<open>tally_step\<close>) interleave any number of threads and signal handlers between them; the
  operations without interruption are \<open>bump\<close>, \<open>get_tally\<close> and \<open>total_tally\<close>.
\<close>

section \<open>Counters\<close>

record tallies =
  tl_counts :: "(string \<times> int) list"
  tl_inbox :: "string list"
  tl_folding :: bool
  tl_holder :: "thread option"
  tl_moving :: "string option"

definition new_tallies :: tallies where
  "new_tallies = \<lparr>tl_counts = [], tl_inbox = [], tl_folding = False, tl_holder = None, tl_moving = None\<rparr>"

definition lock_free :: "thread \<Rightarrow> tallies \<Rightarrow> bool" where
  "lock_free me t \<longleftrightarrow> tl_holder t = None \<or> tl_holder t = Some me"

fun fold_counts :: "string list \<Rightarrow> (string \<times> int) list \<Rightarrow> (string \<times> int) list" where
  "fold_counts [] counts = counts"
| "fold_counts (w # ws) counts = fold_counts ws (bump_tally w 1 counts)"

definition fold_tallies :: "tallies \<Rightarrow> tallies" where
  "fold_tallies t =
     (if tl_folding t then t
      else t\<lparr>tl_counts := fold_counts (tl_inbox t) (tl_counts t), tl_inbox := []\<rparr>)"

definition bump :: "thread \<Rightarrow> string \<Rightarrow> tallies \<Rightarrow> tallies" where
  "bump me w t =
     (let t = t\<lparr>tl_inbox := tl_inbox t @ [w]\<rparr>
      in if FOLD_AT \<le> length (tl_inbox t) \<and> lock_free me t then fold_tallies t else t)"

text \<open>A reader waits for the lock: None is the wait.\<close>

definition get_tally :: "thread \<Rightarrow> string \<Rightarrow> tallies \<Rightarrow> (int \<times> tallies) option" where
  "get_tally me w t =
     (if lock_free me t then Some (tally (tl_counts (fold_tallies t)) w, fold_tallies t) else None)"

definition total_tally :: "thread \<Rightarrow> tallies \<Rightarrow> (int \<times> tallies) option" where
  "total_tally me t =
     (if lock_free me t then Some (sum_list (map snd (tl_counts (fold_tallies t))), fold_tallies t)
      else None)"

definition snapshot_tallies :: "thread \<Rightarrow> tallies \<Rightarrow> ((string \<times> int) list \<times> tallies) option" where
  "snapshot_tallies me t =
     (if lock_free me t then Some (tl_counts (fold_tallies t), fold_tallies t) else None)"

definition reset_tallies :: "thread \<Rightarrow> tallies \<Rightarrow> tallies option" where
  "reset_tallies me t = (if lock_free me t then Some (t\<lparr>tl_inbox := [], tl_counts := []\<rparr>) else None)"

section \<open>Swallowing\<close>

text \<open>How a guarded block ended: it returned, raised one of the exceptions the host declared as
  control flow, raised something that is no \<open>Exception\<close>, or failed; a failure may be a converted
  panic of the core.\<close>

datatype ending = Returned | Control_flow | Not_an_exception | Failed bool

definition guard_exit ::
  "thread \<Rightarrow> string \<Rightarrow> ending \<Rightarrow> tallies \<times> ledger \<Rightarrow> bool \<times> tallies \<times> ledger" where
  "guard_exit me site e s =
     (case s of (t, l) \<Rightarrow>
       (case e of
          Returned \<Rightarrow> (False, t, l)
        | Control_flow \<Rightarrow> (False, t, l)
        | Not_an_exception \<Rightarrow> (False, t, l)
        | Failed panic \<Rightarrow>
            (let t = bump me site t;
                 l = record_drop me (reason_value R_INTERNAL_SDK_ERROR) 1 None (Some site) l;
                 t = (if panic then bump me ''ffi.panic_converted'' t else t)
             in (True, t, l))))"

text \<open>\<open>setdefault\<close> decides and inserts in one step: the answer is whether the line is printed.\<close>

definition report_once :: "string \<Rightarrow> string list \<Rightarrow> bool \<times> string list" where
  "report_once key reported =
     (if key \<in> set reported then (False, reported) else (True, reported @ [key]))"

definition diag_reset_for_new_process :: "tallies \<times> string list \<Rightarrow> tallies \<times> string list" where
  "diag_reset_for_new_process s =
     (case s of (t, reported) \<Rightarrow>
       (t\<lparr>tl_holder := None, tl_counts := [], tl_inbox := [], tl_folding := False, tl_moving := None\<rparr>, []))"

section \<open>Interleavings\<close>

inductive tally_step :: "tallies \<Rightarrow> string option \<Rightarrow> tallies \<Rightarrow> bool" where
  Put: "tally_step t (Some w) (t\<lparr>tl_inbox := tl_inbox t @ [w]\<rparr>)"
| Begin: "lock_free me t \<Longrightarrow> \<not> tl_folding t \<Longrightarrow>
    tally_step t None (t\<lparr>tl_holder := Some me, tl_folding := True\<rparr>)"
| Pop: "tl_folding t \<Longrightarrow> tl_moving t = None \<Longrightarrow> tl_inbox t = w # ws \<Longrightarrow>
    tally_step t None (t\<lparr>tl_inbox := ws, tl_moving := Some w\<rparr>)"
| Store: "tl_moving t = Some w \<Longrightarrow>
    tally_step t None (t\<lparr>tl_counts := bump_tally w 1 (tl_counts t), tl_moving := None\<rparr>)"
| End: "tl_folding t \<Longrightarrow> tl_moving t = None \<Longrightarrow> tl_inbox t = [] \<Longrightarrow>
    tally_step t None (t\<lparr>tl_folding := False, tl_holder := None\<rparr>)"

inductive tally_run :: "string list \<Rightarrow> tallies \<Rightarrow> bool" where
  Fresh: "tally_run [] new_tallies"
| Bumped: "tally_run ws t \<Longrightarrow> tally_step t (Some w) t' \<Longrightarrow> tally_run (w # ws) t'"
| Silent: "tally_run ws t \<Longrightarrow> tally_step t None t' \<Longrightarrow> tally_run ws t'"

inductive_cases put_step: "tally_step t (Some w) t'"
inductive_cases silent_step: "tally_step t None t'"

definition in_inbox :: "tallies \<Rightarrow> string \<Rightarrow> int" where
  "in_inbox t w = int (count_list (tl_inbox t) w)"

definition noted :: "tallies \<Rightarrow> string \<Rightarrow> int" where
  "noted t w = tally (tl_counts t) w + (if tl_moving t = Some w then 1 else 0) + in_inbox t w"

lemma tally_fold_counts [simp]: "tally (fold_counts ws counts) w = tally counts w + int (count_list ws w)"
  by (induction ws counts rule: fold_counts.induct) auto

lemma distinct_fold_counts: "distinct (map fst counts) \<Longrightarrow> distinct (map fst (fold_counts ws counts))"
  by (induction ws counts rule: fold_counts.induct) (auto intro: distinct_bump)

definition tallies_ok :: "tallies \<Rightarrow> bool" where
  "tallies_ok t \<longleftrightarrow> distinct (map fst (tl_counts t)) \<and> (tl_folding t \<or> tl_moving t = None) \<and>
     (tl_folding t \<longrightarrow> tl_holder t \<noteq> None)"

lemma noted_put: "tally_step t (Some w) t' \<Longrightarrow> noted t' v = noted t v + (if v = w then 1 else 0)"
  by (erule put_step) (auto simp: noted_def in_inbox_def)

lemma noted_silent: "tally_step t None t' \<Longrightarrow> noted t' v = noted t v"
  by (erule silent_step) (auto simp: noted_def in_inbox_def)

lemma tallies_ok_step: "tally_step t x t' \<Longrightarrow> tallies_ok t \<Longrightarrow> tallies_ok t'"
  by (induction rule: tally_step.induct) (auto simp: tallies_ok_def intro: distinct_bump)

lemma tally_run_noted:
  "tally_run ws t \<Longrightarrow> noted t w = int (count_list ws w) \<and> tallies_ok t"
proof (induction rule: tally_run.induct)
  case Fresh
  then show ?case by (simp add: noted_def in_inbox_def new_tallies_def tallies_ok_def)
next
  case (Bumped ws t v t')
  then show ?case using noted_put [OF Bumped.hyps(2), of w] tallies_ok_step by auto
next
  case (Silent ws t t')
  then show ?case using noted_silent [OF Silent.hyps(2), of w] tallies_ok_step by auto
qed

lemma noted_bump [simp]:
  "tl_folding t \<or> tl_moving t = None \<Longrightarrow> noted (bump me v t) w = noted t w + (if w = v then 1 else 0)"
  by (auto simp: bump_def fold_tallies_def noted_def in_inbox_def Let_def)

lemma tally_bump_frame: "tl_folding (bump me v t) = tl_folding t" "tl_moving (bump me v t) = tl_moving t"
  by (simp_all add: bump_def fold_tallies_def Let_def)

lemma total_fold_counts: "sum_list (map snd (fold_counts ws counts)) = sum_list (map snd counts) + int (length ws)"
proof -
  have new: "sum_list (map snd (AList.update w (tally d w + n) d)) = sum_list (map snd d) + n"
    for w n and d :: "(string \<times> int) list"
    by (induction d) (auto simp: tally_def)
  then have "sum_list (map snd (bump_tally w n d)) = sum_list (map snd d) + n" for w n and d :: "(string \<times> int) list"
    by (simp add: bump_tally_def)
  then show ?thesis by (induction ws counts rule: fold_counts.induct) auto
qed

definition in_table :: "tallies \<Rightarrow> int" where
  "in_table t = sum_list (map snd (tl_counts t)) + (if tl_moving t = None then 0 else 1) +
     int (length (tl_inbox t))"

lemma tally_run_total: "tally_run ws t \<Longrightarrow> in_table t = int (length ws)"
proof (induction rule: tally_run.induct)
  case Fresh
  then show ?case by (simp add: in_table_def new_tallies_def)
next
  case (Bumped ws t w t')
  from Bumped.hyps(2) have "in_table t' = in_table t + 1" by (rule put_step) (simp add: in_table_def)
  with Bumped.IH show ?case by simp
next
  case (Silent ws t t')
  have one: "sum_list (map snd (bump_tally w 1 d)) = sum_list (map snd d) + 1" for w and d :: "(string \<times> int) list"
    using total_fold_counts [of "[w]" d] by simp
  from Silent.hyps(2) have "in_table t' = in_table t"
    by (rule silent_step) (auto simp: in_table_def one)
  with Silent.IH show ?case by simp
qed

section \<open>Properties\<close>

text \<open>No bump is lost, however threads and signal handlers interleave. A reader that gets the
  lock reads exactly the number of bumps of its name, and in total exactly the number of bumps;
  only one that interrupts its own thread's fold reads less, by exactly what that fold has not
  stored yet.\<close>

theorem no_bump_is_lost:
  assumes "tally_run ws t" "get_tally me w t = Some (n, t1)" "total_tally me t = Some (m, t2)"
  shows "n = int (count_list ws w) -
      (if tl_folding t then (if tl_moving t = Some w then 1 else 0) + in_inbox t w else 0) \<and>
    m = int (length ws) -
      (if tl_folding t then (if tl_moving t = None then 0 else 1) + int (length (tl_inbox t)) else 0)"
proof (intro conjI)
  note run = tally_run_noted [OF assms(1), of w] tally_run_total [OF assms(1)]
  show "n = int (count_list ws w) -
      (if tl_folding t then (if tl_moving t = Some w then 1 else 0) + in_inbox t w else 0)"
    using assms(2) run
    by (auto simp: get_tally_def fold_tallies_def noted_def in_inbox_def tallies_ok_def split: if_splits)
  show "m = int (length ws) -
      (if tl_folding t then (if tl_moving t = None then 0 else 1) + int (length (tl_inbox t)) else 0)"
    using assms(3) run
    by (auto simp: total_tally_def fold_tallies_def in_table_def tallies_ok_def total_fold_counts
        split: if_splits)
qed

theorem no_bump_is_lost_witness:
  "fst (the (get_tally 1 ''site'' (new_tallies\<lparr>tl_inbox := [''site'']\<rparr>))) = 1"
proof -
  let ?t = "new_tallies\<lparr>tl_inbox := [''site'']\<rparr>"
  have "tally_run [''site''] ?t"
    using tally_run.Bumped [OF tally_run.Fresh tally_step.Put, of "''site''"]
    by (simp add: new_tallies_def)
  moreover have "get_tally 1 ''site'' ?t = Some (fst (the (get_tally 1 ''site'' ?t)), snd (the (get_tally 1 ''site'' ?t)))"
    "total_tally 1 ?t = Some (fst (the (total_tally 1 ?t)), snd (the (total_tally 1 ?t)))"
    by (simp_all add: get_tally_def total_tally_def lock_free_def new_tallies_def)
  ultimately have "fst (the (get_tally 1 ''site'' ?t)) = int (count_list [''site''] ''site'') -
      (if tl_folding ?t then (if tl_moving ?t = Some ''site'' then 1 else 0) + in_inbox ?t ''site'' else 0)"
    by (rule no_bump_is_lost [THEN conjunct1])
  then show ?thesis by (simp add: new_tallies_def)
qed

text \<open>The one sanctioned swallow swallows failures and nothing else. A block that returned, the
  host's control flow and whatever is no \<open>Exception\<close> pass through and leave no trace; a failure is
  suppressed, counted once at its site and once in the loss ledger, and a converted panic once
  more under its own name.\<close>

theorem guard_swallows_only_failures:
  assumes "tally_run ws t" "guard_exit me site e (t, l) = (swallowed, t', l')"
  shows "(swallowed \<longleftrightarrow> e = Failed True \<or> e = Failed False) \<and>
    noted t' w = noted t w + (if swallowed \<and> w = site then 1 else 0) +
      (if e = Failed True \<and> w = ''ffi.panic_converted'' then 1 else 0) \<and>
    counted l' k = counted l k +
      (if swallowed \<and> k = (R_INTERNAL_SDK_ERROR, default_unit R_INTERNAL_SDK_ERROR) then 1 else 0)"
proof (intro conjI)
  have ok: "tl_folding t \<or> tl_moving t = None"
    using tally_run_noted [OF assms(1)] by (auto simp: tallies_ok_def)
  show "swallowed \<longleftrightarrow> e = Failed True \<or> e = Failed False"
    using assms(2) by (cases e) (auto simp: guard_exit_def Let_def)
  show "noted t' w = noted t w + (if swallowed \<and> w = site then 1 else 0) +
      (if e = Failed True \<and> w = ''ffi.panic_converted'' then 1 else 0)"
    using assms(2) ok by (cases e) (auto simp: guard_exit_def Let_def tally_bump_frame)
  show "counted l' k = counted l k +
      (if swallowed \<and> k = (R_INTERNAL_SDK_ERROR, default_unit R_INTERNAL_SDK_ERROR) then 1 else 0)"
    using assms(2) lg.lose_counts [of me "reason_value R_INTERNAL_SDK_ERROR" 1 None "Some site" l k]
    by (cases e) (auto simp: guard_exit_def Let_def unit_for_def)
qed

theorem guard_swallows_only_failures_witness:
  "fst (guard_exit 1 ''site'' (Failed True) (new_tallies, sample_ledger)) = True"
  using guard_swallows_only_failures
    [OF tally_run.Fresh, of 1 "''site''" "Failed True" sample_ledger
       "fst (guard_exit 1 ''site'' (Failed True) (new_tallies, sample_ledger))"
       "fst (snd (guard_exit 1 ''site'' (Failed True) (new_tallies, sample_ledger)))"
       "snd (snd (guard_exit 1 ''site'' (Failed True) (new_tallies, sample_ledger)))"]
  by simp

end
