(* ===== verification/Streams.thy ===== *)
theory Streams
  imports Naming Scope
begin

text \<open>
  HTTP/2 correlation in the byte seam: which task issued each stream
  (\<open>_interceptors/_h2_issuer.py\<close>), the identity its work was issued under
  (\<open>_interceptors/_issue_scope.py\<close>), the per-stream latch of the tracker
  (\<open>_Http2Tracker\<close> of \<open>_interceptors/_trackers.py\<close>) and what the capture gate of the seam
  (\<open>_should_capture\<close> of \<open>_interceptors/_seam.py\<close>) makes of a transaction.

  The frame parser is native code outside the Python sources: what it returns for a chunk (the
  streams it opened, its transactions) is an argument. So are the clock and what the calling
  context's scope holds. A bytes object is its address and its identity: an address is reused
  after the object died, an identity is not. A dictionary keyed by stream is an association
  list, a set of stream ids a list without duplicates.
\<close>

section \<open>Dictionaries that drop their lowest key\<close>

lemma length_delete_less: "k \<in> fst ` set d \<Longrightarrow> length (AList.delete k d) < length d"
  by (induction d) (auto simp: AList.delete_eq le_imp_less_Suc)

function drop_lowest :: "nat \<Rightarrow> (int \<times> 'a) list \<Rightarrow> (int \<times> 'a) list \<times> (int \<times> 'a) list" where
  "drop_lowest cap d =
     (if length d \<le> cap then ([], d)
      else (let k = Min (fst ` set d)
            in case drop_lowest cap (AList.delete k d) of
                 (gone, rest) \<Rightarrow> ((k, the (map_of d k)) # gone, rest)))"
  by pat_completeness auto

termination
proof (relation "measure (\<lambda>(cap, d). length d)")
  fix cap :: nat and d :: "(int \<times> 'a) list" and k
  assume "\<not> length d \<le> cap" "k = Min (fst ` set d)"
  then have "fst ` set d \<noteq> {}" by auto
  then have "k \<in> fst ` set d" using \<open>k = Min (fst ` set d)\<close> by (metis Min_in finite_imageI finite_set)
  then show "((cap, AList.delete k d), cap, d) \<in> measure (\<lambda>(cap, d). length d)"
    by (simp add: length_delete_less)
qed simp

declare drop_lowest.simps [simp del]

section \<open>Who issued a stream\<close>

type_synonym scope_snapshot = "tags \<times> user_info option"

definition UNKNOWN_ISSUER :: scope_snapshot where
  "UNKNOWN_ISSUER = ([], None)"

record chunk =
  ck_address :: nat
  ck_identity :: nat
  ck_length :: nat

record issued =
  is_parent :: "span_context option"
  is_parent_closed :: bool
  is_conversation :: "conversation option"
  is_scope :: scope_snapshot

record stream_issuers =
  si_by_stream :: "(int \<times> issued) list"
  si_cap :: nat
  si_offered :: "chunk option"
  si_link :: "nat option"

text \<open>One thread's index of pending offers, oldest first, and the state machines' tables.
  \<open>wr_alive\<close> and \<open>wr_tracker_alive\<close> are what the weak references read.\<close>

record wire =
  wr_issuers :: "nat \<Rightarrow> stream_issuers"
  wr_alive :: "nat \<Rightarrow> bool"
  wr_tracker_alive :: "nat \<Rightarrow> bool"
  wr_index :: "(nat \<times> nat) list"

definition OFFER_MIN :: nat where "OFFER_MIN = 9"
definition OFFER_MAX :: nat where "OFFER_MAX = 4096"
definition UNLINKED_CAP :: nat where "UNLINKED_CAP = 64"
definition INDEX_CAP :: nat where "INDEX_CAP = 1024"

definition new_issuers :: stream_issuers where
  "new_issuers = \<lparr>si_by_stream = [], si_cap = UNLINKED_CAP, si_offered = None, si_link = None\<rparr>"

definition on_issuers :: "nat \<Rightarrow> (stream_issuers \<Rightarrow> stream_issuers) \<Rightarrow> wire \<Rightarrow> wire" where
  "on_issuers c f w = w\<lparr>wr_issuers := (wr_issuers w)(c := f (wr_issuers w c))\<rparr>"

definition linked :: "wire \<Rightarrow> nat \<Rightarrow> bool" where
  "linked w c = (case si_link (wr_issuers w c) of None \<Rightarrow> False | Some tr \<Rightarrow> wr_tracker_alive w tr)"

definition record_issuer :: "int \<Rightarrow> issued \<Rightarrow> stream_issuers \<Rightarrow> bool \<times> stream_issuers" where
  "record_issuer sid i s =
     (if sid \<in> fst ` set (si_by_stream s) then (False, s)
      else (True, s\<lparr>si_by_stream := snd (drop_lowest (si_cap s) (AList.update sid i (si_by_stream s)))\<rparr>))"

definition forget_issuer :: "int \<Rightarrow> stream_issuers \<Rightarrow> stream_issuers" where
  "forget_issuer sid s = s\<lparr>si_by_stream := AList.delete sid (si_by_stream s)\<rparr>"

definition take_issuer :: "int \<Rightarrow> stream_issuers \<Rightarrow> issued option \<times> stream_issuers" where
  "take_issuer sid s =
     (map_of (si_by_stream s) sid, s\<lparr>si_by_stream := AList.delete sid (si_by_stream s)\<rparr>)"

definition clear_issuers :: "stream_issuers \<Rightarrow> stream_issuers" where
  "clear_issuers s = s\<lparr>si_by_stream := []\<rparr>"

definition offer :: "nat \<Rightarrow> chunk \<Rightarrow> wire \<Rightarrow> wire" where
  "offer c chunk w =
     (let w = on_issuers c (\<lambda>s. s\<lparr>si_offered := Some chunk\<rparr>) w;
          index = AList.delete (ck_address chunk) (wr_index w) @ [(ck_address chunk, c)]
      in w\<lparr>wr_index := drop (length index - INDEX_CAP) index\<rparr>)"

definition claim_chunk :: "chunk \<Rightarrow> nat \<Rightarrow> nat \<Rightarrow> wire \<Rightarrow> nat option \<times> wire" where
  "claim_chunk chunk tr cap w =
     (let w1 = w\<lparr>wr_index := AList.delete (ck_address chunk) (wr_index w)\<rparr>
      in case map_of (wr_index w) (ck_address chunk) of
           None \<Rightarrow> (None, w1)
         | Some c \<Rightarrow>
             if \<not> wr_alive w c then (None, w1)
             else (case si_offered (wr_issuers w c) of
                     None \<Rightarrow> (None, w1)
                   | Some offered \<Rightarrow>
                       if ck_identity offered \<noteq> ck_identity chunk then (None, w1)
                       else (Some c, on_issuers c
                              (\<lambda>s. s\<lparr>si_offered := None, si_link := Some tr, si_cap := cap\<rparr>) w1)))"

text \<open>The two wrappers on the host's state machine \<open>c\<close>: the issuer is recorded before the
  original call and forgotten if that call raises; a chunk it hands out is offered.\<close>

definition send_headers :: "nat \<Rightarrow> bool \<Rightarrow> int \<Rightarrow> issued \<Rightarrow> bool \<Rightarrow> wire \<Rightarrow> wire" where
  "send_headers c client_side sid i raises w =
     (if \<not> client_side then w
      else (case record_issuer sid i (wr_issuers w c) of
              (recorded, s) \<Rightarrow>
                let w = on_issuers c (\<lambda>_. s) w
                in if raises \<and> recorded then on_issuers c (forget_issuer sid) w else w))"

definition data_to_send :: "nat \<Rightarrow> bool \<Rightarrow> chunk \<Rightarrow> wire \<Rightarrow> wire" where
  "data_to_send c client_side out w =
     (if OFFER_MIN \<le> ck_length out \<and> ck_length out \<le> OFFER_MAX \<and> client_side \<and> \<not> linked w c
      then offer c out w else w)"

definition issuers_at_fork :: "wire \<Rightarrow> wire" where
  "issuers_at_fork w = w\<lparr>wr_issuers := (\<lambda>c. new_issuers), wr_index := []\<rparr>"

text \<open>Was later work issued under the identity the first names, for work that ships as one span?\<close>

definition kept :: "'a option \<Rightarrow> 'a option \<Rightarrow> bool" where
  "kept first later_value = (case first of None \<Rightarrow> True | Some v \<Rightarrow> later_value = Some v)"

definition user_field :: "(user_info \<Rightarrow> py_text option) \<Rightarrow> user_info option \<Rightarrow> py_text option" where
  "user_field f u = (case u of None \<Rightarrow> None | Some x \<Rightarrow> f x)"

definition same_issuer :: "scope_snapshot \<Rightarrow> scope_snapshot \<Rightarrow> bool" where
  "same_issuer first later_scope =
     (list_all (\<lambda>f. kept (user_field f (snd first)) (user_field f (snd later_scope)))
        [us_id, us_email, us_username, us_ip_address] \<and>
      list_all (\<lambda>(k, v). map_of (fst later_scope) k = Some v) (fst first))"

section \<open>The latch of a tracker\<close>

record latch_entry =
  en_parent :: "span_context option"
  en_parent_closed :: bool
  en_conversation :: "conversation option"
  en_scope :: scope_snapshot
  en_proven :: bool
  en_start :: int

record h2_tracker =
  ht_me :: nat
  ht_latch :: "(int \<times> latch_entry) list"
  ht_cap :: nat
  ht_evicted_below :: int
  ht_first :: int
  ht_evicted_admitting :: "int list"
  ht_issuers :: "nat option"
  ht_counters :: counters

definition max_streams :: "int option \<Rightarrow> int \<Rightarrow> nat" where
  "max_streams configured fallback =
     nat (max 1 (case configured of None \<Rightarrow> fallback | Some cap \<Rightarrow> if cap \<le> 0 then fallback else cap))"

definition new_h2_tracker :: "nat \<Rightarrow> nat \<Rightarrow> h2_tracker" where
  "new_h2_tracker me cap = \<lparr>ht_me = me, ht_latch = [], ht_cap = cap, ht_evicted_below = 0,
     ht_first = 0, ht_evicted_admitting = [], ht_issuers = None, ht_counters = []\<rparr>"

definition admits :: "span_context option \<Rightarrow> bool \<Rightarrow> bool" where
  "admits parent parent_closed = should_capture MODE_AGENT parent False False parent_closed"

definition see :: "chunk \<Rightarrow> h2_tracker \<Rightarrow> wire \<Rightarrow> h2_tracker \<times> wire" where
  "see chunk t w =
     (if ht_issuers t \<noteq> None then (t, w)
      else (case claim_chunk chunk (ht_me t) (ht_cap t) w of
              (found, w) \<Rightarrow> (t\<lparr>ht_issuers := found\<rparr>, w)))"

definition latch_of ::
  "int \<Rightarrow> span_context option \<Rightarrow> bool \<Rightarrow> int \<Rightarrow> h2_tracker \<Rightarrow> wire \<Rightarrow> latch_entry \<times> wire" where
  "latch_of sid parent parent_closed now t w =
     (let unproven = \<lparr>en_parent = parent, en_parent_closed = parent_closed, en_conversation = None,
            en_scope = UNKNOWN_ISSUER, en_proven = False, en_start = now\<rparr>
      in case ht_issuers t of
           None \<Rightarrow> (unproven, w)
         | Some c \<Rightarrow>
             (case take_issuer sid (wr_issuers w c) of
                (taken, s) \<Rightarrow>
                  (case taken of
                     None \<Rightarrow> unproven
                   | Some i \<Rightarrow> \<lparr>en_parent = is_parent i, en_parent_closed = is_parent_closed i,
                       en_conversation = is_conversation i, en_scope = is_scope i, en_proven = True,
                       en_start = now\<rparr>,
                   on_issuers c (\<lambda>_. s) w)))"

fun latches ::
  "int list \<Rightarrow> span_context option \<Rightarrow> bool \<Rightarrow> int \<Rightarrow> h2_tracker \<Rightarrow> wire \<Rightarrow>
   (int \<times> latch_entry) list \<times> wire" where
  "latches [] parent parent_closed now t w = ([], w)"
| "latches (sid # sids) parent parent_closed now t w =
     (case latch_of sid parent parent_closed now t w of
        (e, w) \<Rightarrow> (case latches sids parent parent_closed now t w of (es, w) \<Rightarrow> ((sid, e) # es, w)))"

definition note_evicted :: "int \<times> latch_entry \<Rightarrow> h2_tracker \<Rightarrow> h2_tracker" where
  "note_evicted p t =
     (case p of (sid, e) \<Rightarrow>
       let t = (if admits (en_parent e) (en_parent_closed e)
                then (let held = (if sid \<in> set (ht_evicted_admitting t) then ht_evicted_admitting t
                                  else ht_evicted_admitting t @ [sid])
                      in if length held > ht_cap t
                         then t\<lparr>ht_evicted_admitting := removeAll (Min (set held)) held,
                                ht_counters := ht_counters t @ [''protocol.http2.evicted_parent_forgotten'']\<rparr>
                         else t\<lparr>ht_evicted_admitting := held\<rparr>)
                else t)
       in t\<lparr>ht_evicted_below := max (ht_evicted_below t) sid\<rparr>)"

definition latch_streams :: "(int \<times> latch_entry) list \<Rightarrow> h2_tracker \<Rightarrow> h2_tracker" where
  "latch_streams es t =
     (let held = fold (\<lambda>(sid, e). AList.update sid e) es (ht_latch t);
          low = Min (fst ` set es);
          first = (if es = [] then ht_first t
                   else if ht_first t = 0 then low else min (ht_first t) low)
      in case drop_lowest (ht_cap t) held of
           (gone, rest) \<Rightarrow> fold note_evicted gone (t\<lparr>ht_latch := rest, ht_first := first\<rparr>))"

definition on_connection_close :: "h2_tracker \<Rightarrow> wire \<Rightarrow> h2_tracker \<times> wire" where
  "on_connection_close t w =
     (t\<lparr>ht_latch := [], ht_evicted_admitting := [], ht_evicted_below := 0, ht_first := 0\<rparr>,
      case ht_issuers t of None \<Rightarrow> w | Some c \<Rightarrow> on_issuers c clear_issuers w)"

section \<open>Transactions\<close>

text \<open>What the native parser reports of one exchange.\<close>

record native_txn =
  nt_stream_id :: int
  nt_method :: py_text
  nt_path :: py_text
  nt_status :: int
  nt_request_body :: bytes
  nt_response_body :: bytes
  nt_truncated :: bool
  nt_request_ended :: bool
  nt_request_truncated :: bool
  nt_response_truncated :: bool
  nt_request_evicted :: bool
  nt_content_type :: "py_text option"
  nt_content_encoding :: "py_text option"
  nt_grpc_status :: "int option"
  nt_grpc_message :: "py_text option"

record txn =
  tx_method :: py_text
  tx_path :: py_text
  tx_target :: py_text
  tx_status :: int
  tx_request_body :: bytes
  tx_response_body :: bytes
  tx_parent :: "span_context option"
  tx_parent_closed :: bool
  tx_parent_evicted :: bool
  tx_parent_lost :: bool
  tx_conversation :: "conversation option"
  tx_scope :: scope_snapshot
  tx_issuer_proven :: bool
  tx_start_ns :: int
  tx_end_ns :: int
  tx_truncated :: bool
  tx_request_counted :: bool
  tx_response_counted :: bool
  tx_stream_id :: "int option"
  tx_limitations :: "limitation list"
  tx_content_type :: "py_text option"
  tx_event_stream :: bool
  tx_content_encoding :: "py_text option"
  tx_grpc_status :: "int option"
  tx_grpc_message :: "py_text option"

definition merge_markers :: "limitation list list \<Rightarrow> limitation list" where
  "merge_markers groups =
     fold (\<lambda>m out. if m \<in> set out then out else out @ [m]) (concat groups) []"

text \<open>\<open>str.partition\<close>: what stands before and after the first separator, if there is one.\<close>

fun split_at :: "py_text \<Rightarrow> py_text \<Rightarrow> (py_text \<times> py_text) option" where
  "split_at sep [] = (if sep = [] then Some ([], []) else None)"
| "split_at sep (c # cs) =
     (if prefix sep (c # cs) then Some ([], drop (length sep) (c # cs))
      else map_option (\<lambda>(a, b). (c # a, b)) (split_at sep cs))"

definition after_last :: "nat \<Rightarrow> py_text \<Rightarrow> py_text" where
  "after_last c t = rev (takeWhile (\<lambda>x. x \<noteq> c) (rev t))"

definition name_path :: "py_text \<Rightarrow> py_text" where
  "name_path target =
     (let path = takeWhile (\<lambda>c. c \<noteq> 35) (takeWhile (\<lambda>c. c \<noteq> 63) target)
      in case split_at (str_lit ''://'') path of
           None \<Rightarrow> path
         | Some (scheme, rest) \<Rightarrow>
             let authority = takeWhile (\<lambda>c. c \<noteq> 47) rest; tail = dropWhile (\<lambda>c. c \<noteq> 47) rest
             in scheme @ str_lit ''://'' @ after_last 64 authority @ tail)"

definition ascii_lower :: "py_text \<Rightarrow> py_text" where
  "ascii_lower t = map (\<lambda>c. if 65 \<le> c \<and> c \<le> 90 then c + 32 else c) t"

text \<open>No character beyond ASCII lowers to a letter of \<open>text/event-stream\<close>, so ASCII decides.\<close>

definition declares_event_stream :: "py_text option \<Rightarrow> bool" where
  "declares_event_stream content_type =
     (case content_type of
        None \<Rightarrow> False
      | Some v \<Rightarrow> v \<noteq> [] \<and> ascii_lower (strip (takeWhile (\<lambda>c. c \<noteq> 59) v)) = str_lit ''text/event-stream'')"

definition mk ::
  "int \<Rightarrow> native_txn \<Rightarrow> h2_tracker \<Rightarrow> txn \<times> h2_tracker" where
  "mk now n t =
     (let sid = nt_stream_id n;
          found = map_of (ht_latch t) sid;
          missing = \<lparr>en_parent = None, en_parent_closed = False, en_conversation = None,
                     en_scope = UNKNOWN_ISSUER, en_proven = False, en_start = now\<rparr>;
          e = (case found of None \<Rightarrow> missing | Some e \<Rightarrow> e);
          evicted = (found = None \<and> ht_first t \<le> sid \<and> sid \<le> ht_evicted_below t);
          lost = (found = None \<and> sid \<in> set (ht_evicted_admitting t));
          t1 = t\<lparr>ht_latch := AList.delete sid (ht_latch t),
                 ht_evicted_admitting := (if found = None then removeAll sid (ht_evicted_admitting t)
                                          else ht_evicted_admitting t)\<rparr>;
          gone = nt_request_evicted n;
          t2 = (if gone then t1\<lparr>ht_counters := ht_counters t1 @ [''protocol.http2.stream_evicted'']\<rparr> else t1);
          target = (if nt_path n = [] then str_lit ''/'' else nt_path n)
      in (\<lparr>tx_method = (if nt_method n = [] then str_lit ''?'' else nt_method n),
           tx_path = name_path target, tx_target = target, tx_status = nt_status n,
           tx_request_body = nt_request_body n, tx_response_body = nt_response_body n,
           tx_parent = en_parent e, tx_parent_closed = en_parent_closed e,
           tx_parent_evicted = evicted, tx_parent_lost = lost,
           tx_conversation = en_conversation e, tx_scope = en_scope e,
           tx_issuer_proven = en_proven e, tx_start_ns = en_start e, tx_end_ns = now,
           tx_truncated = (nt_truncated n \<or> gone),
           tx_request_counted = (nt_request_ended n \<and> \<not> (nt_request_truncated n \<or> gone)),
           tx_response_counted = (\<not> nt_response_truncated n), tx_stream_id = Some sid,
           tx_limitations = merge_markers [if gone then [H2_REQUEST_EVICTED] else [],
                                           if nt_truncated n then [BODY_CAP_EXCEEDED] else []],
           tx_content_type = nt_content_type n,
           tx_event_stream = declares_event_stream (nt_content_type n),
           tx_content_encoding = nt_content_encoding n, tx_grpc_status = nt_grpc_status n,
           tx_grpc_message = nt_grpc_message n\<rparr>, t2))"

fun ship_all ::
  "int \<Rightarrow> native_txn list \<Rightarrow> h2_tracker \<Rightarrow> txn list \<times> h2_tracker" where
  "ship_all now [] t = ([], t)"
| "ship_all now (n # ns) t =
     (case mk now n t of (x, t) \<Rightarrow>
        if nt_status n = 0 then ship_all now ns t
        else if nt_method n = [] \<and> \<not> nt_request_evicted n
        then ship_all now ns (t\<lparr>ht_counters := ht_counters t @ [''protocol.http2.request_unobserved'']\<rparr>)
        else (case ship_all now ns t of (xs, t) \<Rightarrow> (x # xs, t)))"

definition on_request_bytes ::
  "int \<Rightarrow> chunk \<Rightarrow> int list \<Rightarrow> native_txn list \<Rightarrow> span_context option \<Rightarrow> bool \<Rightarrow>
   h2_tracker \<Rightarrow> wire \<Rightarrow> txn list \<times> h2_tracker \<times> wire" where
  "on_request_bytes now chunk opened txns parent parent_closed t w =
     (case see chunk t w of (t, w) \<Rightarrow>
        (case latches opened parent (opened \<noteq> [] \<and> parent_closed) now t w of (es, w) \<Rightarrow>
           (case ship_all now txns (latch_streams es t) of (xs, t) \<Rightarrow> (xs, t, w))))"

definition on_response_bytes ::
  "int \<Rightarrow> native_txn list \<Rightarrow> h2_tracker \<Rightarrow> txn list \<times> h2_tracker" where
  "on_response_bytes now txns t = ship_all now txns t"

section \<open>The gate of the seam\<close>

datatype prefilter = DENY | ALLOW | DEFER

text \<open>\<open>agent_semantic\<close> is the claim of the parsed body; None is a parser object that raises.\<close>

definition seam_should_capture ::
  "prefilter \<Rightarrow> txn \<Rightarrow> bool option \<Rightarrow> bool \<Rightarrow> capture_mode \<Rightarrow> bool \<Rightarrow> bool" where
  "seam_should_capture pre x agent_semantic in_degraded_run mode unparsed =
     (case pre of
        DENY \<Rightarrow> False
      | ALLOW \<Rightarrow> True
      | DEFER \<Rightarrow>
          (case agent_semantic of
             None \<Rightarrow> True
           | Some claim \<Rightarrow>
               should_capture mode (tx_parent x) claim (unparsed \<or> in_degraded_run \<or> tx_parent_lost x)
                 (tx_parent_closed x)))"

text \<open>The head of \<open>_assemble\<close>: whether the span ships, and whether its bodies are withheld.\<close>

definition gate ::
  "prefilter \<Rightarrow> txn \<Rightarrow> bool option \<Rightarrow> bool \<Rightarrow> capture_mode \<Rightarrow> bool \<Rightarrow> bool \<times> bool" where
  "gate pre x agent_semantic in_degraded_run mode unparsed =
     (seam_should_capture pre x agent_semantic in_degraded_run mode unparsed,
      unparsed \<and> \<not> seam_should_capture pre x agent_semantic in_degraded_run mode False)"

definition latched :: "txn \<Rightarrow> ambient" where
  "latched x = \<lparr>am_span_context = tx_parent x, am_conversation = tx_conversation x,
     am_tracestate = None\<rparr>"

definition observed_edge :: "trace_id \<Rightarrow> txn \<Rightarrow> bool \<Rightarrow> parentage" where
  "observed_edge fresh x in_degraded_run =
     resolve_observed fresh (latched x) (tx_parent_closed x) (tx_parent_evicted x) in_degraded_run"

end
