(* ===== verification/Streams_Laws.thy ===== *)
theory Streams_Laws
  imports Streams
begin

text \<open>
  What the latch of an HTTP/2 tracker keeps. \<open>stream_run t L E\<close> is a tracker after any
  sequence of requests, answers and closes, with the streams it latched since the last
  close (\<open>L\<close>) and the ones its bound dropped whose answer has not come (\<open>E\<close>); \<open>h2_ok\<close> is its
  invariant. \<open>wire_run w R H\<close> is the state of the issuer tables, with every issuer recorded
  (\<open>R\<close>) and every chunk a state machine handed out (\<open>H\<close>).
\<close>

section \<open>Dropping the lowest keys\<close>

lemma set_delete_key: "distinct (map fst d) \<Longrightarrow> map_of d k = Some v \<Longrightarrow>
  set d = insert (k, v) (set (AList.delete k d))"
  by (auto simp: AList.delete_eq dest: map_of_SomeD eq_key_imp_eq_value)

lemma drop_lowest_spec:
  "distinct (map fst d) \<Longrightarrow> drop_lowest cap d = (gone, rest) \<Longrightarrow>
   set d = set gone \<union> set rest \<and> distinct (map fst (gone @ rest)) \<and> length rest \<le> cap \<and>
   (length d \<le> cap \<longrightarrow> gone = [] \<and> rest = d)"
proof (induction cap d arbitrary: gone rest rule: drop_lowest.induct)
  case (1 cap d)
  show ?case
  proof (cases "length d \<le> cap")
    case True
    then have "gone = []" "rest = d" using 1(3) by (simp_all add: drop_lowest.simps)
    then show ?thesis using 1(2) True by simp
  next
    case False
    let ?k = "Min (fst ` set d)"
    obtain gone' where rec: "drop_lowest cap (AList.delete ?k d) = (gone', rest)"
      and gone: "gone = (?k, the (map_of d ?k)) # gone'"
      using 1(3) False by (subst (asm) drop_lowest.simps) (auto simp: Let_def split: prod.splits)
    have "d \<noteq> []" using False by auto
    then have "?k \<in> fst ` set d" by (intro Min_in) auto
    then obtain v where v: "map_of d ?k = Some v" by (metis domIff dom_map_of_conv_image_fst not_None_eq)
    have dist: "distinct (map fst (AList.delete ?k d))" using 1(2) by (simp add: distinct_delete)
    have IH: "set (AList.delete ?k d) = set gone' \<union> set rest" "distinct (map fst (gone' @ rest))"
      "length rest \<le> cap"
      using 1(1) [OF False refl dist rec] by blast+
    have "?k \<notin> fst ` set (AList.delete ?k d)" by (auto simp: AList.delete_eq)
    then have "?k \<notin> fst ` set gone'" "?k \<notin> fst ` set rest" using IH(1) by auto
    then show ?thesis using IH gone v set_delete_key [OF 1(2) v] False by auto
  qed
qed

lemma fold_update_new:
  "distinct (map fst (d @ es)) \<Longrightarrow> fold (\<lambda>(k, v). AList.update k v) es d = d @ es"
proof (induction es arbitrary: d)
  case Nil
  then show ?case by simp
next
  case (Cons p es)
  obtain k v where p: "p = (k, v)" by (cases p)
  have "AList.update k v d = d @ [(k, v)]" using Cons.prems p by (intro update_new) auto
  with Cons.IH [of "d @ [(k, v)]"] Cons.prems p show ?case by simp
qed

section \<open>The tracker's run\<close>

inductive stream_run ::
  "h2_tracker \<Rightarrow> (int \<times> latch_entry) list \<Rightarrow> (int \<times> latch_entry) list \<Rightarrow> bool" where
  Fresh: "1 \<le> cap \<Longrightarrow> stream_run (new_h2_tracker me cap) [] []"
| Latched: "stream_run t L E \<Longrightarrow> distinct (map fst (L @ es)) \<Longrightarrow> list_all (\<lambda>p. 0 < fst p) es \<Longrightarrow>
    stream_run (latch_streams es t) (L @ es) (E @ fst (drop_lowest (ht_cap t) (ht_latch t @ es)))"
| Answered: "stream_run t L E \<Longrightarrow> mk now n t = (x, t') \<Longrightarrow>
    stream_run t' L (filter (\<lambda>p. fst p \<noteq> nt_stream_id n) E)"
| Counted: "stream_run t L E \<Longrightarrow> stream_run (t\<lparr>ht_counters := ht_counters t @ [''protocol.http2.request_unobserved'']\<rparr>) L E"
| Linked: "stream_run t L E \<Longrightarrow> stream_run (t\<lparr>ht_issuers := c\<rparr>) L E"
| Closed: "stream_run t L E \<Longrightarrow> stream_run (fst (on_connection_close t w)) [] []"

definition FORGOTTEN :: string where
  "FORGOTTEN = ''protocol.http2.evicted_parent_forgotten''"

definition admits_entry :: "latch_entry \<Rightarrow> bool" where
  "admits_entry e = admits (en_parent e) (en_parent_closed e)"

definition latch_ok :: "h2_tracker \<Rightarrow> (int \<times> latch_entry) list \<Rightarrow> (int \<times> latch_entry) list \<Rightarrow> bool" where
  "latch_ok t L E \<longleftrightarrow>
     1 \<le> ht_cap t \<and> length (ht_latch t) \<le> ht_cap t \<and>
     distinct (map fst L) \<and> distinct (map fst (ht_latch t @ E)) \<and>
     set (ht_latch t) \<subseteq> set L \<and> set E \<subseteq> set L"

definition window_ok :: "h2_tracker \<Rightarrow> (int \<times> latch_entry) list \<Rightarrow> (int \<times> latch_entry) list \<Rightarrow> bool" where
  "window_ok t L E \<longleftrightarrow>
     (if L = [] then ht_first t = 0 \<and> ht_evicted_below t = 0
      else 0 < ht_first t \<and> (\<forall>k \<in> fst ` set L. ht_first t \<le> k)) \<and>
     (\<forall>k \<in> fst ` set E. k \<le> ht_evicted_below t)"

definition lost_keys :: "(int \<times> latch_entry) list \<Rightarrow> int set" where
  "lost_keys E = fst ` set (filter (\<lambda>p. admits_entry (snd p)) E)"

definition admitting_ok :: "h2_tracker \<Rightarrow> (int \<times> latch_entry) list \<Rightarrow> bool" where
  "admitting_ok t E \<longleftrightarrow>
     distinct (ht_evicted_admitting t) \<and> length (ht_evicted_admitting t) \<le> ht_cap t \<and>
     set (ht_evicted_admitting t) \<subseteq> lost_keys E \<and>
     (FORGOTTEN \<in> set (ht_counters t) \<or> lost_keys E \<subseteq> set (ht_evicted_admitting t))"

definition h2_ok :: "h2_tracker \<Rightarrow> (int \<times> latch_entry) list \<Rightarrow> (int \<times> latch_entry) list \<Rightarrow> bool" where
  "h2_ok t L E \<longleftrightarrow> latch_ok t L E \<and> window_ok t L E \<and> admitting_ok t E"

lemma lost_keys_snoc [simp]:
  "lost_keys (E @ [(k, e)]) = (if admits_entry e then insert k (lost_keys E) else lost_keys E)"
  by (auto simp: lost_keys_def)

lemma lost_keys_subset: "lost_keys E \<subseteq> fst ` set E"
  by (auto simp: lost_keys_def)

lemma note_evicted_fields:
  "ht_latch (note_evicted p t) = ht_latch t" "ht_cap (note_evicted p t) = ht_cap t"
  "ht_first (note_evicted p t) = ht_first t"
  "ht_evicted_below (note_evicted p t) = max (ht_evicted_below t) (fst p)"
  by (cases p; simp add: note_evicted_def Let_def)+

lemma note_evicted_admitting:
  assumes "admitting_ok t E" "k \<notin> fst ` set E" "1 \<le> ht_cap t"
  shows "admitting_ok (note_evicted (k, e) t) (E @ [(k, e)])"
proof -
  let ?A = "ht_evicted_admitting t"
  have new: "k \<notin> set ?A" using assms lost_keys_subset [of E] by (auto simp: admitting_ok_def)
  show ?thesis
  proof (cases "admits_entry e")
    case False
    then have "note_evicted (k, e) t = t\<lparr>ht_evicted_below := max (ht_evicted_below t) k\<rparr>"
      by (simp add: note_evicted_def admits_entry_def)
    with assms(1) False show ?thesis by (simp add: admitting_ok_def)
  next
    case True
    show ?thesis
    proof (cases "length ?A + 1 > ht_cap t")
      case False
      then have "note_evicted (k, e) t =
          t\<lparr>ht_evicted_admitting := ?A @ [k], ht_evicted_below := max (ht_evicted_below t) k\<rparr>"
        using True new by (simp add: note_evicted_def admits_entry_def Let_def)
      with assms(1) True new False show ?thesis by (auto simp: admitting_ok_def)
    next
      case full: True
      let ?held = "?A @ [k]"
      let ?low = "Min (set ?held)"
      have at: "?low \<in> set ?held" by (intro Min_in) auto
      have dist: "distinct ?held" using assms(1) new by (simp add: admitting_ok_def)
      have "length (removeAll ?low ?held) = length ?held - 1"
        using dist at by (metis distinct_remove1_removeAll length_remove1)
      then have short: "length (removeAll ?low ?held) \<le> ht_cap t"
        using assms(1) by (simp add: admitting_ok_def)
      have eq: "note_evicted (k, e) t = t\<lparr>ht_evicted_admitting := removeAll ?low ?held,
          ht_counters := ht_counters t @ [FORGOTTEN], ht_evicted_below := max (ht_evicted_below t) k\<rparr>"
        using True new full by (simp add: note_evicted_def admits_entry_def Let_def FORGOTTEN_def)
      have "set (removeAll ?low ?held) \<subseteq> insert k (lost_keys E)"
        using assms(1) by (auto simp: admitting_ok_def)
      moreover have "distinct (removeAll ?low ?held)" using dist by (rule distinct_removeAll)
      moreover have "FORGOTTEN \<in> set (ht_counters t @ [FORGOTTEN])" by simp
      ultimately show ?thesis using short True
        unfolding eq admitting_ok_def by (simp del: set_append removeAll_append)
    qed
  qed
qed

lemma note_evicted_ok:
  assumes "h2_ok t L E" "p \<in> set L" "fst p \<notin> fst ` set (ht_latch t @ E)"
  shows "h2_ok (note_evicted p t) L (E @ [p])"
proof -
  obtain k e where p: "p = (k, e)" by (cases p)
  have latch: "latch_ok (note_evicted p t) L (E @ [p])"
    using assms by (auto simp: h2_ok_def latch_ok_def note_evicted_fields)
  have "L \<noteq> []" using assms(2) by auto
  then have window: "window_ok (note_evicted p t) L (E @ [p])"
    using assms(1) by (auto simp: h2_ok_def window_ok_def note_evicted_fields max_def)
  have "admitting_ok (note_evicted (k, e) t) (E @ [(k, e)])"
    using assms p by (intro note_evicted_admitting) (auto simp: h2_ok_def latch_ok_def)
  with latch window p show ?thesis by (simp add: h2_ok_def)
qed

lemma fold_note_evicted_ok:
  "h2_ok t L E \<Longrightarrow> set gone \<subseteq> set L \<Longrightarrow> distinct (map fst (gone @ ht_latch t @ E)) \<Longrightarrow>
   h2_ok (fold note_evicted gone t) L (E @ gone)"
proof (induction gone arbitrary: t E)
  case Nil
  then show ?case by simp
next
  case (Cons p gone)
  have "h2_ok (note_evicted p t) L (E @ [p])"
    using note_evicted_ok [OF Cons.prems(1), of p] Cons.prems(2,3) by auto
  from Cons.IH [OF this] Cons.prems show ?case by (auto simp: note_evicted_fields)
qed

lemma latch_streams_ok:
  assumes "h2_ok t L E" "distinct (map fst (L @ es))" "list_all (\<lambda>p. 0 < fst p) es"
  shows "h2_ok (latch_streams es t) (L @ es) (E @ fst (drop_lowest (ht_cap t) (ht_latch t @ es)))"
proof -
  obtain gone rest where dl: "drop_lowest (ht_cap t) (ht_latch t @ es) = (gone, rest)" by fastforce
  have parts: "latch_ok t L E" "window_ok t L E" "admitting_ok t E"
    using assms(1) by (simp_all add: h2_ok_def)
  have sub: "fst ` set (ht_latch t @ E) \<subseteq> fst ` set L" using parts(1) by (auto simp: latch_ok_def)
  have fresh: "fst ` set es \<inter> fst ` set (ht_latch t @ E) = {}" using assms(2) sub by auto
  have dist: "distinct (map fst (ht_latch t @ es))"
    using parts(1) assms(2) fresh by (auto simp: latch_ok_def)
  note spec = drop_lowest_spec [OF dist dl]
  let ?low = "Min (fst ` set es)"
  let ?first = "if es = [] then ht_first t else if ht_first t = 0 then ?low else min (ht_first t) ?low"
  let ?t1 = "t\<lparr>ht_latch := rest, ht_first := ?first\<rparr>"
  have eq: "latch_streams es t = fold note_evicted gone ?t1"
    using fold_update_new [OF dist] dl by (simp add: latch_streams_def Let_def)
  have whole: "set (ht_latch t @ es) = set gone \<union> set rest" using spec by (rule conjunct1)
  have "set (ht_latch t @ es) \<subseteq> set (L @ es)" using parts(1) by (auto simp: latch_ok_def)
  then have sets: "set rest \<subseteq> set (L @ es)" "set gone \<subseteq> set (L @ es)" unfolding whole by blast+
  have keys: "distinct (map fst (gone @ rest @ E))"
  proof -
    have "set (gone @ rest) = set (ht_latch t @ es)" unfolding whole by simp
    then have "fst ` set (gone @ rest) = fst ` set (ht_latch t @ es)" by (rule arg_cong)
    moreover have "fst ` set (ht_latch t @ es) \<inter> fst ` set E = {}"
      using parts(1) fresh by (auto simp: latch_ok_def)
    ultimately have "fst ` set (gone @ rest) \<inter> fst ` set E = {}" by (rule ssubst)
    moreover have "distinct (map fst (gone @ rest))" "distinct (map fst E)"
      using conjunct1 [OF conjunct2 [OF spec]] parts(1) by (simp_all add: latch_ok_def)
    ultimately have "distinct (map fst (gone @ rest) @ map fst E)"
      unfolding distinct_append by (simp only: set_map conj_absorb simp_thms)
    then show ?thesis by simp
  qed
  have "latch_ok ?t1 (L @ es) E"
    using parts(1) assms(2) sets(1) keys conjunct1 [OF conjunct2 [OF conjunct2 [OF spec]]]
    by (auto simp: latch_ok_def)
  moreover have "window_ok ?t1 (L @ es) E"
  proof (cases "es = []")
    case True
    with parts(2) show ?thesis by (simp add: window_ok_def)
  next
    case False
    have "?low \<in> fst ` set es" using False by (intro Min_in) auto
    then have pos: "0 < ?low" using assms(3) by (auto simp: list_all_iff)
    have le: "\<forall>k \<in> fst ` set es. ?low \<le> k" by simp
    show ?thesis
    proof (cases "L = []")
      case True
      with parts False pos le show ?thesis by (simp add: window_ok_def latch_ok_def)
    next
      case L: False
      then have f: "0 < ht_first t" "\<forall>k \<in> fst ` set L. ht_first t \<le> k"
        "\<forall>k \<in> fst ` set E. k \<le> ht_evicted_below t"
        using parts(2) by (simp_all add: window_ok_def)
      have "\<forall>k \<in> fst ` set (L @ es). min (ht_first t) ?low \<le> k"
        unfolding set_append image_Un ball_Un using f(2) le by (meson min.coboundedI1 min.coboundedI2)
      with f pos False show ?thesis unfolding window_ok_def by simp
    qed
  qed
  moreover have "admitting_ok ?t1 E" using parts(3) by (simp add: admitting_ok_def)
  ultimately have "h2_ok ?t1 (L @ es) E" by (simp add: h2_ok_def)
  from fold_note_evicted_ok [OF this sets(2)] keys show ?thesis by (simp add: eq dl)
qed

lemma mk_state:
  "snd (mk now n t) = t\<lparr>ht_latch := AList.delete (nt_stream_id n) (ht_latch t),
     ht_evicted_admitting := (if map_of (ht_latch t) (nt_stream_id n) = None
       then removeAll (nt_stream_id n) (ht_evicted_admitting t) else ht_evicted_admitting t),
     ht_counters := ht_counters t @ (if nt_request_evicted n then [''protocol.http2.stream_evicted''] else [])\<rparr>"
  by (simp add: mk_def Let_def)

lemma lost_keys_filter: "lost_keys (filter (\<lambda>p. fst p \<noteq> k) E) = lost_keys E - {k}"
  by (auto simp: lost_keys_def)

lemma mk_ok:
  assumes "h2_ok t L E"
  shows "h2_ok (snd (mk now n t)) L (filter (\<lambda>p. fst p \<noteq> nt_stream_id n) E)"
proof -
  let ?k = "nt_stream_id n" and ?t = "snd (mk now n t)"
  let ?E = "filter (\<lambda>p. fst p \<noteq> ?k) E"
  have parts: "latch_ok t L E" "window_ok t L E" "admitting_ok t E"
    using assms by (simp_all add: h2_ok_def)
  have "length (AList.delete ?k (ht_latch t)) \<le> ht_cap t"
    using parts(1) length_delete_le [of ?k "ht_latch t"] by (simp add: latch_ok_def)
  then have "latch_ok ?t L ?E"
    using parts(1) by (auto simp: latch_ok_def mk_state AList.delete_eq distinct_map_filter)
  moreover have "window_ok ?t L ?E" using parts(2) by (auto simp: window_ok_def mk_state)
  moreover have "admitting_ok ?t ?E"
  proof (cases "map_of (ht_latch t) ?k = None")
    case True
    have "length (ht_evicted_admitting t) \<le> ht_cap t" using parts(3) by (simp add: admitting_ok_def)
    then have "length (removeAll ?k (ht_evicted_admitting t)) \<le> ht_cap t"
      using length_removeAll_less_eq [of ?k "ht_evicted_admitting t"] by (rule order_trans [rotated])
    with parts(3) True show ?thesis
      by (auto simp: admitting_ok_def mk_state lost_keys_filter distinct_removeAll)
  next
    case False
    then have "?k \<in> fst ` set (ht_latch t)" by (metis map_of_eq_None_iff)
    then have "?k \<notin> fst ` set E" using parts(1) by (auto simp: latch_ok_def)
    then have "?E = E" by (force simp: filter_id_conv)
    with parts(3) False show ?thesis by (auto simp: admitting_ok_def mk_state)
  qed
  ultimately show ?thesis by (simp add: h2_ok_def)
qed

lemma stream_run_ok: "stream_run t L E \<Longrightarrow> h2_ok t L E"
proof (induction rule: stream_run.induct)
  case (Fresh cap me)
  then show ?case
    by (simp add: h2_ok_def latch_ok_def window_ok_def admitting_ok_def new_h2_tracker_def lost_keys_def)
next
  case (Latched t L E es)
  then show ?case by (simp add: latch_streams_ok)
next
  case (Answered t L E now n x t')
  then show ?case using mk_ok [of t L E now n] by simp
next
  case (Counted t L E)
  then show ?case by (auto simp: h2_ok_def latch_ok_def window_ok_def admitting_ok_def)
next
  case (Linked t L E c)
  then show ?case by (simp add: h2_ok_def latch_ok_def window_ok_def admitting_ok_def)
next
  case (Closed t L E w)
  then show ?case
    by (simp add: h2_ok_def latch_ok_def window_ok_def admitting_ok_def on_connection_close_def lost_keys_def)
qed

text \<open>The handlers of the tracker are runs.\<close>

lemma ship_all_run: "stream_run t L E \<Longrightarrow> \<exists>E'. stream_run (snd (ship_all now ns t)) L E'"
proof (induction now ns t arbitrary: E rule: ship_all.induct)
  case (1 now t)
  then show ?case by auto
next
  case (2 now n ns t)
  obtain x t1 where one: "mk now n t = (x, t1)" by fastforce
  have run: "stream_run t1 L (filter (\<lambda>p. fst p \<noteq> nt_stream_id n) E)"
    using stream_run.Answered [OF "2.prems" one] .
  show ?case
  proof (cases "nt_status n = 0")
    case True
    then show ?thesis using "2.IH"(1) [OF one [symmetric] True run] one by simp
  next
    case False
    show ?thesis
    proof (cases "nt_method n = [] \<and> \<not> nt_request_evicted n")
      case True
      then show ?thesis using "2.IH"(2) [OF one [symmetric] False True stream_run.Counted [OF run]] one False
        by simp
    next
      case shipped: False
      have "snd (ship_all now (n # ns) t) = snd (ship_all now ns t1)"
        using one False shipped by (auto simp: case_prod_unfold)
      then show ?thesis using "2.IH"(3) [OF one [symmetric] False shipped run] by simp
    qed
  qed
qed

lemma latches_keys: "map fst (fst (latches sids parent parent_closed now t w)) = sids"
  by (induction sids arbitrary: w) (auto split: prod.splits simp: case_prod_unfold)

lemma on_request_bytes_run:
  assumes "stream_run t L E" "distinct opened" "list_all (\<lambda>k. 0 < k \<and> k \<notin> fst ` set L) opened"
    and "on_request_bytes now c opened txns parent parent_closed t w = (xs, t', w')"
  shows "\<exists>L' E'. map fst L' = map fst L @ opened \<and> stream_run t' L' E'"
proof -
  obtain t1 w1 where see: "see c t w = (t1, w1)" by fastforce
  then have "t1 = t\<lparr>ht_issuers := ht_issuers t1\<rparr>"
    by (auto simp: see_def split: prod.splits if_splits)
  then obtain i where t1: "t1 = t\<lparr>ht_issuers := i\<rparr>" by blast
  obtain es w2 where es: "latches opened parent (opened \<noteq> [] \<and> parent_closed) now t1 w1 = (es, w2)"
    by fastforce
  have keys: "map fst es = opened"
    using latches_keys [of opened parent "opened \<noteq> [] \<and> parent_closed" now t1 w1] es by simp
  have dist: "distinct (map fst (L @ es))"
    using stream_run_ok [OF assms(1)] assms(2,3) keys
    by (auto simp: h2_ok_def latch_ok_def list_all_iff simp flip: set_map)
  have "list_all (\<lambda>p. 0 < fst p) es" using assms(3) unfolding keys [symmetric]
    by (auto simp: list_all_iff)
  then have "\<exists>E1. stream_run (latch_streams es t1) (L @ es) E1"
    using stream_run.Latched [OF stream_run.Linked [OF assms(1)] dist] t1 by blast
  then obtain E' where "stream_run (snd (ship_all now txns (latch_streams es t1))) (L @ es) E'"
    using ship_all_run by blast
  moreover have "t' = snd (ship_all now txns (latch_streams es t1))"
    using assms(4) see es by (auto simp: on_request_bytes_def split: prod.splits)
  ultimately show ?thesis using keys by (metis map_append)
qed

section \<open>The issuer tables\<close>

definition empty_wire :: wire where
  "empty_wire = \<lparr>wr_issuers = (\<lambda>c. new_issuers), wr_alive = (\<lambda>c. True),
    wr_tracker_alive = (\<lambda>c. True), wr_index = []\<rparr>"

inductive wire_run ::
  "wire \<Rightarrow> (nat \<times> int \<times> issued) list \<Rightarrow> (nat \<times> chunk) list \<Rightarrow> bool" where
  Fresh: "wire_run empty_wire [] []"
| Headers: "wire_run w R H \<Longrightarrow> wire_run (send_headers c client_side sid i raises w) ((c, sid, i) # R) H"
| Bytes: "wire_run w R H \<Longrightarrow> wire_run (data_to_send c client_side out w) R ((c, out) # H)"
| Seen: "wire_run w R H \<Longrightarrow> wire_run (snd (claim_chunk chunk tr cap w)) R H"
| Taken: "wire_run w R H \<Longrightarrow> wire_run (on_issuers c (\<lambda>s. snd (take_issuer sid s)) w) R H"
| Cleared: "wire_run w R H \<Longrightarrow> wire_run (on_issuers c clear_issuers w) R H"
| Died: "wire_run w R H \<Longrightarrow> wire_run (w\<lparr>wr_alive := alive, wr_tracker_alive := trackers\<rparr>) R H"
| Forked: "wire_run w R H \<Longrightarrow> wire_run (issuers_at_fork w) R H"

definition wire_ok :: "wire \<Rightarrow> (nat \<times> int \<times> issued) list \<Rightarrow> (nat \<times> chunk) list \<Rightarrow> bool" where
  "wire_ok w R H \<longleftrightarrow>
     (\<forall>c sid i. (sid, i) \<in> set (si_by_stream (wr_issuers w c)) \<longrightarrow> (c, sid, i) \<in> set R) \<and>
     (\<forall>c. distinct (map fst (si_by_stream (wr_issuers w c)))) \<and>
     (\<forall>c chunk. si_offered (wr_issuers w c) = Some chunk \<longrightarrow> (c, chunk) \<in> set H)"

lemma wire_ok_change:
  assumes "wire_ok w R H" "set R \<subseteq> set R'" "set H \<subseteq> set H'"
    and "\<And>sid i. (sid, i) \<in> set (si_by_stream s) \<Longrightarrow> (c, sid, i) \<in> set R'"
    and "distinct (map fst (si_by_stream s))"
    and "\<And>chunk. si_offered s = Some chunk \<Longrightarrow> (c, chunk) \<in> set H'"
    and "wr_issuers w' = (wr_issuers w)(c := s)"
  shows "wire_ok w' R' H'"
  using assms by (auto simp: wire_ok_def)

lemma wire_ok_same: "wire_ok w R H \<Longrightarrow> wr_issuers w' = wr_issuers w \<Longrightarrow> set R \<subseteq> set R' \<Longrightarrow>
    set H \<subseteq> set H' \<Longrightarrow> wire_ok w' R' H'"
  by (auto simp: wire_ok_def)

lemma record_issuer_table:
  assumes "distinct (map fst (si_by_stream s))" "record_issuer sid i s = (b, s')"
  shows "set (si_by_stream s') \<subseteq> insert (sid, i) (set (si_by_stream s))"
    and "distinct (map fst (si_by_stream s'))" and "si_offered s' = si_offered s"
proof -
  have "set (si_by_stream s') \<subseteq> insert (sid, i) (set (si_by_stream s)) \<and>
    distinct (map fst (si_by_stream s')) \<and> si_offered s' = si_offered s"
  proof (cases "sid \<in> fst ` set (si_by_stream s)")
    case True
    with assms show ?thesis by (auto simp: record_issuer_def)
  next
    case False
    let ?d = "AList.update sid i (si_by_stream s)"
    have d: "?d = si_by_stream s @ [(sid, i)]" using False by (rule update_new)
    obtain gone rest where dl: "drop_lowest (si_cap s) ?d = (gone, rest)" by fastforce
    have "distinct (map fst ?d)" using assms(1) False by (simp add: d)
    from drop_lowest_spec [OF this dl] have "set ?d = set gone \<union> set rest" "distinct (map fst rest)"
      by simp_all
    then show ?thesis using assms(2) False dl d by (auto simp: record_issuer_def)
  qed
  then show "set (si_by_stream s') \<subseteq> insert (sid, i) (set (si_by_stream s))"
    "distinct (map fst (si_by_stream s'))" "si_offered s' = si_offered s" by blast+
qed

lemma distinct_delete_keys: "distinct (map fst d) \<Longrightarrow> distinct (map fst (AList.delete k d))"
  by (rule distinct_delete)

lemma wire_run_ok: "wire_run w R H \<Longrightarrow> wire_ok w R H"
proof (induction rule: wire_run.induct)
  case Fresh
  then show ?case by (simp add: wire_ok_def empty_wire_def new_issuers_def)
next
  case (Headers w R H c client_side sid i raises)
  obtain b s where rec: "record_issuer sid i (wr_issuers w c) = (b, s)" by fastforce
  have dist: "distinct (map fst (si_by_stream (wr_issuers w c)))"
    using Headers.IH by (simp add: wire_ok_def)
  note tab = record_issuer_table [OF dist rec]
  have known: "(c, sid', i') \<in> set ((c, sid, i) # R)" if "(sid', i') \<in> set (si_by_stream s)" for sid' i'
    using that tab(1) Headers.IH by (auto simp: wire_ok_def)
  have offered: "(c, chunk) \<in> set H" if "si_offered s = Some chunk" for chunk
    using that tab(3) Headers.IH by (simp add: wire_ok_def)
  have plain: "wire_ok (on_issuers c (\<lambda>_. s) w) ((c, sid, i) # R) H"
    using known offered tab(2)
    by (intro wire_ok_change [OF Headers.IH]) (auto simp: on_issuers_def)
  have forgot: "wire_ok (on_issuers c (forget_issuer sid) (on_issuers c (\<lambda>_. s) w)) ((c, sid, i) # R) H"
    using known offered tab(2)
    by (intro wire_ok_change [OF plain, where c = c and s = "forget_issuer sid s"])
       (auto simp: on_issuers_def forget_issuer_def distinct_delete_keys AList.delete_eq distinct_map_filter)
  show ?case
    using plain forgot wire_ok_same [OF Headers.IH, of w "(c, sid, i) # R" H] rec
    by (auto simp: send_headers_def Let_def)
next
  case (Bytes w R H c client_side out)
  have "wire_ok (offer c out w) R ((c, out) # H)"
    using Bytes.IH
    by (intro wire_ok_change [OF Bytes.IH, where c = c and s = "(wr_issuers w c)\<lparr>si_offered := Some out\<rparr>"])
       (auto simp: offer_def on_issuers_def Let_def wire_ok_def)
  with wire_ok_same [OF Bytes.IH, of w R "(c, out) # H"] show ?case
    by (auto simp: data_to_send_def)
next
  case (Seen w R H chunk tr cap)
  let ?w1 = "w\<lparr>wr_index := AList.delete (ck_address chunk) (wr_index w)\<rparr>"
  have same: "wire_ok ?w1 R H" using wire_ok_same [OF Seen.IH, of ?w1 R H] by simp
  have "wire_ok (on_issuers c (\<lambda>s. s\<lparr>si_offered := None, si_link := Some tr, si_cap := cap\<rparr>) ?w1) R H" for c
    using Seen.IH
    by (intro wire_ok_change [OF same, where c = c
          and s = "(wr_issuers w c)\<lparr>si_offered := None, si_link := Some tr, si_cap := cap\<rparr>"])
       (auto simp: on_issuers_def wire_ok_def)
  with same show ?case by (auto simp: claim_chunk_def Let_def split: option.splits)
next
  case (Taken w R H c sid)
  show ?case
    using Taken.IH
    by (intro wire_ok_change [OF Taken.IH, where c = c and s = "snd (take_issuer sid (wr_issuers w c))"])
       (auto simp: on_issuers_def take_issuer_def wire_ok_def AList.delete_eq distinct_map_filter)
next
  case (Cleared w R H c)
  show ?case
    using Cleared.IH
    by (intro wire_ok_change [OF Cleared.IH, where c = c and s = "clear_issuers (wr_issuers w c)"])
       (auto simp: on_issuers_def clear_issuers_def wire_ok_def)
next
  case (Died w R H alive trackers)
  show ?case by (rule wire_ok_same [OF Died.IH]) simp_all
next
  case (Forked w R H)
  then show ?case by (simp add: wire_ok_def issuers_at_fork_def new_issuers_def)
qed

end
