(* ===== verification/Streams_Claims.thy ===== *)
theory Streams_Claims
  imports Streams_Laws
begin

text \<open>
  The properties of HTTP/2 correlation: what a bound of the latch may cost a span, that it never
  changes what is captured, and that no identity is ever guessed.
\<close>

section \<open>Concrete trackers\<close>

definition demo_entry :: "bool \<Rightarrow> latch_entry" where
  "demo_entry remote = \<lparr>en_parent = Some \<lparr>sc_trace_id = [7], sc_span_id = [8], sc_trace_flags = 1,
       sc_is_remote = remote\<rparr>, en_parent_closed = False, en_conversation = Some 3,
     en_scope = UNKNOWN_ISSUER, en_proven = True, en_start = 100\<rparr>"

definition demo_tracker :: h2_tracker where
  "demo_tracker = latch_streams [(1, demo_entry False), (3, demo_entry True)] (new_h2_tracker 0 1)"

definition demo_answer :: "int \<Rightarrow> native_txn" where
  "demo_answer sid = \<lparr>nt_stream_id = sid, nt_method = str_lit ''POST'', nt_path = str_lit ''/v1/messages?key=1'',
     nt_status = 200, nt_request_body = [], nt_response_body = [], nt_truncated = False,
     nt_request_ended = True, nt_request_truncated = False, nt_response_truncated = False,
     nt_request_evicted = False, nt_content_type = None, nt_content_encoding = None,
     nt_grpc_status = None, nt_grpc_message = None\<rparr>"

lemma demo_dropped:
  "drop_lowest (Suc 0) [(1, demo_entry False), (3, demo_entry True)] =
     ([(1, demo_entry False)], [(3, demo_entry True)])"
  by (subst drop_lowest.simps) (simp add: drop_lowest.simps AList.delete_eq Let_def)

lemma demo_tracker_run:
  "stream_run demo_tracker [(1, demo_entry False), (3, demo_entry True)] [(1, demo_entry False)]"
  using stream_run.Latched [OF stream_run.Fresh [of 1 0],
      of "[(1, demo_entry False), (3, demo_entry True)]"]
  by (simp add: demo_tracker_def new_h2_tracker_def demo_dropped)



definition demo_chunk :: chunk where
  "demo_chunk = \<lparr>ck_address = 1, ck_identity = 2, ck_length = 24\<rparr>"

definition demo_issued :: issued where
  "demo_issued = \<lparr>is_parent = None, is_parent_closed = False, is_conversation = Some 3,
     is_scope = UNKNOWN_ISSUER\<rparr>"

definition demo_wire :: wire where
  "demo_wire = data_to_send 5 True demo_chunk (send_headers 5 True 1 demo_issued False empty_wire)"

definition demo_seen :: "h2_tracker \<times> wire" where
  "demo_seen = see demo_chunk (new_h2_tracker 0 1) demo_wire"

definition demo_latched :: "latch_entry \<times> wire" where
  "demo_latched = latch_of 1 None False 100 (fst demo_seen) (snd demo_seen)"

lemma demo_recorded: "drop_lowest 64 [(1, demo_issued)] = ([], [(1, demo_issued)])"
  by (simp add: drop_lowest.simps)

lemma demo_latched_conversation: "en_conversation (fst demo_latched) = Some 3"
  by (simp add: demo_latched_def demo_seen_def demo_wire_def data_to_send_def send_headers_def
      record_issuer_def empty_wire_def new_issuers_def UNLINKED_CAP_def demo_recorded on_issuers_def
      offer_def OFFER_MIN_def OFFER_MAX_def INDEX_CAP_def linked_def demo_chunk_def see_def
      claim_chunk_def new_h2_tracker_def latch_of_def take_issuer_def Let_def)
     (simp add: demo_issued_def)

section \<open>What an eviction costs\<close>

lemma mk_missing:
  assumes "mk now n t = (x, t')" "map_of (ht_latch t) (nt_stream_id n) = None"
  shows "tx_parent x = None" "tx_parent_closed x = False" "tx_conversation x = None"
    "tx_scope x = UNKNOWN_ISSUER" "tx_issuer_proven x = False"
    "tx_parent_evicted x \<longleftrightarrow> ht_first t \<le> nt_stream_id n \<and> nt_stream_id n \<le> ht_evicted_below t"
    "tx_parent_lost x \<longleftrightarrow> nt_stream_id n \<in> set (ht_evicted_admitting t)"
  using assms by (auto simp: mk_def Let_def)

lemma evicted_facts:
  assumes "stream_run t L E" "(nt_stream_id n, e) \<in> set E"
  shows "map_of (ht_latch t) (nt_stream_id n) = None"
    and "ht_first t \<le> nt_stream_id n" "nt_stream_id n \<le> ht_evicted_below t"
    and "nt_stream_id n \<in> set (ht_evicted_admitting t) \<Longrightarrow> admits_entry e"
    and "FORGOTTEN \<in> set (ht_counters t) \<or> \<not> admits_entry e \<or> nt_stream_id n \<in> set (ht_evicted_admitting t)"
proof -
  have parts: "latch_ok t L E" "window_ok t L E" "admitting_ok t E"
    using stream_run_ok [OF assms(1)] by (simp_all add: h2_ok_def)
  have key: "nt_stream_id n \<in> fst ` set E" using assms(2) by force
  then have "nt_stream_id n \<notin> fst ` set (ht_latch t)" using parts(1) by (auto simp: latch_ok_def)
  then show "map_of (ht_latch t) (nt_stream_id n) = None" by (simp add: map_of_eq_None_iff)
  have mem: "(nt_stream_id n, e) \<in> set L" using assms(2) parts(1) by (auto simp: latch_ok_def)
  then have "L \<noteq> []" by auto
  with parts(2) mem show "ht_first t \<le> nt_stream_id n" by (force simp: window_ok_def)
  show "nt_stream_id n \<le> ht_evicted_below t" using parts(2) key unfolding window_ok_def by blast
  have one: "e' = e" if "(nt_stream_id n, e') \<in> set E" for e'
    using that assms(2) parts(1) by (auto simp: latch_ok_def dest: eq_key_imp_eq_value)
  show "admits_entry e" if "nt_stream_id n \<in> set (ht_evicted_admitting t)"
    using that parts(3) one by (force simp: admitting_ok_def lost_keys_def)
  have "admits_entry e \<Longrightarrow> nt_stream_id n \<in> lost_keys E"
    using assms(2) by (force simp: lost_keys_def)
  with parts(3) show "FORGOTTEN \<in> set (ht_counters t) \<or> \<not> admits_entry e \<or>
      nt_stream_id n \<in> set (ht_evicted_admitting t)"
    by (auto simp: admitting_ok_def)
qed

text \<open>C26: an answer whose latch entry the bound dropped never ships as an honest trace root. Its
  transaction says so and claims nobody's conversation or identity; the edge it becomes has no
  parent, no confidence and both markers. A loss the gate may act on is only ever claimed where the
  entry would have opened the gate. Both tables stay within the bound.\<close>

theorem evicted_stream_is_reported:
  assumes "stream_run t L E" "(nt_stream_id n, e) \<in> set E" "mk now n t = (x, t')"
  shows "tx_parent_evicted x \<and>
    tx_conversation x = None \<and>
    tx_scope x = UNKNOWN_ISSUER \<and>
    pa_parent_span_id (observed_edge fresh x degraded) = None \<and>
    ci_confidence (pa_correlation (observed_edge fresh x degraded)) = PFin 0 \<and>
    pa_limitations (observed_edge fresh x degraded) = [PARENT_UNRESOLVED, INSTRUMENTATION_DEGRADED] \<and>
    tx_parent_lost x \<le> admits_entry e \<and>
    length (ht_latch t) \<le> ht_cap t \<and>
    length (ht_evicted_admitting t) \<le> ht_cap t"
proof (intro conjI)
  note f = evicted_facts [OF assms(1,2)]
  note m = mk_missing [OF assms(3) f(1)]
  show ev: "tx_parent_evicted x" using f(2,3) by (simp add: m(6))
  show "tx_conversation x = None" "tx_scope x = UNKNOWN_ISSUER" by (fact m(3), fact m(4))
  show "pa_parent_span_id (observed_edge fresh x degraded) = None"
    "ci_confidence (pa_correlation (observed_edge fresh x degraded)) = PFin 0"
    "pa_limitations (observed_edge fresh x degraded) = [PARENT_UNRESOLVED, INSTRUMENTATION_DEGRADED]"
    using ev m(2)
    by (simp_all add: observed_edge_def resolve_observed_def resolve_parentage_def EMPTY_AMBIENT_def
        ORPHANED_BY_WARDEX_def evidence_of_def confidence_for_def markers_for_def with_limitation_def Let_def)
  show "tx_parent_lost x \<le> admits_entry e" using f(4) by (simp add: m(7))
  show "length (ht_latch t) \<le> ht_cap t" "length (ht_evicted_admitting t) \<le> ht_cap t"
    using stream_run_ok [OF assms(1)] by (simp_all add: h2_ok_def latch_ok_def admitting_ok_def)
qed

theorem evicted_stream_is_reported_witness:
  "tx_parent_evicted (fst (mk 500 (demo_answer 1) demo_tracker))"
  by (rule evicted_stream_is_reported [THEN conjunct1, OF demo_tracker_run, of _ "demo_entry False" 500 _
        "snd (mk 500 (demo_answer 1) demo_tracker)"])
     (simp_all add: demo_answer_def)



section \<open>Whose stream it is\<close>

text \<open>Nobody's conversation or identity is ever guessed. When a request chunk opens a stream,
  its latch entry names a conversation, a scope identity or a proven issuer only if the issuer
  was recorded for that stream on the very state machine the tracker is linked to; and a tracker links
  to a state machine only on a chunk that state machine handed out, the same object it was
  handed.\<close>

theorem issuer_is_never_guessed:
  assumes "wire_run w R H" "see chunk t w = (t1, w1)" "latch_of sid parent parent_closed now t1 w1 = (e, w2)"
    and "en_conversation e \<noteq> None \<or> en_scope e \<noteq> UNKNOWN_ISSUER \<or> en_proven e"
  shows "\<exists>c i. ht_issuers t1 = Some c \<and> (c, sid, i) \<in> set R \<and>
    en_conversation e = is_conversation i \<and> en_scope e = is_scope i \<and> en_parent e = is_parent i \<and>
    (ht_issuers t = Some c \<or>
     (\<exists>offered. (c, offered) \<in> set H \<and> ck_identity offered = ck_identity chunk))"
proof -
  have ok: "wire_ok w R H" by (rule wire_run_ok [OF assms(1)])
  have "wire_run w1 R H"
  proof (cases "ht_issuers t")
    case None
    then have "w1 = snd (claim_chunk chunk (ht_me t) (ht_cap t) w)"
      using assms(2) by (auto simp: see_def split: prod.splits)
    then show ?thesis using wire_run.Seen [OF assms(1)] by simp
  next
    case (Some c)
    then show ?thesis using assms(1,2) by (simp add: see_def)
  qed
  then have ok1: "wire_ok w1 R H" by (rule wire_run_ok)
  obtain c i where c: "ht_issuers t1 = Some c" "map_of (si_by_stream (wr_issuers w1 c)) sid = Some i"
      "en_conversation e = is_conversation i" "en_scope e = is_scope i" "en_parent e = is_parent i"
    using assms(3,4) by (auto simp: latch_of_def take_issuer_def Let_def split: option.splits)
  have rec: "(c, sid, i) \<in> set R" using ok1 map_of_SomeD [OF c(2)] by (simp add: wire_ok_def)
  have "ht_issuers t = Some c \<or> (\<exists>offered. (c, offered) \<in> set H \<and> ck_identity offered = ck_identity chunk)"
  proof (cases "ht_issuers t")
    case None
    then have "fst (claim_chunk chunk (ht_me t) (ht_cap t) w) = Some c"
      using assms(2) c(1) by (auto simp: see_def split: prod.splits)
    then obtain offered where "si_offered (wr_issuers w c) = Some offered"
        "ck_identity offered = ck_identity chunk"
      by (auto simp: claim_chunk_def Let_def split: option.splits if_splits)
    with ok show ?thesis by (auto simp: wire_ok_def)
  next
    case (Some c')
    with assms(2) c(1) show ?thesis by (simp add: see_def)
  qed
  with c rec show ?thesis by blast
qed

theorem issuer_is_never_guessed_witness:
  "\<exists>c i. ht_issuers (fst demo_seen) = Some c \<and> (c, 1, i) \<in> set [(5, 1, demo_issued)] \<and>
    Some 3 = is_conversation i"
proof -
  have run: "wire_run demo_wire [(5, 1, demo_issued)] [(5, demo_chunk)]"
    unfolding demo_wire_def by (intro wire_run.Bytes wire_run.Headers wire_run.Fresh)
  have see: "see demo_chunk (new_h2_tracker 0 1) demo_wire = (fst demo_seen, snd demo_seen)"
    by (simp add: demo_seen_def)
  have entry: "latch_of 1 None False 100 (fst demo_seen) (snd demo_seen) = (fst demo_latched, snd demo_latched)"
    by (simp add: demo_latched_def)
  show ?thesis
    using issuer_is_never_guessed [OF run see entry] by (auto simp: demo_latched_conversation)
qed

section \<open>What the window over-claims\<close>

text \<open>A stream that was never latched (its request half had not ended when it was answered) but
  whose id lies inside the window of evicted ids reads as evicted.\<close>

lemma unlatched_in_window_reads_as_evicted:
  assumes "stream_run t L E" "nt_stream_id n \<notin> fst ` set L" "mk now n t = (x, t')"
    and "ht_first t \<le> nt_stream_id n" "nt_stream_id n \<le> ht_evicted_below t"
  shows "tx_parent_evicted x" "\<not> tx_parent_lost x"
proof -
  have parts: "latch_ok t L E" "admitting_ok t E"
    using stream_run_ok [OF assms(1)] by (simp_all add: h2_ok_def)
  have "nt_stream_id n \<notin> fst ` set (ht_latch t)" "nt_stream_id n \<notin> fst ` set E"
    using assms(2) parts(1) by (auto simp: latch_ok_def)
  then have "map_of (ht_latch t) (nt_stream_id n) = None" "nt_stream_id n \<notin> set (ht_evicted_admitting t)"
    using parts(2) lost_keys_subset [of E] by (auto simp: map_of_eq_None_iff admitting_ok_def)
  with mk_missing(6,7) [OF assms(3)] assms(4,5) show "tx_parent_evicted x" "\<not> tx_parent_lost x"
    by simp_all
qed

end
