(* ===== verification/Requests.thy ===== *)
theory Requests
  imports Streams
begin

text \<open>
  Which request an HTTP/1 reply answers, \<open>_interceptors/_http1_requests.py\<close>, when the seam did
  not see every request byte in order, and the messages the parsers hand over
  (\<open>_protocol/_http1.py\<close>).

  The native parser is an argument: \<open>request_parser\<close> holds its operations over states of
  any type \<open>'p\<close>. \<open>spot\<close> is what \<open>_issued_here\<close> reads while a chunk is being fed; the clock
  stands still within one call.
\<close>

section \<open>Messages\<close>

record message =
  ms_verb :: "py_text option"
  ms_url :: "py_text option"
  ms_status :: "int option"
  ms_headers :: "(py_text \<times> py_text) list"
  ms_body :: bytes
  ms_header_len :: int
  ms_truncated :: bool
  ms_limitations :: "limitation list"
  ms_incomplete :: bool

definition byte_lit :: "string \<Rightarrow> bytes" where
  "byte_lit cs = map of_char cs"

definition REQUEST_METHODS :: "bytes list" where
  "REQUEST_METHODS = map byte_lit [''GET '', ''POST '', ''PUT '', ''DELETE '', ''HEAD '', ''PATCH '',
     ''OPTIONS '', ''CONNECT '', ''TRACE '']"

record 'p request_parser =
  rp_new :: 'p
  rp_feed :: "bytes \<Rightarrow> 'p \<Rightarrow> message list \<times> 'p"
  rp_idle :: "'p \<Rightarrow> bool"
  rp_in_flight :: "'p \<Rightarrow> py_text option"
  rp_disabled :: "'p \<Rightarrow> string option"

section \<open>Where a request was issued\<close>

record issue =
  iu_start_ns :: int
  iu_parent :: "span_context option"
  iu_parent_closed :: bool
  iu_conversation :: "conversation option"
  iu_scope :: scope_snapshot

definition NOT_SEEN :: issue where
  "NOT_SEEN = \<lparr>iu_start_ns = 0, iu_parent = None, iu_parent_closed = False, iu_conversation = None,
     iu_scope = UNKNOWN_ISSUER\<rparr>"

definition issued_here ::
  "int \<Rightarrow> span_context option \<Rightarrow> (span_context option \<Rightarrow> bool) \<Rightarrow> conversation option \<Rightarrow> scope_snapshot \<Rightarrow> issue"
where
  "issued_here now active is_closed conv snap =
     \<lparr>iu_start_ns = now, iu_parent = active, iu_parent_closed = is_closed active,
      iu_conversation = conv, iu_scope = snap\<rparr>"

definition opens_like_a_request :: "bytes \<Rightarrow> bool" where
  "opens_like_a_request data \<longleftrightarrow>
     list_ex (\<lambda>m. prefix m data) REQUEST_METHODS \<or> list_ex (\<lambda>m. prefix data m) REQUEST_METHODS"

text \<open>A method is compared as the bytes its text encodes to; a text with a character beyond ASCII
  encodes to no method, and a character of ASCII to itself.\<close>

definition sent_by_a_client :: "py_text option \<Rightarrow> bool" where
  "sent_by_a_client verb =
     (case verb of None \<Rightarrow> False
      | Some v \<Rightarrow> list_all (\<lambda>c. c < 128) v \<and> map of_nat (v @ [32]) \<in> set REQUEST_METHODS)"

section \<open>One reading\<close>

record 'p reading =
  rd_parser :: 'p
  rd_issue :: "issue option"
  rd_request :: "message option"
  rd_orphan :: bool

definition new_reading :: "'p request_parser \<Rightarrow> 'p reading" where
  "new_reading rp = \<lparr>rd_parser = rp_new rp, rd_issue = None, rd_request = None, rd_orphan = False\<rparr>"

fun absorb :: "message list \<Rightarrow> 'p reading \<Rightarrow> 'p reading" where
  "absorb [] r = r"
| "absorb (m # ms) r =
     absorb ms (if rd_orphan r then r\<lparr>rd_orphan := False\<rparr> else r\<lparr>rd_request := Some m\<rparr>)"

definition feed_reading :: "'p request_parser \<Rightarrow> issue \<Rightarrow> bytes \<Rightarrow> 'p reading \<Rightarrow> 'p reading" where
  "feed_reading rp spot data r =
     (let r = (if rd_issue r = None \<and> \<not> rd_orphan r then r\<lparr>rd_issue := Some spot\<rparr> else r)
      in case rp_feed rp data (rd_parser r) of
           (ms, p) \<Rightarrow>
             let r = absorb ms (r\<lparr>rd_parser := p\<rparr>);
                 r = (if rd_orphan r \<and> rp_disabled rp p \<noteq> None then r\<lparr>rd_orphan := False\<rparr> else r)
             in if rd_issue r = None \<and> \<not> rd_orphan r \<and> (rd_request r \<noteq> None \<or> \<not> rp_idle rp p)
                then r\<lparr>rd_issue := Some spot\<rparr> else r)"

definition claim_reading :: "'p request_parser \<Rightarrow> 'p reading \<Rightarrow> nat" where
  "claim_reading rp r =
     (if rd_orphan r then 0
      else (case rp_in_flight rp (rd_parser r) of
              Some verb \<Rightarrow> if sent_by_a_client (Some verb) then 2 else 1
            | None \<Rightarrow>
                (case rd_request r of
                   None \<Rightarrow> 0
                 | Some m \<Rightarrow> if \<not> rp_idle rp (rd_parser r) then 0
                     else if sent_by_a_client (ms_verb m) then 3 else 1)))"

definition methods_of :: "'p request_parser \<Rightarrow> 'p reading \<Rightarrow> py_text option \<times> py_text option" where
  "methods_of rp r =
     (case rd_request r of None \<Rightarrow> None | Some m \<Rightarrow> ms_verb m, rp_in_flight rp (rd_parser r))"

section \<open>The request side of a connection\<close>

record 'p request_side =
  rs_reading :: "'p reading"
  rs_fresh :: "'p reading option"
  rs_just_orphaned :: bool
  rs_tied :: bool
  rs_counters :: counters

definition new_side :: "'p request_parser \<Rightarrow> 'p request_side" where
  "new_side rp = \<lparr>rs_reading = new_reading rp, rs_fresh = None, rs_just_orphaned = False,
     rs_tied = False, rs_counters = []\<rparr>"

definition waiting :: "'p request_side \<Rightarrow> message option" where
  "waiting s = rd_request (rs_reading s)"

definition framing_method :: "'p request_side \<Rightarrow> py_text" where
  "framing_method s =
     (case waiting s of
        None \<Rightarrow> []
      | Some m \<Rightarrow> if rs_tied s then [] else (case ms_verb m of None \<Rightarrow> [] | Some v \<Rightarrow> v))"

definition side_issue :: "'p request_side \<Rightarrow> issue" where
  "side_issue s = (case rd_issue (rs_reading s) of None \<Rightarrow> NOT_SEEN | Some i \<Rightarrow> i)"

definition feed_side ::
  "'p request_parser \<Rightarrow> issue \<Rightarrow> bytes \<Rightarrow> 'p request_side \<Rightarrow> 'p request_side" where
  "feed_side rp spot data s =
     (let s = (if rs_just_orphaned s
               then s\<lparr>rs_just_orphaned := False,
                      rs_fresh := (if opens_like_a_request data then Some (new_reading rp) else rs_fresh s)\<rparr>
               else s)
      in case rs_fresh s of
           None \<Rightarrow> s\<lparr>rs_reading := feed_reading rp spot data (rs_reading s)\<rparr>
         | Some f \<Rightarrow>
             let f = feed_reading rp spot data f;
                 r = feed_reading rp spot data (rs_reading s)
             in if rp_disabled rp (rd_parser f) \<noteq> None then s\<lparr>rs_reading := r, rs_fresh := None\<rparr>
                else if rp_disabled rp (rd_parser r) \<noteq> None then s\<lparr>rs_reading := f, rs_fresh := None\<rparr>
                else s\<lparr>rs_reading := r, rs_fresh := Some f\<rparr>)"

definition decide_side :: "'p request_parser \<Rightarrow> 'p request_side \<Rightarrow> bool \<times> 'p request_side" where
  "decide_side rp s =
     (case rs_fresh s of
        None \<Rightarrow> (False, s)
      | Some f \<Rightarrow>
          let mine = claim_reading rp (rs_reading s); theirs = claim_reading rp f;
              guess = (mine = theirs \<and> 0 < theirs \<and> methods_of rp (rs_reading s) \<noteq> methods_of rp f);
              s = s\<lparr>rs_fresh := None, rs_tied := rs_tied s \<or> guess\<rparr>
          in if theirs \<le> mine then (False, s) else (True, s\<lparr>rs_reading := f\<rparr>))"

definition take_request ::
  "'p request_parser \<Rightarrow> 'p request_side \<Rightarrow> (message option \<times> issue) option \<times> 'p request_side" where
  "take_request rp s =
     (let s = snd (decide_side rp s);
          request = waiting s;
          iss = rd_issue (rs_reading s);
          r = (rs_reading s)\<lparr>rd_request := None, rd_issue := None\<rparr>;
          s = s\<lparr>rs_reading := r, rs_tied := False\<rparr>;
          pair = Some (request, case iss of None \<Rightarrow> NOT_SEEN | Some i \<Rightarrow> i)
      in if request = None \<and> rp_disabled rp (rd_parser r) = None
         then if iss = None
              then (None, s\<lparr>rs_counters := rs_counters s @ [''protocol.http1.request_unobserved'']\<rparr>)
              else (pair, s\<lparr>rs_reading := r\<lparr>rd_orphan := True\<rparr>, rs_just_orphaned := True,
                      rs_counters := rs_counters s @ [''protocol.http1.request_unfinished'']\<rparr>)
         else (pair, s))"

definition release_side :: "'p request_side \<Rightarrow> 'p request_side" where
  "release_side s = s\<lparr>rs_reading := (rs_reading s)\<lparr>rd_request := None, rd_orphan := False\<rparr>,
     rs_just_orphaned := False, rs_tied := False, rs_fresh := None\<rparr>"

end
