(* ===== verification/Trackers.thy ===== *)
theory Trackers
  imports Requests
begin

text \<open>
  The HTTP/1 and the WebSocket tracker, \<open>_Http1Tracker\<close> and \<open>_WebSocketTracker\<close> of
  \<open>_interceptors/_trackers.py\<close>. The native response and frame parsers are arguments, as the
  request parser is in \<open>Requests\<close>. An exchange is a \<open>_Txn\<close> with the fields HTTP/1 fills; a
  session is one with those of a WebSocket connection. \<open>quot\<close> is the double Python gives for
  \<open>ns / 1e6\<close>.
\<close>

section \<open>Headers and times\<close>

text \<open>\<open>str.lower\<close>, as far as a comparison with an ASCII word can tell: the Kelvin sign is the one
  character beyond ASCII that lowers to an ASCII letter alone.\<close>

definition word_lower :: "py_text \<Rightarrow> py_text" where
  "word_lower t = map (\<lambda>c. if 65 \<le> c \<and> c \<le> 90 then c + 32 else if c = 8490 then 107 else c) t"

definition occurs :: "string \<Rightarrow> py_text \<Rightarrow> bool" where
  "occurs w t \<longleftrightarrow> split_at (str_lit w) t \<noteq> None"

definition header_get :: "(py_text \<times> py_text) list \<Rightarrow> string \<Rightarrow> py_text option" where
  "header_get hs name = map_option snd (find (\<lambda>h. word_lower (fst h) = str_lit name) hs)"

definition is_ws_upgrade_request :: "(py_text \<times> py_text) list \<Rightarrow> bool" where
  "is_ws_upgrade_request hs =
     (case (header_get hs ''upgrade'', header_get hs ''connection'') of
        (Some up, Some conn) \<Rightarrow> occurs ''websocket'' (word_lower up) \<and> occurs ''upgrade'' (word_lower conn)
      | _ \<Rightarrow> False)"

definition elapsed_ms :: "(int \<Rightarrow> rat) \<Rightarrow> int \<Rightarrow> int \<Rightarrow> rat" where
  "elapsed_ms quot now start = (if 0 < quot (now - start) then quot (now - start) else 0)"

fun ttft_from_marks :: "(int \<Rightarrow> rat) \<Rightarrow> (int \<times> int) list \<Rightarrow> int \<Rightarrow> int \<Rightarrow> rat option" where
  "ttft_from_marks quot [] header_len start = None"
| "ttft_from_marks quot ((cum, ns) # marks) header_len start =
     (if header_len < cum then (if start = 0 then None else Some (elapsed_ms quot ns start))
      else ttft_from_marks quot marks header_len start)"

definition or_else :: "py_text option \<Rightarrow> string \<Rightarrow> py_text" where
  "or_else t fallback = (case t of None \<Rightarrow> str_lit fallback
                         | Some x \<Rightarrow> if x = [] then str_lit fallback else x)"

section \<open>HTTP/1\<close>

record exchange = txn +
  ex_ttfb_ms :: "rat option"
  ex_ttft_ms :: "rat option"
  ex_response_cut :: bool
  ex_ws_upgrade :: bool
  ex_ws_upgrade_path :: "py_text option"
  ex_ws_deflate :: bool
  ex_ws_leftover :: bytes

record 'q response_parser =
  qp_new :: 'q
  qp_feed :: "bytes \<Rightarrow> 'q \<Rightarrow> message list \<times> 'q"
  qp_idle :: "'q \<Rightarrow> bool"
  qp_expect :: "py_text \<Rightarrow> 'q \<Rightarrow> 'q"
  qp_finish :: "bool \<Rightarrow> 'q \<Rightarrow> message option \<times> 'q"
  qp_disabled :: "'q \<Rightarrow> string option"

record ('p, 'q) h1_tracker =
  h1_requests :: "'p request_side"
  h1_resp :: 'q
  h1_first_ns :: int
  h1_cum :: int
  h1_marks :: "(int \<times> int) list"
  h1_expect_ws :: bool
  h1_raw :: bytes

definition new_h1_tracker :: "'p request_parser \<Rightarrow> 'q response_parser \<Rightarrow> ('p, 'q) h1_tracker" where
  "new_h1_tracker rp qp = \<lparr>h1_requests = new_side rp, h1_resp = qp_new qp, h1_first_ns = 0, h1_cum = 0,
     h1_marks = [], h1_expect_ws = False, h1_raw = []\<rparr>"

definition upgrade_requested :: "'p request_side \<Rightarrow> bool" where
  "upgrade_requested s =
     (case waiting s of None \<Rightarrow> False | Some m \<Rightarrow> is_ws_upgrade_request (ms_headers m))"

definition h1_request_bytes ::
  "'p request_parser \<Rightarrow> issue \<Rightarrow> bytes \<Rightarrow> ('p, 'q) h1_tracker \<Rightarrow> ('p, 'q) h1_tracker" where
  "h1_request_bytes rp spot data t =
     (let side = feed_side rp spot data (h1_requests t)
      in t\<lparr>h1_requests := side, h1_expect_ws := upgrade_requested side\<rparr>)"

definition h1_reset :: "('p, 'q) h1_tracker \<Rightarrow> ('p, 'q) h1_tracker" where
  "h1_reset t = t\<lparr>h1_first_ns := 0, h1_cum := 0, h1_marks := [], h1_expect_ws := False, h1_raw := []\<rparr>"

definition upgrade_exchange :: "int \<Rightarrow> message \<Rightarrow> ('p, 'q) h1_tracker \<Rightarrow> exchange" where
  "upgrade_exchange now m t =
     (let request = waiting (h1_requests t); iss = side_issue (h1_requests t);
          path = or_else (Option.bind request ms_url) ''/''
      in \<lparr>tx_method = or_else (Option.bind request ms_verb) ''GET'', tx_path = name_path path,
          tx_target = path, tx_status = 101, tx_request_body = [], tx_response_body = [],
          tx_parent = iu_parent iss, tx_parent_closed = iu_parent_closed iss,
          tx_parent_evicted = False, tx_parent_lost = False,
          tx_conversation = iu_conversation iss, tx_scope = iu_scope iss, tx_issuer_proven = True,
          tx_start_ns = (if iu_start_ns iss = 0 then now else iu_start_ns iss), tx_end_ns = now,
          tx_truncated = False, tx_request_counted = True, tx_response_counted = True,
          tx_stream_id = None, tx_limitations = [], tx_content_type = None, tx_event_stream = False,
          tx_content_encoding = None, tx_grpc_status = None, tx_grpc_message = None,
          ex_ttfb_ms = None, ex_ttft_ms = None, ex_response_cut = False, ex_ws_upgrade = True,
          ex_ws_upgrade_path = Some path,
          ex_ws_deflate = occurs ''permessage-deflate''
            (word_lower (case header_get (ms_headers m) ''sec-websocket-extensions'' of
                           None \<Rightarrow> [] | Some ext \<Rightarrow> ext)),
          ex_ws_leftover = drop (nat (ms_header_len m)) (h1_raw t)\<rparr>)"

definition response_exchange ::
  "'p request_parser \<Rightarrow> (int \<Rightarrow> rat) \<Rightarrow> int \<Rightarrow> message \<Rightarrow> ('p, 'q) h1_tracker \<Rightarrow>
   exchange option \<times> ('p, 'q) h1_tracker" where
  "response_exchange rp quot now m t =
     (case take_request rp (h1_requests t) of
        (None, side) \<Rightarrow> (None, t\<lparr>h1_requests := side\<rparr>)
      | (Some (request, iss), side) \<Rightarrow>
          (let path = or_else (Option.bind request ms_url) ''/'';
               start = iu_start_ns iss
           in (Some \<lparr>tx_method = or_else (Option.bind request ms_verb) ''?'', tx_path = name_path path,
                 tx_target = path, tx_status = (case ms_status m of None \<Rightarrow> 0 | Some c \<Rightarrow> c),
                 tx_request_body = (case request of None \<Rightarrow> [] | Some r \<Rightarrow> ms_body r),
                 tx_response_body = ms_body m, tx_parent = iu_parent iss,
                 tx_parent_closed = iu_parent_closed iss, tx_parent_evicted = False,
                 tx_parent_lost = False, tx_conversation = iu_conversation iss,
                 tx_scope = iu_scope iss, tx_issuer_proven = True,
                 tx_start_ns = (if start = 0 then now else start), tx_end_ns = now,
                 tx_truncated = (pred_option ms_truncated request \<and> request \<noteq> None \<or> ms_truncated m),
                 tx_request_counted = (case request of None \<Rightarrow> False | Some r \<Rightarrow> \<not> ms_truncated r),
                 tx_response_counted = (\<not> ms_truncated m), tx_stream_id = None,
                 tx_limitations = merge_markers [case request of None \<Rightarrow> [] | Some r \<Rightarrow> ms_limitations r,
                    ms_limitations m, if ms_incomplete m then [FRAME_PARSE_FAILED] else []],
                 tx_content_type = None,
                 tx_event_stream = declares_event_stream (header_get (ms_headers m) ''content-type''),
                 tx_content_encoding = header_get (ms_headers m) ''content-encoding'',
                 tx_grpc_status = None, tx_grpc_message = None,
                 ex_ttfb_ms = (if start \<noteq> 0 \<and> h1_first_ns t \<noteq> 0
                               then Some (elapsed_ms quot (h1_first_ns t) start) else None),
                 ex_ttft_ms = ttft_from_marks quot (h1_marks t) (ms_header_len m) start,
                 ex_response_cut = ms_incomplete m, ex_ws_upgrade = False,
                 ex_ws_upgrade_path = None, ex_ws_deflate = False, ex_ws_leftover = []\<rparr>,
               t\<lparr>h1_requests := side\<rparr>)))"

definition opt_list :: "'a option \<Rightarrow> 'a list" where
  "opt_list x = (case x of None \<Rightarrow> [] | Some y \<Rightarrow> [y])"

fun respond ::
  "'p request_parser \<Rightarrow> (int \<Rightarrow> rat) \<Rightarrow> int \<Rightarrow> int \<Rightarrow> message list \<Rightarrow> ('p, 'q) h1_tracker \<Rightarrow>
   exchange list \<times> ('p, 'q) h1_tracker" where
  "respond rp quot now done_at [] t = ([], t)"
| "respond rp quot now done_at (m # ms) t =
     (if h1_expect_ws t \<and> ms_status m = Some 101 \<and> is_ws_upgrade_request (ms_headers m)
      then (case respond rp quot now done_at ms (t\<lparr>h1_expect_ws := False, h1_raw := []\<rparr>) of
              (xs, t') \<Rightarrow> (upgrade_exchange now m t # xs, t'))
      else if pred_option (\<lambda>c. 100 \<le> c \<and> c < 200) (ms_status m) \<and> ms_status m \<noteq> None
      then respond rp quot now done_at ms
             (t\<lparr>h1_marks := map (\<lambda>(c, ns). (c - ms_header_len m, ns)) (h1_marks t),
                h1_cum := h1_cum t - ms_header_len m\<rparr>)
      else if framing_method (h1_requests t) = str_lit ''CONNECT'' \<and>
              (let c = (case ms_status m of None \<Rightarrow> 0 | Some c \<Rightarrow> c) in 200 \<le> c \<and> c < 300)
      then respond rp quot now done_at ms
             (h1_reset (t\<lparr>h1_requests := snd (take_request rp (h1_requests t))\<rparr>))
      else (case response_exchange rp quot done_at m t of
              (x, t) \<Rightarrow> (case respond rp quot now done_at ms (h1_reset t) of
                          (xs, t) \<Rightarrow> (opt_list x @ xs, t))))"

definition h1_response_bytes ::
  "'p request_parser \<Rightarrow> 'q response_parser \<Rightarrow> (int \<Rightarrow> rat) \<Rightarrow> int \<Rightarrow> int \<Rightarrow> bytes \<Rightarrow>
   ('p, 'q) h1_tracker \<Rightarrow> exchange list \<times> ('p, 'q) h1_tracker" where
  "h1_response_bytes rp qp quot now done_at data t =
     (case decide_side rp (h1_requests t) of
        (changed, side) \<Rightarrow>
          let ws = (if changed then upgrade_requested side else h1_expect_ws t);
              resp = (if qp_idle qp (h1_resp t) then qp_expect qp (framing_method side) (h1_resp t)
                      else h1_resp t);
              cum = h1_cum t + int (length data)
          in case qp_feed qp data resp of
               (ms, resp) \<Rightarrow>
                 respond rp quot now done_at ms
                   (t\<lparr>h1_requests := side, h1_resp := resp, h1_expect_ws := ws,
                      h1_first_ns := (if h1_first_ns t = 0 then now else h1_first_ns t),
                      h1_cum := cum, h1_marks := h1_marks t @ [(cum, now)],
                      h1_raw := (if ws then h1_raw t @ data else h1_raw t)\<rparr>))"

definition h1_response_eof ::
  "'p request_parser \<Rightarrow> 'q response_parser \<Rightarrow> (int \<Rightarrow> rat) \<Rightarrow> int \<Rightarrow>
   ('p, 'q) h1_tracker \<Rightarrow> exchange list \<times> ('p, 'q) h1_tracker" where
  "h1_response_eof rp qp quot now t =
     (case qp_finish qp True (h1_resp t) of
        (None, resp) \<Rightarrow> ([], t\<lparr>h1_resp := resp\<rparr>)
      | (Some m, resp) \<Rightarrow>
          (case response_exchange rp quot now m (t\<lparr>h1_resp := resp\<rparr>) of
             (x, t) \<Rightarrow> (opt_list x, h1_reset t)))"

definition h1_disabled_reason ::
  "'p request_parser \<Rightarrow> 'q response_parser \<Rightarrow> ('p, 'q) h1_tracker \<Rightarrow> string option" where
  "h1_disabled_reason rp qp t =
     (case qp_disabled qp (h1_resp t) of
        Some r \<Rightarrow> if r = '''' then rp_disabled rp (rd_parser (rs_reading (h1_requests t))) else Some r
      | None \<Rightarrow> rp_disabled rp (rd_parser (rs_reading (h1_requests t))))"

definition h1_connection_close ::
  "'p request_parser \<Rightarrow> 'q response_parser \<Rightarrow> (int \<Rightarrow> rat) \<Rightarrow> int \<Rightarrow> bool \<Rightarrow>
   ('p, 'q) h1_tracker \<Rightarrow> exchange list \<times> ('p, 'q) h1_tracker" where
  "h1_connection_close rp qp quot now still_open t =
     (let (xs, t) =
        (if still_open then ([], t)
         else (case qp_finish qp False (h1_resp t) of
                 (None, resp) \<Rightarrow> ([], t\<lparr>h1_resp := resp\<rparr>)
               | (Some m, resp) \<Rightarrow>
                   (case response_exchange rp quot now m (t\<lparr>h1_resp := resp\<rparr>) of
                      (x, t) \<Rightarrow> (opt_list x, t))))
      in (xs, t\<lparr>h1_requests := release_side (h1_requests t), h1_raw := [], h1_marks := []\<rparr>))"

end
