(* ===== verification/Requests_Laws.thy ===== *)
theory Requests_Laws
  imports Trackers "HOL-Library.Multiset"
begin

text \<open>
  What the HTTP/1 request side keeps. \<open>side_run\<close> is every sequence of chunks, decisions and replies, with
  what they were beside the state: the requests replies were paired with, the number of replies that
  were paired with a request not yet seen whole, and a log for each of the two readings, kept from the
  parser's messages and the pairs alone.
\<close>

section \<open>Feeding one reading\<close>

definition yielded :: "'p request_parser \<Rightarrow> bytes \<Rightarrow> 'p reading \<Rightarrow> message list" where
  "yielded rp data r = fst (rp_feed rp data (rd_parser r))"

definition late_rest :: "message list \<Rightarrow> 'p reading \<Rightarrow> message list" where
  "late_rest ms r = (if rd_orphan r then take 1 ms else [])"

definition held_request :: "'p reading \<Rightarrow> message multiset" where
  "held_request r = (case rd_request r of None \<Rightarrow> {#} | Some m \<Rightarrow> {#m#})"

lemma absorb_frame [simp]:
  "rd_parser (absorb ms r) = rd_parser r" "rd_issue (absorb ms r) = rd_issue r"
  by (induction ms r rule: absorb.induct) simp_all

lemma absorb_orphan: "rd_orphan (absorb ms r) \<longleftrightarrow> rd_orphan r \<and> ms = []"
  by (induction ms r rule: absorb.induct) auto

lemma absorb_no_orphan:
  "\<not> rd_orphan r \<Longrightarrow> rd_request (absorb ms r) = (if ms = [] then rd_request r else Some (last ms))"
  by (induction ms r rule: absorb.induct) auto

lemma absorb_request:
  "rd_request (absorb ms r) =
   (let rest = drop (if rd_orphan r then 1 else 0) ms in if rest = [] then rd_request r else Some (last rest))"
  by (cases ms) (simp_all add: absorb_no_orphan Let_def)

lemma absorb_held: "held_request (absorb ms r) + mset (late_rest ms r) \<subseteq># held_request r + mset ms"
proof (cases "rd_orphan r")
  case False
  have "{#last ms#} \<subseteq># mset ms" if "ms \<noteq> []" using that by (simp add: mset_subset_eq_single)
  then show ?thesis
    using False
    by (auto simp: held_request_def late_rest_def absorb_no_orphan
        intro: subset_mset.add_increasing subset_mset.order_trans)
next
  case True
  show ?thesis
  proof (cases ms)
    case Nil
    then show ?thesis using True by (simp add: late_rest_def)
  next
    case (Cons m ms')
    let ?r = "r\<lparr>rd_orphan := False\<rparr>"
    have "held_request (absorb ms' ?r) \<subseteq># held_request r + mset ms'"
    proof (cases "ms' = []")
      case False
      then have "{#last ms'#} \<subseteq># mset ms'" by (simp add: mset_subset_eq_single)
      then show ?thesis
        using False by (auto simp: held_request_def absorb_no_orphan intro: subset_mset.add_increasing)
    qed (simp add: held_request_def)
    then show ?thesis using True Cons by (simp add: late_rest_def)
  qed
qed

lemma feed_reading_frame:
  "rd_parser (feed_reading rp spot data r) = snd (rp_feed rp data (rd_parser r))"
  "rd_request (feed_reading rp spot data r) = rd_request (absorb (yielded rp data r) r)"
proof -
  show "rd_parser (feed_reading rp spot data r) = snd (rp_feed rp data (rd_parser r))"
    by (simp add: feed_reading_def Let_def case_prod_unfold)
  show "rd_request (feed_reading rp spot data r) = rd_request (absorb (yielded rp data r) r)"
    by (simp add: feed_reading_def Let_def case_prod_unfold yielded_def absorb_request)
qed

lemma feed_reading_held:
  "held_request (feed_reading rp spot data r) + mset (late_rest (yielded rp data r) r) \<subseteq>#
   held_request r + mset (yielded rp data r)"
  using absorb_held [of "yielded rp data r" r] by (simp add: held_request_def feed_reading_frame)

lemma feed_reading_orphan: "rd_orphan (feed_reading rp spot data r) \<Longrightarrow> rd_orphan r"
proof -
  have orp: "rd_orphan (absorb ms (x\<lparr>rd_parser := p\<rparr>)) \<Longrightarrow> rd_orphan x" for ms p and x :: "'a reading"
    by (simp add: absorb_orphan)
  show "rd_orphan (feed_reading rp spot data r) \<Longrightarrow> rd_orphan r"
    by (auto simp: feed_reading_def Let_def case_prod_unfold dest!: orp split: if_splits)
qed

section \<open>Every run of a request side\<close>

text \<open>Was the younger reading the one the side kept?\<close>

definition fresh_at :: "'p request_parser \<Rightarrow> bytes \<Rightarrow> 'p request_side \<Rightarrow> 'p reading option" where
  "fresh_at rp data s =
     (if rs_just_orphaned s \<and> opens_like_a_request data then Some (new_reading rp) else rs_fresh s)"

definition kept_fresh :: "'p request_parser \<Rightarrow> bytes \<Rightarrow> 'p request_side \<Rightarrow> bool" where
  "kept_fresh rp data s =
     (case fresh_at rp data s of
        None \<Rightarrow> False
      | Some f \<Rightarrow> rp_disabled rp (snd (rp_feed rp data (rd_parser f))) = None \<and>
          rp_disabled rp (snd (rp_feed rp data (rd_parser (rs_reading s)))) \<noteq> None)"

text \<open>A log is what one reading's parser told: the rests of requests a reply had answered before they were
  whole, all messages it completed, and whether it is inside such a request now. A reading that opens
  later starts from what the older one had completed, outside any request. Only the parser's messages
  and the pairs the replies were given decide it.\<close>

type_synonym reading_log = "message list \<times> message list \<times> bool"

definition log_feed :: "'p request_parser \<Rightarrow> bytes \<Rightarrow> 'p reading \<Rightarrow> reading_log \<Rightarrow> reading_log" where
  "log_feed rp data r g =
     (case g of (late, completed, inside) \<Rightarrow>
        let ms = yielded rp data r
        in (late @ (if inside then take 1 ms else []), completed @ ms,
            inside \<and> ms = [] \<and> rp_disabled rp (snd (rp_feed rp data (rd_parser r))) = None))"

definition young_log :: "reading_log \<Rightarrow> reading_log" where
  "young_log g = (fst g, fst (snd g), False)"

text \<open>Was the reply paired with a request not yet seen whole, by a parser that still runs?\<close>

definition partly_answered :: "'p request_parser \<Rightarrow> 'p request_side \<Rightarrow> (message option \<times> issue) option \<Rightarrow> bool" where
  "partly_answered rp s x \<longleftrightarrow>
     (case x of Some (None, i) \<Rightarrow> rp_disabled rp (rd_parser (rs_reading s)) = None | _ \<Rightarrow> False)"

definition log_answered :: "bool \<Rightarrow> reading_log \<Rightarrow> reading_log" where
  "log_answered partly g = (fst g, fst (snd g), snd (snd g) \<or> partly)"

inductive side_run ::
  "'p request_parser \<Rightarrow> 'p request_side \<Rightarrow> message list \<Rightarrow> nat \<Rightarrow> reading_log \<Rightarrow> reading_log \<Rightarrow> bool" for rp where
  Start: "side_run rp (new_side rp) [] 0 ([], [], False) ([], [], False)"
| Fed: "side_run rp s paired n g gf \<Longrightarrow> b = (if rs_just_orphaned s then young_log g else gf) \<Longrightarrow>
    f = (case fresh_at rp data s of None \<Rightarrow> new_reading rp | Some f \<Rightarrow> f) \<Longrightarrow>
    side_run rp (feed_side rp spot data s) paired n
      (if kept_fresh rp data s then log_feed rp data f b else log_feed rp data (rs_reading s) g)
      (log_feed rp data f b)"
| Decided: "side_run rp s paired n g gf \<Longrightarrow> decide_side rp s = (changed, s') \<Longrightarrow>
    side_run rp s' paired n (if changed then gf else g) gf"
| Replied: "side_run rp s paired n g gf \<Longrightarrow> decide_side rp s = (changed, s1) \<Longrightarrow> take_request rp s = (x, s') \<Longrightarrow>
    partly = partly_answered rp s1 x \<Longrightarrow>
    side_run rp s' (paired @ (case x of Some (Some m, i) \<Rightarrow> [m] | _ \<Rightarrow> [])) (if partly then Suc n else n)
      (log_answered partly (if changed then gf else g)) gf"

definition log_ok ::
  "'p request_parser \<Rightarrow> message list \<Rightarrow> nat \<Rightarrow> 'p reading \<Rightarrow> reading_log \<Rightarrow> bool" where
  "log_ok rp paired n r g \<longleftrightarrow>
     (case g of (late, completed, inside) \<Rightarrow>
        mset paired + mset late + held_request r \<subseteq># mset completed \<and> inside = rd_orphan r \<and>
        length late + (if inside then 1 else 0) \<le> n \<and>
        (inside \<longrightarrow> rd_request r = None \<and> rd_issue r = None \<and> rp_disabled rp (rd_parser r) = None))"

definition side_ok ::
  "'p request_parser \<Rightarrow> 'p request_side \<Rightarrow> message list \<Rightarrow> nat \<Rightarrow> reading_log \<Rightarrow> reading_log \<Rightarrow> bool" where
  "side_ok rp s paired n g gf \<longleftrightarrow>
     log_ok rp paired n (rs_reading s) g \<and>
     (case rs_fresh s of None \<Rightarrow> True | Some f \<Rightarrow> log_ok rp paired n f gf \<and> \<not> rd_orphan f) \<and>
     (rs_just_orphaned s \<longrightarrow> rs_fresh s = None \<and> rd_request (rs_reading s) = None)"

lemma feed_reading_outside:
  "rd_orphan (feed_reading rp spot data r) \<longleftrightarrow>
     rd_orphan r \<and> yielded rp data r = [] \<and> rp_disabled rp (snd (rp_feed rp data (rd_parser r))) = None"
  "rd_orphan (feed_reading rp spot data r) \<Longrightarrow> rd_issue r = None \<Longrightarrow> rd_issue (feed_reading rp spot data r) = None"
proof -
  show o: "rd_orphan (feed_reading rp spot data r) \<longleftrightarrow>
      rd_orphan r \<and> yielded rp data r = [] \<and> rp_disabled rp (snd (rp_feed rp data (rd_parser r))) = None"
    by (cases "rd_orphan r"; cases "rp_disabled rp (snd (rp_feed rp data (rd_parser r)))")
      (simp_all add: feed_reading_def Let_def case_prod_unfold yielded_def absorb_orphan)
  show "rd_issue (feed_reading rp spot data r) = None" if "rd_orphan (feed_reading rp spot data r)" "rd_issue r = None"
    using that unfolding o by (simp add: feed_reading_def Let_def case_prod_unfold yielded_def)
qed

lemma log_ok_feed:
  assumes "log_ok rp paired n r g"
  shows "log_ok rp paired n (feed_reading rp spot data r) (log_feed rp data r g)"
proof -
  obtain late completed inside where g: "g = (late, completed, inside)" by (metis prod_cases3)
  let ?ms = "yielded rp data r" and ?r = "feed_reading rp spot data r"
  have ok: "mset paired + mset late + held_request r \<subseteq># mset completed" "inside = rd_orphan r"
    "length late + (if inside then 1 else 0) \<le> n"
    "inside \<Longrightarrow> rd_request r = None \<and> rd_issue r = None \<and> rp_disabled rp (rd_parser r) = None"
    using assms unfolding log_ok_def g prod.case by blast+
  have rest: "late_rest ?ms r = (if inside then take 1 ?ms else [])" by (simp add: late_rest_def ok(2))
  have "mset paired + mset late + (held_request ?r + mset (late_rest ?ms r)) \<subseteq>#
    mset paired + mset late + (held_request r + mset ?ms)"
    using feed_reading_held by (rule subset_mset.add_left_mono)
  also have "\<dots> \<subseteq># mset completed + mset ?ms" using ok(1) by (simp add: add.assoc)
  finally have "mset paired + mset (late @ (if inside then take 1 ?ms else [])) + held_request ?r \<subseteq># mset (completed @ ?ms)"
    by (simp add: rest ac_simps)
  moreover have "length (late @ (if inside then take 1 ?ms else [])) +
      (if inside \<and> ?ms = [] \<and> rp_disabled rp (snd (rp_feed rp data (rd_parser r))) = None then 1 else 0) \<le> n"
    using ok(3) by (cases ?ms) auto
  ultimately show ?thesis
    using ok(2,4) feed_reading_outside [of rp spot data r]
    by (auto simp: log_ok_def log_feed_def g Let_def feed_reading_frame absorb_request)
qed

lemma log_ok_new: "log_ok rp paired n r g \<Longrightarrow> log_ok rp paired n (new_reading rp) (young_log g)"
  by (cases g) (auto simp: log_ok_def young_log_def held_request_def new_reading_def
      intro: subset_mset.order_trans [rotated])

lemma side_ok_decide:
  assumes "side_ok rp s paired n g gf" "decide_side rp s = (changed, s')"
  shows "side_ok rp s' paired n (if changed then gf else g) gf" "rs_fresh s' = None"
    "rs_just_orphaned s' = rs_just_orphaned s"
  using assms by (auto simp: side_ok_def decide_side_def Let_def split: option.splits if_splits)

lemma side_ok_feed:
  assumes ok: "side_ok rp s paired n g gf" and b: "b = (if rs_just_orphaned s then young_log g else gf)"
    and f: "f = (case fresh_at rp data s of None \<Rightarrow> new_reading rp | Some f \<Rightarrow> f)"
  shows "side_ok rp (feed_side rp spot data s) paired n
    (if kept_fresh rp data s then log_feed rp data f b else log_feed rp data (rs_reading s) g)
    (log_feed rp data f b)"
proof -
  note main = log_ok_feed [of rp paired n "rs_reading s" g spot data]
  have g: "log_ok rp paired n (rs_reading s) g" using ok by (simp add: side_ok_def)
  show ?thesis
  proof (cases "fresh_at rp data s")
    case None
    then show ?thesis
      using main [OF g] by (auto simp: side_ok_def feed_side_def fresh_at_def kept_fresh_def Let_def split: if_splits)
  next
    case (Some f')
    then have f': "f' = f" using f by simp
    have lf: "log_ok rp paired n f b" "\<not> rd_orphan f"
      using ok b Some log_ok_new [OF g]
      by (auto simp: f' side_ok_def fresh_at_def new_reading_def split: if_splits)
    note young = log_ok_feed [OF lf(1), of spot data] feed_reading_orphan [of rp spot data f]
    show ?thesis
      using main [OF g] young lf(2) Some unfolding f'
      by (auto simp: side_ok_def feed_side_def fresh_at_def kept_fresh_def Let_def feed_reading_frame split: if_splits)
  qed
qed

lemma take_paired:
  assumes "decide_side rp s = (changed, s1)" "take_request rp s = (x, s')"
  shows "(case x of Some (Some m, i) \<Rightarrow> [m] | _ \<Rightarrow> []) = opt_list (waiting s1)"
  using assms by (auto simp: take_request_def Let_def opt_list_def split: if_splits option.splits)

text \<open>What a reply leaves: the request that waited is gone, and the reading is inside an answered request
  exactly if it was before or the reply was paired with a part of one.\<close>

lemma take_leaves:
  assumes "decide_side rp s = (changed, s1)" "take_request rp s = (x, s')"
  shows "rs_fresh s' = rs_fresh s1" "rd_parser (rs_reading s') = rd_parser (rs_reading s1)"
    "rd_request (rs_reading s') = None" "rd_issue (rs_reading s') = None"
    "rd_orphan (rs_reading s') \<longleftrightarrow> rd_orphan (rs_reading s1) \<or> partly_answered rp s1 x"
    "partly_answered rp s1 x \<Longrightarrow> rd_issue (rs_reading s1) \<noteq> None \<and> waiting s1 = None \<and>
       rp_disabled rp (rd_parser (rs_reading s1)) = None"
    "rs_just_orphaned s' \<longleftrightarrow> rs_just_orphaned s1 \<or> partly_answered rp s1 x"
  using assms by (auto simp: take_request_def Let_def partly_answered_def waiting_def split: if_splits option.splits)

lemma log_ok_taken:
  assumes "log_ok rp paired n r g" "r' = r\<lparr>rd_request := None, rd_issue := None, rd_orphan := (rd_orphan r \<or> partly)\<rparr>"
    and "partly \<Longrightarrow> rd_issue r \<noteq> None \<and> rd_request r = None \<and> rp_disabled rp (rd_parser r) = None"
  shows "log_ok rp (paired @ opt_list (rd_request r)) (if partly then Suc n else n) r' (log_answered partly g)"
proof -
  have "\<not> (partly \<and> rd_orphan r)" using assms(1,3) by (auto simp: log_ok_def split: prod.splits)
  then show ?thesis
    using assms by (auto simp: log_ok_def log_answered_def held_request_def opt_list_def ac_simps split: option.splits)
qed

lemma log_ok_more:
  "log_ok rp paired n r g \<Longrightarrow> log_ok rp paired (Suc n) r g"
  by (auto simp: log_ok_def)

lemma side_ok_take:
  assumes "side_ok rp s paired n g gf" "decide_side rp s = (changed, s1)" "take_request rp s = (x, s')"
    and "partly = partly_answered rp s1 x"
  shows "side_ok rp s' (paired @ opt_list (waiting s1)) (if partly then Suc n else n)
    (log_answered partly (if changed then gf else g)) gf"
proof -
  let ?g = "if changed then gf else g"
  note d = side_ok_decide [OF assms(1,2)] and l = take_leaves [OF assms(2,3)]
  have g: "log_ok rp paired n (rs_reading s1) ?g" using d(1) by (simp add: side_ok_def)
  have "rs_reading s' = (rs_reading s1)\<lparr>rd_request := None, rd_issue := None, rd_orphan := (rd_orphan (rs_reading s1) \<or> partly)\<rparr>"
    using l(2-5) assms(4) by (intro reading.equality) simp_all
  from log_ok_taken [OF g this] have "log_ok rp (paired @ opt_list (waiting s1)) (if partly then Suc n else n) (rs_reading s')
      (log_answered partly ?g)"
    using l(6) assms(4) by (simp add: waiting_def)
  then show ?thesis using d(2) l(1,3) by (simp add: side_ok_def)
qed

lemma side_run_ok: "side_run rp s paired n g gf \<Longrightarrow> side_ok rp s paired n g gf"
proof (induction rule: side_run.induct)
  case Start
  then show ?case by (simp add: side_ok_def new_side_def log_ok_def held_request_def new_reading_def)
next
  case (Fed s paired n g gf b f data spot)
  then show ?case using side_ok_feed by blast
next
  case (Decided s paired n g gf changed s')
  then show ?case using side_ok_decide(1) by blast
next
  case (Replied s paired n g gf changed s1 x s' partly)
  then show ?case unfolding take_paired [OF Replied(2,3)] using side_ok_take by blast
qed

section \<open>Interim replies\<close>

text \<open>An interim reply, which is not a final one and no upgrade.\<close>

definition interim :: "message \<Rightarrow> bool" where
  "interim m \<longleftrightarrow> (case ms_status m of None \<Rightarrow> False | Some c \<Rightarrow> 100 \<le> c \<and> c < 200 \<and> c \<noteq> 101)"

definition header_total :: "message list \<Rightarrow> int" where
  "header_total ms = sum_list (map ms_header_len ms)"

definition rebased :: "int \<Rightarrow> ('p, 'q) h1_tracker \<Rightarrow> ('p, 'q) h1_tracker" where
  "rebased n t = t\<lparr>h1_marks := map (\<lambda>(c, ns). (c - n, ns)) (h1_marks t), h1_cum := h1_cum t - n\<rparr>"

lemma rebased_frame [simp]:
  "h1_requests (rebased n t) = h1_requests t" "h1_expect_ws (rebased n t) = h1_expect_ws t"
  "h1_raw (rebased n t) = h1_raw t" "h1_first_ns (rebased n t) = h1_first_ns t"
  "h1_cum (rebased n t) = h1_cum t - n" "h1_resp (rebased n t) = h1_resp t"
  by (simp_all add: rebased_def)

lemma rebased_rebased: "rebased n (rebased k t) = rebased (k + n) t"
  by (simp add: rebased_def comp_def case_prod_unfold algebra_simps)

lemma rebased_zero [simp]: "rebased 0 t = t"
  by (simp add: rebased_def)

lemma respond_interims:
  "list_all interim ims \<Longrightarrow>
   respond rp quot now d (ims @ ms) t = respond rp quot now d ms (rebased (header_total ims) t)"
proof (induction ims arbitrary: t)
  case Nil
  then show ?case by (simp add: header_total_def)
next
  case (Cons m ims)
  then have m: "interim m" and rest: "list_all interim ims" by simp_all
  from m have "respond rp quot now d (m # ims @ ms) t = respond rp quot now d (ims @ ms) (rebased (ms_header_len m) t)"
    by (auto simp: interim_def rebased_def split: option.splits)
  then show ?case using Cons.IH [OF rest] by (simp add: rebased_rebased header_total_def)
qed

section \<open>The bytes of one reply\<close>

text \<open>The instant of the first chunk that reaches beyond \<open>need\<close> bytes.\<close>

fun first_past :: "int \<Rightarrow> (bytes \<times> int) list \<Rightarrow> int option" where
  "first_past need [] = None"
| "first_past need ((d, ns) # cs) =
     (if need < int (length d) then Some ns else first_past (need - int (length d)) cs)"

definition carried :: "(bytes \<times> int) list \<Rightarrow> int" where
  "carried cs = sum_list (map (\<lambda>(d, ns). int (length d)) cs)"

fun marks_of :: "int \<Rightarrow> (bytes \<times> int) list \<Rightarrow> (int \<times> int) list" where
  "marks_of cum [] = []"
| "marks_of cum ((d, ns) # cs) = (cum + int (length d), ns) # marks_of (cum + int (length d)) cs"

lemma marks_of_append:
  "marks_of cum (cs @ [(d, ns)]) = marks_of cum cs @ [(cum + carried cs + int (length d), ns)]"
  by (induction cum cs rule: marks_of.induct) (simp_all add: carried_def)

lemma marks_of_shift: "map (\<lambda>(c, ns). (c - n, ns)) (marks_of cum cs) = marks_of (cum - n) cs"
  by (induction cum cs rule: marks_of.induct) (simp_all add: algebra_simps)

lemma ttft_of_chunks:
  "ttft_from_marks quot (marks_of cum cs) header_len start =
   (if start = 0 then None
    else map_option (\<lambda>ns. elapsed_ms quot ns start) (first_past (header_len - cum) cs))"
  by (induction cum cs rule: marks_of.induct) (auto simp: algebra_simps)

text \<open>A reply being read: the chunks so far, each with its instant, and the header bytes of the
  interim replies among them.\<close>

inductive replying ::
  "'p request_parser \<Rightarrow> 'q response_parser \<Rightarrow> (int \<Rightarrow> rat) \<Rightarrow> (bytes \<times> int) list \<Rightarrow> int \<Rightarrow>
   ('p, 'q) h1_tracker \<Rightarrow> bool" for rp qp quot where
  Quiet: "h1_marks t = [] \<Longrightarrow> h1_cum t = 0 \<Longrightarrow> h1_first_ns t = 0 \<Longrightarrow> replying rp qp quot [] 0 t"
| Chunk: "replying rp qp quot cs n t \<Longrightarrow> 0 < now \<Longrightarrow>
    h1_response_bytes rp qp quot now d data t = (xs, t') \<Longrightarrow>
    list_all interim ms \<Longrightarrow>
    fst (qp_feed qp data (if qp_idle qp (h1_resp t)
           then qp_expect qp (framing_method (snd (decide_side rp (h1_requests t)))) (h1_resp t)
           else h1_resp t)) = ms \<Longrightarrow>
    replying rp qp quot (cs @ [(data, now)]) (n + header_total ms) t'"
| Sent: "replying rp qp quot cs n t \<Longrightarrow> replying rp qp quot cs n (h1_request_bytes rp spot data t)"

definition reply_ok :: "(bytes \<times> int) list \<Rightarrow> int \<Rightarrow> ('p, 'q) h1_tracker \<Rightarrow> bool" where
  "reply_ok cs n t \<longleftrightarrow> h1_marks t = marks_of (- n) cs \<and> h1_cum t = carried cs - n \<and>
     h1_first_ns t = (case cs of [] \<Rightarrow> 0 | c # _ \<Rightarrow> snd c) \<and> list_all (\<lambda>c. 0 < snd c) cs"

definition heard :: "bytes \<Rightarrow> int \<Rightarrow> 'p request_side \<Rightarrow> bool \<Rightarrow> 'q \<Rightarrow> ('p, 'q) h1_tracker \<Rightarrow> ('p, 'q) h1_tracker" where
  "heard data now side ws resp t =
     t\<lparr>h1_requests := side, h1_resp := resp, h1_expect_ws := ws,
       h1_first_ns := (if h1_first_ns t = 0 then now else h1_first_ns t),
       h1_cum := h1_cum t + int (length data),
       h1_marks := h1_marks t @ [(h1_cum t + int (length data), now)],
       h1_raw := (if ws then h1_raw t @ data else h1_raw t)\<rparr>"

lemma reply_ok_heard:
  assumes "reply_ok cs n t" "0 < now"
  shows "reply_ok (cs @ [(data, now)]) (n + k) (rebased k (heard data now side ws resp t))"
proof -
  have "marks_of (- n - k) (cs @ [(data, now)]) = map (\<lambda>(c, ns). (c - k, ns)) (marks_of (- n) (cs @ [(data, now)]))"
    by (simp add: marks_of_shift)
  then show ?thesis
    using assms
    by (auto simp: reply_ok_def rebased_def heard_def marks_of_append carried_def split: list.splits)
qed

lemma response_bytes_heard:
  assumes "decide_side rp (h1_requests t) = (changed, side)"
    and "qp_feed qp data (if qp_idle qp (h1_resp t) then qp_expect qp (framing_method side) (h1_resp t)
           else h1_resp t) = (ms, resp)"
  shows "h1_response_bytes rp qp quot now d data t =
    respond rp quot now d ms
      (heard data now side (if changed then upgrade_requested side else h1_expect_ws t) resp t)"
  using assms by (simp add: h1_response_bytes_def heard_def Let_def)

lemma replying_ok: "replying rp qp quot cs n t \<Longrightarrow> reply_ok cs n t"
proof (induction rule: replying.induct)
  case (Quiet t)
  then show ?case by (simp add: reply_ok_def carried_def)
next
  case (Chunk cs n t now d data xs t' ms)
  obtain changed side where de: "decide_side rp (h1_requests t) = (changed, side)" by fastforce
  obtain resp where f: "qp_feed qp data (if qp_idle qp (h1_resp t)
      then qp_expect qp (framing_method side) (h1_resp t) else h1_resp t) = (ms, resp)"
    using Chunk.hyps(5) de by (metis prod.collapse snd_conv)
  let ?h = "heard data now side (if changed then upgrade_requested side else h1_expect_ws t) resp t"
  have "(xs, t') = respond rp quot now d ms ?h"
    using Chunk.hyps(3) unfolding response_bytes_heard [OF de f] by simp
  also have "\<dots> = ([], rebased (header_total ms) ?h)"
    using respond_interims [OF Chunk.hyps(4), of rp quot now d "[]" ?h] by simp
  finally have "t' = rebased (header_total ms) ?h" by simp
  then show ?case using reply_ok_heard [OF Chunk.IH Chunk.hyps(2)] by simp
next
  case (Sent cs n t spot data)
  then show ?case by (simp add: reply_ok_def h1_request_bytes_def Let_def)
qed

end
