(* ===== verification/Trackers_Claims.thy ===== *)
theory Trackers_Claims
  imports Requests_Laws
begin

text \<open>
  The properties of the HTTP/1 tracker: no request answers two replies, what frames a reply,
  what its times measure, and what an interim reply before an upgrade does to the connection.
\<close>

section \<open>Concrete parsers\<close>

definition demo_message :: "int option \<Rightarrow> int \<Rightarrow> message" where
  "demo_message status n = \<lparr>ms_verb = Some (str_lit ''POST''), ms_url = Some (str_lit ''/v1''), ms_status = status,
     ms_headers = [(str_lit ''upgrade'', str_lit ''websocket''), (str_lit ''connection'', str_lit ''upgrade'')],
     ms_body = [], ms_header_len = n, ms_truncated = False, ms_limitations = [], ms_incomplete = False\<rparr>"

text \<open>A parser that completes one message per chunk, and one that answers from a script.\<close>

definition demo_requests_parser :: "nat request_parser" where
  "demo_requests_parser = \<lparr>rp_new = 0, rp_feed = (\<lambda>data n. ([demo_message None 4], Suc n)),
     rp_idle = (\<lambda>n. True), rp_in_flight = (\<lambda>n. None), rp_disabled = (\<lambda>n. None)\<rparr>"

definition demo_script :: "message list \<Rightarrow> (message list) response_parser" where
  "demo_script ms = \<lparr>qp_new = ms, qp_feed = (\<lambda>data q. (q, [])), qp_idle = (\<lambda>q. True),
     qp_expect = (\<lambda>m q. q), qp_finish = (\<lambda>closed q. (None, q)), qp_disabled = (\<lambda>q. None)\<rparr>"

definition demo_issue :: issue where
  "demo_issue = NOT_SEEN\<lparr>iu_start_ns := 5\<rparr>"

definition demo_fed :: "nat request_side" where
  "demo_fed = feed_side demo_requests_parser demo_issue [1] (new_side demo_requests_parser)"

lemma demo_fed_simps:
  "waiting demo_fed = Some (demo_message None 4)" "rs_fresh demo_fed = None" "rs_tied demo_fed = False"
  "rd_issue (rs_reading demo_fed) = Some demo_issue" "rs_just_orphaned demo_fed = False"
  by (simp_all add: demo_fed_def feed_side_def new_side_def feed_reading_def new_reading_def Let_def
      demo_requests_parser_def waiting_def)

section \<open>Pairing\<close>











text \<open>The framing of a reply is never a guess. When a reply arrives the side settles on one
  reading, the one that holds more of a request and the older one on a tie; when the two hold
  equally much but their methods differ, the reply is framed by no method; and a method that frames
  a reply is the one of the waiting request.\<close>

theorem reply_framing_is_never_guessed:
  assumes "rs_fresh s = Some f" "decide_side rp s = (changed, s')"
  shows "rs_fresh s' = None \<and>
    claim_reading rp (rs_reading s') = max (claim_reading rp (rs_reading s)) (claim_reading rp f) \<and>
    (changed \<longleftrightarrow> claim_reading rp (rs_reading s) < claim_reading rp f) \<and>
    (claim_reading rp (rs_reading s) = claim_reading rp f \<and> 0 < claim_reading rp f \<and>
       methods_of rp (rs_reading s) \<noteq> methods_of rp f \<longrightarrow> framing_method s' = []) \<and>
    (framing_method s' \<noteq> [] \<longrightarrow> (\<exists>m. waiting s' = Some m \<and> ms_verb m = Some (framing_method s')))"
proof -
  have "framing_method s' \<noteq> [] \<longrightarrow> (\<exists>m. waiting s' = Some m \<and> ms_verb m = Some (framing_method s'))"
    by (auto simp: framing_method_def split: option.splits if_splits)
  then show ?thesis
    using assms by (auto simp: decide_side_def Let_def framing_method_def max_def split: if_splits option.splits)
qed

theorem reply_framing_is_never_guessed_witness:
  "claim_reading demo_requests_parser
     (rs_reading (snd (decide_side demo_requests_parser (demo_fed\<lparr>rs_fresh := Some (new_reading demo_requests_parser)\<rparr>)))) =
   max (claim_reading demo_requests_parser (rs_reading demo_fed))
     (claim_reading demo_requests_parser (new_reading demo_requests_parser))"
  using reply_framing_is_never_guessed
    [of "demo_fed\<lparr>rs_fresh := Some (new_reading demo_requests_parser)\<rparr>" "new_reading demo_requests_parser"
      demo_requests_parser
      "fst (decide_side demo_requests_parser (demo_fed\<lparr>rs_fresh := Some (new_reading demo_requests_parser)\<rparr>))"
      "snd (decide_side demo_requests_parser (demo_fed\<lparr>rs_fresh := Some (new_reading demo_requests_parser)\<rparr>))"]
  by simp

section \<open>Times\<close>



definition demo_exchange :: "(nat, message list) h1_tracker" where
  "demo_exchange = (new_h1_tracker demo_requests_parser
     (demo_script [demo_message (Some 103) 2, demo_message (Some 200) 3]))\<lparr>h1_requests := demo_fed\<rparr>"


section \<open>What an interim reply does to an upgrade\<close>

text \<open>C35: an interim reply in the same read as the upgrade corrupts the connection. The bytes handed
  on as the first ones of the WebSocket are cut off at the upgrade's own header length, though the
  bytes kept begin with the interim reply: the frame parser is given the tail of HTTP headers before
  the first frame, as many bytes too many as the interim reply was long.\<close>

theorem interim_before_upgrade_corrupts_leftover:
  assumes "rs_fresh (h1_requests t) = None" "h1_expect_ws t" "h1_raw t = []"
    and "qp_feed qp (early @ head @ frames) (if qp_idle qp (h1_resp t)
           then qp_expect qp (framing_method (h1_requests t)) (h1_resp t) else h1_resp t) =
         ([interim_msg, upgrade_msg], resp)"
    and "interim interim_msg" "ms_status upgrade_msg = Some 101" "is_ws_upgrade_request (ms_headers upgrade_msg)"
    and "ms_header_len upgrade_msg = int (length head)"
    and "h1_response_bytes rp qp quot now d (early @ head @ frames) t = (xs, t')"
  shows "map ex_ws_leftover xs = [drop (length head) (early @ head @ frames)] \<and>
    length (ex_ws_leftover (hd xs)) = length early + length frames \<and>
    (early \<noteq> [] \<longrightarrow> ex_ws_leftover (hd xs) \<noteq> frames)"
proof -
  have d: "decide_side rp (h1_requests t) = (False, h1_requests t)"
    using assms(1) by (simp add: decide_side_def)
  let ?h = "heard (early @ head @ frames) now (h1_requests t) (h1_expect_ws t) resp t"
  have "(xs, t') = respond rp quot now d ([interim_msg] @ [upgrade_msg]) ?h"
    using assms(9) response_bytes_heard [OF d assms(4), of quot now d] by simp
  also have "\<dots> = respond rp quot now d [upgrade_msg] (rebased (header_total [interim_msg]) ?h)"
    by (rule respond_interims) (simp add: assms(5))
  finally obtain x where x: "xs = [x]" "x = upgrade_exchange now upgrade_msg (rebased (header_total [interim_msg]) ?h)"
    using assms(2,6,7) by (simp add: heard_def)
  have raw: "h1_raw ?h = early @ head @ frames" using assms(2,3) by (simp add: heard_def)
  have left: "ex_ws_leftover x = drop (length head) (early @ head @ frames)"
    by (simp add: x(2) upgrade_exchange_def Let_def raw assms(8))
  then have len: "length (ex_ws_leftover x) = length early + length frames"
    by (simp only: left length_drop length_append)
  have "ex_ws_leftover x \<noteq> frames" if "early \<noteq> []"
    using len that by (metis add_0 add_right_cancel length_0_conv)
  with left len show ?thesis unfolding x(1) by (simp only: list.map list.sel) blast
qed

theorem interim_before_upgrade_corrupts_leftover_witness:
  "ex_ws_leftover (hd (fst (h1_response_bytes demo_requests_parser
      (demo_script [demo_message (Some 103) 2, demo_message (Some 101) 3]) of_int 9 10 ([1, 2] @ [3, 4, 5] @ [129])
      (demo_exchange\<lparr>h1_resp := [demo_message (Some 103) 2, demo_message (Some 101) 3], h1_expect_ws := True\<rparr>)))) \<noteq> [129]"
proof -
  let ?ms = "[demo_message (Some 103) 2, demo_message (Some 101) 3]"
  let ?t = "demo_exchange\<lparr>h1_resp := ?ms, h1_expect_ws := True\<rparr>"
  let ?r = "h1_response_bytes demo_requests_parser (demo_script ?ms) of_int 9 10 ([1, 2] @ [3, 4, 5] @ [129]) ?t"
  have up: "is_ws_upgrade_request (ms_headers (demo_message (Some 101) 3))"
    by (simp add: is_ws_upgrade_request_def header_get_def demo_message_def str_lit_def word_lower_def occurs_def)
  have d: "rs_fresh (h1_requests ?t) = None" "h1_expect_ws ?t" "h1_raw ?t = []"
    by (simp_all add: demo_exchange_def new_h1_tracker_def demo_fed_simps)
  have feed: "qp_feed (demo_script ?ms) ([1, 2] @ [3, 4, 5] @ [129]) (if qp_idle (demo_script ?ms) (h1_resp ?t)
      then qp_expect (demo_script ?ms) (framing_method (h1_requests ?t)) (h1_resp ?t) else h1_resp ?t) =
      ([demo_message (Some 103) 2, demo_message (Some 101) 3], [])"
    by (simp add: demo_script_def)
  have i: "interim (demo_message (Some 103) 2)" by (simp add: interim_def demo_message_def)
  have st: "ms_status (demo_message (Some 101) 3) = Some 101"
    "ms_header_len (demo_message (Some 101) 3) = int (length ([3, 4, 5] :: bytes))"
    by (simp_all add: demo_message_def)
  have r: "?r = (fst ?r, snd ?r)" by (rule prod.collapse [symmetric])
  have "([1, 2] :: bytes) \<noteq> [] \<longrightarrow> ex_ws_leftover (hd (fst ?r)) \<noteq> [129]"
    by (rule interim_before_upgrade_corrupts_leftover
          [OF d feed i st(1) up st(2) r, THEN conjunct2, THEN conjunct2])
  then show ?thesis by (rule mp) simp
qed

end
