(* ===== verification/Websocket.thy ===== *)
theory Websocket
  imports Trackers
begin

text \<open>
  One WebSocket connection, \<open>_WebSocketTracker\<close> of \<open>_interceptors/_trackers.py\<close>: frames counted per
  direction, a sample of each direction's messages, the identity the session may name, and the
  one transaction that ends it. The native frame parser is an argument.
\<close>

record frame =
  fr_close :: bool
  fr_close_code :: "int option"
  fr_payload_len :: int

record 'w frame_parser =
  fp_new :: 'w
  fp_feed :: "bytes \<Rightarrow> 'w \<Rightarrow> frame list \<times> bytes list \<times> 'w"
  fp_disabled :: "'w \<Rightarrow> bool"

datatype side = Sent | Received
datatype llm_upgrade = Known_provider | Unknown_host

record 'w ws_tracker =
  ws_llm_upgrade :: "llm_upgrade option"
  ws_llm_call :: bool
  ws_llm_unconfirmed :: bool
  ws_sent :: 'w
  ws_recv :: 'w
  ws_path :: py_text
  ws_target :: py_text
  ws_deflate :: bool
  ws_parent :: "span_context option"
  ws_parent_closed :: bool
  ws_conversation :: "conversation option"
  ws_scope :: scope_snapshot
  ws_start_ns :: int
  ws_sample_cap :: int
  ws_sent_msgs :: nat
  ws_recv_msgs :: nat
  ws_sent_bytes :: int
  ws_recv_bytes :: int
  ws_sample_in :: bytes
  ws_sample_out :: bytes
  ws_in_trunc :: bool
  ws_out_trunc :: bool
  ws_close_code :: "int option"
  ws_close_from :: "side list"
  ws_emitted :: bool

record session = txn +
  se_close_code :: "int option"
  se_messages_sent :: nat
  se_messages_received :: nat
  se_bytes_sent :: int
  se_bytes_received :: int
  se_markers :: "limitation list"
  se_llm_call :: bool
  se_llm_unconfirmed :: bool

definition new_ws_tracker ::
  "'w frame_parser \<Rightarrow> py_text \<Rightarrow> bool \<Rightarrow> span_context option \<Rightarrow> int \<Rightarrow> bool \<Rightarrow> int option \<Rightarrow> int \<Rightarrow>
   llm_upgrade option \<Rightarrow> conversation option \<Rightarrow> scope_snapshot \<Rightarrow> 'w ws_tracker" where
  "new_ws_tracker fp path deflate parent start_ns parent_closed sample_cap core_cap llm conv scope =
     \<lparr>ws_llm_upgrade = llm, ws_llm_call = False, ws_llm_unconfirmed = False, ws_sent = fp_new fp,
      ws_recv = fp_new fp, ws_path = name_path path, ws_target = path, ws_deflate = deflate,
      ws_parent = parent, ws_parent_closed = parent_closed, ws_conversation = conv, ws_scope = scope,
      ws_start_ns = start_ns,
      ws_sample_cap = (case sample_cap of None \<Rightarrow> core_cap | Some c \<Rightarrow> c),
      ws_sent_msgs = 0, ws_recv_msgs = 0, ws_sent_bytes = 0, ws_recv_bytes = 0, ws_sample_in = [],
      ws_sample_out = [], ws_in_trunc = False, ws_out_trunc = False, ws_close_code = None,
      ws_close_from = [], ws_emitted = False\<rparr>"

section \<open>Counting and sampling\<close>

fun count_frames :: "frame list \<Rightarrow> side \<Rightarrow> 'w ws_tracker \<Rightarrow> int \<times> 'w ws_tracker" where
  "count_frames [] sd t = (0, t)"
| "count_frames (f # fs) sd t =
     (let t = (if fr_close f
               then t\<lparr>ws_close_code := (if ws_close_from t = [] then fr_close_code f else ws_close_code t),
                      ws_close_from := List.insert sd (ws_close_from t)\<rparr>
               else t)
      in case count_frames fs sd t of (n, t) \<Rightarrow> (fr_payload_len f + n, t))"

fun append_sample :: "int \<Rightarrow> bytes \<Rightarrow> bytes list \<Rightarrow> bool \<times> bytes" where
  "append_sample cap buf [] = (False, buf)"
| "append_sample cap buf (m # ms) =
     (let room = cap - int (length buf)
      in if room \<le> 0 then (True, buf)
         else if room < int (length m)
         then (True, snd (append_sample cap (buf @ List.take (nat room) m) ms))
         else append_sample cap (buf @ m) ms)"

section \<open>Whose session it is, and whether a call crossed it\<close>

text \<open>The bytes class \<open>\s\<close>, and the envelope \<open>"type"\s*:\s*"response.create"\<close> anywhere in a message.\<close>

definition is_bytes_space :: "byte \<Rightarrow> bool" where
  "is_bytes_space b \<longleftrightarrow> b \<in> {9, 10, 11, 12, 13, 32}"

definition strip_prefix :: "bytes \<Rightarrow> bytes \<Rightarrow> bytes option" where
  "strip_prefix p xs = (if prefix p xs then Some (drop (length p) xs) else None)"

definition create_here :: "bytes \<Rightarrow> bool" where
  "create_here xs =
     (case strip_prefix ([34] @ byte_lit ''type'' @ [34]) xs of
        None \<Rightarrow> False
      | Some ys \<Rightarrow>
          (case strip_prefix [58] (dropWhile is_bytes_space ys) of
             None \<Rightarrow> False
           | Some zs \<Rightarrow> prefix ([34] @ byte_lit ''response.create'' @ [34]) (dropWhile is_bytes_space zs)))"

fun responses_create :: "bytes \<Rightarrow> bool" where
  "responses_create [] = create_here []"
| "responses_create (b # bs) = (create_here (b # bs) \<or> responses_create bs)"

definition decide_llm :: "bytes option \<Rightarrow> 'w ws_tracker \<Rightarrow> 'w ws_tracker" where
  "decide_llm first t =
     (let confirmed = (ws_llm_upgrade t = Some Known_provider \<or>
            (\<not> ws_deflate t \<and> (case first of None \<Rightarrow> False | Some m \<Rightarrow> responses_create m)))
      in (if confirmed then t\<lparr>ws_llm_call := True\<rparr> else t\<lparr>ws_llm_unconfirmed := True\<rparr>)
           \<lparr>ws_llm_upgrade := None\<rparr>)"

definition narrow_identity :: "conversation option \<Rightarrow> scope_snapshot \<Rightarrow> 'w ws_tracker \<Rightarrow> 'w ws_tracker" where
  "narrow_identity conv snap t =
     t\<lparr>ws_conversation := (if ws_conversation t \<noteq> None \<and> conv \<noteq> ws_conversation t then None
                           else ws_conversation t),
       ws_scope := (if ws_scope t \<noteq> UNKNOWN_ISSUER \<and> \<not> same_issuer (ws_scope t) snap
                    then UNKNOWN_ISSUER else ws_scope t)\<rparr>"

section \<open>The session's end\<close>

definition build_session ::
  "'w frame_parser \<Rightarrow> int \<Rightarrow> limitation list \<Rightarrow> 'w ws_tracker \<Rightarrow> session \<times> 'w ws_tracker" where
  "build_session fp now extra t =
     (\<lparr>tx_method = str_lit ''GET'', tx_path = ws_path t, tx_target = ws_target t, tx_status = 101,
       tx_request_body = ws_sample_in t, tx_response_body = ws_sample_out t,
       tx_parent = ws_parent t, tx_parent_closed = ws_parent_closed t, tx_parent_evicted = False,
       tx_parent_lost = False, tx_conversation = ws_conversation t, tx_scope = ws_scope t,
       tx_issuer_proven = True, tx_start_ns = ws_start_ns t, tx_end_ns = now, tx_truncated = False,
       tx_request_counted = (\<not> fp_disabled fp (ws_sent t)),
       tx_response_counted = (\<not> fp_disabled fp (ws_recv t)), tx_stream_id = None,
       tx_limitations = [], tx_content_type = None, tx_event_stream = False,
       tx_content_encoding = None, tx_grpc_status = None, tx_grpc_message = None,
       se_close_code = ws_close_code t, se_messages_sent = ws_sent_msgs t,
       se_messages_received = ws_recv_msgs t, se_bytes_sent = ws_sent_bytes t,
       se_bytes_received = ws_recv_bytes t,
       se_markers = extra @ (if ws_in_trunc t \<or> ws_out_trunc t then [WS_PAYLOAD_TRUNCATED] else []) @
         (if ws_deflate t then [PAYLOAD_COMPRESSED] else []) @
         (if fp_disabled fp (ws_sent t) \<or> fp_disabled fp (ws_recv t) then [FRAME_PARSE_FAILED] else []) @
         (if ws_llm_call t then [WS_LLM_SEMANTICS_UNREAD] else []),
       se_llm_call = ws_llm_call t, se_llm_unconfirmed = ws_llm_unconfirmed t\<rparr>,
      t\<lparr>ws_emitted := True\<rparr>)"

definition maybe_emit :: "'w frame_parser \<Rightarrow> int \<Rightarrow> 'w ws_tracker \<Rightarrow> session list \<times> 'w ws_tracker" where
  "maybe_emit fp now t =
     (if length (ws_close_from t) = 2 \<and> \<not> ws_emitted t
      then (case build_session fp now [] t of (x, t) \<Rightarrow> ([x], t)) else ([], t))"

definition ws_flush ::
  "'w frame_parser \<Rightarrow> int \<Rightarrow> limitation \<Rightarrow> 'w ws_tracker \<Rightarrow> session list \<times> 'w ws_tracker" where
  "ws_flush fp now marker t =
     (if ws_emitted t then ([], t)
      else (case build_session fp now (if marker = WS_NO_CLOSE \<and> ws_close_from t \<noteq> [] then [] else [marker]) t of
              (x, t) \<Rightarrow> ([x], t)))"

text \<open>A write: its frames and messages counted, the identity narrowed, the call decided, the sample
  extended, and the session emitted when both sides have closed.\<close>

definition count_sent :: "frame list \<Rightarrow> bytes list \<Rightarrow> 'w \<Rightarrow> 'w ws_tracker \<Rightarrow> 'w ws_tracker" where
  "count_sent fs ms p t =
     (case count_frames fs Sent (t\<lparr>ws_sent := p\<rparr>) of
        (n, t) \<Rightarrow> t\<lparr>ws_sent_bytes := ws_sent_bytes t + n, ws_sent_msgs := ws_sent_msgs t + length ms\<rparr>)"

definition settle_identity ::
  "bool \<Rightarrow> conversation option \<Rightarrow> scope_snapshot \<Rightarrow> bytes list \<Rightarrow> 'w ws_tracker \<Rightarrow> 'w ws_tracker" where
  "settle_identity dead conv snap ms t = (if ms \<noteq> [] \<or> dead then narrow_identity conv snap t else t)"

definition settle_llm :: "bool \<Rightarrow> bytes list \<Rightarrow> 'w ws_tracker \<Rightarrow> 'w ws_tracker" where
  "settle_llm dead ms t =
     (if ws_llm_upgrade t = None then t
      else case ms of m # _ \<Rightarrow> decide_llm (Some m) t
           | [] \<Rightarrow> if dead then decide_llm None t else t)"

definition sample_sent :: "bytes list \<Rightarrow> 'w ws_tracker \<Rightarrow> 'w ws_tracker" where
  "sample_sent ms t =
     (case append_sample (ws_sample_cap t) (ws_sample_in t) ms of
        (full, buf) \<Rightarrow> t\<lparr>ws_sample_in := buf, ws_in_trunc := full \<or> ws_in_trunc t\<rparr>)"

definition ws_request_bytes ::
  "'w frame_parser \<Rightarrow> int \<Rightarrow> conversation option \<Rightarrow> scope_snapshot \<Rightarrow> bytes \<Rightarrow> 'w ws_tracker \<Rightarrow>
   session list \<times> 'w ws_tracker" where
  "ws_request_bytes fp now conv snap data t =
     (case fp_feed fp data (ws_sent t) of
        (fs, ms, p) \<Rightarrow>
          maybe_emit fp now
            (sample_sent ms
              (settle_llm (fp_disabled fp p) ms
                (settle_identity (fp_disabled fp p) conv snap ms (count_sent fs ms p t)))))"

definition count_received :: "frame list \<Rightarrow> bytes list \<Rightarrow> 'w \<Rightarrow> 'w ws_tracker \<Rightarrow> 'w ws_tracker" where
  "count_received fs ms p t =
     (case count_frames fs Received (t\<lparr>ws_recv := p\<rparr>) of
        (n, t) \<Rightarrow> t\<lparr>ws_recv_bytes := ws_recv_bytes t + n, ws_recv_msgs := ws_recv_msgs t + length ms\<rparr>)"

definition sample_received :: "bytes list \<Rightarrow> 'w ws_tracker \<Rightarrow> 'w ws_tracker" where
  "sample_received ms t =
     (case append_sample (ws_sample_cap t) (ws_sample_out t) ms of
        (full, buf) \<Rightarrow> t\<lparr>ws_sample_out := buf, ws_out_trunc := full \<or> ws_out_trunc t\<rparr>)"

definition ws_response_bytes ::
  "'w frame_parser \<Rightarrow> int \<Rightarrow> bytes \<Rightarrow> 'w ws_tracker \<Rightarrow> session list \<times> 'w ws_tracker" where
  "ws_response_bytes fp now data t =
     (case fp_feed fp data (ws_recv t) of
        (fs, ms, p) \<Rightarrow> maybe_emit fp now (sample_received ms (count_received fs ms p t)))"

end
