(* ===== verification/Websocket_Claims.thy ===== *)
theory Websocket_Claims
  imports Websocket "HOL-Library.Sublist"
begin

text \<open>
  What the one transaction of a WebSocket connection says. \<open>ws_run\<close> is a tracker after any reads,
  writes and endings, with the history of what crossed and the sessions it emitted; the history
  alone is the specification (\<open>tells\<close>).
\<close>

section \<open>What crossed\<close>

datatype crossing =
    Wrote "conversation option" scope_snapshot "frame list" "bytes list" bool
  | Heard "frame list" "bytes list"

fun wrote_frames :: "crossing \<Rightarrow> frame list" where
  "wrote_frames (Wrote c s fs ms dead) = fs" | "wrote_frames (Heard fs ms) = []"
fun heard_frames :: "crossing \<Rightarrow> frame list" where
  "heard_frames (Wrote c s fs ms dead) = []" | "heard_frames (Heard fs ms) = fs"
fun wrote_messages :: "crossing \<Rightarrow> bytes list" where
  "wrote_messages (Wrote c s fs ms dead) = ms" | "wrote_messages (Heard fs ms) = []"
fun heard_messages :: "crossing \<Rightarrow> bytes list" where
  "heard_messages (Wrote c s fs ms dead) = []" | "heard_messages (Heard fs ms) = ms"

text \<open>The identity a write was issued under, where it completed a message or can no longer tell.\<close>

fun issued_under :: "crossing \<Rightarrow> (conversation option \<times> scope_snapshot) list" where
  "issued_under (Wrote c s fs ms dead) = (if ms \<noteq> [] \<or> dead then [(c, s)] else [])"
| "issued_under (Heard fs ms) = []"

fun closing :: "crossing \<Rightarrow> (side \<times> int option) list" where
  "closing (Wrote c s fs ms dead) = map (\<lambda>f. (Sent, fr_close_code f)) (filter fr_close fs)"
| "closing (Heard fs ms) = map (\<lambda>f. (Received, fr_close_code f)) (filter fr_close fs)"

definition all_of :: "(crossing \<Rightarrow> 'a list) \<Rightarrow> crossing list \<Rightarrow> 'a list" where
  "all_of f h = concat (map f h)"

lemma all_of_simps [simp]: "all_of f [] = []" "all_of f (h @ [e]) = all_of f h @ f e"
  by (simp_all add: all_of_def)

definition payload :: "frame list \<Rightarrow> int" where
  "payload fs = sum_list (map fr_payload_len fs)"

definition sampled :: "int \<Rightarrow> bytes list \<Rightarrow> bytes" where
  "sampled cap ms = take (nat cap) (concat ms)"

section \<open>The parts of a step\<close>

lemma count_frames_eq:
  "count_frames fs sd t = (payload fs,
     t\<lparr>ws_close_code := (if ws_close_from t = [] \<and> filter fr_close fs \<noteq> []
                         then fr_close_code (hd (filter fr_close fs)) else ws_close_code t),
       ws_close_from := (if filter fr_close fs = [] then ws_close_from t
                         else List.insert sd (ws_close_from t))\<rparr>)"
proof (induction fs arbitrary: t)
  case Nil
  then show ?case by (simp add: payload_def)
next
  case (Cons f fs)
  then show ?case by (auto simp: payload_def Let_def List.insert_def split: if_splits)
qed

lemma append_sample_whole:
  assumes "int (length buf) \<le> max cap 0"
  shows "snd (append_sample cap buf ms) = take (nat cap) (buf @ concat ms) \<and>
    (cap < int (length (buf @ concat ms)) \<and> ms \<noteq> [] \<longrightarrow> fst (append_sample cap buf ms)) \<and>
    (fst (append_sample cap buf ms) \<longrightarrow> cap \<le> int (length (buf @ concat ms)))"
  using assms
proof (induction cap buf ms rule: append_sample.induct)
  case (1 cap buf)
  then show ?case by auto
next
  case (2 cap buf m ms)
  let ?room = "cap - int (length buf)"
  consider (full) "?room \<le> 0" | (over) "0 < ?room" "?room < int (length m)" | (fits) "0 < ?room" "int (length m) \<le> ?room"
    by linarith
  then show ?case
  proof cases
    case full
    then have "length buf = nat cap" using 2(3) by linarith
    with full show ?thesis by (simp add: Let_def)
  next
    case over
    then have room: "nat ?room = nat cap - length buf" "\<not> ?room \<le> 0" by linarith+
    have "snd (append_sample cap (buf @ take (nat ?room) m) ms) = take (nat cap) ((buf @ take (nat ?room) m) @ concat ms)"
      using 2(1) [OF refl room(2) over(2)] over 2(3) by force
    also have "\<dots> = take (nat cap) (buf @ m @ concat ms)"
      using over by (simp add: room min_def)
    finally show ?thesis using over by (simp add: Let_def)
  next
    case fits
    then have n: "\<not> ?room \<le> 0" "\<not> ?room < int (length m)" by linarith+
    then have "int (length (buf @ m)) \<le> max cap 0" by simp
    from 2(2) [OF refl n this] show ?thesis
      using n by (cases ms) (auto simp: Let_def)
  qed
qed

lemma append_sample_next:
  assumes "buf = sampled cap ms" "append_sample cap buf ms' = (full, buf')"
  shows "buf' = sampled cap (ms @ ms') \<and>
    (ms' \<noteq> [] \<and> cap < int (length (concat (ms @ ms'))) \<longrightarrow> full) \<and>
    (full \<longrightarrow> cap \<le> int (length (concat (ms @ ms'))))"
proof -
  have b: "int (length buf) \<le> max cap 0" by (simp add: assms(1) sampled_def)
  have "take (nat cap) (buf @ concat ms') = sampled cap (ms @ ms')"
    by (cases "length (concat ms) \<le> nat cap") (simp_all add: assms(1) sampled_def)
  moreover have "length (buf @ concat ms') \<le> length (concat (ms @ ms'))"
    by (simp add: assms(1) sampled_def)
  moreover have "cap < int (length (concat (ms @ ms'))) \<and> ms' \<noteq> [] \<longrightarrow> full"
  proof (cases "length (concat ms) < nat cap")
    case True
    then show ?thesis
      using append_sample_whole [OF b, of ms'] assms by (simp add: sampled_def)
  next
    case False
    then have "cap - int (length buf) \<le> 0" by (simp add: assms(1) sampled_def)
    then show ?thesis using assms(2) by (cases ms') (auto simp: Let_def)
  qed
  ultimately show ?thesis
    using append_sample_whole [OF b, of ms'] assms(2) by fastforce
qed

section \<open>Every run of a tracker\<close>

text \<open>Each session is noted with the length of the history it was emitted at.\<close>

definition noted_at :: "crossing list \<Rightarrow> session list \<Rightarrow> (nat \<times> session) list" where
  "noted_at h xs = map (Pair (length h)) xs"

inductive ws_run ::
  "'w frame_parser \<Rightarrow> 'w ws_tracker \<Rightarrow> crossing list \<Rightarrow> (nat \<times> session) list \<Rightarrow> 'w ws_tracker \<Rightarrow> bool" for fp t0 where
  Opened: "ws_run fp t0 [] [] t0"
| Write: "ws_run fp t0 h out t \<Longrightarrow> fp_feed fp data (ws_sent t) = (fs, ms, p) \<Longrightarrow>
    ws_request_bytes fp now c s data t = (xs, t') \<Longrightarrow>
    ws_run fp t0 (h @ [Wrote c s fs ms (fp_disabled fp p)]) (out @ noted_at (h @ [Wrote c s fs ms (fp_disabled fp p)]) xs) t'"
| Read: "ws_run fp t0 h out t \<Longrightarrow> fp_feed fp data (ws_recv t) = (fs, ms, p) \<Longrightarrow>
    ws_response_bytes fp now data t = (xs, t') \<Longrightarrow> 
    ws_run fp t0 (h @ [Heard fs ms]) (out @ noted_at (h @ [Heard fs ms]) xs) t'"
| Ended: "ws_run fp t0 h out t \<Longrightarrow> ws_flush fp now marker t = (xs, t') \<Longrightarrow> ws_run fp t0 h (out @ noted_at h xs) t'"

definition named :: "conversation option \<Rightarrow> crossing list \<Rightarrow> conversation option" where
  "named conv h = (if \<exists>w \<in> set (all_of issued_under h). fst w \<noteq> conv then None else conv)"

definition issued_as :: "scope_snapshot \<Rightarrow> crossing list \<Rightarrow> scope_snapshot" where
  "issued_as snap h =
     (if \<exists>w \<in> set (all_of issued_under h). \<not> same_issuer snap (snd w) then UNKNOWN_ISSUER else snap)"

definition sides_closed :: "crossing list \<Rightarrow> side set" where
  "sides_closed h = fst ` set (all_of closing h)"

definition first_close_code :: "crossing list \<Rightarrow> int option" where
  "first_close_code h = (case all_of closing h of [] \<Rightarrow> None | c # _ \<Rightarrow> snd c)"

definition lossless :: "int \<Rightarrow> bytes list \<Rightarrow> bool \<Rightarrow> bool" where
  "lossless cap ms flag \<longleftrightarrow>
     (cap < int (length (concat ms)) \<longrightarrow> flag) \<and> (flag \<longrightarrow> cap \<le> int (length (concat ms)))"

text \<open>What the tracker knows of the history: what stays, what it counts, what it samples, whom it
  names, and how the closing and the call stand.\<close>

definition same_session :: "'w ws_tracker \<Rightarrow> 'w ws_tracker \<Rightarrow> bool" where
  "same_session t0 t \<longleftrightarrow> ws_path t = ws_path t0 \<and> ws_target t = ws_target t0 \<and> ws_parent t = ws_parent t0 \<and>
     ws_parent_closed t = ws_parent_closed t0 \<and> ws_start_ns t = ws_start_ns t0 \<and>
     ws_sample_cap t = ws_sample_cap t0 \<and> ws_deflate t = ws_deflate t0"

definition counts_ok :: "crossing list \<Rightarrow> 'w ws_tracker \<Rightarrow> bool" where
  "counts_ok h t \<longleftrightarrow>
     ws_sent_msgs t = length (all_of wrote_messages h) \<and>
     ws_recv_msgs t = length (all_of heard_messages h) \<and>
     ws_sent_bytes t = payload (all_of wrote_frames h) \<and>
     ws_recv_bytes t = payload (all_of heard_frames h)"

definition samples_ok :: "int \<Rightarrow> crossing list \<Rightarrow> 'w ws_tracker \<Rightarrow> bool" where
  "samples_ok cap h t \<longleftrightarrow>
     ws_sample_in t = sampled cap (all_of wrote_messages h) \<and>
     ws_sample_out t = sampled cap (all_of heard_messages h) \<and>
     lossless cap (all_of wrote_messages h) (ws_in_trunc t) \<and>
     lossless cap (all_of heard_messages h) (ws_out_trunc t)"

definition identity_ok :: "'w ws_tracker \<Rightarrow> crossing list \<Rightarrow> 'w ws_tracker \<Rightarrow> bool" where
  "identity_ok t0 h t \<longleftrightarrow>
     ws_conversation t = named (ws_conversation t0) h \<and> ws_scope t = issued_as (ws_scope t0) h"

definition closing_ok :: "crossing list \<Rightarrow> 'w ws_tracker \<Rightarrow> bool" where
  "closing_ok h t \<longleftrightarrow>
     set (ws_close_from t) = sides_closed h \<and> distinct (ws_close_from t) \<and>
     ws_close_code t = first_close_code h"

definition call_ok :: "'w ws_tracker \<Rightarrow> crossing list \<Rightarrow> 'w ws_tracker \<Rightarrow> bool" where
  "call_ok t0 h t \<longleftrightarrow>
     ws_llm_upgrade t = (if all_of issued_under h = [] then ws_llm_upgrade t0 else None) \<and>
     \<not> (ws_llm_call t \<and> ws_llm_unconfirmed t) \<and>
     (ws_llm_call t \<or> ws_llm_unconfirmed t \<longleftrightarrow> ws_llm_upgrade t0 \<noteq> None \<and> all_of issued_under h \<noteq> [])"

definition ws_ok :: "'w ws_tracker \<Rightarrow> crossing list \<Rightarrow> 'w ws_tracker \<Rightarrow> bool" where
  "ws_ok t0 h t \<longleftrightarrow> same_session t0 t \<and> counts_ok h t \<and> samples_ok (ws_sample_cap t0) h t \<and>
     identity_ok t0 h t \<and> closing_ok h t \<and> call_ok t0 h t"

lemmas ws_parts = same_session_def counts_ok_def samples_ok_def identity_ok_def closing_ok_def call_ok_def

definition fresh_session :: "'w ws_tracker \<Rightarrow> bool" where
  "fresh_session t \<longleftrightarrow> ws_sent_msgs t = 0 \<and> ws_recv_msgs t = 0 \<and> ws_sent_bytes t = 0 \<and> ws_recv_bytes t = 0 \<and>
     ws_sample_in t = [] \<and> ws_sample_out t = [] \<and> \<not> ws_in_trunc t \<and> \<not> ws_out_trunc t \<and>
     ws_close_code t = None \<and> ws_close_from t = [] \<and> \<not> ws_llm_call t \<and> \<not> ws_llm_unconfirmed t \<and>
     \<not> ws_emitted t \<and> 0 \<le> ws_sample_cap t"

lemma new_is_fresh:
  assumes "0 \<le> (case sample_cap of None \<Rightarrow> core_cap | Some c \<Rightarrow> c)"
  shows "fresh_session (new_ws_tracker fp path deflate parent start closed_before sample_cap core_cap llm conv snap)"
  using assms by (simp add: fresh_session_def new_ws_tracker_def)

lemma fresh_ok: "fresh_session t \<Longrightarrow> ws_ok t [] t"
  by (simp add: fresh_session_def ws_ok_def ws_parts payload_def sampled_def lossless_def named_def issued_as_def
      sides_closed_def first_close_code_def)

section \<open>One step\<close>

lemma payload_append: "payload (a @ b) = payload a + payload b"
  by (simp add: payload_def)

lemma sample_next: "snd (append_sample cap (sampled cap ms) ms') = sampled cap (ms @ ms')"
  using append_sample_next [OF refl, of cap ms ms'] by (simp add: prod_eq_iff)

lemma lossless_next:
  assumes "lossless cap ms flag"
  shows "lossless cap (ms @ ms') (fst (append_sample cap (sampled cap ms) ms') \<or> flag)"
proof -
  obtain full buf' where a: "append_sample cap (sampled cap ms) ms' = (full, buf')" by fastforce
  have "length (concat ms) \<le> length (concat (ms @ ms'))" by simp
  then show ?thesis
    using append_sample_next [OF refl a] a assms by (cases "ms' = []") (auto simp: lossless_def)
qed

lemma closing_first:
  "first_close_code (h @ [e]) =
   (if all_of closing h = [] then (case closing e of [] \<Rightarrow> None | c # _ \<Rightarrow> snd c) else first_close_code h)"
  by (cases "all_of closing h") (simp_all add: first_close_code_def)

lemma sides_closed_next: "sides_closed (h @ [e]) = sides_closed h \<union> fst ` set (closing e)"
  by (simp add: sides_closed_def image_Un)

section \<open>The stages of a step\<close>

lemma count_sent_fields [simp]:
  "ws_llm_upgrade (count_sent fs ms p t) = ws_llm_upgrade t"
  "ws_llm_call (count_sent fs ms p t) = ws_llm_call t"
  "ws_llm_unconfirmed (count_sent fs ms p t) = ws_llm_unconfirmed t"
  "ws_path (count_sent fs ms p t) = ws_path t"
  "ws_target (count_sent fs ms p t) = ws_target t"
  "ws_deflate (count_sent fs ms p t) = ws_deflate t"
  "ws_parent (count_sent fs ms p t) = ws_parent t"
  "ws_parent_closed (count_sent fs ms p t) = ws_parent_closed t"
  "ws_conversation (count_sent fs ms p t) = ws_conversation t"
  "ws_scope (count_sent fs ms p t) = ws_scope t"
  "ws_start_ns (count_sent fs ms p t) = ws_start_ns t"
  "ws_sample_cap (count_sent fs ms p t) = ws_sample_cap t"
  "ws_sent_msgs (count_sent fs ms p t) = ws_sent_msgs t + length ms"
  "ws_recv_msgs (count_sent fs ms p t) = ws_recv_msgs t"
  "ws_sent_bytes (count_sent fs ms p t) = ws_sent_bytes t + payload fs"
  "ws_recv_bytes (count_sent fs ms p t) = ws_recv_bytes t"
  "ws_sample_in (count_sent fs ms p t) = ws_sample_in t"
  "ws_sample_out (count_sent fs ms p t) = ws_sample_out t"
  "ws_in_trunc (count_sent fs ms p t) = ws_in_trunc t"
  "ws_out_trunc (count_sent fs ms p t) = ws_out_trunc t"
  "ws_close_code (count_sent fs ms p t) = (if ws_close_from t = [] \<and> filter fr_close fs \<noteq> []
     then fr_close_code (hd (filter fr_close fs)) else ws_close_code t)"
  "ws_close_from (count_sent fs ms p t) = (if filter fr_close fs = [] then ws_close_from t else List.insert Sent (ws_close_from t))"
  "ws_emitted (count_sent fs ms p t) = ws_emitted t"
  by (simp_all add: count_sent_def count_frames_eq)

lemma count_received_fields [simp]:
  "ws_llm_upgrade (count_received fs ms p t) = ws_llm_upgrade t"
  "ws_llm_call (count_received fs ms p t) = ws_llm_call t"
  "ws_llm_unconfirmed (count_received fs ms p t) = ws_llm_unconfirmed t"
  "ws_path (count_received fs ms p t) = ws_path t"
  "ws_target (count_received fs ms p t) = ws_target t"
  "ws_deflate (count_received fs ms p t) = ws_deflate t"
  "ws_parent (count_received fs ms p t) = ws_parent t"
  "ws_parent_closed (count_received fs ms p t) = ws_parent_closed t"
  "ws_conversation (count_received fs ms p t) = ws_conversation t"
  "ws_scope (count_received fs ms p t) = ws_scope t"
  "ws_start_ns (count_received fs ms p t) = ws_start_ns t"
  "ws_sample_cap (count_received fs ms p t) = ws_sample_cap t"
  "ws_sent_msgs (count_received fs ms p t) = ws_sent_msgs t"
  "ws_recv_msgs (count_received fs ms p t) = ws_recv_msgs t + length ms"
  "ws_sent_bytes (count_received fs ms p t) = ws_sent_bytes t"
  "ws_recv_bytes (count_received fs ms p t) = ws_recv_bytes t + payload fs"
  "ws_sample_in (count_received fs ms p t) = ws_sample_in t"
  "ws_sample_out (count_received fs ms p t) = ws_sample_out t"
  "ws_in_trunc (count_received fs ms p t) = ws_in_trunc t"
  "ws_out_trunc (count_received fs ms p t) = ws_out_trunc t"
  "ws_close_code (count_received fs ms p t) = (if ws_close_from t = [] \<and> filter fr_close fs \<noteq> []
     then fr_close_code (hd (filter fr_close fs)) else ws_close_code t)"
  "ws_close_from (count_received fs ms p t) = (if filter fr_close fs = [] then ws_close_from t else List.insert Received (ws_close_from t))"
  "ws_emitted (count_received fs ms p t) = ws_emitted t"
  by (simp_all add: count_received_def count_frames_eq)

lemma settle_identity_fields [simp]:
  "ws_llm_upgrade (settle_identity dead c s ms t) = ws_llm_upgrade t"
  "ws_llm_call (settle_identity dead c s ms t) = ws_llm_call t"
  "ws_llm_unconfirmed (settle_identity dead c s ms t) = ws_llm_unconfirmed t"
  "ws_path (settle_identity dead c s ms t) = ws_path t"
  "ws_target (settle_identity dead c s ms t) = ws_target t"
  "ws_deflate (settle_identity dead c s ms t) = ws_deflate t"
  "ws_parent (settle_identity dead c s ms t) = ws_parent t"
  "ws_parent_closed (settle_identity dead c s ms t) = ws_parent_closed t"
  "ws_conversation (settle_identity dead c s ms t) = (if (ms \<noteq> [] \<or> dead) \<and> ws_conversation t \<noteq> None \<and> c \<noteq> ws_conversation t then None
     else ws_conversation t)"
  "ws_scope (settle_identity dead c s ms t) = (if (ms \<noteq> [] \<or> dead) \<and> ws_scope t \<noteq> UNKNOWN_ISSUER \<and> \<not> same_issuer (ws_scope t) s then UNKNOWN_ISSUER
     else ws_scope t)"
  "ws_start_ns (settle_identity dead c s ms t) = ws_start_ns t"
  "ws_sample_cap (settle_identity dead c s ms t) = ws_sample_cap t"
  "ws_sent_msgs (settle_identity dead c s ms t) = ws_sent_msgs t"
  "ws_recv_msgs (settle_identity dead c s ms t) = ws_recv_msgs t"
  "ws_sent_bytes (settle_identity dead c s ms t) = ws_sent_bytes t"
  "ws_recv_bytes (settle_identity dead c s ms t) = ws_recv_bytes t"
  "ws_sample_in (settle_identity dead c s ms t) = ws_sample_in t"
  "ws_sample_out (settle_identity dead c s ms t) = ws_sample_out t"
  "ws_in_trunc (settle_identity dead c s ms t) = ws_in_trunc t"
  "ws_out_trunc (settle_identity dead c s ms t) = ws_out_trunc t"
  "ws_close_code (settle_identity dead c s ms t) = ws_close_code t"
  "ws_close_from (settle_identity dead c s ms t) = ws_close_from t"
  "ws_emitted (settle_identity dead c s ms t) = ws_emitted t"
  by (auto simp: settle_identity_def narrow_identity_def)

lemma settle_llm_fields [simp]:
  "ws_path (settle_llm dead ms t) = ws_path t"
  "ws_target (settle_llm dead ms t) = ws_target t"
  "ws_deflate (settle_llm dead ms t) = ws_deflate t"
  "ws_parent (settle_llm dead ms t) = ws_parent t"
  "ws_parent_closed (settle_llm dead ms t) = ws_parent_closed t"
  "ws_conversation (settle_llm dead ms t) = ws_conversation t"
  "ws_scope (settle_llm dead ms t) = ws_scope t"
  "ws_start_ns (settle_llm dead ms t) = ws_start_ns t"
  "ws_sample_cap (settle_llm dead ms t) = ws_sample_cap t"
  "ws_sent_msgs (settle_llm dead ms t) = ws_sent_msgs t"
  "ws_recv_msgs (settle_llm dead ms t) = ws_recv_msgs t"
  "ws_sent_bytes (settle_llm dead ms t) = ws_sent_bytes t"
  "ws_recv_bytes (settle_llm dead ms t) = ws_recv_bytes t"
  "ws_sample_in (settle_llm dead ms t) = ws_sample_in t"
  "ws_sample_out (settle_llm dead ms t) = ws_sample_out t"
  "ws_in_trunc (settle_llm dead ms t) = ws_in_trunc t"
  "ws_out_trunc (settle_llm dead ms t) = ws_out_trunc t"
  "ws_close_code (settle_llm dead ms t) = ws_close_code t"
  "ws_close_from (settle_llm dead ms t) = ws_close_from t"
  "ws_emitted (settle_llm dead ms t) = ws_emitted t"
  by (simp_all add: settle_llm_def decide_llm_def split: list.splits)

lemma sample_sent_fields [simp]:
  "ws_llm_upgrade (sample_sent ms t) = ws_llm_upgrade t"
  "ws_llm_call (sample_sent ms t) = ws_llm_call t"
  "ws_llm_unconfirmed (sample_sent ms t) = ws_llm_unconfirmed t"
  "ws_path (sample_sent ms t) = ws_path t"
  "ws_target (sample_sent ms t) = ws_target t"
  "ws_deflate (sample_sent ms t) = ws_deflate t"
  "ws_parent (sample_sent ms t) = ws_parent t"
  "ws_parent_closed (sample_sent ms t) = ws_parent_closed t"
  "ws_conversation (sample_sent ms t) = ws_conversation t"
  "ws_scope (sample_sent ms t) = ws_scope t"
  "ws_start_ns (sample_sent ms t) = ws_start_ns t"
  "ws_sample_cap (sample_sent ms t) = ws_sample_cap t"
  "ws_sent_msgs (sample_sent ms t) = ws_sent_msgs t"
  "ws_recv_msgs (sample_sent ms t) = ws_recv_msgs t"
  "ws_sent_bytes (sample_sent ms t) = ws_sent_bytes t"
  "ws_recv_bytes (sample_sent ms t) = ws_recv_bytes t"
  "ws_sample_in (sample_sent ms t) = snd (append_sample (ws_sample_cap t) (ws_sample_in t) ms)"
  "ws_sample_out (sample_sent ms t) = ws_sample_out t"
  "ws_in_trunc (sample_sent ms t) = (fst (append_sample (ws_sample_cap t) (ws_sample_in t) ms) \<or> ws_in_trunc t)"
  "ws_out_trunc (sample_sent ms t) = ws_out_trunc t"
  "ws_close_code (sample_sent ms t) = ws_close_code t"
  "ws_close_from (sample_sent ms t) = ws_close_from t"
  "ws_emitted (sample_sent ms t) = ws_emitted t"
  by (simp_all add: sample_sent_def case_prod_unfold)

lemma sample_received_fields [simp]:
  "ws_llm_upgrade (sample_received ms t) = ws_llm_upgrade t"
  "ws_llm_call (sample_received ms t) = ws_llm_call t"
  "ws_llm_unconfirmed (sample_received ms t) = ws_llm_unconfirmed t"
  "ws_path (sample_received ms t) = ws_path t"
  "ws_target (sample_received ms t) = ws_target t"
  "ws_deflate (sample_received ms t) = ws_deflate t"
  "ws_parent (sample_received ms t) = ws_parent t"
  "ws_parent_closed (sample_received ms t) = ws_parent_closed t"
  "ws_conversation (sample_received ms t) = ws_conversation t"
  "ws_scope (sample_received ms t) = ws_scope t"
  "ws_start_ns (sample_received ms t) = ws_start_ns t"
  "ws_sample_cap (sample_received ms t) = ws_sample_cap t"
  "ws_sent_msgs (sample_received ms t) = ws_sent_msgs t"
  "ws_recv_msgs (sample_received ms t) = ws_recv_msgs t"
  "ws_sent_bytes (sample_received ms t) = ws_sent_bytes t"
  "ws_recv_bytes (sample_received ms t) = ws_recv_bytes t"
  "ws_sample_in (sample_received ms t) = ws_sample_in t"
  "ws_sample_out (sample_received ms t) = snd (append_sample (ws_sample_cap t) (ws_sample_out t) ms)"
  "ws_in_trunc (sample_received ms t) = ws_in_trunc t"
  "ws_out_trunc (sample_received ms t) = (fst (append_sample (ws_sample_cap t) (ws_sample_out t) ms) \<or> ws_out_trunc t)"
  "ws_close_code (sample_received ms t) = ws_close_code t"
  "ws_close_from (sample_received ms t) = ws_close_from t"
  "ws_emitted (sample_received ms t) = ws_emitted t"
  by (simp_all add: sample_received_def case_prod_unfold)

section \<open>Every step keeps the account\<close>

lemma named_next:
  "named conv (h @ [e]) = (if named conv h \<noteq> None \<and> (\<exists>w \<in> set (issued_under e). fst w \<noteq> named conv h)
                           then None else named conv h)"
  by (auto simp: named_def)

lemma issued_as_next:
  "issued_as snap (h @ [e]) =
   (if issued_as snap h \<noteq> UNKNOWN_ISSUER \<and> (\<exists>w \<in> set (issued_under e). \<not> same_issuer (issued_as snap h) (snd w))
    then UNKNOWN_ISSUER else issued_as snap h)"
  by (auto simp: issued_as_def)

lemma all_closing_empty: "all_of closing h = [] \<longleftrightarrow> sides_closed h = {}"
  by (simp add: sides_closed_def)

lemma closing_next:
  assumes "closing_ok h t"
    and "closing e = map (\<lambda>f. (sd, fr_close_code f)) (filter fr_close fs)"
    and "ws_close_code t' = (if ws_close_from t = [] \<and> filter fr_close fs \<noteq> []
           then fr_close_code (hd (filter fr_close fs)) else ws_close_code t)"
    and "ws_close_from t' = (if filter fr_close fs = [] then ws_close_from t else List.insert sd (ws_close_from t))"
  shows "closing_ok (h @ [e]) t'"
proof -
  have none: "all_of closing h = [] \<longleftrightarrow> ws_close_from t = []"
    using assms(1) by (metis all_closing_empty closing_ok_def set_empty)
  have code: "ws_close_from t = [] \<Longrightarrow> ws_close_code t = None"
    using assms(1) none by (simp add: closing_ok_def first_close_code_def)
  show ?thesis
  proof (cases "filter fr_close fs")
    case Nil
    then show ?thesis
      using assms none code
      by (cases "ws_close_from t = []")
         (simp_all add: closing_ok_def sides_closed_def first_close_code_def image_Un split: list.splits)
  next
    case (Cons f fs')
    have "sides_closed (h @ [e]) = insert sd (sides_closed h)"
      using assms(2) by (auto simp: sides_closed_def Cons)
    moreover have "first_close_code (h @ [e]) =
        (if ws_close_from t = [] then fr_close_code f else first_close_code h)"
      using none by (simp add: closing_first assms(2) Cons)
    ultimately show ?thesis
      using assms(1,3,4) by (simp add: closing_ok_def Cons)
  qed
qed

lemma settle_llm_call:
  assumes "call_ok t0 h t" "ws_llm_call t1 = ws_llm_call t" "ws_llm_unconfirmed t1 = ws_llm_unconfirmed t"
    and "ws_llm_upgrade t1 = ws_llm_upgrade t"
  shows "call_ok t0 (h @ [Wrote c s fs ms dead]) (settle_llm dead ms t1)"
  using assms
  by (cases "ws_llm_upgrade t0")
     (auto simp: call_ok_def settle_llm_def decide_llm_def Let_def split: list.splits if_splits)

lemma after_write:
  assumes "ws_ok t0 h t"
  shows "ws_ok t0 (h @ [Wrote c s fs ms dead])
    (sample_sent ms (settle_llm dead ms (settle_identity dead c s ms (count_sent fs ms p t))))"
proof -
  let ?t1 = "settle_identity dead c s ms (count_sent fs ms p t)"
  let ?t2 = "settle_llm dead ms ?t1" let ?t' = "sample_sent ms ?t2" let ?h = "h @ [Wrote c s fs ms dead]"
  have ok: "same_session t0 t" "counts_ok h t" "samples_ok (ws_sample_cap t0) h t" "identity_ok t0 h t"
    "closing_ok h t" "call_ok t0 h t"
    using assms by (simp_all add: ws_ok_def)
  have "same_session t0 ?t'" using ok(1) by (simp add: same_session_def)
  moreover have "counts_ok ?h ?t'" using ok(2) by (simp add: counts_ok_def payload_append)
  moreover have "samples_ok (ws_sample_cap t0) ?h ?t'"
    using ok(1,3) by (simp add: samples_ok_def same_session_def sample_next lossless_next)
  moreover have "identity_ok t0 ?h ?t'"
    using ok(4) by (simp add: identity_ok_def named_next issued_as_next)
  moreover have "closing_ok ?h ?t'"
    by (rule closing_next [OF ok(5)]) simp_all
  moreover have "call_ok t0 ?h ?t2" by (rule settle_llm_call [OF ok(6)]) simp_all
  then have "call_ok t0 ?h ?t'" by (simp add: call_ok_def)
  ultimately show ?thesis by (simp add: ws_ok_def)
qed

lemma after_read:
  assumes "ws_ok t0 h t"
  shows "ws_ok t0 (h @ [Heard fs ms]) (sample_received ms (count_received fs ms p t))"
proof -
  let ?t' = "sample_received ms (count_received fs ms p t)" let ?h = "h @ [Heard fs ms]"
  have ok: "same_session t0 t" "counts_ok h t" "samples_ok (ws_sample_cap t0) h t" "identity_ok t0 h t"
    "closing_ok h t" "call_ok t0 h t"
    using assms by (simp_all add: ws_ok_def)
  have "same_session t0 ?t'" using ok(1) by (simp add: same_session_def)
  moreover have "counts_ok ?h ?t'" using ok(2) by (simp add: counts_ok_def payload_append)
  moreover have "samples_ok (ws_sample_cap t0) ?h ?t'"
    using ok(1,3) by (simp add: samples_ok_def same_session_def sample_next lossless_next)
  moreover have "identity_ok t0 ?h ?t'"
    using ok(4) by (simp add: identity_ok_def named_next issued_as_next)
  moreover have "closing_ok ?h ?t'"
    by (rule closing_next [OF ok(5)]) simp_all
  moreover have "call_ok t0 ?h ?t'" using ok(6) by (simp add: call_ok_def)
  ultimately show ?thesis by (simp add: ws_ok_def)
qed

lemma emitted_ok: "ws_ok t0 h (t\<lparr>ws_emitted := b\<rparr>) = ws_ok t0 h t"
  by (simp add: ws_ok_def ws_parts)

section \<open>What a session says\<close>

definition tells :: "'w ws_tracker \<Rightarrow> crossing list \<Rightarrow> session \<Rightarrow> bool" where
  "tells t0 h x \<longleftrightarrow>
     tx_target x = ws_target t0 \<and> tx_parent x = ws_parent t0 \<and> tx_start_ns x = ws_start_ns t0 \<and>
     se_messages_sent x = length (all_of wrote_messages h) \<and>
     se_messages_received x = length (all_of heard_messages h) \<and>
     se_bytes_sent x = payload (all_of wrote_frames h) \<and>
     se_bytes_received x = payload (all_of heard_frames h) \<and>
     tx_request_body x = sampled (ws_sample_cap t0) (all_of wrote_messages h) \<and>
     tx_response_body x = sampled (ws_sample_cap t0) (all_of heard_messages h) \<and>
     (ws_sample_cap t0 < int (length (concat (all_of wrote_messages h))) \<or>
      ws_sample_cap t0 < int (length (concat (all_of heard_messages h))) \<longrightarrow>
        WS_PAYLOAD_TRUNCATED \<in> set (se_markers x)) \<and>
     tx_conversation x = named (ws_conversation t0) h \<and> tx_scope x = issued_as (ws_scope t0) h \<and>
     se_close_code x = first_close_code h \<and>
     (WS_NO_CLOSE \<in> set (se_markers x) \<longrightarrow> sides_closed h = {}) \<and>
     \<not> (se_llm_call x \<and> se_llm_unconfirmed x) \<and>
     (se_llm_call x \<or> se_llm_unconfirmed x \<longleftrightarrow> ws_llm_upgrade t0 \<noteq> None \<and> all_of issued_under h \<noteq> [])"

lemma build_session_fields:
  fixes fp now extra and t :: "'w ws_tracker"
  defines "x \<equiv> fst (build_session fp now extra t)"
  shows "tx_target x = ws_target t" "tx_parent x = ws_parent t" "tx_start_ns x = ws_start_ns t"
    "se_messages_sent x = ws_sent_msgs t" "se_messages_received x = ws_recv_msgs t"
    "se_bytes_sent x = ws_sent_bytes t" "se_bytes_received x = ws_recv_bytes t"
    "tx_request_body x = ws_sample_in t" "tx_response_body x = ws_sample_out t"
    "tx_conversation x = ws_conversation t" "tx_scope x = ws_scope t" "se_close_code x = ws_close_code t"
    "se_llm_call x = ws_llm_call t" "se_llm_unconfirmed x = ws_llm_unconfirmed t"
    "WS_PAYLOAD_TRUNCATED \<in> set (se_markers x) \<longleftrightarrow>
       WS_PAYLOAD_TRUNCATED \<in> set extra \<or> ws_in_trunc t \<or> ws_out_trunc t"
    "WS_NO_CLOSE \<in> set (se_markers x) \<longleftrightarrow> WS_NO_CLOSE \<in> set extra"
  by (simp_all add: x_def build_session_def)

lemma build_session_state: "snd (build_session fp now extra t) = t\<lparr>ws_emitted := True\<rparr>"
  by (simp add: build_session_def)

lemma build_session_tells:
  assumes "ws_ok t0 h t" "WS_NO_CLOSE \<in> set extra \<longrightarrow> sides_closed h = {}"
  shows "tells t0 h (fst (build_session fp now extra t))"
  using assms unfolding tells_def build_session_fields
  by (auto simp: ws_ok_def ws_parts lossless_def)

lemma both_closed:
  assumes "closing_ok h t"
  shows "length (ws_close_from t) = 2 \<longleftrightarrow> sides_closed h = {Sent, Received}"
proof -
  have "length (ws_close_from t) = card (sides_closed h)"
    using assms by (metis closing_ok_def distinct_card)
  moreover have "x \<in> {Sent, Received}" for x by (cases x) simp_all
  then have "sides_closed h \<subseteq> {Sent, Received}" by blast
  then have "card (sides_closed h) = 2 \<longleftrightarrow> sides_closed h = {Sent, Received}"
    by (metis card_2_iff card_subset_eq finite.emptyI finite.insertI side.distinct(1))
  ultimately show ?thesis by simp
qed

definition run_ok :: "'w ws_tracker \<Rightarrow> crossing list \<Rightarrow> (nat \<times> session) list \<Rightarrow> 'w ws_tracker \<Rightarrow> bool" where
  "run_ok t0 h out t \<longleftrightarrow> ws_ok t0 h t \<and> length out = (if ws_emitted t then 1 else 0) \<and>
     list_all (\<lambda>(n, x). n \<le> length h \<and> tells t0 (take n h) x) out"

lemma maybe_emit_run:
  assumes "ws_ok t0 h' t1" "ws_emitted t1 = ws_emitted t" "run_ok t0 h out t" "prefix h h'"
    and "maybe_emit fp now t1 = (xs, t')"
  shows "run_ok t0 h' (out @ noted_at h' xs) t' \<and> (sides_closed h' = {Sent, Received} \<longrightarrow> ws_emitted t')"
proof -
  have older: "list_all (\<lambda>(n, x). n \<le> length h' \<and> tells t0 (take n h') x) out"
    using assms(3,4) by (auto simp: run_ok_def list_all_iff prefix_def)
  have iff: "length (ws_close_from t1) = 2 \<longleftrightarrow> sides_closed h' = {Sent, Received}"
    using assms(1) both_closed by (auto simp: ws_ok_def)
  show ?thesis
  proof (cases "length (ws_close_from t1) = 2 \<and> \<not> ws_emitted t1")
    case True
    then have r: "xs = [fst (build_session fp now [] t1)]" "t' = t1\<lparr>ws_emitted := True\<rparr>"
      using assms(5) by (auto simp: maybe_emit_def case_prod_unfold build_session_state)
    have "tells t0 h' (fst (build_session fp now [] t1))"
      by (rule build_session_tells [OF assms(1)]) simp
    then show ?thesis
      using True older assms(1-3) by (auto simp: run_ok_def r emitted_ok noted_at_def)
  next
    case False
    then have "xs = []" "t' = t1" using assms(5) by (auto simp: maybe_emit_def)
    then show ?thesis using False older iff assms(1-3) by (auto simp: run_ok_def noted_at_def)
  qed
qed

lemma flush_run:
  assumes "run_ok t0 h out t" "ws_flush fp now marker t = (xs, t')"
  shows "run_ok t0 h (out @ noted_at h xs) t' \<and> ws_emitted t'"
proof (cases "ws_emitted t")
  case True
  then show ?thesis using assms by (simp add: ws_flush_def noted_at_def)
next
  case False
  let ?extra = "if marker = WS_NO_CLOSE \<and> ws_close_from t \<noteq> [] then [] else [marker]"
  have ok: "ws_ok t0 h t" using assms(1) by (simp add: run_ok_def)
  then have "sides_closed h = set (ws_close_from t)" by (simp add: ws_ok_def closing_ok_def)
  then have t: "tells t0 h (fst (build_session fp now ?extra t))"
    by (intro build_session_tells [OF ok]) auto
  have "xs = [fst (build_session fp now ?extra t)]" "t' = t\<lparr>ws_emitted := True\<rparr>"
    using assms(2) False by (auto simp: ws_flush_def case_prod_unfold build_session_state)
  then show ?thesis using assms(1) False t by (auto simp: run_ok_def emitted_ok noted_at_def)
qed

lemma ws_run_ok:
  assumes "ws_run fp t0 h out t" "fresh_session t0"
  shows "run_ok t0 h out t \<and> (sides_closed h = {Sent, Received} \<longrightarrow> ws_emitted t)"
  using assms(1)
proof (induction rule: ws_run.induct)
  case Opened
  then show ?case
    using assms(2) fresh_ok [OF assms(2)] by (simp add: run_ok_def fresh_session_def sides_closed_def)
next
  case (Write h out t data fs ms p now c s xs t')
  then have run: "run_ok t0 h out t" and "ws_ok t0 h t" by (simp_all add: run_ok_def)
  have "maybe_emit fp now (sample_sent ms (settle_llm (fp_disabled fp p) ms
      (settle_identity (fp_disabled fp p) c s ms (count_sent fs ms p t)))) = (xs, t')"
    using Write.hyps(2,3) by (simp add: ws_request_bytes_def)
  from maybe_emit_run [OF after_write [OF \<open>ws_ok t0 h t\<close>] _ run _ this] show ?case by simp
next
  case (Read h out t data fs ms p now xs t')
  then have run: "run_ok t0 h out t" and "ws_ok t0 h t" by (simp_all add: run_ok_def)
  have "maybe_emit fp now (sample_received ms (count_received fs ms p t)) = (xs, t')"
    using Read.hyps(2,3) by (simp add: ws_response_bytes_def)
  from maybe_emit_run [OF after_read [OF \<open>ws_ok t0 h t\<close>] _ run _ this] show ?case by simp
next
  case (Ended h out t now marker xs t')
  then show ?case using flush_run by blast
qed

section \<open>Properties\<close>

definition demo_frames :: "nat frame_parser" where
  "demo_frames = \<lparr>fp_new = 0,
     fp_feed = (\<lambda>data n. ([\<lparr>fr_close = False, fr_close_code = None, fr_payload_len = int (length data)\<rparr>], [data], n)),
     fp_disabled = (\<lambda>n. False)\<rparr>"

definition demo_ws :: "nat ws_tracker" where
  "demo_ws = new_ws_tracker demo_frames [47] False None 5 False (Some 1) 9 None (Some 3) UNKNOWN_ISSUER"

text \<open>C22: a WebSocket session is told once, and as it was. Whatever was read, written and ended on a
  connection, at most one session is emitted, at the latest when both sides have closed or the
  tracker is flushed; it counts the messages and payload bytes of both directions, carries the
  sample of each cut at the cap and marked when anything is missing, the close code of the first
  Close frame, and the handshake's conversation and identity only if every write that completed a
  message was issued under them; it says that no Close frame crossed only when none did; and a
  recognised path is either a call or unconfirmed once a message was written, never both or
  neither.\<close>

theorem session_tells_what_crossed:
  assumes "ws_run fp t0 h out t" "0 \<le> (case sample_cap of None \<Rightarrow> core_cap | Some c \<Rightarrow> c)"
    and "t0 = new_ws_tracker fp path deflate parent start closed_before sample_cap core_cap llm conv snap"
  shows "length out \<le> 1 \<and> list_all (\<lambda>(n, x). n \<le> length h \<and> tells t0 (take n h) x) out \<and>
    (sides_closed h = {Sent, Received} \<longrightarrow> out \<noteq> []) \<and>
    (out = [] \<longrightarrow> (\<exists>x. fst (ws_flush fp now marker t) = [x] \<and> tells t0 h x)) \<and>
    (out \<noteq> [] \<longrightarrow> fst (ws_flush fp now marker t) = [])"
proof -
  have fresh: "fresh_session t0" using new_is_fresh [OF assms(2)] assms(3) by simp
  note ok = ws_run_ok [OF assms(1) fresh]
  then have len: "length out = (if ws_emitted t then 1 else 0)"
    and tell: "list_all (\<lambda>(n, x). n \<le> length h \<and> tells t0 (take n h) x) out"
    and both: "sides_closed h = {Sent, Received} \<longrightarrow> ws_emitted t" by (simp_all add: run_ok_def)
  have none: "fst (ws_flush fp now marker t) = []" if "ws_emitted t" using that by (simp add: ws_flush_def)
  have some: "\<exists>x. fst (ws_flush fp now marker t) = [x] \<and> tells t0 h x" if "\<not> ws_emitted t"
  proof -
    obtain xs t' where f: "ws_flush fp now marker t = (xs, t')" by fastforce
    then have "length xs = 1" using that by (auto simp: ws_flush_def case_prod_unfold)
    then obtain x where x: "xs = [x]" by (auto simp: length_Suc_conv)
    have "run_ok t0 h (out @ noted_at h xs) t'" using flush_run [OF _ f] ok by blast
    then have "tells t0 h x" by (simp add: run_ok_def x noted_at_def)
    with f x show ?thesis by simp
  qed
  show ?thesis using len tell both none some by (cases "ws_emitted t") auto
qed

theorem session_tells_what_crossed_witness:
  "\<exists>x. fst (ws_flush demo_frames 9 WS_NO_CLOSE (snd (ws_request_bytes demo_frames 8 None UNKNOWN_ISSUER [1, 2] demo_ws))) = [x] \<and>
     se_messages_sent x = 1 \<and> se_bytes_sent x = 2 \<and> tx_request_body x = [1] \<and>
     WS_PAYLOAD_TRUNCATED \<in> set (se_markers x) \<and> tx_conversation x = None"
proof -
  let ?h = "[Wrote None UNKNOWN_ISSUER [\<lparr>fr_close = False, fr_close_code = None, fr_payload_len = 2\<rparr>] [[1, 2]] False]"
  let ?t = "snd (ws_request_bytes demo_frames 8 None UNKNOWN_ISSUER [1, 2] demo_ws)"
  have quiet: "ws_request_bytes demo_frames 8 None UNKNOWN_ISSUER [1, 2] demo_ws = ([], ?t)"
    by (simp add: ws_request_bytes_def demo_frames_def maybe_emit_def demo_ws_def new_ws_tracker_def)
  have feed: "fp_feed demo_frames [1, 2] (ws_sent demo_ws) =
      ([\<lparr>fr_close = False, fr_close_code = None, fr_payload_len = 2\<rparr>], [[1, 2]], ws_sent demo_ws)"
    by (simp add: demo_frames_def)
  have dis: "fp_disabled demo_frames p = False" for p by (simp add: demo_frames_def)
  have "ws_run demo_frames demo_ws ?h [] ?t"
    using ws_run.Write [OF ws_run.Opened feed quiet] by (simp add: noted_at_def dis)
  then obtain x where x: "fst (ws_flush demo_frames 9 WS_NO_CLOSE ?t) = [x]" "tells demo_ws ?h x"
    using session_tells_what_crossed [OF _ _ demo_ws_def, of ?h "[]" ?t 9 WS_NO_CLOSE] by auto
  have w: "all_of wrote_messages ?h = [[1, 2]]" "payload (all_of wrote_frames ?h) = 2"
    "named (Some 3) ?h = None" by (simp_all add: all_of_def payload_def named_def)
  have p: "ws_sample_cap demo_ws = 1" "ws_conversation demo_ws = Some 3"
    by (simp_all add: demo_ws_def new_ws_tracker_def)
  have "se_messages_sent x = 1 \<and> se_bytes_sent x = 2 \<and> tx_request_body x = [1] \<and>
      WS_PAYLOAD_TRUNCATED \<in> set (se_markers x) \<and> tx_conversation x = None"
    using x(2) unfolding tells_def w p by (simp add: sampled_def)
  with x(1) show ?thesis by blast
qed

text \<open>The mark of a cut sample is not exact: an empty message after a sample that is exactly full is
  marked, though nothing is missing.\<close>

lemma empty_message_reads_as_cut:
  "int (length buf) = cap \<Longrightarrow> append_sample cap buf [[]] = (True, buf) \<and> buf @ concat [[]] = buf"
  by simp

end
