(* ===== verification/Transport.thy ===== *)
theory Transport
  imports Client Diag Streams
begin

text \<open>
  The two exporters, \<open>transport/_otlp_http.py\<close> and \<open>transport/_wardex.py\<close>, with the reports of
  \<open>transport/_base.py\<close>: what one batch becomes on the wire, under which deadline, and what is
  counted where it does not arrive.

  The native encoder, the clock and the receiver are arguments (\<open>otlp_world\<close>,
  \<open>wardex_world\<close>): the clock is read in order, and each POST ends well or in a \<open>failure\<close>, the
  exception as far as the code asks about it. Times are exact. Lines on stderr are the keys said
  once per process; debug lines are left out.
\<close>

section \<open>What a failed POST says\<close>

text \<open>An exception class, with what reading \<open>code\<close> and \<open>reason\<close> gives; None is a read that raises.\<close>

datatype reason_probe = No_reason | Reason_exception string bool | Reason_raises
datatype exc_kind = HTTP_error "int option" | URL_error | Value_error | Other_error

record failure =
  fa_kind :: exc_kind
  fa_type :: string
  fa_is_timeout :: bool
  fa_reason :: reason_probe

datatype failure_text = Http_status int | Type_name string | Unreadable

definition cut_short_by_the_caller :: "failure \<Rightarrow> transport_call \<Rightarrow> rat \<Rightarrow> rat \<Rightarrow> rat option" where
  "cut_short_by_the_caller exc call configured effective =
     (case call of
        Timed budget (Some requested) \<Rightarrow>
          if configured \<le> effective then None
          else if fa_is_timeout exc then Some requested
          else (case fa_reason exc of Reason_exception name True \<Rightarrow> Some requested | _ \<Rightarrow> None)
      | _ \<Rightarrow> None)"

definition classify_failure :: "failure \<Rightarrow> drop_reason \<times> bool" where
  "classify_failure exc =
     (case fa_kind exc of
        HTTP_error None \<Rightarrow> (R_SEND_UNCONFIRMED, False)
      | HTTP_error (Some status) \<Rightarrow>
          if status = 429 \<or> status = 503 then (R_RATELIMIT_BACKOFF, True)
          else if status = 413 then (R_REQUEST_TOO_LARGE, True)
          else if status = 502 \<or> status = 504 then (R_SEND_UNCONFIRMED, False)
          else (R_SEND_ERROR, True)
      | URL_error \<Rightarrow> (R_NETWORK_ERROR, True)
      | Value_error \<Rightarrow> (R_SEND_ERROR, True)
      | Other_error \<Rightarrow> (R_SEND_UNCONFIRMED, False))"

definition describe_failure :: "failure \<Rightarrow> failure_text \<times> int option" where
  "describe_failure exc =
     (case fa_kind exc of
        HTTP_error None \<Rightarrow> (Unreadable, None)
      | HTTP_error (Some status) \<Rightarrow> (Http_status status, Some status)
      | URL_error \<Rightarrow>
          (case fa_reason exc of
             Reason_raises \<Rightarrow> (Unreadable, None)
           | Reason_exception name _ \<Rightarrow> (Type_name name, None)
           | No_reason \<Rightarrow> (Type_name (fa_type exc), None))
      | _ \<Rightarrow> (Type_name (fa_type exc), None))"

section \<open>Counting\<close>

text \<open>What an export changes outside the client, and the requests it handed to \<open>urlopen\<close>, each with
  its timeout.\<close>

record exporting =
  xp_ledger :: ledger
  xp_counters :: counters
  xp_said :: "string list"
  xp_posts :: "(bytes \<times> rat) list"

definition say :: "string \<Rightarrow> exporting \<Rightarrow> exporting" where
  "say key s = s\<lparr>xp_said := snd (report_once key (xp_said s))\<rparr>"

definition bump_each :: "nat \<Rightarrow> string \<Rightarrow> exporting \<Rightarrow> exporting" where
  "bump_each n name s = s\<lparr>xp_counters := xp_counters s @ replicate n name\<rparr>"

definition lose ::
  "thread \<Rightarrow> drop_reason \<Rightarrow> int \<Rightarrow> drop_unit option \<Rightarrow> string option \<Rightarrow> exporting \<Rightarrow> exporting" where
  "lose me r n unit w s = s\<lparr>xp_ledger := record_drop me (reason_value r) n unit w (xp_ledger s)\<rparr>"

record encode_reports =
  er_unmarshalled :: "string list"
  er_overwritten :: nat
  er_payload_dropped :: nat
  er_pii_scrubbed :: nat
  er_over_cap :: nat

definition report_unmarshalled :: "thread \<Rightarrow> nat \<Rightarrow> string \<Rightarrow> exporting \<Rightarrow> exporting" where
  "report_unmarshalled me n key s =
     (if n = 0 then s else say key (lose me R_UNMARSHALLABLE (int n) None None (bump_each n key s)))"

definition report_reserved_overwritten :: "thread \<Rightarrow> nat \<Rightarrow> exporting \<Rightarrow> exporting" where
  "report_reserved_overwritten me n s =
     (if n = 0 then s
      else say ''transport.otlp.reserved_attribute_overwritten''
             (lose me R_ATTRIBUTE_DROPPED (int n) None None
               (bump_each n ''transport.otlp.reserved_attribute_overwritten'' s)))"

definition report_over_cap :: "thread \<Rightarrow> nat \<Rightarrow> exporting \<Rightarrow> exporting" where
  "report_over_cap me n s =
     (if n = 0 then s
      else say ''transport.otlp.span_over_request_cap'' (lose me R_REQUEST_TOO_LARGE (int n) None None s))"

definition report_payload_dropped :: "nat \<Rightarrow> exporting \<Rightarrow> exporting" where
  "report_payload_dropped n s =
     (if n = 0 then s
      else say ''transport.otlp.span_payload_dropped'' (bump_each n ''transport.otlp.span_payload_dropped'' s))"

definition report_pii_scrubbed :: "thread \<Rightarrow> nat \<Rightarrow> string \<Rightarrow> exporting \<Rightarrow> exporting" where
  "report_pii_scrubbed me n wire s =
     (let key = ''transport.'' @ wire @ ''.pii_scrubbed''
      in if n = 0 then s
         else say key (lose me R_INTERNAL_SDK_ERROR (int n) (Some U_SPAN) (Some key) (bump_each n key s)))"

definition report_encode :: "thread \<Rightarrow> encode_reports \<Rightarrow> exporting \<Rightarrow> exporting" where
  "report_encode me r s =
     report_over_cap me (er_over_cap r)
       (report_pii_scrubbed me (er_pii_scrubbed r) ''otlp''
         (report_payload_dropped (er_payload_dropped r)
           (report_reserved_overwritten me (er_overwritten r)
             (report_unmarshalled me (length (er_unmarshalled r)) ''transport.otlp.span_unmarshalled'' s))))"

text \<open>\<open>Transport.encode\<close>, the path a third-party transport takes: the reports are counted at once.\<close>

definition encode_batch ::
  "thread \<Rightarrow> (batch \<Rightarrow> (bytes list \<times> encode_reports) option) \<Rightarrow> batch \<Rightarrow> exporting \<Rightarrow>
   bytes list option \<times> exporting" where
  "encode_batch me enc e s =
     (case enc e of None \<Rightarrow> (None, s) | Some (bodies, reports) \<Rightarrow> (Some bodies, report_encode me reports s))"

definition report_export_failed :: "string \<Rightarrow> bool \<Rightarrow> exporting \<Rightarrow> exporting" where
  "report_export_failed counter hint s = say (if hint then counter @ '':credentials'' else counter) s"

definition narrowed :: "rat \<Rightarrow> transport_call \<Rightarrow> rat" where
  "narrowed configured call =
     (case call of Plain \<Rightarrow> configured | Timed budget _ \<Rightarrow> if budget < configured then budget else configured)"

section \<open>OTLP\<close>

record otlp_world =
  ow_native_ok :: bool
  ow_encode :: "batch \<Rightarrow> (bytes list \<times> encode_reports) option"
  ow_clock :: "nat \<Rightarrow> rat"
  ow_post :: "nat \<Rightarrow> failure option"

definition otlp_headers :: "bool \<Rightarrow> (py_text \<times> py_text) list \<Rightarrow> (py_text \<times> py_text) list" where
  "otlp_headers compress host =
     (let merged = fold (\<lambda>(k, v). AList.update k v) host
            [(str_lit ''Content-Type'', str_lit ''application/x-protobuf'')];
          own = filter (\<lambda>(k, v). ascii_lower k \<noteq> str_lit ''content-encoding'') merged
      in if compress then AList.update (str_lit ''Content-Encoding'') (str_lit ''gzip'') own else own)"

definition otlp_failed ::
  "thread \<Rightarrow> rat \<Rightarrow> batch \<Rightarrow> transport_call \<Rightarrow> rat \<Rightarrow> encode_reports \<Rightarrow> nat \<Rightarrow> nat \<Rightarrow> failure \<Rightarrow> exporting \<Rightarrow> exporting"
where
  "otlp_failed me configured e call effective reports all index exc s =
     (let s = bump_each 1 ''transport.otlp.export_failed'' s;
          (lost_as, definite) = classify_failure exc;
          s = (if already_unsent e (xp_ledger s) then s
               else if index \<noteq> 0 then lose me lost_as (int all - int index) (Some U_REQUEST) None s
               else lose me lost_as
                      (int (length (en_spans e)) - int (length (er_unmarshalled reports)) - int (er_over_cap reports))
                      None None s);
          s = s\<lparr>xp_ledger := snd (unsent me e definite False (record_failed_send me (xp_ledger s)))\<rparr>;
          s = (if cut_short_by_the_caller exc call configured effective \<noteq> None
               then say ''transport.otlp.caller_budget_cut_short'' s
               else if index = 0
               then report_export_failed ''transport.otlp.export_failed''
                      (snd (describe_failure exc) \<in> {Some 401, Some 403}) s
               else s)
      in if index \<noteq> 0 then say ''transport.otlp.split_export_abandoned'' s else s)"

fun post_bodies ::
  "thread \<Rightarrow> rat \<Rightarrow> otlp_world \<Rightarrow> batch \<Rightarrow> transport_call \<Rightarrow> rat \<Rightarrow> encode_reports \<Rightarrow> nat \<Rightarrow> rat \<Rightarrow>
   nat \<Rightarrow> bytes list \<Rightarrow> exporting \<Rightarrow> transport_answer \<times> exporting" where
  "post_bodies me configured ow e call effective reports all deadline index [] s = (A_other, s)"
| "post_bodies me configured ow e call effective reports all deadline index (body # bodies) s =
     (let remaining = deadline - ow_clock ow (Suc index)
      in if remaining \<le> 0
         then if index = 0 then (A_undelivered, s)
              else (A_other, say ''transport.otlp.split_export_out_of_budget''
                      (lose me R_BUDGET_EXHAUSTED (int all - int index) (Some U_REQUEST) None s))
         else
           (let s = (if index = 0 then report_encode me reports s else s);
                s = s\<lparr>xp_posts := xp_posts s @ [(body, remaining)]\<rparr>
            in case ow_post ow index of
                 Some exc \<Rightarrow> (A_other, otlp_failed me configured e call effective reports all index exc s)
               | None \<Rightarrow> post_bodies me configured ow e call effective reports all deadline (Suc index) bodies s))"

definition otlp_export ::
  "thread \<Rightarrow> rat \<Rightarrow> otlp_world \<Rightarrow> transport_call \<Rightarrow> batch \<Rightarrow> exporting \<Rightarrow> transport_answer \<times> exporting" where
  "otlp_export me configured ow call e s =
     (if en_spans e = [] then (A_other, s)
      else if \<not> ow_native_ok ow then (A_other, say ''transport.otlp.native_unavailable'' s)
      else
        (let effective = narrowed configured call
         in if effective \<le> 0 then (A_undelivered, s)
            else (case ow_encode ow e of
                    None \<Rightarrow> (A_raises, s)
                  | Some (bodies, reports) \<Rightarrow>
                      if bodies = [] then (A_other, report_encode me reports s)
                      else post_bodies me configured ow e call effective reports (length bodies)
                             (ow_clock ow 0 + effective) 0 bodies s)))"

section \<open>The wardex receiver\<close>

text \<open>\<open>ww_request_ok\<close>: whether the \<open>Request\<close> constructor accepts the configured address.\<close>

record wardex_world =
  ww_native_ok :: bool
  ww_encode :: "batch \<Rightarrow> (bytes option \<times> string list \<times> nat) option"
  ww_clock :: "nat \<Rightarrow> rat"
  ww_request_ok :: bool
  ww_post :: "failure option"

definition ENVELOPE_PATH :: py_text where
  "ENVELOPE_PATH = str_lit ''/v1/envelope''"

definition new_wardex_url :: "py_text \<Rightarrow> py_text \<Rightarrow> py_text option" where
  "new_wardex_url base_url api_key =
     (if api_key = [] then None
      else Some (rev (dropWhile (\<lambda>c. c = 47) (rev base_url)) @ ENVELOPE_PATH))"

definition no_reports :: "held_reports \<Rightarrow> bool" where
  "no_reports h \<longleftrightarrow> h = CR_tuple [] \<or> h = CR_list []"

definition wardex_failed ::
  "thread \<Rightarrow> rat \<Rightarrow> batch \<Rightarrow> transport_call \<Rightarrow> rat \<Rightarrow> nat \<Rightarrow> failure \<Rightarrow> exporting \<Rightarrow> exporting" where
  "wardex_failed me configured e call effective unmarshalled exc s =
     (let s = bump_each 1 ''transport.wardex.export_failed'' s;
          (lost_as, definite) = classify_failure exc;
          s = (if already_unsent e (xp_ledger s) then s
               else s\<lparr>xp_ledger := record_items me (reason_value lost_as)
                        (int (length (en_spans e)) - int unmarshalled) (int (length (en_snapshots e))) None
                        (xp_ledger s)\<rparr>);
          s = s\<lparr>xp_ledger := snd (unsent me e definite False (record_failed_send me (xp_ledger s)))\<rparr>
      in if cut_short_by_the_caller exc call configured effective \<noteq> None
         then say ''transport.wardex.caller_budget_cut_short'' s
         else report_export_failed ''transport.wardex.export_failed''
                (snd (describe_failure exc) \<in> {Some 401, Some 403}) s)"

definition wardex_export ::
  "thread \<Rightarrow> rat \<Rightarrow> wardex_world \<Rightarrow> transport_call \<Rightarrow> batch \<Rightarrow> exporting \<Rightarrow> transport_answer \<times> exporting" where
  "wardex_export me configured ww call e s =
     (if en_spans e = [] \<and> en_snapshots e = [] \<and> no_reports (en_client_reports e) then (A_other, s)
      else if \<not> ww_native_ok ww
      then (A_other, (say ''transport.wardex.native_unavailable'' s)
                       \<lparr>xp_ledger := snd (unsent me e True False (xp_ledger s))\<rparr>)
      else
        (let effective = narrowed configured call
         in if effective \<le> 0 then (A_undelivered, s)
            else (case ww_encode ww e of
                    None \<Rightarrow> (A_raises, s)
                  | Some (body, unmarshalled, scrubbed) \<Rightarrow>
                      (let remaining = ww_clock ww 0 + effective - ww_clock ww 1
                       in if body \<noteq> None \<and> remaining \<le> 0 then (A_undelivered, s)
                          else
                            (let s = report_pii_scrubbed me scrubbed ''wardex''
                                   (report_unmarshalled me (length unmarshalled)
                                     ''transport.wardex.span_unmarshalled'' s)
                             in case body of
                                  None \<Rightarrow> (A_other, s)
                                | Some b \<Rightarrow>
                                    if \<not> ww_request_ok ww then (A_raises, s)
                                    else
                                      (let s = s\<lparr>xp_posts := xp_posts s @ [(b, remaining)]\<rparr>
                                       in case ww_post ww of
                                            None \<Rightarrow> (A_other, s)
                                          | Some exc \<Rightarrow>
                                              (A_other, wardex_failed me configured e call effective
                                                 (length unmarshalled) exc s)))))))"

text \<open>\<open>NoOpTransport\<close>.\<close>

definition noop_export :: "transport_call \<Rightarrow> batch \<Rightarrow> exporting \<Rightarrow> transport_answer \<times> exporting" where
  "noop_export call e s = (A_other, s)"

end
