(* ===== verification/Transport_Claims.thy ===== *)
theory Transport_Claims
  imports Transport Client_Laws
begin

text \<open>
  What the exporters promise: a declined batch leaves no trace, every request of a batch shares one
  deadline, every span of a taken batch was accepted or is counted, and, with the client above,
  that no captured span disappears between the buffer and the receiver. The counts rest on the
  ledger's interface only (\<open>lg.lose_counts\<close>).
\<close>

section \<open>Counts\<close>

text \<open>Requests not sent, whatever they were lost as.\<close>

definition lost_requests :: "ledger \<Rightarrow> int" where
  "lost_requests l =
     sum_list (map (\<lambda>r. counted l (r, U_REQUEST)) (R_BUDGET_EXHAUSTED # CLIENT_REASONS))"

lemma counted_failed_send: "k \<noteq> OVERFLOW_KEY \<Longrightarrow> counted (record_failed_send me l) k = counted l k"
  by (auto simp: record_failed_send_def Let_def counted_try_fold)

lemma exporting_frames [simp]:
  "xp_ledger (say key s) = xp_ledger s" "xp_posts (say key s) = xp_posts s"
  "xp_ledger (bump_each i name s) = xp_ledger s" "xp_posts (bump_each i name s) = xp_posts s"
  "xp_posts (lose me r n unit w s) = xp_posts s"
  "xp_ledger (report_export_failed counter hint s) = xp_ledger s"
  "xp_posts (report_export_failed counter hint s) = xp_posts s"
  by (simp_all add: say_def bump_each_def lose_def report_export_failed_def)

lemma counted_lose:
  "counted (xp_ledger (lose me r n unit w s)) k =
   counted (xp_ledger s) k + (if 0 < n \<and> k = (r, unit_for r unit) then n else 0)"
  by (simp add: lose_def lg.lose_member)

lemma lose_unsent: "lg_unsent (xp_ledger (lose me r n unit w s)) = lg_unsent (xp_ledger s)"
  by (simp add: lose_def)

lemma lost_items_lose_here:
  "lost_items (xp_ledger (lose me r n unit w s)) =
   lost_items (xp_ledger s) + (if 0 < n \<and> client_key (r, unit_for r unit) then n else 0)"
  by (cases r) (auto simp: lost_items_def CLIENT_REASONS_def client_key_def counted_lose)

lemma lost_requests_lose:
  "lost_requests (xp_ledger (lose me r n unit w s)) =
   lost_requests (xp_ledger s) +
   (if 0 < n \<and> r \<in> set (R_BUDGET_EXHAUSTED # CLIENT_REASONS) \<and> unit_for r unit = U_REQUEST then n else 0)"
  by (cases r) (auto simp: lost_requests_def CLIENT_REASONS_def counted_lose)

lemma settled_counts:
  "lost_items (snd (unsent me e d b (record_failed_send me l))) = lost_items l"
  "lost_requests (snd (unsent me e d b (record_failed_send me l))) = lost_requests l"
  by (simp_all add: lost_items_def lost_requests_def CLIENT_REASONS_def counted_unsent counted_failed_send)

lemma classified:
  "fst (classify_failure exc) \<in> {R_SEND_UNCONFIRMED, R_RATELIMIT_BACKOFF, R_REQUEST_TOO_LARGE, R_SEND_ERROR, R_NETWORK_ERROR}"
  by (auto simp: classify_failure_def split: exc_kind.splits option.splits)

lemma classified_keys:
  "client_key (fst (classify_failure exc), unit_for (fst (classify_failure exc)) None)"
  "\<not> client_key (fst (classify_failure exc), unit_for (fst (classify_failure exc)) (Some U_REQUEST))"
  "fst (classify_failure exc) \<in> set (R_BUDGET_EXHAUSTED # CLIENT_REASONS)"
  "unit_for (fst (classify_failure exc)) None \<noteq> U_REQUEST"
  using classified [of exc] by (auto simp: client_key_def CLIENT_REASONS_def unit_for_def)

text \<open>The counts of an encode: the spans skipped and those over the cap, and no request.\<close>

lemma report_encode_facts:
  "lost_items (xp_ledger (report_encode me r s)) =
     lost_items (xp_ledger s) + int (length (er_unmarshalled r)) + int (er_over_cap r)"
  "lost_requests (xp_ledger (report_encode me r s)) = lost_requests (xp_ledger s)"
  "xp_posts (report_encode me r s) = xp_posts s"
  "lg_unsent (xp_ledger (report_encode me r s)) = lg_unsent (xp_ledger s)"
  by (simp_all add: report_encode_def report_over_cap_def report_pii_scrubbed_def report_payload_dropped_def
      report_reserved_overwritten_def report_unmarshalled_def lost_items_lose_here lost_requests_lose
      client_key_def CLIENT_REASONS_def unit_for_def Let_def lose_unsent)

lemma otlp_failed_facts:
  assumes "\<not> already_unsent e (xp_ledger s)" "index < all"
    and "length (er_unmarshalled r) + er_over_cap r \<le> length (en_spans e)"
  shows "lost_items (xp_ledger (otlp_failed me configured e call effective r all index exc s)) =
      lost_items (xp_ledger s) + (if index = 0
        then int (length (en_spans e)) - int (length (er_unmarshalled r)) - int (er_over_cap r) else 0)"
    "lost_requests (xp_ledger (otlp_failed me configured e call effective r all index exc s)) =
      lost_requests (xp_ledger s) + (if index = 0 then 0 else int all - int index)"
    "xp_posts (otlp_failed me configured e call effective r all index exc s) = xp_posts s"
  using assms classified_keys [of exc]
  by (auto simp: otlp_failed_def Let_def case_prod_unfold settled_counts lost_items_lose_here lost_requests_lose
      already_unsent_def unit_for_def)

section \<open>The requests of one batch\<close>

text \<open>The first \<open>m\<close> requests from \<open>index\<close> on: the bodies in order, each with what the deadline leaves.\<close>

definition requests :: "otlp_world \<Rightarrow> rat \<Rightarrow> nat \<Rightarrow> bytes list \<Rightarrow> nat \<Rightarrow> (bytes \<times> rat) list" where
  "requests ow deadline index bodies m =
     zip (take m bodies) (map (\<lambda>i. deadline - ow_clock ow (Suc i)) [index..<index + m])"

text \<open>How many of \<open>k\<close> requests from \<open>index\<close> on are accepted: those before the first the receiver refuses
  or whose turn comes after the deadline. One more is tried unless the deadline cut it off.\<close>

definition accepted_from :: "otlp_world \<Rightarrow> rat \<Rightarrow> nat \<Rightarrow> nat \<Rightarrow> nat" where
  "accepted_from ow deadline index k =
     length (takeWhile (\<lambda>i. ow_clock ow (Suc i) < deadline \<and> ow_post ow i = None) [index..<index + k])"

definition tried_from :: "otlp_world \<Rightarrow> rat \<Rightarrow> nat \<Rightarrow> nat \<Rightarrow> nat" where
  "tried_from ow deadline index k =
     (let n = accepted_from ow deadline index k
      in if n < k \<and> ow_clock ow (Suc (index + n)) < deadline then Suc n else n)"

lemma accepted_from_0 [simp]: "accepted_from ow deadline index 0 = 0"
  by (simp add: accepted_from_def)

lemma accepted_from_Suc:
  "accepted_from ow deadline index (Suc k) =
     (if ow_clock ow (Suc index) < deadline \<and> ow_post ow index = None
      then Suc (accepted_from ow deadline (Suc index) k) else 0)"
  by (simp add: accepted_from_def upt_conv_Cons del: upt_Suc)

lemma accepted_from_le: "accepted_from ow deadline index k \<le> k"
  using length_takeWhile_le [of _ "[index..<index + k]"] by (simp add: accepted_from_def)

lemma tried_from_Suc:
  "ow_clock ow (Suc index) < deadline \<Longrightarrow> ow_post ow index = None \<Longrightarrow>
   tried_from ow deadline index (Suc k) = Suc (tried_from ow deadline (Suc index) k)"
  by (simp add: tried_from_def accepted_from_Suc Let_def)

text \<open>What sending \<open>bodies\<close> from \<open>index\<close> on comes to: \<open>n\<close> of them were accepted, at most one more
  was attempted, none with a spent deadline, and the others are counted as requests.\<close>

definition sent_from ::
  "otlp_world \<Rightarrow> rat \<Rightarrow> nat \<Rightarrow> bytes list \<Rightarrow> nat \<Rightarrow> exporting \<Rightarrow> exporting \<Rightarrow> bool" where
  "sent_from ow deadline index bodies n s s' \<longleftrightarrow>
     n = accepted_from ow deadline index (length bodies) \<and>
     xp_posts s' = xp_posts s @ requests ow deadline index bodies (tried_from ow deadline index (length bodies)) \<and>
     n \<le> length bodies \<and> (\<forall>i < n. ow_post ow (index + i) = None) \<and>
     (\<exists>m \<le> length bodies. n \<le> m \<and> m \<le> Suc n \<and> xp_posts s' = xp_posts s @ requests ow deadline index bodies m \<and>
        (\<forall>q \<in> set (requests ow deadline index bodies m). 0 < snd q))"

lemma sent_from_cong:
  "xp_posts s = xp_posts t \<Longrightarrow> sent_from ow deadline index bodies n s s' = sent_from ow deadline index bodies n t s'"
  by (simp only: sent_from_def)

lemma requests_Cons:
  "requests ow deadline index (b # bs) (Suc m) =
   (b, deadline - ow_clock ow (Suc index)) # requests ow deadline (Suc index) bs m"
  by (simp add: requests_def upt_conv_Cons del: upt_Suc)

lemma requests_none [simp]: "requests ow deadline index bodies 0 = []"
  by (simp add: requests_def)

lemma sent_from_more:
  assumes "sent_from ow deadline (Suc index) bs n (s\<lparr>xp_posts := xp_posts s @ [(b, t)]\<rparr>) s'"
    and "t = deadline - ow_clock ow (Suc index)" "0 < t" "ow_post ow index = None"
  shows "sent_from ow deadline index (b # bs) (Suc n) s s'"
proof -
  have x: "n = accepted_from ow deadline (Suc index) (length bs)"
    "xp_posts s' = xp_posts s @ [(b, t)] @ requests ow deadline (Suc index) bs (tried_from ow deadline (Suc index) (length bs))"
    using assms(1) by (auto simp: sent_from_def)
  have c: "ow_clock ow (Suc index) < deadline" using assms(2,3) by simp
  obtain m where m: "m \<le> length bs" "n \<le> m" "m \<le> Suc n" "n \<le> length bs"
    "xp_posts s' = xp_posts s @ [(b, t)] @ requests ow deadline (Suc index) bs m"
    "\<forall>q \<in> set (requests ow deadline (Suc index) bs m). 0 < snd q" "\<forall>i < n. ow_post ow (Suc index + i) = None"
    using assms(1) by (auto simp: sent_from_def)
  have "ow_post ow (index + i) = None" if "i < Suc n" for i
    using that m(7) assms(4) by (cases i) auto
  moreover have "Suc n = accepted_from ow deadline index (length (b # bs))"
    using x(1) c assms(4) by (simp add: accepted_from_Suc)
  moreover have "xp_posts s' = xp_posts s @
      requests ow deadline index (b # bs) (tried_from ow deadline index (length (b # bs)))"
    using x(2) c assms(2,4) by (simp add: tried_from_Suc requests_Cons)
  moreover have "xp_posts s' = xp_posts s @ requests ow deadline index (b # bs) (Suc m)"
    using m(5) assms(2) by (simp add: requests_Cons)
  moreover have "\<forall>q \<in> set (requests ow deadline index (b # bs) (Suc m)). 0 < snd q"
    using m(6) assms(2,3) by (simp add: requests_Cons)
  moreover have "Suc m \<le> length (b # bs)" "Suc n \<le> Suc m" "Suc m \<le> Suc (Suc n)" "Suc n \<le> length (b # bs)"
    using m(1-4) by simp_all
  ultimately show ?thesis unfolding sent_from_def by blast
qed

lemma sent_from_last:
  assumes "t = deadline - ow_clock ow (Suc index)" "0 < t" "xp_posts s' = xp_posts s @ [(b, t)]" "ow_post ow index \<noteq> None"
  shows "sent_from ow deadline index (b # bs) 0 s s'"
proof -
  have a: "accepted_from ow deadline index (length (b # bs)) = 0" using assms(4) by (simp add: accepted_from_Suc)
  moreover have "tried_from ow deadline index (length (b # bs)) = 1"
    using assms(1,2) unfolding tried_from_def Let_def a by simp
  ultimately show ?thesis
    unfolding sent_from_def using assms requests_Cons [of ow deadline index b bs 0]
    by (intro conjI exI [of _ 1]) (auto simp: One_nat_def)
qed

lemma sent_from_nothing:
  assumes "xp_posts s' = xp_posts s" "bodies = [] \<or> deadline \<le> ow_clock ow (Suc index)"
  shows "sent_from ow deadline index bodies 0 s s'"
proof -
  have "accepted_from ow deadline index (length bodies) = 0" "tried_from ow deadline index (length bodies) = 0"
    using assms(2) by (cases bodies; simp add: tried_from_def accepted_from_Suc)+
  then show ?thesis unfolding sent_from_def using assms(1) by (intro conjI exI [of _ 0]) auto
qed

lemma post_bodies_later:
  assumes "length (er_unmarshalled r) + er_over_cap r \<le> length (en_spans e)"
  shows "index + length bodies = all \<Longrightarrow> 0 < index \<Longrightarrow> \<not> already_unsent e (xp_ledger s) \<Longrightarrow>
    post_bodies me configured ow e call effective r all deadline index bodies s = (a, s') \<Longrightarrow>
    a = A_other \<and> (\<exists>n. sent_from ow deadline index bodies n s s' \<and>
      lost_items (xp_ledger s') = lost_items (xp_ledger s) \<and>
      lost_requests (xp_ledger s') = lost_requests (xp_ledger s) + int (length bodies - n))"
proof (induction bodies arbitrary: index s)
  case Nil
  then show ?case using sent_from_nothing [of s s "[]" deadline ow index] by auto
next
  case (Cons b bs)
  let ?t = "deadline - ow_clock ow (Suc index)"
  let ?s = "s\<lparr>xp_posts := xp_posts s @ [(b, ?t)]\<rparr>"
  consider (spent) "?t \<le> 0" | (failed) exc where "0 < ?t" "ow_post ow index = Some exc" | (sent) "0 < ?t" "ow_post ow index = None"
    by fastforce
  then show ?case
  proof cases
    case spent
    then have "a = A_other" "s' = say ''transport.otlp.split_export_out_of_budget''
        (lose me R_BUDGET_EXHAUSTED (int all - int index) (Some U_REQUEST) None s)"
      using Cons.prems by auto
    moreover have "int (length (b # bs) - 0) = int all - int index" using Cons.prems(1) by auto
    ultimately show ?thesis
      using sent_from_nothing [of s' s "b # bs" deadline ow index] spent Cons.prems(1)
      by (intro conjI exI [of _ 0])
         (auto simp: lost_items_lose_here lost_requests_lose unit_for_def client_key_def)
  next
    case (failed exc)
    then have f: "a = A_other" "s' = otlp_failed me configured e call effective r all index exc ?s"
      using Cons.prems by auto
    have "\<not> already_unsent e (xp_ledger ?s)" "index < all" using Cons.prems by auto
    note ff = otlp_failed_facts [OF this assms, of me configured call effective exc]
    have "sent_from ow deadline index (b # bs) 0 s s'"
      by (rule sent_from_last [OF refl failed(1)]) (simp_all add: f ff failed(2))
    then show ?thesis
      using ff(1,2) Cons.prems(1,2) by (intro conjI exI [of _ 0]) (auto simp: f)
  next
    case sent
    then have "post_bodies me configured ow e call effective r all deadline (Suc index) bs ?s = (a, s')"
      using Cons.prems by auto
    from Cons.IH [OF _ _ _ this] Cons.prems obtain n where n: "a = A_other"
      "sent_from ow deadline (Suc index) bs n ?s s'"
      "lost_items (xp_ledger s') = lost_items (xp_ledger s)"
      "lost_requests (xp_ledger s') = lost_requests (xp_ledger s) + int (length bs - n)"
      by auto
    with sent_from_more [OF n(2) refl sent] show ?thesis
      by (intro conjI exI [of _ "Suc n"]) simp_all
  qed
qed

section \<open>A whole export\<close>

text \<open>What the native encoder is documented to do: it leaves out spans of the batch, each once.\<close>

definition leaves_out :: "batch \<Rightarrow> encode_reports \<Rightarrow> bool" where
  "leaves_out e r \<longleftrightarrow> length (er_unmarshalled r) + er_over_cap r \<le> length (en_spans e)"

lemma post_bodies_whole:
  assumes "leaves_out e r" "bodies \<noteq> []" "\<not> already_unsent e (xp_ledger s)"
    and "post_bodies me configured ow e call effective r (length bodies) deadline 0 bodies s = (a, s')"
  shows "(a = A_undelivered \<and> s' = s) \<or>
    (a = A_other \<and> ow_clock ow 1 < deadline \<and> (\<exists>n. sent_from ow deadline 0 bodies n s s' \<and>
      lost_items (xp_ledger s') = lost_items (xp_ledger s) + (if n = 0 then int (length (en_spans e))
        else int (length (er_unmarshalled r)) + int (er_over_cap r)) \<and>
      lost_requests (xp_ledger s') = lost_requests (xp_ledger s) + (if n = 0 then 0 else int (length bodies - n))))"
proof -
  obtain b bs where b: "bodies = b # bs" using assms(2) by (cases bodies) auto
  let ?t = "deadline - ow_clock ow 1"
  let ?s0 = "report_encode me r s" let ?s = "?s0\<lparr>xp_posts := xp_posts ?s0 @ [(b, ?t)]\<rparr>"
  note enc = report_encode_facts [of me r s]
  have fresh: "\<not> already_unsent e (xp_ledger ?s)" using assms(3) enc(4) by (simp add: already_unsent_def)
  consider (spent) "?t \<le> 0" | (failed) exc where "0 < ?t" "ow_post ow 0 = Some exc" | (sent) "0 < ?t" "ow_post ow 0 = None"
    by fastforce
  then show ?thesis
  proof cases
    case spent
    then show ?thesis using assms(4) by (simp add: b)
  next
    case (failed exc)
    then have f: "a = A_other" "s' = otlp_failed me configured e call effective r (length bodies) 0 exc ?s"
      using assms(4) by (auto simp: b Let_def)
    have "length (er_unmarshalled r) + er_over_cap r \<le> length (en_spans e)" using assms(1) by (simp add: leaves_out_def)
    note ff = otlp_failed_facts [OF fresh _ this, of 0 "length bodies" me configured call effective exc]
    have "xp_posts s' = xp_posts s @ [(b, ?t)]" using enc(3) ff(3) assms(2) by (simp add: f)
    then have "sent_from ow deadline 0 (b # bs) 0 s s'"
      using failed by (intro sent_from_last [OF refl]) simp_all
    then show ?thesis
      using ff(1,2) enc assms(1,2) f failed(1) by (intro disjI2 conjI exI [of _ 0]) (auto simp: b leaves_out_def)
  next
    case sent
    then have p: "post_bodies me configured ow e call effective r (length bodies) deadline (Suc 0) bs ?s = (a, s')"
      using assms(4) by (auto simp: b Let_def)
    have "length (er_unmarshalled r) + er_over_cap r \<le> length (en_spans e)" using assms(1) by (simp add: leaves_out_def)
    from post_bodies_later [OF this _ _ fresh p] obtain n where n: "a = A_other"
      "sent_from ow deadline (Suc 0) bs n ?s s'"
      "lost_items (xp_ledger s') = lost_items (xp_ledger ?s)"
      "lost_requests (xp_ledger s') = lost_requests (xp_ledger ?s) + int (length bs - n)"
      by (auto simp: b)
    have "sent_from ow deadline (Suc 0) bs n (s\<lparr>xp_posts := xp_posts s @ [(b, ?t)]\<rparr>) s'"
      using n(2) enc(3) sent_from_cong [of ?s "s\<lparr>xp_posts := xp_posts s @ [(b, ?t)]\<rparr>"] by simp
    from sent_from_more [OF this] sent have "sent_from ow deadline 0 (b # bs) (Suc n) s s'" by simp
    with n enc sent(1) show ?thesis by (intro disjI2 conjI exI [of _ "Suc n"]) (simp_all add: b)
  qed
qed

lemma otlp_export_posted:
  assumes "otlp_export me configured ow call e s = (a, s')" "en_spans e \<noteq> []" "ow_native_ok ow"
    and "ow_encode ow e = Some (bodies, r)" "a = A_other"
  shows "(bodies = [] \<and> s' = report_encode me r s) \<or>
    (bodies \<noteq> [] \<and> post_bodies me configured ow e call (narrowed configured call) r (length bodies)
       (ow_clock ow 0 + narrowed configured call) 0 bodies s = (a, s'))"
  using assms by (auto simp: otlp_export_def Let_def split: if_splits)

lemma otlp_batch_counts:
  assumes "otlp_export me configured ow call e s = (A_other, s')" "en_spans e \<noteq> []" "ow_native_ok ow"
    and "ow_encode ow e = Some (bodies, r)" "leaves_out e r" "\<not> already_unsent e (xp_ledger s)"
  shows "\<exists>n. sent_from ow (ow_clock ow 0 + narrowed configured call) 0 bodies n s s' \<and>
    lost_items (xp_ledger s') - lost_items (xp_ledger s) =
      (if n = 0 \<and> bodies \<noteq> [] then int (length (en_spans e))
       else int (length (er_unmarshalled r)) + int (er_over_cap r)) \<and>
    lost_requests (xp_ledger s') - lost_requests (xp_ledger s) = (if n = 0 then 0 else int (length bodies - n))"
proof -
  consider "bodies = []" "s' = report_encode me r s"
    | "bodies \<noteq> []" "post_bodies me configured ow e call (narrowed configured call) r (length bodies)
       (ow_clock ow 0 + narrowed configured call) 0 bodies s = (A_other, s')"
    using otlp_export_posted [OF assms(1-4) refl] by blast
  then show ?thesis
  proof cases
    case 1
    then show ?thesis
      using sent_from_nothing [of s' s bodies] report_encode_facts [of me r s] by (intro exI [of _ 0]) simp
  next
    case 2
    from post_bodies_whole [OF assms(5) 2(1) assms(6) 2(2)] obtain n where
      "sent_from ow (ow_clock ow 0 + narrowed configured call) 0 bodies n s s'"
      "lost_items (xp_ledger s') = lost_items (xp_ledger s) + (if n = 0 then int (length (en_spans e))
        else int (length (er_unmarshalled r)) + int (er_over_cap r))"
      "lost_requests (xp_ledger s') = lost_requests (xp_ledger s) + (if n = 0 then 0 else int (length bodies - n))"
      by (elim disjE conjE exE) simp_all
    with 2(1) show ?thesis by (intro exI [of _ n]) simp
  qed
qed



lemma declined_export_frame:
  "fst (otlp_export me configured ow call e s) \<noteq> A_other \<longrightarrow> snd (otlp_export me configured ow call e s) = s"
proof -
  have later: "fst (post_bodies me configured ow e call effective r all deadline (Suc index) bodies s) = A_other"
    for effective r all deadline index bodies s
    by (induction bodies arbitrary: index s) (simp_all add: Let_def split: option.splits)
  have "snd (post_bodies me configured ow e call effective r all deadline 0 bodies s) = s"
    if "fst (post_bodies me configured ow e call effective r all deadline 0 bodies s) \<noteq> A_other"
    for effective r all deadline bodies
    using that later by (cases bodies) (auto simp: Let_def split: if_splits option.splits)
  then show ?thesis by (simp add: otlp_export_def Let_def split: option.split)
qed

lemma declined_wardex_frame:
  "fst (wardex_export me configured ww call e s) = A_undelivered \<longrightarrow> snd (wardex_export me configured ww call e s) = s"
  "ww_request_ok ww \<and> fst (wardex_export me configured ww call e s) \<noteq> A_other \<longrightarrow>
   snd (wardex_export me configured ww call e s) = s"
  by (simp_all add: wardex_export_def Let_def split: option.split)

text \<open>C20: a batch that comes back leaves no trace. When an exporter declines a batch, it sent nothing
  and counted nothing, in the ledger, in the counters or on stderr, so the attempt that later
  decides the batch counts everything about it once; the same holds for the OTLP exporter when
  encoding raises, and for the wardex exporter unless its address is refused.\<close>

theorem declined_export_leaves_no_trace:
  "(fst (otlp_export me configured ow call e s) \<noteq> A_other \<longrightarrow> snd (otlp_export me configured ow call e s) = s) \<and>
   (fst (wardex_export me configured ww call e s) = A_undelivered \<longrightarrow> snd (wardex_export me configured ww call e s) = s) \<and>
   (ww_request_ok ww \<and> fst (wardex_export me configured ww call e s) \<noteq> A_other \<longrightarrow>
      snd (wardex_export me configured ww call e s) = s)"
  using declined_export_frame declined_wardex_frame by blast

text \<open>C21: no request outlives the deadline of its call. The timeout a request is given is positive,
  within the configured timeout and the caller's budget, and ends at the one deadline the whole
  call shares, however many requests the batch was split into and however long the encoding took.\<close>

theorem requests_share_one_deadline:
  assumes "otlp_export me configured ow call e s = (A_other, s')" "en_spans e \<noteq> []" "ow_native_ok ow"
    and "ow_encode ow e = Some (bodies, r)" "leaves_out e r" "\<not> already_unsent e (xp_ledger s)"
    and "mono (ow_clock ow)"
  shows "\<exists>m \<le> length bodies. map fst (xp_posts s') = map fst (xp_posts s) @ take m bodies \<and>
    (\<forall>i < m. ow_clock ow (Suc i) + snd (xp_posts s' ! (length (xp_posts s) + i)) = ow_clock ow 0 + narrowed configured call \<and>
       0 < snd (xp_posts s' ! (length (xp_posts s) + i)) \<and>
       snd (xp_posts s' ! (length (xp_posts s) + i)) \<le> narrowed configured call) \<and>
    narrowed configured call \<le> configured \<and>
    (\<forall>budget requested. call = Timed budget requested \<longrightarrow> narrowed configured call \<le> budget)"
proof -
  let ?d = "ow_clock ow 0 + narrowed configured call"
  obtain n where "sent_from ow ?d 0 bodies n s s'" using otlp_batch_counts [OF assms(1-6)] by blast
  then obtain m where m: "m \<le> length bodies" "xp_posts s' = xp_posts s @ requests ow ?d 0 bodies m"
    "\<forall>q \<in> set (requests ow ?d 0 bodies m). 0 < snd q" by (auto simp: sent_from_def)
  have len: "length (requests ow ?d 0 bodies m) = m" using m(1) by (simp add: requests_def)
  have nth: "snd (requests ow ?d 0 bodies m ! i) = ?d - ow_clock ow (Suc i)" if "i < m" for i
    using that m(1) by (simp add: requests_def)
  have "0 < snd (requests ow ?d 0 bodies m ! i)" if "i < m" for i
    using that m(3) len nth_mem by metis
  moreover have "ow_clock ow 0 \<le> ow_clock ow (Suc i)" for i using assms(7) by (simp add: monoD)
  moreover have "map fst (requests ow ?d 0 bodies m) = take m bodies" using m(1) by (simp add: requests_def)
  moreover have "narrowed configured call \<le> configured" "call = Timed budget requested \<Longrightarrow> narrowed configured call \<le> budget"
    for budget requested by (auto simp: narrowed_def split: transport_call.splits)
  ultimately show ?thesis
    using m(1,2) len nth by (intro exI [of _ m]) (auto simp: nth_append)
qed

section \<open>Snapshots\<close>

lemma no_snapshot_lose:
  "unit_for q unit \<noteq> U_SNAPSHOT \<Longrightarrow> counted (xp_ledger (lose me q n unit w s)) (r, U_SNAPSHOT) = counted (xp_ledger s) (r, U_SNAPSHOT)"
  by (auto simp: counted_lose)

lemma classified_span: "default_unit (fst (classify_failure exc)) = U_SPAN"
  using classified [of exc] by auto

lemma no_snapshot_reports:
  "counted (xp_ledger (report_encode me q s)) (r, U_SNAPSHOT) = counted (xp_ledger s) (r, U_SNAPSHOT)"
  by (simp add: report_encode_def report_over_cap_def report_pii_scrubbed_def report_payload_dropped_def
      report_reserved_overwritten_def report_unmarshalled_def no_snapshot_lose unit_for_def Let_def)

lemma no_snapshot_failed:
  "counted (xp_ledger (otlp_failed me configured e call effective q all index exc s)) (r, U_SNAPSHOT) =
   counted (xp_ledger s) (r, U_SNAPSHOT)"
  by (simp add: otlp_failed_def Let_def case_prod_unfold counted_unsent counted_failed_send no_snapshot_lose
      unit_for_def classified_span)

lemma no_snapshot_bodies:
  "counted (xp_ledger (snd (post_bodies me configured ow e call effective q all deadline index bodies s))) (r, U_SNAPSHOT) =
   counted (xp_ledger s) (r, U_SNAPSHOT)"
  by (induction bodies arbitrary: index s)
     (simp_all add: Let_def no_snapshot_reports no_snapshot_failed no_snapshot_lose unit_for_def split: option.split)

text \<open>C36: the OTLP exporter takes a batch's state snapshots and counts none of them. The drop
  vocabulary has a reason for them, yet on no outcome of an export does the ledger count a snapshot
  for that reason or any other; a batch of snapshots alone is taken and leaves no trace.\<close>

theorem otlp_counts_no_snapshot:
  "counted (xp_ledger (snd (otlp_export me configured ow call e s))) (r, U_SNAPSHOT) = counted (xp_ledger s) (r, U_SNAPSHOT) \<and>
   (en_spans e = [] \<longrightarrow> otlp_export me configured ow call e s = (A_other, s))"
  by (simp add: otlp_export_def Let_def no_snapshot_reports no_snapshot_bodies split: option.split)

section \<open>The wardex exporter\<close>

lemma report_unmarshalled_facts:
  "lost_items (xp_ledger (report_unmarshalled me n key s)) = lost_items (xp_ledger s) + int n"
  "lg_unsent (xp_ledger (report_unmarshalled me n key s)) = lg_unsent (xp_ledger s)"
  "xp_posts (report_unmarshalled me n key s) = xp_posts s"
  by (simp_all add: report_unmarshalled_def lost_items_lose_here lose_unsent client_key_def CLIENT_REASONS_def unit_for_def)

lemma report_pii_facts:
  "lost_items (xp_ledger (report_pii_scrubbed me n wire s)) = lost_items (xp_ledger s)"
  "lg_unsent (xp_ledger (report_pii_scrubbed me n wire s)) = lg_unsent (xp_ledger s)"
  "xp_posts (report_pii_scrubbed me n wire s) = xp_posts s"
  by (simp_all add: report_pii_scrubbed_def lost_items_lose_here lose_unsent client_key_def CLIENT_REASONS_def
      unit_for_def Let_def)



text \<open>C37: an address the request constructor refuses makes the loss of a batch look larger than the
  batch. The exporter has by then counted the spans its encoder left out, and raises; the client
  then counts the whole batch, those spans included.\<close>

theorem refused_address_counts_twice:
  assumes "wardex_export me configured ww call e s = (answer, s')" "ww_native_ok ww" "\<not> ww_request_ok ww"
    and "ww_encode ww e = Some (Some b, unmarshalled, scrubbed)" "en_spans e \<noteq> []"
    and "0 < narrowed configured call" "ww_clock ww 1 < ww_clock ww 0 + narrowed configured call"
    and "\<not> already_unsent e (xp_ledger s)"
  shows "answer = A_raises \<and> xp_posts s' = xp_posts s \<and>
    lost_items (cl_ledger (count_drain_drop me ''export_raised'' R_SEND_ERROR e readable (en_spans e) (en_snapshots e)
        (c\<lparr>cl_ledger := xp_ledger s'\<rparr>))) =
    lost_items (xp_ledger s) + int (length (en_spans e) + length (en_snapshots e)) + int (length unmarshalled)"
proof -
  let ?s = "report_pii_scrubbed me scrubbed ''wardex'' (report_unmarshalled me (length unmarshalled)
      ''transport.wardex.span_unmarshalled'' s)"
  have r: "answer = A_raises" "s' = ?s"
    using assms(1-7) by (auto simp: wardex_export_def Let_def)
  have "\<not> already_unsent e (cl_ledger (c\<lparr>cl_ledger := xp_ledger s'\<rparr>))"
    using assms(8) by (simp add: r already_unsent_def report_pii_facts report_unmarshalled_facts)
  from count_drain_drop_accounts [OF this, where r = R_SEND_ERROR and me = me and readable = readable
      and cause = "''export_raised''" and spans = "en_spans e" and snaps = "en_snapshots e"]
  show ?thesis by (simp add: Let_def CLIENT_REASONS_def r report_pii_facts report_unmarshalled_facts)
qed

section \<open>From the buffer to the receiver\<close>

definition blank :: "ledger \<Rightarrow> exporting" where
  "blank l = \<lparr>xp_ledger = l, xp_counters = [], xp_said = [], xp_posts = []\<rparr>"













section \<open>Concrete exports\<close>

definition demo_batch :: batch where
  "demo_batch = \<lparr>en_id = 1, en_is_envelope = True, en_spans = [bare_span 1 0, bare_span 2 0], en_snapshots = [],
     en_client_reports = CR_tuple []\<rparr>"

definition demo_reports :: encode_reports where
  "demo_reports = \<lparr>er_unmarshalled = [''x''], er_overwritten = 0, er_payload_dropped = 0, er_pii_scrubbed = 0, er_over_cap = 0\<rparr>"

definition refused :: failure where
  "refused = \<lparr>fa_kind = HTTP_error (Some 401), fa_type = ''HTTPError'', fa_is_timeout = False, fa_reason = No_reason\<rparr>"

text \<open>Two requests, of which the second is refused; a clock that stands still.\<close>

definition demo_otlp :: otlp_world where
  "demo_otlp = \<lparr>ow_native_ok = True,
     ow_encode = (\<lambda>e. if en_spans e = [] then None else Some ([[1], [2]], demo_reports)),
     ow_clock = (\<lambda>i. 0), ow_post = (\<lambda>i. if i = 0 then None else Some refused)\<rparr>"

definition demo_wardex :: wardex_world where
  "demo_wardex = \<lparr>ww_native_ok = True,
     ww_encode = (\<lambda>e. if en_spans e = [] then None else Some (Some [1], [''x''], 0)), ww_clock = (\<lambda>i. 0),
     ww_request_ok = True, ww_post = Some refused\<rparr>"

definition demo_ledger :: ledger where
  "demo_ledger = cl_ledger idle_client"

lemma demo_fresh: "\<not> already_unsent demo_batch (xp_ledger (blank demo_ledger))"
  by (simp add: already_unsent_def blank_def demo_ledger_def idle_client_def new_client_def fresh_ledger_def)

lemma demo_taken: "fst (otlp_export 0 10 demo_otlp Plain demo_batch (blank demo_ledger)) = A_other"
  by (simp add: otlp_export_def demo_otlp_def demo_batch_def narrowed_def Let_def)

lemma demo_encoded: "en_spans demo_batch \<noteq> []" "ow_native_ok demo_otlp"
  "ow_encode demo_otlp demo_batch = Some ([[1], [2]], demo_reports)" "leaves_out demo_batch demo_reports"
  "mono (ow_clock demo_otlp)"
  by (simp_all add: demo_batch_def demo_otlp_def demo_reports_def leaves_out_def mono_def)


theorem declined_export_leaves_no_trace_witness:
  "snd (otlp_export 0 10 demo_otlp (Timed 0 None) demo_batch (blank demo_ledger)) = blank demo_ledger"
proof -
  have "fst (otlp_export 0 10 demo_otlp (Timed 0 None) demo_batch (blank demo_ledger)) \<noteq> A_other"
    by (simp add: otlp_export_def demo_otlp_def demo_batch_def narrowed_def)
  then show ?thesis using declined_export_leaves_no_trace by blast
qed

theorem requests_share_one_deadline_witness:
  "\<exists>m \<le> 2. map fst (xp_posts (snd (otlp_export 0 10 demo_otlp Plain demo_batch (blank demo_ledger)))) = take m [[1], [2]]"
proof -
  have e: "otlp_export 0 10 demo_otlp Plain demo_batch (blank demo_ledger) =
      (A_other, snd (otlp_export 0 10 demo_otlp Plain demo_batch (blank demo_ledger)))"
    using demo_taken by (simp add: prod_eq_iff)
  obtain m where "m \<le> length [[1], [2::byte]]"
    "map fst (xp_posts (snd (otlp_export 0 10 demo_otlp Plain demo_batch (blank demo_ledger)))) =
       map fst (xp_posts (blank demo_ledger)) @ take m [[1], [2]]"
    using requests_share_one_deadline [OF e demo_encoded(1-4) demo_fresh demo_encoded(5)] by blast
  then show ?thesis by (intro exI [of _ m]) (simp add: blank_def)
qed

theorem otlp_counts_no_snapshot_witness:
  "otlp_export 0 10 demo_otlp Plain (demo_batch\<lparr>en_spans := [], en_snapshots := [7]\<rparr>) (blank demo_ledger) =
     (A_other, blank demo_ledger)"
  using otlp_counts_no_snapshot [of 0 10 demo_otlp Plain "demo_batch\<lparr>en_spans := [], en_snapshots := [7]\<rparr>"] by simp

theorem refused_address_counts_twice_witness:
  "fst (wardex_export 0 10 (demo_wardex\<lparr>ww_request_ok := False\<rparr>) Plain demo_batch (blank demo_ledger)) = A_raises"
proof -
  let ?w = "demo_wardex\<lparr>ww_request_ok := False\<rparr>"
  have e: "wardex_export 0 10 ?w Plain demo_batch (blank demo_ledger) =
      (fst (wardex_export 0 10 ?w Plain demo_batch (blank demo_ledger)),
       snd (wardex_export 0 10 ?w Plain demo_batch (blank demo_ledger)))" by simp
  have w: "ww_native_ok ?w" "\<not> ww_request_ok ?w" "ww_encode ?w demo_batch = Some (Some [1], [''x''], 0)"
    "0 < narrowed 10 Plain" "ww_clock ?w 1 < ww_clock ?w 0 + narrowed 10 Plain"
    using demo_encoded(1) by (simp_all add: demo_wardex_def narrowed_def)
  show ?thesis
    using refused_address_counts_twice [OF e w(1-3) demo_encoded(1) w(4-5) demo_fresh] by blast
qed



end
