(* ===== verification/Agent_Session.thy ===== *)
theory Agent_Session
  imports Builder Units
begin

text \<open>
  What the Anthropic Agent SDK assembler remembers of one session and how it turns the lines of the
  CLI's stream into chat spans: \<open>_adapters/_session_state.py\<close> and the chat half of
  \<open>_adapters/_assembler.py\<close>.

  A session is one record (\<open>_Session\<close>), with what the assembler gave away while it held the lock:
  the spans handed to the client in order and the counters bumped. Its unit lives in a registry
  (\<open>Units\<close>). A dictionary is an association list in insertion order. \<open>agent_world\<close> holds
  what the code takes from elsewhere: the configured bound, the float arithmetic of the token
  check, fresh span ids, the native finish-reason table, and how the attribute objects and the
  conversation a span carries are referred to. Times are exact.
\<close>

section \<open>Records\<close>

datatype stream_kind =
    Session_init | Assistant_turn | Tool_result | Stream_delta | Session_result | Task_lifecycle | Other_line

text \<open>\<open>AgentStreamEvent\<close>, as the native parser fills it in.\<close>

record stream_line =
  sl_kind :: stream_kind
  sl_session_id :: "py_text option"
  sl_model :: "py_text option"
  sl_message_id :: "py_text option"
  sl_stop_reason :: "py_text option"
  sl_parent_tool_use_id :: "py_text option"
  sl_tool_result_id :: "py_text option"
  sl_launched_async :: bool
  sl_subtype :: "py_text option"
  sl_task_tool_use_id :: "py_text option"
  sl_content_json :: "bytes option"
  sl_tool_uses :: "(py_text \<times> py_text \<times> bytes) list"
  sl_input_tokens :: "int option"
  sl_output_tokens :: "int option"
  sl_cache_read_tokens :: "int option"
  sl_cache_creation_tokens :: "int option"
  sl_usage_totals_unpaired :: bool
  sl_usage_overflowed :: bool
  sl_is_error :: bool

text \<open>The \<open>GenAIAttributes\<close> of a chat, as far as the assembler sets them.\<close>

record chat_block =
  cb_request_model :: "py_text option"
  cb_response_model :: "py_text option"
  cb_response_id :: "py_text option"
  cb_input_tokens :: "int option"
  cb_output_tokens :: "int option"
  cb_cache_read :: "int option"
  cb_cache_creation :: "int option"
  cb_finish_reason :: "py_text option"
  cb_ttft_s :: "rat option"

record conversation_fields =
  cf_conversation_id :: py_text
  cf_session_id :: "py_text option"
  cf_turn_index :: nat

record agent_attributes =
  aa_name :: py_text
  aa_id :: "py_text option"
  aa_sub_agent :: bool

record tool_attributes =
  ta_name :: py_text
  ta_call_id :: "py_text option"

record agent_world =
  aw_max_entries :: nat
  aw_nearest :: "int \<Rightarrow> pyfloat"
  aw_fadd :: "pyfloat \<Rightarrow> pyfloat \<Rightarrow> pyfloat"
  aw_span_id :: "nat \<Rightarrow> span_id"
  aw_stop :: "py_text \<Rightarrow> py_text"
  aw_chat :: "chat_block \<Rightarrow> payload"
  aw_agent :: "agent_attributes \<Rightarrow> payload"
  aw_tool :: "tool_attributes \<Rightarrow> payload"
  aw_conversation :: "conversation_fields \<Rightarrow> conversation"
  aw_conversation_id :: "conversation \<Rightarrow> py_text"

record bridge_binding =
  bb_trace_id_hex :: "py_text option"
  bb_confirmed :: bool

datatype pending_kind = Pending_chat | Pending_tool | Pending_subagent

record pending_span =
  pe_draft :: span_draft
  pe_kind :: pending_kind
  pe_deferred_markers :: "limitation list"
  pe_tool_use_id :: "py_text option"
  pe_agent_id :: "py_text option"
  pe_window :: "(int \<times> int) option"
  pe_gen_ai :: "chat_block option"
  pe_merged :: bool
  pe_mergeable :: bool

record open_chat =
  oc_message_id :: "py_text option"
  oc_draft :: span_draft
  oc_gen_ai :: chat_block
  oc_ttft :: "rat option"
  oc_start_ns :: int
  oc_opened_ns :: int
  oc_end_ns :: int
  oc_agent_id :: "py_text option"
  oc_input_data :: bytes
  oc_input_attempted :: bool
  oc_output_data :: bytes

record open_tool =
  ot_tool_use_id :: "py_text option"
  ot_name :: py_text
  ot_start_ns :: int
  ot_agent_id :: "py_text option"
  ot_input_data :: bytes
  ot_from_hook :: bool
  ot_output_data :: bytes
  ot_claim_key :: "unit_key option"
  ot_sole_inferred :: bool
  ot_hook_session_id :: "py_text option"
  ot_stream_result :: "(bytes \<times> bool \<times> int) option"
  ot_closed_by_stream :: bool

record evicted_tool =
  et_start_ns :: int
  et_name :: py_text
  et_agent_id :: "py_text option"
  et_completed :: bool
  et_sole_inferred :: bool
  et_hook_session_id :: "py_text option"

record open_subagent =
  os_draft :: span_draft
  os_agent_type :: py_text

record evicted_subagent =
  es_context :: span_context
  es_agent_type :: py_text

record agent_thread =
  th_last_ns :: int
  th_first_delta_ns :: int
  th_closed_early :: "py_text option"

datatype prompt_source = Prompt_stream | Prompt_hook

record agent_session =
  as_units :: units
  as_unit :: unit_id
  as_key :: py_text
  as_session_id :: "py_text option"
  as_model :: "py_text option"
  as_main_thread :: agent_thread
  as_threads :: "(py_text \<times> agent_thread) list"
  as_prompt :: bytes
  as_prompt_source :: "prompt_source option"
  as_prompt_hook_seen :: bool
  as_prompt_sole_inferred :: bool
  as_open_tools :: "(py_text \<times> open_tool) list"
  as_open_chats :: "(py_text option \<times> open_chat) list"
  as_evicted_chats :: "(py_text \<times> py_text) list"
  as_forgot_early_close :: bool
  as_subagents :: "(py_text \<times> open_subagent) list"
  as_evicted_tools :: "(py_text \<times> evicted_tool) list"
  as_evicted_subagents :: "(py_text \<times> evicted_subagent) list"
  as_turn_index :: nat
  as_issued_conversation_id :: py_text
  as_tool_meta :: "(py_text \<times> py_text \<times> bytes \<times> int) list"
  as_result :: "stream_line option"
  as_awaiting_result :: bool
  as_error :: "py_text option"
  as_bridge :: "bridge_binding option"
  as_pending :: "pending_span list"
  as_drawn :: nat
  as_captured :: "internal_span list"
  as_counters :: counters

definition new_agent_session :: "units \<Rightarrow> unit_id \<Rightarrow> py_text \<Rightarrow> int \<Rightarrow> py_text \<Rightarrow> agent_session" where
  "new_agent_session us u key start_ns issued =
     \<lparr>as_units = us, as_unit = u, as_key = key, as_session_id = None, as_model = None,
      as_main_thread = \<lparr>th_last_ns = start_ns, th_first_delta_ns = 0, th_closed_early = None\<rparr>,
      as_threads = [], as_prompt = [], as_prompt_source = None, as_prompt_hook_seen = False,
      as_prompt_sole_inferred = False, as_open_tools = [], as_open_chats = [], as_evicted_chats = [],
      as_forgot_early_close = False, as_subagents = [], as_evicted_tools = [],
      as_evicted_subagents = [], as_turn_index = 0, as_issued_conversation_id = issued,
      as_tool_meta = [], as_result = None, as_awaiting_result = False, as_error = None,
      as_bridge = None, as_pending = [], as_drawn = 0, as_captured = [], as_counters = []\<rparr>"

definition tick :: "string \<Rightarrow> agent_session \<Rightarrow> agent_session" where
  "tick name s = s\<lparr>as_counters := as_counters s @ [name]\<rparr>"

definition capture :: "internal_span \<Rightarrow> agent_session \<Rightarrow> agent_session" where
  "capture f s = s\<lparr>as_captured := as_captured s @ [f]\<rparr>"

definition session_context :: "agent_session \<Rightarrow> span_context" where
  "session_context s = unit_context (as_units s) (as_unit s)"

definition room_for ::
  "agent_world \<Rightarrow> 'a list \<Rightarrow> string \<Rightarrow> agent_session \<Rightarrow> 'a option \<times> 'a list \<times> agent_session" where
  "room_for w table place s =
     (case evict_oldest (aw_max_entries w) table of
        (None, rest) \<Rightarrow> (None, rest, s)
      | (Some e, rest) \<Rightarrow> (Some e, rest, tick (''adapters.assembler.'' @ place @ ''_table_full'') s))"

definition has_room :: "agent_world \<Rightarrow> 'a list \<Rightarrow> string \<Rightarrow> agent_session \<Rightarrow> bool \<times> agent_session" where
  "has_room w table place s =
     (if length table < aw_max_entries w then (True, s)
      else (False, tick (''adapters.assembler.'' @ place @ ''_table_full'') s))"

section \<open>Threads\<close>

text \<open>\<open>_Session.thread\<close>: the record, and the session with the record kept when there was room. A refused
  thread's record is handed out and never stored.\<close>

definition thread_for :: "agent_world \<Rightarrow> py_text option \<Rightarrow> int \<Rightarrow> agent_session \<Rightarrow> agent_thread \<times> agent_session" where
  "thread_for w key now s =
     (case key of
        None \<Rightarrow> (as_main_thread s, s)
      | Some k \<Rightarrow>
          (case map_of (as_threads s) k of
             Some th \<Rightarrow> (th, s)
           | None \<Rightarrow>
               (let spawned = (case map_of (as_tool_meta s) k of
                                 Some (_, _, announce_ns) \<Rightarrow> announce_ns
                               | None \<Rightarrow> th_last_ns (as_main_thread s));
                    th = \<lparr>th_last_ns = min spawned now, th_first_delta_ns = 0, th_closed_early = None\<rparr>;
                    (room, s) = has_room w (as_threads s) ''thread'' s
                in (th, if room then s\<lparr>as_threads := AList.update k th (as_threads s)\<rparr> else s))))"

text \<open>A change of the record \<open>thread\<close> returned reaches the session only through the table.\<close>

definition put_thread :: "py_text option \<Rightarrow> agent_thread \<Rightarrow> agent_session \<Rightarrow> agent_session" where
  "put_thread key th s =
     (case key of
        None \<Rightarrow> s\<lparr>as_main_thread := th\<rparr>
      | Some k \<Rightarrow> if map_of (as_threads s) k = None then s
                  else s\<lparr>as_threads := AList.update k th (as_threads s)\<rparr>)"

definition tracked_thread :: "py_text option \<Rightarrow> agent_session \<Rightarrow> agent_thread option" where
  "tracked_thread key s = (case key of None \<Rightarrow> Some (as_main_thread s) | Some k \<Rightarrow> map_of (as_threads s) k)"

definition note_chunk :: "agent_world \<Rightarrow> py_text option \<Rightarrow> int \<Rightarrow> agent_session \<Rightarrow> agent_session" where
  "note_chunk w key now s =
     (let (th, s) = thread_for w key now s
      in if th_first_delta_ns th = 0 then put_thread key (th\<lparr>th_first_delta_ns := now\<rparr>) s else s)"

definition ttft_s :: "agent_thread \<Rightarrow> int \<Rightarrow> rat option" where
  "ttft_s th start_ns =
     (if start_ns < th_first_delta_ns th then Some (of_int (th_first_delta_ns th - start_ns) / 10 ^ 9) else None)"

definition mark_thread :: "agent_world \<Rightarrow> py_text option \<Rightarrow> int \<Rightarrow> bool \<Rightarrow> agent_session \<Rightarrow> agent_session" where
  "mark_thread w key now new_turn s =
     (let (th, s) = thread_for w key now s;
          th = th\<lparr>th_last_ns := now\<rparr>
      in put_thread key (if new_turn then th\<lparr>th_first_delta_ns := 0\<rparr> else th) s)"

definition knows_subagent :: "py_text option \<Rightarrow> agent_session \<Rightarrow> bool" where
  "knows_subagent agent_id s =
     (case agent_id of None \<Rightarrow> False
      | Some a \<Rightarrow> map_of (as_subagents s) a \<noteq> None \<or> map_of (as_evicted_subagents s) a \<noteq> None)"

definition chat_scope :: "py_text option \<Rightarrow> agent_session \<Rightarrow> py_text option" where
  "chat_scope parent s =
     (if \<not> truthy_text parent then None
      else if knows_subagent parent s then parent
      else (case map_of (as_open_tools s) (the parent) of
              Some tool \<Rightarrow> if knows_subagent (ot_agent_id tool) s then ot_agent_id tool else None
            | None \<Rightarrow> None))"

definition resolve_subagent_anchor :: "py_text option \<Rightarrow> agent_session \<Rightarrow> span_context" where
  "resolve_subagent_anchor parent s =
     (if \<not> truthy_text parent then session_context s
      else
        (let (agent_id, sub) =
           (case map_of (as_subagents s) (the parent) of
              Some sub \<Rightarrow> (the parent, Some sub)
            | None \<Rightarrow>
                (case map_of (as_open_tools s) (the parent) of
                   Some tool \<Rightarrow>
                     (case ot_agent_id tool of
                        Some a \<Rightarrow> (a, map_of (as_subagents s) a)
                      | None \<Rightarrow> (the parent, None))
                 | None \<Rightarrow> (the parent, None)))
         in (case sub of
               Some sub \<Rightarrow> sd_context (os_draft sub)
             | None \<Rightarrow>
                 (case map_of (as_evicted_subagents s) agent_id of
                    Some crumb \<Rightarrow> es_context crumb
                  | None \<Rightarrow> session_context s))))"

section \<open>Responses the bound ships early\<close>

definition remember_early_close ::
  "agent_world \<Rightarrow> py_text option \<Rightarrow> py_text option \<Rightarrow> agent_session \<Rightarrow> agent_session" where
  "remember_early_close w key message_id s =
     (case message_id of
        None \<Rightarrow> s
      | Some m \<Rightarrow>
          (case tracked_thread key s of
             Some th \<Rightarrow> put_thread key (th\<lparr>th_closed_early := Some m\<rparr>) s
           | None \<Rightarrow>
               (case key of
                  None \<Rightarrow> s
                | Some k \<Rightarrow>
                    (let (evicted, rest, s) = room_for w (as_evicted_chats s) ''evicted_chat'' s
                     in s\<lparr>as_forgot_early_close := (as_forgot_early_close s \<or> evicted \<noteq> None),
                          as_evicted_chats := AList.update k m rest\<rparr>))))"

definition may_repeat :: "py_text option \<Rightarrow> agent_session \<Rightarrow> bool" where
  "may_repeat key s =
     (case key of
        None \<Rightarrow> False
      | Some k \<Rightarrow>
          as_forgot_early_close s \<and> map_of (as_open_chats s) key = None \<and> map_of (as_evicted_chats s) k = None \<and>
          (case map_of (as_threads s) k of None \<Rightarrow> True | Some th \<Rightarrow> th_closed_early th = None))"

definition shipped_early :: "stream_line \<Rightarrow> agent_session \<Rightarrow> bool" where
  "shipped_early l s =
     (case sl_message_id l of
        None \<Rightarrow> False
      | Some m \<Rightarrow>
          (case tracked_thread (sl_parent_tool_use_id l) s of
             Some th \<Rightarrow> th_closed_early th = Some m | None \<Rightarrow> False) \<or>
          (case sl_parent_tool_use_id l of
             None \<Rightarrow> False | Some k \<Rightarrow> map_of (as_evicted_chats s) k = Some m))"

definition end_chat_on :: "py_text option \<Rightarrow> agent_session \<Rightarrow> open_chat option \<times> agent_session" where
  "end_chat_on key s =
     (let s = (case key of None \<Rightarrow> s | Some k \<Rightarrow> s\<lparr>as_evicted_chats := AList.delete k (as_evicted_chats s)\<rparr>);
          s = (case tracked_thread key s of
                 Some th \<Rightarrow> put_thread key (th\<lparr>th_closed_early := None\<rparr>) s
               | None \<Rightarrow> s)
      in (map_of (as_open_chats s) key, s\<lparr>as_open_chats := AList.delete key (as_open_chats s)\<rparr>))"

fun end_chats_on :: "py_text option list \<Rightarrow> agent_session \<Rightarrow> open_chat list \<times> agent_session" where
  "end_chats_on [] s = ([], s)"
| "end_chats_on (key # keys) s =
     (let (chat, s) = end_chat_on key s; (ended, s) = end_chats_on keys s
      in (case chat of None \<Rightarrow> (ended, s) | Some c \<Rightarrow> (c # ended, s)))"

definition end_chats :: "py_text option list \<Rightarrow> agent_session \<Rightarrow> open_chat list \<times> agent_session" where
  "end_chats keys s =
     (if keys = []
      then (let s = s\<lparr>as_evicted_chats := [], as_forgot_early_close := False,
                      as_main_thread := (as_main_thread s)\<lparr>th_closed_early := None\<rparr>,
                      as_threads := map (\<lambda>(k, th). (k, th\<lparr>th_closed_early := None\<rparr>)) (as_threads s)\<rparr>
            in end_chats_on (map fst (as_open_chats s)) s)
      else end_chats_on keys s)"

definition end_tool ::
  "agent_world \<Rightarrow> py_text option \<Rightarrow> py_text option \<Rightarrow> int \<Rightarrow> bool \<Rightarrow> agent_session \<Rightarrow> bool \<times> agent_session" where
  "end_tool w parent tool_use_id now launched s =
     (let s = mark_thread w parent now False s
      in (case tool_use_id of
            None \<Rightarrow> (False, s)
          | Some t \<Rightarrow> if launched then (False, s) else (True, s\<lparr>as_threads := AList.delete t (as_threads s)\<rparr>)))"

section \<open>Held spans\<close>

definition BASE_LIMITATION :: limitation where
  "BASE_LIMITATION = TRANSPORT_TIMING_UNAVAILABLE_SUBPROCESS"

definition IN_SESSION :: evidence where
  "IN_SESSION = evidence_of UNIT_ACTIVE"

definition SOLE_LIVE :: evidence where
  "SOLE_LIVE = evidence_of UNIT_SOLE"

definition put_markers :: "limitation list \<Rightarrow> span_draft \<Rightarrow> span_draft" where
  "put_markers ms d = fold (\<lambda>m. put_marker (Member m)) ms d"

text \<open>A finish that raises inside \<open>guard(where)\<close> ships nothing and is counted there.\<close>

definition finish_into :: "agent_world \<Rightarrow> string \<Rightarrow> int option \<Rightarrow> span_draft \<Rightarrow> agent_session \<Rightarrow> agent_session" where
  "finish_into w place end_ns d s =
     (case fst (finish (aw_conversation_id w) end_ns d) of Inl e \<Rightarrow> tick place s | Inr f \<Rightarrow> capture f s)"

definition emit_pending :: "agent_world \<Rightarrow> pending_span \<Rightarrow> agent_session \<Rightarrow> agent_session" where
  "emit_pending w r s =
     (let (mine, d) = claim_emit (pe_draft r)
      in if \<not> mine then s
         else finish_into w ''adapters.assembler.emit_pending'' None
                (if pe_merged r then d else put_markers (pe_deferred_markers r) d) s)"

fun shed_pending :: "agent_world \<Rightarrow> pending_span list \<Rightarrow> agent_session \<Rightarrow> pending_span list \<times> agent_session" where
  "shed_pending w [] s = ([], s)"
| "shed_pending w (r # rs) s =
     (if aw_max_entries w \<le> length (r # rs)
      then shed_pending w rs
             (emit_pending w r (tick ''adapters.assembler.otel_bridge_pending_overflow'' s))
      else (r # rs, s))"

definition pend :: "agent_world \<Rightarrow> pending_span \<Rightarrow> agent_session \<Rightarrow> agent_session" where
  "pend w r s =
     (let (rs, s) = shed_pending w (as_pending s) s
      in s\<lparr>as_pending := rs @ [r]\<rparr>)"

definition flush_pending :: "agent_world \<Rightarrow> agent_session \<Rightarrow> agent_session" where
  "flush_pending w s = fold (emit_pending w) (as_pending s) (s\<lparr>as_pending := []\<rparr>)"

section \<open>Responses\<close>

text \<open>\<open>[\<close>, \<open>]\<close> and \<open>,\<close> as bytes; \<open>_join_blocks\<close>.\<close>

definition join_blocks :: "bytes \<Rightarrow> bytes \<Rightarrow> bytes" where
  "join_blocks held added =
     (if held = [] \<or> held = [91, 93] then added
      else if added = [] \<or> added = [91, 93] then held
      else if hd held = 91 \<and> hd added = 91 \<and> last held = 93 \<and> last added = 93
      then butlast held @ 44 # tl added
      else 91 # held @ 44 # added @ [93])"

definition count_from :: "int option \<Rightarrow> count_value" where
  "count_from n = (case n of None \<Rightarrow> Co_none | Some n \<Rightarrow> Co_int n)"

definition gen_ai_of :: "agent_world \<Rightarrow> chat_block \<Rightarrow> gen_ai" where
  "gen_ai_of w g =
     \<lparr>ga_operation = str_lit ''chat'', ga_input_tokens = count_from (cb_input_tokens g),
      ga_output_tokens = count_from (cb_output_tokens g),
      ga_cache_read_input_tokens = count_from (cb_cache_read g),
      ga_cache_creation_input_tokens = count_from (cb_cache_creation g),
      ga_reasoning_output_tokens = Co_none, ga_rest = aw_chat w g\<rparr>"

definition fold_usage :: "agent_world \<Rightarrow> stream_line \<Rightarrow> chat_block \<Rightarrow> chat_block" where
  "fold_usage w l g =
     (let reports_input = (sl_input_tokens l \<noteq> None \<or> sl_cache_read_tokens l \<noteq> None \<or>
                           sl_cache_creation_tokens l \<noteq> None);
          g = (if reports_input \<and> (sl_input_tokens l \<noteq> None \<or> cb_input_tokens g = None)
               then g\<lparr>cb_input_tokens := sl_input_tokens l, cb_cache_read := sl_cache_read_tokens l,
                      cb_cache_creation := sl_cache_creation_tokens l\<rparr>
               else g);
          g = (if sl_output_tokens l \<noteq> None then g\<lparr>cb_output_tokens := sl_output_tokens l\<rparr> else g);
          g = (if truthy_text (sl_stop_reason l)
               then g\<lparr>cb_finish_reason := map_option (aw_stop w) (sl_stop_reason l)\<rparr> else g)
      in if truthy_text (sl_model l) then g\<lparr>cb_response_model := sl_model l\<rparr> else g)"

definition content_of :: "stream_line \<Rightarrow> bytes" where
  "content_of l = (case sl_content_json l of None \<Rightarrow> [] | Some b \<Rightarrow> b)"

definition continues :: "open_chat \<Rightarrow> stream_line \<Rightarrow> bool" where
  "continues chat l \<longleftrightarrow> sl_message_id l \<noteq> None \<and> sl_message_id l = oc_message_id chat"

text \<open>\<open>_OpenChat.apply\<close>; the answer says whether \<open>set_gen_ai\<close> returned.\<close>

definition apply_chat :: "agent_world \<Rightarrow> open_chat \<Rightarrow> agent_session \<Rightarrow> bool \<times> open_chat \<times> agent_session" where
  "apply_chat w chat s =
     (let d = put_end_ns (oc_end_ns chat) (oc_draft chat)
      in case put_gen_ai (aw_nearest w) (aw_fadd w) (gen_ai_of w (oc_gen_ai chat)) (as_counters s) d of
           Inl e \<Rightarrow> (False, chat\<lparr>oc_draft := d\<rparr>, s)
         | Inr (c, d) \<Rightarrow>
             (True,
              chat\<lparr>oc_draft := put_io (oc_input_data chat) (oc_output_data chat) (oc_input_attempted chat) True d\<rparr>,
              s\<lparr>as_counters := c\<rparr>))"

definition fold_chat :: "agent_world \<Rightarrow> stream_line \<Rightarrow> int \<Rightarrow> open_chat \<Rightarrow> agent_session \<Rightarrow> bool \<times> open_chat \<times> agent_session" where
  "fold_chat w l now chat s =
     apply_chat w
       (chat\<lparr>oc_gen_ai := fold_usage w l (oc_gen_ai chat),
             oc_output_data := join_blocks (oc_output_data chat) (content_of l), oc_end_ns := now\<rparr>) s"

definition conversation_of :: "agent_world \<Rightarrow> nat \<Rightarrow> agent_session \<Rightarrow> conversation" where
  "conversation_of w turn s =
     aw_conversation w
       \<lparr>cf_conversation_id = (case as_session_id s of
            Some i \<Rightarrow> if i = [] then as_issued_conversation_id s else i
          | None \<Rightarrow> as_issued_conversation_id s),
        cf_session_id = as_session_id s, cf_turn_index = turn\<rparr>"

definition prompt_source_text :: "prompt_source \<Rightarrow> py_text" where
  "prompt_source_text p = (case p of Prompt_stream \<Rightarrow> str_lit ''stream'' | Prompt_hook \<Rightarrow> str_lit ''hook'')"

definition draw_span_id :: "agent_world \<Rightarrow> agent_session \<Rightarrow> span_id \<times> agent_session" where
  "draw_span_id w s = (aw_span_id w (as_drawn s), s\<lparr>as_drawn := Suc (as_drawn s)\<rparr>)"

definition first_block :: "agent_world \<Rightarrow> stream_line \<Rightarrow> rat option \<Rightarrow> agent_session \<Rightarrow> chat_block" where
  "first_block w l ttft s =
     \<lparr>cb_request_model = as_model s, cb_response_model = sl_model l, cb_response_id = sl_message_id l,
      cb_input_tokens = sl_input_tokens l, cb_output_tokens = sl_output_tokens l,
      cb_cache_read = sl_cache_read_tokens l, cb_cache_creation = sl_cache_creation_tokens l,
      cb_finish_reason = (if truthy_text (sl_stop_reason l)
                          then map_option (aw_stop w) (sl_stop_reason l) else None),
      cb_ttft_s = ttft\<rparr>"

definition consumes_prompt :: "stream_line \<Rightarrow> agent_session \<Rightarrow> bool" where
  "consumes_prompt l s \<longleftrightarrow> sl_parent_tool_use_id l = None \<and> as_prompt_source s \<noteq> None"

definition chat_parent :: "stream_line \<Rightarrow> agent_session \<Rightarrow> parentage" where
  "chat_parent l s =
     child_of [] (resolve_subagent_anchor (sl_parent_tool_use_id l) s)
       (if consumes_prompt l s \<and> as_prompt_sole_inferred s then SOLE_LIVE else IN_SESSION) None None"

definition opened_chat ::
  "agent_world \<Rightarrow> stream_line \<Rightarrow> int \<Rightarrow> bool \<Rightarrow> int \<Rightarrow> rat option \<Rightarrow> chat_block \<Rightarrow> span_draft \<Rightarrow> agent_session \<Rightarrow> open_chat" where
  "opened_chat w l now consume start_ns ttft g d s =
     \<lparr>oc_message_id = sl_message_id l,
      oc_draft = put_status S_OK [] (put_conversation (Some (conversation_of w (as_turn_index s) s)) d),
      oc_gen_ai = g, oc_ttft = ttft, oc_start_ns = start_ns, oc_opened_ns = now, oc_end_ns = now,
      oc_agent_id = chat_scope (sl_parent_tool_use_id l) s,
      oc_input_data = (if consume then as_prompt s else []),
      oc_input_attempted = consume, oc_output_data = content_of l\<rparr>"

definition take_prompt :: "bool \<Rightarrow> open_chat \<Rightarrow> agent_session \<Rightarrow> open_chat \<times> agent_session" where
  "take_prompt consume chat s =
     (let (d, s) =
        (case as_prompt_source s of
           Some src \<Rightarrow>
             if consume
             then (put_extra (str_lit ''wardex.agent.prompt_source'')
                     (Sc_str (prompt_source_text src)) (oc_draft chat),
                   s\<lparr>as_prompt := [], as_prompt_source := None, as_prompt_hook_seen := False,
                     as_prompt_sole_inferred := False\<rparr>)
             else (oc_draft chat, s)
         | None \<Rightarrow> (oc_draft chat, s))
      in (chat\<lparr>oc_draft := replace_correlation None d\<rparr>, s))"

text \<open>\<open>_open_chat\<close>: None when the token check raises; the prompt is then not consumed.\<close>

definition begin_chat :: "agent_world \<Rightarrow> stream_line \<Rightarrow> int \<Rightarrow> agent_session \<Rightarrow> open_chat option \<times> agent_session" where
  "begin_chat w l now s =
     (let consume = consumes_prompt l s;
          p = chat_parent l s;
          (th, s) = thread_for w (sl_parent_tool_use_id l) now s;
          start_ns = min (th_last_ns th) now;
          ttft = ttft_s th start_ns;
          (fresh, s) = draw_span_id w s;
          d = vocabulary_draft fresh p CHAT (sl_model l) FROM_ADAPTER start_ns None;
          g = first_block w l ttft s
      in case put_gen_ai (aw_nearest w) (aw_fadd w) (gen_ai_of w g) (as_counters s) d of
           Inl e \<Rightarrow> (None, s)
         | Inr (c, d) \<Rightarrow>
             (let s = s\<lparr>as_counters := c\<rparr>;
                  (ok, chat, s) = apply_chat w (opened_chat w l now consume start_ns ttft g d s) s
              in if \<not> ok then (None, s)
                 else (let (chat, s) = take_prompt consume chat s in (Some chat, s))))"

definition ship_chat :: "agent_world \<Rightarrow> bool \<Rightarrow> open_chat \<Rightarrow> agent_session \<Rightarrow> agent_session" where
  "ship_chat w closed_early chat s =
     (let timing = (if oc_ttft chat \<noteq> None then [BASE_LIMITATION, TTFT_IPC_APPROXIMATION] else [BASE_LIMITATION]);
          d = (if closed_early
               then put_marker (Member SESSION_ENTRY_TABLE_FULL) (put_status S_UNSET [] (oc_draft chat))
               else oc_draft chat)
      in case as_bridge s of
           None \<Rightarrow> finish_into w ''adapters.assembler.emit_chat'' (Some (oc_end_ns chat)) (put_markers timing d) s
         | Some b \<Rightarrow>
             pend w \<lparr>pe_draft = d, pe_kind = Pending_chat, pe_deferred_markers = timing, pe_tool_use_id = None,
                     pe_agent_id = oc_agent_id chat, pe_window = Some (oc_start_ns chat, oc_opened_ns chat),
                     pe_gen_ai = Some (oc_gen_ai chat), pe_merged = False, pe_mergeable = True\<rparr> s)"

definition close_chats :: "agent_world \<Rightarrow> py_text option list \<Rightarrow> agent_session \<Rightarrow> agent_session" where
  "close_chats w keys s = (let (ended, s) = end_chats keys s in fold (ship_chat w False) ended s)"

text \<open>\<open>_emit_chat\<close>, in the code's three cases: another block of the held response, a later line of one
  the bound shipped, a new response.\<close>

definition count_conditions :: "stream_line \<Rightarrow> agent_session \<Rightarrow> agent_session" where
  "count_conditions l s =
     (let s = (if sl_usage_totals_unpaired l then tick ''adapters.assembler.stream_usage_totals_unpaired'' s else s)
      in if sl_usage_overflowed l then tick ''adapters.assembler.stream_usage_overflowed'' s else s)"

definition install_chat :: "agent_world \<Rightarrow> py_text option \<Rightarrow> open_chat \<Rightarrow> agent_session \<Rightarrow> agent_session" where
  "install_chat w key chat s =
     (let (evicted, rest, s) = room_for w (as_open_chats s) ''open_chat'' s;
          s = s\<lparr>as_open_chats := rest\<rparr>;
          s = (case evicted of
                 None \<Rightarrow> s
               | Some (k, old) \<Rightarrow> remember_early_close w k (oc_message_id old) (ship_chat w True old s))
      in s\<lparr>as_open_chats := AList.update key chat (as_open_chats s)\<rparr>)"

definition new_response :: "agent_world \<Rightarrow> stream_line \<Rightarrow> int \<Rightarrow> agent_session \<Rightarrow> open_chat option \<times> agent_session" where
  "new_response w l now s =
     (let repeat = may_repeat (sl_parent_tool_use_id l) s;
          s = close_chats w [sl_parent_tool_use_id l] s;
          s = s\<lparr>as_turn_index := Suc (as_turn_index s)\<rparr>;
          (chat, s) = begin_chat w l now s
      in case chat of
           None \<Rightarrow> (None, tick ''adapters.assembler.emit_chat'' s)
         | Some c \<Rightarrow>
             (Some (if repeat then c\<lparr>oc_draft := put_marker (Member SESSION_ENTRY_TABLE_FULL) (oc_draft c)\<rparr> else c), s))"

definition line_apart :: "agent_world \<Rightarrow> stream_line \<Rightarrow> int \<Rightarrow> agent_session \<Rightarrow> agent_session" where
  "line_apart w l now s =
     (let key = sl_parent_tool_use_id l
      in if shipped_early l s
         then mark_thread w key now True (tick ''adapters.assembler.chat_line_after_evict'' s)
         else (let (chat, s) = new_response w l now s; s = mark_thread w key now True s
               in case chat of None \<Rightarrow> s | Some c \<Rightarrow> install_chat w key c s))"

definition emit_chat :: "agent_world \<Rightarrow> stream_line \<Rightarrow> int \<Rightarrow> agent_session \<Rightarrow> agent_session" where
  "emit_chat w l now s =
     (let key = sl_parent_tool_use_id l; s = count_conditions l s
      in case map_of (as_open_chats s) key of
           None \<Rightarrow> line_apart w l now s
         | Some held \<Rightarrow>
             if continues held l
             then (let (ok, chat, s) = fold_chat w l now held s;
                       s = s\<lparr>as_open_chats := AList.update key chat (as_open_chats s)\<rparr>
                   in mark_thread w key now True (if ok then s else tick ''adapters.assembler.emit_chat'' s))
             else line_apart w l now s)"

end
