(* ===== verification/Otel_Merge.thy ===== *)
theory Otel_Merge
  imports Agent_Session "HOL-Library.Multiset"
begin

text \<open>
  What the CLI's own telemetry is and which chat each of its requests belongs to:
  \<open>_adapters/_otel_merge.py\<close>.

  A decoded span is the projection the module makes of it (\<open>otel_span\<close>). An \<open>llm_request\<close> is an
  object; the join tells requests apart by identity, which is their place in the view
  (\<open>lm_ident\<close>). Conversion of an integer to a float is the argument \<open>nearest\<close>.
\<close>

section \<open>Decoded spans\<close>

text \<open>\<open>OV_other\<close> is a value of no scalar type, with its truth value.\<close>

datatype otel_value = OV_str py_text | OV_int int | OV_float pyfloat | OV_bool bool | OV_other bool

record otel_span =
  ox_name :: string
  ox_span_id :: py_text
  ox_parent_hex :: py_text
  ox_start_ns :: int
  ox_end_ns :: int
  ox_status_code :: int
  ox_attrs :: "(string \<times> otel_value) list"

record otel_tool =
  ol_span_ids :: "py_text list"
  ol_outer :: "otel_span option"
  ol_execution :: "otel_span option"

record otel_llm =
  lm_ident :: nat
  lm_span :: otel_span
  lm_agent_id :: "py_text option"
  lm_response_id :: "py_text option"
  lm_ttft_ms :: "pyfloat option"

record bridge_view =
  vw_tools :: "(py_text \<times> otel_tool) list"
  vw_llm :: "otel_llm list"
  vw_interactions :: "otel_span list"
  vw_spawns :: "(py_text \<times> otel_span) list"
  vw_increments :: "(string \<times> otel_span) list"
  vw_by_span_id :: "(py_text \<times> otel_span) list"
  vw_unknown :: nat
  vw_counters :: counters

definition empty_view :: bridge_view where
  "empty_view = \<lparr>vw_tools = [], vw_llm = [], vw_interactions = [], vw_spawns = [], vw_increments = [],
     vw_by_span_id = [], vw_unknown = 0, vw_counters = []\<rparr>"

definition recognized :: "bridge_view \<Rightarrow> nat" where
  "recognized v = length (vw_tools v) + length (vw_llm v) + length (vw_interactions v) + length (vw_spawns v) +
     length (vw_increments v)"

definition tool_duration_ms :: "otel_tool \<Rightarrow> rat option" where
  "tool_duration_ms t =
     (case (case ol_execution t of Some x \<Rightarrow> Some x | None \<Rightarrow> ol_outer t) of
        None \<Rightarrow> None
      | Some x \<Rightarrow> if ox_end_ns x \<le> ox_start_ns x then None
                  else Some (of_int (ox_end_ns x - ox_start_ns x) / 10 ^ 6))"

section \<open>Classification\<close>

definition STEP_NAMES :: "(string \<times> string) list" where
  "STEP_NAMES = [(''claude_code.hook'', ''hook''), (''claude_code.mcp.rpc'', ''mcp_rpc''),
     (''claude_code.bash.subprocess'', ''bash_subprocess''), (''claude_code.compaction'', ''compaction''),
     (''claude_code.tool.blocked_on_user'', ''tool_blocked_on_user'')]"

fun nonempty_str :: "otel_value option \<Rightarrow> py_text option" where
  "nonempty_str (Some (OV_str t)) = (if t = [] then None else Some t)"
| "nonempty_str _ = None"

fun truthy_value :: "otel_value \<Rightarrow> bool" where
  "truthy_value (OV_str t) = (t \<noteq> [])"
| "truthy_value (OV_int n) = (n \<noteq> 0)"
| "truthy_value (OV_float x) = (x \<noteq> PFin 0)"
| "truthy_value (OV_bool b) = b"
| "truthy_value (OV_other b) = b"

definition tool_use_id_of :: "otel_span \<Rightarrow> py_text option" where
  "tool_use_id_of x =
     (case nonempty_str (map_of (ox_attrs x) ''tool_use_id'') of
        Some t \<Rightarrow> Some t
      | None \<Rightarrow> nonempty_str (map_of (ox_attrs x) ''gen_ai.tool.call.id''))"

definition response_id_of :: "otel_span \<Rightarrow> py_text option" where
  "response_id_of x =
     (let first = map_of (ox_attrs x) ''gen_ai.response.id'';
          v = (if (case first of None \<Rightarrow> False | Some v \<Rightarrow> truthy_value v) then first
               else map_of (ox_attrs x) ''request_id'')
      in case v of Some (OV_str t) \<Rightarrow> Some t | _ \<Rightarrow> None)"

definition ttft_ms_of :: "(int \<Rightarrow> pyfloat) \<Rightarrow> otel_span \<Rightarrow> pyfloat option" where
  "ttft_ms_of nearest x =
     (case map_of (ox_attrs x) ''ttft_ms'' of
        Some (OV_int n) \<Rightarrow> Some (nearest n)
      | Some (OV_float f) \<Rightarrow> Some f
      | Some (OV_bool b) \<Rightarrow> Some (PFin (if b then 1 else 0))
      | _ \<Rightarrow> None)"

definition unrecognized :: "string option \<Rightarrow> bridge_view \<Rightarrow> bridge_view" where
  "unrecognized counter v =
     v\<lparr>vw_unknown := Suc (vw_unknown v),
       vw_counters := vw_counters v @ (case counter of None \<Rightarrow> [] | Some c \<Rightarrow> [''adapters.anthropic.otel_bridge.'' @ c])\<rparr>"

definition classify_tool :: "otel_span \<Rightarrow> bridge_view \<Rightarrow> bridge_view" where
  "classify_tool x v =
     (case tool_use_id_of x of
        None \<Rightarrow> unrecognized (Some ''tool_without_id'') v
      | Some t \<Rightarrow>
          (let tool = (case map_of (vw_tools v) t of
                         Some tool \<Rightarrow> tool
                       | None \<Rightarrow> \<lparr>ol_span_ids = [], ol_outer = None, ol_execution = None\<rparr>);
               tool = tool\<lparr>ol_span_ids := ol_span_ids tool @ [ox_span_id x]\<rparr>;
               tool = (if ox_name x = ''claude_code.tool'' then tool\<lparr>ol_outer := Some x\<rparr>
                       else tool\<lparr>ol_execution := Some x\<rparr>)
           in v\<lparr>vw_tools := AList.update t tool (vw_tools v)\<rparr>))"

definition classify_span :: "(int \<Rightarrow> pyfloat) \<Rightarrow> otel_span \<Rightarrow> bridge_view \<Rightarrow> bridge_view" where
  "classify_span nearest x v =
     (let v = (if ox_span_id x \<noteq> [] then v\<lparr>vw_by_span_id := AList.update (ox_span_id x) x (vw_by_span_id v)\<rparr> else v)
      in if ox_name x = ''claude_code.interaction''
         then v\<lparr>vw_interactions := vw_interactions v @ [x]\<rparr>
         else if ox_name x = ''claude_code.llm_request''
         then v\<lparr>vw_llm := vw_llm v @ [\<lparr>lm_ident = length (vw_llm v), lm_span = x, lm_agent_id = None,
                 lm_response_id = response_id_of x, lm_ttft_ms = ttft_ms_of nearest x\<rparr>]\<rparr>
         else if ox_name x \<in> {''claude_code.tool'', ''claude_code.tool.execution''} then classify_tool x v
         else if ox_name x = ''claude_code.subagent.spawn''
         then (case nonempty_str (map_of (ox_attrs x) ''agent_id'') of
                 Some a \<Rightarrow> v\<lparr>vw_spawns := AList.update a x (vw_spawns v)\<rparr>
               | None \<Rightarrow> unrecognized None v)
         else (case map_of STEP_NAMES (ox_name x) of
                 Some step \<Rightarrow> v\<lparr>vw_increments := vw_increments v @ [(step, x)]\<rparr>
               | None \<Rightarrow> unrecognized (Some ''span_unrecognized'') v))"

text \<open>The walk up the CLI's parent chain. A parent already seen ends it with None, as an unknown one
  does, so taking each visited span out of the dictionary is the set of seen ids.\<close>

function scope_above :: "(py_text \<times> otel_span) list \<Rightarrow> py_text \<Rightarrow> py_text option" where
  "scope_above spans parent =
     (if parent = [] then None
      else case map_of spans parent of
        None \<Rightarrow> None
      | Some x \<Rightarrow>
          if ox_name x = ''claude_code.subagent.spawn'' then nonempty_str (map_of (ox_attrs x) ''agent_id'')
          else scope_above (AList.delete parent spans) (ox_parent_hex x))"
  by pat_completeness auto
termination
proof (relation "measure (\<lambda>(spans, _). length spans)")
  show "((AList.delete parent spans, ox_parent_hex x), (spans, parent)) \<in> measure (\<lambda>(spans, _). length spans)"
    if "map_of spans parent = Some x" for spans parent x
    using map_of_SomeD [OF that] by (auto simp: AList.delete_eq length_filter_less)
qed simp

definition agent_scope :: "bridge_view \<Rightarrow> otel_span \<Rightarrow> py_text option" where
  "agent_scope v x =
     (case nonempty_str (map_of (ox_attrs x) ''agent_id'') of
        Some own \<Rightarrow> Some own
      | None \<Rightarrow> scope_above (vw_by_span_id v) (ox_parent_hex x))"

definition classify :: "(int \<Rightarrow> pyfloat) \<Rightarrow> otel_span list \<Rightarrow> bridge_view" where
  "classify nearest xs =
     (let v = fold (classify_span nearest) xs empty_view
      in v\<lparr>vw_llm := map (\<lambda>l. l\<lparr>lm_agent_id := agent_scope v (lm_span l)\<rparr>) (vw_llm v)\<rparr>)"

section \<open>Windows and the join\<close>

record chat_window =
  wd_key :: nat
  wd_start_ns :: int
  wd_end_ns :: int
  wd_agent_id :: "py_text option"

record join_outcome =
  jo_pairs :: "(nat \<times> otel_llm) list"
  jo_tolerant :: "nat list"
  jo_unjoined :: "otel_llm list"
  jo_counted :: bool

text \<open>The pended chats with their place and window, in the order they were pended.\<close>

fun windows_from :: "nat \<Rightarrow> pending_span list \<Rightarrow> chat_window list" where
  "windows_from i [] = []"
| "windows_from i (r # rs) =
     (case (pe_kind r, pe_window r) of
        (Pending_chat, Some (a, b)) \<Rightarrow>
          \<lparr>wd_key = i, wd_start_ns = a, wd_end_ns = b, wd_agent_id = pe_agent_id r\<rparr> # windows_from (Suc i) rs
      | _ \<Rightarrow> windows_from (Suc i) rs)"

fun floored :: "(py_text option \<times> int) list \<Rightarrow> chat_window list \<Rightarrow> chat_window list" where
  "floored floors [] = []"
| "floored floors (c # cs) =
     c\<lparr>wd_start_ns := (case map_of floors (wd_agent_id c) of
                          Some f \<Rightarrow> if wd_start_ns c < f then f else wd_start_ns c
                        | None \<Rightarrow> wd_start_ns c)\<rparr> #
     floored (AList.update (wd_agent_id c) (wd_end_ns c) floors) cs"

definition sequence_chat_windows :: "pending_span list \<Rightarrow> chat_window list" where
  "sequence_chat_windows pending = sort_key wd_key (floored [] (sort_key wd_end_ns (windows_from 0 pending)))"

definition start_within :: "int \<Rightarrow> chat_window \<Rightarrow> otel_llm \<Rightarrow> bool" where
  "start_within eps c l \<longleftrightarrow> wd_start_ns c - eps \<le> ox_start_ns (lm_span l) \<and> ox_start_ns (lm_span l) \<le> wd_end_ns c + eps"

definition fits :: "int \<Rightarrow> chat_window \<Rightarrow> otel_llm \<Rightarrow> bool" where
  "fits eps c l \<longleftrightarrow> wd_agent_id c = lm_agent_id l \<and> start_within eps c l"

definition partner :: "chat_window list \<Rightarrow> otel_llm list \<Rightarrow> int \<Rightarrow> chat_window \<Rightarrow> otel_llm option" where
  "partner chats llms eps c =
     (case filter (fits eps c) llms of
        [l] \<Rightarrow> if length (filter (\<lambda>c. fits eps c l) chats) = 1 then Some l else None
      | _ \<Rightarrow> None)"

definition match_pairs :: "chat_window list \<Rightarrow> otel_llm list \<Rightarrow> int \<Rightarrow> (nat \<times> otel_llm) list" where
  "match_pairs chats llms eps =
     concat (map (\<lambda>c. case partner chats llms eps c of Some l \<Rightarrow> [(wd_key c, l)] | None \<Rightarrow> []) chats)"

definition JOIN_EPS_NS :: int where
  "JOIN_EPS_NS = 1000000000"

definition without_taken ::
  "(nat \<times> otel_llm) list \<Rightarrow> chat_window list \<times> otel_llm list \<Rightarrow> chat_window list \<times> otel_llm list" where
  "without_taken pairs r =
     (filter (\<lambda>c. wd_key c \<notin> fst ` set pairs) (fst r),
      filter (\<lambda>l. lm_ident l \<notin> (lm_ident \<circ> snd) ` set pairs) (snd r))"

definition join_chats :: "chat_window list \<Rightarrow> otel_llm list \<Rightarrow> int \<Rightarrow> join_outcome" where
  "join_chats chats llms eps =
     (let strict = match_pairs chats llms 0;
          (chats, llms) = without_taken strict (chats, llms);
          wide = match_pairs chats llms eps;
          (chats, llms) = without_taken wide (chats, llms)
      in \<lparr>jo_pairs = strict @ wide, jo_tolerant = (if 0 < eps then map fst wide else []), jo_unjoined = llms,
          jo_counted = (llms \<noteq> [])\<rparr>)"

section \<open>What may be copied\<close>

definition OTEL_EXTRA_PREFIX :: string where
  "OTEL_EXTRA_PREFIX = ''wardex.anthropic_agent_sdk.otel.''"

definition ALLOWED_KEYS :: "string list" where
  "ALLOWED_KEYS = [''tool_name'', ''agent_id'', ''parent_agent_id'', ''stop_reason'', ''request_id'',
     ''client_request_id'', ''ttft_ms'']"

definition GEN_AI_IDENTITY_KEYS :: "string list" where
  "GEN_AI_IDENTITY_KEYS = [''gen_ai.response.id'', ''gen_ai.response.model'', ''gen_ai.request.model'',
     ''gen_ai.response.finish_reasons'', ''gen_ai.tool.call.id'']"

definition GEN_AI_USAGE_KEYS :: "string list" where
  "GEN_AI_USAGE_KEYS = [''gen_ai.usage.input_tokens'', ''gen_ai.usage.output_tokens'',
     ''gen_ai.usage.cache_read_input_tokens'', ''gen_ai.usage.cache_creation_input_tokens'']"

fun scalar_of :: "otel_value \<Rightarrow> scalar option" where
  "scalar_of (OV_str t) = Some (Sc_str t)"
| "scalar_of (OV_int n) = Some (Sc_int n)"
| "scalar_of (OV_float x) = Some (Sc_float x)"
| "scalar_of (OV_bool b) = Some (Sc_bool b)"
| "scalar_of (OV_other b) = None"

definition copied_key :: "string \<Rightarrow> string option" where
  "copied_key k =
     (if k \<in> set GEN_AI_IDENTITY_KEYS then Some k
      else if k \<in> set GEN_AI_USAGE_KEYS \<or> k \<in> set ALLOWED_KEYS then Some (OTEL_EXTRA_PREFIX @ k)
      else None)"

definition allowlisted_extras :: "(string \<times> otel_value) list \<Rightarrow> (string \<times> scalar) list \<times> counters" where
  "allowlisted_extras attrs =
     (List.map_filter (\<lambda>(k, v). case (copied_key k, scalar_of v) of (Some k', Some x) \<Rightarrow> Some (k', x) | _ \<Rightarrow> None) attrs,
      replicate (length (filter (\<lambda>(k, v). copied_key k = None \<or> scalar_of v = None) attrs))
        ''adapters.anthropic.otel_bridge.attr_dropped'' @
      (if \<exists>(k, v) \<in> set attrs. k \<in> set GEN_AI_USAGE_KEYS \<and> scalar_of v \<noteq> None
       then [''adapters.anthropic.otel_bridge.usage_demoted''] else []))"

section \<open>Windows do not overlap\<close>

lemma windows_from_keys: "c \<in> set (windows_from i rs) \<Longrightarrow> i \<le> wd_key c"
  by (induction rs arbitrary: i)
     (fastforce split: pending_kind.splits option.splits if_splits dest: Suc_leD)+

lemma windows_from_distinct: "distinct (map wd_key (windows_from i rs))"
  by (induction rs arbitrary: i)
     (auto split: pending_kind.splits option.splits dest!: windows_from_keys)

lemma floored_fields:
  "map wd_key (floored floors cs) = map wd_key cs" "map wd_end_ns (floored floors cs) = map wd_end_ns cs"
  "map wd_agent_id (floored floors cs) = map wd_agent_id cs"
  by (induction floors cs rule: floored.induct) simp_all

lemma floored_above:
  assumes "map_of floors a = Some f" "c \<in> set (floored floors cs)" "wd_agent_id c = a"
    and "sorted (map wd_end_ns cs)" "\<forall>x \<in> set cs. f \<le> wd_end_ns x"
  shows "f \<le> wd_start_ns c"
  using assms
proof (induction floors cs arbitrary: f rule: floored.induct)
  case (2 floors x cs)
  show ?case
  proof (cases "c \<in> set (floored (AList.update (wd_agent_id x) (wd_end_ns x) floors) cs)")
    case True
    show ?thesis
    proof (cases "wd_agent_id x = a")
      case True
      then have "wd_end_ns x \<le> wd_start_ns c"
        using 2 \<open>c \<in> set (floored _ cs)\<close> by (intro "2.IH") (auto simp: map_of_update)
      then show ?thesis using 2 by force
    next
      case False
      then show ?thesis using 2 \<open>c \<in> set (floored _ cs)\<close> by (intro "2.IH") (auto simp: map_of_update)
    qed
  next
    case False
    then show ?thesis using 2 by auto
  qed
qed simp

definition apart :: "chat_window \<Rightarrow> chat_window \<Rightarrow> bool" where
  "apart c c' \<longleftrightarrow> wd_agent_id c = wd_agent_id c' \<longrightarrow> wd_end_ns c \<le> wd_start_ns c' \<or> wd_end_ns c' \<le> wd_start_ns c"

lemma floored_apart:
  assumes "sorted (map wd_end_ns cs)"
  shows "sorted_wrt apart (floored floors cs)"
  using assms
proof (induction floors cs rule: floored.induct)
  case (2 floors x cs)
  have "wd_end_ns x \<le> wd_start_ns c"
    if "c \<in> set (floored (AList.update (wd_agent_id x) (wd_end_ns x) floors) cs)" "wd_agent_id c = wd_agent_id x" for c
    using that 2 by (intro floored_above [where c = c and cs = cs]) (auto simp: map_of_update)
  then show ?case using 2 by (auto simp: apart_def)
qed simp

lemma sequenced_distinct: "distinct (map wd_key (sequence_chat_windows pending))"
proof -
  have "mset (map wd_key (sequence_chat_windows pending)) =
      mset (map wd_key (floored [] (sort_key wd_end_ns (windows_from 0 pending))))"
    by (simp add: sequence_chat_windows_def)
  also have "\<dots> = mset (map wd_key (windows_from 0 pending))" by (simp add: floored_fields)
  finally show ?thesis using windows_from_distinct mset_eq_imp_distinct_iff by blast
qed

text \<open>C38: However late the responses were pended, two join windows of one scope share at most one
  instant.\<close>

theorem sequenced_windows_do_not_overlap:
  assumes "c \<in> set (sequence_chat_windows pending)" "c' \<in> set (sequence_chat_windows pending)"
    and "c \<noteq> c'" "wd_agent_id c = wd_agent_id c'"
  shows "wd_end_ns c \<le> wd_start_ns c' \<or> wd_end_ns c' \<le> wd_start_ns c"
proof -
  let ?fs = "floored [] (sort_key wd_end_ns (windows_from 0 pending))"
  have s: "sorted_wrt apart ?fs" by (rule floored_apart) simp
  obtain i j where ij: "i < length ?fs" "?fs ! i = c" "j < length ?fs" "?fs ! j = c'"
    using assms(1,2) by (auto simp: sequence_chat_windows_def in_set_conv_nth)
  then have "i \<noteq> j" using assms(3) by blast
  then have "apart c c' \<or> apart c' c"
    using sorted_wrt_nth_less [OF s, of i j] sorted_wrt_nth_less [OF s, of j i] ij by force
  then show ?thesis using assms(4) by (auto simp: apart_def)
qed

section \<open>The join\<close>

lemma partner_Some:
  "partner chats llms eps c = Some l \<longleftrightarrow>
     filter (fits eps c) llms = [l] \<and> length (filter (\<lambda>c. fits eps c l) chats) = 1"
  by (auto simp: partner_def split: list.splits)

lemma in_match_pairs:
  "(k, l) \<in> set (match_pairs chats llms eps) \<longleftrightarrow> (\<exists>c \<in> set chats. wd_key c = k \<and> partner chats llms eps c = Some l)"
  by (force simp: match_pairs_def split: option.splits)

lemma only_one:
  assumes "length (filter P xs) = 1" "x \<in> set xs" "P x" "y \<in> set xs" "P y"
  shows "x = y"
proof -
  obtain z where "filter P xs = [z]" using assms(1) by (cases "filter P xs") auto
  then have z: "set (filter P xs) = {z}" by simp
  have "x \<in> set (filter P xs)" "y \<in> set (filter P xs)" using assms(2-5) by simp_all
  then show ?thesis unfolding z by blast
qed

lemma match_pairs_keys:
  assumes "distinct (map wd_key chats)"
  shows "distinct (map fst (match_pairs chats llms eps))"
proof -
  have "distinct (map fst (concat (map (\<lambda>c. case f c of Some l \<Rightarrow> [(wd_key c, l)] | None \<Rightarrow> []) cs)))"
    if "distinct (map wd_key cs)" for cs and f :: "chat_window \<Rightarrow> otel_llm option"
    using that by (induction cs) (auto split: option.splits)
  then show ?thesis using assms by (simp add: match_pairs_def)
qed

lemma match_pairs_facts:
  assumes "(k, l) \<in> set (match_pairs chats llms eps)"
  obtains c where "c \<in> set chats" "wd_key c = k" "l \<in> set llms" "fits eps c l"
    "\<forall>c' \<in> set chats. fits eps c' l \<longrightarrow> c' = c" "\<forall>l' \<in> set llms. fits eps c l' \<longrightarrow> l' = l"
proof -
  obtain c where c: "c \<in> set chats" "wd_key c = k" "filter (fits eps c) llms = [l]"
    "length (filter (\<lambda>c. fits eps c l) chats) = 1" using assms by (auto simp: in_match_pairs partner_Some)
  have "set (filter (fits eps c) llms) = {l}" by (simp add: c(3))
  then have l: "l \<in> set llms" "fits eps c l" "\<And>l'. l' \<in> set llms \<Longrightarrow> fits eps c l' \<Longrightarrow> l' = l" by auto
  show thesis
    by (rule that [OF c(1,2) l(1,2)]) (use only_one [OF c(4) _ _ c(1) l(2)] l(3) in blast)+
qed

lemma match_pairs_inside:
  "snd ` set (match_pairs chats llms eps) \<subseteq> set llms" "fst ` set (match_pairs chats llms eps) \<subseteq> wd_key ` set chats"
proof -
  have "l \<in> set llms \<and> k \<in> wd_key ` set chats" if "(k, l) \<in> set (match_pairs chats llms eps)" for k l
    using that by (elim match_pairs_facts) blast
  then show "snd ` set (match_pairs chats llms eps) \<subseteq> set llms" "fst ` set (match_pairs chats llms eps) \<subseteq> wd_key ` set chats"
    by force+
qed

lemma match_pairs_once:
  assumes "distinct (map wd_key chats)" "(k, l) \<in> set (match_pairs chats llms eps)" "(k', l) \<in> set (match_pairs chats llms eps)"
  shows "k = k'"
  using assms(2,3) by (elim match_pairs_facts) blast

lemma match_pairs_llms:
  assumes "distinct (map wd_key chats)" "distinct (map lm_ident llms)"
  shows "distinct (map (lm_ident \<circ> snd) (match_pairs chats llms eps))"
proof -
  let ?ps = "match_pairs chats llms eps"
  have "distinct ?ps" using match_pairs_keys [OF assms(1)] by (simp add: distinct_map)
  moreover have "inj_on (lm_ident \<circ> snd) (set ?ps)"
  proof (rule inj_onI)
    fix p q assume pq: "p \<in> set ?ps" "q \<in> set ?ps" "(lm_ident \<circ> snd) p = (lm_ident \<circ> snd) q"
    obtain k l where p: "p = (k, l)" by (cases p)
    obtain k' l' where q: "q = (k', l')" by (cases q)
    have "l \<in> set llms" "l' \<in> set llms" using pq(1,2) p q by (auto elim: match_pairs_facts)
    then have "l = l'" using pq(3) p q assms(2) by (auto simp: distinct_map dest: inj_onD)
    then show "p = q" using match_pairs_once [OF assms(1)] pq(1,2) p q by blast
  qed
  ultimately show ?thesis by (simp add: distinct_map)
qed

lemma mset_taken:
  assumes "distinct (map lm_ident llms)" "distinct (map (lm_ident \<circ> snd) ps)" "snd ` set ps \<subseteq> set llms"
  shows "mset (map snd ps) + mset (filter (\<lambda>l. lm_ident l \<notin> (lm_ident \<circ> snd) ` set ps) llms) = mset llms"
proof -
  have d: "distinct llms" using assms(1) by (simp add: distinct_map)
  have inj: "lm_ident l = lm_ident l' \<Longrightarrow> l \<in> set llms \<Longrightarrow> l' \<in> set llms \<Longrightarrow> l = l'" for l l'
    using assms(1) by (auto simp: distinct_map dest: inj_onD)
  have "distinct (map snd ps)" using assms(2) distinct_map [of lm_ident "map snd ps"] by simp
  moreover have "set (map snd ps) = set (filter (\<lambda>l. lm_ident l \<in> (lm_ident \<circ> snd) ` set ps) llms)"
    using assms(3) inj by auto
  ultimately have "mset (map snd ps) = mset (filter (\<lambda>l. lm_ident l \<in> (lm_ident \<circ> snd) ` set ps) llms)"
    using d by (metis distinct_filter set_eq_iff_mset_eq_distinct)
  then show ?thesis by (simp add: mset_filter)
qed

lemma without_taken_sets:
  "set (fst (without_taken ps (cs, ls))) = {c \<in> set cs. wd_key c \<notin> fst ` set ps}"
  "set (snd (without_taken ps (cs, ls))) = {l \<in> set ls. lm_ident l \<notin> (lm_ident \<circ> snd) ` set ps}"
  by (auto simp: without_taken_def)

text \<open>C16: The join is a matching that loses no request: a chat and a request are each joined at most
  once, the requests joined and those left over are exactly the ones given, every pair is of one
  agent scope with the request's start in the chat's window, widened by the tolerance only for the
  pairs it reports as tolerant, and a pair not reported so was unique in both directions.\<close>

theorem join_is_a_matching:
  assumes "distinct (map wd_key chats)" "distinct (map lm_ident llms)" "0 < eps"
  shows "distinct (map fst (jo_pairs (join_chats chats llms eps))) \<and>
    mset (map snd (jo_pairs (join_chats chats llms eps))) + mset (jo_unjoined (join_chats chats llms eps)) = mset llms \<and>
    (\<forall>(k, l) \<in> set (jo_pairs (join_chats chats llms eps)). \<exists>c \<in> set chats. wd_key c = k \<and>
       fits (if k \<in> set (jo_tolerant (join_chats chats llms eps)) then eps else 0) c l \<and>
       (k \<notin> set (jo_tolerant (join_chats chats llms eps)) \<longrightarrow>
          (\<forall>c' \<in> set chats. fits 0 c' l \<longrightarrow> c' = c) \<and> (\<forall>l' \<in> set llms. fits 0 c l' \<longrightarrow> l' = l)))"
proof -
  define strict where "strict = match_pairs chats llms 0"
  define cs where "cs = fst (without_taken strict (chats, llms))"
  define ls where "ls = snd (without_taken strict (chats, llms))"
  define wide where "wide = match_pairs cs ls eps"
  have join: "jo_pairs (join_chats chats llms eps) = strict @ wide"
    "jo_tolerant (join_chats chats llms eps) = map fst wide"
    "jo_unjoined (join_chats chats llms eps) = snd (without_taken wide (cs, ls))"
    using assms(3) by (simp_all add: join_chats_def strict_def cs_def ls_def wide_def Let_def split: prod.split)
  have d: "distinct (map wd_key cs)" "distinct (map lm_ident ls)"
    using assms(1,2) by (simp_all add: cs_def ls_def without_taken_def distinct_map_filter)
  have sub: "set cs \<subseteq> set chats" "set ls \<subseteq> set llms"
    by (auto simp: cs_def ls_def without_taken_sets)
  note inside = match_pairs_inside
  have "wd_key ` set cs \<inter> fst ` set strict = {}" by (auto simp: cs_def without_taken_sets)
  moreover have "fst ` set wide \<subseteq> wd_key ` set cs" unfolding wide_def by (rule inside(2))
  ultimately have left: "fst ` set wide \<inter> fst ` set strict = {}" by blast
  have one: "mset (map snd strict) + mset ls = mset llms"
    using mset_taken [OF assms(2) match_pairs_llms [OF assms(1,2)] inside(1)]
    by (simp add: ls_def without_taken_def strict_def)
  have two: "mset (map snd wide) + mset (snd (without_taken wide (cs, ls))) = mset ls"
    using mset_taken [OF d(2) match_pairs_llms [OF d] inside(1)] by (simp add: without_taken_def wide_def)
  have "distinct (map fst (strict @ wide))"
    using match_pairs_keys [OF assms(1)] match_pairs_keys [OF d(1)] left
    by (simp add: strict_def wide_def Int_commute)
  moreover have "mset (map snd (strict @ wide)) + mset (snd (without_taken wide (cs, ls))) = mset llms"
    by (simp only: map_append mset_append add.assoc two one)
  moreover have "\<exists>c \<in> set chats. wd_key c = k \<and> fits (if k \<in> set (map fst wide) then eps else 0) c l \<and>
       (k \<notin> set (map fst wide) \<longrightarrow>
          (\<forall>c' \<in> set chats. fits 0 c' l \<longrightarrow> c' = c) \<and> (\<forall>l' \<in> set llms. fits 0 c l' \<longrightarrow> l' = l))"
    if "(k, l) \<in> set (strict @ wide)" for k l
  proof (cases "(k, l) \<in> set wide")
    case True
    then obtain c where "c \<in> set cs" "wd_key c = k" "fits eps c l" unfolding wide_def by (elim match_pairs_facts)
    then show ?thesis using True sub(1) by (intro bexI [of _ c]) force+
  next
    case False
    then have s: "(k, l) \<in> set strict" using that by simp
    then have k: "k \<notin> set (map fst wide)" using left by force
    obtain c where c: "c \<in> set chats" "wd_key c = k" "l \<in> set llms" "fits 0 c l"
      "\<forall>c' \<in> set chats. fits 0 c' l \<longrightarrow> c' = c" "\<forall>l' \<in> set llms. fits 0 c l' \<longrightarrow> l' = l"
      using s unfolding strict_def by (elim match_pairs_facts)
    have "fits (if k \<in> set (map fst wide) then eps else 0) c l" using k c(4) by (simp only: if_False)
    then show ?thesis using c by blast
  qed
  ultimately show ?thesis unfolding join by blast
qed

lemma filter_single:
  assumes "distinct xs" "x \<in> set xs" "\<And>y. y \<in> set xs \<Longrightarrow> P y \<longleftrightarrow> y = x"
  shows "filter P xs = [x]"
proof -
  have "filter P xs = filter (\<lambda>y. y = x) xs" using assms(3) by (auto intro: filter_cong)
  also have "\<dots> = [x]" using assms(1,2) by (induction xs) (auto simp: filter_empty_conv)
  finally show ?thesis .
qed

text \<open>C17: Complete telemetry joins exactly. When every pended chat's own request started strictly
  inside its sequenced window and the slot holds just these requests, the strict pass pairs every chat
  with its own request: nothing is left over and nothing is marked tolerant.\<close>

theorem complete_telemetry_joins_exactly:
  assumes "\<forall>c \<in> set (sequence_chat_windows pending).
      own (wd_key c) \<in> set llms \<and> lm_agent_id (own (wd_key c)) = wd_agent_id c \<and>
      wd_start_ns c < ox_start_ns (lm_span (own (wd_key c))) \<and> ox_start_ns (lm_span (own (wd_key c))) < wd_end_ns c"
    and "\<forall>l \<in> set llms. \<exists>c \<in> set (sequence_chat_windows pending). l = own (wd_key c)"
    and "distinct (map lm_ident llms)" "0 < eps"
  shows "set (jo_pairs (join_chats (sequence_chat_windows pending) llms eps)) =
      (\<lambda>c. (wd_key c, own (wd_key c))) ` set (sequence_chat_windows pending) \<and>
    jo_tolerant (join_chats (sequence_chat_windows pending) llms eps) = [] \<and>
    jo_unjoined (join_chats (sequence_chat_windows pending) llms eps) = []"
proof -
  let ?cs = "sequence_chat_windows pending"
  have dk: "distinct (map wd_key ?cs)" by (rule sequenced_distinct)
  have dc: "distinct ?cs" "distinct llms" using dk assms(3) by (simp_all add: distinct_map)
  have home: "fits 0 c (own (wd_key c')) \<longleftrightarrow> c = c'" if "c \<in> set ?cs" "c' \<in> set ?cs" for c c'
  proof
    assume f: "fits 0 c (own (wd_key c'))"
    show "c = c'"
    proof (rule ccontr)
      assume "c \<noteq> c'"
      moreover have "wd_agent_id c = wd_agent_id c'" using f that(2) assms(1) by (simp add: fits_def)
      ultimately have "wd_end_ns c \<le> wd_start_ns c' \<or> wd_end_ns c' \<le> wd_start_ns c"
        using sequenced_windows_do_not_overlap that by blast
      moreover have "wd_start_ns c \<le> ox_start_ns (lm_span (own (wd_key c')))"
        "ox_start_ns (lm_span (own (wd_key c'))) \<le> wd_end_ns c" using f by (simp_all add: fits_def start_within_def)
      moreover have "wd_start_ns c' < ox_start_ns (lm_span (own (wd_key c')))"
        "ox_start_ns (lm_span (own (wd_key c'))) < wd_end_ns c'" using assms(1) that(2) by blast+
      ultimately show False by linarith
    qed
  next
    assume "c = c'"
    then show "fits 0 c (own (wd_key c'))" using assms(1) that(2) by (force simp: fits_def start_within_def)
  qed
  have p: "partner ?cs llms 0 c = Some (own (wd_key c))" if c: "c \<in> set ?cs" for c
  proof -
    have own: "own (wd_key c) \<in> set llms" using assms(1) c by blast
    have "l = own (wd_key c)" if l: "l \<in> set llms" "fits 0 c l" for l
    proof -
      obtain c' where "c' \<in> set ?cs" "l = own (wd_key c')" using assms(2) l(1) by blast
      then show ?thesis using home c l(2) by blast
    qed
    then have "filter (fits 0 c) llms = [own (wd_key c)]"
      using home [OF c c] own by (intro filter_single [OF dc(2) own]) blast
    moreover have "filter (\<lambda>x. fits 0 x (own (wd_key c))) ?cs = [c]"
      using home c by (intro filter_single [OF dc(1) c]) blast
    ultimately show ?thesis by (simp add: partner_Some)
  qed
  let ?s = "match_pairs ?cs llms 0"
  have s: "set ?s = (\<lambda>c. (wd_key c, own (wd_key c))) ` set ?cs"
    using p by (auto simp: in_match_pairs image_iff)
  have cs: "fst (without_taken ?s (?cs, llms)) = []"
    using s by (auto simp: without_taken_def filter_empty_conv image_iff)
  have ls: "snd (without_taken ?s (?cs, llms)) = []"
    using s assms(2) by (auto simp: without_taken_def filter_empty_conv image_iff)
  have wide: "match_pairs [] [] eps = []" by (simp add: match_pairs_def)
  have "without_taken ?s (?cs, llms) = ([], [])" using cs ls by (simp add: prod_eq_iff)
  moreover have "without_taken [] ([], []) = ([], [])" by (simp add: without_taken_def)
  ultimately show ?thesis using s by (simp add: join_chats_def wide Let_def)
qed

text \<open>C39: What is copied off a CLI span never carries the CLI's spelling of a token count or a key
  outside the three named sets: every copied key is one of the identity keys or lies in wardex's own
  namespace.\<close>

theorem nothing_crosses_by_prefix:
  assumes "(k, v) \<in> set (fst (allowlisted_extras attrs))"
  shows "(k \<in> set GEN_AI_IDENTITY_KEYS \<or>
      (\<exists>k' \<in> set GEN_AI_USAGE_KEYS \<union> set ALLOWED_KEYS. k = OTEL_EXTRA_PREFIX @ k')) \<and>
    k \<notin> set GEN_AI_USAGE_KEYS"
proof -
  obtain k' where k': "copied_key k' = Some k"
    using assms by (auto simp: allowlisted_extras_def List.map_filter_def split: option.splits)
  have "k \<notin> set GEN_AI_USAGE_KEYS" if "k \<in> set GEN_AI_IDENTITY_KEYS \<or> (\<exists>k'. k = OTEL_EXTRA_PREFIX @ k')"
    using that by (elim disjE exE) (auto simp: GEN_AI_IDENTITY_KEYS_def GEN_AI_USAGE_KEYS_def OTEL_EXTRA_PREFIX_def)
  moreover have "k \<in> set GEN_AI_IDENTITY_KEYS \<or>
      (\<exists>k' \<in> set GEN_AI_USAGE_KEYS \<union> set ALLOWED_KEYS. k = OTEL_EXTRA_PREFIX @ k')"
    using k' unfolding copied_key_def by (auto split: if_splits)
  ultimately show ?thesis by blast
qed

section \<open>Two turns and their requests\<close>

definition demo_llm :: "nat \<Rightarrow> int \<Rightarrow> otel_llm" where
  "demo_llm i start =
     \<lparr>lm_ident = i, lm_span = \<lparr>ox_name = ''claude_code.llm_request'', ox_span_id = [], ox_parent_hex = [],
        ox_start_ns = start, ox_end_ns = start + 5, ox_status_code = 0, ox_attrs = []\<rparr>,
      lm_agent_id = None, lm_response_id = None, lm_ttft_ms = None\<rparr>"

definition demo_pended :: "int \<Rightarrow> int \<Rightarrow> pending_span" where
  "demo_pended a b =
     \<lparr>pe_draft = vocabulary_draft [] (child_of [] \<lparr>sc_trace_id = [], sc_span_id = [], sc_trace_flags = 1,
        sc_is_remote = False\<rparr> IN_SESSION None None) CHAT None FROM_ADAPTER a None,
      pe_kind = Pending_chat, pe_deferred_markers = [BASE_LIMITATION], pe_tool_use_id = None, pe_agent_id = None,
      pe_window = Some (a, b), pe_gen_ai = None, pe_merged = False, pe_mergeable = True\<rparr>"

text \<open>Two chats pended in the other order than they began, both stamped with the host's one write at 10.\<close>

definition demo_pending :: "pending_span list" where
  "demo_pending = [demo_pended 10 40, demo_pended 10 20]"

lemma demo_windows:
  "sequence_chat_windows demo_pending =
     [\<lparr>wd_key = 0, wd_start_ns = 20, wd_end_ns = 40, wd_agent_id = None\<rparr>,
      \<lparr>wd_key = 1, wd_start_ns = 10, wd_end_ns = 20, wd_agent_id = None\<rparr>]"
  by (simp add: sequence_chat_windows_def demo_pending_def demo_pended_def)

theorem sequenced_windows_do_not_overlap_witness:
  "wd_end_ns (sequence_chat_windows demo_pending ! 0) \<le> wd_start_ns (sequence_chat_windows demo_pending ! 1) \<or>
   wd_end_ns (sequence_chat_windows demo_pending ! 1) \<le> wd_start_ns (sequence_chat_windows demo_pending ! 0)"
  by (rule sequenced_windows_do_not_overlap [where pending = demo_pending]) (simp_all add: demo_windows)

theorem join_is_a_matching_witness:
  "distinct (map fst (jo_pairs (join_chats (sequence_chat_windows demo_pending) [demo_llm 0 25, demo_llm 1 12] JOIN_EPS_NS)))"
proof -
  have "distinct (map wd_key (sequence_chat_windows demo_pending))" "distinct (map lm_ident [demo_llm 0 25, demo_llm 1 12])"
    "0 < JOIN_EPS_NS"
    by (simp_all add: demo_windows demo_llm_def JOIN_EPS_NS_def)
  from join_is_a_matching [OF this] show ?thesis by blast
qed

theorem complete_telemetry_joins_exactly_witness:
  "set (jo_pairs (join_chats (sequence_chat_windows demo_pending) [demo_llm 0 25, demo_llm 1 12] JOIN_EPS_NS)) =
     {(0, demo_llm 0 25), (1, demo_llm 1 12)}"
proof -
  let ?own = "\<lambda>k::nat. if k = 0 then demo_llm 0 25 else demo_llm 1 12"
  have "\<forall>c \<in> set (sequence_chat_windows demo_pending).
      ?own (wd_key c) \<in> set [demo_llm 0 25, demo_llm 1 12] \<and> lm_agent_id (?own (wd_key c)) = wd_agent_id c \<and>
      wd_start_ns c < ox_start_ns (lm_span (?own (wd_key c))) \<and> ox_start_ns (lm_span (?own (wd_key c))) < wd_end_ns c"
    "\<forall>l \<in> set [demo_llm 0 25, demo_llm 1 12]. \<exists>c \<in> set (sequence_chat_windows demo_pending). l = ?own (wd_key c)"
    "distinct (map lm_ident [demo_llm 0 25, demo_llm 1 12])" "0 < JOIN_EPS_NS"
    by (simp_all add: demo_windows demo_llm_def JOIN_EPS_NS_def)
  from complete_telemetry_joins_exactly [OF this] show ?thesis by (simp add: demo_windows)
qed

theorem nothing_crosses_by_prefix_witness:
  "OTEL_EXTRA_PREFIX @ ''gen_ai.usage.input_tokens'' \<notin> set GEN_AI_USAGE_KEYS"
proof -
  have "(OTEL_EXTRA_PREFIX @ ''gen_ai.usage.input_tokens'', Sc_int 3) \<in>
      set (fst (allowlisted_extras [(''gen_ai.usage.input_tokens'', OV_int 3)]))"
    by (simp add: allowlisted_extras_def List.map_filter_simps copied_key_def GEN_AI_IDENTITY_KEYS_def GEN_AI_USAGE_KEYS_def)
  from nothing_crosses_by_prefix [OF this] show ?thesis by blast
qed

end
