(* ===== verification/Tool_Names.thy ===== *)
theory Tool_Names
  imports Units Streams "HOL-Library.Sublist"
begin

text \<open>
  The one key space two observers of a tool call must meet in: \<open>_adapters/_anthropic_names.py\<close>.

  The in-process handler knows the name its decorator gave the tool and the server it was wrapped
  for; the CLI's hook reports \<open>mcp__server__tool\<close>, or the bare name when the host switched the
  prefix off. Server handles are objects: an identity (\<open>handle_id\<close>) and the record it stands for,
  which the wrapper may change (its instance, its tools) after registration. The value of the
  environment variable is an argument, as are the identities of the server objects.
\<close>

section \<open>Names and keys\<close>

definition MCP_PREFIX :: py_text where
  "MCP_PREFIX = str_lit ''mcp__''"

text \<open>\<open>A-Z\<close>, \<open>a-z\<close>, \<open>0-9\<close>, \<open>_\<close> and \<open>-\<close>.\<close>

definition safe_char :: "nat \<Rightarrow> bool" where
  "safe_char c \<longleftrightarrow> 65 \<le> c \<and> c \<le> 90 \<or> 97 \<le> c \<and> c \<le> 122 \<or> 48 \<le> c \<and> c \<le> 57 \<or> c = 95 \<or> c = 45"

definition sanitize :: "py_text \<Rightarrow> py_text" where
  "sanitize token = map (\<lambda>c. if safe_char c then c else 95) token"

definition mcp_tool_key :: "py_text \<Rightarrow> py_text \<Rightarrow> unit_key" where
  "mcp_tool_key server_token tool_name =
     \<lparr>uk_namespace = str_lit ''mcp.tool'', uk_value = sanitize server_token @ str_lit ''/'' @ sanitize tool_name\<rparr>"

definition builtin_tool_key :: "py_text \<Rightarrow> unit_key" where
  "builtin_tool_key tool_name = \<lparr>uk_namespace = str_lit ''tool.name'', uk_value = tool_name\<rparr>"

definition HOOK_RANK :: int where
  "HOOK_RANK = 0"

definition outranked :: "units \<Rightarrow> unit_id \<Rightarrow> unit_key \<Rightarrow> int \<Rightarrow> bool" where
  "outranked us u key rank = (case owner_rank us u key of None \<Rightarrow> False | Some owner \<Rightarrow> rank < owner)"

text \<open>No character outside ASCII lowers into one of these words, so lowering ASCII decides the same.\<close>

definition FALSY :: "py_text list" where
  "FALSY = map str_lit ['''', ''0'', ''false'', ''no'', ''off'']"

definition prefix_disabled :: "py_text option \<Rightarrow> bool" where
  "prefix_disabled env = (case env of None \<Rightarrow> False | Some v \<Rightarrow> ascii_lower (strip v) \<notin> set FALSY)"

section \<open>The catalog\<close>

type_synonym handle_id = nat

record server_handle =
  sh_name :: py_text
  sh_token :: "py_text option"
  sh_instance :: "nat option"
  sh_tools :: "py_text list"

record tool_catalog =
  tc_max :: nat
  tc_handles :: "handle_id list"
  tc_handle :: "handle_id \<Rightarrow> server_handle"
  tc_next :: handle_id

definition new_catalog :: "nat \<Rightarrow> tool_catalog" where
  "new_catalog bound =
     \<lparr>tc_max = bound, tc_handles = [],
      tc_handle = (\<lambda>_. \<lparr>sh_name = [], sh_token = None, sh_instance = None, sh_tools = []\<rparr>), tc_next = 0\<rparr>"

definition effective_token :: "server_handle \<Rightarrow> py_text" where
  "effective_token h = (case sh_token h of Some t \<Rightarrow> t | None \<Rightarrow> sanitize (sh_name h))"

definition key_for :: "server_handle \<Rightarrow> py_text \<Rightarrow> unit_key" where
  "key_for h tool_name = mcp_tool_key (effective_token h) tool_name"

text \<open>\<open>_at_fork_reinit\<close> and \<open>clear\<close>.\<close>

definition clear_catalog :: "tool_catalog \<Rightarrow> tool_catalog" where
  "clear_catalog c = c\<lparr>tc_handles := []\<rparr>"

definition apply_bound :: "nat \<Rightarrow> tool_catalog \<Rightarrow> tool_catalog" where
  "apply_bound bound c = c\<lparr>tc_max := bound\<rparr>"

fun shed_handles :: "nat \<Rightarrow> handle_id list \<Rightarrow> nat \<times> handle_id list" where
  "shed_handles bound [] = (0, [])"
| "shed_handles bound (h # hs) =
     (if bound \<le> length (h # hs) then (let (n, rest) = shed_handles bound hs in (Suc n, rest)) else (0, h # hs))"

text \<open>The handle, the catalog, and how many times \<open>server_table_full\<close> was counted.\<close>

definition handle_for ::
  "py_text \<Rightarrow> handle_id option \<Rightarrow> tool_catalog \<Rightarrow> handle_id \<times> nat \<times> tool_catalog" where
  "handle_for name existing c =
     (case existing of
        Some h \<Rightarrow> (h, 0, c)
      | None \<Rightarrow>
          (let (dropped, rest) = shed_handles (tc_max c) (tc_handles c)
           in (tc_next c, dropped,
               c\<lparr>tc_handles := rest @ [tc_next c],
                 tc_handle := (tc_handle c)(tc_next c :=
                   \<lparr>sh_name = name, sh_token = None, sh_instance = None, sh_tools = []\<rparr>),
                 tc_next := Suc (tc_next c)\<rparr>)))"

text \<open>The wrapper's own writes: the server object it got, and each tool it wraps.\<close>

definition bind_instance :: "handle_id \<Rightarrow> nat \<Rightarrow> tool_catalog \<Rightarrow> tool_catalog" where
  "bind_instance h i c = c\<lparr>tc_handle := (tc_handle c)(h := (tc_handle c h)\<lparr>sh_instance := Some i\<rparr>)\<rparr>"

definition add_tool :: "handle_id \<Rightarrow> py_text \<Rightarrow> tool_catalog \<Rightarrow> tool_catalog" where
  "add_tool h tool c = c\<lparr>tc_handle := (tc_handle c)(h := (tc_handle c h)\<lparr>sh_tools := tool # sh_tools (tc_handle c h)\<rparr>)\<rparr>"

definition resolve_one :: "py_text \<Rightarrow> nat option \<Rightarrow> tool_catalog \<Rightarrow> tool_catalog" where
  "resolve_one key inst c =
     (if inst = None then c
      else c\<lparr>tc_handle := (\<lambda>h. if h \<in> set (tc_handles c) \<and> sh_instance (tc_handle c h) = inst
                                then (tc_handle c h)\<lparr>sh_token := Some (sanitize key)\<rparr> else tc_handle c h)\<rparr>)"

text \<open>The options' \<open>mcp_servers\<close>, None when it is no mapping.\<close>

definition resolve_tokens :: "(py_text \<times> nat option) list option \<Rightarrow> tool_catalog \<Rightarrow> tool_catalog" where
  "resolve_tokens servers c =
     (case servers of None \<Rightarrow> c | Some xs \<Rightarrow> fold (\<lambda>(key, inst). resolve_one key inst) xs c)"

section \<open>From the hook's name to a key\<close>

definition live_handles :: "tool_catalog \<Rightarrow> server_handle list" where
  "live_handles c = map (tc_handle c) (tc_handles c)"

definition explains :: "py_text \<Rightarrow> server_handle \<Rightarrow> bool" where
  "explains body h \<longleftrightarrow>
     prefix (effective_token h @ str_lit ''__'') body \<and>
     drop (length (effective_token h @ str_lit ''__'')) body \<in> set (map sanitize (sh_tools h))"

definition anchored :: "tool_catalog \<Rightarrow> py_text \<Rightarrow> unit_key list" where
  "anchored c body =
     remdups (map (\<lambda>h. mcp_tool_key (effective_token h) (drop (length (effective_token h @ str_lit ''__'')) body))
       (filter (explains body) (live_handles c)))"

definition tokens_exporting :: "tool_catalog \<Rightarrow> py_text \<Rightarrow> py_text list" where
  "tokens_exporting c tool_name =
     remdups (map effective_token (filter (\<lambda>h. tool_name \<in> set (sh_tools h)) (live_handles c)))"

text \<open>\<open>body.partition("__")\<close>: None when the separator is absent.\<close>

fun split_first :: "py_text \<Rightarrow> (py_text \<times> py_text) option" where
  "split_first (a # b # cs) =
     (if a = 95 \<and> b = 95 then Some ([], cs)
      else map_option (\<lambda>(x, y). (a # x, y)) (split_first (b # cs)))"
| "split_first _ = None"

definition bare_key :: "tool_catalog \<Rightarrow> bool \<Rightarrow> py_text \<Rightarrow> unit_key option" where
  "bare_key c disabled raw =
     (if \<not> disabled then Some (builtin_tool_key raw)
      else case tokens_exporting c raw of
        [] \<Rightarrow> Some (builtin_tool_key raw)
      | [t] \<Rightarrow> Some (mcp_tool_key t raw)
      | _ \<Rightarrow> None)"

definition key_for_hook :: "tool_catalog \<Rightarrow> bool \<Rightarrow> py_text \<Rightarrow> unit_key option" where
  "key_for_hook c disabled raw =
     (if prefix MCP_PREFIX raw
      then (case anchored c (drop (length MCP_PREFIX) raw) of
              [k] \<Rightarrow> Some k
            | [] \<Rightarrow> (case split_first (drop (length MCP_PREFIX) raw) of
                       Some (server, tool) \<Rightarrow> Some (mcp_tool_key server tool)
                     | None \<Rightarrow> bare_key c disabled raw)
            | _ \<Rightarrow> None)
      else bare_key c disabled raw)"

definition ambiguous_bare :: "tool_catalog \<Rightarrow> bool \<Rightarrow> py_text \<Rightarrow> bool" where
  "ambiguous_bare c disabled tool_name \<longleftrightarrow> disabled \<and> 1 < length (tokens_exporting c tool_name)"

section \<open>The two observers meet\<close>

lemma sanitize_safe [simp]: "list_all safe_char (sanitize t)"
  by (auto simp: sanitize_def list_all_iff safe_char_def)

lemma sanitize_id: "list_all safe_char t \<Longrightarrow> sanitize t = t"
  by (simp add: sanitize_def list_all_iff map_idI)

lemma sanitize_idem [simp]: "sanitize (sanitize t) = sanitize t"
  by (simp add: sanitize_id)

text \<open>A slash is no safe character, so a key determines the two sanitized names.\<close>

lemma mcp_tool_key_eq:
  "mcp_tool_key a x = mcp_tool_key b y \<longleftrightarrow> sanitize a = sanitize b \<and> sanitize x = sanitize y"
proof -
  have split: "u @ 47 # v = u' @ 47 # v' \<longleftrightarrow> u = u' \<and> v = v'"
    if "47 \<notin> set u" "47 \<notin> set u'" for u v u' v' :: py_text
    using that by (induction u arbitrary: u') (case_tac u'; auto)+
  have "47 \<notin> set (sanitize t)" for t
    using sanitize_safe [of t] by (auto simp: list_all_iff safe_char_def)
  then show ?thesis by (auto simp: mcp_tool_key_def str_lit_def split)
qed

lemma namespaces_apart [simp]: "mcp_tool_key a x \<noteq> builtin_tool_key y"
  by (simp add: mcp_tool_key_def builtin_tool_key_def str_lit_def)

lemma claim_outranks:
  assumes "claim u key r us = (granted, us')" "0 < r"
  shows "outranked us' u key HOOK_RANK"
proof (cases "map_of (un_claims (us_unit us u)) key")
  case None
  obtain ev rest where e: "evict_oldest (us_max_entries us) (un_claims (us_unit us u)) = (ev, rest)" by fastforce
  then have "us' = set_unit u (\<lambda>x. x\<lparr>un_claims := AList.update key r rest\<rparr>)
      (if ev = None then us else count ''claim_table_full'' us)"
    using assms(1) None by (simp add: claim_def)
  then have "owner_rank us' u key = Some r"
    by (simp add: owner_rank_def set_unit_def count_def map_of_update)
  then show ?thesis using assms(2) by (simp add: outranked_def HOOK_RANK_def)
next
  case (Some best)
  then have "owner_rank us' u key = Some (if r \<le> best then best else r)"
    using assms(1) by (auto simp: claim_def owner_rank_def set_unit_def map_of_update split: if_splits)
  then show ?thesis using assms(2) by (simp add: outranked_def HOOK_RANK_def)
qed

lemma anchored_has:
  assumes "h \<in> set (live_handles c)" "tool \<in> set (sh_tools h)" "effective_token h = sanitize server"
  shows "key_for h tool \<in> set (anchored c (sanitize server @ str_lit ''__'' @ sanitize tool))"
proof -
  let ?b = "sanitize server @ str_lit ''__'' @ sanitize tool"
  have "explains ?b h" using assms(2,3) by (simp add: explains_def str_lit_def)
  moreover have "mcp_tool_key (effective_token h) (drop (length (effective_token h @ str_lit ''__'')) ?b) = key_for h tool"
    using assms(3) by (simp add: key_for_def mcp_tool_key_eq)
  ultimately show ?thesis using assms(1) unfolding anchored_def by force
qed

lemma exporting_has:
  assumes "h \<in> set (live_handles c)" "tool \<in> set (sh_tools h)"
  shows "effective_token h \<in> set (tokens_exporting c tool)"
  using assms by (auto simp: tokens_exporting_def)

lemma one_of: "x \<in> set xs \<Longrightarrow> distinct xs \<Longrightarrow> xs = [x] \<or> (\<exists>a b zs. xs = a # b # zs)"
  by (cases xs; cases "tl xs") auto

text \<open>C15: The two observers of a wrapped tool meet, or the hook names nothing. Take a tool of a live
  server handle whose token is the one the CLI uses (\<open>second_name_splits_the_key\<close> shows a handle whose
  token is not). The name the CLI reports is the prefixed one or, only where the host has switched the
  prefix off and for a tool whose own name does not begin like a prefixed one, the bare one. It is
  read as the handler's own key or as no key at all, and as no key exactly when another wrapped
  server explains the same string.
  So once the handler has claimed the call, the hook's observation of it is outranked or stands
  down: it emits nothing.\<close>

theorem observers_meet:
  assumes "h \<in> set (live_handles c)" "tool \<in> set (sh_tools h)" "effective_token h = sanitize server"
    and "raw = MCP_PREFIX @ sanitize server @ str_lit ''__'' @ sanitize tool \<or>
         disabled \<and> raw = tool \<and> \<not> prefix MCP_PREFIX tool"
  shows "key_for_hook c disabled raw \<in> {None, Some (key_for h tool)} \<and>
    (key_for_hook c disabled raw = None \<longleftrightarrow>
       (if prefix MCP_PREFIX raw
        then 1 < length (anchored c (sanitize server @ str_lit ''__'' @ sanitize tool))
        else ambiguous_bare c disabled tool)) \<and>
    (\<forall>us u granted us'. claim u (key_for h tool) 10 us = (granted, us') \<longrightarrow>
       (case key_for_hook c disabled raw of None \<Rightarrow> True | Some k \<Rightarrow> outranked us' u k HOOK_RANK))"
proof -
  have key: "key_for_hook c disabled raw \<in> {None, Some (key_for h tool)} \<and>
    (key_for_hook c disabled raw = None \<longleftrightarrow>
       (if prefix MCP_PREFIX raw
        then 1 < length (anchored c (sanitize server @ str_lit ''__'' @ sanitize tool))
        else ambiguous_bare c disabled tool))"
    using assms(4)
  proof
    let ?b = "sanitize server @ str_lit ''__'' @ sanitize tool"
    assume r: "raw = MCP_PREFIX @ ?b"
    have "distinct (anchored c ?b)" by (simp add: anchored_def)
    then show ?thesis
      using one_of [OF anchored_has [OF assms(1-3)]] by (auto simp: r key_for_hook_def)
  next
    assume r: "disabled \<and> raw = tool \<and> \<not> prefix MCP_PREFIX tool"
    have "distinct (tokens_exporting c tool)" by (simp add: tokens_exporting_def)
    then show ?thesis
      using one_of [OF exporting_has [OF assms(1,2)]] r
      by (auto simp: key_for_hook_def bare_key_def ambiguous_bare_def key_for_def)
  qed
  then show ?thesis
    by (auto split: option.split intro: claim_outranks)
qed

text \<open>While the CLI prefixes, no wrapped tool captures a builtin: a bare name is read as the
  builtin's key, which is no handler's key, whatever the catalog holds.\<close>

theorem builtins_stay_builtins:
  assumes "\<not> prefix MCP_PREFIX raw"
  shows "key_for_hook c False raw = Some (builtin_tool_key raw) \<and> (\<forall>h tool. key_for h tool \<noteq> builtin_tool_key raw)"
  using assms by (simp add: key_for_hook_def bare_key_def key_for_def)

text \<open>C40: One server object listed under two names keeps only the last one's token: the CLI's name for
  a call through the first is read as a key that is not the handler's, so no claim of the handler
  stands against the hook's and the call is emitted twice.\<close>

theorem second_name_splits_the_key:
  assumes "h \<in> set (tc_handles c)" "sh_instance (tc_handle c h) = Some i" "sanitize one \<noteq> sanitize two"
    and "tc_handles c = [h]" "tool \<in> set (sh_tools (tc_handle c h))"
    and "split_first (sanitize one @ str_lit ''__'' @ sanitize tool) = Some (sanitize one, sanitize tool)"
    and "\<not> prefix (sanitize two @ str_lit ''__'') (sanitize one @ str_lit ''__'' @ sanitize tool)"
  shows "let c' = resolve_tokens (Some [(one, Some i), (two, Some i)]) c
    in effective_token (tc_handle c' h) = sanitize two \<and>
       key_for_hook c' disabled (MCP_PREFIX @ sanitize one @ str_lit ''__'' @ sanitize tool) =
         Some (mcp_tool_key one tool) \<and>
       mcp_tool_key one tool \<noteq> key_for (tc_handle c' h) tool"
proof -
  define c' where "c' = resolve_tokens (Some [(one, Some i), (two, Some i)]) c"
  have h: "tc_handles c' = [h]" "effective_token (tc_handle c' h) = sanitize two"
    using assms(1,2,4) by (simp_all add: c'_def resolve_tokens_def resolve_one_def effective_token_def)
  then have "anchored c' (sanitize one @ str_lit ''__'' @ sanitize tool) = []"
    using assms(7) by (simp add: anchored_def live_handles_def explains_def)
  then have "key_for_hook c' disabled (MCP_PREFIX @ sanitize one @ str_lit ''__'' @ sanitize tool) =
      Some (mcp_tool_key one tool)"
    using assms(6) by (simp add: key_for_hook_def mcp_tool_key_eq)
  moreover have "mcp_tool_key one tool \<noteq> key_for (tc_handle c' h) tool"
    using assms(3) h(2) by (simp add: key_for_def mcp_tool_key_eq)
  ultimately show ?thesis using h(2) by (simp add: c'_def [symmetric] Let_def)
qed

section \<open>Concrete names\<close>

definition demo_catalog :: tool_catalog where
  "demo_catalog =
     resolve_tokens (Some [(str_lit ''my srv'', Some 5)])
       (add_tool 0 (str_lit ''greet'') (bind_instance 0 5 (snd (snd (handle_for (str_lit ''s'') None (new_catalog 3))))))"

lemma demo_handle:
  "live_handles demo_catalog =
     [\<lparr>sh_name = str_lit ''s'', sh_token = Some (str_lit ''my_srv''), sh_instance = Some 5, sh_tools = [str_lit ''greet'']\<rparr>]"
  by (simp add: demo_catalog_def live_handles_def resolve_tokens_def resolve_one_def add_tool_def bind_instance_def
      handle_for_def new_catalog_def sanitize_def safe_char_def str_lit_def)

theorem observers_meet_witness:
  "key_for_hook demo_catalog False (MCP_PREFIX @ sanitize (str_lit ''my srv'') @ str_lit ''__'' @ sanitize (str_lit ''greet''))
     \<in> {None, Some (mcp_tool_key (str_lit ''my_srv'') (str_lit ''greet''))}"
proof -
  let ?h = "hd (live_handles demo_catalog)"
  have "?h \<in> set (live_handles demo_catalog)" "str_lit ''greet'' \<in> set (sh_tools ?h)"
    "effective_token ?h = sanitize (str_lit ''my srv'')"
    by (simp_all add: demo_handle effective_token_def sanitize_def safe_char_def str_lit_def)
  note met = conjunct1 [OF observers_meet [OF this disjI1 [OF refl], where disabled = False]]
  have "key_for ?h (str_lit ''greet'') = mcp_tool_key (str_lit ''my_srv'') (str_lit ''greet'')"
    by (simp add: demo_handle key_for_def effective_token_def)
  then show ?thesis using met by (simp only:)
qed

theorem builtins_stay_builtins_witness:
  "key_for_hook demo_catalog False (str_lit ''Read'') = Some (builtin_tool_key (str_lit ''Read''))"
proof -
  have "\<not> prefix MCP_PREFIX (str_lit ''Read'')" by (simp add: MCP_PREFIX_def str_lit_def)
  from builtins_stay_builtins [OF this] show ?thesis by blast
qed

theorem second_name_splits_the_key_witness:
  "mcp_tool_key (str_lit ''a'') (str_lit ''greet'') \<noteq>
     key_for (tc_handle (resolve_tokens (Some [(str_lit ''a'', Some 5), (str_lit ''b'', Some 5)]) demo_catalog) 0)
       (str_lit ''greet'')"
proof -
  have hs: "tc_handles demo_catalog = [0]" "sh_instance (tc_handle demo_catalog 0) = Some 5"
    "str_lit ''greet'' \<in> set (sh_tools (tc_handle demo_catalog 0))"
    by (simp_all add: demo_catalog_def resolve_tokens_def resolve_one_def add_tool_def bind_instance_def
      handle_for_def new_catalog_def)
  have n: "sanitize (str_lit ''a'') \<noteq> sanitize (str_lit ''b'')"
    "split_first (sanitize (str_lit ''a'') @ str_lit ''__'' @ sanitize (str_lit ''greet'')) =
       Some (sanitize (str_lit ''a''), sanitize (str_lit ''greet''))"
    "\<not> prefix (sanitize (str_lit ''b'') @ str_lit ''__'')
       (sanitize (str_lit ''a'') @ str_lit ''__'' @ sanitize (str_lit ''greet''))"
    by (simp_all add: sanitize_def safe_char_def str_lit_def)
  have "0 \<in> set (tc_handles demo_catalog)" using hs by simp
  from second_name_splits_the_key [OF this hs(2) n(1) hs(1,3) n(2,3)] show ?thesis
    by (simp add: Let_def)
qed

end
