(* ===== verification/Agent_Tools.thy ===== *)
theory Agent_Tools
  imports Agent_Session Tool_Names
begin

text \<open>
  Tool calls and sub-agents of an agent session, and the events that drive it: the other half of
  \<open>_adapters/_assembler.py\<close>, with \<open>_adapters/_session_outcome.py\<close>.

  A call is seen by the hooks (\<open>PreToolUse\<close>, \<open>PostToolUse\<close>), by the stream (its announcement and
  its result) and, for an in-process tool, by the handler that owns it. Payload fragments arrive as
  the bytes \<open>_safe_json_bytes\<close> makes of them. The tool catalog and whether the CLI prefixes names
  are read at each event (\<open>names\<close>).
\<close>

section \<open>Payloads\<close>

record hook_payload =
  hp_tool_name :: "py_text option"
  hp_tool_input :: bytes
  hp_tool_response :: "bytes option"
  hp_is_interrupt :: bool
  hp_agent_id :: "py_text option"
  hp_agent_type :: "py_text option"
  hp_session_id :: "py_text option"
  hp_prompt :: "bytes option"

type_synonym names = "tool_catalog \<times> bool"

definition or_unknown :: "py_text option \<Rightarrow> py_text" where
  "or_unknown name = (if truthy_text name then the name else str_lit ''unknown'')"

section \<open>Building and emitting a tool span\<close>

definition sole_guess_stands ::
  "py_text option \<Rightarrow> bool \<Rightarrow> py_text option \<Rightarrow> agent_session \<Rightarrow> bool" where
  "sole_guess_stands tool_use_id sole_inferred hook_session_id s =
     (if \<not> sole_inferred then False
      else if (case tool_use_id of None \<Rightarrow> False | Some t \<Rightarrow> map_of (as_tool_meta s) t \<noteq> None) then False
      else hook_session_id = None \<or> hook_session_id \<noteq> as_session_id s)"

definition left_by :: "py_text \<Rightarrow> open_tool \<Rightarrow> agent_session \<Rightarrow> evicted_tool" where
  "left_by tool_use_id tool s =
     \<lparr>et_start_ns = ot_start_ns tool, et_name = ot_name tool, et_agent_id = ot_agent_id tool,
      et_completed = False,
      et_sole_inferred = sole_guess_stands (Some tool_use_id) (ot_sole_inferred tool) (ot_hook_session_id tool) s,
      et_hook_session_id = ot_hook_session_id tool\<rparr>"

definition tool_anchor :: "py_text option \<Rightarrow> agent_session \<Rightarrow> span_context" where
  "tool_anchor agent_id s =
     (case agent_id of
        None \<Rightarrow> session_context s
      | Some a \<Rightarrow>
          (case map_of (as_subagents s) a of
             Some sub \<Rightarrow> sd_context (os_draft sub)
           | None \<Rightarrow>
               (case map_of (as_evicted_subagents s) a of
                  Some crumb \<Rightarrow> es_context crumb
                | None \<Rightarrow> session_context s)))"

definition tool_draft ::
  "agent_world \<Rightarrow> open_tool \<Rightarrow> status_code \<Rightarrow> limitation list \<Rightarrow> py_text option \<Rightarrow> agent_session \<Rightarrow>
   span_draft \<times> agent_session" where
  "tool_draft w tool status markers error_type s =
     (let sole = sole_guess_stands (ot_tool_use_id tool) (ot_sole_inferred tool) (ot_hook_session_id tool) s;
          p = child_of [] (tool_anchor (ot_agent_id tool) s) (if sole then SOLE_LIVE else IN_SESSION) None None;
          (fresh, s) = draw_span_id w s;
          d = vocabulary_draft fresh p EXECUTE_TOOL (Some (ot_name tool)) FROM_ADAPTER (ot_start_ns tool) None;
          d = put_tool (aw_tool w \<lparr>ta_name = ot_name tool, ta_call_id = ot_tool_use_id tool\<rparr>) d;
          d = put_status status [] d;
          d = (if status = S_ERROR
               then put_error (Some (if truthy_text error_type then the error_type else str_lit ''tool_error'')) [] d
               else d);
          d = (if \<not> ot_from_hook tool \<or> ot_closed_by_stream tool then add_source FROM_STDIO d else d);
          d = put_io (ot_input_data tool) (ot_output_data tool) True True d;
          d = put_markers markers (put_marker (Member BASE_LIMITATION) d)
      in (replace_correlation None d, s))"

definition emit_tool ::
  "agent_world \<Rightarrow> open_tool \<Rightarrow> int \<Rightarrow> status_code \<Rightarrow> limitation list \<Rightarrow> py_text option \<Rightarrow> bool \<Rightarrow>
   agent_session \<Rightarrow> agent_session" where
  "emit_tool w tool end_ns status markers error_type mergeable s =
     (if (case ot_claim_key tool of None \<Rightarrow> False
          | Some key \<Rightarrow> outranked (as_units s) (as_unit s) key HOOK_RANK)
      then tick ''adapters.assembler.tool_claim_lost'' s
      else
        (let (d, s) = tool_draft w tool status markers error_type s
         in case as_bridge s of
              None \<Rightarrow> finish_into w ''adapters.assembler.emit_tool'' (Some end_ns) d s
            | Some b \<Rightarrow>
                pend w \<lparr>pe_draft = put_end_ns end_ns d, pe_kind = Pending_tool, pe_deferred_markers = [],
                        pe_tool_use_id = ot_tool_use_id tool, pe_agent_id = ot_agent_id tool, pe_window = None,
                        pe_gen_ai = None, pe_merged = False, pe_mergeable = mergeable\<rparr> s))"

section \<open>Tool calls\<close>

definition claim_key :: "names \<Rightarrow> py_text \<Rightarrow> agent_session \<Rightarrow> unit_key option \<times> agent_session" where
  "claim_key names name s =
     (case key_for_hook (fst names) (snd names) name of
        Some key \<Rightarrow> (Some key, s)
      | None \<Rightarrow> (None, tick ''adapters.assembler.tool_name_unattributable''
                        (tick ''adapters.anthropic.hook_tool_name_ambiguous'' s)))"

definition evict_tool :: "agent_world \<Rightarrow> int \<Rightarrow> agent_session \<Rightarrow> agent_session" where
  "evict_tool w now s =
     (let (evicted, rest, s) = room_for w (as_open_tools s) ''open_tool'' s; s = s\<lparr>as_open_tools := rest\<rparr>
      in case evicted of
           None \<Rightarrow> s
         | Some (old_id, old) \<Rightarrow>
             (let s = emit_tool w old now S_UNSET [SESSION_ENTRY_TABLE_FULL] None False s;
                  (_, rest, s) = room_for w (as_evicted_tools s) ''evicted_tool'' s
              in s\<lparr>as_evicted_tools := AList.update old_id (left_by old_id old s) rest\<rparr>))"

definition open_tool_call ::
  "agent_world \<Rightarrow> names \<Rightarrow> hook_payload \<Rightarrow> py_text option \<Rightarrow> int \<Rightarrow> bool \<Rightarrow> agent_session \<Rightarrow> agent_session" where
  "open_tool_call w names p tool_use_id now inferred s =
     (case tool_use_id of
        None \<Rightarrow> s
      | Some t \<Rightarrow>
          (case claim_key names (or_unknown (hp_tool_name p)) s of
             (None, s) \<Rightarrow> s
           | (Some key, s) \<Rightarrow>
               (let s = s\<lparr>as_units := snd (claim (as_unit s) key HOOK_RANK (as_units s))\<rparr>
                in if outranked (as_units s) (as_unit s) key HOOK_RANK then s
                   else
                     (let s = evict_tool w now s
                      in s\<lparr>as_open_tools := AList.update t
                           \<lparr>ot_tool_use_id = Some t, ot_name = or_unknown (hp_tool_name p), ot_start_ns = now,
                            ot_agent_id = hp_agent_id p, ot_input_data = hp_tool_input p, ot_from_hook = True,
                            ot_output_data = [], ot_claim_key = Some key, ot_sole_inferred = inferred,
                            ot_hook_session_id = (if inferred then hp_session_id p else None),
                            ot_stream_result = None, ot_closed_by_stream = False\<rparr> (as_open_tools s)\<rparr>))))"

definition forget_meta :: "py_text \<Rightarrow> agent_session \<Rightarrow> agent_session" where
  "forget_meta t s = s\<lparr>as_tool_meta := AList.delete t (as_tool_meta s)\<rparr>"

definition complete_crumb :: "py_text \<Rightarrow> evicted_tool option \<Rightarrow> agent_session \<Rightarrow> agent_session" where
  "complete_crumb t crumb s =
     (case crumb of
        Some c \<Rightarrow>
          (tick ''adapters.assembler.tool_completion_after_evict'' s)
            \<lparr>as_evicted_tools := AList.update t (c\<lparr>et_completed := True\<rparr>) (as_evicted_tools s)\<rparr>
      | None \<Rightarrow> s)"

definition completed :: "evicted_tool option \<Rightarrow> bool" where
  "completed crumb = (case crumb of None \<Rightarrow> False | Some c \<Rightarrow> et_completed c)"

text \<open>The record \<open>_close_tool\<close> closes: the open one, one rebuilt from the breadcrumb of an eviction, or
  one made up from the closing hook alone. None is the call that is not emitted. The flag says that
  a breadcrumb was completed.\<close>

definition hook_tool ::
  "hook_payload \<Rightarrow> py_text \<Rightarrow> unit_key \<Rightarrow> evicted_tool option \<Rightarrow> int \<Rightarrow> bool \<Rightarrow> open_tool" where
  "hook_tool p t key crumb now inferred =
     \<lparr>ot_tool_use_id = Some t,
      ot_name = (case crumb of Some c \<Rightarrow> et_name c | None \<Rightarrow> or_unknown (hp_tool_name p)),
      ot_start_ns = (case crumb of Some c \<Rightarrow> et_start_ns c | None \<Rightarrow> now),
      ot_agent_id = (case crumb of Some c \<Rightarrow> et_agent_id c | None \<Rightarrow> hp_agent_id p),
      ot_input_data = hp_tool_input p, ot_from_hook = True, ot_output_data = [], ot_claim_key = Some key,
      ot_sole_inferred = (inferred \<and> (case crumb of Some c \<Rightarrow> et_sole_inferred c | None \<Rightarrow> True)),
      ot_hook_session_id = (case crumb of Some c \<Rightarrow> et_hook_session_id c | None \<Rightarrow> None),
      ot_stream_result = None, ot_closed_by_stream = False\<rparr>"

definition tool_to_close ::
  "names \<Rightarrow> hook_payload \<Rightarrow> py_text \<Rightarrow> int \<Rightarrow> bool \<Rightarrow> agent_session \<Rightarrow> (open_tool \<times> bool) option \<times> agent_session" where
  "tool_to_close names p t now inferred s =
     (case map_of (as_open_tools s) t of
        Some tool \<Rightarrow> (Some (tool, False), s\<lparr>as_open_tools := AList.delete t (as_open_tools s)\<rparr>)
      | None \<Rightarrow>
          (let crumb = map_of (as_evicted_tools s) t
           in if completed crumb
              then (None, forget_meta t (tick ''adapters.assembler.tool_completion_after_evict_duplicate'' s))
              else
                (case claim_key names (or_unknown (hp_tool_name p)) s of
                   (None, s) \<Rightarrow> (None, forget_meta t s)
                 | (Some key, s) \<Rightarrow>
                     (Some (hook_tool p t key crumb now inferred, crumb \<noteq> None),
                      if crumb = None then tick ''adapters.assembler.tool_close_without_open'' s
                      else complete_crumb t crumb s))))"

definition with_stream_meta :: "(py_text \<times> bytes \<times> int) option \<Rightarrow> open_tool \<Rightarrow> open_tool" where
  "with_stream_meta meta tool =
     (case meta of
        None \<Rightarrow> tool
      | Some (name, input, _) \<Rightarrow>
          (let tool = (if name \<noteq> [] then tool\<lparr>ot_name := name\<rparr> else tool)
           in if input \<noteq> [] then tool\<lparr>ot_input_data := input\<rparr> else tool))"

definition close_tool_call ::
  "agent_world \<Rightarrow> names \<Rightarrow> hook_payload \<Rightarrow> py_text option \<Rightarrow> int \<Rightarrow> bool \<Rightarrow> bool \<Rightarrow> agent_session \<Rightarrow> agent_session" where
  "close_tool_call w names p tool_use_id now failed inferred s =
     (case tool_use_id of
        None \<Rightarrow> s
      | Some t \<Rightarrow>
          (case tool_to_close names p t now inferred s of
             (None, s) \<Rightarrow> s
           | (Some (tool, after_evict), s) \<Rightarrow>
               (let meta = map_of (as_tool_meta s) t;
                    s = forget_meta t s;
                    tool = tool\<lparr>ot_sole_inferred := (ot_sole_inferred tool \<and> inferred \<and> meta = None)\<rparr>;
                    tool = with_stream_meta meta tool;
                    tool = (case hp_tool_response p of None \<Rightarrow> tool | Some r \<Rightarrow> tool\<lparr>ot_output_data := r\<rparr>)
                in emit_tool w tool now (if failed then S_ERROR else S_OK)
                     (if after_evict then [SESSION_ENTRY_TABLE_FULL] else [])
                     (if failed
                      then Some (if hp_is_interrupt p then str_lit ''tool_interrupted'' else str_lit ''tool_error'')
                      else None) True s)))"

text \<open>A call no hook opened, or the completion of an evicted one, built from the stream alone.\<close>

definition stream_name :: "(py_text \<times> bytes \<times> int) option \<Rightarrow> evicted_tool option \<Rightarrow> py_text" where
  "stream_name meta crumb =
     (let announced = (case meta of Some (name, _, _) \<Rightarrow> name | None \<Rightarrow> [])
      in if announced \<noteq> [] then announced
         else case crumb of Some c \<Rightarrow> et_name c | None \<Rightarrow> str_lit ''unknown'')"

definition stream_tool ::
  "py_text \<Rightarrow> unit_key \<Rightarrow> (py_text \<times> bytes \<times> int) option \<Rightarrow> evicted_tool option \<Rightarrow> stream_line \<Rightarrow> int \<Rightarrow> open_tool" where
  "stream_tool t key meta crumb l now =
     \<lparr>ot_tool_use_id = Some t, ot_name = stream_name meta crumb,
      ot_start_ns = (case crumb of
                       Some c \<Rightarrow> et_start_ns c
                     | None \<Rightarrow> (case meta of Some (_, _, a) \<Rightarrow> a | None \<Rightarrow> now)),
      ot_agent_id = (case crumb of Some c \<Rightarrow> et_agent_id c | None \<Rightarrow> None),
      ot_input_data = (case meta of Some (_, i, _) \<Rightarrow> i | None \<Rightarrow> []),
      ot_from_hook = False, ot_output_data = content_of l, ot_claim_key = Some key,
      ot_sole_inferred = False, ot_hook_session_id = None, ot_stream_result = None,
      ot_closed_by_stream = False\<rparr>"

definition emit_from_stream ::
  "agent_world \<Rightarrow> names \<Rightarrow> py_text \<Rightarrow> (py_text \<times> bytes \<times> int) option \<Rightarrow> evicted_tool option \<Rightarrow> stream_line \<Rightarrow> int \<Rightarrow>
   agent_session \<Rightarrow> agent_session" where
  "emit_from_stream w names t meta crumb l now s =
     (case claim_key names (stream_name meta crumb) s of
        (None, s) \<Rightarrow> s
      | (Some key, s) \<Rightarrow>
          emit_tool w (stream_tool t key meta crumb l now) now (if sl_is_error l then S_ERROR else S_OK)
            (if crumb \<noteq> None then [SESSION_ENTRY_TABLE_FULL] else [])
            (if sl_is_error l then Some (str_lit ''tool_error'') else None) True (complete_crumb t crumb s))"

definition stream_tool_result :: "agent_world \<Rightarrow> names \<Rightarrow> stream_line \<Rightarrow> int \<Rightarrow> agent_session \<Rightarrow> agent_session" where
  "stream_tool_result w names l now s =
     (case sl_tool_result_id l of
        None \<Rightarrow> s
      | Some t \<Rightarrow>
          (case map_of (as_open_tools s) t of
             Some tool \<Rightarrow>
               s\<lparr>as_open_tools := AList.update t
                   (tool\<lparr>ot_stream_result := Some (content_of l, sl_is_error l, now)\<rparr>) (as_open_tools s)\<rparr>
           | None \<Rightarrow>
               (let meta = map_of (as_tool_meta s) t; s = forget_meta t s; crumb = map_of (as_evicted_tools s) t
                in if completed crumb
                   then tick ''adapters.assembler.tool_completion_after_evict_duplicate'' s
                   else if meta = None \<and> crumb = None then s
                   else emit_from_stream w names t meta crumb l now s)))"

section \<open>Sub-agents\<close>

definition emit_subagent_entry ::
  "agent_world \<Rightarrow> open_subagent \<Rightarrow> py_text \<Rightarrow> int \<Rightarrow> limitation list \<Rightarrow> status_code \<Rightarrow> agent_session \<Rightarrow> agent_session" where
  "emit_subagent_entry w entry agent_id now markers status s =
     (let d = put_markers markers (put_status status [] (os_draft entry))
      in case as_bridge s of
           Some b \<Rightarrow>
             pend w \<lparr>pe_draft = put_end_ns now d, pe_kind = Pending_subagent, pe_deferred_markers = [],
                     pe_tool_use_id = None, pe_agent_id = Some agent_id, pe_window = None, pe_gen_ai = None,
                     pe_merged = False, pe_mergeable = True\<rparr> s
         | None \<Rightarrow> finish_into w ''adapters.assembler.emit_subagent'' (Some now) d s)"

definition emit_subagent :: "agent_world \<Rightarrow> py_text option \<Rightarrow> int \<Rightarrow> agent_session \<Rightarrow> agent_session" where
  "emit_subagent w agent_id now s =
     (case agent_id of
        None \<Rightarrow> s
      | Some a \<Rightarrow>
          (case map_of (as_subagents s) a of
             None \<Rightarrow> if map_of (as_evicted_subagents s) a \<noteq> None
                     then tick ''adapters.assembler.subagent_stop_after_evict'' s else s
           | Some entry \<Rightarrow>
               emit_subagent_entry w entry a now [] S_OK (s\<lparr>as_subagents := AList.delete a (as_subagents s)\<rparr>)))"

definition evict_subagent :: "agent_world \<Rightarrow> int \<Rightarrow> agent_session \<Rightarrow> agent_session" where
  "evict_subagent w now s =
     (let (evicted, rest, s) = room_for w (as_subagents s) ''subagent'' s; s = s\<lparr>as_subagents := rest\<rparr>
      in case evicted of
           None \<Rightarrow> s
         | Some (old_id, old) \<Rightarrow>
             (let s = emit_subagent_entry w old old_id now [SESSION_ENTRY_TABLE_FULL] S_UNSET s;
                  (_, rest, s) = room_for w (as_evicted_subagents s) ''evicted_subagent'' s
              in s\<lparr>as_evicted_subagents := AList.update old_id
                     \<lparr>es_context = sd_context (os_draft old), es_agent_type = os_agent_type old\<rparr> rest\<rparr>))"

definition start_subagent :: "agent_world \<Rightarrow> hook_payload \<Rightarrow> int \<Rightarrow> bool \<Rightarrow> agent_session \<Rightarrow> agent_session" where
  "start_subagent w p now inferred s =
     (if \<not> truthy_text (hp_agent_id p) then s
      else
        (let a = the (hp_agent_id p);
             s = evict_subagent w now s;
             agent_type = (if truthy_text (hp_agent_type p) then the (hp_agent_type p) else str_lit ''sub_agent'');
             p = child_of [] (session_context s) (if inferred then SOLE_LIVE else IN_SESSION) None None;
             (fresh, s) = draw_span_id w s;
             d = vocabulary_draft fresh p INVOKE_AGENT (Some agent_type) FROM_ADAPTER now None;
             d = put_agent (aw_agent w \<lparr>aa_name = agent_type, aa_id = Some a, aa_sub_agent = True\<rparr>) d;
             d = replace_correlation None (put_marker (Member BASE_LIMITATION) d)
         in s\<lparr>as_subagents := AList.update a \<lparr>os_draft = d, os_agent_type = agent_type\<rparr> (as_subagents s)\<rparr>))"

section \<open>How a session and its calls ended\<close>

definition awaiting_after :: "bool \<Rightarrow> stream_line \<Rightarrow> bool" where
  "awaiting_after awaiting l =
     (if sl_kind l = Session_result then False
      else if sl_kind l \<in> {Assistant_turn, Stream_delta} \<and> sl_parent_tool_use_id l = None then True
      else awaiting)"

definition root_status :: "stream_line option \<Rightarrow> bool \<Rightarrow> py_text option \<Rightarrow> status_code \<times> bool" where
  "root_status result awaiting_result error =
     (if error \<noteq> None then (S_ERROR, True)
      else case result of
        Some r \<Rightarrow> if awaiting_result then (S_UNSET, True)
                  else ((if sl_is_error r then S_ERROR else S_OK), False)
      | None \<Rightarrow> (S_UNSET, True))"

definition close_from_stream ::
  "open_tool \<Rightarrow> bytes \<times> bool \<times> int \<Rightarrow> (py_text \<times> bytes \<times> int) option \<Rightarrow>
   (status_code \<times> py_text option \<times> int) \<times> open_tool" where
  "close_from_stream tool observed meta =
     (case observed of (content, is_error, arrived_ns) \<Rightarrow>
       (if is_error then (S_ERROR, Some (str_lit ''tool_error''), arrived_ns) else (S_OK, None, arrived_ns),
        (with_stream_meta meta tool)\<lparr>ot_output_data := content, ot_closed_by_stream := True, ot_sole_inferred := False\<rparr>))"

definition drain_tool :: "agent_world \<Rightarrow> int \<Rightarrow> py_text \<Rightarrow> agent_session \<Rightarrow> agent_session" where
  "drain_tool w now t s =
     (case map_of (as_open_tools s) t of
        None \<Rightarrow> s
      | Some tool \<Rightarrow>
          (let s = s\<lparr>as_open_tools := AList.delete t (as_open_tools s)\<rparr>
           in case ot_stream_result tool of
                Some observed \<Rightarrow>
                  (let meta = map_of (as_tool_meta s) t; s = forget_meta t s;
                       ((status, error_type, end_ns), tool) = close_from_stream tool observed meta
                   in emit_tool w tool end_ns status [] error_type True s)
              | None \<Rightarrow> emit_tool w tool now S_UNSET [CHILD_SPAN_UNCLOSED] None True s))"

definition drain_children :: "agent_world \<Rightarrow> int \<Rightarrow> agent_session \<Rightarrow> agent_session" where
  "drain_children w now s =
     (let s = fold (drain_tool w now) (map fst (as_open_tools s)) s
      in fold (\<lambda>a. emit_subagent w (Some a) now) (map fst (as_subagents s)) s)"

section \<open>Events\<close>

definition set_prompt :: "bytes \<Rightarrow> prompt_source \<Rightarrow> bool \<Rightarrow> bool \<Rightarrow> agent_session \<Rightarrow> agent_session" where
  "set_prompt b src seen inferred s =
     (let s = (if as_prompt_source s \<noteq> None then tick ''adapters.assembler.prompt_overwritten'' s else s)
      in s\<lparr>as_prompt := b, as_prompt_source := Some src, as_prompt_hook_seen := seen,
           as_prompt_sole_inferred := inferred\<rparr>)"

text \<open>\<open>on_outbound\<close>, for a line that parsed. \<open>bridged\<close>: the assembler has a receiver.\<close>

definition on_outbound ::
  "agent_world \<Rightarrow> bool \<Rightarrow> bridge_binding option \<Rightarrow> stream_line \<Rightarrow> int \<Rightarrow> agent_session \<Rightarrow> agent_session" where
  "on_outbound w bridged bridge l now s =
     (let s = (if bridge \<noteq> None \<and> as_bridge s = None \<and> bridged then s\<lparr>as_bridge := bridge\<rparr> else s);
          s = mark_thread w (sl_parent_tool_use_id l) now True s;
          s = (if sl_parent_tool_use_id l = None then s\<lparr>as_awaiting_result := True\<rparr> else s)
      in if content_of l \<noteq> [] \<and> sl_parent_tool_use_id l = None
         then set_prompt (content_of l) Prompt_stream False False s else s)"

definition on_prompt_submit :: "agent_world \<Rightarrow> hook_payload \<Rightarrow> int \<Rightarrow> bool \<Rightarrow> agent_session \<Rightarrow> agent_session" where
  "on_prompt_submit w p now inferred s =
     (if as_prompt_source s = Some Prompt_stream \<and> \<not> as_prompt_hook_seen s then s\<lparr>as_prompt_hook_seen := True\<rparr>
      else
        (let s = set_prompt (case hp_prompt p of None \<Rightarrow> [] | Some b \<Rightarrow> b) Prompt_hook True inferred s
         in (mark_thread w None now True s)\<lparr>as_awaiting_result := True\<rparr>))"

definition note_session :: "limitation \<Rightarrow> agent_session \<Rightarrow> agent_session" where
  "note_session m s = s\<lparr>as_units := note_marker m (as_unit s) (as_units s)\<rparr>"

text \<open>\<open>if a and b and a != b\<close> on two optional texts.\<close>

definition both_differ :: "py_text option \<Rightarrow> py_text option \<Rightarrow> bool" where
  "both_differ a b \<longleftrightarrow> truthy_text a \<and> truthy_text b \<and> a \<noteq> b"

definition session_init :: "stream_line \<Rightarrow> agent_session \<Rightarrow> agent_session" where
  "session_init l s =
     (let s = (if both_differ (as_session_id s) (sl_session_id l)
               then note_session CORRELATION_CONFLICT (tick ''adapters.assembler.session_key_recycled'' s) else s);
          s = s\<lparr>as_session_id := sl_session_id l, as_model := sl_model l\<rparr>
      in if truthy_text (sl_session_id l)
         then s\<lparr>as_units := alias_to \<lparr>uk_namespace = str_lit ''transport.id'', uk_value = as_key s\<rparr>
                \<lparr>uk_namespace = str_lit ''claude.session_id'', uk_value = the (sl_session_id l)\<rparr> (as_units s)\<rparr>
         else s)"

definition announce_tool :: "agent_world \<Rightarrow> int \<Rightarrow> py_text \<times> py_text \<times> bytes \<Rightarrow> agent_session \<Rightarrow> agent_session" where
  "announce_tool w now u s =
     (case u of (t, name, input) \<Rightarrow>
       (let (room, s) = has_room w (as_tool_meta s) ''stream_tool_meta'' s
        in if room then s\<lparr>as_tool_meta := AList.update t (name, input, now) (as_tool_meta s)\<rparr> else s))"

definition on_inbound :: "agent_world \<Rightarrow> names \<Rightarrow> stream_line \<Rightarrow> int \<Rightarrow> agent_session \<Rightarrow> agent_session" where
  "on_inbound w names l now s =
     (let s = s\<lparr>as_awaiting_result := awaiting_after (as_awaiting_result s) l\<rparr>
      in case sl_kind l of
           Session_init \<Rightarrow> session_init l s
         | Assistant_turn \<Rightarrow> fold (announce_tool w now) (sl_tool_uses l) (emit_chat w l now s)
         | Tool_result \<Rightarrow>
             (let (ended, s) = end_tool w (sl_parent_tool_use_id l) (sl_tool_result_id l) now
                                 (sl_launched_async l) (stream_tool_result w names l now s)
              in if ended then close_chats w [sl_tool_result_id l] s else s)
         | Stream_delta \<Rightarrow> note_chunk w (sl_parent_tool_use_id l) now s
         | Session_result \<Rightarrow> (close_chats w [None] s)\<lparr>as_result := Some l\<rparr>
         | Task_lifecycle \<Rightarrow>
             if sl_subtype l = Some (str_lit ''task_notification'') \<and> truthy_text (sl_task_tool_use_id l)
             then (let s = close_chats w [sl_task_tool_use_id l] s
                   in s\<lparr>as_threads := AList.delete (the (sl_task_tool_use_id l)) (as_threads s)\<rparr>)
             else s
         | Other_line \<Rightarrow> s)"

datatype hook_event = Pre_tool_use | Post_tool_use | Post_tool_use_failure | Subagent_start | Subagent_stop |
  User_prompt_submit | Other_hook

text \<open>\<open>on_hook\<close>, once the session was found; \<open>inferred\<close> is what \<open>_session_for_hook\<close> answered with it.\<close>

definition on_hook ::
  "agent_world \<Rightarrow> names \<Rightarrow> hook_event \<Rightarrow> hook_payload \<Rightarrow> py_text option \<Rightarrow> int \<Rightarrow> bool \<Rightarrow> agent_session \<Rightarrow> agent_session" where
  "on_hook w names event p tool_use_id now inferred s =
     (case event of
        Pre_tool_use \<Rightarrow> open_tool_call w names p tool_use_id now inferred s
      | Post_tool_use \<Rightarrow> close_tool_call w names p tool_use_id now False inferred s
      | Post_tool_use_failure \<Rightarrow> close_tool_call w names p tool_use_id now True inferred s
      | Subagent_start \<Rightarrow> start_subagent w p now inferred s
      | Subagent_stop \<Rightarrow> emit_subagent w (hp_agent_id p) now s
      | User_prompt_submit \<Rightarrow> on_prompt_submit w p now inferred s
      | Other_hook \<Rightarrow> s)"

end
