(* ===== verification/Agent_Laws.thy ===== *)
theory Agent_Laws
  imports Agent_Tools
begin

text \<open>
  What the events of an agent session leave alone: tool calls, sub-agents, prompts and timing touch no
  response (\<open>same_chats\<close>), as long as no telemetry bridge holds spans back. The collection
  \<open>frame\<close> gathers these facts.
\<close>

section \<open>Frames\<close>

text \<open>The response a thread's own record says was shipped early.\<close>

definition early :: "agent_session \<Rightarrow> py_text option \<Rightarrow> py_text option" where
  "early s key = (case tracked_thread key s of None \<Rightarrow> None | Some th \<Rightarrow> th_closed_early th)"

definition chat_spans :: "agent_session \<Rightarrow> internal_span list" where
  "chat_spans s = filter (\<lambda>f. fs_gen_ai f \<noteq> None) (as_captured s)"

definition subs_ok :: "agent_session \<Rightarrow> bool" where
  "subs_ok s \<longleftrightarrow> (\<forall>e \<in> snd ` set (as_subagents s). sd_gen_ai (os_draft e) = None)"

definition same_chats :: "agent_session \<Rightarrow> agent_session \<Rightarrow> bool" where
  "same_chats s s' \<longleftrightarrow>
     as_open_chats s' = as_open_chats s \<and> as_evicted_chats s' = as_evicted_chats s \<and>
     as_forgot_early_close s' = as_forgot_early_close s \<and> as_bridge s' = as_bridge s \<and>
     early s' = early s \<and> chat_spans s' = chat_spans s \<and> (subs_ok s \<longrightarrow> subs_ok s')"

lemma same_chats_refl [simp]: "same_chats s s"
  by (simp add: same_chats_def)

lemma same_chats_trans [trans]: "same_chats s t \<Longrightarrow> same_chats t u \<Longrightarrow> same_chats s u"
  by (simp add: same_chats_def)

named_theorems frame \<open>steps that touch no response\<close>

lemma early_cong: "as_main_thread s' = as_main_thread s \<Longrightarrow> as_threads s' = as_threads s \<Longrightarrow> early s' = early s"
  by (simp add: early_def tracked_thread_def fun_eq_iff split: option.split)

lemma same_chatsI:
  assumes "as_open_chats s' = as_open_chats s" "as_evicted_chats s' = as_evicted_chats s"
    "as_forgot_early_close s' = as_forgot_early_close s" "as_bridge s' = as_bridge s"
    "as_main_thread s' = as_main_thread s" "as_threads s' = as_threads s" "as_captured s' = as_captured s"
    "as_subagents s' = as_subagents s"
  shows "same_chats s s'"
  using assms early_cong [of s' s] by (simp add: same_chats_def chat_spans_def subs_ok_def)

lemma same_tick [frame]: "same_chats s (tick n s)"
  by (rule same_chatsI) (simp_all add: tick_def)

lemma same_fields [frame]:
  "same_chats s (s\<lparr>as_units := us\<rparr>)" "same_chats s (s\<lparr>as_open_tools := ot\<rparr>)"
  "same_chats s (s\<lparr>as_evicted_tools := et\<rparr>)"
  "same_chats s (s\<lparr>as_evicted_subagents := es\<rparr>)" "same_chats s (s\<lparr>as_tool_meta := tm\<rparr>)"
  "same_chats s (s\<lparr>as_awaiting_result := b\<rparr>)" "same_chats s (s\<lparr>as_result := r\<rparr>)"
  "same_chats s (s\<lparr>as_prompt_hook_seen := b\<rparr>)" "same_chats s (s\<lparr>as_drawn := n\<rparr>)"
  "same_chats s (s\<lparr>as_session_id := i, as_model := m\<rparr>)" "same_chats s (s\<lparr>as_turn_index := n\<rparr>)"
  "same_chats s (s\<lparr>as_counters := c\<rparr>)"
  "same_chats s (s\<lparr>as_prompt := p, as_prompt_source := q, as_prompt_hook_seen := b, as_prompt_sole_inferred := i'\<rparr>)"
  by (rule same_chatsI; simp)+

lemma same_draw [frame]: "same_chats s (snd (draw_span_id w s))"
  by (simp add: draw_span_id_def same_fields)

lemma same_room [frame]: "same_chats s (snd (snd (room_for w table place s)))" "same_chats s (snd (has_room w table place s))"
  by (simp_all add: room_for_def has_room_def same_tick split: prod.split option.split)

lemma early_put_thread:
  "early (put_thread key th s) key' =
     (if key' = key \<and> tracked_thread key s \<noteq> None then th_closed_early th else early s key')"
  by (auto simp: early_def put_thread_def tracked_thread_def map_of_update split: option.splits)

lemma same_put_thread:
  assumes "tracked_thread key s \<noteq> None \<Longrightarrow> th_closed_early th = early s key"
  shows "same_chats s (put_thread key th s)"
proof -
  have "early (put_thread key th s) = early s"
    using assms by (auto simp: fun_eq_iff early_put_thread)
  then show ?thesis by (simp add: same_chats_def chat_spans_def subs_ok_def put_thread_def split: option.split)
qed

lemma thread_for_frame:
  assumes "thread_for w key now s = (th, s')"
  shows "same_chats s s' \<and> (tracked_thread key s' \<noteq> None \<longrightarrow> th_closed_early th = early s' key)"
proof (cases "tracked_thread key s")
  case None
  then obtain k where k: "key = Some k" "map_of (as_threads s) k = None"
    by (auto simp: tracked_thread_def split: option.splits)
  obtain room s1 where r: "has_room w (as_threads s) ''thread'' s = (room, s1)" by fastforce
  have s1: "same_chats s s1" "as_threads s1 = as_threads s"
    using same_room(2) [of s w "as_threads s" "''thread''"] r
    by (auto simp: has_room_def tick_def split: if_splits)
  have th: "th_closed_early th = None" "s' = (if room then s1\<lparr>as_threads := AList.update k th (as_threads s1)\<rparr> else s1)"
    using assms k r by (auto simp: thread_for_def Let_def split: option.splits if_splits)
  have "early (s1\<lparr>as_threads := AList.update k th (as_threads s1)\<rparr>) = early s1"
    using th(1) k(2) s1(2) by (auto simp: fun_eq_iff early_def tracked_thread_def map_of_update split: option.splits)
  then have "same_chats s1 (s1\<lparr>as_threads := AList.update k th (as_threads s1)\<rparr>)"
    by (simp add: same_chats_def chat_spans_def subs_ok_def)
  then show ?thesis
    using th s1 k same_chats_trans [OF s1(1)]
    by (auto simp: early_def tracked_thread_def map_of_update split: option.splits)
next
  case (Some t)
  then have "th = t \<and> s' = s"
    using assms by (auto simp: thread_for_def tracked_thread_def split: option.splits)
  then show ?thesis using Some by (simp add: early_def)
qed

lemma same_mark_thread [frame]: "same_chats s (mark_thread w key now new_turn s)"
proof -
  obtain th s' where t: "thread_for w key now s = (th, s')" by fastforce
  have "same_chats s' (put_thread key th' s')" if "th_closed_early th' = th_closed_early th" for th'
    using thread_for_frame [OF t] that by (intro same_put_thread) simp
  then show ?thesis
    using thread_for_frame [OF t] by (auto simp: mark_thread_def t Let_def intro: same_chats_trans)
qed

lemma same_note_chunk [frame]: "same_chats s (note_chunk w key now s)"
proof -
  obtain th s' where t: "thread_for w key now s = (th, s')" by fastforce
  have "same_chats s' (put_thread key (th\<lparr>th_first_delta_ns := now\<rparr>) s')"
    using thread_for_frame [OF t] by (intro same_put_thread) simp
  then show ?thesis
    using thread_for_frame [OF t] by (auto simp: note_chunk_def t Let_def intro: same_chats_trans)
qed

lemma finish_gen_ai:
  assumes "fst (finish conv e d) = Inr f" shows "fs_gen_ai f = carried_gen_ai (normalize_manual_error d)"
  using assms by (auto simp: finish_def materialized_def Let_def split: option.splits if_splits)

lemma capture_fields:
  "as_open_chats (capture f s) = as_open_chats s" "as_evicted_chats (capture f s) = as_evicted_chats s"
  "as_forgot_early_close (capture f s) = as_forgot_early_close s" "as_bridge (capture f s) = as_bridge s"
  "subs_ok (capture f s) = subs_ok s" "early (capture f s) = early s" "chat_spans (capture f s) = chat_spans s @ (if fs_gen_ai f \<noteq> None then [f] else [])"
proof -
  show "early (capture f s) = early s" by (rule early_cong) (simp_all add: capture_def)
qed (simp_all add: capture_def chat_spans_def subs_ok_def)

lemma same_finish_into:
  assumes "sd_gen_ai d = None" shows "same_chats s (finish_into w place e d s)"
proof -
  have "fs_gen_ai f = None" if "fst (finish (aw_conversation_id w) e d) = Inr f" for f
    using finish_gen_ai [OF that] assms
    by (simp add: carried_gen_ai_def normalize_manual_error_def split: option.split)
  then have "same_chats s (capture f s)" if "fst (finish (aw_conversation_id w) e d) = Inr f" for f
    using that by (simp add: same_chats_def capture_fields)
  then show ?thesis by (simp add: finish_into_def same_tick split: sum.split)
qed

lemma put_markers_gen_ai [simp]: "sd_gen_ai (put_markers ms d) = sd_gen_ai d"
  unfolding put_markers_def by (induction ms arbitrary: d) (simp_all add: put_marker_def)

lemma new_draft_gen_ai [simp]: "sd_gen_ai (vocabulary_draft x p i subj src t k) = None"
  by (simp add: vocabulary_draft_def new_span_draft_def)

lemma puts_gen_ai [simp]:
  "sd_gen_ai (replace_correlation c d) = sd_gen_ai d" "sd_gen_ai (put_marker m d) = sd_gen_ai d"
  "sd_gen_ai (put_io i j a b d) = sd_gen_ai d" "sd_gen_ai (add_source src d) = sd_gen_ai d"
  "sd_gen_ai (put_error err msg d) = sd_gen_ai d" "sd_gen_ai (put_status st msg d) = sd_gen_ai d"
  "sd_gen_ai (put_tool ta d) = sd_gen_ai d" "sd_gen_ai (put_agent aa d) = sd_gen_ai d"
  "sd_gen_ai (put_end_ns e d) = sd_gen_ai d"
  by (simp_all add: replace_correlation_def put_marker_def put_io_def add_source_def put_error_def
      put_status_def put_tool_def put_agent_def put_end_ns_def Let_def)

lemma tool_draft_gen_ai: "sd_gen_ai (fst (tool_draft w tool status ms err s)) = None"
  by (simp add: tool_draft_def draw_span_id_def Let_def)

lemma same_tool_draft [frame]: "same_chats s (snd (tool_draft w tool status ms err s))"
  by (simp add: tool_draft_def draw_span_id_def Let_def same_fields)

lemma same_emit_tool:
  assumes "as_bridge s = None" shows "same_chats s (emit_tool w tool e status ms err m s)"
proof -
  obtain d s1 where d: "tool_draft w tool status ms err s = (d, s1)" by fastforce
  have s1: "same_chats s s1" "sd_gen_ai d = None"
    using same_tool_draft [of s w tool status ms err] tool_draft_gen_ai [of w tool status ms err s] d by simp_all
  then have "as_bridge s1 = None" using assms by (simp add: same_chats_def)
  then show ?thesis
    using s1 same_chats_trans [OF s1(1) same_finish_into [OF s1(2)]] same_tick
    by (simp add: emit_tool_def d)
qed

text \<open>A chain of steps none of which touches a response; each may need the bridge to be off.\<close>

lemma same_chain: "same_chats s t \<Longrightarrow> as_bridge s = None \<Longrightarrow> (as_bridge t = None \<Longrightarrow> same_chats t u) \<Longrightarrow> same_chats s u"
  by (simp add: same_chats_def)

lemma same_room_for [frame]: "room_for w table place s = (e, rest, s') \<Longrightarrow> same_chats s s'"
  using same_room(1) [of s w table place] by simp

lemma same_evict_tool:
  assumes "as_bridge s = None" shows "same_chats s (evict_tool w now s)"
proof -
  obtain e rest s1 where r: "room_for w (as_open_tools s) ''open_tool'' s = (e, rest, s1)" by (metis prod_cases3)
  define s2 where "s2 = s1\<lparr>as_open_tools := rest\<rparr>"
  have s2: "same_chats s s2" "as_bridge s2 = None"
    using same_chats_trans [OF same_room_for [OF r] same_fields(2)] assms by (simp_all add: s2_def same_chats_def)
  show ?thesis
  proof (cases e)
    case None
    then show ?thesis using s2 by (simp add: evict_tool_def r s2_def)
  next
    case (Some p)
    obtain i old where p: "p = (i, old)" by (cases p)
    define s3 where "s3 = emit_tool w old now S_UNSET [SESSION_ENTRY_TABLE_FULL] None False s2"
    obtain e' rest' s4 where r4: "room_for w (as_evicted_tools s3) ''evicted_tool'' s3 = (e', rest', s4)"
      by (metis prod_cases3)
    have "same_chats s2 s3" using same_emit_tool [OF s2(2)] by (simp add: s3_def)
    then have "same_chats s (s4\<lparr>as_evicted_tools := x\<rparr>)" for x
      using s2(1) same_room_for [OF r4] same_fields(3) same_chats_trans by metis
    then show ?thesis using Some p by (simp add: evict_tool_def r s2_def [symmetric] s3_def [symmetric] r4)
  qed
qed

lemma same_claim_key [frame]: "claim_key names name s = (k, s') \<Longrightarrow> same_chats s s'"
  using same_chats_trans [OF same_tick same_tick] by (auto simp: claim_key_def split: option.splits)

lemma same_open_tool_call:
  assumes "as_bridge s = None" shows "same_chats s (open_tool_call w names p t now inferred s)"
proof (cases t)
  case None
  then show ?thesis by (simp add: open_tool_call_def)
next
  case (Some i)
  obtain k s1 where c: "claim_key names (or_unknown (hp_tool_name p)) s = (k, s1)" by fastforce
  have s1: "same_chats s s1" "as_bridge s1 = None" using same_claim_key [OF c] assms by (simp_all add: same_chats_def)
  show ?thesis
  proof (cases k)
    case None
    then show ?thesis using s1 Some by (simp add: open_tool_call_def c)
  next
    case (Some key)
    define s2 where "s2 = s1\<lparr>as_units := snd (claim (as_unit s1) key HOOK_RANK (as_units s1))\<rparr>"
    have s2: "same_chats s s2" "as_bridge s2 = None"
      using same_chats_trans [OF s1(1) same_fields(1)] s1(2) by (simp_all add: s2_def)
    have "same_chats s (evict_tool w now s2)" by (rule same_chats_trans [OF s2(1) same_evict_tool [OF s2(2)]])
    then have "same_chats s ((evict_tool w now s2)\<lparr>as_open_tools := x\<rparr>)" for x
      by (rule same_chats_trans [OF _ same_fields(2)])
    then show ?thesis
      using s2 Some \<open>t = Some i\<close> by (simp add: open_tool_call_def c Let_def s2_def)
  qed
qed

lemma same_forget_meta [frame]: "same_chats s (forget_meta t s)"
  by (simp add: forget_meta_def same_fields)

lemma same_complete_crumb [frame]: "same_chats s (complete_crumb t crumb s)"
  using same_chats_trans [OF same_tick same_fields(3)] by (simp add: complete_crumb_def split: option.split)

lemma same_tool_to_close [frame]:
  assumes "tool_to_close names p t now inferred s = (r, s')" shows "same_chats s s'"
proof (cases "map_of (as_open_tools s) t")
  case None
  obtain k s1 where c: "claim_key names (or_unknown (hp_tool_name p)) s = (k, s1)" by fastforce
  have "same_chats s (forget_meta t (tick n s))" "same_chats s (forget_meta t s1)" "same_chats s (tick n s1)"
    "same_chats s (complete_crumb t crumb s1)" for n crumb
    using same_chats_trans [OF same_tick same_forget_meta] same_chats_trans [OF same_claim_key [OF c] same_forget_meta]
      same_chats_trans [OF same_claim_key [OF c] same_tick] same_chats_trans [OF same_claim_key [OF c] same_complete_crumb]
    by blast+
  then show ?thesis
    using assms None by (auto simp: tool_to_close_def Let_def c split: option.splits if_splits)
next
  case (Some tool)
  then show ?thesis using assms by (auto simp: tool_to_close_def same_fields)
qed

lemma same_close_tool_call:
  assumes "as_bridge s = None" shows "same_chats s (close_tool_call w names p t now failed inferred s)"
proof (cases t)
  case None
  then show ?thesis by (simp add: close_tool_call_def)
next
  case (Some i)
  obtain r s1 where r: "tool_to_close names p i now inferred s = (r, s1)" by fastforce
  have s1: "same_chats s (forget_meta i s1)" by (rule same_chats_trans [OF same_tool_to_close [OF r] same_forget_meta])
  then have "as_bridge (forget_meta i s1) = None" using assms by (simp add: same_chats_def)
  note same_chats_trans [OF s1 same_emit_tool [OF this]]
  then show ?thesis
    using Some same_tool_to_close [OF r] by (simp add: close_tool_call_def r Let_def split: option.split prod.split)
qed

lemma same_emit_from_stream:
  assumes "as_bridge s = None" shows "same_chats s (emit_from_stream w names t meta crumb l now s)"
proof -
  obtain k s1 where c: "claim_key names (stream_name meta crumb) s = (k, s1)" by fastforce
  have s2: "same_chats s (complete_crumb t crumb s1)"
    by (rule same_chats_trans [OF same_claim_key [OF c] same_complete_crumb])
  then have "as_bridge (complete_crumb t crumb s1) = None" using assms by (simp add: same_chats_def)
  note emitted = same_chats_trans [OF s2 same_emit_tool [OF this]]
  show ?thesis unfolding emit_from_stream_def c
    using same_claim_key [OF c] emitted by (cases k) (simp_all only: prod.case option.case)
qed

lemma same_stream_tool_result:
  assumes "as_bridge s = None" shows "same_chats s (stream_tool_result w names l now s)"
proof (cases "sl_tool_result_id l")
  case None
  then show ?thesis by (simp add: stream_tool_result_def)
next
  case (Some t)
  have f: "same_chats s (forget_meta t s)" "as_bridge (forget_meta t s) = None"
    using same_forget_meta assms by (simp_all add: forget_meta_def)
  then show ?thesis
    using Some same_chats_trans [OF f(1) same_tick] same_chats_trans [OF f(1) same_emit_from_stream [OF f(2)]]
    by (simp add: stream_tool_result_def Let_def same_fields split: option.split)
qed

lemma same_subagents: "(subs_ok s \<Longrightarrow> \<forall>e \<in> snd ` set sa. sd_gen_ai (os_draft e) = None) \<Longrightarrow> same_chats s (s\<lparr>as_subagents := sa\<rparr>)"
  by (auto simp: same_chats_def chat_spans_def subs_ok_def early_def tracked_thread_def fun_eq_iff split: option.splits)

lemma same_emit_subagent_entry:
  assumes "as_bridge s = None" "sd_gen_ai (os_draft e) = None"
  shows "same_chats s (emit_subagent_entry w e a now ms st s)"
  using assms same_finish_into by (simp add: emit_subagent_entry_def)

lemma same_emit_subagent:
  assumes "as_bridge s = None" "subs_ok s" shows "same_chats s (emit_subagent w a now s)"
proof -
  have "same_chats s (emit_subagent_entry w e i now [] S_OK (s\<lparr>as_subagents := AList.delete i (as_subagents s)\<rparr>))"
    if "map_of (as_subagents s) i = Some e" for i e
  proof (rule same_chats_trans [OF same_subagents same_emit_subagent_entry])
    show "sd_gen_ai (os_draft e) = None" using map_of_SomeD [OF that] assms(2) by (force simp: subs_ok_def)
    show "\<forall>e \<in> snd ` set (AList.delete i (as_subagents s)). sd_gen_ai (os_draft e) = None"
      using assms(2) by (auto simp: subs_ok_def AList.delete_eq)
  qed (simp add: assms)
  then show ?thesis by (auto simp: emit_subagent_def same_tick split: option.split)
qed

lemma same_bridge: "same_chats s t \<Longrightarrow> as_bridge t = as_bridge s"
  by (simp add: same_chats_def)

lemma same_subs: "same_chats s t \<Longrightarrow> subs_ok s \<Longrightarrow> subs_ok t"
  by (simp add: same_chats_def)

lemma room_for_cases:
  assumes "room_for w table place s = (e, rest, s')" "0 < aw_max_entries w"
  obtains "e = None" "rest = table" "s' = s" "length table < aw_max_entries w"
  | p n where "e = Some p" "table = p # rest" "s' = tick n s"
  using assms by (cases table) (auto simp: room_for_def evict_oldest_def split: if_splits)

lemma same_evict_subagent:
  assumes "as_bridge s = None" "subs_ok s" "0 < aw_max_entries w" shows "same_chats s (evict_subagent w now s)"
proof -
  obtain e rest s1 where r: "room_for w (as_subagents s) ''subagent'' s = (e, rest, s1)" by (metis prod_cases3)
  from r assms(3) show ?thesis
  proof (cases rule: room_for_cases)
    case 1
    then show ?thesis by (simp add: evict_subagent_def r)
  next
    case (2 p n)
    obtain i old where p: "p = (i, old)" by (cases p)
    have d: "sd_gen_ai (os_draft old) = None" "\<forall>e \<in> snd ` set rest. sd_gen_ai (os_draft e) = None"
      using assms(2) 2(2) p by (auto simp: subs_ok_def)
    define s2 where "s2 = s1\<lparr>as_subagents := rest\<rparr>"
    have s2: "same_chats s s2"
      using same_chats_trans [OF same_room_for [OF r] same_subagents] d(2) by (simp add: s2_def)
    define s3 where "s3 = emit_subagent_entry w old i now [SESSION_ENTRY_TABLE_FULL] S_UNSET s2"
    have s3: "same_chats s s3"
      using same_chats_trans [OF s2 same_emit_subagent_entry [OF _ d(1)]] same_bridge [OF s2] assms(1) by (simp add: s3_def)
    obtain e' rest' s4 where r4: "room_for w (as_evicted_subagents s3) ''evicted_subagent'' s3 = (e', rest', s4)"
      by (metis prod_cases3)
    have "same_chats s (s4\<lparr>as_evicted_subagents := x\<rparr>)" for x
      by (rule same_chats_trans [OF same_chats_trans [OF s3 same_room_for [OF r4]] same_fields(4)])
    then show ?thesis using 2(1) p by (simp add: evict_subagent_def r s2_def [symmetric] s3_def [symmetric] r4)
  qed
qed

lemma snd_update: "snd ` set (AList.update k v d) \<subseteq> insert v (snd ` set d)"
  by (induction d) auto

lemma same_start_subagent:
  assumes "as_bridge s = None" "subs_ok s" "0 < aw_max_entries w"
  shows "same_chats s (start_subagent w p now inferred s)"
proof (cases "truthy_text (hp_agent_id p)")
  case True
  define s1 where "s1 = evict_subagent w now s"
  have s1: "same_chats s s1" using same_evict_subagent [OF assms] by (simp add: s1_def)
  define s2 where "s2 = snd (draw_span_id w s1)"
  have s2: "same_chats s s2" "subs_ok s2"
    using same_chats_trans [OF s1 same_draw] same_subs assms(2) unfolding s2_def by blast+
  have "same_chats s2 (s2\<lparr>as_subagents := AList.update a e (as_subagents s2)\<rparr>)"
    if "sd_gen_ai (os_draft e) = None" for a e
    using that s2(2) snd_update [of a e "as_subagents s2"]
    by (intro same_subagents) (force simp: subs_ok_def)
  then show ?thesis
    using True same_chats_trans [OF s2(1)] by (simp add: start_subagent_def Let_def s1_def [symmetric] s2_def split_beta)
next
  case False
  then show ?thesis by (simp add: start_subagent_def)
qed

lemma same_set_prompt [frame]: "same_chats s (set_prompt b src seen guess s)"
  using same_chats_trans [OF same_tick same_fields(13)] same_fields(13) by (simp add: set_prompt_def Let_def)

lemma same_on_prompt_submit [frame]: "same_chats s (on_prompt_submit w p now guess s)"
proof -
  note chain = same_chats_trans [OF same_chats_trans [OF same_set_prompt same_mark_thread] same_fields(6)]
  show ?thesis unfolding on_prompt_submit_def Let_def
    using chain same_fields(8) by (simp only: split: if_split) blast
qed

lemma same_on_outbound [frame]: "same_chats s (on_outbound w False bridge l now s)"
proof -
  have s1: "same_chats s (mark_thread w key now True s)" "same_chats s ((mark_thread w key now True s)\<lparr>as_awaiting_result := True\<rparr>)"
    for key
    using same_mark_thread same_chats_trans [OF same_mark_thread same_fields(6)] by blast+
  then show ?thesis
    using same_chats_trans [OF s1(1) same_set_prompt] same_chats_trans [OF s1(2) same_set_prompt]
    by (simp add: on_outbound_def Let_def)
qed

lemma same_on_hook:
  assumes "as_bridge s = None" "subs_ok s" "0 < aw_max_entries w"
  shows "same_chats s (on_hook w names event p t now inferred s)"
  using same_open_tool_call same_close_tool_call same_start_subagent same_emit_subagent same_on_prompt_submit assms
  by (simp add: on_hook_def split: hook_event.split)

lemma same_session_init [frame]: "same_chats s (session_init l s)"
proof -
  have "same_chats s (note_session m (tick n s))" for m n
    using same_chats_trans [OF same_tick same_fields(1)] by (simp add: note_session_def)
  then show ?thesis
    using same_chats_trans [OF same_chats_trans [OF _ same_fields(10)] same_fields(1)]
      same_chats_trans [OF same_fields(10) same_fields(1)] same_fields(10) same_chats_trans [OF _ same_fields(10)]
    by (simp add: session_init_def Let_def)
qed

lemma same_announce_tool [frame]: "same_chats s (announce_tool w now u s)"
proof -
  obtain b s1 where r: "has_room w (as_tool_meta s) ''stream_tool_meta'' s = (b, s1)" by fastforce
  have "same_chats s s1" using same_room(2) [of s w "as_tool_meta s"] r by (metis snd_conv)
  then show ?thesis
    using same_chats_trans [OF _ same_fields(5)] by (cases u) (simp add: announce_tool_def r)
qed

lemma same_announce_tools [frame]: "same_chats s (fold (announce_tool w now) us s)"
  by (induction us arbitrary: s) (auto intro: same_chats_trans same_announce_tool)

end
