(* ===== verification/Agent_History.thy ===== *)
theory Agent_History
  imports Agent_Laws Builder_Laws "HOL-Library.Multiset"
begin

text \<open>
  What an agent session ships. The history of a run is kept beside the state (\<open>history\<close>): for each
  thread the lines of its current response and those its held span has taken, the responses that
  are over, and what was shipped, with the lines each span was built from. A response is a run of lines
  of one thread that name the same message, as the CLI writes it, ended by a line of another
  response or by the end of its thread.
\<close>

section \<open>What a span tells\<close>

text \<open>The chat block of a response: its first line's, the later ones folded in.\<close>

definition line_block :: "agent_world \<Rightarrow> py_text option \<Rightarrow> rat option \<Rightarrow> stream_line \<Rightarrow> chat_block" where
  "line_block w model ttft l =
     \<lparr>cb_request_model = model, cb_response_model = sl_model l, cb_response_id = sl_message_id l,
      cb_input_tokens = sl_input_tokens l, cb_output_tokens = sl_output_tokens l,
      cb_cache_read = sl_cache_read_tokens l, cb_cache_creation = sl_cache_creation_tokens l,
      cb_finish_reason = (if truthy_text (sl_stop_reason l)
                          then map_option (aw_stop w) (sl_stop_reason l) else None),
      cb_ttft_s = ttft\<rparr>"

definition response_block :: "agent_world \<Rightarrow> py_text option \<Rightarrow> rat option \<Rightarrow> stream_line list \<Rightarrow> chat_block" where
  "response_block w model ttft ls = fold (fold_usage w) (tl ls) (line_block w model ttft (hd ls))"

definition response_content :: "stream_line list \<Rightarrow> bytes" where
  "response_content ls = fold (\<lambda>l held. join_blocks held (content_of l)) (tl ls) (content_of (hd ls))"

text \<open>The same, said of the lines themselves. The input counts, which come in threes, are those of the last
  line that gives the input tokens, or else of the last that gives any of them; the output count is the
  last one given; the stop reason and the model are the last ones named; and the content blocks
  of all lines stand in one array, in the order they came.\<close>

definition last_such :: "(stream_line \<Rightarrow> bool) \<Rightarrow> stream_line list \<Rightarrow> stream_line option" where
  "last_such P ls = (if filter P ls = [] then None else Some (last (filter P ls)))"

definition gives_input :: "stream_line \<Rightarrow> bool" where
  "gives_input l \<longleftrightarrow> sl_input_tokens l \<noteq> None"

definition gives_any :: "stream_line \<Rightarrow> bool" where
  "gives_any l \<longleftrightarrow> sl_input_tokens l \<noteq> None \<or> sl_cache_read_tokens l \<noteq> None \<or> sl_cache_creation_tokens l \<noteq> None"

definition input_line :: "stream_line list \<Rightarrow> stream_line option" where
  "input_line ls = (case last_such gives_input ls of Some l \<Rightarrow> Some l | None \<Rightarrow> last_such gives_any ls)"

definition told_usage :: "agent_world \<Rightarrow> py_text option \<Rightarrow> rat option \<Rightarrow> stream_line list \<Rightarrow> chat_block" where
  "told_usage w model ttft ls =
     \<lparr>cb_request_model = model,
      cb_response_model = (case last_such (\<lambda>l. truthy_text (sl_model l)) ls of
                             Some l \<Rightarrow> sl_model l | None \<Rightarrow> sl_model (hd ls)),
      cb_response_id = sl_message_id (hd ls),
      cb_input_tokens = Option.bind (input_line ls) sl_input_tokens,
      cb_output_tokens = Option.bind (last_such (\<lambda>l. sl_output_tokens l \<noteq> None) ls) sl_output_tokens,
      cb_cache_read = Option.bind (input_line ls) sl_cache_read_tokens,
      cb_cache_creation = Option.bind (input_line ls) sl_cache_creation_tokens,
      cb_finish_reason = Option.bind (last_such (\<lambda>l. truthy_text (sl_stop_reason l)) ls)
                           (\<lambda>l. map_option (aw_stop w) (sl_stop_reason l)),
      cb_ttft_s = ttft\<rparr>"

definition blank :: "bytes \<Rightarrow> bool" where
  "blank b \<longleftrightarrow> b = [] \<or> b = [91, 93]"

definition array_of :: "bytes \<Rightarrow> bytes" where
  "array_of inner = 91 # inner @ [93]"

fun commas :: "bytes list \<Rightarrow> bytes" where
  "commas [] = []"
| "commas [b] = b"
| "commas (b # bs) = b @ 44 # commas bs"

text \<open>What a line's array of blocks says between its brackets, for the lines that say something.\<close>

definition bodies_of :: "stream_line list \<Rightarrow> bytes list" where
  "bodies_of ls = map (\<lambda>l. butlast (tl (content_of l))) (filter (\<lambda>l. \<not> blank (content_of l)) ls)"

definition is_array :: "bytes \<Rightarrow> bool" where
  "is_array b \<longleftrightarrow> 2 \<le> length b \<and> hd b = 91 \<and> last b = 93"

definition says_blocks :: "stream_line list \<Rightarrow> bytes \<Rightarrow> bool" where
  "says_blocks ls content \<longleftrightarrow>
     (if bodies_of ls = [] then content = content_of (last ls) else content = array_of (commas (bodies_of ls)))"

lemma last_such_append:
  "last_such P (ls @ [l]) = (if P l then Some l else last_such P ls)"
  by (simp add: last_such_def)

lemma last_such_one: "last_such P [l] = (if P l then Some l else None)"
  by (simp add: last_such_def)

lemma last_such_holds: "last_such P ls = Some l \<Longrightarrow> P l"
  unfolding last_such_def using last_in_set [of "filter P ls"] by (auto split: if_splits)

lemma last_such_in: "last_such P ls = Some l \<Longrightarrow> l \<in> set ls"
  unfolding last_such_def using last_in_set [of "filter P ls"] by (auto split: if_splits)

lemma last_such_none: "last_such P ls = None \<longleftrightarrow> (\<forall>l \<in> set ls. \<not> P l)"
  by (auto simp: last_such_def filter_empty_conv)

lemma input_line_append:
  "input_line (ls @ [l]) =
     (if gives_any l \<and> (gives_input l \<or> Option.bind (input_line ls) sl_input_tokens = None) then Some l
      else input_line ls)"
proof (cases "last_such gives_input ls")
  case None
  have "Option.bind (last_such gives_any ls) sl_input_tokens = None"
  proof (cases "last_such gives_any ls")
    case (Some x)
    then have "x \<in> set ls" by (rule last_such_in)
    then show ?thesis using None Some by (simp add: last_such_none gives_input_def)
  qed simp
  then show ?thesis using None
    by (simp add: input_line_def last_such_append gives_input_def gives_any_def)
next
  case (Some x)
  then have "sl_input_tokens x \<noteq> None" using last_such_holds by (fastforce simp: gives_input_def)
  then show ?thesis using Some
    by (auto simp add: input_line_def last_such_append gives_input_def gives_any_def)
qed

lemma told_usage_one: "told_usage w model ttft [l] = line_block w model ttft l"
  by (auto simp: told_usage_def line_block_def input_line_def last_such_one gives_input_def gives_any_def)

lemma fold_usage_fields:
  "cb_request_model (fold_usage w l g) = cb_request_model g" "cb_response_id (fold_usage w l g) = cb_response_id g"
  "cb_ttft_s (fold_usage w l g) = cb_ttft_s g"
  "cb_response_model (fold_usage w l g) = (if truthy_text (sl_model l) then sl_model l else cb_response_model g)"
  "cb_finish_reason (fold_usage w l g) =
     (if truthy_text (sl_stop_reason l) then map_option (aw_stop w) (sl_stop_reason l) else cb_finish_reason g)"
  "cb_output_tokens (fold_usage w l g) = (if sl_output_tokens l \<noteq> None then sl_output_tokens l else cb_output_tokens g)"
  "cb_input_tokens (fold_usage w l g) =
     (if gives_any l \<and> (gives_input l \<or> cb_input_tokens g = None) then sl_input_tokens l else cb_input_tokens g)"
  "cb_cache_read (fold_usage w l g) =
     (if gives_any l \<and> (gives_input l \<or> cb_input_tokens g = None) then sl_cache_read_tokens l else cb_cache_read g)"
  "cb_cache_creation (fold_usage w l g) =
     (if gives_any l \<and> (gives_input l \<or> cb_input_tokens g = None) then sl_cache_creation_tokens l
      else cb_cache_creation g)"
  by (simp_all add: fold_usage_def Let_def gives_any_def gives_input_def)

lemma told_usage_append:
  assumes "ls \<noteq> []"
  shows "told_usage w model ttft (ls @ [l]) = fold_usage w l (told_usage w model ttft ls)"
proof -
  have h: "hd (ls @ [l]) = hd ls" using assms by simp
  show ?thesis
    by (rule chat_block.equality, simp_all only: fold_usage_fields told_usage_def chat_block.simps input_line_append
        last_such_append h bind.bind_lunit option.case if_distrib [of "\<lambda>x. Option.bind x _"]
        if_distrib [of "case_option _ _"] cong: if_cong, simp)
qed

lemma response_block_told:
  assumes "ls \<noteq> []" shows "response_block w model ttft ls = told_usage w model ttft ls"
  using assms
proof (induction ls rule: rev_nonempty_induct)
  case (single l)
  then show ?case by (simp add: response_block_def told_usage_one)
next
  case (snoc l ls)
  then show ?case by (simp add: response_block_def told_usage_append)
qed

lemma commas_append: "bs \<noteq> [] \<Longrightarrow> commas (bs @ [b]) = commas bs @ 44 # b"
  by (induction bs rule: commas.induct) auto

lemma array_of_array: "is_array b \<Longrightarrow> array_of (butlast (tl b)) = b"
  by (cases b; cases "tl b"; simp add: array_of_def is_array_def; metis append_butlast_last_id)

lemma join_arrays:
  assumes "is_array b" "\<not> blank b"
  shows "inner \<noteq> [] \<Longrightarrow> join_blocks (array_of inner) b = array_of (inner @ 44 # butlast (tl b))"
    and "blank held \<Longrightarrow> join_blocks held b = b"
proof -
  obtain inner' where b: "b = 91 # inner' @ [93]" using array_of_array [OF assms(1)] by (metis array_of_def)
  show "inner \<noteq> [] \<Longrightarrow> join_blocks (array_of inner) b = array_of (inner @ 44 # butlast (tl b))"
    using assms(2) by (auto simp: b join_blocks_def array_of_def blank_def butlast_append)
  show "blank held \<Longrightarrow> join_blocks held b = b" by (auto simp: join_blocks_def blank_def)
qed

lemma bodies_append:
  "bodies_of (ls @ [l]) = bodies_of ls @ (if blank (content_of l) then [] else [butlast (tl (content_of l))])"
  by (simp add: bodies_of_def)

lemma bodies_solid:
  assumes "\<forall>l \<in> set ls. blank (content_of l) \<or> is_array (content_of l)" "bodies_of ls \<noteq> []"
  shows "commas (bodies_of ls) \<noteq> []"
proof -
  have "b \<noteq> []" if "b \<in> set (bodies_of ls)" for b
    using that assms(1) array_of_array by (fastforce simp: bodies_of_def blank_def array_of_def)
  then show ?thesis using assms(2) by (cases "bodies_of ls" rule: commas.cases) auto
qed

lemma says_blocks_append:
  assumes "ls \<noteq> []" "\<forall>l \<in> set (ls @ [l]). blank (content_of l) \<or> is_array (content_of l)" "says_blocks ls held"
  shows "says_blocks (ls @ [l]) (join_blocks held (content_of l))"
proof -
  have blank_held: "blank held" if "bodies_of ls = []"
  proof -
    have "blank (content_of (last ls))" using that assms(1) by (auto simp: bodies_of_def filter_empty_conv)
    then show ?thesis using that assms(3) by (simp add: says_blocks_def)
  qed
  show ?thesis
  proof (cases "bodies_of ls = []")
    case True
    then have "join_blocks held (content_of l) = content_of l"
      using blank_held by (auto simp: join_blocks_def blank_def)
    moreover have "\<not> blank (content_of l) \<Longrightarrow> is_array (content_of l)" using assms(2) by auto
    ultimately show ?thesis using True array_of_array [of "content_of l"] by (simp add: says_blocks_def bodies_append)
  next
    case False
    have c: "commas (bodies_of ls) \<noteq> []" using bodies_solid assms(2) False by simp
    have h: "held = array_of (commas (bodies_of ls))" using False assms(3) by (simp add: says_blocks_def)
    show ?thesis
    proof (cases "blank (content_of l)")
      case True
      then have "join_blocks held (content_of l) = held"
        using c by (auto simp: join_blocks_def h array_of_def blank_def)
      then show ?thesis using True False h by (simp add: says_blocks_def bodies_append)
    next
      case b: False
      then have "is_array (content_of l)" using assms(2) by auto
      note join_arrays(1) [OF this b c]
      then show ?thesis using b False h by (simp add: says_blocks_def bodies_append commas_append)
    qed
  qed
qed

lemma response_content_says:
  assumes "ls \<noteq> []" "\<forall>l \<in> set ls. blank (content_of l) \<or> is_array (content_of l)"
  shows "says_blocks ls (response_content ls)"
  using assms
proof (induction ls rule: rev_nonempty_induct)
  case (single l)
  then show ?case using array_of_array [of "content_of l"]
    by (auto simp: response_content_def says_blocks_def bodies_of_def)
next
  case (snoc l ls)
  have "response_content (ls @ [l]) = join_blocks (response_content ls) (content_of l)"
    using snoc.hyps by (simp add: response_content_def)
  then show ?case using says_blocks_append [of ls l "response_content ls"] snoc by simp
qed

text \<open>A draft that \<open>finish\<close> refuses only for the name of its model or an empty conversation id.\<close>

definition finishable :: "py_text option \<Rightarrow> span_draft \<Rightarrow> bool" where
  "finishable model d \<longleftrightarrow>
     sd_manual_name d = None \<and> sd_label d = None \<and> sd_subject d = model \<and> sd_status d \<noteq> S_ERROR \<and>
     list_all (\<lambda>(k, v). is_declared_extra_key k) (sd_extra d) \<and>
     sc_trace_id (sd_context d) = pa_trace_id (sd_parentage d) \<and> list_all is_member (ib_markers (sd_integrity d))"

definition refusable :: "agent_world \<Rightarrow> stream_line \<Rightarrow> bool" where
  "refusable w l \<longleftrightarrow>
     (\<not> no_subject (sl_model l) \<and> suffix (str_lit '' None'') (strip (the (sl_model l)))) \<or>
     (\<exists>c. aw_conversation_id w c = [])"

lemma finish_chat_accepts:
  assumes "finishable model d" "sd_intent d = Some CHAT" "sd_gen_ai d \<noteq> None" "\<forall>c. conv c \<noteq> []"
    and "no_subject model \<or> \<not> suffix (str_lit '' None'') (strip (the model))"
  shows "\<exists>f. fst (finish conv (Some e) d) = Inr f"
proof -
  have m: "sd_manual_name d = None" "sd_label d = None" "sd_subject d = model" "sd_status d \<noteq> S_ERROR"
    "undeclared_keys d = []" "sc_trace_id (sd_context d) = pa_trace_id (sd_parentage d)"
    "filter (\<lambda>m. \<not> is_member m) (ib_markers (sd_integrity d)) = []"
    using assms(1) by (simp_all add: finishable_def undeclared_keys_Nil filter_empty_conv list_all_iff)
  have "names_itself d" using assms(2,3,5) m(3)
    by (simp add: names_itself_def required_blocks_def required_extra_keys_def)
  then have "check_name (draft_name d) d = None \<and> check_structure d = None"
    using name_and_structure [of d] assms(2) m(1,2) by (simp add: one_mode_def)
  then have "checks conv d = None" using m assms(4)
    by (simp add: checks_def check_status_def check_conversation_def check_extra_def check_trace_def split: option.split)
  then show ?thesis using m by (simp add: finish_def normalize_not_manual first_given_def)
qed

lemma finishable_frame [simp]:
  "finishable m (put_marker (Member i) d) = finishable m d"
  "finishable m (put_end_ns e d) = finishable m d"
  "finishable m (put_io i' o' a b d) = finishable m d"
  "finishable m (replace_correlation c d) = finishable m d"
  "finishable m (d\<lparr>sd_gen_ai := g\<rparr>) = finishable m d"
  "is_declared_extra_key k \<Longrightarrow> finishable m (put_extra k v d) = finishable m d"
  "finishable m (put_conversation c' d) = finishable m d"
  by (auto simp: finishable_def put_marker_def put_limitation_def Let_def put_end_ns_def put_io_def response_body_def
      request_body_def replace_correlation_def put_extra_def put_conversation_def)

lemma finishable_status: "finishable m d \<Longrightarrow> c \<noteq> S_ERROR \<Longrightarrow> finishable m (put_status c t d)"
  by (simp add: finishable_def put_status_def)

lemma finishable_markers [simp]: "finishable m (put_markers ms d) = finishable m d"
  unfolding put_markers_def by (induction ms arbitrary: d) simp_all

definition early_marked :: "span_draft \<Rightarrow> bool" where
  "early_marked d \<longleftrightarrow> Member SESSION_ENTRY_TABLE_FULL \<in> set (ib_markers (sd_integrity d))"

definition represents :: "agent_world \<Rightarrow> open_chat \<Rightarrow> stream_line list \<Rightarrow> bool \<Rightarrow> bool" where
  "represents w chat ls marked \<longleftrightarrow>
     ls \<noteq> [] \<and> oc_message_id chat = sl_message_id (hd ls) \<and> finishable (sl_model (hd ls)) (oc_draft chat) \<and>
     (\<exists>model ttft. oc_gen_ai chat = response_block w model ttft ls) \<and>
     oc_output_data chat = response_content ls \<and>
     sd_gen_ai (oc_draft chat) = Some (gen_ai_of w (oc_gen_ai chat)) \<and>
     sd_output_data (oc_draft chat) = oc_output_data chat \<and> sd_intent (oc_draft chat) = Some CHAT \<and>
     ib_touched (sd_integrity (oc_draft chat)) \<and> early_marked (oc_draft chat) = marked"

text \<open>A shipped entry: thread, lines, whether it is marked, and the span, unless finishing refused it, which
  only the name of its model or an empty conversation id makes it do.\<close>

type_synonym told = "py_text option \<times> stream_line list \<times> bool \<times> internal_span option"

definition tells :: "agent_world \<Rightarrow> told \<Rightarrow> bool" where
  "tells w t =
     (case t of (key, ls, marked, span_of) \<Rightarrow>
       ls \<noteq> [] \<and>
       (case span_of of
          None \<Rightarrow> refusable w (hd ls)
        | Some f \<Rightarrow>
            (\<exists>model ttft. fs_gen_ai f = Some (gen_ai_of w (told_usage w model ttft ls))) \<and>
            (if \<forall>l \<in> set ls. blank (content_of l) \<or> is_array (content_of l)
             then says_blocks ls (fs_output_data f) else fs_output_data f = response_content ls) \<and>
            (\<exists>g. fs_capture_integrity f = Some g \<and>
               (marked \<longleftrightarrow> Member SESSION_ENTRY_TABLE_FULL \<in> set (cg_limitations g)))))"

section \<open>The history of a run\<close>

record history =
  hs_lines :: "stream_line list"
  hs_now :: "py_text option \<Rightarrow> stream_line list"
  hs_held :: "py_text option \<Rightarrow> stream_line list"
  hs_marked :: "py_text option \<Rightarrow> bool"
  hs_whole :: "(py_text option \<times> stream_line list) list"
  hs_told :: "told list"
  hs_skipped :: "stream_line list"

definition new_history :: history where
  "new_history = \<lparr>hs_lines = [], hs_now = (\<lambda>_. []), hs_held = (\<lambda>_. []), hs_marked = (\<lambda>_. False),
     hs_whole = [], hs_told = [], hs_skipped = []\<rparr>"

definition final_draft :: "bool \<Rightarrow> open_chat \<Rightarrow> span_draft" where
  "final_draft closed_early chat =
     put_markers (if oc_ttft chat \<noteq> None then [BASE_LIMITATION, TTFT_IPC_APPROXIMATION] else [BASE_LIMITATION])
       (if closed_early then put_marker (Member SESSION_ENTRY_TABLE_FULL) (put_status S_UNSET [] (oc_draft chat))
        else oc_draft chat)"

definition told_span :: "agent_world \<Rightarrow> bool \<Rightarrow> open_chat \<Rightarrow> internal_span option" where
  "told_span w closed_early chat =
     (case fst (finish (aw_conversation_id w) (Some (oc_end_ns chat)) (final_draft closed_early chat)) of
        Inl e \<Rightarrow> None | Inr f \<Rightarrow> Some f)"

definition tell :: "agent_world \<Rightarrow> bool \<Rightarrow> py_text option \<Rightarrow> open_chat \<Rightarrow> history \<Rightarrow> history" where
  "tell w closed_early key chat h =
     h\<lparr>hs_told := hs_told h @ [(key, hs_held h key, closed_early \<or> hs_marked h key, told_span w closed_early chat)],
       hs_held := (hs_held h)(key := []), hs_marked := (hs_marked h)(key := False)\<rparr>"

definition tell_held :: "agent_world \<Rightarrow> py_text option \<Rightarrow> agent_session \<Rightarrow> history \<Rightarrow> history" where
  "tell_held w key s h = (case map_of (as_open_chats s) key of None \<Rightarrow> h | Some chat \<Rightarrow> tell w False key chat h)"

definition end_current :: "py_text option \<Rightarrow> history \<Rightarrow> history" where
  "end_current key h =
     h\<lparr>hs_whole := hs_whole h @ (if hs_now h key = [] then [] else [(key, hs_now h key)]),
       hs_now := (hs_now h)(key := [])\<rparr>"

definition end_history :: "agent_world \<Rightarrow> py_text option \<Rightarrow> agent_session \<Rightarrow> history \<Rightarrow> history" where
  "end_history w key s h = end_current key (tell_held w key s h)"

definition same_response :: "stream_line \<Rightarrow> stream_line list \<Rightarrow> bool" where
  "same_response l ls \<longleftrightarrow> ls \<noteq> [] \<and> sl_message_id l \<noteq> None \<and> sl_message_id l = sl_message_id (hd ls)"

definition current_line :: "stream_line \<Rightarrow> history \<Rightarrow> history" where
  "current_line l h =
     (let key = sl_parent_tool_use_id l;
          h = (if same_response l (hs_now h key) then h else end_current key h)
      in h\<lparr>hs_lines := hs_lines h @ [l], hs_now := (hs_now h)(key := hs_now h key @ [l])\<rparr>)"

definition open_history :: "agent_world \<Rightarrow> stream_line \<Rightarrow> agent_session \<Rightarrow> history \<Rightarrow> history" where
  "open_history w l s h =
     (let key = sl_parent_tool_use_id l; rest = AList.delete key (as_open_chats s);
          h = tell_held w key s h;
          h = (if length rest < aw_max_entries w then h else tell w True (fst (hd rest)) (snd (hd rest)) h)
      in h\<lparr>hs_held := (hs_held h)(key := [l]), hs_marked := (hs_marked h)(key := may_repeat key s)\<rparr>)"

definition line_history :: "agent_world \<Rightarrow> stream_line \<Rightarrow> agent_session \<Rightarrow> history \<Rightarrow> history" where
  "line_history w l s h =
     (let key = sl_parent_tool_use_id l
      in current_line l
           (if (case map_of (as_open_chats s) key of None \<Rightarrow> False | Some held \<Rightarrow> continues held l)
            then h\<lparr>hs_held := (hs_held h)(key := hs_held h key @ [l])\<rparr>
            else if shipped_early l s then h\<lparr>hs_skipped := hs_skipped h @ [l]\<rparr>
            else open_history w l s h))"

definition inbound_history :: "agent_world \<Rightarrow> stream_line \<Rightarrow> agent_session \<Rightarrow> history \<Rightarrow> history" where
  "inbound_history w l s h =
     (case sl_kind l of
        Assistant_turn \<Rightarrow> line_history w l s h
      | Tool_result \<Rightarrow>
          if sl_tool_result_id l \<noteq> None \<and> \<not> sl_launched_async l then end_history w (sl_tool_result_id l) s h else h
      | Session_result \<Rightarrow> end_history w None s h
      | Task_lifecycle \<Rightarrow>
          if sl_subtype l = Some (str_lit ''task_notification'') \<and> truthy_text (sl_task_tool_use_id l)
          then end_history w (sl_task_tool_use_id l) s h else h
      | _ \<Rightarrow> h)"

text \<open>A session with no telemetry bridge, driven by everything that reaches it: the CLI's lines, the
  host's writes, the hooks, and what others do to the registry its unit lives in.\<close>

inductive session_run :: "agent_world \<Rightarrow> agent_session \<Rightarrow> history \<Rightarrow> bool" for w where
  sr_new: "session_run w (new_agent_session us u key t issued) new_history"
| sr_line: "session_run w s h \<Longrightarrow> session_run w (on_inbound w names l now s) (inbound_history w l s h)"
| sr_write: "session_run w s h \<Longrightarrow> session_run w (on_outbound w False bridge l now s) h"
| sr_hook: "session_run w s h \<Longrightarrow> session_run w (on_hook w names event p t now inferred s) h"
| sr_others: "session_run w s h \<Longrightarrow> session_run w (s\<lparr>as_units := us\<rparr>) h"

section \<open>Shipping\<close>

lemma put_markers_fields [simp]:
  "sd_output_data (put_markers ms d) = sd_output_data d" "sd_intent (put_markers ms d) = sd_intent d"
  "ib_touched (sd_integrity d) \<Longrightarrow> ib_touched (sd_integrity (put_markers ms d))"
  "set (ib_markers (sd_integrity (put_markers ms d))) = set (ib_markers (sd_integrity d)) \<union> Member ` set ms"
  unfolding put_markers_def
  by (induction ms arbitrary: d) (auto simp: put_marker_def put_limitation_def Let_def)

lemma put_marker_fields [simp]:
  "sd_output_data (put_marker m d) = sd_output_data d" "sd_intent (put_marker m d) = sd_intent d"
  "ib_touched (sd_integrity (put_marker m d))"
  "set (ib_markers (sd_integrity (put_marker m d))) = insert m (set (ib_markers (sd_integrity d)))"
  by (auto simp: put_marker_def put_limitation_def Let_def)

lemma finish_fields:
  assumes "fst (finish conv e d) = Inr f" "sd_intent d = Some CHAT" "ib_touched (sd_integrity d)"
  shows "fs_gen_ai f = map_option (\<lambda>g. g\<lparr>ga_operation := str_lit ''chat''\<rparr>) (sd_gen_ai d)"
    "fs_output_data f = sd_output_data d"
    "\<exists>g. fs_capture_integrity f = Some g \<and> cg_limitations g = ib_markers (sd_integrity d)"
proof -
  obtain e' d' where m: "f = materialized e' d'" "d' = normalize_manual_error d"
    using assms(1) by (auto simp: finish_def Let_def split: option.splits if_splits)
  have n: "sd_intent d' = sd_intent d" "sd_gen_ai d' = sd_gen_ai d" "sd_output_data d' = sd_output_data d"
    "sd_integrity d' = sd_integrity d"
    by (simp_all add: m(2) normalize_manual_error_def split: option.split)
  show "fs_gen_ai f = map_option (\<lambda>g. g\<lparr>ga_operation := str_lit ''chat''\<rparr>) (sd_gen_ai d)"
    "fs_output_data f = sd_output_data d"
    "\<exists>g. fs_capture_integrity f = Some g \<and> cg_limitations g = ib_markers (sd_integrity d)"
    using assms(2,3) by (simp_all add: m(1) n materialized_def carried_gen_ai_def build_integrity_def)
qed

lemma told_span_tells:
  assumes "represents w chat ls marked"
  shows "tells w (key, ls, closed_early \<or> marked, told_span w closed_early chat)"
proof -
  let ?d = "final_draft closed_early chat"
  have d: "sd_intent ?d = Some CHAT" "ib_touched (sd_integrity ?d)" "sd_gen_ai ?d = sd_gen_ai (oc_draft chat)"
    "sd_output_data ?d = sd_output_data (oc_draft chat)" "early_marked ?d = (closed_early \<or> marked)"
    using assms by (auto simp: final_draft_def represents_def early_marked_def BASE_LIMITATION_def put_status_def)
  obtain model ttft where b: "oc_gen_ai chat = response_block w model ttft ls" using assms by (auto simp: represents_def)
  have c: "ls \<noteq> []" "sd_gen_ai ?d = Some (gen_ai_of w (told_usage w model ttft ls))" "sd_output_data ?d = response_content ls"
    "finishable (sl_model (hd ls)) ?d"
    using assms b d(3,4) response_block_told [of ls]
    by (auto simp: represents_def final_draft_def intro: finishable_status)
  have says: "if \<forall>l \<in> set ls. blank (content_of l) \<or> is_array (content_of l)
      then says_blocks ls (response_content ls) else response_content ls = response_content ls"
    using response_content_says [OF c(1)] by auto
  have told: "(\<exists>model ttft. fs_gen_ai f = Some (gen_ai_of w (told_usage w model ttft ls))) \<and>
      fs_output_data f = response_content ls \<and>
      (\<exists>g. fs_capture_integrity f = Some g \<and>
         (closed_early \<or> marked \<longleftrightarrow> Member SESSION_ENTRY_TABLE_FULL \<in> set (cg_limitations g)))"
    if f: "told_span w closed_early chat = Some f" for f
  proof -
    have "fst (finish (aw_conversation_id w) (Some (oc_end_ns chat)) ?d) = Inr f"
      using f by (simp add: told_span_def split: sum.splits)
    note ff = finish_fields [OF this d(1,2)]
    have "fs_gen_ai f = Some (gen_ai_of w (told_usage w model ttft ls))"
      using ff(1) c(2) by (simp add: gen_ai_of_def)
    moreover obtain g where "fs_capture_integrity f = Some g" "cg_limitations g = ib_markers (sd_integrity ?d)"
      using ff(3) by blast
    ultimately show ?thesis using ff(2) c(3) d(5) unfolding early_marked_def by auto
  qed
  have refused: "refusable w (hd ls)" if n: "told_span w closed_early chat = None"
  proof (rule ccontr)
    assume "\<not> refusable w (hd ls)"
    then have "\<exists>f. fst (finish (aw_conversation_id w) (Some (oc_end_ns chat)) ?d) = Inr f"
      using c(2) by (intro finish_chat_accepts [OF c(4) d(1)]) (auto simp: refusable_def)
    then show False using n by (auto simp: told_span_def)
  qed
  show ?thesis
  proof (cases "told_span w closed_early chat")
    case None
    then show ?thesis using c(1) refused by (simp add: tells_def)
  next
    case (Some f)
    then show ?thesis using c(1) told [OF Some] says by (simp add: tells_def)
  qed
qed

definition shipped_of :: "told \<Rightarrow> internal_span list" where
  "shipped_of t = (case t of (_, _, _, None) \<Rightarrow> [] | (_, _, _, Some f) \<Rightarrow> [f])"

lemma ship_chat_effect:
  assumes "as_bridge s = None" "represents w chat ls marked" "s' = ship_chat w closed_early chat s"
  shows "as_open_chats s' = as_open_chats s" "as_evicted_chats s' = as_evicted_chats s"
    "as_forgot_early_close s' = as_forgot_early_close s" "as_bridge s' = None" "early s' = early s"
    "subs_ok s \<Longrightarrow> subs_ok s'" "as_threads s' = as_threads s" "as_main_thread s' = as_main_thread s"
    "chat_spans s' = chat_spans s @ shipped_of (key, ls, m, told_span w closed_early chat)"
proof -
  let ?f = "fst (finish (aw_conversation_id w) (Some (oc_end_ns chat)) (final_draft closed_early chat))"
  have s': "s' = (case ?f of Inl e \<Rightarrow> tick ''adapters.assembler.emit_chat'' s | Inr f \<Rightarrow> capture f s)"
    using assms(1,3) by (simp add: ship_chat_def final_draft_def finish_into_def Let_def)
  have ticked: "early (tick n s) = early s" "subs_ok (tick n s) = subs_ok s" "chat_spans (tick n s) = chat_spans s" for n
    by (simp_all add: tick_def early_def tracked_thread_def subs_ok_def chat_spans_def fun_eq_iff split: option.split)
  have "fs_gen_ai f \<noteq> None" if "?f = Inr f" for f
  proof -
    have "told_span w closed_early chat = Some f" using that by (simp add: told_span_def)
    then show ?thesis using told_span_tells [OF assms(2), of key closed_early] by (auto simp: tells_def)
  qed
  then show "chat_spans s' = chat_spans s @ shipped_of (key, ls, m, told_span w closed_early chat)"
    by (cases ?f) (simp_all add: s' ticked capture_fields shipped_of_def told_span_def)
  show "as_open_chats s' = as_open_chats s" "as_evicted_chats s' = as_evicted_chats s"
    "as_forgot_early_close s' = as_forgot_early_close s" "as_bridge s' = None" "early s' = early s"
    "subs_ok s \<Longrightarrow> subs_ok s'" "as_threads s' = as_threads s" "as_main_thread s' = as_main_thread s"
    using assms(1) by (cases ?f; simp add: s' ticked capture_fields; simp add: tick_def capture_def)+
qed

lemma end_chat_on_effect:
  assumes "end_chat_on key s = (c, s')"
  shows "c = map_of (as_open_chats s) key" "as_open_chats s' = AList.delete key (as_open_chats s)"
    "as_evicted_chats s' = (case key of None \<Rightarrow> as_evicted_chats s | Some k \<Rightarrow> AList.delete k (as_evicted_chats s))"
    "as_forgot_early_close s' = as_forgot_early_close s" "as_bridge s' = as_bridge s"
    "early s' = (early s)(key := None)" "subs_ok s' = subs_ok s" "chat_spans s' = chat_spans s"
proof -
  define s1 where "s1 = (case key of None \<Rightarrow> s | Some k \<Rightarrow> s\<lparr>as_evicted_chats := AList.delete k (as_evicted_chats s)\<rparr>)"
  define s2 where "s2 = (case tracked_thread key s1 of
      Some th \<Rightarrow> put_thread key (th\<lparr>th_closed_early := None\<rparr>) s1 | None \<Rightarrow> s1)"
  have r: "c = map_of (as_open_chats s2) key" "s' = s2\<lparr>as_open_chats := AList.delete key (as_open_chats s2)\<rparr>"
    using assms by (simp_all add: end_chat_on_def Let_def s1_def [symmetric] s2_def [symmetric])
  have s1: "as_open_chats s1 = as_open_chats s" "as_forgot_early_close s1 = as_forgot_early_close s"
    "as_bridge s1 = as_bridge s" "as_captured s1 = as_captured s" "as_subagents s1 = as_subagents s"
    "early s1 = early s" "as_evicted_chats s1 = (case key of None \<Rightarrow> as_evicted_chats s | Some k \<Rightarrow> AList.delete k (as_evicted_chats s))"
    by (cases key; simp add: s1_def early_def tracked_thread_def fun_eq_iff split: option.split)+
  have s2: "as_open_chats s2 = as_open_chats s" "as_forgot_early_close s2 = as_forgot_early_close s"
    "as_bridge s2 = as_bridge s" "as_captured s2 = as_captured s" "as_subagents s2 = as_subagents s"
    "as_evicted_chats s2 = as_evicted_chats s1"
    using s1 by (auto simp: s2_def put_thread_def split: option.split)
  have "early s2 = (early s)(key := None)"
  proof (cases "tracked_thread key s1")
    case None
    then have "early s1 key = None" by (simp add: early_def)
    then show ?thesis using None s1(6) by (auto simp: s2_def)
  next
    case (Some th)
    then show ?thesis using s1(6) by (auto simp: s2_def early_put_thread fun_eq_iff)
  qed
  moreover have "early s' = early s2" by (simp add: r(2) early_def tracked_thread_def fun_eq_iff split: option.split)
  ultimately show "early s' = (early s)(key := None)" by simp
  show "c = map_of (as_open_chats s) key" "as_open_chats s' = AList.delete key (as_open_chats s)"
    "as_evicted_chats s' = (case key of None \<Rightarrow> as_evicted_chats s | Some k \<Rightarrow> AList.delete k (as_evicted_chats s))"
    "as_forgot_early_close s' = as_forgot_early_close s" "as_bridge s' = as_bridge s"
    "subs_ok s' = subs_ok s" "chat_spans s' = chat_spans s"
    using s1 s2 by (simp_all add: r subs_ok_def chat_spans_def)
qed

lemma close_chats_effect:
  assumes "as_bridge s = None" "s' = close_chats w [key] s"
    and "\<And>chat. map_of (as_open_chats s) key = Some chat \<Longrightarrow> \<exists>ls m. represents w chat ls m"
  shows "as_open_chats s' = AList.delete key (as_open_chats s)"
    "as_evicted_chats s' = (case key of None \<Rightarrow> as_evicted_chats s | Some k \<Rightarrow> AList.delete k (as_evicted_chats s))"
    "as_forgot_early_close s' = as_forgot_early_close s" "as_bridge s' = None"
    "early s' = (early s)(key := None)" "subs_ok s \<Longrightarrow> subs_ok s'"
    "chat_spans s' = chat_spans s @ (case map_of (as_open_chats s) key of
        None \<Rightarrow> [] | Some chat \<Rightarrow> shipped_of (key, ls, m, told_span w False chat))"
proof -
  obtain c s1 where e: "end_chat_on key s = (c, s1)" by fastforce
  note ends = end_chat_on_effect [OF e]
  have s': "s' = (case c of None \<Rightarrow> s1 | Some chat \<Rightarrow> ship_chat w False chat s1)"
    using assms(2) by (simp add: close_chats_def end_chats_def e split: option.split)
  have "as_open_chats s' = AList.delete key (as_open_chats s) \<and>
        as_evicted_chats s' = (case key of None \<Rightarrow> as_evicted_chats s | Some k \<Rightarrow> AList.delete k (as_evicted_chats s)) \<and>
        as_forgot_early_close s' = as_forgot_early_close s \<and> as_bridge s' = None \<and>
        early s' = (early s)(key := None) \<and> (subs_ok s \<longrightarrow> subs_ok s') \<and>
        chat_spans s' = chat_spans s @ (case map_of (as_open_chats s) key of
          None \<Rightarrow> [] | Some chat \<Rightarrow> shipped_of (key, ls, m, told_span w False chat))"
  proof (cases c)
    case None
    then show ?thesis using ends assms(1) by (simp add: s')
  next
    case (Some chat)
    then obtain ls' m' where "represents w chat ls' m'" using assms(3) ends(1) by metis
    then have "as_open_chats s' = as_open_chats s1" "as_evicted_chats s' = as_evicted_chats s1"
      "as_forgot_early_close s' = as_forgot_early_close s1" "as_bridge s' = None" "early s' = early s1"
      "subs_ok s1 \<Longrightarrow> subs_ok s'"
      "chat_spans s' = chat_spans s1 @ shipped_of (key, ls, m, told_span w False chat)"
      using ship_chat_effect [of s1 w chat ls' m' s' False] ends(5) assms(1) Some
      by (simp_all add: s' shipped_of_def)
    moreover have "map_of (as_open_chats s) key = Some chat" using ends(1) Some by simp
    ultimately show ?thesis using ends(2-8) by simp
  qed
  then show "as_open_chats s' = AList.delete key (as_open_chats s)"
    "as_evicted_chats s' = (case key of None \<Rightarrow> as_evicted_chats s | Some k \<Rightarrow> AList.delete k (as_evicted_chats s))"
    "as_forgot_early_close s' = as_forgot_early_close s" "as_bridge s' = None"
    "early s' = (early s)(key := None)" "subs_ok s \<Longrightarrow> subs_ok s'"
    "chat_spans s' = chat_spans s @ (case map_of (as_open_chats s) key of
        None \<Rightarrow> [] | Some chat \<Rightarrow> shipped_of (key, ls, m, told_span w False chat))"
    by blast+
qed

section \<open>Building a response's span\<close>

lemma usage_check_total: "\<exists>c'. put_gen_ai n a (gen_ai_of w g) c d = Inr (c', d\<lparr>sd_gen_ai := Some (gen_ai_of w g)\<rparr>)"
proof -
  have z: "or_zero (Some (N_int n)) = N_int n" "or_zero None = N_int 0" for n by (simp_all add: or_zero_def)
  have "\<exists>b. violates_inclusive_totals n a (gen_ai_of w g) = Inr b"
    by (cases "cb_input_tokens g"; cases "cb_cache_read g"; cases "cb_cache_creation g")
       (simp_all add: violates_inclusive_totals_def gen_ai_of_def count_from_def z)
  then show ?thesis by (auto simp: put_gen_ai_def)
qed

lemma apply_chat_effect:
  assumes "apply_chat w chat s = (ok, chat', s')"
  shows "ok" "same_chats s s'"
    "chat' = chat\<lparr>oc_draft := put_io (oc_input_data chat) (oc_output_data chat) (oc_input_attempted chat) True
       ((put_end_ns (oc_end_ns chat) (oc_draft chat))\<lparr>sd_gen_ai := Some (gen_ai_of w (oc_gen_ai chat))\<rparr>)\<rparr>"
    "as_tool_meta s' = as_tool_meta s"
proof -
  obtain c where c: "put_gen_ai (aw_nearest w) (aw_fadd w) (gen_ai_of w (oc_gen_ai chat)) (as_counters s)
      (put_end_ns (oc_end_ns chat) (oc_draft chat)) =
    Inr (c, (put_end_ns (oc_end_ns chat) (oc_draft chat))\<lparr>sd_gen_ai := Some (gen_ai_of w (oc_gen_ai chat))\<rparr>)"
    using usage_check_total by blast
  show "ok" "same_chats s s'"
    "chat' = chat\<lparr>oc_draft := put_io (oc_input_data chat) (oc_output_data chat) (oc_input_attempted chat) True
       ((put_end_ns (oc_end_ns chat) (oc_draft chat))\<lparr>sd_gen_ai := Some (gen_ai_of w (oc_gen_ai chat))\<rparr>)\<rparr>"
    "as_tool_meta s' = as_tool_meta s"
    using assms by (auto simp: apply_chat_def c Let_def same_fields)
qed

lemma put_io_fields [simp]:
  "sd_output_data (put_io i out a b d) = out" "sd_intent (put_io i out a b d) = sd_intent d"
  "ib_touched (sd_integrity (put_io i out a b d))"
  "ib_markers (sd_integrity (put_io i out a b d)) = ib_markers (sd_integrity d)"
  by (simp_all add: put_io_def response_body_def request_body_def)

lemma put_end_fields [simp]:
  "sd_output_data (put_end_ns e d) = sd_output_data d" "sd_intent (put_end_ns e d) = sd_intent d"
  "sd_integrity (put_end_ns e d) = sd_integrity d"
  by (simp_all add: put_end_ns_def)

lemma fold_chat_effect:
  assumes "fold_chat w l now chat s = (ok, chat', s')" "represents w chat ls marked"
    and "continues chat l"
  shows "ok" "same_chats s s'" "represents w chat' (ls @ [l]) marked"
proof -
  define chat1 where "chat1 = chat\<lparr>oc_gen_ai := fold_usage w l (oc_gen_ai chat),
             oc_output_data := join_blocks (oc_output_data chat) (content_of l), oc_end_ns := now\<rparr>"
  have a: "apply_chat w chat1 s = (ok, chat', s')" using assms(1) by (simp add: fold_chat_def chat1_def)
  show "ok" "same_chats s s'" using apply_chat_effect [OF a] by blast+
  obtain model ttft where b: "oc_gen_ai chat = response_block w model ttft ls" and ls: "ls \<noteq> []"
    using assms(2) by (auto simp: represents_def)
  have "oc_gen_ai chat1 = response_block w model ttft (ls @ [l])"
    using b ls by (simp add: chat1_def response_block_def)
  then have "\<exists>model ttft. oc_gen_ai chat' = response_block w model ttft (ls @ [l])"
    by (auto simp: apply_chat_effect(3) [OF a])
  then show "represents w chat' (ls @ [l]) marked"
    using assms(2) ls
    by (simp add: represents_def apply_chat_effect(3) [OF a] chat1_def response_content_def early_marked_def)
qed

lemma put_rest_fields [simp]:
  "sd_output_data (put_extra k v d) = sd_output_data d" "sd_intent (put_extra k v d) = sd_intent d"
  "sd_integrity (put_extra k v d) = sd_integrity d" "sd_gen_ai (put_extra k v d) = sd_gen_ai d"
  "sd_output_data (replace_correlation c d) = sd_output_data d" "sd_intent (replace_correlation c d) = sd_intent d"
  "sd_integrity (replace_correlation c d) = sd_integrity d"
  by (simp_all add: put_extra_def replace_correlation_def)

lemma prompt_source_declared: "is_declared_extra_key (str_lit ''wardex.agent.prompt_source'')"
  by (simp add: is_declared_extra_key_def DECLARED_EXTRA_PREFIXES_def str_lit_def)

lemma take_prompt_effect:
  assumes "take_prompt consume chat s = (chat', s')" "represents w chat ls marked"
  shows "represents w chat' ls marked" "same_chats s s'"
proof -
  have "represents w (chat\<lparr>oc_draft := replace_correlation None d\<rparr>) ls marked"
    if "d = oc_draft chat \<or> (\<exists>v. d = put_extra (str_lit ''wardex.agent.prompt_source'') v (oc_draft chat))" for d
    using assms(2) that prompt_source_declared by (auto simp: represents_def early_marked_def)
  then show "represents w chat' ls marked" "same_chats s s'"
    using assms(1) by (auto simp: take_prompt_def same_fields split: option.splits if_splits)
qed

lemma begin_chat_effect:
  assumes "begin_chat w l now s = (chat, s')"
  obtains c where "chat = Some c" "represents w c [l] False" "same_chats s s'"
proof -
  let ?k = "sl_parent_tool_use_id l"
  obtain th s1 where t: "thread_for w ?k now s = (th, s1)" by fastforce
  have s1: "same_chats s s1" using thread_for_frame [OF t] by blast
  obtain fresh s2 where f: "draw_span_id w s1 = (fresh, s2)" by fastforce
  have s2: "same_chats s s2" using same_chats_trans [OF s1 same_draw] f by (metis snd_conv)
  define start where "start = min (th_last_ns th) now"
  define g where "g = first_block w l (ttft_s th start) s2"
  define d where "d = vocabulary_draft fresh (chat_parent l s) CHAT (sl_model l) FROM_ADAPTER start None"
  obtain cn where p: "put_gen_ai (aw_nearest w) (aw_fadd w) (gen_ai_of w g) (as_counters s2) d =
      Inr (cn, d\<lparr>sd_gen_ai := Some (gen_ai_of w g)\<rparr>)"
    using usage_check_total by blast
  have d: "Member SESSION_ENTRY_TABLE_FULL \<notin> set (ib_markers (sd_integrity d))" "sd_intent d = Some CHAT"
    "finishable (sl_model l) d"
    by (auto simp: d_def finishable_def child_context_def chat_parent_def vocabulary_draft_def new_span_draft_def child_of_def resolve_parentage_def
        SOLE_LIVE_def IN_SESSION_def evidence_of_def markers_for_def new_integrity_def put_limitation_def)
  define s3 where "s3 = s2\<lparr>as_counters := cn\<rparr>"
  have s3: "same_chats s s3" using same_chats_trans [OF s2 same_fields(12)] by (simp add: s3_def)
  define chat1 where "chat1 = opened_chat w l now (consumes_prompt l s) start (ttft_s th start) g
     (d\<lparr>sd_gen_ai := Some (gen_ai_of w g)\<rparr>) s3"
  obtain ok chat2 s4 where a: "apply_chat w chat1 s3 = (ok, chat2, s4)" by (metis prod_cases3)
  note app = apply_chat_effect [OF a]
  have s4: "same_chats s s4" by (rule same_chats_trans [OF s3 app(2)])
  have g: "g = response_block w (as_model s2) (ttft_s th start) [l]"
    by (simp add: g_def first_block_def response_block_def line_block_def)
  have fin: "finishable (sl_model l) (oc_draft chat2)"
    using d(3) by (simp add: app(3) chat1_def opened_chat_def finishable_status)
  have r2: "represents w chat2 [l] False"
    unfolding represents_def early_marked_def app(3) using d g fin [unfolded app(3)]
    by (auto simp: chat1_def opened_chat_def put_status_def put_conversation_def response_content_def)
  obtain c s5 where tp: "take_prompt (consumes_prompt l s) chat2 s4 = (c, s5)" by fastforce
  have "begin_chat w l now s = (Some c, s5)"
    unfolding begin_chat_def Let_def t f prod.case start_def [symmetric] g_def [symmetric] d_def [symmetric] p sum.case
      s3_def [symmetric] chat1_def [symmetric] a tp
    using app(1) by simp
  moreover note take_prompt_effect [OF tp r2]
  ultimately show thesis using that assms same_chats_trans [OF s4] by simp
qed

end
