(* ===== verification/Agent_Books.thy ===== *)
theory Agent_Books
  imports Agent_History
begin

text \<open>
  Every line of the stream is in exactly one span: the account of an agent session over a run. The
  invariant \<open>books\<close> says how a session's tables and its history correspond, thread by thread
  (\<open>thread_ok\<close>); each step of the session is one of six moves on it.
\<close>

section \<open>The invariant\<close>

definition evicted_id :: "agent_session \<Rightarrow> py_text option \<Rightarrow> py_text option" where
  "evicted_id s key = (case key of None \<Rightarrow> None | Some k \<Rightarrow> map_of (as_evicted_chats s) k)"

definition marked_within :: "told list \<Rightarrow> py_text option \<Rightarrow> stream_line list \<Rightarrow> bool" where
  "marked_within ts key r \<longleftrightarrow> (\<exists>ls f. (key, ls, True, f) \<in> set ts \<and> ls \<noteq> [] \<and> set ls \<subseteq> set r)"

definition told_whole :: "told list \<Rightarrow> (py_text option \<times> stream_line list) list" where
  "told_whole ts = concat (map (\<lambda>(key, ls, marked, f). if marked then [] else [(key, ls)]) ts)"

definition told_lines :: "told list \<Rightarrow> stream_line list" where
  "told_lines ts = concat (map (\<lambda>(key, ls, marked, f). ls) ts)"

text \<open>A thread whose response is held, and one whose current response, if any, was shipped: what is
  remembered of it, and that nothing may be remembered only once something was forgotten.\<close>

definition held_ok :: "agent_world \<Rightarrow> open_chat \<Rightarrow> stream_line list \<Rightarrow> stream_line list \<Rightarrow> bool \<Rightarrow> bool" where
  "held_ok w c held cur marked \<longleftrightarrow>
     represents w c held marked \<and> cur \<noteq> [] \<and> sl_message_id (hd held) = sl_message_id (hd cur) \<and>
     (marked \<or> held = cur) \<and> set held \<subseteq> set cur"

definition gone_ok ::
  "stream_line list \<Rightarrow> py_text option \<Rightarrow> py_text option \<Rightarrow> bool \<Rightarrow> py_text option \<Rightarrow> bool" where
  "gone_ok cur early_id evicted forgot key \<longleftrightarrow>
     (if cur = [] then early_id = None \<and> evicted = None
      else case sl_message_id (hd cur) of
        None \<Rightarrow> early_id = None \<and> evicted = None
      | Some i \<Rightarrow> early_id = Some i \<and> evicted = None \<or> early_id = None \<and> evicted = Some i \<or>
                  early_id = None \<and> evicted = None \<and> forgot \<and> key \<noteq> None)"

definition thread_ok :: "agent_world \<Rightarrow> agent_session \<Rightarrow> history \<Rightarrow> py_text option \<Rightarrow> bool" where
  "thread_ok w s h key \<longleftrightarrow>
     (case map_of (as_open_chats s) key of
        Some c \<Rightarrow> held_ok w c (hs_held h key) (hs_now h key) (hs_marked h key) \<and>
                  early s key = None \<and> evicted_id s key = None
      | None \<Rightarrow> hs_held h key = [] \<and>
                gone_ok (hs_now h key) (early s key) (evicted_id s key) (as_forgot_early_close s) key) \<and>
     (hs_held h key = hs_now h key \<or> marked_within (hs_told h) key (hs_now h key))"

definition shipped_ok :: "agent_world \<Rightarrow> agent_session \<Rightarrow> history \<Rightarrow> bool" where
  "shipped_ok w s h \<longleftrightarrow>
     distinct (map fst (as_open_chats s)) \<and> distinct (map fst (as_evicted_chats s)) \<and>
     as_bridge s = None \<and> subs_ok s \<and> chat_spans s = concat (map shipped_of (hs_told h)) \<and>
     (\<forall>t \<in> set (hs_told h). tells w t)"

definition whole_ok :: "history \<Rightarrow> bool" where
  "whole_ok h \<longleftrightarrow>
     (\<exists>broken. mset (told_whole (hs_told h)) + mset broken = mset (hs_whole h) \<and>
        (\<forall>(key, r) \<in> set broken. marked_within (hs_told h) key r))"

definition lines_ok :: "agent_session \<Rightarrow> history \<Rightarrow> bool" where
  "lines_ok s h \<longleftrightarrow>
     mset (hs_lines h) = mset (told_lines (hs_told h)) + mset (hs_skipped h) +
       mset (concat (map (hs_held h) (map fst (as_open_chats s))))"

definition books :: "agent_world \<Rightarrow> agent_session \<Rightarrow> history \<Rightarrow> bool" where
  "books w s h \<longleftrightarrow> (\<forall>key. thread_ok w s h key) \<and> shipped_ok w s h \<and> whole_ok h \<and> lines_ok s h"

lemma marked_within_mono: "marked_within ts key r \<Longrightarrow> set ts \<subseteq> set ts' \<Longrightarrow> set r \<subseteq> set r' \<Longrightarrow> marked_within ts' key r'"
  by (fastforce simp: marked_within_def)

lemma told_appended [simp]:
  "told_whole (ts @ us) = told_whole ts @ told_whole us" "told_lines (ts @ us) = told_lines ts @ told_lines us"
  "told_whole [(key, ls, m, f)] = (if m then [] else [(key, ls)])" "told_lines [(key, ls, m, f)] = ls"
  by (simp_all add: told_whole_def told_lines_def)

lemma may_repeat_memory:
  "may_repeat key s \<longleftrightarrow> key \<noteq> None \<and> as_forgot_early_close s \<and> map_of (as_open_chats s) key = None \<and>
     evicted_id s key = None \<and> early s key = None"
  by (auto simp: may_repeat_def evicted_id_def early_def tracked_thread_def split: option.splits)

lemma shipped_early_memory:
  "shipped_early l s \<longleftrightarrow> sl_message_id l \<noteq> None \<and>
     (early s (sl_parent_tool_use_id l) = sl_message_id l \<or> evicted_id s (sl_parent_tool_use_id l) = sl_message_id l)"
  by (auto simp: shipped_early_def evicted_id_def early_def split: option.splits)

lemma same_memory:
  assumes "same_chats s s'"
  shows "as_open_chats s' = as_open_chats s" "evicted_id s' = evicted_id s" "early s' = early s"
    "as_forgot_early_close s' = as_forgot_early_close s" "as_bridge s' = as_bridge s"
    "may_repeat key s' = may_repeat key s" "shipped_early l s' = shipped_early l s"
proof -
  have e: "evicted_id s' = evicted_id s"
    using assms by (auto simp: same_chats_def evicted_id_def split: option.split)
  then show "as_open_chats s' = as_open_chats s" "evicted_id s' = evicted_id s" "early s' = early s"
    "as_forgot_early_close s' = as_forgot_early_close s" "as_bridge s' = as_bridge s"
    "may_repeat key s' = may_repeat key s" "shipped_early l s' = shipped_early l s"
    using assms unfolding may_repeat_memory shipped_early_memory by (simp_all add: same_chats_def)
qed

lemma books_same:
  assumes "books w s h" "same_chats s s'" shows "books w s' h"
proof -
  have "thread_ok w s' h key" if "thread_ok w s h key" for key
    using that same_memory [OF assms(2)] by (simp add: thread_ok_def cong: option.case_cong)
  moreover have "shipped_ok w s' h" if "shipped_ok w s h"
    using that assms(2) by (simp add: shipped_ok_def same_chats_def)
  moreover have "lines_ok s' h" if "lines_ok s h" using that same_memory(1) [OF assms(2)] by (simp add: lines_ok_def)
  ultimately show ?thesis using assms(1) by (simp add: books_def)
qed

lemma thread_ok_other:
  assumes "thread_ok w s h key" "map_of (as_open_chats s') key = map_of (as_open_chats s) key"
    "early s' key = early s key" "evicted_id s' key = evicted_id s key"
    "as_forgot_early_close s \<longrightarrow> as_forgot_early_close s'"
    "hs_held h' key = hs_held h key" "hs_now h' key = hs_now h key" "hs_marked h' key = hs_marked h key"
    "set (hs_told h) \<subseteq> set (hs_told h')"
  shows "thread_ok w s' h' key"
proof -
  have "gone_ok (hs_now h key) (early s key) (evicted_id s key) (as_forgot_early_close s) key \<Longrightarrow>
    gone_ok (hs_now h key) (early s key) (evicted_id s key) (as_forgot_early_close s') key"
    using assms(5) by (auto simp: gone_ok_def split: option.splits if_splits)
  moreover have "marked_within (hs_told h) key (hs_now h key) \<Longrightarrow> marked_within (hs_told h') key (hs_now h key)"
    using marked_within_mono assms(9) by blast
  ultimately show ?thesis using assms by (auto simp: thread_ok_def split: option.splits)
qed

text \<open>A thread whose eviction was forgotten.\<close>

lemma thread_ok_forgotten:
  assumes "thread_ok w s h key" "map_of (as_open_chats s') key = map_of (as_open_chats s) key"
    "early s' key = early s key" "evicted_id s key \<noteq> None" "evicted_id s' key = None" "key \<noteq> None"
    "as_forgot_early_close s'"
    "hs_held h' key = hs_held h key" "hs_now h' key = hs_now h key" "hs_marked h' key = hs_marked h key"
    "set (hs_told h) \<subseteq> set (hs_told h')"
  shows "thread_ok w s' h' key"
proof -
  have "marked_within (hs_told h) key (hs_now h key) \<Longrightarrow> marked_within (hs_told h') key (hs_now h key)"
    using marked_within_mono assms(11) by blast
  moreover have "map_of (as_open_chats s) key = None" using assms(1,4) by (auto simp: thread_ok_def split: option.splits)
  ultimately show ?thesis using assms by (auto simp: thread_ok_def gone_ok_def split: option.splits if_splits)
qed

section \<open>The moves\<close>

lemma evicted_deleted:
  assumes "as_evicted_chats s' = (case key of None \<Rightarrow> as_evicted_chats s | Some k \<Rightarrow> AList.delete k (as_evicted_chats s))"
  shows "evicted_id s' = (evicted_id s)(key := None)"
  using assms by (auto simp: evicted_id_def fun_eq_iff delete_conv' split: option.split)

lemma held_removed:
  assumes "distinct ks" "key \<in> set ks"
  shows "mset (concat (map held ks)) = mset (held key) + mset (concat (map (held(key := [])) (removeAll key ks)))"
  using assms
proof (induction ks)
  case (Cons k ks)
  show ?case
  proof (cases "k = key")
    case True
    then have "key \<notin> set ks" using Cons by simp
    moreover from this have "map (held(key := [])) ks = map held ks" by (intro map_cong) auto
    ultimately show ?thesis using True by (simp add: removeAll_id del: map_eq_conv fun_upd_apply)
  next
    case False
    then show ?thesis using Cons by simp
  qed
qed simp

lemma whole_broken:
  assumes "whole_ok h" "hs_told h' = hs_told h @ ts" "told_whole ts = []" "hs_whole h' = hs_whole h @ [(key, r)]"
    "marked_within (hs_told h') key r"
  shows "whole_ok h'"
proof -
  obtain broken where "mset (told_whole (hs_told h)) + mset broken = mset (hs_whole h)"
    "\<forall>(key, r) \<in> set broken. marked_within (hs_told h) key r"
    using assms(1) by (auto simp: whole_ok_def)
  moreover have "marked_within (hs_told h) k r \<Longrightarrow> marked_within (hs_told h') k r" for k r
    using assms(2) marked_within_mono by (metis Un_upper1 set_append subset_refl)
  ultimately show ?thesis unfolding whole_ok_def using assms(2-5)
    by (intro exI [of _ "broken @ [(key, r)]"]) auto
qed

lemma whole_told:
  assumes "whole_ok h" "hs_told h' = hs_told h @ ts" "hs_whole h' = hs_whole h @ told_whole ts"
  shows "whole_ok h'"
proof -
  obtain broken where "mset (told_whole (hs_told h)) + mset broken = mset (hs_whole h)"
    "\<forall>(key, r) \<in> set broken. marked_within (hs_told h) key r"
    using assms(1) by (auto simp: whole_ok_def)
  moreover have "marked_within (hs_told h) k r \<Longrightarrow> marked_within (hs_told h') k r" for k r
    using assms(2) marked_within_mono by (metis Un_upper1 set_append subset_refl)
  ultimately show ?thesis unfolding whole_ok_def using assms(2,3)
    by (intro exI [of _ broken]) (auto simp: add_ac)
qed

lemma evicted_id_cong: "as_evicted_chats s = as_evicted_chats s' \<Longrightarrow> evicted_id s = evicted_id s'"
  by (auto simp: evicted_id_def fun_eq_iff split: option.split)

text \<open>A response ends: its thread's chat, if one is held, ships.\<close>

lemma end_history_fields:
  "hs_held (end_history w key s h) = (case map_of (as_open_chats s) key of None \<Rightarrow> hs_held h | Some c \<Rightarrow> (hs_held h)(key := []))"
  "hs_now (end_history w key s h) = (hs_now h)(key := [])"
  "hs_marked (end_history w key s h) = (case map_of (as_open_chats s) key of None \<Rightarrow> hs_marked h | Some c \<Rightarrow> (hs_marked h)(key := False))"
  "hs_told (end_history w key s h) = hs_told h @ (case map_of (as_open_chats s) key of None \<Rightarrow> []
     | Some c \<Rightarrow> [(key, hs_held h key, hs_marked h key, told_span w False c)])"
  "hs_whole (end_history w key s h) = hs_whole h @ (if hs_now h key = [] then [] else [(key, hs_now h key)])"
  "hs_lines (end_history w key s h) = hs_lines h" "hs_skipped (end_history w key s h) = hs_skipped h"
  by (auto simp: end_history_def end_current_def tell_held_def tell_def split: option.split)

lemma books_thread: "books w s h \<Longrightarrow> thread_ok w s h key"
  by (simp add: books_def)

lemma open_represents:
  assumes "books w s h" "map_of (as_open_chats s) key = Some c"
  shows "held_ok w c (hs_held h key) (hs_now h key) (hs_marked h key)" "represents w c (hs_held h key) (hs_marked h key)"
    "early s key = None" "evicted_id s key = None"
  using books_thread [OF assms(1), of key] assms(2) by (simp_all add: thread_ok_def held_ok_def)

lemma end_keeps_books:
  assumes b: "books w s h" and s': "s' = close_chats w [key] s" and h': "h' = end_history w key s h"
  shows "books w s' h'" "map_of (as_open_chats s') key = None" "hs_now h' key = []"
proof -
  have bridge: "as_bridge s = None" and dist: "distinct (map fst (as_open_chats s))" "distinct (map fst (as_evicted_chats s))"
    using b by (simp_all add: books_def shipped_ok_def)
  have rep: "\<exists>ls m. represents w c ls m" if "map_of (as_open_chats s) key = Some c" for c
    using open_represents(2) [OF b that] by blast
  have held: "hs_held h key = []" if "map_of (as_open_chats s) key = None"
    using books_thread [OF b, of key] that by (simp add: thread_ok_def)
  note c = close_chats_effect [OF bridge s' rep]
  note f = end_history_fields [of w key s h, folded h']
  have opened: "map_of (as_open_chats s') k = (if k = key then None else map_of (as_open_chats s) k)" for k
    by (simp add: c(1) delete_conv')
  have ev: "evicted_id s' = (evicted_id s)(key := None)"
    using evicted_deleted [OF c(2)] .
  have t: "thread_ok w s' h' k" for k
  proof (cases "k = key")
    case True
    then show ?thesis using held opened c(5) ev f(1,2)
      by (auto simp: thread_ok_def gone_ok_def split: option.split)
  next
    case False
    then show ?thesis
      by (intro thread_ok_other [OF books_thread [OF b, of k]])
         (auto simp: opened c(3,5) ev f split: option.split)
  qed
  have "tells w u" if "u \<in> set (hs_told h')" for u
    using that b told_span_tells [OF open_represents(2) [OF b], of key _ key False]
    by (auto simp: f(4) books_def shipped_ok_def split: option.splits)
  moreover have "subs_ok s'" using c(6) b by (simp add: books_def shipped_ok_def)
  moreover have "chat_spans s' = concat (map shipped_of (hs_told h'))"
    using b c(7) [of "hs_held h key" "hs_marked h key"] by (simp add: books_def shipped_ok_def f(4) split: option.split)
  ultimately have sh: "shipped_ok w s' h'"
    using dist by (auto simp: shipped_ok_def c(1,2,4) distinct_delete split: option.split)
  have w0: "whole_ok h" and l0: "lines_ok s h" using b by (simp_all add: books_def)
  have wh: "whole_ok h'"
  proof (cases "map_of (as_open_chats s) key")
    case None
    show ?thesis
    proof (cases "hs_now h key = []")
      case True
      then show ?thesis using None by (intro whole_told [OF w0, of h' "[]"]) (simp_all add: f told_whole_def)
    next
      case False
      then have "marked_within (hs_told h) key (hs_now h key)"
        using books_thread [OF b, of key] held [OF None] by (simp add: thread_ok_def)
      then show ?thesis using None False by (intro whole_broken [OF w0, of h' "[]" key]) (simp_all add: f told_whole_def)
    qed
  next
    case (Some c)
    note o = open_represents(1) [OF b Some, unfolded held_ok_def]
    show ?thesis
    proof (cases "hs_marked h key")
      case True
      then have "marked_within (hs_told h') key (hs_now h key)"
        using o Some by (auto simp: marked_within_def f(4) represents_def)
      then show ?thesis using Some o True
        by (intro whole_broken [OF w0, of h' "[(key, hs_held h key, True, told_span w False c)]" key]) (simp_all add: f)
    next
      case False
      then show ?thesis using Some o
        by (intro whole_told [OF w0, of h' "[(key, hs_held h key, False, told_span w False c)]"]) (simp_all add: f)
    qed
  qed
  have li: "lines_ok s' h'"
  proof (cases "map_of (as_open_chats s) key")
    case None
    then have "map fst (as_open_chats s') = map fst (as_open_chats s)"
      by (simp add: c(1) AList.delete_keys removeAll_id map_of_eq_None_iff)
    then show ?thesis using l0 None by (simp add: lines_ok_def f del: map_map)
  next
    case (Some x)
    then have "key \<in> set (map fst (as_open_chats s))" by (force dest: map_of_SomeD)
    note r = held_removed [OF dist(1) this, of "hs_held h"]
    have "map fst (as_open_chats s') = removeAll key (map fst (as_open_chats s))" by (simp add: c(1) AList.delete_keys)
    then show ?thesis
      using l0 Some unfolding lines_ok_def f r by simp
  qed
  show "books w s' h'" using t sh wh li by (simp add: books_def)
  show "map_of (as_open_chats s') key = None" "hs_now h' key = []" by (simp_all add: opened f(2))
qed

text \<open>The oldest held response is shipped to make room, and remembered.\<close>

lemma remember_effect:
  assumes "s' = remember_early_close w k mid s" "0 < aw_max_entries w" "distinct (map fst (as_evicted_chats s))"
    "early s k = None" "evicted_id s k = None"
  shows "as_open_chats s' = as_open_chats s" "as_bridge s' = as_bridge s" "subs_ok s' = subs_ok s"
    "chat_spans s' = chat_spans s" "as_forgot_early_close s \<longrightarrow> as_forgot_early_close s'"
    "distinct (map fst (as_evicted_chats s'))"
    "case mid of None \<Rightarrow> early s' k = None \<and> evicted_id s' k = None
       | Some i \<Rightarrow> early s' k = Some i \<and> evicted_id s' k = None \<or> early s' k = None \<and> evicted_id s' k = Some i"
    "\<And>key. key \<noteq> k \<Longrightarrow> early s' key = early s key"
    "\<And>key. key \<noteq> k \<Longrightarrow> evicted_id s' key = evicted_id s key \<or>
       evicted_id s' key = None \<and> evicted_id s key \<noteq> None \<and> key \<noteq> None \<and> as_forgot_early_close s'"
proof -
  consider (nothing) "mid = None" "s' = s"
    | (thread) i th where "mid = Some i" "tracked_thread k s = Some th" "s' = put_thread k (th\<lparr>th_closed_early := Some i\<rparr>) s"
    | (table) i k' e rest s1 where "mid = Some i" "k = Some k'" "tracked_thread k s = None"
        "room_for w (as_evicted_chats s) ''evicted_chat'' s = (e, rest, s1)"
        "s' = s1\<lparr>as_forgot_early_close := (as_forgot_early_close s1 \<or> e \<noteq> None), as_evicted_chats := AList.update k' i rest\<rparr>"
    using assms(1) by (auto simp: remember_early_close_def tracked_thread_def split: option.splits prod.splits)
  then have "as_open_chats s' = as_open_chats s \<and> as_bridge s' = as_bridge s \<and> subs_ok s' = subs_ok s \<and>
    chat_spans s' = chat_spans s \<and> (as_forgot_early_close s \<longrightarrow> as_forgot_early_close s') \<and>
    distinct (map fst (as_evicted_chats s')) \<and>
    (case mid of None \<Rightarrow> early s' k = None \<and> evicted_id s' k = None
       | Some i \<Rightarrow> early s' k = Some i \<and> evicted_id s' k = None \<or> early s' k = None \<and> evicted_id s' k = Some i) \<and>
    (\<forall>key. key \<noteq> k \<longrightarrow> early s' key = early s key \<and> (evicted_id s' key = evicted_id s key \<or>
       evicted_id s' key = None \<and> evicted_id s key \<noteq> None \<and> key \<noteq> None \<and> as_forgot_early_close s'))"
  proof cases
    case nothing
    then show ?thesis using assms(3-5) by simp
  next
    case thread
    have "as_evicted_chats s' = as_evicted_chats s" "as_open_chats s' = as_open_chats s" "as_bridge s' = as_bridge s"
      "subs_ok s' = subs_ok s" "chat_spans s' = chat_spans s" "as_forgot_early_close s' = as_forgot_early_close s"
      by (simp_all add: thread(3) put_thread_def subs_ok_def chat_spans_def split: option.split)
    moreover have "early s' key = (if key = k then Some i else early s key)" for key
      using thread(2) by (simp add: thread(3) early_put_thread)
    ultimately show ?thesis using assms(3,5) thread(1) evicted_id_cong [of s' s] by simp
  next
    case table
    have s1: "s1 = s \<or> (\<exists>n. s1 = tick n s)" by (rule room_for_cases [OF table(4) assms(2)]) auto
    have "as_main_thread s' = as_main_thread s" "as_threads s' = as_threads s"
      using s1 by (auto simp: table(5) tick_def)
    then have "early s' = early s" by (rule early_cong)
    moreover have "as_open_chats s' = as_open_chats s" "as_bridge s' = as_bridge s"
      "subs_ok s' = subs_ok s" "chat_spans s' = chat_spans s" "as_forgot_early_close s1 = as_forgot_early_close s"
      using s1 by (auto simp: table(5) subs_ok_def chat_spans_def tick_def)
    ultimately have e: "early s' = early s" "as_open_chats s' = as_open_chats s" "as_bridge s' = as_bridge s"
      "subs_ok s' = subs_ok s" "chat_spans s' = chat_spans s" "as_forgot_early_close s1 = as_forgot_early_close s"
      by blast+
    have "distinct (map fst rest) \<and> (\<forall>k1. map_of rest k1 = map_of (as_evicted_chats s) k1 \<or>
        map_of rest k1 = None \<and> map_of (as_evicted_chats s) k1 \<noteq> None \<and> e \<noteq> None)"
      using assms(3) by (rule_tac room_for_cases [OF table(4) assms(2)]) (auto simp: map_of_eq_None_iff)
    then have "distinct (map fst (as_evicted_chats s'))"
      "\<forall>k1. k1 \<noteq> k' \<longrightarrow> map_of (as_evicted_chats s') k1 = map_of (as_evicted_chats s) k1 \<or>
        map_of (as_evicted_chats s') k1 = None \<and> map_of (as_evicted_chats s) k1 \<noteq> None \<and> as_forgot_early_close s'"
      "map_of (as_evicted_chats s') k' = Some i"
      by (auto simp: table(5) distinct_update map_of_update)
    note ft = this
    have d: "distinct (map fst (as_evicted_chats s'))" "evicted_id s' k = Some i"
      using ft table(2) by (simp_all add: evicted_id_def)
    have other: "evicted_id s' key = evicted_id s key \<or>
        evicted_id s' key = None \<and> evicted_id s key \<noteq> None \<and> key \<noteq> None \<and> as_forgot_early_close s'"
      if "key \<noteq> k" for key
      using that ft(2) table(2) by (cases key) (simp_all add: evicted_id_def)
    have "as_forgot_early_close s \<longrightarrow> as_forgot_early_close s'" using e(6) by (simp add: table(5))
    then show ?thesis using d other assms(4) e(1-5) table(1) by simp
  qed
  then show "as_open_chats s' = as_open_chats s" "as_bridge s' = as_bridge s" "subs_ok s' = subs_ok s"
    "chat_spans s' = chat_spans s" "as_forgot_early_close s \<longrightarrow> as_forgot_early_close s'"
    "distinct (map fst (as_evicted_chats s'))"
    "case mid of None \<Rightarrow> early s' k = None \<and> evicted_id s' k = None
       | Some i \<Rightarrow> early s' k = Some i \<and> evicted_id s' k = None \<or> early s' k = None \<and> evicted_id s' k = Some i"
    "\<And>key. key \<noteq> k \<Longrightarrow> early s' key = early s key"
    "\<And>key. key \<noteq> k \<Longrightarrow> evicted_id s' key = evicted_id s key \<or>
       evicted_id s' key = None \<and> evicted_id s key \<noteq> None \<and> key \<noteq> None \<and> as_forgot_early_close s'"
    by blast+
qed

lemma tell_fields:
  "hs_held (tell w b key c h) = (hs_held h)(key := [])" "hs_now (tell w b key c h) = hs_now h"
  "hs_marked (tell w b key c h) = (hs_marked h)(key := False)"
  "hs_told (tell w b key c h) = hs_told h @ [(key, hs_held h key, b \<or> hs_marked h key, told_span w b c)]"
  "hs_whole (tell w b key c h) = hs_whole h" "hs_lines (tell w b key c h) = hs_lines h"
  "hs_skipped (tell w b key c h) = hs_skipped h"
  by (simp_all add: tell_def)

lemma evict_keeps_books:
  assumes b: "books w s h" and o: "as_open_chats s = (k, old) # rest" and w: "0 < aw_max_entries w"
    and s': "s' = remember_early_close w k (oc_message_id old) (ship_chat w True old (s\<lparr>as_open_chats := rest\<rparr>))"
    and h': "h' = tell w True k old h"
  shows "books w s' h'" "as_open_chats s' = rest"
    "\<And>key. key \<noteq> k \<Longrightarrow> early s' key = early s key \<and> (evicted_id s key = None \<longrightarrow> evicted_id s' key = None)"
proof -
  have old: "map_of (as_open_chats s) k = Some old" by (simp add: o)
  have hk: "held_ok w old (hs_held h k) (hs_now h k) (hs_marked h k)" "early s k = None" "evicted_id s k = None"
    "represents w old (hs_held h k) (hs_marked h k)"
    using open_represents [OF b old] by blast+
  have sh0: "shipped_ok w s h" using b by (simp add: books_def)
  define s0 where "s0 = s\<lparr>as_open_chats := rest\<rparr>"
  define s1 where "s1 = ship_chat w True old s0"
  have s0: "as_bridge s0 = None" "as_evicted_chats s0 = as_evicted_chats s" "early s0 = early s"
    "as_forgot_early_close s0 = as_forgot_early_close s" "subs_ok s0 = subs_ok s" "chat_spans s0 = chat_spans s"
    "as_open_chats s0 = rest"
    using sh0 early_cong [of s0 s] by (simp_all add: s0_def shipped_ok_def subs_ok_def chat_spans_def)
  note p = ship_chat_effect [OF s0(1) hk(4) s1_def]
  have e1: "evicted_id s1 = evicted_id s" by (rule evicted_id_cong) (simp add: p(2) s0)
  have r0: "s' = remember_early_close w k (oc_message_id old) s1" by (simp add: s' s1_def s0_def)
  have "distinct (map fst (as_evicted_chats s1))" "early s1 k = None" "evicted_id s1 k = None"
    using sh0 hk e1 by (simp_all add: p s0 shipped_ok_def)
  note r = remember_effect [OF r0 w this]
  show op: "as_open_chats s' = rest" by (simp add: r(1) p s0)
  show mem: "early s' key = early s key \<and> (evicted_id s key = None \<longrightarrow> evicted_id s' key = None)" if "key \<noteq> k" for key
    using r(8,9) [OF that] e1 by (auto simp: p(5) s0)
  note f = tell_fields [of w True k old h, folded h']
  have fg: "as_forgot_early_close s \<longrightarrow> as_forgot_early_close s'" using r(5) by (simp add: p(3) s0)
  have dist: "distinct (map fst ((k, old) # rest))" using sh0 o by (simp add: shipped_ok_def)
  have t: "thread_ok w s' h' key" for key
  proof (cases "key = k")
    case True
    have id: "oc_message_id old = sl_message_id (hd (hs_now h k))" "hs_now h k \<noteq> []" "hs_held h k \<noteq> []"
      "set (hs_held h k) \<subseteq> set (hs_now h k)"
      using hk(1) by (auto simp: held_ok_def represents_def)
    have "map_of rest k = None" using dist by (simp add: map_of_eq_None_iff)
    moreover have "gone_ok (hs_now h k) (early s' k) (evicted_id s' k) (as_forgot_early_close s') k"
      using r(7) id by (auto simp: gone_ok_def split: option.splits)
    moreover have "marked_within (hs_told h') k (hs_now h k)" using id by (auto simp: marked_within_def f(4))
    ultimately show ?thesis using True by (simp add: thread_ok_def op f)
  next
    case False
    note tk = books_thread [OF b, of key]
    have m: "map_of (as_open_chats s') key = map_of (as_open_chats s) key" using False by (simp add: op o)
    have told: "set (hs_told h) \<subseteq> set (hs_told h')" by (auto simp: f(4))
    from r(9) [OF False] show ?thesis
    proof
      assume "evicted_id s' key = evicted_id s1 key"
      then show ?thesis
        by (intro thread_ok_other [OF tk m _ _ fg _ _ _ told]) (simp_all add: False f r(8) p(5) s0 e1)
    next
      assume a: "evicted_id s' key = None \<and> evicted_id s1 key \<noteq> None \<and> key \<noteq> None \<and> as_forgot_early_close s'"
      then show ?thesis
        by (intro thread_ok_forgotten [OF tk m _ _ _ _ _ _ _ _ told]) (simp_all add: False f r(8) p(5) s0 e1 [symmetric])
    qed
  qed
  have ds: "distinct (map fst rest)" using dist by simp
  have sp: "chat_spans s' = concat (map shipped_of (hs_told h'))"
    using sh0 p(9) [of k True] by (simp add: f(4) r(4) s0 shipped_ok_def)
  have tl: "\<forall>u \<in> set (hs_told h'). tells w u"
    using sh0 told_span_tells [OF hk(4), of k True] by (auto simp: f(4) shipped_ok_def)
  have sb: "as_bridge s' = None" "subs_ok s'" using sh0 by (simp_all add: r(2,3) p s0 shipped_ok_def)
  have sh: "shipped_ok w s' h'" using ds sp tl sb r(6) by (simp add: shipped_ok_def op)
  have wh: "whole_ok h'"
    using b by (intro whole_told [of h h' "[(k, hs_held h k, True, told_span w True old)]"]) (simp_all add: f books_def)
  have ks: "map fst (as_open_chats s') = removeAll k (map fst (as_open_chats s))" using dist by (simp add: op o removeAll_id)
  have "k \<in> set (map fst (as_open_chats s))" "distinct (map fst (as_open_chats s))" using dist by (simp_all add: o)
  note hr = held_removed [OF this(2,1), of "hs_held h"]
  have li: "lines_ok s' h'" using b unfolding books_def lines_ok_def ks f hr by simp
  show "books w s' h'" using t sh wh li by (simp add: books_def)
qed

text \<open>A response opens on a thread that holds none.\<close>

lemma represents_marked:
  "represents w c ls m \<Longrightarrow> represents w (c\<lparr>oc_draft := put_marker (Member SESSION_ENTRY_TABLE_FULL) (oc_draft c)\<rparr>) ls True"
  by (auto simp: represents_def early_marked_def)

definition on_the_line :: "stream_line \<Rightarrow> (py_text option \<Rightarrow> stream_line list) \<Rightarrow> (py_text option \<Rightarrow> bool) \<Rightarrow>
  stream_line list \<Rightarrow> history \<Rightarrow> history" where
  "on_the_line l held marked skipped h =
     (let key = sl_parent_tool_use_id l
      in h\<lparr>hs_held := held, hs_marked := marked, hs_skipped := skipped, hs_lines := hs_lines h @ [l],
           hs_now := (hs_now h)(key := hs_now h key @ [l])\<rparr>)"

lemma on_the_line_fields [simp]:
  "hs_held (on_the_line l x m sk h) = x" "hs_marked (on_the_line l x m sk h) = m" "hs_skipped (on_the_line l x m sk h) = sk"
  "hs_lines (on_the_line l x m sk h) = hs_lines h @ [l]" "hs_told (on_the_line l x m sk h) = hs_told h"
  "hs_now (on_the_line l x m sk h) = (hs_now h)(sl_parent_tool_use_id l := hs_now h (sl_parent_tool_use_id l) @ [l])"
  "hs_whole (on_the_line l x m sk h) = hs_whole h"
  by (simp_all add: on_the_line_def Let_def)

lemma whole_same: "whole_ok h \<Longrightarrow> hs_told h' = hs_told h \<Longrightarrow> hs_whole h' = hs_whole h \<Longrightarrow> whole_ok h'"
  by (simp add: whole_ok_def)

lemma open_cong:
  "early (s\<lparr>as_open_chats := x\<rparr>) = early s" "evicted_id (s\<lparr>as_open_chats := x\<rparr>) = evicted_id s"
  "subs_ok (s\<lparr>as_open_chats := x\<rparr>) = subs_ok s" "chat_spans (s\<lparr>as_open_chats := x\<rparr>) = chat_spans s"
  subgoal by (rule early_cong) simp_all
  subgoal by (rule evicted_id_cong) simp
  by (simp_all add: subs_ok_def chat_spans_def)

lemma open_keeps_books:
  assumes b: "books w s h" and n: "map_of (as_open_chats s) key = None" "early s key = None" "evicted_id s key = None"
    and r: "represents w c [l] m" and key: "key = sl_parent_tool_use_id l"
    and now: "hs_now h key = [] \<or> same_response l (hs_now h key) \<and> m"
    and s': "s' = s\<lparr>as_open_chats := AList.update key c (as_open_chats s)\<rparr>"
    and h': "h' = on_the_line l ((hs_held h)(key := [l])) ((hs_marked h)(key := m)) (hs_skipped h) h"
  shows "books w s' h'"
proof -
  have held: "hs_held h key = []" "hs_now h key = [] \<or> marked_within (hs_told h) key (hs_now h key)"
    using books_thread [OF b, of key] n(1) by (auto simp: thread_ok_def)
  have t: "thread_ok w s' h' k" for k
  proof (cases "k = key")
    case True
    have "held_ok w c [l] (hs_now h key @ [l]) m" using r now by (auto simp: held_ok_def same_response_def)
    moreover have "marked_within (hs_told h) key (hs_now h key) \<Longrightarrow> marked_within (hs_told h) key (hs_now h key @ [l])"
      by (rule marked_within_mono) auto
    ultimately show ?thesis using True n held key
      by (auto simp: thread_ok_def s' h' open_cong map_of_update)
  next
    case False
    then show ?thesis
      by (intro thread_ok_other [OF books_thread [OF b, of k]]) (simp_all add: s' h' open_cong map_of_update key)
  qed
  have "key \<notin> set (map fst (as_open_chats s))" using n(1) by (simp add: map_of_eq_None_iff)
  then have ks: "map fst (as_open_chats s') = map fst (as_open_chats s) @ [key]" by (simp add: s' update_keys)
  have sh: "shipped_ok w s' h'"
    using b by (simp add: books_def shipped_ok_def s' h' open_cong distinct_update)
  have wh: "whole_ok h'" using b by (intro whole_same [of h h']) (simp_all add: books_def h')
  have "map ((hs_held h)(key := [l])) (map fst (as_open_chats s)) = map (hs_held h) (map fst (as_open_chats s))"
    using \<open>key \<notin> _\<close> by (intro map_cong) auto
  then have "concat (map (hs_held h') (map fst (as_open_chats s'))) =
      concat (map (hs_held h) (map fst (as_open_chats s))) @ [l]"
    unfolding ks by (simp add: h' del: map_map map_eq_conv)
  then have li: "lines_ok s' h'" using b by (simp add: books_def lines_ok_def h' del: map_map)
  show ?thesis using t sh wh li by (simp add: books_def)
qed

text \<open>A line folds into the held response of its thread.\<close>

lemma fold_keeps_books:
  assumes b: "books w s h" and o: "map_of (as_open_chats s) key = Some c" and key: "key = sl_parent_tool_use_id l"
    and r: "represents w c' (hs_held h key @ [l]) (hs_marked h key)"
    and s': "s' = s\<lparr>as_open_chats := AList.update key c' (as_open_chats s)\<rparr>"
    and h': "h' = on_the_line l ((hs_held h)(key := hs_held h key @ [l])) (hs_marked h) (hs_skipped h) h"
  shows "books w s' h'"
proof -
  note k0 = open_represents [OF b o]
  have t: "thread_ok w s' h' k" for k
  proof (cases "k = key")
    case True
    have "held_ok w c' (hs_held h key @ [l]) (hs_now h key @ [l]) (hs_marked h key)"
      using k0(1) r by (auto simp: held_ok_def represents_def)
    moreover have "marked_within (hs_told h) key (hs_now h key) \<Longrightarrow> marked_within (hs_told h) key (hs_now h key @ [l])"
      by (rule marked_within_mono) auto
    ultimately show ?thesis using True k0 books_thread [OF b, of key] o key
      by (auto simp: thread_ok_def s' h' open_cong map_of_update)
  next
    case False
    then show ?thesis
      by (intro thread_ok_other [OF books_thread [OF b, of k]]) (simp_all add: s' h' open_cong map_of_update key)
  qed
  have in_ks: "key \<in> set (map fst (as_open_chats s))" using o by (force dest: map_of_SomeD)
  then have ks: "map fst (as_open_chats s') = map fst (as_open_chats s)" by (simp add: s' update_keys)
  have dist: "distinct (map fst (as_open_chats s))" using b by (simp add: books_def shipped_ok_def)
  have sh: "shipped_ok w s' h'"
    using b by (simp add: books_def shipped_ok_def s' h' open_cong distinct_update)
  have wh: "whole_ok h'" using b by (intro whole_same [of h h']) (simp_all add: books_def h')
  have "(hs_held h')(key := []) = (hs_held h)(key := [])" by (simp add: h')
  then have li: "lines_ok s' h'"
    using b unfolding books_def lines_ok_def ks held_removed [OF dist in_ks, of "hs_held h"]
      held_removed [OF dist in_ks, of "hs_held h'"] by (simp add: h')
  show ?thesis using t sh wh li by (simp add: books_def)
qed

text \<open>A later line of a response that was shipped is in no span.\<close>

lemma skip_keeps_books:
  assumes b: "books w s h" and n: "map_of (as_open_chats s) (sl_parent_tool_use_id l) = None"
    and l: "same_response l (hs_now h (sl_parent_tool_use_id l))"
    and h': "h' = on_the_line l (hs_held h) (hs_marked h) (hs_skipped h @ [l]) h"
  shows "books w s h'"
proof -
  let ?k = "sl_parent_tool_use_id l"
  have t: "thread_ok w s h' k" for k
  proof (cases "k = ?k")
    case True
    have "marked_within (hs_told h) ?k (hs_now h ?k) \<Longrightarrow> marked_within (hs_told h) ?k (hs_now h ?k @ [l])"
      by (rule marked_within_mono) auto
    then show ?thesis using True books_thread [OF b, of ?k] n l
      by (auto simp: thread_ok_def h' gone_ok_def same_response_def)
  next
    case False
    then show ?thesis
      by (intro thread_ok_other [OF books_thread [OF b, of k]]) (simp_all add: h')
  qed
  have sh: "shipped_ok w s h'" using b by (simp add: books_def shipped_ok_def h')
  have wh: "whole_ok h'" using b by (intro whole_same [of h h']) (simp_all add: books_def h')
  have li: "lines_ok s h'" using b by (simp add: books_def lines_ok_def h')
  show ?thesis using t sh wh li by (simp add: books_def)
qed

section \<open>A line of a response\<close>

lemma close_nothing:
  assumes "as_bridge s = None" "map_of (as_open_chats s) key = None" "early s key = None" "evicted_id s key = None"
  shows "same_chats s (close_chats w [key] s)"
proof -
  have rep: "\<exists>ls m. represents w c ls m" if "map_of (as_open_chats s) key = Some c" for c using that assms(2) by simp
  define s' where "s' = close_chats w [key] s"
  note c = close_chats_effect [OF assms(1) s'_def rep, unfolded s'_def]
  have "chat_spans (close_chats w [key] s) = chat_spans s" using c(7) assms(2) by auto
  then have f: "as_forgot_early_close (close_chats w [key] s) = as_forgot_early_close s"
    "as_bridge (close_chats w [key] s) = None" "early (close_chats w [key] s) = (early s)(key := None)"
    "subs_ok s \<Longrightarrow> subs_ok (close_chats w [key] s)" "chat_spans (close_chats w [key] s) = chat_spans s"
    using c(3-6) assms(2) by auto
  have "key \<notin> fst ` set (as_open_chats s)" using assms(2) by (simp add: map_of_eq_None_iff)
  then have "as_open_chats (close_chats w [key] s) = as_open_chats s" by (simp add: c(1) delete_id)
  moreover have "as_evicted_chats (close_chats w [key] s) = as_evicted_chats s"
    using assms(4) by (auto simp: c(2) evicted_id_def delete_id map_of_eq_None_iff split: option.splits)
  moreover have "(early s)(key := None) = early s" using assms(3) by auto
  ultimately show ?thesis using f assms(1) by (simp add: same_chats_def)
qed

lemma new_response_effect:
  assumes b: "books w s h" and n: "new_response w l now s = (chat, s')"
    and key: "key = sl_parent_tool_use_id l"
    and h': "h' = (if same_response l (hs_now h key) then h else end_history w key s h)"
    and l: "\<not> shipped_early l s" "\<And>c. map_of (as_open_chats s) key = Some c \<Longrightarrow> \<not> continues c l"
  obtains c where "chat = Some c" "represents w c [l] (may_repeat key s)" "books w s' h'"
    "as_open_chats s' = AList.delete key (as_open_chats s)" "early s' key = None" "evicted_id s' key = None"
    "hs_now h' key = [] \<or> same_response l (hs_now h' key) \<and> may_repeat key s"
proof -
  have bridge: "as_bridge s = None" using b by (simp add: books_def shipped_ok_def)
  have rep: "\<exists>ls m. represents w c ls m" if "map_of (as_open_chats s) key = Some c" for c
    using open_represents(2) [OF b that] by blast
  define s1 where "s1 = close_chats w [key] s"
  note c = close_chats_effect [OF bridge s1_def rep]
  have s1: "as_open_chats s1 = AList.delete key (as_open_chats s)" "early s1 key = None" "evicted_id s1 key = None"
    by (simp_all add: c(1,5) evicted_deleted [OF c(2)])
  have h1: "books w s1 h' \<and> (hs_now h' key = [] \<or> same_response l (hs_now h' key) \<and> may_repeat key s)"
  proof (cases "same_response l (hs_now h key)")
    case True
    have none: "map_of (as_open_chats s) key = None"
    proof (rule ccontr)
      assume "map_of (as_open_chats s) key \<noteq> None"
      then obtain held where held: "map_of (as_open_chats s) key = Some held" by blast
      have "oc_message_id held = sl_message_id (hd (hs_now h key))"
        using open_represents(1) [OF b held] by (simp add: held_ok_def represents_def)
      then have "continues held l" using True unfolding continues_def same_response_def by metis
      then show False using l(2) held by blast
    qed
    then have "early s key = None" "evicted_id s key = None" "may_repeat key s"
      using books_thread [OF b, of key] True l(1) key
      by (auto simp: thread_ok_def gone_ok_def shipped_early_memory may_repeat_memory same_response_def
          split: if_splits option.splits)
    then show ?thesis
      using books_same [OF b close_nothing [OF bridge none]] True h' by (simp add: s1_def)
  next
    case False
    then show ?thesis using end_keeps_books(1,3) [OF b s1_def refl] h' by simp
  qed
  define s2 where "s2 = s1\<lparr>as_turn_index := Suc (as_turn_index s1)\<rparr>"
  obtain c s3 where g: "begin_chat w l now s2 = (Some c, s3)" "represents w c [l] False" "same_chats s2 s3"
    by (metis begin_chat_effect surj_pair)
  have s3: "same_chats s1 s3" using same_chats_trans [OF _ g(3)] same_fields(11) by (simp add: s2_def)
  have new: "new_response w l now s =
      (Some (if may_repeat key s then c\<lparr>oc_draft := put_marker (Member SESSION_ENTRY_TABLE_FULL) (oc_draft c)\<rparr> else c), s3)"
    unfolding new_response_def Let_def key [symmetric] s1_def [symmetric] s2_def [symmetric] g(1) by simp
  show thesis
  proof (rule that)
    show "chat = Some (if may_repeat key s then c\<lparr>oc_draft := put_marker (Member SESSION_ENTRY_TABLE_FULL) (oc_draft c)\<rparr> else c)"
      using new n by simp
    show "represents w (if may_repeat key s then c\<lparr>oc_draft := put_marker (Member SESSION_ENTRY_TABLE_FULL) (oc_draft c)\<rparr> else c)
        [l] (may_repeat key s)"
      using g(2) represents_marked by simp
    show "books w s' h'" using books_same [OF _ s3] h1 new n by simp
    show "as_open_chats s' = AList.delete key (as_open_chats s)" "early s' key = None" "evicted_id s' key = None"
      using same_memory [OF s3] s1 new n by simp_all
    show "hs_now h' key = [] \<or> same_response l (hs_now h' key) \<and> may_repeat key s" using h1 by blast
  qed
qed

lemma install_effect:
  assumes b: "books w s h" and n: "map_of (as_open_chats s) key = None" "early s key = None" "evicted_id s key = None"
    and r: "represents w c [l] m" and key: "key = sl_parent_tool_use_id l"
    and now: "hs_now h key = [] \<or> same_response l (hs_now h key) \<and> m" and w: "0 < aw_max_entries w"
    and s': "s' = install_chat w key c s"
    and h1: "h1 = (if length (as_open_chats s) < aw_max_entries w then h
                   else tell w True (fst (hd (as_open_chats s))) (snd (hd (as_open_chats s))) h)"
  shows "books w s' (on_the_line l ((hs_held h1)(key := [l])) ((hs_marked h1)(key := m)) (hs_skipped h1) h1)"
proof -
  obtain e rest s1 where rm: "room_for w (as_open_chats s) ''open_chat'' s = (e, rest, s1)" by (metis prod_cases3)
  from rm w show ?thesis
  proof (cases rule: room_for_cases)
    case 1
    then have "s' = s\<lparr>as_open_chats := AList.update key c (as_open_chats s)\<rparr>"
      by (simp add: s' install_chat_def rm)
    then show ?thesis using 1(4) h1 by (intro open_keeps_books [OF b n r key now]) simp_all
  next
    case (2 p nm)
    obtain k old where p: "p = (k, old)" by (cases p)
    define s2 where "s2 = remember_early_close w k (oc_message_id old) (ship_chat w True old (s1\<lparr>as_open_chats := rest\<rparr>))"
    have t: "same_chats s s1" using 2(3) same_tick by simp
    have o: "as_open_chats s1 = (k, old) # rest" using 2(2) p by (simp add: same_memory(1) [OF t])
    have full: "\<not> length (as_open_chats s) < aw_max_entries w"
      using rm 2(1) by (auto simp: room_for_def evict_oldest_def split: if_splits)
    have h1': "h1 = tell w True k old h" using full 2(2) p h1 by simp
    note ev = evict_keeps_books [OF books_same [OF b t] o w s2_def h1']
    have kk: "key \<noteq> k" using n(1) 2(2) p by auto
    have "map_of rest key = None" using n(1) 2(2) p kk by simp
    moreover have "early s2 key = None" "evicted_id s2 key = None"
      using ev(3) [OF kk] n(2,3) by (simp_all add: same_memory(2,3) [OF t])
    moreover have "hs_now h1 key = hs_now h key" by (simp add: h1' tell_fields)
    moreover have "s' = s2\<lparr>as_open_chats := AList.update key c (as_open_chats s2)\<rparr>"
      by (simp add: s' install_chat_def rm 2(1) p s2_def Let_def)
    ultimately show ?thesis using now
      by (intro open_keeps_books [OF ev(1) _ _ _ r key]) (simp_all add: ev(2))
  qed
qed

lemma current_line_same:
  "same_response l (hs_now h (sl_parent_tool_use_id l)) \<Longrightarrow>
   current_line l h = on_the_line l (hs_held h) (hs_marked h) (hs_skipped h) h"
  by (simp add: current_line_def on_the_line_def Let_def)

lemma current_line_opened:
  assumes key: "key = sl_parent_tool_use_id l" and h1: "h1 = (if same_response l (hs_now h key) then h else end_history w key s h)"
    and none: "same_response l (hs_now h key) \<Longrightarrow> map_of (as_open_chats s) key = None"
    and rest: "rest = AList.delete key (as_open_chats s)"
    and h2: "h2 = (if length rest < aw_max_entries w then h1 else tell w True (fst (hd rest)) (snd (hd rest)) h1)"
  shows "current_line l (open_history w l s h) =
    on_the_line l ((hs_held h2)(key := [l])) ((hs_marked h2)(key := may_repeat key s)) (hs_skipped h2) h2"
proof (cases "same_response l (hs_now h key)")
  case True
  then show ?thesis using none
    by (simp add: current_line_def open_history_def on_the_line_def h1 h2 rest key tell_held_def Let_def tell_fields)
next
  case False
  have "hs_now (tell_held w key s h) = hs_now h" by (simp add: tell_held_def tell_fields split: option.split)
  then show ?thesis using False
    by (simp add: current_line_def open_history_def on_the_line_def h1 h2 rest key end_history_def end_current_def
        Let_def tell_fields)
qed

lemma same_count_conditions [frame]: "same_chats s (count_conditions l s)"
  using same_chats_trans [OF same_tick same_tick] by (simp add: count_conditions_def Let_def same_tick)

lemma line_apart_keeps_books:
  assumes b: "books w s h" and w: "0 < aw_max_entries w"
    and l: "\<And>c. map_of (as_open_chats s) (sl_parent_tool_use_id l) = Some c \<Longrightarrow> \<not> continues c l"
  shows "books w (line_apart w l now s) (line_history w l s h)"
proof -
  define key where "key = sl_parent_tool_use_id l"
  have opened: "\<not> (case map_of (as_open_chats s) key of None \<Rightarrow> False | Some held \<Rightarrow> continues held l)"
    using l by (simp add: key_def split: option.split)
  show ?thesis
  proof (cases "shipped_early l s")
    case True
    then have m: "sl_message_id l \<noteq> None" "early s key = sl_message_id l \<or> evicted_id s key = sl_message_id l"
      by (simp_all add: shipped_early_memory key_def)
    then have none: "map_of (as_open_chats s) key = None"
      using open_represents(3,4) [OF b, of key] by (cases "map_of (as_open_chats s) key") auto
    moreover have same: "same_response l (hs_now h key)"
      using m none books_thread [OF b, of key]
      by (auto simp: thread_ok_def gone_ok_def same_response_def split: if_splits option.splits)
    ultimately have k: "books w s (on_the_line l (hs_held h) (hs_marked h) (hs_skipped h @ [l]) h)"
      by (intro skip_keeps_books [OF b]) (simp_all add: key_def)
    have "line_history w l s h = on_the_line l (hs_held h) (hs_marked h) (hs_skipped h @ [l]) h"
      using True opened same by (simp add: line_history_def Let_def key_def current_line_same on_the_line_def)
    moreover have "same_chats s (line_apart w l now s)"
      using True same_chats_trans [OF same_tick same_mark_thread] by (simp add: line_apart_def Let_def)
    ultimately show ?thesis using books_same [OF k] by simp
  next
    case False
    define h1 where "h1 = (if same_response l (hs_now h key) then h else end_history w key s h)"
    obtain chat s1 where n: "new_response w l now s = (chat, s1)" by fastforce
    have "map_of (as_open_chats s) key = Some c \<Longrightarrow> \<not> continues c l" for c using l by (simp add: key_def)
    from new_response_effect [OF b n key_def h1_def False this]
    obtain c where c: "chat = Some c" "represents w c [l] (may_repeat key s)" "books w s1 h1"
      "as_open_chats s1 = AList.delete key (as_open_chats s)" "early s1 key = None" "evicted_id s1 key = None"
      "hs_now h1 key = [] \<or> same_response l (hs_now h1 key) \<and> may_repeat key s" by blast
    define s2 where "s2 = mark_thread w key now True s1"
    have t: "same_chats s1 s2" by (simp add: s2_def same_mark_thread)
    have s2: "map_of (as_open_chats s2) key = None" "early s2 key = None" "evicted_id s2 key = None"
      "as_open_chats s2 = AList.delete key (as_open_chats s)"
      using c(4-6) by (simp_all add: same_memory(1-3) [OF t] delete_conv')
    have none: "map_of (as_open_chats s) key = None" if "same_response l (hs_now h key)"
    proof (cases "map_of (as_open_chats s) key")
      case (Some held)
      have "oc_message_id held = sl_message_id (hd (hs_now h key))"
        using open_represents(1) [OF b Some] by (simp add: held_ok_def represents_def)
      then have "continues held l" using that unfolding continues_def same_response_def by metis
      then show ?thesis using l Some by (simp add: key_def)
    qed
    have "line_apart w l now s = install_chat w key c s2"
      using False by (simp add: line_apart_def Let_def n c(1) s2_def key_def)
    moreover have "line_history w l s h = current_line l (open_history w l s h)"
      using False opened by (simp add: line_history_def Let_def key_def)
    moreover note ins = install_effect [OF books_same [OF c(3) t] s2(1-3) c(2) key_def c(7) w refl refl]
    note cl = current_line_opened [OF key_def h1_def none s2(4) refl]
    ultimately show ?thesis using ins unfolding cl by (simp only:)
  qed
qed

lemma emit_keeps_books:
  assumes b0: "books w s0 h" and w: "0 < aw_max_entries w"
  shows "books w (emit_chat w l now s0) (line_history w l s0 h)"
proof -
  define s where "s = count_conditions l s0"
  define key where "key = sl_parent_tool_use_id l"
  have t: "same_chats s0 s" by (simp add: s_def same_count_conditions)
  have b: "books w s h" by (rule books_same [OF b0 t])
  have hist: "line_history w l s0 h = line_history w l s h"
    by (simp add: line_history_def open_history_def tell_held_def same_memory [OF t] Let_def)
  show ?thesis
  proof (cases "\<exists>held. map_of (as_open_chats s) key = Some held \<and> continues held l")
    case True
    then obtain held where held: "map_of (as_open_chats s) key = Some held" "continues held l" by blast
    obtain ok chat s1 where f: "fold_chat w l now held s = (ok, chat, s1)" by (metis prod_cases3)
    note fe = fold_chat_effect [OF f open_represents(2) [OF b held(1)] held(2)]
    have o: "map_of (as_open_chats s1) key = Some held" by (simp add: same_memory(1) [OF fe(2)] held(1))
    define h' where "h' = on_the_line l ((hs_held h)(key := hs_held h key @ [l])) (hs_marked h) (hs_skipped h) h"
    have "same_response l (hs_now h key)"
      using open_represents(1) [OF b held(1)] held(2)
      unfolding held_ok_def represents_def continues_def same_response_def by metis
    then have "line_history w l s h = h'"
      using held by (simp add: line_history_def key_def current_line_same h'_def) (simp add: on_the_line_def)
    moreover have "books w (s1\<lparr>as_open_chats := AList.update key chat (as_open_chats s1)\<rparr>) h'"
      by (rule fold_keeps_books [OF books_same [OF b fe(2)] o key_def fe(3) refl h'_def])
    ultimately show ?thesis
      using held fe(1) books_same [OF _ same_mark_thread]
      by (simp add: emit_chat_def Let_def s_def [symmetric] key_def [symmetric] f hist)
  next
    case False
    then have "emit_chat w l now s0 = line_apart w l now s"
      by (simp add: emit_chat_def Let_def s_def [symmetric] key_def [symmetric] split: option.split)
    then show ?thesis using line_apart_keeps_books [OF b w] False hist by (simp add: key_def)
  qed
qed

section \<open>A run\<close>

lemma close_deleted:
  assumes b: "books w s h" and s': "s' = s\<lparr>as_threads := AList.delete t (as_threads s)\<rparr>"
  shows "books w (close_chats w [Some t] s') (end_history w (Some t) s h)"
proof -
  have f: "as_open_chats s' = as_open_chats s" "as_evicted_chats s' = as_evicted_chats s" "as_bridge s' = None"
    "as_forgot_early_close s' = as_forgot_early_close s" "subs_ok s' = subs_ok s" "chat_spans s' = chat_spans s"
    and bridge: "as_bridge s = None"
    using b by (simp_all add: s' books_def shipped_ok_def subs_ok_def chat_spans_def)
  have e: "(early s')(Some t := None) = (early s)(Some t := None)"
    by (auto simp: s' early_def tracked_thread_def fun_eq_iff delete_conv' split: option.split)
  have rep: "\<exists>ls m. represents w c ls m" if "map_of (as_open_chats s) (Some t) = Some c" for c
    using open_represents(2) [OF b that] by blast
  have rep': "\<exists>ls m. represents w c ls m" if "map_of (as_open_chats s') (Some t) = Some c" for c
    using rep that by (simp add: f)
  define u where "u = close_chats w [Some t] s"
  define u' where "u' = close_chats w [Some t] s'"
  note c = close_chats_effect [OF bridge u_def rep] and c' = close_chats_effect [OF f(3) u'_def rep']
  have "subs_ok s" using b by (simp add: books_def shipped_ok_def)
  then have "subs_ok u'" using c'(6) f(5) by simp
  moreover have "chat_spans u' = chat_spans u" using c(7) c'(7) f(1,6) by simp
  ultimately have "same_chats u u'" using c(1-5) c'(1-5) f e by (simp add: same_chats_def)
  then show ?thesis using books_same [OF end_keeps_books(1) [OF b u_def refl]] by (simp add: u'_def)
qed

lemma close_then_delete:
  assumes b: "books w s h"
  shows "books w ((close_chats w [Some t] s)\<lparr>as_threads := AList.delete t (as_threads (close_chats w [Some t] s))\<rparr>)
    (end_history w (Some t) s h)"
proof -
  define u where "u = close_chats w [Some t] s"
  have bridge: "as_bridge s = None" using b by (simp add: books_def shipped_ok_def)
  have rep: "\<exists>ls m. represents w c ls m" if "map_of (as_open_chats s) (Some t) = Some c" for c
    using open_represents(2) [OF b that] by blast
  note c = close_chats_effect [OF bridge u_def rep]
  have "early (u\<lparr>as_threads := AList.delete t (as_threads u)\<rparr>) = (early u)(Some t := None)"
    by (auto simp: early_def tracked_thread_def fun_eq_iff delete_conv' split: option.split)
  then have "early (u\<lparr>as_threads := AList.delete t (as_threads u)\<rparr>) = early u" by (simp add: c(5))
  then have "same_chats u (u\<lparr>as_threads := AList.delete t (as_threads u)\<rparr>)"
    by (simp add: same_chats_def chat_spans_def subs_ok_def)
  then show ?thesis using books_same [OF end_keeps_books(1) [OF b u_def refl]] by (simp add: u_def)
qed

lemma end_history_same: "same_chats s s' \<Longrightarrow> end_history w key s' h = end_history w key s h"
  by (simp add: end_history_def tell_held_def same_memory)

lemma inbound_keeps_books:
  assumes b0: "books w s0 h" and w: "0 < aw_max_entries w"
  shows "books w (on_inbound w names l now s0) (inbound_history w l s0 h)"
proof -
  define s where "s = s0\<lparr>as_awaiting_result := awaiting_after (as_awaiting_result s0) l\<rparr>"
  have t: "same_chats s0 s" by (simp add: s_def same_fields)
  have b: "books w s h" by (rule books_same [OF b0 t])
  have bridge: "as_bridge s = None" using b by (simp add: books_def shipped_ok_def)
  have eh: "end_history w key s0 h = end_history w key s h" for key by (simp add: end_history_same [OF t])
  have run: "on_inbound w names l now s0 =
      (case sl_kind l of
           Session_init \<Rightarrow> session_init l s
         | Assistant_turn \<Rightarrow> fold (announce_tool w now) (sl_tool_uses l) (emit_chat w l now s)
         | Tool_result \<Rightarrow>
             (let (ended, s) = end_tool w (sl_parent_tool_use_id l) (sl_tool_result_id l) now
                                 (sl_launched_async l) (stream_tool_result w names l now s)
              in if ended then close_chats w [sl_tool_result_id l] s else s)
         | Stream_delta \<Rightarrow> note_chunk w (sl_parent_tool_use_id l) now s
         | Session_result \<Rightarrow> (close_chats w [None] s)\<lparr>as_result := Some l\<rparr>
         | Task_lifecycle \<Rightarrow>
             if sl_subtype l = Some (str_lit ''task_notification'') \<and> truthy_text (sl_task_tool_use_id l)
             then (let s = close_chats w [sl_task_tool_use_id l] s
                   in s\<lparr>as_threads := AList.delete (the (sl_task_tool_use_id l)) (as_threads s)\<rparr>)
             else s
         | Other_line \<Rightarrow> s)"
    unfolding on_inbound_def Let_def s_def by (rule refl)
  show ?thesis
  proof (cases "sl_kind l")
    case Session_init
    then show ?thesis using books_same [OF b same_session_init] by (simp add: run inbound_history_def)
  next
    case Assistant_turn
    have "line_history w l s0 h = line_history w l s h"
      by (simp add: line_history_def open_history_def tell_held_def same_memory [OF t] Let_def)
    then show ?thesis using Assistant_turn books_same [OF emit_keeps_books [OF b w] same_announce_tools]
      by (simp add: run inbound_history_def)
  next
    case Tool_result
    define s1 where "s1 = stream_tool_result w names l now s"
    define s2 where "s2 = mark_thread w (sl_parent_tool_use_id l) now False s1"
    have t2: "same_chats s s2"
      using same_chats_trans [OF same_stream_tool_result [OF bridge] same_mark_thread] by (simp add: s1_def s2_def)
    have b2: "books w s2 h" by (rule books_same [OF b t2])
    show ?thesis
    proof (cases "sl_tool_result_id l \<noteq> None \<and> \<not> sl_launched_async l")
      case True
      then obtain i where i: "sl_tool_result_id l = Some i" by blast
      show ?thesis using True Tool_result i close_deleted [OF b2 refl, of i] end_history_same [OF t2]
        by (simp add: run inbound_history_def end_tool_def Let_def s1_def [symmetric] s2_def [symmetric] eh)
    next
      case False
      then show ?thesis using Tool_result b2
        by (auto simp: run inbound_history_def end_tool_def Let_def s1_def [symmetric] s2_def [symmetric]
            split: option.split)
    qed
  next
    case Stream_delta
    then show ?thesis using books_same [OF b same_note_chunk] by (simp add: run inbound_history_def)
  next
    case Session_result
    then show ?thesis using books_same [OF end_keeps_books(1) [OF b refl refl] same_fields(7)]
      by (simp add: run inbound_history_def eh)
  next
    case Task_lifecycle
    show ?thesis
    proof (cases "sl_subtype l = Some (str_lit ''task_notification'') \<and> truthy_text (sl_task_tool_use_id l)")
      case True
      then obtain i where i: "sl_task_tool_use_id l = Some i" by (auto simp: truthy_text_def split: option.splits)
      show ?thesis using True Task_lifecycle i close_then_delete [OF b, of i]
        by (simp add: run inbound_history_def eh Let_def)
    next
      case False
      then show ?thesis using Task_lifecycle b by (auto simp: run inbound_history_def)
    qed
  next
    case Other_line
    then show ?thesis using b by (simp add: run inbound_history_def)
  qed
qed

lemma new_books: "books w (new_agent_session us u key t issued) new_history"
proof -
  let ?s = "new_agent_session us u key t issued"
  have "thread_ok w ?s new_history k" for k
    by (cases k) (simp_all add: thread_ok_def new_agent_session_def new_history_def gone_ok_def early_def
        tracked_thread_def evicted_id_def)
  then show ?thesis
    by (simp add: books_def shipped_ok_def whole_ok_def lines_ok_def new_agent_session_def new_history_def
        subs_ok_def chat_spans_def told_whole_def told_lines_def)
qed

lemma run_keeps_books:
  assumes "session_run w s h" "0 < aw_max_entries w" shows "books w s h"
  using assms(1)
proof (induction rule: session_run.induct)
  case (sr_new us u key t issued)
  show ?case by (rule new_books)
next
  case (sr_line s h names l now)
  show ?case by (rule inbound_keeps_books [OF sr_line.IH assms(2)])
next
  case (sr_write s h bridge l now)
  show ?case by (rule books_same [OF sr_write.IH same_on_outbound])
next
  case (sr_hook s h names event p t now inferred)
  have "as_bridge s = None" "subs_ok s" using sr_hook.IH by (simp_all add: books_def shipped_ok_def)
  then show ?case by (rule books_same [OF sr_hook.IH same_on_hook [OF _ _ assms(2)]])
next
  case (sr_others s h us)
  show ?case by (rule books_same [OF sr_others.IH same_fields(1)])
qed

section \<open>Whose lines, and which are left out\<close>

text \<open>The lines a span tells, and those a thread holds, are of one response of that thread; a line is left
  out only if its thread shipped a marked span of its response before.\<close>

definition one_response :: "py_text option \<Rightarrow> stream_line list \<Rightarrow> bool" where
  "one_response key ls \<longleftrightarrow>
     (\<forall>l \<in> set ls. sl_parent_tool_use_id l = key \<and> sl_message_id l = sl_message_id (hd ls))"

definition shipped_before :: "told list \<Rightarrow> stream_line \<Rightarrow> bool" where
  "shipped_before ts l \<longleftrightarrow> sl_message_id l \<noteq> None \<and>
     (\<exists>ls f. (sl_parent_tool_use_id l, ls, True, f) \<in> set ts \<and> ls \<noteq> [] \<and> sl_message_id (hd ls) = sl_message_id l)"

definition own_lines :: "history \<Rightarrow> bool" where
  "own_lines h \<longleftrightarrow>
     (\<forall>key. one_response key (hs_held h key) \<and> one_response key (hs_now h key)) \<and>
     (\<forall>(key, ls, marked, f) \<in> set (hs_told h). one_response key ls) \<and>
     (\<forall>l \<in> set (hs_skipped h). shipped_before (hs_told h) l)"

lemma one_response_simps [simp]:
  "one_response key []" "one_response key [l] \<longleftrightarrow> sl_parent_tool_use_id l = key"
  "ls \<noteq> [] \<Longrightarrow> one_response key (ls @ [l]) \<longleftrightarrow>
     one_response key ls \<and> sl_parent_tool_use_id l = key \<and> sl_message_id l = sl_message_id (hd ls)"
  by (auto simp: one_response_def)

lemma shipped_before_mono: "shipped_before ts l \<Longrightarrow> shipped_before (ts @ us) l"
  unfolding shipped_before_def set_append by blast

lemma own_lines_tell: "own_lines h \<Longrightarrow> own_lines (tell w b key c h)"
  by (auto simp: own_lines_def tell_fields shipped_before_mono)

lemma own_lines_tell_held: "own_lines h \<Longrightarrow> own_lines (tell_held w key s h)"
  by (simp add: tell_held_def own_lines_tell split: option.split)

lemma own_lines_end_current: "own_lines h \<Longrightarrow> own_lines (end_current key h)"
  by (auto simp: own_lines_def end_current_def)

lemma own_lines_end: "own_lines h \<Longrightarrow> own_lines (end_history w key s h)"
  by (simp add: end_history_def own_lines_tell_held own_lines_end_current)

lemma own_lines_current_line: "own_lines h \<Longrightarrow> own_lines (current_line l h)"
  by (auto simp: own_lines_def current_line_def Let_def end_current_def same_response_def)

lemma own_lines_open: "own_lines h \<Longrightarrow> own_lines (open_history w l s h)"
proof -
  assume "own_lines h"
  then have "own_lines (tell_held w key s h)" "own_lines (tell w True k c (tell_held w key s h))" for key k c
    by (simp_all add: own_lines_tell_held own_lines_tell)
  then show ?thesis by (auto simp: open_history_def Let_def own_lines_def)
qed

lemma own_lines_skipped:
  assumes b: "books w s h" and a: "own_lines h" and e: "shipped_early l s"
  shows "shipped_before (hs_told h) l"
proof -
  let ?k = "sl_parent_tool_use_id l"
  have m: "sl_message_id l \<noteq> None" "early s ?k = sl_message_id l \<or> evicted_id s ?k = sl_message_id l"
    using e by (simp_all add: shipped_early_memory)
  then have none: "map_of (as_open_chats s) ?k = None"
    using open_represents(3,4) [OF b, of ?k] by (cases "map_of (as_open_chats s) ?k") auto
  then have now: "hs_now h ?k \<noteq> []" "sl_message_id (hd (hs_now h ?k)) = sl_message_id l" "hs_held h ?k = []"
    using m books_thread [OF b, of ?k] by (auto simp: thread_ok_def gone_ok_def split: if_splits option.splits)
  then have "marked_within (hs_told h) ?k (hs_now h ?k)"
    using books_thread [OF b, of ?k] by (auto simp: thread_ok_def)
  then obtain ls f where ls: "(?k, ls, True, f) \<in> set (hs_told h)" "ls \<noteq> []" "set ls \<subseteq> set (hs_now h ?k)"
    by (auto simp: marked_within_def)
  then have "hd ls \<in> set (hs_now h ?k)" using hd_in_set by blast
  moreover have "one_response ?k (hs_now h ?k)" using a by (simp add: own_lines_def)
  ultimately have "sl_message_id (hd ls) = sl_message_id l" using now(2) by (simp add: one_response_def)
  then show ?thesis using m(1) ls(1,2) by (auto simp: shipped_before_def)
qed

lemma own_lines_line:
  assumes b: "books w s h" and a: "own_lines h"
  shows "own_lines (line_history w l s h)"
proof -
  let ?k = "sl_parent_tool_use_id l"
  have "own_lines (h\<lparr>hs_held := (hs_held h)(?k := hs_held h ?k @ [l])\<rparr>)"
    if held: "map_of (as_open_chats s) ?k = Some c" "continues c l" for c
  proof -
    have r: "represents w c (hs_held h ?k) (hs_marked h ?k)" by (rule open_represents(2) [OF b held(1)])
    then have "one_response ?k (hs_held h ?k @ [l])"
      using held(2) a unfolding represents_def continues_def own_lines_def by (metis one_response_simps(3))
    then show ?thesis using a by (simp add: own_lines_def)
  qed
  moreover have "own_lines (h\<lparr>hs_skipped := hs_skipped h @ [l]\<rparr>)" if "shipped_early l s"
    using a own_lines_skipped [OF b a that] by (auto simp: own_lines_def)
  moreover have "own_lines (open_history w l s h)" by (rule own_lines_open [OF a])
  ultimately show ?thesis unfolding line_history_def Let_def
    by (intro own_lines_current_line) (simp split: option.split)
qed

lemma run_keeps_own_lines:
  assumes "session_run w s h" "0 < aw_max_entries w" shows "own_lines h"
  using assms(1)
proof (induction rule: session_run.induct)
  case (sr_new us u key t issued)
  show ?case by (simp add: own_lines_def new_history_def)
next
  case (sr_line s h names l now)
  note line = own_lines_line [OF run_keeps_books [OF sr_line.hyps assms(2)] sr_line.IH, of l]
  show ?case using line own_lines_end [OF sr_line.IH] sr_line.IH
    by (auto simp: inbound_history_def split: stream_kind.split)
qed

end
