(* ===== verification/Agent_Claims.thy ===== *)
theory Agent_Claims
  imports Agent_Books Units_Claims
begin

text \<open>
  What an agent session's spans account for, over every run of it: each line in one place, each span
  its own lines, one unmarked span per response. The run \<open>demo_end\<close> is for the witnesses.
\<close>

section \<open>The claims\<close>

text \<open>C4: every line of a response the stream brought is in exactly one place, each as often as it came: in
  one shipped entry, in the entry its thread still holds, or among the lines left out, whatever else
  reaches the session, in any order. The lines of an entry are of one thread and one message; a line is left
  out only if a marked entry of its own thread and message was shipped before; and the chat spans
  the session captured are the shipped entries', in that order. (Whose lines an entry has is kept by
  \<open>history\<close>; what the span says of them is C5.)\<close>

theorem every_line_in_one_span:
  assumes "session_run w s h" "0 < aw_max_entries w"
  shows "mset (hs_lines h) = mset (told_lines (hs_told h)) + mset (hs_skipped h) +
      mset (concat (map (hs_held h) (map fst (as_open_chats s)))) \<and>
    chat_spans s = concat (map shipped_of (hs_told h)) \<and>
    (\<forall>(key, ls, marked, f) \<in> set (hs_told h). one_response key ls) \<and>
    (\<forall>key. one_response key (hs_held h key)) \<and>
    (\<forall>l \<in> set (hs_skipped h). shipped_before (hs_told h) l)"
  using run_keeps_books [OF assms] run_keeps_own_lines [OF assms]
  by (simp add: books_def lines_ok_def shipped_ok_def own_lines_def)

text \<open>C5: the chat spans a session handed to the client are those of its shipped entries, in order, and each tells
  its own lines and nothing else: the usage they report (\<open>told_usage\<close>: the last line that gives a count,
  the three input counts from one line), their content blocks in one array, and the marker of the bound
  exactly when the entry is marked: it was shipped early to make room, or opened on a thread whose
  early shipping may have been forgotten. An entry has no span only if \<open>finish\<close> refuses it, for
  a model name that ends in the word None or for an empty conversation id.\<close>

theorem shipped_spans_tell_their_lines:
  assumes "session_run w s h" "0 < aw_max_entries w"
  shows "chat_spans s = concat (map shipped_of (hs_told h)) \<and> (\<forall>t \<in> set (hs_told h). tells w t)"
  using run_keeps_books [OF assms] by (simp add: books_def shipped_ok_def)


definition demo_line :: "stream_kind \<Rightarrow> string \<Rightarrow> string \<Rightarrow> int \<Rightarrow> stream_line" where
  "demo_line k m parent n =
     \<lparr>sl_kind = k, sl_session_id = None, sl_model = None, sl_message_id = Some (str_lit m), sl_stop_reason = None,
      sl_parent_tool_use_id = (if parent = [] then None else Some (str_lit parent)), sl_tool_result_id = None,
      sl_launched_async = False, sl_subtype = None, sl_task_tool_use_id = None, sl_content_json = None,
      sl_tool_uses = [], sl_input_tokens = Some n, sl_output_tokens = None, sl_cache_read_tokens = None,
      sl_cache_creation_tokens = None, sl_usage_totals_unpaired = False, sl_usage_overflowed = False,
      sl_is_error = False\<rparr>"

definition demo_agent_world :: agent_world where
  "demo_agent_world =
     \<lparr>aw_max_entries = 1, aw_nearest = (\<lambda>n. PFin (of_int n)), aw_fadd = (\<lambda>a b. a),
      aw_span_id = (\<lambda>n. [word_of_nat n]), aw_stop = (\<lambda>t. t), aw_chat = (\<lambda>g. 0), aw_agent = (\<lambda>a. 0),
      aw_tool = (\<lambda>t. 0), aw_conversation = (\<lambda>c. 0), aw_conversation_id = (\<lambda>c. str_lit ''c'')\<rparr>"

definition demo_names :: names where
  "demo_names = (new_catalog 4, False)"

text \<open>With room for one response: the main thread's line, a sub-thread's that pushes it out, a later line of
  the main thread's response, and the end of its turn.\<close>

definition first_line :: stream_line where
  "first_line = demo_line Assistant_turn ''m1'' [] 5"

definition second_line :: stream_line where
  "second_line = demo_line Assistant_turn ''m2'' ''t'' 6"

definition third_line :: stream_line where
  "third_line = demo_line Assistant_turn ''m1'' [] 7"

definition demo_start :: "agent_session \<times> history" where
  "demo_start = (new_agent_session demo_one 0 (str_lit ''k'') 1 (str_lit ''c''), new_history)"

definition demo_step :: "stream_line \<Rightarrow> agent_session \<times> history \<Rightarrow> agent_session \<times> history" where
  "demo_step l sh =
     (on_inbound demo_agent_world demo_names l 7 (fst sh), inbound_history demo_agent_world l (fst sh) (snd sh))"

definition demo_end :: "agent_session \<times> history" where
  "demo_end = demo_step (demo_line Session_result ''m3'' [] 0)
     (demo_step third_line (demo_step second_line (demo_step first_line demo_start)))"

lemma demo_step_runs:
  "session_run demo_agent_world (fst sh) (snd sh) \<Longrightarrow>
   session_run demo_agent_world (fst (demo_step l sh)) (snd (demo_step l sh))"
  by (simp add: demo_step_def sr_line)

lemma demo_start_runs: "session_run demo_agent_world (fst demo_start) (snd demo_start)"
  by (simp add: demo_start_def sr_new)

lemma demo_end_runs: "session_run demo_agent_world (fst demo_end) (snd demo_end)"
  unfolding demo_end_def by (intro demo_step_runs demo_start_runs)

lemma demo_world_bound: "0 < aw_max_entries demo_agent_world"
  by (simp add: demo_agent_world_def)

lemma open_iff_held:
  assumes "books w s h" shows "map_of (as_open_chats s) key = None \<longleftrightarrow> hs_held h key = []"
  using books_thread [OF assms, of key] open_represents(2) [OF assms, of key]
  by (cases "map_of (as_open_chats s) key") (auto simp: thread_ok_def represents_def)

lemma only_open:
  assumes "books w s h" "\<And>k. hs_held h k \<noteq> [] \<longleftrightarrow> k = key"
  obtains c where "as_open_chats s = [(key, c)]"
proof -
  have d: "distinct (map fst (as_open_chats s))" using assms(1) by (simp add: books_def shipped_ok_def)
  have "k \<in> set (map fst (as_open_chats s)) \<longleftrightarrow> k = key" for k
    using open_iff_held [OF assms(1), of k] assms(2) [of k] by (auto simp: map_of_eq_None_iff)
  then have "set (map fst (as_open_chats s)) = {key}" by blast
  then have "length (map fst (as_open_chats s)) = 1" using distinct_card [OF d] by simp
  then obtain p where p: "as_open_chats s = [p]" by (auto simp: length_Suc_conv)
  then have "fst p = key" using \<open>set (map fst (as_open_chats s)) = {key}\<close> by simp
  then show thesis using that [of "snd p"] p by (cases p) simp
qed

lemma demo_first:
  "snd (demo_step first_line demo_start) =
     new_history\<lparr>hs_lines := [first_line], hs_now := (\<lambda>_. [])(None := [first_line]),
       hs_held := (\<lambda>_. [])(None := [first_line]), hs_marked := (\<lambda>_. False)(None := False)\<rparr>"
  by (simp add: demo_step_def demo_start_def inbound_history_def first_line_def demo_line_def line_history_def
      new_agent_session_def shipped_early_def tracked_thread_def open_history_def tell_held_def current_line_def
      may_repeat_def same_response_def new_history_def end_current_def demo_agent_world_def Let_def)

lemma demo_second:
  "\<exists>f m. snd (demo_step second_line (demo_step first_line demo_start)) =
     new_history\<lparr>hs_lines := [first_line, second_line],
       hs_now := (\<lambda>_. [])(None := [first_line], Some (str_lit ''t'') := [second_line]),
       hs_held := (\<lambda>_. [])(Some (str_lit ''t'') := [second_line]), hs_marked := m,
       hs_told := [(None, [first_line], True, f)]\<rparr>"
proof -
  obtain s h where sh: "demo_step first_line demo_start = (s, h)" by fastforce
  have b: "books demo_agent_world s h"
    using run_keeps_books [OF demo_step_runs [OF demo_start_runs] demo_world_bound, of first_line] sh by simp
  have h: "h = new_history\<lparr>hs_lines := [first_line], hs_now := (\<lambda>_. [])(None := [first_line]),
       hs_held := (\<lambda>_. [])(None := [first_line]), hs_marked := (\<lambda>_. False)(None := False)\<rparr>"
    using demo_first sh by simp
  have "\<And>k. hs_held h k \<noteq> [] \<longleftrightarrow> k = None" by (simp add: h new_history_def)
  then obtain c where o: "as_open_chats s = [(None, c)]" using only_open [OF b] by blast
  have key: "sl_parent_tool_use_id second_line = Some (str_lit ''t'')" "sl_kind second_line = Assistant_turn"
    "sl_message_id second_line \<noteq> None"
    by (simp_all add: second_line_def demo_line_def)
  have "thread_ok demo_agent_world s h (Some (str_lit ''t''))" by (rule books_thread [OF b])
  then have m: "early s (Some (str_lit ''t'')) = None" "evicted_id s (Some (str_lit ''t'')) = None"
    by (simp_all add: thread_ok_def o h gone_ok_def new_history_def)
  have early: "\<not> shipped_early second_line s" using key(3) by (auto simp: shipped_early_memory key(1) m)
  have "snd (demo_step second_line (s, h)) = current_line second_line (open_history demo_agent_world second_line s h)"
    using early by (simp add: demo_step_def inbound_history_def line_history_def Let_def key o)
  moreover have "(\<lambda>_. [])(None := [], k := v) = (\<lambda>_. [])(k := v)" for k and v :: "stream_line list"
    by (auto simp: fun_eq_iff)
  ultimately show ?thesis
    by (simp add: sh open_history_def current_line_def Let_def key o tell_held_def tell_def h same_response_def
        end_current_def demo_agent_world_def new_history_def)
qed

lemma demo_third:
  "\<exists>f m. snd (demo_step third_line (demo_step second_line (demo_step first_line demo_start))) =
     new_history\<lparr>hs_lines := [first_line, second_line, third_line],
       hs_now := (\<lambda>_. [])(None := [first_line, third_line], Some (str_lit ''t'') := [second_line]),
       hs_held := (\<lambda>_. [])(Some (str_lit ''t'') := [second_line]), hs_marked := m,
       hs_told := [(None, [first_line], True, f)], hs_skipped := [third_line]\<rparr>"
proof -
  obtain s h where sh: "demo_step second_line (demo_step first_line demo_start) = (s, h)" by fastforce
  have b: "books demo_agent_world s h"
    using run_keeps_books [OF demo_step_runs [OF demo_step_runs [OF demo_start_runs]] demo_world_bound, of second_line first_line]
      sh by simp
  obtain f m where h: "h = new_history\<lparr>hs_lines := [first_line, second_line],
       hs_now := (\<lambda>_. [])(None := [first_line], Some (str_lit ''t'') := [second_line]),
       hs_held := (\<lambda>_. [])(Some (str_lit ''t'') := [second_line]), hs_marked := m,
       hs_told := [(None, [first_line], True, f)]\<rparr>"
    using demo_second sh by auto
  have o: "map_of (as_open_chats s) None = None" by (simp add: open_iff_held [OF b] h new_history_def)
  have line: "sl_parent_tool_use_id third_line = None" "sl_kind third_line = Assistant_turn"
    "sl_message_id third_line = Some (str_lit ''m1'')" "sl_message_id first_line = Some (str_lit ''m1'')"
    by (simp_all add: third_line_def first_line_def demo_line_def)
  have "thread_ok demo_agent_world s h None" by (rule books_thread [OF b])
  then have "early s None = Some (str_lit ''m1'') \<or> evicted_id s None = Some (str_lit ''m1'')"
    by (auto simp: thread_ok_def o h gone_ok_def new_history_def line)
  then have early: "shipped_early third_line s" by (simp add: shipped_early_memory line)
  have "snd (demo_step third_line (s, h)) = current_line third_line (h\<lparr>hs_skipped := hs_skipped h @ [third_line]\<rparr>)"
    using early by (simp add: demo_step_def inbound_history_def line_history_def Let_def line o)
  then show ?thesis
    by (simp add: sh current_line_def Let_def line h same_response_def new_history_def) (auto simp: fun_eq_iff)
qed

lemma demo_end_history:
  "(\<exists>f. hs_told (snd demo_end) = [(None, [first_line], True, Some f)]) \<and>
     hs_whole (snd demo_end) = [(None, [first_line, third_line])] \<and> hs_skipped (snd demo_end) = [third_line] \<and>
     hs_lines (snd demo_end) = [first_line, second_line, third_line]"
proof -
  obtain s h where sh: "demo_step third_line (demo_step second_line (demo_step first_line demo_start)) = (s, h)" by fastforce
  have b: "books demo_agent_world s h"
    using run_keeps_books [OF demo_step_runs [OF demo_step_runs [OF demo_step_runs [OF demo_start_runs]]] demo_world_bound,
        of third_line second_line first_line] sh by simp
  obtain f m where h: "h = new_history\<lparr>hs_lines := [first_line, second_line, third_line],
       hs_now := (\<lambda>_. [])(None := [first_line, third_line], Some (str_lit ''t'') := [second_line]),
       hs_held := (\<lambda>_. [])(Some (str_lit ''t'') := [second_line]), hs_marked := m,
       hs_told := [(None, [first_line], True, f)], hs_skipped := [third_line]\<rparr>"
    using demo_third sh by auto
  have "tells demo_agent_world (None, [first_line], True, f)" using b by (simp add: books_def shipped_ok_def h)
  then have "f \<noteq> None"
    by (cases f) (simp_all add: tells_def refusable_def demo_agent_world_def first_line_def demo_line_def no_subject_def
        str_lit_def)
  then obtain g where f: "f = Some g" by blast
  have "map_of (as_open_chats s) None = None" by (simp add: open_iff_held [OF b] h new_history_def)
  then show ?thesis
    unfolding demo_end_def sh
    by (simp add: demo_step_def inbound_history_def demo_line_def end_history_def tell_held_def end_current_def
        h new_history_def f)
qed

text \<open>A response pushed out of the table: its first line is in a marked span, its later one is left out.\<close>

theorem every_line_in_one_span_witness:
  "\<exists>s h f. session_run demo_agent_world s h \<and> hs_lines h = [first_line, second_line, third_line] \<and>
     hs_skipped h = [third_line] \<and> hs_told h = [(None, [first_line], True, Some f)] \<and>
     mset (hs_lines h) = mset (told_lines (hs_told h)) + mset (hs_skipped h) +
       mset (concat (map (hs_held h) (map fst (as_open_chats s)))) \<and> chat_spans s = [f]"
proof -
  obtain f where f: "hs_told (snd demo_end) = [(None, [first_line], True, Some f)]" using demo_end_history by blast
  then show ?thesis
    using every_line_in_one_span [OF demo_end_runs demo_world_bound] demo_end_runs demo_end_history
    by (intro exI [of _ "fst demo_end"] exI [of _ "snd demo_end"] exI [of _ f]) (simp add: shipped_of_def)
qed

theorem shipped_spans_tell_their_lines_witness:
  "\<exists>s h f. session_run demo_agent_world s h \<and> hs_told h = [(None, [first_line], True, Some f)] \<and>
     chat_spans s = [f] \<and> tells demo_agent_world (None, [first_line], True, Some f)"
proof -
  obtain f where f: "hs_told (snd demo_end) = [(None, [first_line], True, Some f)]" using demo_end_history by blast
  then show ?thesis
    using shipped_spans_tell_their_lines [OF demo_end_runs demo_world_bound] demo_end_runs
    by (intro exI [of _ "fst demo_end"] exI [of _ "snd demo_end"] exI [of _ f]) (simp add: shipped_of_def)
qed


end
